(* ===== verification/Server_Prelude.thy ===== *)
theory Server_Prelude
  imports Main "HOL-Library.Word" "HOL-Library.Monad_Syntax"
begin

text \<open>
  Shared vocabulary of the development: the machine integer types of the C++ sources, raw memory
  as a list of bytes whose out-of-range accesses are the value \<open>None\<close>, the little-endian byte
  representation that \<open>memcpy\<close> of an integer produces, and the generic lemmas the components share.
  The locale \<open>fixed_codec\<close> is the contract of a fixed-width encoder, the locale
  \<open>invertible_step\<close> the contract of a keyed step that another keyed step undoes.
\<close>

unbundle bit_operations_syntax

section \<open>Machine integers and proof collections\<close>

type_synonym u8 = "8 word"
type_synonym u16 = "16 word"
type_synonym u32 = "32 word"
type_synonym u64 = "64 word"

text \<open>\<open>mem_simps\<close> holds the facts on reading and writing raw memory; \<open>codec_simps\<close> the
  length and inversion facts of the byte encodings; \<open>inv_intros\<close> the preservation facts of the
  components' invariants.\<close>

named_theorems mem_simps
named_theorems codec_simps
named_theorems inv_intros

lemma unat_lt2p: "unat (x :: 'a::len word) < 2 ^ LENGTH('a)"
  by (rule unsigned_less)

lemma unat8_lt [simp]: "unat (x :: u8) < 256"
  using unat_lt2p[of x] by simp

lemma unat16_lt [simp]: "unat (x :: u16) < 65536"
  using unat_lt2p[of x] by simp

section \<open>Raw memory\<close>

text \<open>\<open>mem_read buf p n\<close> is the copy of \<open>n\<close> bytes from \<open>buf + p\<close>, \<open>mem_write buf p bs\<close> the copy
  of \<open>bs\<close> to \<open>buf + p\<close>. Both are \<open>None\<close> when the access would leave the array, which is undefined
  behaviour in C++.\<close>

definition mem_read :: "'a list \<Rightarrow> nat \<Rightarrow> nat \<Rightarrow> 'a list option" where
  "mem_read buf p n = (if p + n \<le> length buf then Some (take n (drop p buf)) else None)"

definition mem_write :: "'a list \<Rightarrow> nat \<Rightarrow> 'a list \<Rightarrow> 'a list option" where
  "mem_write buf p bs =
     (if p + length bs \<le> length buf
      then Some (take p buf @ bs @ drop (p + length bs) buf) else None)"

lemma mem_read_Some_iff [mem_simps]:
  "mem_read buf p n = Some bs \<longleftrightarrow> p + n \<le> length buf \<and> bs = take n (drop p buf)"
  by (auto simp: mem_read_def)

lemma mem_read_length [mem_simps]: "mem_read buf p n = Some bs \<Longrightarrow> length bs = n"
  by (auto simp: mem_read_def split: if_splits)

lemma mem_write_length [mem_simps]: "mem_write buf p bs = Some buf' \<Longrightarrow> length buf' = length buf"
  by (auto simp: mem_write_def split: if_splits)

lemma mem_write_eq_None_iff [mem_simps]:
  "mem_write buf p bs = None \<longleftrightarrow> length buf < p + length bs"
  by (auto simp: mem_write_def)

lemma mem_read_eq_None_iff [mem_simps]:
  "mem_read buf p n = None \<longleftrightarrow> length buf < p + n"
  by (auto simp: mem_read_def)

lemma take_drop_split:
  assumes "a \<le> n"
  shows "take n (drop p xs) = take a (drop p xs) @ take (n - a) (drop (p + a) xs)"
proof -
  have "take n (drop p xs) = take (a + (n - a)) (drop p xs)" using assms by simp
  also have "\<dots> = take a (drop p xs) @ take (n - a) (drop a (drop p xs))" by (rule take_add)
  finally show ?thesis by (simp add: add.commute)
qed

lemma mem_read_write_same [mem_simps]:
  assumes "mem_write buf p bs = Some buf'"
  shows "mem_read buf' p (length bs) = Some bs"
  using assms by (auto simp: mem_write_def mem_read_def split: if_splits)

lemma mem_read_write_below [mem_simps]:
  assumes "mem_write buf p bs = Some buf'" and "q + n \<le> p"
  shows "mem_read buf' q n = mem_read buf q n"
proof -
  have "take n (drop q (take p buf)) = take n (drop q buf)"
    using assms(2) by (simp add: drop_take)
  then show ?thesis
    using assms by (auto simp: mem_write_def mem_read_def min_def split: if_splits)
qed

lemma mem_read_write_above [mem_simps]:
  assumes "mem_write buf p bs = Some buf'" and "p + length bs \<le> q"
  shows "mem_read buf' q n = mem_read buf q n"
proof -
  from assms have le: "p + length bs \<le> length buf"
    and buf': "buf' = take p buf @ bs @ drop (p + length bs) buf"
    by (auto simp: mem_write_def split: if_splits)
  have "drop q buf' = drop (q - (p + length bs)) (drop (p + length bs) buf)"
    using le assms(2) by (simp add: buf' min_def)
  then have "drop q buf' = drop q buf" using assms(2) by simp
  moreover have "length buf' = length buf" using le by (simp add: buf')
  ultimately show ?thesis by (simp add: mem_read_def)
qed

lemma mem_read_append [mem_simps]:
  "mem_read buf p n = Some xs \<Longrightarrow> mem_read buf (p + n) m = Some ys \<Longrightarrow>
   mem_read buf p (n + m) = Some (xs @ ys)"
  by (auto simp: mem_read_def take_add [of n m] add.commute [of n p] split: if_splits)

section \<open>Little-endian integers\<close>

text \<open>\<open>le_bytes n v\<close> are the \<open>n\<close> bytes of \<open>v\<close>, least significant first, as \<open>memcpy\<close> of an
  unsigned integer leaves them on the little-endian targets of the server.\<close>

fun le_bytes :: "nat \<Rightarrow> nat \<Rightarrow> u8 list" where
  "le_bytes 0 v = []"
| "le_bytes (Suc n) v = of_nat (v mod 256) # le_bytes n (v div 256)"

fun le_value :: "u8 list \<Rightarrow> nat" where
  "le_value [] = 0"
| "le_value (b # bs) = unat b + 256 * le_value bs"

lemma length_le_bytes [simp, codec_simps]: "length (le_bytes n v) = n"
  by (induction n arbitrary: v) auto

lemma unat_byte_of_nat [simp]: "unat (of_nat (v mod 256) :: u8) = v mod 256"
  by (simp add: unat_of_nat)

lemma le_value_le_bytes [codec_simps]: "le_value (le_bytes n v) = v mod 256 ^ n"
proof (induction n arbitrary: v)
  case 0
  then show ?case by simp
next
  case (Suc n)
  have "v mod 256 ^ Suc n = v mod 256 + 256 * (v div 256 mod 256 ^ n)"
    by (simp add: mod_mult2_eq)
  with Suc show ?case by simp
qed

lemma le_value_bound [codec_simps]: "le_value bs < 256 ^ length bs"
proof (induction bs)
  case Nil
  then show ?case by simp
next
  case (Cons b bs)
  have "unat b \<le> 255" using unat8_lt[of b] by linarith
  with Cons.IH have "unat b + 256 * le_value bs \<le> 255 + 256 * (256 ^ length bs - 1)"
    by (intro add_mono mult_le_mono2) auto
  also have "\<dots> < 256 ^ length (b # bs)" by (simp add: diff_mult_distrib2)
  finally show ?case by simp
qed

lemma le_bytes_le_value [codec_simps]: "le_bytes (length bs) (le_value bs) = bs"
proof (induction bs)
  case Nil
  then show ?case by simp
next
  case (Cons b bs)
  have b: "unat b < 256" by simp
  then have "(unat b + 256 * le_value bs) mod 256 = unat b"
    and "(unat b + 256 * le_value bs) div 256 = le_value bs" by auto
  with Cons show ?case by simp
qed

section \<open>Fixed-width codecs\<close>

locale fixed_codec =
  fixes enc :: "'a \<Rightarrow> u8 list" and dec :: "u8 list \<Rightarrow> 'a" and width :: nat
  assumes enc_length: "length (enc x) = width"
    and dec_enc: "dec (enc x) = x"
    and enc_dec: "length bs = width \<Longrightarrow> enc (dec bs) = bs"
begin

lemma enc_inj: "enc x = enc y \<longleftrightarrow> x = y"
  using dec_enc by metis

lemma read_back:
  assumes "mem_write buf p (enc x) = Some buf'"
  shows "map_option dec (mem_read buf' p width) = Some x"
  using mem_read_write_same[OF assms] by (simp add: enc_length dec_enc)

lemma dec_prefix: "dec (take width (enc x @ rest)) = x"
  by (simp add: enc_length dec_enc)

lemma drop_prefix: "drop width (enc x @ rest) = rest"
  by (simp add: enc_length)

end

definition le_enc8 :: "u8 \<Rightarrow> u8 list" where "le_enc8 w = le_bytes 1 (unat w)"
definition le_dec8 :: "u8 list \<Rightarrow> u8" where "le_dec8 bs = of_nat (le_value bs)"
definition le_enc16 :: "u16 \<Rightarrow> u8 list" where "le_enc16 w = le_bytes 2 (unat w)"
definition le_dec16 :: "u8 list \<Rightarrow> u16" where "le_dec16 bs = of_nat (le_value bs)"
definition le_enc32 :: "u32 \<Rightarrow> u8 list" where "le_enc32 w = le_bytes 4 (unat w)"
definition le_dec32 :: "u8 list \<Rightarrow> u32" where "le_dec32 bs = of_nat (le_value bs)"
definition le_enc64 :: "u64 \<Rightarrow> u8 list" where "le_enc64 w = le_bytes 8 (unat w)"
definition le_dec64 :: "u8 list \<Rightarrow> u64" where "le_dec64 bs = of_nat (le_value bs)"

lemma le_word_roundtrip:
  assumes "2 ^ LENGTH('a::len) = (256::nat) ^ n"
  shows "of_nat (le_value (le_bytes n (unat (w :: 'a word)))) = w"
proof -
  have "unat w mod 256 ^ n = unat w"
    using unat_lt2p[of w] assms by simp
  then show ?thesis by (simp add: le_value_le_bytes)
qed

lemma le_bytes_roundtrip:
  assumes "2 ^ LENGTH('a::len) = (256::nat) ^ n" and "length bs = n"
  shows "le_bytes n (unat (of_nat (le_value bs) :: 'a word)) = bs"
proof -
  have "le_value bs < 2 ^ LENGTH('a)" using le_value_bound[of bs] assms by simp
  then have "unat (of_nat (le_value bs) :: 'a word) = le_value bs"
    by (simp add: unat_of_nat)
  then show ?thesis using le_bytes_le_value[of bs] assms(2) by simp
qed

lemma le_codec:
  assumes "2 ^ LENGTH('a::len) = (256::nat) ^ n"
  shows "fixed_codec (\<lambda>w. le_bytes n (unat (w :: 'a word))) (\<lambda>bs. of_nat (le_value bs)) n"
  by unfold_locales (simp_all add: le_word_roundtrip [OF assms] le_bytes_roundtrip [OF assms])

lemmas le_enc_defs =
  le_enc8_def [abs_def] le_dec8_def [abs_def] le_enc16_def [abs_def] le_dec16_def [abs_def]
  le_enc32_def [abs_def] le_dec32_def [abs_def] le_enc64_def [abs_def] le_dec64_def [abs_def]

interpretation c8: fixed_codec le_enc8 le_dec8 1
  unfolding le_enc_defs by (rule le_codec) simp

interpretation c16: fixed_codec le_enc16 le_dec16 2
  unfolding le_enc_defs by (rule le_codec) simp

interpretation c32: fixed_codec le_enc32 le_dec32 4
  unfolding le_enc_defs by (rule le_codec) simp

interpretation c64: fixed_codec le_enc64 le_dec64 8
  unfolding le_enc_defs by (rule le_codec) simp

section \<open>Keyed steps and their inverses\<close>

locale invertible_step =
  fixes stp :: "'k \<Rightarrow> 'b \<Rightarrow> 'b" and unstp :: "'k \<Rightarrow> 'b \<Rightarrow> 'b"
  assumes unstp_stp: "unstp k (stp k b) = b"
begin

lemma fold_unstp_stp: "fold unstp (rev ks) (fold stp ks b) = b"
proof (induction ks arbitrary: b)
  case Nil
  then show ?case by simp
next
  case (Cons k ks)
  then show ?case by (simp add: unstp_stp)
qed

lemma fold_stp_inj: "fold stp ks b = fold stp ks b' \<longleftrightarrow> b = b'"
  by (metis fold_unstp_stp)

end

section \<open>Ordered maps\<close>

text \<open>\<open>std::map\<close> as an association list in key order, so that iteration is the list itself: lookup is
  \<^const>\<open>map_of\<close>, \<open>omap_put\<close> is assignment through \<open>operator[]\<close> and \<open>omap_del\<close> is \<open>erase\<close>.\<close>

fun omap_put :: "'k::linorder \<Rightarrow> 'v \<Rightarrow> ('k \<times> 'v) list \<Rightarrow> ('k \<times> 'v) list" where
  "omap_put k v [] = [(k, v)]"
| "omap_put k v ((k', v') # m) =
     (if k < k' then (k, v) # (k', v') # m else if k = k' then (k, v) # m else (k', v') # omap_put k v m)"

definition omap_del :: "'k \<Rightarrow> ('k \<times> 'v) list \<Rightarrow> ('k \<times> 'v) list" where
  "omap_del k m = filter (\<lambda>e. fst e \<noteq> k) m"

definition omap_ok :: "('k::linorder \<times> 'v) list \<Rightarrow> bool" where
  "omap_ok m \<longleftrightarrow> sorted_wrt (<) (map fst m)"

lemma map_of_omap_put [simp]: "map_of (omap_put k v m) = (map_of m)(k \<mapsto> v)"
  by (induction k v m rule: omap_put.induct) auto

lemma map_of_omap_del [simp]: "map_of (omap_del k m) = (map_of m)(k := None)"
  by (induction m) (auto simp: omap_del_def fun_eq_iff)

lemma set_omap_put: "fst ` set (omap_put k v m) = insert k (fst ` set m)"
  by (induction k v m rule: omap_put.induct) auto

lemma omap_ok_Nil [simp]: "omap_ok []"
  by (simp add: omap_ok_def)

lemma omap_ok_put [inv_intros]: "omap_ok m \<Longrightarrow> omap_ok (omap_put k v m)"
proof (induction k v m rule: omap_put.induct)
  case (2 k v k' v' m)
  then show ?case using set_omap_put[of k v m] by (fastforce simp: omap_ok_def)
qed (simp add: omap_ok_def)

lemma omap_ok_del [inv_intros]: "omap_ok m \<Longrightarrow> omap_ok (omap_del k m)"
  by (induction m) (auto simp: omap_ok_def omap_del_def)

lemma omap_ok_map_of: "omap_ok m \<Longrightarrow> (k, v) \<in> set m \<longleftrightarrow> map_of m k = Some v"
  by (metis omap_ok_def map_of_eq_Some_iff strict_sorted_iff)

section \<open>Systems with an invariant\<close>

text \<open>Partial operations on a state that keep an invariant whenever they are allowed: then every sequence of
  allowed operations keeps it, and an allowed operation never fails after such a sequence.\<close>

locale invariant_system =
  fixes inv :: "'s \<Rightarrow> bool" and step :: "'op \<Rightarrow> 's \<Rightarrow> 's option" and allowed :: "'op \<Rightarrow> 's \<Rightarrow> bool"
  assumes step_inv: "inv s \<Longrightarrow> allowed x s \<Longrightarrow> \<exists>s'. step x s = Some s' \<and> inv s'"
begin

inductive steps :: "'s \<Rightarrow> 's \<Rightarrow> bool" where
  stop: "steps s s"
| more: "allowed x s \<Longrightarrow> step x s = Some s' \<Longrightarrow> steps s' s'' \<Longrightarrow> steps s s''"

lemma steps_inv: "steps s s' \<Longrightarrow> inv s \<Longrightarrow> inv s'"
proof (induction rule: steps.induct)
  case (more x s s' s'')
  then show ?case using step_inv[of s x] by auto
qed

lemma progress: "steps s s' \<Longrightarrow> inv s \<Longrightarrow> allowed x s' \<Longrightarrow> \<exists>s''. step x s' = Some s''"
  using steps_inv step_inv by blast

end


section \<open>Stores\<close>

text \<open>Operations that may fail, one after the other.\<close>

fun bind_all :: "('c \<Rightarrow> 's \<Rightarrow> 's option) \<Rightarrow> 'c list \<Rightarrow> 's \<Rightarrow> 's option" where
  "bind_all put [] s = Some s"
| "bind_all put (c # cs) s = Option.bind (put c s) (bind_all put cs)"

text \<open>A component that keeps an invariant never fails, and is seen through a view of its state.\<close>

locale refined_store =
  fixes inv :: "'s \<Rightarrow> bool" and look :: "'s \<Rightarrow> 'v" and put :: "'c \<Rightarrow> 's \<Rightarrow> 's option" and upd :: "'c \<Rightarrow> 'v \<Rightarrow> 'v"
  assumes put_ok: "inv s \<Longrightarrow> \<exists>s'. put c s = Some s' \<and> inv s' \<and> look s' = upd c (look s)"
begin

lemma puts_ok: "inv s \<Longrightarrow> \<exists>s'. bind_all put cs s = Some s' \<and> inv s' \<and> look s' = fold upd cs (look s)"
proof (induction cs arbitrary: s)
  case (Cons c cs)
  obtain s1 where "put c s = Some s1" "inv s1" "look s1 = upd c (look s)" using put_ok[OF Cons.prems] by metis
  then show ?case using Cons.IH[of s1] by simp
qed simp

end

end
