(* ===== verification/File_Loader.thy ===== *)
theory File_Loader
  imports Server_Prelude
begin

text \<open>
  \<open>src/src/fileloader.h\<close> and \<open>fileloader.cpp\<close>: the property streams in which items, players and houses are stored, and
  the loader of the OTB format of the map and item files. A stream under reading is the list of its remaining
  bytes, one under writing its buffer. Iterators into the mapped file are positions; a node carries the
  positions between which its raw, still escaped properties lie. Memory mapping is not modelled.
\<close>

section \<open>Property streams\<close>

definition prop_read :: "nat \<Rightarrow> (u8 list \<Rightarrow> 'a) \<Rightarrow> u8 list \<Rightarrow> ('a \<times> u8 list) option" where
  "prop_read n dec s = (if length s < n then None else Some (dec (take n s), drop n s))"

definition read8 :: "u8 list \<Rightarrow> (u8 \<times> u8 list) option" where "read8 = prop_read 1 le_dec8"
definition read16 :: "u8 list \<Rightarrow> (u16 \<times> u8 list) option" where "read16 = prop_read 2 le_dec16"
definition read32 :: "u8 list \<Rightarrow> (u32 \<times> u8 list) option" where "read32 = prop_read 4 le_dec32"
definition read64 :: "u8 list \<Rightarrow> (u64 \<times> u8 list) option" where "read64 = prop_read 8 le_dec64"

definition readString :: "u8 list \<Rightarrow> (u8 list \<times> u8 list) option" where
  "readString s =
     Option.bind (read16 s) (\<lambda>(strLen, s).
       if length s < unat strLen then None else Some (take (unat strLen) s, drop (unat strLen) s))"

definition prop_skip :: "nat \<Rightarrow> u8 list \<Rightarrow> u8 list option" where
  "prop_skip n s = (if length s < n then None else Some (drop n s))"

definition write8 :: "u8 \<Rightarrow> u8 list \<Rightarrow> u8 list" where "write8 v buffer = buffer @ le_enc8 v"
definition write16 :: "u16 \<Rightarrow> u8 list \<Rightarrow> u8 list" where "write16 v buffer = buffer @ le_enc16 v"
definition write32 :: "u32 \<Rightarrow> u8 list \<Rightarrow> u8 list" where "write32 v buffer = buffer @ le_enc32 v"
definition write64 :: "u64 \<Rightarrow> u8 list \<Rightarrow> u8 list" where "write64 v buffer = buffer @ le_enc64 v"

definition writeString :: "u8 list \<Rightarrow> u8 list \<Rightarrow> u8 list" where
  "writeString str buffer =
     (if length str > 65535 then write16 0 buffer else write16 (of_nat (length str)) buffer @ str)"

section \<open>The OTB tree\<close>

definition ESCAPE :: u8 where "ESCAPE = 0xFD"
definition START :: u8 where "START = 0xFE"
definition END :: u8 where "END = 0xFF"

datatype otb_node = Node (node_type: u8) (propsBegin: nat) (propsEnd: nat) (children: "otb_node list")

datatype load_error = InvalidOTBFormat

text \<open>A node on the parse stack; \<open>fend\<close> is set when the properties end.\<close>

record frame =
  ftype :: u8
  fbegin :: nat
  fend :: "nat option"
  fkids :: "otb_node list"

definition close_props :: "nat \<Rightarrow> frame \<Rightarrow> frame" where
  "close_props i f = (if fend f = None then f\<lparr>fend := Some i\<rparr> else f)"

definition finish :: "frame \<Rightarrow> otb_node" where
  "finish f = Node (ftype f) (fbegin f) (the (fend f)) (fkids f)"

definition add_child :: "otb_node \<Rightarrow> frame \<Rightarrow> frame" where
  "add_child n f = f\<lparr>fkids := fkids f @ [n]\<rparr>"

text \<open>The loop of \<open>parseTree\<close> at position \<open>i\<close>, with the rest of the file, the stack and the root once it is
  complete.\<close>

fun parse_loop :: "u8 list \<Rightarrow> nat \<Rightarrow> frame list \<Rightarrow> otb_node option \<Rightarrow> load_error + otb_node" where
  "parse_loop [] i stack root =
     (case stack of [] \<Rightarrow> (case root of Some r \<Rightarrow> Inr r | None \<Rightarrow> Inl InvalidOTBFormat) | _ \<Rightarrow> Inl InvalidOTBFormat)"
| "parse_loop (b # bs) i stack root =
     (if b = START then
        (case stack of
           [] \<Rightarrow> Inl InvalidOTBFormat
         | f # fs \<Rightarrow>
             (case bs of
                [] \<Rightarrow> Inl InvalidOTBFormat
              | ty # bs' \<Rightarrow>
                  parse_loop bs' (i + 2) (\<lparr>ftype = ty, fbegin = i + 2, fend = None, fkids = []\<rparr> # close_props i f # fs) root))
      else if b = END then
        (case stack of
           [] \<Rightarrow> Inl InvalidOTBFormat
         | [f] \<Rightarrow> parse_loop bs (i + 1) [] (Some (finish (close_props i f)))
         | f # g # fs \<Rightarrow> parse_loop bs (i + 1) (add_child (finish (close_props i f)) g # fs) root)
      else if b = ESCAPE then
        (case bs of [] \<Rightarrow> Inl InvalidOTBFormat | _ # bs' \<Rightarrow> parse_loop bs' (i + 2) stack root)
      else parse_loop bs (i + 1) stack root)"

text \<open>The constructor of \<open>Loader\<close> and \<open>parseTree\<close>.\<close>

definition check_file :: "u8 list \<Rightarrow> u8 list \<Rightarrow> bool" where
  "check_file acceptedIdentifier file \<longleftrightarrow>
     length file > 7 \<and> (take 4 file = acceptedIdentifier \<or> take 4 file = [0, 0, 0, 0])"

definition parseTree :: "u8 list \<Rightarrow> load_error + otb_node" where
  "parseTree file =
     (if file ! 4 \<noteq> START then Inl InvalidOTBFormat
      else parse_loop (drop 6 file) 6 [\<lparr>ftype = file ! 5, fbegin = 6, fend = None, fkids = []\<rparr>] None)"

definition load :: "u8 list \<Rightarrow> u8 list \<Rightarrow> load_error + otb_node" where
  "load acceptedIdentifier file = (if check_file acceptedIdentifier file then parseTree file else Inl InvalidOTBFormat)"

fun unescape :: "bool \<Rightarrow> u8 list \<Rightarrow> u8 list" where
  "unescape lastEscaped [] = []"
| "unescape lastEscaped (b # bs) =
     (let esc = (b = ESCAPE \<and> \<not> lastEscaped) in if esc then unescape esc bs else b # unescape esc bs)"

definition getProps :: "u8 list \<Rightarrow> otb_node \<Rightarrow> u8 list option" where
  "getProps file n =
     (let raw = take (propsEnd n - propsBegin n) (drop (propsBegin n) file) in
      if raw = [] then None else Some (unescape False raw))"

section \<open>Stream lemmas\<close>

lemma prop_read_enc:
  "length (enc v) = n \<Longrightarrow> dec (enc v) = v \<Longrightarrow> prop_read n dec (enc v @ s) = Some (v, s)"
  by (simp add: prop_read_def)

lemma reads_writes [codec_simps]:
  "read8 (le_enc8 a @ s) = Some (a, s)" "read16 (le_enc16 b @ s) = Some (b, s)"
  "read32 (le_enc32 c @ s) = Some (c, s)" "read64 (le_enc64 d @ s) = Some (d, s)"
  by (simp_all only: read8_def read16_def read32_def read64_def)
    (rule prop_read_enc, rule c8.enc_length c16.enc_length c32.enc_length c64.enc_length,
      rule c8.dec_enc c16.dec_enc c32.dec_enc c64.dec_enc)+

datatype prop_field = P8 u8 | P16 u16 | P32 u32 | P64 u64 | PString "u8 list"

fun write_prop :: "prop_field \<Rightarrow> u8 list \<Rightarrow> u8 list" where
  "write_prop (P8 v) b = write8 v b"
| "write_prop (P16 v) b = write16 v b"
| "write_prop (P32 v) b = write32 v b"
| "write_prop (P64 v) b = write64 v b"
| "write_prop (PString v) b = writeString v b"

fun read_prop :: "prop_field \<Rightarrow> u8 list \<Rightarrow> (prop_field \<times> u8 list) option" where
  "read_prop (P8 _) s = map_option (\<lambda>(v, s). (P8 v, s)) (read8 s)"
| "read_prop (P16 _) s = map_option (\<lambda>(v, s). (P16 v, s)) (read16 s)"
| "read_prop (P32 _) s = map_option (\<lambda>(v, s). (P32 v, s)) (read32 s)"
| "read_prop (P64 _) s = map_option (\<lambda>(v, s). (P64 v, s)) (read64 s)"
| "read_prop (PString _) s = map_option (\<lambda>(v, s). (PString v, s)) (readString s)"

fun write_props :: "prop_field list \<Rightarrow> u8 list \<Rightarrow> u8 list" where
  "write_props [] b = b"
| "write_props (f # fs) b = write_props fs (write_prop f b)"

fun read_props :: "prop_field list \<Rightarrow> u8 list \<Rightarrow> (prop_field list \<times> u8 list) option" where
  "read_props [] s = Some ([], s)"
| "read_props (f # fs) s =
     Option.bind (read_prop f s) (\<lambda>(v, s). map_option (\<lambda>(vs, s). (v # vs, s)) (read_props fs s))"

text \<open>What a field holds after it was stored: a string that is too long is lost.\<close>

fun stored :: "prop_field \<Rightarrow> prop_field" where
  "stored (PString v) = PString (if length v > 65535 then [] else v)"
| "stored f = f"

lemma write_prop_append: "write_prop f b = b @ write_prop f []"
  by (cases f) (simp_all add: write8_def write16_def write32_def write64_def writeString_def)

lemma write_props_append: "write_props fs b = b @ write_props fs []"
proof (induction fs arbitrary: b)
  case (Cons f fs)
  then show ?case using write_prop_append[of f b] by (metis append_assoc write_props.simps(2))
qed simp

lemma read_write_prop: "read_prop f (write_prop f [] @ s) = Some (stored f, s)"
proof (cases f)
  case (PString v)
  have "unat (of_nat (length v) :: u16) = length v" if "length v \<le> 65535" using that by (simp add: unat_of_nat)
  then show ?thesis using PString
    by (cases "length v > 65535") (simp_all add: writeString_def write16_def readString_def codec_simps)
qed (simp_all add: write8_def write16_def write32_def write64_def codec_simps)

lemma read_write_props: "read_props fs (write_props fs [] @ s) = Some (map stored fs, s)"
proof (induction fs)
  case (Cons f fs)
  have "write_props (f # fs) [] = write_prop f [] @ write_props fs []" using write_props_append[of fs "write_prop f []"] by simp
  then show ?case using read_write_prop[of f "write_props fs [] @ s"] Cons by simp
qed simp

section \<open>The file format\<close>

text \<open>The format the loader accepts, stated independently of it: a tree of typed nodes with properties, written
  with every reserved byte of the properties escaped.\<close>

datatype stree = STree u8 "u8 list" "stree list"

fun escape :: "u8 list \<Rightarrow> u8 list" where
  "escape [] = []"
| "escape (b # bs) = (if b = ESCAPE \<or> b = START \<or> b = END then ESCAPE # b # escape bs else b # escape bs)"

fun encode :: "stree \<Rightarrow> u8 list" where
  "encode (STree t ps ks) = START # t # escape ps @ concat (map encode ks) @ [END]"

text \<open>The nodes the loader builds for a tree at a position.\<close>

fun build :: "stree \<Rightarrow> nat \<Rightarrow> otb_node"
  and build_list :: "stree list \<Rightarrow> nat \<Rightarrow> otb_node list" where
  "build (STree t ps ks) i =
     Node t (i + 2) (i + 2 + length (escape ps)) (build_list ks (i + 2 + length (escape ps)))"
| "build_list [] i = []"
| "build_list (k # ks) i = build k i # build_list ks (i + length (encode k))"

lemma node_chars [simp]: "ESCAPE \<noteq> START" "ESCAPE \<noteq> END" "START \<noteq> END" "START \<noteq> ESCAPE" "END \<noteq> START" "END \<noteq> ESCAPE"
  by (simp_all add: ESCAPE_def START_def END_def)

lemma unescape_escape [simp]: "unescape False (escape bs) = bs"
  by (induction bs) (auto simp: Let_def)

lemma escape_Nil [simp]: "escape bs = [] \<longleftrightarrow> bs = []"
  by (cases bs) auto

lemma parse_escape: "parse_loop (escape ps @ r) i st root = parse_loop r (i + length (escape ps)) st root"
proof (induction ps arbitrary: i)
  case (Cons b bs)
  show ?case
  proof (cases "b = ESCAPE \<or> b = START \<or> b = END")
    case True
    then show ?thesis using Cons.IH[of "i + 2"] by (auto simp: add.assoc)
  next
    case False
    then show ?thesis using Cons.IH[of "i + 1"] by simp
  qed
qed simp

lemma close_props_idem [simp]: "close_props j (close_props i f) = close_props i f"
  by (simp add: close_props_def)

lemma close_add_child: "close_props j (add_child n (close_props i f)) = add_child n (close_props i f)"
  by (simp add: close_props_def add_child_def)

fun add_children :: "otb_node list \<Rightarrow> frame \<Rightarrow> frame" where
  "add_children [] f = f"
| "add_children (n # ns) f = add_children ns (add_child n f)"

lemma add_children_fields:
  "ftype (add_children ns f) = ftype f" "fbegin (add_children ns f) = fbegin f" "fend (add_children ns f) = fend f"
  "fkids (add_children ns f) = fkids f @ ns"
  by (induction ns arbitrary: f) (simp_all add: add_child_def)

text \<open>Reading one node attaches it to the node on top of the stack, whose properties end where its first
  child starts; reading several attaches them all.\<close>

lemma parse_node:
  "parse_loop (encode k @ r) i (f # fs) root =
     parse_loop r (i + length (encode k)) (add_child (build k i) (close_props i f) # fs) root"
proof (induction k arbitrary: i f fs r)
  case (STree t ps ks)
  let ?e = "length (escape ps)"
  have kids: "parse_loop (concat (map encode ks') @ r') j (g # gs) root =
      parse_loop r' (j + length (concat (map encode ks'))) (add_children (build_list ks' j) (if ks' = [] then g else close_props j g) # gs) root"
    if "set ks' \<subseteq> set ks" for ks' j g gs r'
    using that
  proof (induction ks' arbitrary: j g)
    case (Cons k' ks')
    have "parse_loop (encode k' @ concat (map encode ks') @ r') j (g # gs) root =
        parse_loop (concat (map encode ks') @ r') (j + length (encode k')) (add_child (build k' j) (close_props j g) # gs) root"
      using STree Cons.prems by simp
    also have "\<dots> = parse_loop r' (j + length (encode k') + length (concat (map encode ks')))
        (add_children (build_list ks' (j + length (encode k'))) (add_child (build k' j) (close_props j g)) # gs) root"
      using Cons.IH[of "j + length (encode k')" "add_child (build k' j) (close_props j g)"] Cons.prems
      by (simp add: close_add_child)
    finally show ?case by (simp add: add.assoc)
  qed simp
  let ?g = "\<lparr>ftype = t, fbegin = i + 2, fend = None, fkids = []\<rparr>"
  let ?h = "add_children (build_list ks (i + 2 + ?e)) (if ks = [] then ?g else close_props (i + 2 + ?e) ?g)"
  let ?j = "i + 2 + ?e + length (concat (map encode ks))"
  have fin: "finish (close_props ?j ?h) = build (STree t ps ks) i"
    by (cases "ks = []") (simp_all add: finish_def close_props_def add_children_fields)
  have "parse_loop (encode (STree t ps ks) @ r) i (f # fs) root =
      parse_loop (escape ps @ concat (map encode ks) @ END # r) (i + 2) (?g # close_props i f # fs) root"
    by simp
  also have "\<dots> = parse_loop (concat (map encode ks) @ END # r) (i + 2 + ?e) (?g # close_props i f # fs) root"
    by (simp add: parse_escape)
  also have "\<dots> = parse_loop (END # r) ?j (?h # close_props i f # fs) root"
    using kids[of ks "END # r" "i + 2 + ?e" ?g "close_props i f # fs"] by simp
  also have "\<dots> = parse_loop r (?j + 1) (add_child (build (STree t ps ks) i) (close_props i f) # fs) root"
    using fin by simp
  finally show ?case by (simp add: add.assoc)
qed

lemma parse_nodes:
  "parse_loop (concat (map encode ks) @ r) i (f # fs) root =
     parse_loop r (i + length (concat (map encode ks))) (add_children (build_list ks i) (if ks = [] then f else close_props i f) # fs) root"
proof (induction ks arbitrary: i f)
  case (Cons k ks)
  then show ?case by (simp add: parse_node close_add_child add.assoc)
qed simp

text \<open>A node of a loaded file stands for a tree of the format.\<close>

fun reads_as :: "u8 list \<Rightarrow> otb_node \<Rightarrow> stree \<Rightarrow> bool"
  and read_as_list :: "u8 list \<Rightarrow> otb_node list \<Rightarrow> stree list \<Rightarrow> bool" where
  "reads_as file n (STree t ps ks) \<longleftrightarrow>
     node_type n = t \<and> getProps file n = (if ps = [] then None else Some ps) \<and> read_as_list file (children n) ks"
| "read_as_list file ns [] \<longleftrightarrow> ns = []"
| "read_as_list file ns (k # ks) \<longleftrightarrow> (case ns of [] \<Rightarrow> False | n # ns' \<Rightarrow> reads_as file n k \<and> read_as_list file ns' ks)"

lemma build_reads_as:
  "file = pre @ encode k @ post \<Longrightarrow> length pre = i \<Longrightarrow> reads_as file (build k i) k"
  "file = pre @ concat (map encode ks) @ post \<Longrightarrow> length pre = i \<Longrightarrow> read_as_list file (build_list ks i) ks"
proof (induction k i and ks i arbitrary: pre post and pre post rule: build_build_list.induct)
  case (1 t ps ks i)
  let ?pre = "pre @ [START, t] @ escape ps"
  have f: "file = ?pre @ concat (map encode ks) @ END # post" using "1.prems"(1) by simp
  have "take (length (escape ps)) (drop (i + 2) file) = escape ps"
    using "1.prems" by simp
  then have "getProps file (build (STree t ps ks) i) = (if ps = [] then None else Some ps)"
    by (simp add: getProps_def Let_def)
  moreover have "read_as_list file (build_list ks (i + 2 + length (escape ps))) ks"
    by (rule "1.IH"[OF f]) (use "1.prems"(2) in simp)
  ultimately show ?case by simp
next
  case (3 k ks i)
  have "reads_as file (build k i) k" by (rule "3.IH"(1)[of pre "concat (map encode ks) @ post"]) (use "3.prems" in simp_all)
  moreover have "read_as_list file (build_list ks (i + length (encode k))) ks"
    by (rule "3.IH"(2)[of "pre @ encode k" post]) (use "3.prems" in simp_all)
  ultimately show ?case by simp
qed simp

lemma load_encode:
  assumes "length ident = 4" "ps \<noteq> [] \<or> ks \<noteq> []"
  shows "load ident (ident @ encode (STree t ps ks)) = Inr (build (STree t ps ks) 4)"
proof -
  let ?file = "ident @ encode (STree t ps ks)"
  have "length (escape ps @ concat (map encode ks)) > 0"
  proof (cases "ps = []")
    case True
    then obtain k ks' where "ks = k # ks'" using assms(2) by (cases ks) auto
    then show ?thesis by (cases k) simp
  qed simp
  then have chk: "check_file ident ?file" using assms(1) by (simp add: check_file_def)
  have at: "?file ! 4 = START" "?file ! 5 = t" "drop 6 ?file = escape ps @ concat (map encode ks) @ [END]"
    using assms(1) by (simp_all add: nth_append)
  let ?e = "length (escape ps)"
  let ?g = "\<lparr>ftype = t, fbegin = 6, fend = None, fkids = []\<rparr>"
  let ?h = "add_children (build_list ks (6 + ?e)) (if ks = [] then ?g else close_props (6 + ?e) ?g)"
  let ?j = "6 + ?e + length (concat (map encode ks))"
  have fin: "finish (close_props ?j ?h) = build (STree t ps ks) 4"
    by (cases "ks = []") (simp_all add: finish_def close_props_def add_children_fields)
  have "parseTree ?file = parse_loop (escape ps @ concat (map encode ks) @ [END]) 6 [?g] None"
    unfolding parseTree_def at by simp
  also have "\<dots> = parse_loop [END] ?j [?h] None" by (simp only: parse_escape parse_nodes)
  also have "\<dots> = Inr (build (STree t ps ks) 4)" using fin by simp
  finally show ?thesis using chk by (simp add: load_def)
qed

section \<open>Properties\<close>

text \<open>Fields written to a property stream in any order are read back in that order from the start of the
  stream, leaving what follows unread; a string of more than 65535 bytes comes back empty.\<close>

theorem prop_stream_roundtrip:
  "read_props fs (write_props fs [] @ rest) = Some (map stored fs, rest)"
  by (rule read_write_props)

text \<open>Reading past the end of a property stream fails and never consumes a byte that is not there.\<close>

theorem prop_stream_bounded:
  "(length s < n \<longrightarrow> prop_read n dec s = None \<and> prop_skip n s = None) \<and>
   (\<forall>v s'. readString s = Some (v, s') \<longrightarrow> length s = 2 + length v + length s' \<and> drop 2 s = v @ s')"
proof -
  have "length s = 2 + length v + length s' \<and> drop 2 s = v @ s'" if read: "readString s = Some (v, s')" for v s'
  proof -
    obtain n where n: "2 \<le> length s" "n \<le> length (drop 2 s)" "v = take n (drop 2 s)" "s' = drop n (drop 2 s)"
      using read by (auto simp: readString_def read16_def prop_read_def bind_eq_Some_conv not_less simp del: drop_drop split: if_splits)
    have split: "drop 2 s = v @ s'" unfolding n(3,4) by (rule append_take_drop_id[symmetric])
    then have "length s - 2 = length v + length s'" by (metis length_append length_drop)
    with n(1) split show ?thesis by linarith
  qed
  then show ?thesis by (simp add: prop_read_def prop_skip_def)
qed

theorem prop_stream_bounded_witness: "prop_read 4 le_dec32 [1, 2] = None"
  using prop_stream_bounded[of "[1, 2]" 4 le_dec32] by simp

text \<open>C25: Every tree in the OTB format is loaded as that tree: the loader accepts the file, and each node has
  the type, the unescaped properties and the children that were written, whatever reserved bytes the
  properties contain.\<close>

theorem otb_roundtrip:
  assumes "length ident = 4" "ps \<noteq> [] \<or> ks \<noteq> []"
  shows "\<exists>n. load ident (ident @ encode (STree t ps ks)) = Inr n \<and> reads_as (ident @ encode (STree t ps ks)) n (STree t ps ks)"
  using load_encode[OF assms] build_reads_as(1)[of "ident @ encode (STree t ps ks)" ident "STree t ps ks" "[]" 4] assms(1) by simp

theorem otb_roundtrip_witness:
  "\<exists>n. load [1, 2, 3, 4] ([1, 2, 3, 4] @ encode (STree 5 [0xFE] [STree 6 [] []])) = Inr n \<and>
     reads_as ([1, 2, 3, 4] @ encode (STree 5 [0xFE] [STree 6 [] []])) n (STree 5 [0xFE] [STree 6 [] []])"
  using otb_roundtrip[of "[1, 2, 3, 4]" "[0xFE]" "[STree 6 [] []]" 5] by simp

end
