(* ===== verification/Return_Values.thy ===== *)
theory Return_Values
  imports Server_Prelude
begin

text \<open>
  \<open>enum ReturnValue\<close> of \<open>src/src/enums.h\<close>, the result type of the query functions and of most game
  actions, \<open>getReturnMessage\<close> of \<open>src/src/tools.cpp\<close>, the text shown to the player, and the flags of the queries.
\<close>

datatype (plugins only: size) ReturnValue =
    RETURNVALUE_NOERROR | RETURNVALUE_NOTPOSSIBLE
  | RETURNVALUE_NOTENOUGHROOM | RETURNVALUE_PLAYERISPZLOCKED
  | RETURNVALUE_PLAYERISNOTINVITED | RETURNVALUE_CANNOTTHROW
  | RETURNVALUE_THEREISNOWAY | RETURNVALUE_DESTINATIONOUTOFREACH
  | RETURNVALUE_CREATUREBLOCK | RETURNVALUE_NOTMOVEABLE
  | RETURNVALUE_DROPTWOHANDEDITEM | RETURNVALUE_BOTHHANDSNEEDTOBEFREE
  | RETURNVALUE_CANONLYUSEONEWEAPON | RETURNVALUE_NEEDEXCHANGE
  | RETURNVALUE_CANNOTBEDRESSED | RETURNVALUE_PUTTHISOBJECTINYOURHAND
  | RETURNVALUE_PUTTHISOBJECTINBOTHHANDS | RETURNVALUE_TOOFARAWAY
  | RETURNVALUE_FIRSTGODOWNSTAIRS | RETURNVALUE_FIRSTGOUPSTAIRS
  | RETURNVALUE_CONTAINERNOTENOUGHROOM | RETURNVALUE_NOTENOUGHCAPACITY
  | RETURNVALUE_CANNOTPICKUP | RETURNVALUE_THISISIMPOSSIBLE
  | RETURNVALUE_DEPOTISFULL | RETURNVALUE_CREATUREDOESNOTEXIST
  | RETURNVALUE_CANNOTUSETHISOBJECT | RETURNVALUE_PLAYERWITHTHISNAMEISNOTONLINE
  | RETURNVALUE_NOTREQUIREDLEVELTOUSERUNE | RETURNVALUE_YOUAREALREADYTRADING
  | RETURNVALUE_THISPLAYERISALREADYTRADING | RETURNVALUE_YOUMAYNOTLOGOUTDURINGAFIGHT
  | RETURNVALUE_DIRECTPLAYERSHOOT | RETURNVALUE_NOTENOUGHLEVEL
  | RETURNVALUE_NOTENOUGHMAGICLEVEL | RETURNVALUE_NOTENOUGHMANA
  | RETURNVALUE_NOTENOUGHSOUL | RETURNVALUE_YOUAREEXHAUSTED
  | RETURNVALUE_YOUCANNOTUSEOBJECTSTHATFAST | RETURNVALUE_PLAYERISNOTREACHABLE
  | RETURNVALUE_CANONLYUSETHISRUNEONCREATURES | RETURNVALUE_ACTIONNOTPERMITTEDINPROTECTIONZONE
  | RETURNVALUE_YOUMAYNOTATTACKTHISPLAYER | RETURNVALUE_YOUMAYNOTATTACKAPERSONINPROTECTIONZONE
  | RETURNVALUE_YOUMAYNOTATTACKAPERSONWHILEINPROTECTIONZONE | RETURNVALUE_YOUMAYNOTATTACKTHISCREATURE
  | RETURNVALUE_YOUCANONLYUSEITONCREATURES | RETURNVALUE_CREATUREISNOTREACHABLE
  | RETURNVALUE_TURNSECUREMODETOATTACKUNMARKEDPLAYERS | RETURNVALUE_YOUNEEDPREMIUMACCOUNT
  | RETURNVALUE_YOUNEEDTOLEARNTHISSPELL | RETURNVALUE_YOURVOCATIONCANNOTUSETHISSPELL
  | RETURNVALUE_YOUNEEDAWEAPONTOUSETHISSPELL | RETURNVALUE_PLAYERISPZLOCKEDLEAVEPVPZONE
  | RETURNVALUE_PLAYERISPZLOCKEDENTERPVPZONE | RETURNVALUE_ACTIONNOTPERMITTEDINANOPVPZONE
  | RETURNVALUE_YOUCANNOTLOGOUTHERE | RETURNVALUE_YOUNEEDAMAGICITEMTOCASTSPELL
  | RETURNVALUE_CANNOTCONJUREITEMHERE | RETURNVALUE_YOUNEEDTOSPLITYOURSPEARS
  | RETURNVALUE_NAMEISTOOAMBIGUOUS | RETURNVALUE_CANONLYUSEONESHIELD
  | RETURNVALUE_NOPARTYMEMBERSINRANGE | RETURNVALUE_YOUARENOTTHEOWNER
  | RETURNVALUE_NOSUCHRAIDEXISTS | RETURNVALUE_ANOTHERRAIDISALREADYEXECUTING
  | RETURNVALUE_TRADEPLAYERFARAWAY | RETURNVALUE_YOUDONTOWNTHISHOUSE
  | RETURNVALUE_TRADEPLAYERALREADYOWNSAHOUSE | RETURNVALUE_TRADEPLAYERHIGHESTBIDDER
  | RETURNVALUE_YOUCANNOTTRADETHISHOUSE | RETURNVALUE_YOUDONTHAVEREQUIREDPROFESSION
  | RETURNVALUE_CANNOTMOVEITEMISNOTSTOREITEM | RETURNVALUE_ITEMCANNOTBEMOVEDTHERE

definition default_message :: string where
  "default_message = ''Sorry, not possible.''"

primrec getReturnMessage :: "ReturnValue \<Rightarrow> string" where
  "getReturnMessage RETURNVALUE_NOERROR = default_message"
| "getReturnMessage RETURNVALUE_NOTPOSSIBLE = default_message"
| "getReturnMessage RETURNVALUE_NOTENOUGHROOM = ''There is not enough room.''"
| "getReturnMessage RETURNVALUE_PLAYERISPZLOCKED = ''You can not enter a protection zone after attacking another player.''"
| "getReturnMessage RETURNVALUE_PLAYERISNOTINVITED = ''You are not invited.''"
| "getReturnMessage RETURNVALUE_CANNOTTHROW = ''You cannot throw there.''"
| "getReturnMessage RETURNVALUE_THEREISNOWAY = ''There is no way.''"
| "getReturnMessage RETURNVALUE_DESTINATIONOUTOFREACH = ''Destination is out of range.''"
| "getReturnMessage RETURNVALUE_CREATUREBLOCK = default_message"
| "getReturnMessage RETURNVALUE_NOTMOVEABLE = ''You cannot move this object.''"
| "getReturnMessage RETURNVALUE_DROPTWOHANDEDITEM = ''Drop the double-handed object first.''"
| "getReturnMessage RETURNVALUE_BOTHHANDSNEEDTOBEFREE = ''Both hands need to be free.''"
| "getReturnMessage RETURNVALUE_CANONLYUSEONEWEAPON = ''You may only use one weapon.''"
| "getReturnMessage RETURNVALUE_NEEDEXCHANGE = ''There is not enough room.''"
| "getReturnMessage RETURNVALUE_CANNOTBEDRESSED = ''You cannot dress this object there.''"
| "getReturnMessage RETURNVALUE_PUTTHISOBJECTINYOURHAND = ''Put this object in your hand.''"
| "getReturnMessage RETURNVALUE_PUTTHISOBJECTINBOTHHANDS = ''Put this object in both hands.''"
| "getReturnMessage RETURNVALUE_TOOFARAWAY = ''You are too far away.''"
| "getReturnMessage RETURNVALUE_FIRSTGODOWNSTAIRS = ''First go downstairs.''"
| "getReturnMessage RETURNVALUE_FIRSTGOUPSTAIRS = ''First go upstairs.''"
| "getReturnMessage RETURNVALUE_CONTAINERNOTENOUGHROOM = ''You cannot put more objects in this container.''"
| "getReturnMessage RETURNVALUE_NOTENOUGHCAPACITY = ''This object is too heavy for you to carry.''"
| "getReturnMessage RETURNVALUE_CANNOTPICKUP = ''You cannot take this object.''"
| "getReturnMessage RETURNVALUE_THISISIMPOSSIBLE = ''This is impossible.''"
| "getReturnMessage RETURNVALUE_DEPOTISFULL = ''You cannot put more items in this depot.''"
| "getReturnMessage RETURNVALUE_CREATUREDOESNOTEXIST = ''Creature does not exist.''"
| "getReturnMessage RETURNVALUE_CANNOTUSETHISOBJECT = ''You cannot use this object.''"
| "getReturnMessage RETURNVALUE_PLAYERWITHTHISNAMEISNOTONLINE = ''A player with this name is not online.''"
| "getReturnMessage RETURNVALUE_NOTREQUIREDLEVELTOUSERUNE = ''You do not have the required magic level to use this rune.''"
| "getReturnMessage RETURNVALUE_YOUAREALREADYTRADING = ''You are already trading.''"
| "getReturnMessage RETURNVALUE_THISPLAYERISALREADYTRADING = ''This player is already trading.''"
| "getReturnMessage RETURNVALUE_YOUMAYNOTLOGOUTDURINGAFIGHT = ''You may not logout during or immediately after a fight!''"
| "getReturnMessage RETURNVALUE_DIRECTPLAYERSHOOT = ''You are not allowed to shoot directly on players.''"
| "getReturnMessage RETURNVALUE_NOTENOUGHLEVEL = ''Your level is too low.''"
| "getReturnMessage RETURNVALUE_NOTENOUGHMAGICLEVEL = ''You do not have enough magic level.''"
| "getReturnMessage RETURNVALUE_NOTENOUGHMANA = ''You do not have enough mana.''"
| "getReturnMessage RETURNVALUE_NOTENOUGHSOUL = ''You do not have enough soul.''"
| "getReturnMessage RETURNVALUE_YOUAREEXHAUSTED = ''You are exhausted.''"
| "getReturnMessage RETURNVALUE_YOUCANNOTUSEOBJECTSTHATFAST = ''You cannot use objects that fast.''"
| "getReturnMessage RETURNVALUE_PLAYERISNOTREACHABLE = ''Player is not reachable.''"
| "getReturnMessage RETURNVALUE_CANONLYUSETHISRUNEONCREATURES = ''You can only use it on creatures.''"
| "getReturnMessage RETURNVALUE_ACTIONNOTPERMITTEDINPROTECTIONZONE = ''This action is not permitted in a protection zone.''"
| "getReturnMessage RETURNVALUE_YOUMAYNOTATTACKTHISPLAYER = ''You may not attack this person.''"
| "getReturnMessage RETURNVALUE_YOUMAYNOTATTACKAPERSONINPROTECTIONZONE = ''You may not attack a person in a protection zone.''"
| "getReturnMessage RETURNVALUE_YOUMAYNOTATTACKAPERSONWHILEINPROTECTIONZONE = ''You may not attack a person while you are in a protection zone.''"
| "getReturnMessage RETURNVALUE_YOUMAYNOTATTACKTHISCREATURE = ''You may not attack this creature.''"
| "getReturnMessage RETURNVALUE_YOUCANONLYUSEITONCREATURES = ''You can only use it on creatures.''"
| "getReturnMessage RETURNVALUE_CREATUREISNOTREACHABLE = ''Creature is not reachable.''"
| "getReturnMessage RETURNVALUE_TURNSECUREMODETOATTACKUNMARKEDPLAYERS = ''Turn secure mode off if you really want to attack unmarked players.''"
| "getReturnMessage RETURNVALUE_YOUNEEDPREMIUMACCOUNT = ''You need a premium account.''"
| "getReturnMessage RETURNVALUE_YOUNEEDTOLEARNTHISSPELL = ''You must learn this spell first.''"
| "getReturnMessage RETURNVALUE_YOURVOCATIONCANNOTUSETHISSPELL = ''You have the wrong vocation to cast this spell.''"
| "getReturnMessage RETURNVALUE_YOUNEEDAWEAPONTOUSETHISSPELL = ''You need to equip a weapon to use this spell.''"
| "getReturnMessage RETURNVALUE_PLAYERISPZLOCKEDLEAVEPVPZONE = ''You can not leave a pvp zone after attacking another player.''"
| "getReturnMessage RETURNVALUE_PLAYERISPZLOCKEDENTERPVPZONE = ''You can not enter a pvp zone after attacking another player.''"
| "getReturnMessage RETURNVALUE_ACTIONNOTPERMITTEDINANOPVPZONE = ''This action is not permitted in a non pvp zone.''"
| "getReturnMessage RETURNVALUE_YOUCANNOTLOGOUTHERE = ''You can not logout here.''"
| "getReturnMessage RETURNVALUE_YOUNEEDAMAGICITEMTOCASTSPELL = ''You need a magic item to cast this spell.''"
| "getReturnMessage RETURNVALUE_CANNOTCONJUREITEMHERE = ''You cannot conjure items here.''"
| "getReturnMessage RETURNVALUE_YOUNEEDTOSPLITYOURSPEARS = ''You need to split your spears first.''"
| "getReturnMessage RETURNVALUE_NAMEISTOOAMBIGUOUS = ''Player name is ambiguous.''"
| "getReturnMessage RETURNVALUE_CANONLYUSEONESHIELD = ''You may use only one shield.''"
| "getReturnMessage RETURNVALUE_NOPARTYMEMBERSINRANGE = ''No party members in range.''"
| "getReturnMessage RETURNVALUE_YOUARENOTTHEOWNER = ''You are not the owner.''"
| "getReturnMessage RETURNVALUE_NOSUCHRAIDEXISTS = ''No such raid exists.''"
| "getReturnMessage RETURNVALUE_ANOTHERRAIDISALREADYEXECUTING = ''Another raid is already executing.''"
| "getReturnMessage RETURNVALUE_TRADEPLAYERFARAWAY = ''Trade player is too far away.''"
| "getReturnMessage RETURNVALUE_YOUDONTOWNTHISHOUSE = (''You don'' @ [CHR 0x27] @ ''t own this house.'')"
| "getReturnMessage RETURNVALUE_TRADEPLAYERALREADYOWNSAHOUSE = ''Trade player already owns a house.''"
| "getReturnMessage RETURNVALUE_TRADEPLAYERHIGHESTBIDDER = ''Trade player is currently the highest bidder of an auctioned house.''"
| "getReturnMessage RETURNVALUE_YOUCANNOTTRADETHISHOUSE = ''You can not trade this house.''"
| "getReturnMessage RETURNVALUE_YOUDONTHAVEREQUIREDPROFESSION = (''You don'' @ [CHR 0x27] @ ''t have the required profession.'')"
| "getReturnMessage RETURNVALUE_CANNOTMOVEITEMISNOTSTOREITEM = ''You cannot move this item into your Store inbox as it was not bought in the Store.''"
| "getReturnMessage RETURNVALUE_ITEMCANNOTBEMOVEDTHERE = ''This item cannot be moved there.''"

section \<open>Query flags\<close>

text \<open>\<open>cylinderflags_t\<close> of \<open>cylinder.h\<close>, the flags that the queries of tiles, containers and players share.\<close>

definition FLAG_NOLIMIT :: u32 where "FLAG_NOLIMIT = 1"
definition FLAG_IGNOREBLOCKITEM :: u32 where "FLAG_IGNOREBLOCKITEM = 2"
definition FLAG_IGNOREBLOCKCREATURE :: u32 where "FLAG_IGNOREBLOCKCREATURE = 4"
definition FLAG_CHILDISOWNER :: u32 where "FLAG_CHILDISOWNER = 8"
definition FLAG_PATHFINDING :: u32 where "FLAG_PATHFINDING = 16"
definition FLAG_IGNOREFIELDDAMAGE :: u32 where "FLAG_IGNOREFIELDDAMAGE = 32"
definition FLAG_IGNORENOTMOVEABLE :: u32 where "FLAG_IGNORENOTMOVEABLE = 64"
definition FLAG_IGNOREAUTOSTACK :: u32 where "FLAG_IGNOREAUTOSTACK = 128"

definition hasBitSet :: "u32 \<Rightarrow> u32 \<Rightarrow> bool" where
  "hasBitSet flag flags \<longleftrightarrow> flags AND flag \<noteq> 0"

text \<open>What is left of a stack when the containers and tiles take some of it: the difference is a 32-bit number read as a
  signed one, and negative values become zero.\<close>

definition new_item_count :: "u8 \<Rightarrow> u32 \<Rightarrow> u8" where
  "new_item_count have remove = (let d = ucast have - remove in if sint d < 0 then 0 else ucast d)"

lemma new_item_count_unat:
  assumes "unat n < 2 ^ 31"
  shows "unat (new_item_count have n) = unat have - unat n"
proof -
  let ?d = "ucast have - n :: u32"
  have h: "unat (ucast have :: u32) = unat have" "unat have < 256" 
  proof -
    show small: "unat have < 256" by simp
    show "unat (ucast have :: u32) = unat have"
      by (subst unsigned_ucast_eq, rule take_bit_nat_eq_self, rule less_trans[OF small]) simp
  qed
  have s: "sint ?d = int (unat have) - int (unat n)"
  proof -
    have "?d = word_of_int (int (unat have) - int (unat n))"
      by (simp add: h(1)[symmetric])
    then have "sint ?d = sint (word_of_int (int (unat have) - int (unat n)) :: u32)" by (rule arg_cong)
    also have "\<dots> = signed_take_bit 31 (int (unat have) - int (unat n))" by (subst sint_sbintrunc') simp
    finally have "sint ?d = signed_take_bit 31 (int (unat have) - int (unat n))" .
    moreover have "signed_take_bit 31 (int (unat have) - int (unat n)) = int (unat have) - int (unat n)"
    proof (rule signed_take_bit_int_eq_self)
      have two: "(2::int) ^ 31 = 2147483648" by simp
      have n: "unat n < 2147483648" using assms by simp
      show "- (2 ^ 31) \<le> int (unat have) - int (unat n)" "int (unat have) - int (unat n) < 2 ^ 31"
        unfolding two using n h(2) by linarith+
    qed
    ultimately show ?thesis by simp
  qed
  show ?thesis
  proof (cases "unat n \<le> unat have")
    case True
    then have "unat ?d = unat have - unat n" using h by (simp add: unat_sub word_le_nat_alt)
    moreover have "\<not> sint ?d < 0" using s True by linarith
    moreover have "take_bit 8 (unat have - unat n) = unat have - unat n"
      by (rule take_bit_nat_eq_self) (simp add: less_imp_diff_less h(2))
    ultimately show ?thesis by (simp add: new_item_count_def Let_def unsigned_ucast_eq)
  next
    case False
    then have "sint ?d < 0" using s by linarith
    then show ?thesis using False by (simp add: new_item_count_def Let_def)
  qed
qed

end
