(* ===== verification/Conditions.thy ===== *)
theory Conditions
  imports File_Loader Return_Values
begin

text \<open>
  \<open>src/src/condition.h\<close> and \<open>condition.cpp\<close>, the data side: the condition objects (a base part and the members of the
  subclass, a tagged union), their creation, their parameters, the byte stream they are stored in and the loops of
  \<open>iologindata.cpp\<close> that save and load the conditions of a player. A C++ \<open>int32_t\<close> is a 32 bit word that is read with
  \<open>sint\<close>, a \<open>float\<close> is its 32 bits. What conditions do to a creature is in \<open>Condition_Effects\<close>.
\<close>

section \<open>Types and identifiers\<close>

type_synonym i32 = "32 word"

abbreviation (input) "CONDITION_NONE \<equiv> (0 :: u32)"
abbreviation (input) "CONDITION_POISON \<equiv> (0x1 :: u32)"
abbreviation (input) "CONDITION_FIRE \<equiv> (0x2 :: u32)"
abbreviation (input) "CONDITION_ENERGY \<equiv> (0x4 :: u32)"
abbreviation (input) "CONDITION_BLEEDING \<equiv> (0x8 :: u32)"
abbreviation (input) "CONDITION_HASTE \<equiv> (0x10 :: u32)"
abbreviation (input) "CONDITION_PARALYZE \<equiv> (0x20 :: u32)"
abbreviation (input) "CONDITION_OUTFIT \<equiv> (0x40 :: u32)"
abbreviation (input) "CONDITION_INVISIBLE \<equiv> (0x80 :: u32)"
abbreviation (input) "CONDITION_LIGHT \<equiv> (0x100 :: u32)"
abbreviation (input) "CONDITION_MANASHIELD \<equiv> (0x200 :: u32)"
abbreviation (input) "CONDITION_INFIGHT \<equiv> (0x400 :: u32)"
abbreviation (input) "CONDITION_DRUNK \<equiv> (0x800 :: u32)"
abbreviation (input) "CONDITION_EXHAUST_WEAPON \<equiv> (0x1000 :: u32)"
abbreviation (input) "CONDITION_REGENERATION \<equiv> (0x2000 :: u32)"
abbreviation (input) "CONDITION_SOUL \<equiv> (0x4000 :: u32)"
abbreviation (input) "CONDITION_DROWN \<equiv> (0x8000 :: u32)"
abbreviation (input) "CONDITION_MUTED \<equiv> (0x10000 :: u32)"
abbreviation (input) "CONDITION_CHANNELMUTEDTICKS \<equiv> (0x20000 :: u32)"
abbreviation (input) "CONDITION_YELLTICKS \<equiv> (0x40000 :: u32)"
abbreviation (input) "CONDITION_ATTRIBUTES \<equiv> (0x80000 :: u32)"
abbreviation (input) "CONDITION_FREEZING \<equiv> (0x100000 :: u32)"
abbreviation (input) "CONDITION_DAZZLED \<equiv> (0x200000 :: u32)"
abbreviation (input) "CONDITION_CURSED \<equiv> (0x400000 :: u32)"
abbreviation (input) "CONDITION_EXHAUST_COMBAT \<equiv> (0x800000 :: u32)"
abbreviation (input) "CONDITION_EXHAUST_HEAL \<equiv> (0x1000000 :: u32)"
abbreviation (input) "CONDITION_PACIFIED \<equiv> (0x2000000 :: u32)"
abbreviation (input) "CONDITION_SPELLCOOLDOWN \<equiv> (0x4000000 :: u32)"
abbreviation (input) "CONDITION_SPELLGROUPCOOLDOWN \<equiv> (0x8000000 :: u32)"

abbreviation (input) "CONDITIONID_DEFAULT \<equiv> (-1 :: u8)"
abbreviation (input) "CONDITIONID_COMBAT \<equiv> (0 :: u8)"

abbreviation (input) "CONDITIONATTR_TYPE \<equiv> (1 :: u8)"
abbreviation (input) "CONDITIONATTR_ID \<equiv> (2 :: u8)"
abbreviation (input) "CONDITIONATTR_TICKS \<equiv> (3 :: u8)"
abbreviation (input) "CONDITIONATTR_HEALTHTICKS \<equiv> (4 :: u8)"
abbreviation (input) "CONDITIONATTR_HEALTHGAIN \<equiv> (5 :: u8)"
abbreviation (input) "CONDITIONATTR_MANATICKS \<equiv> (6 :: u8)"
abbreviation (input) "CONDITIONATTR_MANAGAIN \<equiv> (7 :: u8)"
abbreviation (input) "CONDITIONATTR_DELAYED \<equiv> (8 :: u8)"
abbreviation (input) "CONDITIONATTR_OWNER \<equiv> (9 :: u8)"
abbreviation (input) "CONDITIONATTR_INTERVALDATA \<equiv> (10 :: u8)"
abbreviation (input) "CONDITIONATTR_SPEEDDELTA \<equiv> (11 :: u8)"
abbreviation (input) "CONDITIONATTR_FORMULA_MINA \<equiv> (12 :: u8)"
abbreviation (input) "CONDITIONATTR_FORMULA_MINB \<equiv> (13 :: u8)"
abbreviation (input) "CONDITIONATTR_FORMULA_MAXA \<equiv> (14 :: u8)"
abbreviation (input) "CONDITIONATTR_FORMULA_MAXB \<equiv> (15 :: u8)"
abbreviation (input) "CONDITIONATTR_LIGHTCOLOR \<equiv> (16 :: u8)"
abbreviation (input) "CONDITIONATTR_LIGHTLEVEL \<equiv> (17 :: u8)"
abbreviation (input) "CONDITIONATTR_LIGHTTICKS \<equiv> (18 :: u8)"
abbreviation (input) "CONDITIONATTR_LIGHTINTERVAL \<equiv> (19 :: u8)"
abbreviation (input) "CONDITIONATTR_SOULTICKS \<equiv> (20 :: u8)"
abbreviation (input) "CONDITIONATTR_SOULGAIN \<equiv> (21 :: u8)"
abbreviation (input) "CONDITIONATTR_SKILLS \<equiv> (22 :: u8)"
abbreviation (input) "CONDITIONATTR_STATS \<equiv> (23 :: u8)"
abbreviation (input) "CONDITIONATTR_OUTFIT \<equiv> (24 :: u8)"
abbreviation (input) "CONDITIONATTR_PERIODDAMAGE \<equiv> (25 :: u8)"
abbreviation (input) "CONDITIONATTR_ISBUFF \<equiv> (26 :: u8)"
abbreviation (input) "CONDITIONATTR_SUBID \<equiv> (27 :: u8)"
abbreviation (input) "CONDITIONATTR_ISAGGRESSIVE \<equiv> (28 :: u8)"
abbreviation (input) "CONDITIONATTR_DISABLEDEFENSE \<equiv> (29 :: u8)"
abbreviation (input) "CONDITIONATTR_END \<equiv> (254 :: u8)"

section \<open>The objects\<close>

record interval_info =
  timeLeft :: i32
  ivalue :: i32
  interval :: i32

record attributes =
  skills :: "i32 list"
  skillsPercent :: "i32 list"
  specialSkills :: "i32 list"
  stats :: "i32 list"
  statsPercent :: "i32 list"
  currentSkill :: nat
  currentStat :: nat
  disableDefense :: bool

record regeneration =
  internalHealthTicks :: u32
  internalManaTicks :: u32
  healthTicks :: u32
  manaTicks :: u32
  healthGain :: u32
  manaGain :: u32

record soul =
  internalSoulTicks :: u32
  soulTicks :: u32
  soulGain :: u32

record damage =
  maxDamage :: i32
  minDamage :: i32
  startDamage :: i32
  periodDamage :: i32
  periodDamageTick :: i32
  tickInterval :: i32
  initDamage :: i32
  forceUpdate :: bool
  delayed :: bool
  field :: bool
  owner :: u32
  damageList :: "interval_info list"

record speed =
  speedDelta :: i32
  mina :: u32
  minb :: u32
  maxa :: u32
  maxb :: u32

text \<open>\<open>Outfit_t\<close> is copied as raw memory: its eleven bytes are followed by one byte of padding.\<close>

record outfit =
  lookType :: u16
  lookTypeEx :: u16
  lookMount :: u16
  lookHead :: u8
  lookBody :: u8
  lookLegs :: u8
  lookFeet :: u8
  lookAddons :: u8
  look_padding :: u8

record light_info =
  level :: u8
  color :: u8

record light =
  lightInfo :: light_info
  internalLightTicks :: u32
  lightChangeInterval :: u32

datatype cond_body =
    Generic | Attributes attributes | Regeneration regeneration | Soul soul | Invisible | Damage damage
  | Speed speed | Outfit outfit | Light light | SpellCooldown | SpellGroupCooldown

record condition =
  endTime :: int
  subId :: u32
  ticks :: i32
  conditionType :: u32
  isBuff :: bool
  aggressive :: bool
  cid :: u8
  body :: cond_body

definition int64_max :: int where "int64_max = 2 ^ 63 - 1"

definition new_condition :: "u8 \<Rightarrow> u32 \<Rightarrow> i32 \<Rightarrow> bool \<Rightarrow> u32 \<Rightarrow> bool \<Rightarrow> cond_body \<Rightarrow> condition" where
  "new_condition i ty tk buff sid aggr b =
     \<lparr> endTime = (if tk = -1 then int64_max else 0), subId = sid, ticks = tk, conditionType = ty, isBuff = buff,
       aggressive = aggr, cid = i, body = b \<rparr>"

definition new_attributes :: attributes where
  "new_attributes =
     \<lparr> skills = replicate 7 0, skillsPercent = replicate 7 0, specialSkills = replicate 6 0, stats = replicate 4 0,
       statsPercent = replicate 4 0, currentSkill = 0, currentStat = 0, disableDefense = False \<rparr>"

definition new_regeneration :: regeneration where
  "new_regeneration =
     \<lparr> internalHealthTicks = 0, internalManaTicks = 0, healthTicks = 1000, manaTicks = 1000, healthGain = 0,
       manaGain = 0 \<rparr>"

definition new_soul :: soul where
  "new_soul = \<lparr> internalSoulTicks = 0, soulTicks = 0, soulGain = 0 \<rparr>"

definition new_damage :: damage where
  "new_damage =
     \<lparr> maxDamage = 0, minDamage = 0, startDamage = 0, periodDamage = 0, periodDamageTick = 0, tickInterval = 2000,
       initDamage = 0, forceUpdate = False, delayed = False, field = False, owner = 0, damageList = [] \<rparr>"

definition new_speed :: "i32 \<Rightarrow> speed" where
  "new_speed changeSpeed = \<lparr> speedDelta = changeSpeed, mina = 0, minb = 0, maxa = 0, maxb = 0 \<rparr>"

definition new_outfit :: outfit where
  "new_outfit = \<lparr> lookType = 0, lookTypeEx = 0, lookMount = 0, lookHead = 0, lookBody = 0, lookLegs = 0, lookFeet = 0,
     lookAddons = 0, look_padding = 0 \<rparr>"

definition new_light :: "u8 \<Rightarrow> u8 \<Rightarrow> light" where
  "new_light lv co = \<lparr> lightInfo = \<lparr> level = lv, color = co \<rparr>, internalLightTicks = 0, lightChangeInterval = 0 \<rparr>"

text \<open>\<open>Condition::createCondition\<close> by type: the subclass and its fresh members; unknown types give no object.\<close>

definition createBody :: "u32 \<Rightarrow> i32 \<Rightarrow> cond_body option" where
  "createBody ty param =
    (if ty \<in> {CONDITION_POISON, CONDITION_FIRE, CONDITION_ENERGY, CONDITION_DROWN, CONDITION_FREEZING,
        CONDITION_DAZZLED, CONDITION_CURSED, CONDITION_BLEEDING} then Some (Damage new_damage)
     else if ty \<in> {CONDITION_HASTE, CONDITION_PARALYZE} then Some (Speed (new_speed param))
     else if ty = CONDITION_INVISIBLE then Some Invisible
     else if ty = CONDITION_OUTFIT then Some (Outfit new_outfit)
     else if ty = CONDITION_LIGHT then
       Some (Light (new_light (ucast (param AND 0xFF)) (ucast (drop_bit 8 (param AND 0xFF00)))))
     else if ty = CONDITION_REGENERATION then Some (Regeneration new_regeneration)
     else if ty = CONDITION_SOUL then Some (Soul new_soul)
     else if ty = CONDITION_ATTRIBUTES then Some (Attributes new_attributes)
     else if ty = CONDITION_SPELLCOOLDOWN then Some SpellCooldown
     else if ty = CONDITION_SPELLGROUPCOOLDOWN then Some SpellGroupCooldown
     else if ty \<in> {CONDITION_INFIGHT, CONDITION_DRUNK, CONDITION_EXHAUST_WEAPON, CONDITION_EXHAUST_COMBAT,
        CONDITION_EXHAUST_HEAL, CONDITION_MUTED, CONDITION_CHANNELMUTEDTICKS, CONDITION_YELLTICKS, CONDITION_PACIFIED,
        CONDITION_MANASHIELD} then Some Generic
     else None)"

definition createCondition :: "u8 \<Rightarrow> u32 \<Rightarrow> i32 \<Rightarrow> i32 \<Rightarrow> bool \<Rightarrow> u32 \<Rightarrow> bool \<Rightarrow> condition option" where
  "createCondition i ty tk param buff sid aggr =
     map_option (\<lambda>b. new_condition i ty (case b of Damage _ \<Rightarrow> 0 | _ \<Rightarrow> tk) buff sid aggr b) (createBody ty param)"

section \<open>Parameters\<close>

datatype ConditionParam_t =
    CONDITION_PARAM_OWNER | CONDITION_PARAM_TICKS | CONDITION_PARAM_HEALTHGAIN | CONDITION_PARAM_HEALTHTICKS
  | CONDITION_PARAM_MANAGAIN | CONDITION_PARAM_MANATICKS | CONDITION_PARAM_DELAYED | CONDITION_PARAM_SPEED
  | CONDITION_PARAM_LIGHT_LEVEL | CONDITION_PARAM_LIGHT_COLOR | CONDITION_PARAM_SOULGAIN | CONDITION_PARAM_SOULTICKS
  | CONDITION_PARAM_MINVALUE | CONDITION_PARAM_MAXVALUE | CONDITION_PARAM_STARTVALUE | CONDITION_PARAM_TICKINTERVAL
  | CONDITION_PARAM_FORCEUPDATE | CONDITION_PARAM_SKILL_MELEE | CONDITION_PARAM_SKILL_FIST | CONDITION_PARAM_SKILL_CLUB
  | CONDITION_PARAM_SKILL_SWORD | CONDITION_PARAM_SKILL_AXE | CONDITION_PARAM_SKILL_DISTANCE
  | CONDITION_PARAM_SKILL_SHIELD | CONDITION_PARAM_SKILL_FISHING | CONDITION_PARAM_STAT_MAXHITPOINTS
  | CONDITION_PARAM_STAT_MAXMANAPOINTS | CONDITION_PARAM_STAT_MAGICPOINTS | CONDITION_PARAM_STAT_MAXHITPOINTSPERCENT
  | CONDITION_PARAM_STAT_MAXMANAPOINTSPERCENT | CONDITION_PARAM_STAT_MAGICPOINTSPERCENT
  | CONDITION_PARAM_PERIODICDAMAGE | CONDITION_PARAM_SKILL_MELEEPERCENT | CONDITION_PARAM_SKILL_FISTPERCENT
  | CONDITION_PARAM_SKILL_CLUBPERCENT | CONDITION_PARAM_SKILL_SWORDPERCENT | CONDITION_PARAM_SKILL_AXEPERCENT
  | CONDITION_PARAM_SKILL_DISTANCEPERCENT | CONDITION_PARAM_SKILL_SHIELDPERCENT | CONDITION_PARAM_SKILL_FISHINGPERCENT
  | CONDITION_PARAM_BUFF_SPELL | CONDITION_PARAM_SUBID | CONDITION_PARAM_FIELD | CONDITION_PARAM_DISABLE_DEFENSE
  | CONDITION_PARAM_SPECIALSKILL_CRITICALHITCHANCE | CONDITION_PARAM_SPECIALSKILL_CRITICALHITAMOUNT
  | CONDITION_PARAM_SPECIALSKILL_LIFELEECHCHANCE | CONDITION_PARAM_SPECIALSKILL_LIFELEECHAMOUNT
  | CONDITION_PARAM_SPECIALSKILL_MANALEECHCHANCE | CONDITION_PARAM_SPECIALSKILL_MANALEECHAMOUNT
  | CONDITION_PARAM_AGGRESSIVE

abbreviation (input) "SKILL_FIST \<equiv> (0 :: nat)"
abbreviation (input) "SKILL_CLUB \<equiv> (1 :: nat)"
abbreviation (input) "SKILL_SWORD \<equiv> (2 :: nat)"
abbreviation (input) "SKILL_AXE \<equiv> (3 :: nat)"
abbreviation (input) "SKILL_DISTANCE \<equiv> (4 :: nat)"
abbreviation (input) "SKILL_SHIELD \<equiv> (5 :: nat)"
abbreviation (input) "SKILL_FISHING \<equiv> (6 :: nat)"
abbreviation (input) "STAT_MAXHITPOINTS \<equiv> (0 :: nat)"
abbreviation (input) "STAT_MAXMANAPOINTS \<equiv> (1 :: nat)"
abbreviation (input) "STAT_SOULPOINTS \<equiv> (2 :: nat)"
abbreviation (input) "STAT_MAGICPOINTS \<equiv> (3 :: nat)"

text \<open>\<open>std::abs\<close> of a 32 bit integer and the larger of it and zero.\<close>

definition abs32 :: "i32 \<Rightarrow> i32" where "abs32 v = (if sint v < 0 then - v else v)"
definition at_least_zero :: "i32 \<Rightarrow> i32" where "at_least_zero v = (if sint v < 0 then 0 else v)"

fun Condition_setParam :: "ConditionParam_t \<Rightarrow> i32 \<Rightarrow> condition \<Rightarrow> bool \<times> condition" where
  "Condition_setParam CONDITION_PARAM_TICKS v c = (True, c\<lparr>ticks := v\<rparr>)"
| "Condition_setParam CONDITION_PARAM_BUFF_SPELL v c = (True, c\<lparr>isBuff := (v \<noteq> 0)\<rparr>)"
| "Condition_setParam CONDITION_PARAM_SUBID v c = (True, c\<lparr>subId := v\<rparr>)"
| "Condition_setParam CONDITION_PARAM_AGGRESSIVE v c = (True, c\<lparr>aggressive := (v \<noteq> 0)\<rparr>)"
| "Condition_setParam _ v c = (False, c)"

definition set_at :: "nat list \<Rightarrow> i32 \<Rightarrow> i32 list \<Rightarrow> i32 list" where
  "set_at is v xs = foldl (\<lambda>xs i. xs[i := v]) xs is"

definition melee_skills :: "nat list" where "melee_skills = [SKILL_CLUB, SKILL_AXE, SKILL_SWORD]"

text \<open>The cases of \<open>ConditionAttributes::setParam\<close>: which array cells the parameter sets.\<close>

fun attributes_param :: "ConditionParam_t \<Rightarrow> i32 \<Rightarrow> attributes \<Rightarrow> attributes option" where
  "attributes_param CONDITION_PARAM_SKILL_MELEE v a = Some (a\<lparr>skills := set_at melee_skills v (skills a)\<rparr>)"
| "attributes_param CONDITION_PARAM_SKILL_MELEEPERCENT v a =
     Some (a\<lparr>skillsPercent := set_at melee_skills v (skillsPercent a)\<rparr>)"
| "attributes_param CONDITION_PARAM_SKILL_FIST v a = Some (a\<lparr>skills := (skills a)[SKILL_FIST := v]\<rparr>)"
| "attributes_param CONDITION_PARAM_SKILL_FISTPERCENT v a =
     Some (a\<lparr>skillsPercent := (skillsPercent a)[SKILL_FIST := v]\<rparr>)"
| "attributes_param CONDITION_PARAM_SKILL_CLUB v a = Some (a\<lparr>skills := (skills a)[SKILL_CLUB := v]\<rparr>)"
| "attributes_param CONDITION_PARAM_SKILL_CLUBPERCENT v a =
     Some (a\<lparr>skillsPercent := (skillsPercent a)[SKILL_CLUB := v]\<rparr>)"
| "attributes_param CONDITION_PARAM_SKILL_SWORD v a = Some (a\<lparr>skills := (skills a)[SKILL_SWORD := v]\<rparr>)"
| "attributes_param CONDITION_PARAM_SKILL_SWORDPERCENT v a =
     Some (a\<lparr>skillsPercent := (skillsPercent a)[SKILL_SWORD := v]\<rparr>)"
| "attributes_param CONDITION_PARAM_SKILL_AXE v a = Some (a\<lparr>skills := (skills a)[SKILL_AXE := v]\<rparr>)"
| "attributes_param CONDITION_PARAM_SKILL_AXEPERCENT v a =
     Some (a\<lparr>skillsPercent := (skillsPercent a)[SKILL_AXE := v]\<rparr>)"
| "attributes_param CONDITION_PARAM_SKILL_DISTANCE v a = Some (a\<lparr>skills := (skills a)[SKILL_DISTANCE := v]\<rparr>)"
| "attributes_param CONDITION_PARAM_SKILL_DISTANCEPERCENT v a =
     Some (a\<lparr>skillsPercent := (skillsPercent a)[SKILL_DISTANCE := v]\<rparr>)"
| "attributes_param CONDITION_PARAM_SKILL_SHIELD v a = Some (a\<lparr>skills := (skills a)[SKILL_SHIELD := v]\<rparr>)"
| "attributes_param CONDITION_PARAM_SKILL_SHIELDPERCENT v a =
     Some (a\<lparr>skillsPercent := (skillsPercent a)[SKILL_SHIELD := v]\<rparr>)"
| "attributes_param CONDITION_PARAM_SKILL_FISHING v a = Some (a\<lparr>skills := (skills a)[SKILL_FISHING := v]\<rparr>)"
| "attributes_param CONDITION_PARAM_SKILL_FISHINGPERCENT v a =
     Some (a\<lparr>skillsPercent := (skillsPercent a)[SKILL_FISHING := v]\<rparr>)"
| "attributes_param CONDITION_PARAM_STAT_MAXHITPOINTS v a = Some (a\<lparr>stats := (stats a)[STAT_MAXHITPOINTS := v]\<rparr>)"
| "attributes_param CONDITION_PARAM_STAT_MAXMANAPOINTS v a = Some (a\<lparr>stats := (stats a)[STAT_MAXMANAPOINTS := v]\<rparr>)"
| "attributes_param CONDITION_PARAM_STAT_MAGICPOINTS v a = Some (a\<lparr>stats := (stats a)[STAT_MAGICPOINTS := v]\<rparr>)"
| "attributes_param CONDITION_PARAM_STAT_MAXHITPOINTSPERCENT v a =
     Some (a\<lparr>statsPercent := (statsPercent a)[STAT_MAXHITPOINTS := at_least_zero v]\<rparr>)"
| "attributes_param CONDITION_PARAM_STAT_MAXMANAPOINTSPERCENT v a =
     Some (a\<lparr>statsPercent := (statsPercent a)[STAT_MAXMANAPOINTS := at_least_zero v]\<rparr>)"
| "attributes_param CONDITION_PARAM_STAT_MAGICPOINTSPERCENT v a =
     Some (a\<lparr>statsPercent := (statsPercent a)[STAT_MAGICPOINTS := at_least_zero v]\<rparr>)"
| "attributes_param CONDITION_PARAM_DISABLE_DEFENSE v a = Some (a\<lparr>disableDefense := (v \<noteq> 0)\<rparr>)"
| "attributes_param CONDITION_PARAM_SPECIALSKILL_CRITICALHITCHANCE v a =
     Some (a\<lparr>specialSkills := (specialSkills a)[0 := v]\<rparr>)"
| "attributes_param CONDITION_PARAM_SPECIALSKILL_CRITICALHITAMOUNT v a =
     Some (a\<lparr>specialSkills := (specialSkills a)[1 := v]\<rparr>)"
| "attributes_param CONDITION_PARAM_SPECIALSKILL_LIFELEECHCHANCE v a =
     Some (a\<lparr>specialSkills := (specialSkills a)[2 := v]\<rparr>)"
| "attributes_param CONDITION_PARAM_SPECIALSKILL_LIFELEECHAMOUNT v a =
     Some (a\<lparr>specialSkills := (specialSkills a)[3 := v]\<rparr>)"
| "attributes_param CONDITION_PARAM_SPECIALSKILL_MANALEECHCHANCE v a =
     Some (a\<lparr>specialSkills := (specialSkills a)[4 := v]\<rparr>)"
| "attributes_param CONDITION_PARAM_SPECIALSKILL_MANALEECHAMOUNT v a =
     Some (a\<lparr>specialSkills := (specialSkills a)[5 := v]\<rparr>)"
| "attributes_param _ v a = None"

fun regeneration_param :: "ConditionParam_t \<Rightarrow> i32 \<Rightarrow> regeneration \<Rightarrow> regeneration option" where
  "regeneration_param CONDITION_PARAM_HEALTHGAIN v r = Some (r\<lparr>healthGain := v\<rparr>)"
| "regeneration_param CONDITION_PARAM_HEALTHTICKS v r = Some (r\<lparr>healthTicks := v\<rparr>)"
| "regeneration_param CONDITION_PARAM_MANAGAIN v r = Some (r\<lparr>manaGain := v\<rparr>)"
| "regeneration_param CONDITION_PARAM_MANATICKS v r = Some (r\<lparr>manaTicks := v\<rparr>)"
| "regeneration_param _ v r = None"

fun soul_param :: "ConditionParam_t \<Rightarrow> i32 \<Rightarrow> soul \<Rightarrow> soul option" where
  "soul_param CONDITION_PARAM_SOULGAIN v s = Some (s\<lparr>soulGain := v\<rparr>)"
| "soul_param CONDITION_PARAM_SOULTICKS v s = Some (s\<lparr>soulTicks := v\<rparr>)"
| "soul_param _ v s = None"

text \<open>The second component of \<open>damage_param\<close> says whether the case returns \<open>true\<close> at once; the others return what
  the base class returned, and a parameter without a case is refused.\<close>

fun damage_param :: "ConditionParam_t \<Rightarrow> i32 \<Rightarrow> damage \<Rightarrow> (damage \<times> bool) option" where
  "damage_param CONDITION_PARAM_OWNER v d = Some (d\<lparr>owner := v\<rparr>, True)"
| "damage_param CONDITION_PARAM_FORCEUPDATE v d = Some (d\<lparr>forceUpdate := (v \<noteq> 0)\<rparr>, True)"
| "damage_param CONDITION_PARAM_DELAYED v d = Some (d\<lparr>delayed := (v \<noteq> 0)\<rparr>, True)"
| "damage_param CONDITION_PARAM_MAXVALUE v d = Some (d\<lparr>maxDamage := abs32 v\<rparr>, False)"
| "damage_param CONDITION_PARAM_MINVALUE v d = Some (d\<lparr>minDamage := abs32 v\<rparr>, False)"
| "damage_param CONDITION_PARAM_STARTVALUE v d = Some (d\<lparr>startDamage := abs32 v\<rparr>, False)"
| "damage_param CONDITION_PARAM_TICKINTERVAL v d = Some (d\<lparr>tickInterval := abs32 v\<rparr>, False)"
| "damage_param CONDITION_PARAM_PERIODICDAMAGE v d = Some (d\<lparr>periodDamage := v\<rparr>, False)"
| "damage_param CONDITION_PARAM_FIELD v d = Some (d\<lparr>field := (v \<noteq> 0)\<rparr>, False)"
| "damage_param _ v d = None"

definition with_body :: "bool \<Rightarrow> condition \<Rightarrow> cond_body option \<Rightarrow> bool \<times> condition" where
  "with_body ret c b = (case b of None \<Rightarrow> (ret, c) | Some b \<Rightarrow> (True, c\<lparr>body := b\<rparr>))"

definition setParam :: "ConditionParam_t \<Rightarrow> i32 \<Rightarrow> condition \<Rightarrow> bool \<times> condition" where
  "setParam p v c =
    (let (ret, c') = Condition_setParam p v c in
     case body c' of
       Attributes a \<Rightarrow> with_body ret c' (map_option Attributes (attributes_param p v a))
     | Regeneration r \<Rightarrow> with_body ret c' (map_option Regeneration (regeneration_param p v r))
     | Soul s \<Rightarrow> with_body ret c' (map_option Soul (soul_param p v s))
     | Damage d \<Rightarrow>
         (case damage_param p v d of
            None \<Rightarrow> (False, c')
          | Some (d', now) \<Rightarrow> (now \<or> ret, c'\<lparr>body := Damage d'\<rparr>))
     | Speed s \<Rightarrow>
         if p \<noteq> CONDITION_PARAM_SPEED then (False, c')
         else (True, c'\<lparr>body := Speed (s\<lparr>speedDelta := v\<rparr>),
                        conditionType := (if sint v > 0 then CONDITION_HASTE else CONDITION_PARALYZE)\<rparr>)
     | Light l \<Rightarrow>
         if ret then (False, c')
         else if p = CONDITION_PARAM_LIGHT_LEVEL then
           (True, c'\<lparr>body := Light (l\<lparr>lightInfo := (lightInfo l)\<lparr>level := ucast v\<rparr>\<rparr>)\<rparr>)
         else if p = CONDITION_PARAM_LIGHT_COLOR then
           (True, c'\<lparr>body := Light (l\<lparr>lightInfo := (lightInfo l)\<lparr>color := ucast v\<rparr>\<rparr>)\<rparr>)
         else (False, c')
     | _ \<Rightarrow> (ret, c'))"

definition setFormulaVars :: "u32 \<Rightarrow> u32 \<Rightarrow> u32 \<Rightarrow> u32 \<Rightarrow> speed \<Rightarrow> speed" where
  "setFormulaVars a b a' b' s = s\<lparr>mina := a, minb := b, maxa := a', maxb := b'\<rparr>"

section \<open>Time, icons, persistence\<close>

definition setTicks :: "int \<Rightarrow> i32 \<Rightarrow> condition \<Rightarrow> condition" where
  "setTicks now newTicks c = c\<lparr>ticks := newTicks, endTime := sint newTicks + now\<rparr>"

definition isPersistent :: "condition \<Rightarrow> bool" where
  "isPersistent c \<longleftrightarrow>
     ticks c \<noteq> -1 \<and> (cid c = CONDITIONID_DEFAULT \<or> cid c = CONDITIONID_COMBAT \<or> conditionType c = CONDITION_MUTED)"

definition generic_icons :: "u32 \<Rightarrow> u32" where
  "generic_icons ty =
    (if ty = CONDITION_MANASHIELD then 0x10 else if ty = CONDITION_INFIGHT then 0x80
     else if ty = CONDITION_DRUNK then 0x8 else 0)"

definition damage_icons :: "u32 \<Rightarrow> u32" where
  "damage_icons ty =
    (if ty = CONDITION_FIRE then 0x2 else if ty = CONDITION_ENERGY then 0x4 else if ty = CONDITION_DROWN then 0x100
     else if ty = CONDITION_POISON then 0x1 else if ty = CONDITION_FREEZING then 0x200
     else if ty = CONDITION_DAZZLED then 0x400 else if ty = CONDITION_CURSED then 0x800
     else if ty = CONDITION_BLEEDING then 0x8000 else 0)"

definition speed_icons :: "u32 \<Rightarrow> u32" where
  "speed_icons ty = (if ty = CONDITION_HASTE then 0x40 else if ty = CONDITION_PARALYZE then 0x20 else 0)"

definition getIcons :: "condition \<Rightarrow> u32" where
  "getIcons c =
    (if isBuff c then 0x1000 else 0) OR
    (case body c of
       Damage _ \<Rightarrow> damage_icons (conditionType c)
     | Speed _ \<Rightarrow> speed_icons (conditionType c)
     | Outfit _ \<Rightarrow> 0
     | Light _ \<Rightarrow> 0
     | _ \<Rightarrow> generic_icons (conditionType c))"

section \<open>Storage\<close>

definition enc_bool :: "bool \<Rightarrow> prop_field" where "enc_bool b = P8 (if b then 1 else 0)"

definition base_props :: "condition \<Rightarrow> prop_field list" where
  "base_props c =
     [P8 CONDITIONATTR_TYPE, P32 (conditionType c), P8 CONDITIONATTR_ID, P32 (scast (cid c)),
      P8 CONDITIONATTR_TICKS, P32 (ticks c), P8 CONDITIONATTR_ISBUFF, enc_bool (isBuff c),
      P8 CONDITIONATTR_SUBID, P32 (subId c), P8 CONDITIONATTR_ISAGGRESSIVE, enc_bool (aggressive c)]"

definition interval_props :: "interval_info \<Rightarrow> prop_field list" where
  "interval_props i = [P8 CONDITIONATTR_INTERVALDATA, P32 (timeLeft i), P32 (ivalue i), P32 (interval i)]"

definition outfit_props :: "outfit \<Rightarrow> prop_field list" where
  "outfit_props o' =
     [P16 (lookType o'), P16 (lookTypeEx o'), P16 (lookMount o'), P8 (lookHead o'), P8 (lookBody o'), P8 (lookLegs o'),
      P8 (lookFeet o'), P8 (lookAddons o'), P8 (look_padding o')]"

definition attributes_props :: "attributes \<Rightarrow> prop_field list" where
  [simp]: "attributes_props a =
     concat (map (\<lambda>v. [P8 CONDITIONATTR_SKILLS, P32 v]) (skills a)) @
     concat (map (\<lambda>v. [P8 CONDITIONATTR_STATS, P32 v]) (stats a)) @
     [P8 CONDITIONATTR_DISABLEDEFENSE, enc_bool (disableDefense a)]"

definition regeneration_props :: "regeneration \<Rightarrow> prop_field list" where
  [simp]: "regeneration_props r =
     [P8 CONDITIONATTR_HEALTHTICKS, P32 (healthTicks r), P8 CONDITIONATTR_HEALTHGAIN, P32 (healthGain r),
      P8 CONDITIONATTR_MANATICKS, P32 (manaTicks r), P8 CONDITIONATTR_MANAGAIN, P32 (manaGain r)]"

definition soul_props :: "soul \<Rightarrow> prop_field list" where
  [simp]: "soul_props s = [P8 CONDITIONATTR_SOULGAIN, P32 (soulGain s), P8 CONDITIONATTR_SOULTICKS, P32 (soulTicks s)]"

definition damage_props :: "damage \<Rightarrow> prop_field list" where
  [simp]: "damage_props d =
     [P8 CONDITIONATTR_DELAYED, enc_bool (delayed d), P8 CONDITIONATTR_PERIODDAMAGE, P32 (periodDamage d)] @
     concat (map interval_props (damageList d))"

definition speed_props :: "speed \<Rightarrow> prop_field list" where
  [simp]: "speed_props s =
     [P8 CONDITIONATTR_SPEEDDELTA, P32 (speedDelta s), P8 CONDITIONATTR_FORMULA_MINA, P32 (mina s),
      P8 CONDITIONATTR_FORMULA_MINB, P32 (minb s), P8 CONDITIONATTR_FORMULA_MAXA, P32 (maxa s),
      P8 CONDITIONATTR_FORMULA_MAXB, P32 (maxb s)]"

definition light_props :: "light \<Rightarrow> prop_field list" where
  [simp]: "light_props l =
     [P8 CONDITIONATTR_LIGHTCOLOR, P32 (ucast (color (lightInfo l))),
      P8 CONDITIONATTR_LIGHTLEVEL, P32 (ucast (level (lightInfo l))),
      P8 CONDITIONATTR_LIGHTTICKS, P32 (internalLightTicks l),
      P8 CONDITIONATTR_LIGHTINTERVAL, P32 (lightChangeInterval l)]"

text \<open>\<open>serialize\<close> is virtual: each override calls \<open>Condition::serialize\<close> first and then writes the fields of its class.
  Classes without an override have no fields of their own.\<close>

fun body_props :: "cond_body \<Rightarrow> prop_field list" where
  "body_props (Attributes a) = attributes_props a"
| "body_props (Regeneration r) = regeneration_props r"
| "body_props (Soul s) = soul_props s"
| "body_props (Damage d) = damage_props d"
| "body_props (Speed s) = speed_props s"
| "body_props (Outfit o') = P8 CONDITIONATTR_OUTFIT # outfit_props o'"
| "body_props (Light l) = light_props l"
| "body_props _ = []"

definition serialize :: "condition \<Rightarrow> u8 list \<Rightarrow> u8 list" where
  "serialize c buffer = write_props (base_props c @ body_props (body c)) buffer"

text \<open>The result of reading one attribute or a whole object: the object and the rest of the stream, a refusal with the
  stream where the reader stopped, or a write outside an array member.\<close>

datatype prop_result = Good condition "u8 list" | Bad "u8 list" | Overrun

definition into :: "('a \<times> u8 list) option \<Rightarrow> u8 list \<Rightarrow> ('a \<Rightarrow> condition) \<Rightarrow> prop_result" where
  "into r s f = (case r of None \<Rightarrow> Bad s | Some (v, s') \<Rightarrow> Good (f v) s')"

definition Condition_unserializeProp :: "u8 \<Rightarrow> condition \<Rightarrow> u8 list \<Rightarrow> prop_result" where
  "Condition_unserializeProp attr c s =
    (if attr = CONDITIONATTR_TYPE then into (read32 s) s (\<lambda>v. c\<lparr>conditionType := v\<rparr>)
     else if attr = CONDITIONATTR_ID then into (read32 s) s (\<lambda>v. c\<lparr>cid := ucast v\<rparr>)
     else if attr = CONDITIONATTR_TICKS then into (read32 s) s (\<lambda>v. c\<lparr>ticks := v\<rparr>)
     else if attr = CONDITIONATTR_ISBUFF then into (read8 s) s (\<lambda>v. c\<lparr>isBuff := (v \<noteq> 0)\<rparr>)
     else if attr = CONDITIONATTR_SUBID then into (read32 s) s (\<lambda>v. c\<lparr>subId := v\<rparr>)
     else if attr = CONDITIONATTR_ISAGGRESSIVE then into (read8 s) s (\<lambda>v. c\<lparr>aggressive := (v \<noteq> 0)\<rparr>)
     else if attr = CONDITIONATTR_END then Good c s
     else Bad s)"

definition dec_interval :: "u8 list \<Rightarrow> interval_info" where
  "dec_interval bs =
     \<lparr> timeLeft = le_dec32 (take 4 bs), ivalue = le_dec32 (take 4 (drop 4 bs)), interval = le_dec32 (take 4 (drop 8 bs)) \<rparr>"

definition dec_outfit :: "u8 list \<Rightarrow> outfit" where
  "dec_outfit bs =
     \<lparr> lookType = le_dec16 (take 2 bs), lookTypeEx = le_dec16 (take 2 (drop 2 bs)),
       lookMount = le_dec16 (take 2 (drop 4 bs)), lookHead = bs ! 6, lookBody = bs ! 7, lookLegs = bs ! 8,
       lookFeet = bs ! 9, lookAddons = bs ! 10, look_padding = bs ! 11 \<rparr>"

text \<open>The \<open>damageList.push_back\<close> of a stored interval, which also lengthens the condition.\<close>

definition push_interval :: "int \<Rightarrow> interval_info \<Rightarrow> condition \<Rightarrow> condition" where
  "push_interval now i c =
    (case body c of
       Damage d \<Rightarrow>
         let c' = c\<lparr>body := Damage (d\<lparr>damageList := damageList d @ [i]\<rparr>)\<rparr> in
         if ticks c' \<noteq> -1 then setTicks now (ticks c' + interval i) c' else c'
     | _ \<Rightarrow> c)"

definition attributes_unserializeProp :: "u8 \<Rightarrow> condition \<Rightarrow> attributes \<Rightarrow> u8 list \<Rightarrow> prop_result" where
  "attributes_unserializeProp attr c a s =
    (if attr = CONDITIONATTR_SKILLS then
       (if currentSkill a < length (skills a)
        then case read32 s of
            None \<Rightarrow> Bad s
          | Some (v, s') \<Rightarrow>
              Good (c\<lparr>body := Attributes (a\<lparr>skills := (skills a)[currentSkill a := v],
                                           currentSkill := currentSkill a + 1\<rparr>)\<rparr>) s'
        else if read32 s = None then Bad s else Overrun)
     else if attr = CONDITIONATTR_STATS then
       (if currentStat a < length (stats a)
        then case read32 s of
            None \<Rightarrow> Bad s
          | Some (v, s') \<Rightarrow>
              Good (c\<lparr>body := Attributes (a\<lparr>stats := (stats a)[currentStat a := v],
                                           currentStat := currentStat a + 1\<rparr>)\<rparr>) s'
        else if read32 s = None then Bad s else Overrun)
     else if attr = CONDITIONATTR_DISABLEDEFENSE then
       into (read8 s) s (\<lambda>v. c\<lparr>body := Attributes (a\<lparr>disableDefense := (v \<noteq> 0)\<rparr>)\<rparr>)
     else Condition_unserializeProp attr c s)"

definition unserializeProp :: "int \<Rightarrow> u8 \<Rightarrow> condition \<Rightarrow> u8 list \<Rightarrow> prop_result" where
  "unserializeProp now attr c s =
    (case body c of
       Attributes a \<Rightarrow> attributes_unserializeProp attr c a s
     | Regeneration r \<Rightarrow>
         if attr = CONDITIONATTR_HEALTHTICKS then into (read32 s) s (\<lambda>v. c\<lparr>body := Regeneration (r\<lparr>healthTicks := v\<rparr>)\<rparr>)
         else if attr = CONDITIONATTR_HEALTHGAIN then into (read32 s) s (\<lambda>v. c\<lparr>body := Regeneration (r\<lparr>healthGain := v\<rparr>)\<rparr>)
         else if attr = CONDITIONATTR_MANATICKS then into (read32 s) s (\<lambda>v. c\<lparr>body := Regeneration (r\<lparr>manaTicks := v\<rparr>)\<rparr>)
         else if attr = CONDITIONATTR_MANAGAIN then into (read32 s) s (\<lambda>v. c\<lparr>body := Regeneration (r\<lparr>manaGain := v\<rparr>)\<rparr>)
         else Condition_unserializeProp attr c s
     | Soul so \<Rightarrow>
         if attr = CONDITIONATTR_SOULGAIN then into (read32 s) s (\<lambda>v. c\<lparr>body := Soul (so\<lparr>soulGain := v\<rparr>)\<rparr>)
         else if attr = CONDITIONATTR_SOULTICKS then into (read32 s) s (\<lambda>v. c\<lparr>body := Soul (so\<lparr>soulTicks := v\<rparr>)\<rparr>)
         else Condition_unserializeProp attr c s
     | Damage d \<Rightarrow>
         if attr = CONDITIONATTR_DELAYED then into (read8 s) s (\<lambda>v. c\<lparr>body := Damage (d\<lparr>delayed := (v \<noteq> 0)\<rparr>)\<rparr>)
         else if attr = CONDITIONATTR_PERIODDAMAGE then into (read32 s) s (\<lambda>v. c\<lparr>body := Damage (d\<lparr>periodDamage := v\<rparr>)\<rparr>)
         else if attr = CONDITIONATTR_OWNER then (case prop_skip 4 s of None \<Rightarrow> Bad s | Some s' \<Rightarrow> Good c s')
         else if attr = CONDITIONATTR_INTERVALDATA then into (prop_read 12 dec_interval s) s (\<lambda>i. push_interval now i c)
         else Condition_unserializeProp attr c s
     | Speed sp \<Rightarrow>
         if attr = CONDITIONATTR_SPEEDDELTA then into (read32 s) s (\<lambda>v. c\<lparr>body := Speed (sp\<lparr>speedDelta := v\<rparr>)\<rparr>)
         else if attr = CONDITIONATTR_FORMULA_MINA then into (read32 s) s (\<lambda>v. c\<lparr>body := Speed (sp\<lparr>mina := v\<rparr>)\<rparr>)
         else if attr = CONDITIONATTR_FORMULA_MINB then into (read32 s) s (\<lambda>v. c\<lparr>body := Speed (sp\<lparr>minb := v\<rparr>)\<rparr>)
         else if attr = CONDITIONATTR_FORMULA_MAXA then into (read32 s) s (\<lambda>v. c\<lparr>body := Speed (sp\<lparr>maxa := v\<rparr>)\<rparr>)
         else if attr = CONDITIONATTR_FORMULA_MAXB then into (read32 s) s (\<lambda>v. c\<lparr>body := Speed (sp\<lparr>maxb := v\<rparr>)\<rparr>)
         else Condition_unserializeProp attr c s
     | Outfit o' \<Rightarrow>
         if attr = CONDITIONATTR_OUTFIT then into (prop_read 12 dec_outfit s) s (\<lambda>v. c\<lparr>body := Outfit v\<rparr>)
         else Condition_unserializeProp attr c s
     | Light l \<Rightarrow>
         if attr = CONDITIONATTR_LIGHTCOLOR then
           into (read32 s) s (\<lambda>v. c\<lparr>body := Light (l\<lparr>lightInfo := (lightInfo l)\<lparr>color := ucast v\<rparr>\<rparr>)\<rparr>)
         else if attr = CONDITIONATTR_LIGHTLEVEL then
           into (read32 s) s (\<lambda>v. c\<lparr>body := Light (l\<lparr>lightInfo := (lightInfo l)\<lparr>level := ucast v\<rparr>\<rparr>)\<rparr>)
         else if attr = CONDITIONATTR_LIGHTTICKS then
           into (read32 s) s (\<lambda>v. c\<lparr>body := Light (l\<lparr>internalLightTicks := v\<rparr>)\<rparr>)
         else if attr = CONDITIONATTR_LIGHTINTERVAL then
           into (read32 s) s (\<lambda>v. c\<lparr>body := Light (l\<lparr>lightChangeInterval := v\<rparr>)\<rparr>)
         else Condition_unserializeProp attr c s
     | _ \<Rightarrow> Condition_unserializeProp attr c s)"

text \<open>Every read consumes bytes, so the attribute loop ends on every stream.\<close>

lemma into_shrinks: "into (prop_read n dec s) s f = Good c' s' \<Longrightarrow> length s' \<le> length s"
  by (auto simp: into_def prop_read_def split: if_splits)

lemma into_read_shrinks:
  "into (read8 s) s f = Good c' s' \<Longrightarrow> length s' \<le> length s"
  "into (read32 s) s g = Good c' s' \<Longrightarrow> length s' \<le> length s"
  by (simp_all add: read8_def read32_def into_shrinks)

lemma prop_read_shrinks:
  "read8 s = Some (v, s') \<Longrightarrow> length s' < length s" "read32 s = Some (w, s') \<Longrightarrow> length s' < length s"
  by (auto simp: read8_def read32_def prop_read_def split: if_splits)

lemma Condition_unserializeProp_shrinks: "Condition_unserializeProp attr c s = Good c' s' \<Longrightarrow> length s' \<le> length s"
  by (auto simp: Condition_unserializeProp_def split: if_splits dest: into_read_shrinks)

lemma attributes_unserializeProp_shrinks:
  "attributes_unserializeProp attr c a s = Good c' s' \<Longrightarrow> length s' \<le> length s"
  by (auto simp: attributes_unserializeProp_def split: if_splits option.splits
      dest: into_read_shrinks prop_read_shrinks Condition_unserializeProp_shrinks)

lemma unserializeProp_shrinks: "unserializeProp now attr c s = Good c' s' \<Longrightarrow> length s' \<le> length s"
  by (auto simp: unserializeProp_def prop_skip_def split: if_splits cond_body.splits
      dest: into_read_shrinks into_shrinks Condition_unserializeProp_shrinks attributes_unserializeProp_shrinks)

function unserialize :: "int \<Rightarrow> condition \<Rightarrow> u8 list \<Rightarrow> prop_result" where
  "unserialize now c s =
    (case read8 s of
       None \<Rightarrow> Good c s
     | Some (attr, s1) \<Rightarrow>
         if attr = CONDITIONATTR_END then Good c s1
         else case unserializeProp now attr c s1 of
             Good c' s2 \<Rightarrow> unserialize now c' s2
           | Bad s2 \<Rightarrow> Bad s2
           | Overrun \<Rightarrow> Overrun)"
  by pat_completeness auto
termination
  by (relation "measure (\<lambda>(_, _, s). length s)") 
    (auto intro: le_less_trans[OF unserializeProp_shrinks prop_read_shrinks(1)])

declare unserialize.simps [simp del]

definition read_attr :: "u8 \<Rightarrow> u8 list \<Rightarrow> u8 list option" where
  "read_attr expected s =
    (case read8 s of None \<Rightarrow> None | Some (attr, s') \<Rightarrow> if attr \<noteq> expected then None else Some s')"

text \<open>\<open>Condition::createCondition(PropStream&)\<close>: the six leading attributes in their fixed order.\<close>

definition createCondition_stream :: "u8 list \<Rightarrow> (condition \<times> u8 list) option" where
  "createCondition_stream s =
     do { s \<leftarrow> read_attr CONDITIONATTR_TYPE s;
          (ty, s) \<leftarrow> read32 s;
          s \<leftarrow> read_attr CONDITIONATTR_ID s;
          (i, s) \<leftarrow> read32 s;
          s \<leftarrow> read_attr CONDITIONATTR_TICKS s;
          (tk, s) \<leftarrow> read32 s;
          s \<leftarrow> read_attr CONDITIONATTR_ISBUFF s;
          (buff, s) \<leftarrow> read8 s;
          s \<leftarrow> read_attr CONDITIONATTR_SUBID s;
          (sid, s) \<leftarrow> read32 s;
          s \<leftarrow> read_attr CONDITIONATTR_ISAGGRESSIVE s;
          (aggr, s) \<leftarrow> read8 s;
          c \<leftarrow> createCondition (ucast i) ty tk 0 (buff \<noteq> 0) sid (aggr \<noteq> 0);
          Some (c, s) }"

lemma into_Bad: "into r s f = Bad s' \<Longrightarrow> s' = s"
  by (auto simp: into_def split: option.splits)

lemma Condition_unserializeProp_Bad: "Condition_unserializeProp attr c s = Bad s' \<Longrightarrow> s' = s"
  by (auto simp: Condition_unserializeProp_def split: if_splits dest: into_Bad)

lemma unserializeProp_Bad: "unserializeProp now attr c s = Bad s' \<Longrightarrow> s' = s"
  by (auto simp: unserializeProp_def attributes_unserializeProp_def
      split: if_splits cond_body.splits option.splits dest: into_Bad Condition_unserializeProp_Bad)

lemma unserialize_shrinks:
  "unserialize now c s = Good c' s' \<Longrightarrow> length s' \<le> length s" "unserialize now c s = Bad s' \<Longrightarrow> length s' \<le> length s"
proof (induction now c s rule: unserialize.induct)
  case (1 now c s)
  { case 1
    then show ?case using "1.IH"(1)
      by (subst (asm) unserialize.simps)
        (fastforce split: option.splits prod.splits if_splits prop_result.splits dest: prop_read_shrinks unserializeProp_shrinks)
  next
    case 2
    then show ?case using "1.IH"(2)
      by (subst (asm) unserialize.simps)
        (fastforce split: option.splits prod.splits if_splits prop_result.splits
          dest: prop_read_shrinks unserializeProp_shrinks unserializeProp_Bad) }
qed

lemma read_attr_shrinks: "read_attr a s = Some s' \<Longrightarrow> length s' < length s"
  by (auto simp: read_attr_def split: option.splits if_splits dest: prop_read_shrinks)

lemma createCondition_stream_shrinks: "createCondition_stream s = Some (c, s') \<Longrightarrow> length s' < length s"
  unfolding createCondition_stream_def
  by (auto simp: bind_eq_Some_conv intro: less_trans dest!: read_attr_shrinks prop_read_shrinks)

text \<open>\<open>iologindata.cpp\<close>: the conditions column of a player, written by \<open>savePlayer\<close> and read by \<open>loadPlayer\<close>, which
  pushes every object to the front of the stored list. The result \<open>None\<close> is a write outside an array.\<close>

definition save_conditions :: "condition list \<Rightarrow> u8 list" where
  "save_conditions cs =
     foldl (\<lambda>buf c. if isPersistent c then write8 CONDITIONATTR_END (serialize c buf) else buf) [] cs"

function load_loop :: "int \<Rightarrow> u8 list \<Rightarrow> condition list \<Rightarrow> condition list option" where
  "load_loop now s kept =
    (case createCondition_stream s of
       None \<Rightarrow> Some kept
     | Some (c, s1) \<Rightarrow>
         (case unserialize now c s1 of
            Good c' s2 \<Rightarrow> load_loop now s2 (c' # kept)
          | Bad s2 \<Rightarrow> load_loop now s2 kept
          | Overrun \<Rightarrow> None))"
  by pat_completeness auto
termination
  by (relation "measure (\<lambda>(_, s, _). length s)")
    (auto intro: le_less_trans[OF unserialize_shrinks(1) createCondition_stream_shrinks]
      le_less_trans[OF unserialize_shrinks(2) createCondition_stream_shrinks])

declare load_loop.simps [simp del]

definition load_conditions :: "int \<Rightarrow> u8 list \<Rightarrow> condition list option" where
  "load_conditions now s = load_loop now s []"

section \<open>The class of an object and what storage keeps\<close>

text \<open>Subclasses are recovered by \<open>static_cast\<close> after a comparison of types, so the type of an object must name its
  class; the arrays of \<open>ConditionAttributes\<close> have their declared lengths.\<close>

datatype cond_class =
    CGeneric | CAttributes | CRegeneration | CSoul | CInvisible | CDamage | CSpeed | COutfit | CLight | CSpellCooldown
  | CSpellGroupCooldown

fun class_of :: "cond_body \<Rightarrow> cond_class" where
  "class_of Generic = CGeneric"
| "class_of (Attributes _) = CAttributes"
| "class_of (Regeneration _) = CRegeneration"
| "class_of (Soul _) = CSoul"
| "class_of Invisible = CInvisible"
| "class_of (Damage _) = CDamage"
| "class_of (Speed _) = CSpeed"
| "class_of (Outfit _) = COutfit"
| "class_of (Light _) = CLight"
| "class_of SpellCooldown = CSpellCooldown"
| "class_of SpellGroupCooldown = CSpellGroupCooldown"

fun arrays_ok :: "cond_body \<Rightarrow> bool" where
  "arrays_ok (Attributes a) \<longleftrightarrow>
     length (skills a) = 7 \<and> length (skillsPercent a) = 7 \<and> length (specialSkills a) = 6 \<and> length (stats a) = 4 \<and>
     length (statsPercent a) = 4"
| "arrays_ok _ \<longleftrightarrow> True"

definition well_typed :: "condition \<Rightarrow> bool" where
  "well_typed c \<longleftrightarrow>
     map_option class_of (createBody (conditionType c) 0) = Some (class_of (body c)) \<and> arrays_ok (body c)"

definition restored_body :: "cond_body \<Rightarrow> cond_body" where
  "restored_body b =
    (case b of
       Attributes a \<Rightarrow>
         Attributes (new_attributes\<lparr>skills := skills a, stats := stats a, currentSkill := 7, currentStat := 4,
           disableDefense := disableDefense a\<rparr>)
     | Regeneration r \<Rightarrow> Regeneration (r\<lparr>internalHealthTicks := 0, internalManaTicks := 0\<rparr>)
     | Soul s \<Rightarrow> Soul (s\<lparr>internalSoulTicks := 0\<rparr>)
     | Damage d \<Rightarrow> Damage (new_damage\<lparr>delayed := delayed d, periodDamage := periodDamage d\<rparr>)
     | _ \<Rightarrow> b)"

definition restored :: "int \<Rightarrow> condition \<Rightarrow> condition" where
  "restored now c =
    (let fresh = (\<lambda>tk. new_condition (cid c) (conditionType c) tk (isBuff c) (subId c) (aggressive c) (restored_body (body c)))
     in case body c of
          Damage d \<Rightarrow> foldl (\<lambda>c i. push_interval now i c) (fresh 0) (damageList d)
        | _ \<Rightarrow> fresh (ticks c))"

text \<open>\<open>bytes fs\<close> is what the fields \<open>fs\<close> leave in the stream.\<close>

definition bytes :: "prop_field list \<Rightarrow> u8 list" where "bytes fs = write_props fs []"

lemma bytes_Cons: "bytes (f # fs) = write_prop f [] @ bytes fs"
  using write_props_append[of fs "write_prop f []"] by (simp add: bytes_def)

lemma bytes_simps [simp]:
  "bytes [] = []" "bytes (P8 v # fs) = le_enc8 v @ bytes fs" "bytes (P16 w # fs) = le_enc16 w @ bytes fs"
  "bytes (P32 x # fs) = le_enc32 x @ bytes fs"
  by (simp_all only: bytes_Cons) (simp_all add: bytes_def write8_def write16_def write32_def)

lemma bytes_append [simp]: "bytes (fs @ gs) = bytes fs @ bytes gs"
  by (induction fs) (simp_all add: bytes_Cons)

lemma serialize_bytes: "serialize c buffer = buffer @ bytes (base_props c @ body_props (body c))"
  using write_props_append[of _ buffer] by (simp add: serialize_def bytes_def)

lemma unserialize_attr:
  "attr \<noteq> CONDITIONATTR_END \<Longrightarrow>
   unserialize now c (le_enc8 attr @ s) =
     (case unserializeProp now attr c s of
        Good c' s2 \<Rightarrow> unserialize now c' s2 | Bad s2 \<Rightarrow> Bad s2 | Overrun \<Rightarrow> Overrun)"
  by (subst unserialize.simps) (simp add: codec_simps)

lemma unserialize_end: "unserialize now c (le_enc8 CONDITIONATTR_END @ s) = Good c s"
  by (subst unserialize.simps) (simp add: codec_simps)

lemma fill_step:
  "k < length xs \<Longrightarrow>
   take (k + 1) (xs[k := v]) @ vs @ drop (k + 1 + n) (xs[k := v]) = take k xs @ (v # vs) @ drop (k + Suc n) xs"
  by (simp add: take_Suc_conv_app_nth upd_conv_take_nth_drop add.commute[of n k])

lemma unserialize_skills:
  assumes "currentSkill a + length vs \<le> length (skills a)"
  shows "unserialize now (c\<lparr>body := Attributes a\<rparr>)
      (bytes (concat (map (\<lambda>v. [P8 CONDITIONATTR_SKILLS, P32 v]) vs)) @ s) =
    unserialize now (c\<lparr>body := Attributes (a\<lparr>
       skills := take (currentSkill a) (skills a) @ vs @ drop (currentSkill a + length vs) (skills a),
       currentSkill := currentSkill a + length vs\<rparr>)\<rparr>) s"
  using assms
proof (induction vs arbitrary: a)
  case (Cons v vs)
  let ?a = "a\<lparr>skills := (skills a)[currentSkill a := v], currentSkill := currentSkill a + 1\<rparr>"
  have "unserialize now (c\<lparr>body := Attributes a\<rparr>)
     (bytes (concat (map (\<lambda>v. [P8 CONDITIONATTR_SKILLS, P32 v]) (v # vs))) @ s) =
     unserialize now (c\<lparr>body := Attributes ?a\<rparr>) (bytes (concat (map (\<lambda>v. [P8 CONDITIONATTR_SKILLS, P32 v]) vs)) @ s)"
    using Cons.prems
    by (simp add: unserialize_attr unserializeProp_def attributes_unserializeProp_def codec_simps)
  moreover have "take (currentSkill ?a) (skills ?a) @ vs @ drop (currentSkill ?a + length vs) (skills ?a) =
      take (currentSkill a) (skills a) @ (v # vs) @ drop (currentSkill a + length (v # vs)) (skills a)"
    using Cons.prems by (simp add: fill_step[simplified])
  ultimately show ?case using Cons.IH[of ?a] Cons.prems by simp
qed simp

lemma unserialize_stats:
  assumes "currentStat a + length vs \<le> length (stats a)"
  shows "unserialize now (c\<lparr>body := Attributes a\<rparr>)
      (bytes (concat (map (\<lambda>v. [P8 CONDITIONATTR_STATS, P32 v]) vs)) @ s) =
    unserialize now (c\<lparr>body := Attributes (a\<lparr>
       stats := take (currentStat a) (stats a) @ vs @ drop (currentStat a + length vs) (stats a),
       currentStat := currentStat a + length vs\<rparr>)\<rparr>) s"
  using assms
proof (induction vs arbitrary: a)
  case (Cons v vs)
  let ?a = "a\<lparr>stats := (stats a)[currentStat a := v], currentStat := currentStat a + 1\<rparr>"
  have "unserialize now (c\<lparr>body := Attributes a\<rparr>)
     (bytes (concat (map (\<lambda>v. [P8 CONDITIONATTR_STATS, P32 v]) (v # vs))) @ s) =
     unserialize now (c\<lparr>body := Attributes ?a\<rparr>) (bytes (concat (map (\<lambda>v. [P8 CONDITIONATTR_STATS, P32 v]) vs)) @ s)"
    using Cons.prems
    by (simp add: unserialize_attr unserializeProp_def attributes_unserializeProp_def codec_simps)
  moreover have "take (currentStat ?a) (stats ?a) @ vs @ drop (currentStat ?a + length vs) (stats ?a) =
      take (currentStat a) (stats a) @ (v # vs) @ drop (currentStat a + length (v # vs)) (stats a)"
    using Cons.prems by (simp add: fill_step[simplified])
  ultimately show ?case using Cons.IH[of ?a] Cons.prems by simp
qed simp

lemma enc_lengths: "length (le_enc8 a) = 1" "length (le_enc16 b) = 2" "length (le_enc32 c) = 4"
  by (simp_all add: le_enc8_def le_enc16_def le_enc32_def)

lemma dec_encs: "le_dec8 (le_enc8 a) = a" "le_dec16 (le_enc16 b) = b" "le_dec32 (le_enc32 c) = c"
  by (simp_all add: c8.dec_enc c16.dec_enc c32.dec_enc)

lemma read_interval:
  "prop_read 12 dec_interval (le_enc32 (timeLeft i) @ le_enc32 (ivalue i) @ le_enc32 (interval i) @ s) = Some (i, s)"
  by (simp add: prop_read_def dec_interval_def enc_lengths dec_encs)

lemma le_enc8_byte: "le_enc8 v = [v]"
  by (simp add: le_enc8_def)

lemma read_outfit: "prop_read 12 dec_outfit (bytes (outfit_props o') @ s) = Some (o', s)"
  by (simp add: prop_read_def dec_outfit_def outfit_props_def enc_lengths dec_encs le_enc8_byte nth_append)

lemma push_interval_damage: "body c = Damage d \<Longrightarrow> \<exists>d'. body (push_interval now i c) = Damage d'"
  by (simp add: push_interval_def setTicks_def Let_def)

lemma unserialize_intervals:
  "body c = Damage d \<Longrightarrow>
   unserialize now c (bytes (concat (map interval_props is)) @ s) =
   unserialize now (foldl (\<lambda>c i. push_interval now i c) c is) s"
proof (induction "is" arbitrary: c d)
  case (Cons i "is")
  obtain d' where "body (push_interval now i c) = Damage d'" using push_interval_damage[OF Cons.prems] by blast
  from Cons.IH[OF this] Cons.prems show ?case
    by (simp add: interval_props_def unserialize_attr unserializeProp_def read_interval into_def)
qed simp

fun fresh_body :: "cond_class \<Rightarrow> cond_body" where
  "fresh_body CGeneric = Generic"
| "fresh_body CAttributes = Attributes new_attributes"
| "fresh_body CRegeneration = Regeneration new_regeneration"
| "fresh_body CSoul = Soul new_soul"
| "fresh_body CInvisible = Invisible"
| "fresh_body CDamage = Damage new_damage"
| "fresh_body CSpeed = Speed (new_speed 0)"
| "fresh_body COutfit = Outfit new_outfit"
| "fresh_body CLight = Light (new_light 0 0)"
| "fresh_body CSpellCooldown = SpellCooldown"
| "fresh_body CSpellGroupCooldown = SpellGroupCooldown"

lemma createBody_fresh: "createBody ty 0 = Some b \<Longrightarrow> b = fresh_body (class_of b)"
  by (auto simp: createBody_def split: if_splits)

lemma well_typed_create: "well_typed c \<Longrightarrow> createBody (conditionType c) 0 = Some (fresh_body (class_of (body c)))"
  using createBody_fresh[of "conditionType c"] by (auto simp: well_typed_def)

lemma unserialize_attributes:
  assumes "arrays_ok (Attributes a)"
  shows "unserialize now (c\<lparr>body := Attributes new_attributes\<rparr>) (bytes (body_props (Attributes a)) @ le_enc8 CONDITIONATTR_END @ s) =
    Good (c\<lparr>body := restored_body (Attributes a)\<rparr>) s"
proof -
  let ?a1 = "new_attributes\<lparr>skills := skills a, currentSkill := 7\<rparr>"
  let ?a2 = "?a1\<lparr>stats := stats a, currentStat := 4\<rparr>"
  have "unserialize now (c\<lparr>body := Attributes new_attributes\<rparr>)
      (bytes (concat (map (\<lambda>v. [P8 CONDITIONATTR_SKILLS, P32 v]) (skills a))) @ t) =
    unserialize now (c\<lparr>body := Attributes ?a1\<rparr>) t" for t
    using unserialize_skills[of new_attributes "skills a" now c t] assms by (simp add: new_attributes_def)
  moreover have "unserialize now (c\<lparr>body := Attributes ?a1\<rparr>)
      (bytes (concat (map (\<lambda>v. [P8 CONDITIONATTR_STATS, P32 v]) (stats a))) @ t) =
    unserialize now (c\<lparr>body := Attributes ?a2\<rparr>) t" for t
    using unserialize_stats[of ?a1 "stats a" now c t] assms by (simp add: new_attributes_def)
  ultimately show ?thesis
    by (simp add: unserialize_attr unserialize_end unserializeProp_def attributes_unserializeProp_def into_def codec_simps
        enc_bool_def restored_body_def)
qed

lemma ucast_scast8: "ucast (scast (i :: u8) :: u32) = i"
  by (rule bit_word_eqI) (auto simp: bit_ucast_iff bit_signed_iff)

lemma ucast_ucast8: "ucast (ucast (i :: u8) :: u32) = i"
  by (rule bit_word_eqI) (auto simp: bit_ucast_iff)

lemma unserialize_body:
  assumes "arrays_ok b"
  shows "unserialize now (c\<lparr>body := fresh_body (class_of b)\<rparr>) (bytes (body_props b) @ le_enc8 CONDITIONATTR_END @ s) =
    Good (case b of
        Damage d \<Rightarrow> foldl (\<lambda>c i. push_interval now i c) (c\<lparr>body := restored_body b\<rparr>) (damageList d)
      | _ \<Rightarrow> c\<lparr>body := restored_body b\<rparr>) s"
proof (cases b)
  case (Attributes a)
  with unserialize_attributes assms show ?thesis by simp
next
  case (Damage d)
  let ?c = "c\<lparr>body := Damage (new_damage\<lparr>delayed := delayed d, periodDamage := periodDamage d\<rparr>)\<rparr>"
  have "unserialize now ?c (bytes (concat (map interval_props (damageList d))) @ t) =
      unserialize now (foldl (\<lambda>c i. push_interval now i c) ?c (damageList d)) t" for t
    by (rule unserialize_intervals) simp
  with Damage show ?thesis
    by (cases "delayed d") (simp_all add: unserialize_attr unserialize_end unserializeProp_def into_def codec_simps enc_bool_def restored_body_def)
next
  case (Outfit o')
  then show ?thesis
    by (simp add: unserialize_attr unserialize_end unserializeProp_def read_outfit into_def restored_body_def)
qed (simp_all add: unserialize_attr unserialize_end unserializeProp_def into_def codec_simps restored_body_def
    new_regeneration_def new_soul_def new_speed_def new_light_def ucast_ucast8)

lemma read_attr_enc: "read_attr a (le_enc8 a @ s) = Some s"
  by (simp add: read_attr_def codec_simps)

lemma load_one:
  assumes "well_typed c"
  shows "load_loop now (bytes (base_props c @ body_props (body c)) @ le_enc8 CONDITIONATTR_END @ s) kept =
    load_loop now s (restored now c # kept)"
proof -
  let ?tk = "case body c of Damage _ \<Rightarrow> 0 | _ \<Rightarrow> ticks c"
  let ?c0 = "new_condition (cid c) (conditionType c) ?tk (isBuff c) (subId c) (aggressive c) (fresh_body (class_of (body c)))"
  let ?rest = "bytes (body_props (body c)) @ le_enc8 CONDITIONATTR_END @ s"
  have tk: "(case fresh_body (class_of (body c)) of Damage _ \<Rightarrow> 0 | _ \<Rightarrow> ticks c) = ?tk" by (cases "body c") auto
  have "createCondition_stream (bytes (base_props c) @ ?rest) = Some (?c0, ?rest)"
    using well_typed_create[OF assms]
    by (simp add: createCondition_stream_def base_props_def read_attr_enc codec_simps enc_bool_def createCondition_def
        ucast_scast8 tk)
  moreover have "unserialize now ?c0 ?rest = Good (restored now c) s"
    using unserialize_body[of "body c" now "?c0" s] assms
    by (cases "body c") (simp_all add: well_typed_def new_condition_def restored_def Let_def)
  ultimately show ?thesis by (subst load_loop.simps) simp
qed

section \<open>Storage round trip\<close>

definition stored_bytes :: "condition \<Rightarrow> u8 list" where
  "stored_bytes c =
     (if isPersistent c then bytes (base_props c @ body_props (body c)) @ le_enc8 CONDITIONATTR_END else [])"

lemma save_conditions_bytes: "save_conditions cs = concat (map stored_bytes cs)"
proof -
  have "foldl (\<lambda>buf c. if isPersistent c then write8 CONDITIONATTR_END (serialize c buf) else buf) buf cs =
      buf @ concat (map stored_bytes cs)" for buf
    by (induction cs arbitrary: buf) (simp_all add: stored_bytes_def serialize_bytes write8_def)
  then show ?thesis by (simp add: save_conditions_def)
qed

lemma load_nothing: "load_loop now [] kept = Some kept"
  by (subst load_loop.simps) (simp add: createCondition_stream_def read_attr_def read8_def prop_read_def)

lemma load_all:
  "\<forall>c\<in>set cs. well_typed c \<Longrightarrow>
   load_loop now (concat (map stored_bytes cs)) kept = Some (rev (map (restored now) (filter isPersistent cs)) @ kept)"
proof (induction cs arbitrary: kept)
  case (Cons c cs)
  then show ?case using load_one[of c now "concat (map stored_bytes cs)" kept] by (cases "isPersistent c") (simp_all add: stored_bytes_def[of c])
qed (simp add: load_nothing)

text \<open>C6: A player logs in with the conditions that were saved: for objects whose type names their class, loading the
  saved column gives, for every condition that is persistent and for no other, the restored object, in reverse order.
  Remaining time and damage intervals survive; percentages, special skills and the source of damage do not.\<close>

theorem conditions_roundtrip:
  assumes "\<forall>c\<in>set cs. well_typed c"
  shows "load_conditions now (save_conditions cs) = Some (rev (map (restored now) (filter isPersistent cs)))"
  using load_all[OF assms, of now "[]"] by (simp add: load_conditions_def save_conditions_bytes)

definition example_fire :: condition where
  "example_fire =
     (new_condition CONDITIONID_COMBAT CONDITION_FIRE 9000 False 0 True
        (Damage (new_damage\<lparr>owner := 7, damageList := [\<lparr>timeLeft = 4000, ivalue = -20, interval = 9000\<rparr>]\<rparr>)))"

definition example_ring :: condition where
  "example_ring = new_condition 9 CONDITION_INVISIBLE (-1) False 0 False Invisible"

theorem conditions_roundtrip_witness:
  "load_conditions 500 (save_conditions [example_fire, example_ring]) = Some [restored 500 example_fire] \<and>
   ticks (restored 500 example_fire) = 9000 \<and> endTime (restored 500 example_fire) = 9500"
proof -
  have "\<forall>c\<in>set [example_fire, example_ring]. well_typed c"
    by (simp add: example_fire_def example_ring_def well_typed_def new_condition_def createBody_def)
  from conditions_roundtrip[OF this] show ?thesis
    by (simp add: isPersistent_def example_fire_def example_ring_def new_condition_def restored_def push_interval_def
        setTicks_def restored_body_def new_damage_def)
qed

lemma Condition_setParam_keeps:
  "conditionType (snd (Condition_setParam p v c)) = conditionType c \<and> body (snd (Condition_setParam p v c)) = body c"
  by (cases p) auto

lemma attributes_param_arrays:
  "attributes_param p v a = Some a' \<Longrightarrow> arrays_ok (Attributes a) \<Longrightarrow> arrays_ok (Attributes a')"
  by (cases p) (auto simp: set_at_def melee_skills_def)

lemma createBody_speed: "map_option class_of (createBody CONDITION_HASTE v) = Some CSpeed"
  "map_option class_of (createBody CONDITION_PARALYZE v) = Some CSpeed"
  by (simp_all add: createBody_def)

lemma well_typed_body_update:
  "well_typed c \<Longrightarrow> class_of b = class_of (body c) \<Longrightarrow> arrays_ok b \<Longrightarrow> well_typed (c\<lparr>body := b\<rparr>)"
  by (simp add: well_typed_def)

lemma setParam_well_typed:
  assumes "well_typed c"
  shows "well_typed (snd (setParam p v c))"
proof -
  obtain ret c' where b: "Condition_setParam p v c = (ret, c')" by (cases "Condition_setParam p v c")
  have c': "well_typed c'" using Condition_setParam_keeps[of p v c] assms by (simp add: b well_typed_def)
  show ?thesis
  proof (cases "body c'")
    case (Attributes a)
    with c' attributes_param_arrays[of p v a] show ?thesis
      by (auto simp: setParam_def b with_body_def well_typed_body_update well_typed_def split: option.splits)
  next
    case (Speed s)
    with c' createBody_speed[of 0] show ?thesis by (auto simp: setParam_def b well_typed_def)
  qed (use c' in \<open>auto simp: setParam_def b with_body_def well_typed_body_update split: option.splits\<close>)
qed

lemma createBody_class: "map_option class_of (createBody ty v) = map_option class_of (createBody ty 0)"
  unfolding createBody_def by (simp only: if_distrib[of "map_option class_of"] option.map class_of.simps)

lemma createBody_arrays: "createBody ty v = Some b \<Longrightarrow> arrays_ok b"
  unfolding createBody_def by (auto simp: new_attributes_def simp del: insert_iff split: if_split_asm)

lemma created_well_typed:
  assumes "createCondition i ty tk param buff sid aggr = Some c"
  shows "well_typed c"
  using assms createBody_class[of ty param, symmetric] createBody_arrays[of ty param]
  by (auto simp: createCondition_def well_typed_def new_condition_def)

text \<open>A column with eight skill attributes writes past the end of the array.\<close>

lemma corrupt_skills_overrun:
  "load_conditions now (bytes (base_props (new_condition 0 CONDITION_ATTRIBUTES 1 False 0 False (Attributes new_attributes)) @
     concat (map (\<lambda>v. [P8 CONDITIONATTR_SKILLS, P32 v]) (replicate 8 1)))) = None"
proof -
  let ?c = "new_condition 0 CONDITION_ATTRIBUTES 1 False 0 False (Attributes new_attributes)"
  let ?sk = "\<lambda>n. bytes (concat (map (\<lambda>v. [P8 CONDITIONATTR_SKILLS, P32 v]) (replicate n 1)))"
  have 1: "createCondition_stream (bytes (base_props ?c) @ ?sk 8) = Some (?c, ?sk 8)"
    unfolding createCondition_stream_def base_props_def
    by (simp add: read_attr_enc codec_simps enc_bool_def createCondition_def new_condition_def createBody_def ucast_scast8
        del: replicate_Suc)
  have "?sk 8 = ?sk 7 @ (le_enc8 CONDITIONATTR_SKILLS @ le_enc32 1)" by (simp add: numeral_eq_Suc)
  moreover have "unserialize now ?c (?sk 7 @ le_enc8 CONDITIONATTR_SKILLS @ le_enc32 1) = Overrun"
    using unserialize_skills[of new_attributes "replicate 7 1" now ?c "le_enc8 CONDITIONATTR_SKILLS @ le_enc32 1"]
    by (simp add: new_attributes_def new_condition_def unserialize_attr unserializeProp_def attributes_unserializeProp_def
        reads_writes(3)[of 1 "[]", simplified] read32_def prop_read_def enc_lengths)
  ultimately have "unserialize now ?c (?sk 8) = Overrun" by simp
  with 1 show ?thesis by (simp add: load_conditions_def load_loop.simps)
qed

end
