(* ===== verification/Float_Rounding.thy ===== *)
theory Float_Rounding
  imports Complex_Main "HOL-Library.Log_Nat" "HOL-Library.Word"
begin

text \<open>
  The rounding of C++ floating point arithmetic, as far as the server uses it: \<open>round_to p x\<close> is the rational with a
  \<open>p\<close> bit significand that is nearest to \<open>x\<close>, ties to the even significand (IEEE 754, the default mode). A \<open>float\<close>
  operation is the exact operation followed by \<open>round_to 24\<close>, a \<open>double\<close> operation by \<open>round_to 53\<close>. The exponent
  range is unbounded, which is the arithmetic of the hardware for the magnitudes at hand.
\<close>

definition nearest_even :: "rat \<Rightarrow> int" where
  "nearest_even x =
    (let f = \<lfloor>x\<rfloor>; r = x - of_int f in
     if r < 1 / 2 then f else if r > 1 / 2 then f + 1 else if even f then f else f + 1)"

definition binade :: "rat \<Rightarrow> int" where
  "binade x =
    (let k = bitlen (fst (quotient_of x)) - bitlen (snd (quotient_of x)) in
     if 2 powi k \<le> x then k else k - 1)"

definition round_to :: "int \<Rightarrow> rat \<Rightarrow> rat" where
  "round_to p x =
    (if x = 0 then 0
     else let u = 2 powi (binade \<bar>x\<bar> - p + 1) in of_int (nearest_even (x / u)) * u)"

lemma nearest_even_error: "\<bar>of_int (nearest_even x) - x\<bar> \<le> 1 / 2"
proof -
  have "of_int \<lfloor>x\<rfloor> \<le> x" "x < of_int \<lfloor>x\<rfloor> + 1" by linarith+
  then show ?thesis by (auto simp: nearest_even_def Let_def abs_le_iff)
qed

lemma nearest_even_mono:
  assumes "x \<le> y"
  shows "nearest_even x \<le> nearest_even y"
proof (cases "\<lfloor>x\<rfloor> = \<lfloor>y\<rfloor>")
  case True
  with assms show ?thesis by (auto simp: nearest_even_def Let_def)
next
  case False
  with assms have "\<lfloor>x\<rfloor> + 1 \<le> \<lfloor>y\<rfloor>" using floor_mono[OF assms] by linarith
  moreover have "nearest_even x \<le> \<lfloor>x\<rfloor> + 1" "\<lfloor>y\<rfloor> \<le> nearest_even y" by (auto simp: nearest_even_def Let_def)
  ultimately show ?thesis by linarith
qed

lemma nearest_even_int [simp]: "nearest_even (of_int n) = n"
  by (simp add: nearest_even_def Let_def)

lemma nearest_even_power2 [simp]: "nearest_even (2 ^ k) = 2 ^ k"
  using nearest_even_int[of "2 ^ k"] by simp

lemma bitlen_powi: "0 < n \<Longrightarrow> (2::rat) powi (bitlen n - 1) \<le> of_int n \<and> of_int n < (2::rat) powi (bitlen n)"
proof -
  assume n: "0 < n"
  have "2 ^ nat (bitlen n - 1) \<le> n" "n < 2 ^ nat (bitlen n)" using bitlen_bounds[OF n] by auto
  then have "(2::rat) ^ nat (bitlen n - 1) \<le> of_int n" "of_int n < (2::rat) ^ nat (bitlen n)"
    by (metis of_int_le_iff of_int_numeral of_int_power, metis of_int_less_iff of_int_numeral of_int_power)
  moreover have "1 \<le> bitlen n" using n bitlen_nonneg[of "n div 2"] compute_bitlen[of n] by simp
  ultimately show ?thesis by (simp add: power_int_def)
qed

lemma binade_bounds:
  assumes "0 < x"
  shows "2 powi (binade x) \<le> x \<and> x < 2 powi (binade x + 1)"
proof -
  obtain n d where q: "quotient_of x = (n, d)" by (cases "quotient_of x")
  have x: "x = of_int n / of_int d" and d: "0 < d" using quotient_of_div[OF q] quotient_of_denom_pos[OF q] by auto
  have n: "0 < n" using assms d by (simp add: x zero_less_divide_iff)
  let ?k = "bitlen n - bitlen d"
  have "x < 2 powi (bitlen n) / 2 powi (bitlen d - 1)"
    unfolding x using bitlen_powi[OF n] bitlen_powi[OF d] d n by (intro frac_less) auto
  also have "\<dots> = 2 powi (?k + 1)" by (simp add: power_int_diff[symmetric] algebra_simps)
  finally have hi: "x < 2 powi (?k + 1)" .
  have "2 powi (?k - 1) = (2::rat) powi (bitlen n - 1) / 2 powi (bitlen d)"
    by (simp add: power_int_diff[symmetric] algebra_simps)
  also have "\<dots> \<le> x"
    unfolding x using bitlen_powi[OF n] bitlen_powi[OF d] d n by (intro frac_le) (auto intro: less_imp_le)
  finally have lo: "2 powi (?k - 1) \<le> x" .
  show ?thesis using hi lo by (auto simp: binade_def q Let_def)
qed

lemma powi2_less [simp]: "(2::rat) powi m < 2 powi n \<longleftrightarrow> m < n"
  using power_int_strict_increasing[of m n "2::rat"] power_int_increasing[of n m "2::rat"] by (cases "m < n") auto

lemma powi2_le [simp]: "(2::rat) powi m \<le> 2 powi n \<longleftrightarrow> m \<le> n"
  by (simp add: not_less[symmetric])

lemma binade_le: "0 < x \<Longrightarrow> x < 2 powi e \<Longrightarrow> binade x < e"
  using binade_bounds[of x] by (meson le_less_trans powi2_less)

lemma binade_ge: "2 powi e \<le> x \<Longrightarrow> e \<le> binade x"
proof -
  assume e: "2 powi e \<le> x"
  have "0 < (2::rat) powi e" by simp
  with e have "0 < x" by linarith
  from binade_bounds[OF this] e have "(2::rat) powi e < 2 powi (binade x + 1)" by linarith
  then show ?thesis by simp
qed

section \<open>Laws of rounding\<close>

lemma round_to_pos: "0 < x \<Longrightarrow>
  round_to p x = of_int (nearest_even (x / 2 powi (binade x - p + 1))) * 2 powi (binade x - p + 1)"
  by (simp add: round_to_def Let_def)

lemma powi2_int: "0 \<le> k \<Longrightarrow> (2::rat) powi k = of_int (2 ^ nat k)"
  by (simp add: power_int_def)

text \<open>Values of the same binade are rounded to multiples of the same unit, and the ends of the binade are such
  multiples.\<close>

lemma round_to_ge_power:
  assumes "2 powi e \<le> x" and "1 \<le> p"
  shows "2 powi e \<le> round_to p x"
proof -
  let ?b = "binade x" and ?u = "(2::rat) powi (binade x - p + 1)"
  have x0: "0 < x" using assms(1) by (rule less_le_trans[rotated]) simp
  have "2 powi ?b / ?u \<le> x / ?u" using binade_bounds[OF x0] by (intro divide_right_mono) auto
  moreover have "2 powi ?b / ?u = of_int (2 ^ nat (p - 1))"
    using assms(2) powi2_int[of "p - 1"] by (simp add: power_int_diff[symmetric])
  ultimately have "2 ^ nat (p - 1) \<le> nearest_even (x / ?u)" using nearest_even_mono by (metis nearest_even_int)
  then have "of_int (2 ^ nat (p - 1)) * ?u \<le> round_to p x"
    unfolding round_to_pos[OF x0] by (intro mult_right_mono) (simp_all only: of_int_le_iff, simp)
  also have "of_int (2 ^ nat (p - 1)) * ?u = 2 powi ?b"
    using assms(2) powi2_int[of "p - 1"] power_int_add[of "2::rat" "p - 1" "?b - p + 1"] by simp
  finally show ?thesis using binade_ge[OF assms(1)] by (meson order_trans powi2_le)
qed

lemma round_to_le_power:
  assumes "0 < x" and "x \<le> 2 powi e" and "1 \<le> p"
  shows "round_to p x \<le> 2 powi e"
proof (cases "x = 2 powi e")
  case True
  then have b: "binade x = e" using binade_ge[of e x] binade_le[of x "e + 1"] assms(1) by simp
  have "x / 2 powi (e - p + 1) = of_int (2 ^ nat (p - 1))"
    using assms(3) powi2_int[of "p - 1"] by (simp add: True power_int_diff[symmetric])
  then show ?thesis
    using assms(3) powi2_int[of "p - 1"] power_int_add[of "2::rat" "p - 1" "e - p + 1"]
    unfolding round_to_pos[OF assms(1)] b by simp
next
  case False
  let ?b = "binade x" and ?u = "(2::rat) powi (binade x - p + 1)"
  have be: "?b < e" using binade_le[of x e] assms False by simp
  have "x / ?u \<le> 2 powi (?b + 1) / ?u" using binade_bounds[OF assms(1)] by (intro divide_right_mono) auto
  moreover have "2 powi (?b + 1) / ?u = of_int (2 ^ nat p)"
    using assms(3) powi2_int[of p] by (simp add: power_int_diff[symmetric])
  ultimately have "nearest_even (x / ?u) \<le> 2 ^ nat p" using nearest_even_mono by (metis nearest_even_int)
  then have "round_to p x \<le> of_int (2 ^ nat p) * ?u"
    unfolding round_to_pos[OF assms(1)] by (intro mult_right_mono) (simp_all only: of_int_le_iff, simp)
  also have "of_int (2 ^ nat p) * ?u = 2 powi (?b + 1)"
    using assms(3) powi2_int[of p] power_int_add[of "2::rat" p "?b - p + 1"] by simp
  also have "\<dots> \<le> 2 powi e" using be by simp
  finally show ?thesis .
qed

lemma round_to_mono_pos:
  assumes "0 < x" and "x \<le> y" and "1 \<le> p"
  shows "round_to p x \<le> round_to p y"
proof (cases "binade x = binade y")
  case True
  have "x / 2 powi (binade y - p + 1) \<le> y / 2 powi (binade y - p + 1)" using assms(2) by (intro divide_right_mono) auto
  from nearest_even_mono[OF this] have "of_int (nearest_even (x / 2 powi (binade y - p + 1))) * 2 powi (binade y - p + 1) \<le>
      of_int (nearest_even (y / 2 powi (binade y - p + 1))) * (2 :: rat) powi (binade y - p + 1)"
    by (intro mult_right_mono) (simp_all only: of_int_le_iff, simp)
  with assms True show ?thesis by (simp add: round_to_pos)
next
  case False
  have "binade x \<le> binade y" using binade_ge[of "binade x" y] binade_bounds[OF assms(1)] assms(2) by linarith
  with False have lt: "binade x + 1 \<le> binade y" by linarith
  have "x \<le> 2 powi (binade x + 1)" using binade_bounds[OF assms(1)] by linarith
  from round_to_le_power[OF assms(1) this assms(3)] have "round_to p x \<le> 2 powi (binade x + 1)" .
  also have "\<dots> \<le> 2 powi (binade y)" using lt by simp
  also have "\<dots> \<le> round_to p y"
    using binade_bounds[of y] assms by (intro round_to_ge_power) linarith+
  finally show ?thesis .
qed

lemma round_to_0 [simp]: "round_to p 0 = 0"
  by (simp add: round_to_def)

lemma round_to_nonneg: "0 \<le> x \<Longrightarrow> 1 \<le> p \<Longrightarrow> 0 \<le> round_to p x"
proof (cases "x = 0")
  case False
  assume "0 \<le> x" and p: "1 \<le> p"
  with False have "0 < x" by simp
  then have "2 powi (binade x) \<le> round_to p x" using binade_bounds p by (intro round_to_ge_power) auto
  moreover have "0 < (2::rat) powi (binade x)" by simp
  ultimately show ?thesis by linarith
qed simp

lemma round_to_mono: "0 \<le> x \<Longrightarrow> x \<le> y \<Longrightarrow> 1 \<le> p \<Longrightarrow> round_to p x \<le> round_to p y"
  using round_to_mono_pos[of x y p] round_to_nonneg[of y p] by (cases "x = 0") auto

lemma round_to_error:
  assumes "0 \<le> x" and "x \<le> 2" and p: "1 \<le> p"
  shows "\<bar>round_to p x - x\<bar> \<le> 2 powi (- p)"
proof (cases "x = 0 \<or> x = 2")
  case True
  have "round_to p 2 \<le> 2" "2 \<le> round_to p 2" using round_to_le_power[of 2 1 p] round_to_ge_power[of 1 2 p] p by auto
  with True show ?thesis by auto
next
  case False
  with assms have x: "0 < x" "x < 2" by auto
  let ?u = "(2::rat) powi (binade x - p + 1)"
  have u: "?u \<le> 2 powi (1 - p)" using binade_le[of x 1] x by simp
  have u0: "0 < ?u" by simp
  have "round_to p x - x = (of_int (nearest_even (x / ?u)) - x / ?u) * ?u"
    using u0 by (simp add: round_to_pos[OF x(1)] field_simps)
  then have "\<bar>round_to p x - x\<bar> = \<bar>of_int (nearest_even (x / ?u)) - x / ?u\<bar> * ?u"
    using u0 by (simp add: abs_mult)
  also have "\<dots> \<le> 1 / 2 * ?u" using nearest_even_error u0 by (intro mult_right_mono) auto
  also have "\<dots> \<le> 1 / 2 * 2 powi (1 - p)" using u by simp
  also have "\<dots> = 2 powi (- p)" using power_int_add[of "2::rat" 1 "- p"] by simp
  finally show ?thesis .
qed

lemma round_to_int:
  assumes "0 \<le> n" and "n < 2 ^ nat p" and "1 \<le> p"
  shows "round_to p (of_int n) = of_int n"
proof (cases "n = 0")
  case False
  let ?x = "of_int n :: rat" and ?k = "p - 1 - binade (of_int n)"
  have x: "0 < ?x" using assms False by simp
  have "?x < of_int (2 ^ nat p)" using assms(2) by (simp only: of_int_less_iff)
  then have "?x < 2 powi p" using assms(3) powi2_int[of p] by simp
  from binade_le[OF x this] have k: "0 \<le> ?k" by simp
  have "?x / 2 powi (- ?k) = ?x * 2 powi ?k" by (simp only: power_int_minus divide_inverse inverse_inverse_eq)
  also have "\<dots> = of_int (n * 2 ^ nat ?k)" using powi2_int[OF k] by simp
  finally have "?x / 2 powi (- ?k) = of_int (n * 2 ^ nat ?k)" .
  moreover have "round_to p ?x = of_int (nearest_even (?x / 2 powi (- ?k))) * 2 powi (- ?k)"
    unfolding round_to_pos[OF x] by (simp add: algebra_simps)
  moreover have "of_int (n * 2 ^ nat ?k) * (2::rat) powi (- ?k) = ?x"
    using powi2_int[OF k, symmetric] power_int_add[of "2::rat" ?k "- ?k"] by simp
  ultimately show ?thesis by (simp only: nearest_even_int)
qed simp

lemma round_to_idem:
  assumes "0 \<le> x" and p: "1 \<le> p"
  shows "round_to p (round_to p x) = round_to p x"
proof (cases "x = 0")
  case False
  with assms have x: "0 < x" by simp
  let ?b = "binade x" and ?y = "round_to p x"
  have lo: "2 powi ?b \<le> ?y" using round_to_ge_power[of ?b x p] binade_bounds[OF x] p by simp
  have hi: "?y \<le> 2 powi (?b + 1)" using round_to_le_power[of x "?b + 1" p] binade_bounds[OF x] x p by simp
  have y: "0 < ?y" using lo by (rule less_le_trans[rotated]) simp
  show ?thesis
  proof (cases "?y = 2 powi (?b + 1)")
    case True
    then show ?thesis using round_to_ge_power[of "?b + 1" ?y p] round_to_le_power[of ?y "?b + 1" p] y p by simp
  next
    case False
    then have "binade ?y = ?b" using binade_ge[OF lo] binade_le[of ?y "?b + 1"] hi y by simp
    moreover have "?y / 2 powi (?b - p + 1) = of_int (nearest_even (x / 2 powi (?b - p + 1)))"
      by (simp add: round_to_pos[OF x])
    ultimately show ?thesis using round_to_pos[OF y, of p] round_to_pos[OF x, of p] by simp
  qed
qed simp

section \<open>The float operations\<close>

definition float_of_int :: "int \<Rightarrow> rat" where
  "float_of_int n = round_to 24 (of_int n)"

definition float_add :: "rat \<Rightarrow> rat \<Rightarrow> rat" where "float_add x y = round_to 24 (x + y)"
definition float_mul :: "rat \<Rightarrow> rat \<Rightarrow> rat" where "float_mul x y = round_to 24 (x * y)"
definition float_div :: "rat \<Rightarrow> rat \<Rightarrow> rat" where "float_div x y = round_to 24 (x / y)"
definition double_sub :: "rat \<Rightarrow> rat \<Rightarrow> rat" where "double_sub x y = round_to 53 (x - y)"

text \<open>The value of the 32 bits of a \<open>float\<close>; infinities and NaN have none.\<close>

definition float_value :: "32 word \<Rightarrow> rat option" where
  "float_value w =
    (let e = unat (take_bit 8 (drop_bit 23 w)); m = unat (take_bit 23 w); s = (if bit w 31 then -1 else 1) in
     if e = 255 then None
     else if e = 0 then Some (s * of_nat m * 2 powi (-149))
     else Some (s * of_nat (2 ^ 23 + m) * 2 powi (int e - 150)))"

text \<open>\<open>static_cast<int32_t>\<close> of a floating point value truncates; out of range it is undefined.\<close>

definition trunc32 :: "rat \<Rightarrow> int option" where
  "trunc32 x =
    (let n = (if x < 0 then \<lceil>x\<rceil> else \<lfloor>x\<rfloor>) in if - (2 ^ 31) \<le> n \<and> n < 2 ^ 31 then Some n else None)"

lemma float_of_int_exact: "0 \<le> n \<Longrightarrow> n < 2 ^ 24 \<Longrightarrow> float_of_int n = of_int n"
  using round_to_int[of n 24] by (simp add: float_of_int_def)

lemma float_of_int_mono: "0 \<le> m \<Longrightarrow> m \<le> n \<Longrightarrow> float_of_int m \<le> float_of_int n"
  by (simp add: float_of_int_def round_to_mono)

lemma float_of_int_nonneg: "0 \<le> m \<Longrightarrow> 0 \<le> float_of_int m"
  by (simp add: float_of_int_def round_to_nonneg)

lemma double_abs: "\<bar>round_to p x\<bar> = round_to p \<bar>x\<bar>"
proof -
  have even: "nearest_even (- x) = - nearest_even x" for x :: rat
  proof (cases "x = of_int \<lfloor>x\<rfloor>")
    case True
    then have "- x = of_int (- \<lfloor>x\<rfloor>)" by simp
    then have "nearest_even (- x) = - \<lfloor>x\<rfloor>" by (simp only: nearest_even_int)
    moreover have "nearest_even x = \<lfloor>x\<rfloor>" using True nearest_even_int by metis
    ultimately show ?thesis by simp
  next
    case False
    have f: "\<lfloor>- x\<rfloor> = - \<lfloor>x\<rfloor> - 1" using False by linarith
    then have "even \<lfloor>- x\<rfloor> \<longleftrightarrow> odd \<lfloor>x\<rfloor>" by presburger
    with f show ?thesis by (auto simp: nearest_even_def Let_def field_simps)
  qed
  have neg: "round_to p (- x) = - round_to p x" by (simp add: round_to_def Let_def even)
  have n0: "0 \<le> nearest_even y" if "0 \<le> y" for y :: rat
    using nearest_even_mono[OF that] nearest_even_int[of 0] by simp
  have pos: "0 \<le> round_to p y" if "0 \<le> y" for y
    using that n0[of "y / 2 powi (binade y - p + 1)"] by (simp add: round_to_def Let_def)
  show ?thesis using neg pos[of x] pos[of "- x"] by (cases "0 \<le> x") auto
qed

end
