(* ===== verification/Condition_Damage.thy ===== *)
theory Condition_Damage
  imports Conditions Float_Rounding "HOL-Library.Signed_Division"
begin

text \<open>
  The damage lists of \<open>ConditionDamage\<close> in \<open>src/src/condition.cpp\<close>: \<open>generateDamageList\<close>, which spreads an amount of
  damage over falling hits with floating point comparisons, \<open>addDamage\<close>, \<open>init\<close>, \<open>getNextDamage\<close>, \<open>getTotalDamage\<close>
  and \<open>updateCondition\<close>. \<open>uniform_random\<close> is the one of \<open>tools.cpp\<close>, over a parameter \<open>draw\<close> for the library's
  random engine.
\<close>

section \<open>Spreading damage\<close>

text \<open>The loop condition \<open>x1 < x2\<close>: one more hit brings the sum closer to the target. A target of zero makes both
  sides infinite.\<close>

definition closer :: "int \<Rightarrow> int \<Rightarrow> int \<Rightarrow> bool" where
  "closer dealt i med \<longleftrightarrow>
     med \<noteq> 0 \<and>
     (let x1 = \<bar>double_sub 1 (float_div (float_add (float_of_int dealt) (float_of_int i)) (float_of_int med))\<bar>;
          x2 = \<bar>double_sub 1 (float_div (float_of_int dealt) (float_of_int med))\<bar>
      in x1 < x2)"

lemma float_add_ge: "0 \<le> m \<Longrightarrow> 0 \<le> n \<Longrightarrow> float_of_int m \<le> float_add (float_of_int m) (float_of_int n)"
  using round_to_mono[of "float_of_int m" "float_of_int m + float_of_int n" 24] float_of_int_nonneg[of m]
    float_of_int_nonneg[of n] round_to_idem[of "of_int m" 24]
  by (simp add: float_add_def) (simp add: float_of_int_def)

lemma float_div_mono: "0 \<le> x \<Longrightarrow> x \<le> y \<Longrightarrow> 0 < z \<Longrightarrow> float_div x z \<le> float_div y z"
  by (simp add: float_div_def round_to_mono divide_right_mono)

lemma float_div_ge_1: "0 < z \<Longrightarrow> z \<le> x \<Longrightarrow> 1 \<le> float_div x z"
  using round_to_ge_power[of 0 "x / z" 24] by (simp add: float_div_def)

lemma float_div_ge_2: "0 < z \<Longrightarrow> 2 * z \<le> x \<Longrightarrow> 2 \<le> float_div x z"
  using round_to_ge_power[of 1 "x / z" 24] by (simp add: float_div_def field_simps)

lemma float_of_int_pos: "0 < m \<Longrightarrow> 1 \<le> float_of_int m"
  using round_to_ge_power[of 0 "of_int m" 24] by (simp add: float_of_int_def)

lemma not_closerI: "\<bar>1 - y\<bar> \<le> \<bar>1 - x\<bar> \<Longrightarrow> \<not> \<bar>double_sub 1 x\<bar> < \<bar>double_sub 1 y\<bar>"
  using round_to_mono[of "\<bar>1 - y\<bar>" "\<bar>1 - x\<bar>" 53] by (simp add: double_sub_def double_abs not_less)

lemma not_closer_past:
  assumes "0 < med" and "med \<le> dealt" and "0 \<le> i"
  shows "\<not> closer dealt i med"
proof -
  let ?m = "float_of_int med" and ?s = "float_of_int dealt"
  have m: "0 < ?m" using float_of_int_pos[OF assms(1)] by simp
  have "1 \<le> float_div ?s ?m" using m float_of_int_mono[of med dealt] assms by (intro float_div_ge_1) auto
  moreover have "float_div ?s ?m \<le> float_div (float_add ?s (float_of_int i)) ?m"
    using m float_add_ge[of dealt i] float_of_int_nonneg[of dealt] assms by (intro float_div_mono) auto
  ultimately have "\<bar>1 - float_div ?s ?m\<bar> \<le> \<bar>1 - float_div (float_add ?s (float_of_int i)) ?m\<bar>" by simp
  from not_closerI[OF this] show ?thesis by (simp add: closer_def Let_def)
qed

lemma closer_below: "closer dealt i med \<Longrightarrow> 0 < i \<Longrightarrow> 0 < med \<Longrightarrow> dealt < med"
  using not_closer_past[of med dealt i] by linarith

text \<open>For the numbers of the game, far below \<open>2 ^ 24\<close>, the comparison decides like exact arithmetic, except that a
  tie may go either way.\<close>

lemma float_div_error:
  assumes "0 \<le> a" and "a \<le> 2 * b" and "0 < b"
  shows "\<bar>float_div a b - a / b\<bar> \<le> 1 / 16777216"
proof -
  have "0 \<le> a / b" and "a / b \<le> 2" using assms by (auto simp: field_simps)
  from round_to_error[OF this, of 24] show ?thesis by (simp add: float_div_def power_int_minus field_simps)
qed

lemma double_gap:
  assumes "0 \<le> x" "x \<le> 2" "0 \<le> y" "y \<le> 2" and g: "\<bar>1 - x\<bar> + 1 / 8388608 < \<bar>1 - y\<bar>"
  shows "\<bar>double_sub 1 x\<bar> < \<bar>double_sub 1 y\<bar>"
proof -
  have e: "\<bar>round_to 53 \<bar>1 - z\<bar> - \<bar>1 - z\<bar>\<bar> \<le> 1 / 9007199254740992" if "0 \<le> z" "z \<le> 2" for z :: rat
  proof -
    have "\<bar>1 - z\<bar> \<le> 2" using that by (simp add: abs_le_iff)
    from round_to_error[OF _ this, of 53] show ?thesis by (simp add: power_int_minus field_simps)
  qed
  have "round_to 53 \<bar>1 - x\<bar> \<le> \<bar>1 - x\<bar> + 1 / 9007199254740992" using e[of x] assms(1,2) by linarith
  moreover have "\<bar>1 - y\<bar> - 1 / 9007199254740992 \<le> round_to 53 \<bar>1 - y\<bar>" using e[of y] assms(3,4) by linarith
  ultimately have "round_to 53 \<bar>1 - x\<bar> < round_to 53 \<bar>1 - y\<bar>" using g by simp
  then show ?thesis by (simp add: double_sub_def double_abs)
qed

lemma closer_ratios:
  assumes s: "0 \<le> s" "s + 1 \<le> t" "s + t + 1 \<le> 2 * m" and m: "0 < m" "m < 4194304"
  shows "\<bar>double_sub 1 (float_div t m)\<bar> < \<bar>double_sub 1 (float_div s m)\<bar>"
proof (rule double_gap)
  have t: "0 \<le> t" "t \<le> 2 * m" and s2: "s \<le> 2 * m" using s by linarith+
  have e1: "\<bar>float_div t m - t / m\<bar> \<le> 1 / 16777216" and e2: "\<bar>float_div s m - s / m\<bar> \<le> 1 / 16777216"
    by (rule float_div_error[OF t m(1)], rule float_div_error[OF s(1) s2 m(1)])
  have "\<bar>m - t\<bar> + 1 \<le> m - s" using s by (simp add: abs_if)
  then have "(\<bar>m - t\<bar> + 1) / m \<le> (m - s) / m" using m by (intro divide_right_mono) auto
  moreover have "\<bar>m - t\<bar> / m = \<bar>1 - t / m\<bar>" using m by (simp add: abs_if field_simps)
  ultimately have gap: "\<bar>1 - t / m\<bar> + 1 / m \<le> 1 - s / m" using m by (simp add: add_divide_distrib diff_divide_distrib)
  have "1 / 4194304 < 1 / m" using m by (intro divide_strict_left_mono) auto
  with gap e1 e2 show "\<bar>1 - float_div t m\<bar> + 1 / 8388608 < \<bar>1 - float_div s m\<bar>" by linarith
  have d: "0 \<le> x / m \<and> x / m \<le> 2" if "0 \<le> x" "x \<le> 2 * m" for x using that m by (simp add: field_simps)
  have r: "0 \<le> float_div x m \<and> float_div x m \<le> 2" if "0 \<le> x" "x \<le> 2 * m" for x
    using d[OF that] round_to_nonneg[of "x / m" 24] round_to_mono[of "x / m" 2 24] round_to_le_power[of 2 1 24]
    by (simp add: float_div_def)
  show "0 \<le> float_div t m" "float_div t m \<le> 2" "0 \<le> float_div s m" "float_div s m \<le> 2"
    using r[OF t] r[OF s(1) s2] by auto
qed

lemma closer_exact:
  assumes "0 \<le> dealt" and "0 < i" and "0 < med" and "med < 2 ^ 22" and "2 * dealt + i < 2 * med"
  shows "closer dealt i med"
proof -
  let ?s = "rat_of_int dealt" and ?t = "rat_of_int (dealt + i)" and ?m = "rat_of_int med"
  have fl: "float_of_int dealt = ?s" "float_of_int i = of_int i" "float_of_int med = ?m" "float_of_int (dealt + i) = ?t"
    using assms float_of_int_exact[of "dealt + i"] by (auto intro!: float_of_int_exact)
  have ad: "float_add ?s (of_int i) = ?t" using fl(4) by (simp add: float_add_def float_of_int_def)
  have "med < 4194304" using assms(4) by simp
  then have "?m < 4194304" by linarith
  then have "\<bar>double_sub 1 (float_div ?t ?m)\<bar> < \<bar>double_sub 1 (float_div ?s ?m)\<bar>"
    using assms by (intro closer_ratios) linarith+
  then show ?thesis using assms(3) fl ad by (simp add: closer_def Let_def)
qed

lemma not_closer_ratios:
  assumes s: "0 \<le> s" "s \<le> m" "2 * m + 1 \<le> s + t" and m: "0 < m" "m < 4194304"
  shows "\<not> \<bar>double_sub 1 (float_div t m)\<bar> < \<bar>double_sub 1 (float_div s m)\<bar>"
proof (cases "t \<le> 2 * m")
  case True
  have t: "0 \<le> t" and s2: "s \<le> 2 * m" using s m by linarith+
  have e1: "\<bar>float_div t m - t / m\<bar> \<le> 1 / 16777216" and e2: "\<bar>float_div s m - s / m\<bar> \<le> 1 / 16777216"
    by (rule float_div_error[OF t True m(1)], rule float_div_error[OF s(1) s2 m(1)])
  have "(m - s + 1) / m \<le> (t - m) / m" using s m by (intro divide_right_mono) auto
  then have gap: "1 - s / m + 1 / m \<le> t / m - 1" using m by (simp add: add_divide_distrib diff_divide_distrib)
  have "0 \<le> s / m" and "s / m \<le> 1" using s m by auto
  moreover have "1 / 4194304 < 1 / m" using m by (intro divide_strict_left_mono) auto
  ultimately have "\<bar>1 - float_div s m\<bar> \<le> \<bar>1 - float_div t m\<bar>" using gap e1 e2 by linarith
  then show ?thesis by (rule not_closerI)
next
  case False
  then have "2 \<le> float_div t m" using m by (intro float_div_ge_2) auto
  moreover have "0 \<le> float_div s m" "float_div s m \<le> 1"
    using s m round_to_nonneg[of "s / m" 24] round_to_mono[of "s / m" 1 24] round_to_int[of 1 24]
    by (simp_all add: float_div_def)
  ultimately show ?thesis by (intro not_closerI) (simp add: abs_if)
qed

lemma not_closer_exact:
  assumes "0 \<le> dealt" and "0 < i" and "i < 4194304" and "0 < med" and "med < 4194304" and "2 * med < 2 * dealt + i"
  shows "\<not> closer dealt i med"
proof (cases "med \<le> dealt")
  case True
  with assms show ?thesis by (intro not_closer_past) auto
next
  case False
  let ?s = "rat_of_int dealt" and ?t = "rat_of_int (dealt + i)" and ?m = "rat_of_int med"
  have fl: "float_of_int dealt = ?s" "float_of_int i = of_int i" "float_of_int med = ?m" "float_of_int (dealt + i) = ?t"
    using assms False float_of_int_exact[of "dealt + i"] by (auto intro!: float_of_int_exact)
  have ad: "float_add ?s (of_int i) = ?t" using fl(4) by (simp add: float_add_def float_of_int_def)
  have "\<not> \<bar>double_sub 1 (float_div ?t ?m)\<bar> < \<bar>double_sub 1 (float_div ?s ?m)\<bar>"
    using assms False by (intro not_closer_ratios) linarith+
  then show ?thesis using fl ad by (simp add: closer_def Let_def)
qed

text \<open>The \<open>do\<close> loop of one value \<open>i\<close>; every call has a positive value and a target that is not negative.\<close>

function damage_round :: "int \<Rightarrow> int \<Rightarrow> int \<Rightarrow> int list \<Rightarrow> int \<times> int list" where
  "damage_round i med dealt hits =
    (let dealt = dealt + i; hits = hits @ [i] in
     if 0 < i \<and> 0 < med \<and> closer dealt i med then damage_round i med dealt hits else (dealt, hits))"
  by pat_completeness auto
termination
proof (relation "measure (\<lambda>(i, med, dealt, hits). nat (med - dealt))")
  fix i med dealt :: int and hits :: "int list" and x xa
  assume x: "x = dealt + i" and "0 < i \<and> 0 < med \<and> closer x i med"
  then have "0 < i" "x < med" using closer_below by auto
  then show "((i, med, x, xa), i, med, dealt, hits) \<in> measure (\<lambda>(i, med, dealt, hits). nat (med - dealt))"
    using x by simp
qed simp

declare damage_round.simps [simp del]

lemma damage_round_go:
  "0 < i \<and> 0 < med \<and> closer (dealt + i) i med \<Longrightarrow>
   damage_round i med dealt hits = damage_round i med (dealt + i) (hits @ [i])"
  by (subst damage_round.simps) (simp add: Let_def)

lemma damage_round_stop:
  "\<not> (0 < i \<and> 0 < med \<and> closer (dealt + i) i med) \<Longrightarrow> damage_round i med dealt hits = (dealt + i, hits @ [i])"
  by (subst damage_round.simps) (auto simp: Let_def)

text \<open>The loop over the values. \<open>None\<close> is the overflow of a signed 32 bit product or sum.\<close>

fun damage_rounds :: "nat \<Rightarrow> int \<Rightarrow> int \<Rightarrow> int \<Rightarrow> int list \<Rightarrow> int list option" where
  "damage_rounds 0 start amount dealt hits = Some hits"
| "damage_rounds (Suc k) start amount dealt hits =
    (let i = int (Suc k); n = start + 1 - i in
     if n * amount \<ge> 2 ^ 31 then None
     else let med = n * amount div start; (dealt, hits) = damage_round i med dealt hits in
       if dealt \<ge> 2 ^ 31 then None else damage_rounds k start amount dealt hits)"

definition generateDamageList :: "int \<Rightarrow> int \<Rightarrow> int list option" where
  "generateDamageList amount start = damage_rounds (nat start) start \<bar>amount\<bar> 0 []"

lemma damage_round_result:
  assumes "damage_round i med dealt hits = (dealt', hits')"
  shows "\<exists>j. hits' = hits @ replicate (Suc j) i \<and> dealt' = dealt + int (Suc j) * i"
  using assms
proof (induction i med dealt hits rule: damage_round.induct)
  case (1 i med dealt hits)
  show ?case
  proof (cases "0 < i \<and> 0 < med \<and> closer (dealt + i) i med")
    case True
    then have "damage_round i med (dealt + i) (hits @ [i]) = (dealt', hits')"
      using "1.prems" damage_round_go by simp
    from "1.IH"[OF refl refl True this]
    obtain j where "hits' = (hits @ [i]) @ replicate (Suc j) i" "dealt' = dealt + i + int (Suc j) * i" by blast
    then have "hits' = hits @ replicate (Suc (Suc j)) i \<and> dealt' = dealt + int (Suc (Suc j)) * i"
      by (simp add: algebra_simps)
    then show ?thesis by blast
  next
    case False
    then have "hits' = hits @ replicate (Suc 0) i \<and> dealt' = dealt + int (Suc 0) * i"
      using "1.prems" damage_round_stop by simp
    then show ?thesis by blast
  qed
qed

lemma damage_round_stops:
  assumes "damage_round i med dealt hits = (dealt', hits')" and "0 < i"
  shows "med \<le> 0 \<or> \<not> closer dealt' i med"
  using assms
proof (induction i med dealt hits rule: damage_round.induct)
  case (1 i med dealt hits)
  show ?case
  proof (cases "0 < i \<and> 0 < med \<and> closer (dealt + i) i med")
    case True
    then have "damage_round i med (dealt + i) (hits @ [i]) = (dealt', hits')"
      using "1.prems"(1) damage_round_go by simp
    from "1.IH"[OF refl refl True this] show ?thesis using True by blast
  next
    case False
    then show ?thesis using "1.prems" damage_round_stop[OF False] by auto
  qed
qed

lemma damage_round_upper:
  assumes "damage_round i med dealt hits = (dealt', hits')" and "0 < i" "i < 4194304" "med < 4194304" "0 \<le> dealt"
    and "2 * (dealt + i) \<le> 2 * b + i" and "med \<le> b"
  shows "2 * dealt' \<le> 2 * b + i"
  using assms
proof (induction i med dealt hits rule: damage_round.induct)
  case (1 i med dealt hits)
  show ?case
  proof (cases "0 < i \<and> 0 < med \<and> closer (dealt + i) i med")
    case True
    then have r: "damage_round i med (dealt + i) (hits @ [i]) = (dealt', hits')"
      using "1.prems"(1) damage_round_go by simp
    have "\<not> 2 * med < 2 * (dealt + i) + i" using not_closer_exact[of "dealt + i" i med] True "1.prems"(2-5) by force
    then have "2 * (dealt + i + i) \<le> 2 * b + i" using "1.prems"(7) by presburger
    then show ?thesis using "1.prems" by (intro "1.IH"[OF refl refl True r]) simp_all
  next
    case False
    then have "dealt' = dealt + i" using "1.prems"(1) damage_round_stop[OF False] by simp
    then show ?thesis using "1.prems" by simp
  qed
qed

text \<open>Facts of one value: the lower bound on what is dealt, and the bound above it.\<close>

lemma damage_round_lower:
  assumes r: "damage_round i med dealt hits = (dealt', hits')" and i: "0 < i" and "0 \<le> med" "med < 4194304" "0 \<le> dealt"
  shows "2 * med \<le> 2 * dealt' + i"
proof (rule ccontr)
  assume n: "\<not> ?thesis"
  obtain j where "dealt' = dealt + int (Suc j) * i" using damage_round_result[OF r] by blast
  then have d: "0 \<le> dealt'" using assms by simp
  then have "0 < med" using n i by presburger
  then show False using damage_round_stops[OF r i] closer_exact[of dealt' i med] n d assms by simp
qed

lemma damage_round_grow:
  assumes "damage_round i med dealt hits = (dealt', hits')" and "0 < i" "i < 4194304" "med < 4194304" "0 \<le> dealt"
    and "med \<le> amount" "2 * dealt \<le> 2 * amount + g" "0 \<le> g"
  shows "2 * dealt' \<le> 2 * amount + g + 3 * i"
proof -
  have "2 * dealt' \<le> 2 * (max dealt amount + i) + i"
    using assms by (intro damage_round_upper[OF assms(1)]) (auto simp: max_def)
  with assms(7,8) show ?thesis by (auto simp: max_def split: if_splits)
qed

lemma med_step:
  assumes "start * (start + 1) \<le> amount" and "0 < (start :: int)"
  shows "m * amount div start + (start + 1) \<le> (m + 1) * amount div start"
proof -
  have "start + 1 \<le> amount div start" using zdiv_mono1[OF assms(1), of start] assms(2) by simp
  moreover have "m * amount div start + amount div start \<le> (m * amount + amount) div start"
    using div_add1_eq[of "m * amount" amount start] assms(2) by (simp add: pos_imp_zdiv_nonneg_iff)
  ultimately show ?thesis by (simp add: algebra_simps)
qed

lemma sorted_replicate: "sorted_wrt (\<ge>) (replicate n (x :: int))"
  by (induction n) auto

lemma hit_fits: "p + (s + 1) \<le> m \<Longrightarrow> 2 * d \<le> 2 * p + i + 1 \<Longrightarrow> i \<le> s \<Longrightarrow> 2 * (d + i) \<le> 2 * m + (i :: int)"
  by presburger

lemma damage_rounds_spec:
  assumes "int k \<le> start" "start \<le> 32768" "0 < amount" "amount < 4194304" "start * amount < 2 ^ 31"
    and "0 \<le> dealt" and "sum_list hits = dealt"
    and "2 * dealt \<le> 2 * amount + 3 * start * (start - int k)"
    and "2 * ((start - int k) * amount div start) \<le> 2 * dealt + int k + 1" and "0 < start"
  shows "\<exists>more. damage_rounds k start amount dealt hits = Some (hits @ more) \<and>
      set more = {1..int k} \<and> sorted_wrt (\<ge>) more \<and> amount \<le> sum_list (hits @ more) \<and>
      (start * (start + 1) \<le> amount \<longrightarrow> 2 * dealt \<le> 2 * ((start - int k) * amount div start) + int k + 1 \<longrightarrow>
         sum_list (hits @ more) = amount)"
  using assms
proof (induction k arbitrary: dealt hits)
  case (Suc k)
  let ?i = "int (Suc k)" and ?n = "start - int k"
  let ?med = "?n * amount div start"
  have nn: "start + 1 - ?i = ?n" by simp
  have st: "0 < start" "?i \<le> start" using Suc.prems by simp_all
  have le: "?n * amount \<le> start * amount" using Suc.prems by (intro mult_right_mono) auto
  have med0: "0 \<le> ?med" using st Suc.prems by (simp add: pos_imp_zdiv_nonneg_iff)
  have med1: "?med \<le> amount" using zdiv_mono1[OF le, of start] st by simp
  obtain dealt' hits' where r: "damage_round ?i ?med dealt hits = (dealt', hits')" by (cases "damage_round ?i ?med dealt hits")
  obtain j where hits': "hits' = hits @ replicate (Suc j) ?i" and dealt': "dealt' = dealt + int (Suc j) * ?i"
    using damage_round_result[OF r] by blast
  have lower: "2 * ?med \<le> 2 * dealt' + ?i"
    using med0 med1 Suc.prems by (intro damage_round_lower[OF r]) auto
  have "0 \<le> 3 * start * (start - int (Suc k))" using st by simp
  then have "2 * dealt' \<le> 2 * amount + 3 * start * (start - int (Suc k)) + 3 * ?i"
    using med0 med1 Suc.prems st by (intro damage_round_grow[OF r]) auto
  also have "\<dots> \<le> 2 * amount + 3 * start * ?n" using st by (simp add: algebra_simps)
  finally have grow: "2 * dealt' \<le> 2 * amount + 3 * start * ?n" .
  have "start * ?n \<le> 32768 * 32768" using st Suc.prems by (intro mult_mono) auto
  then have small: "dealt' < 2 ^ 31" using grow Suc.prems by simp
  have step: "damage_rounds (Suc k) start amount dealt hits = damage_rounds k start amount dealt' hits'"
    using le small r Suc.prems(5) by (simp add: Let_def nn)
  have "0 \<le> dealt'" "sum_list hits' = dealt'" using Suc.prems(6,7) by (simp_all add: dealt' hits' sum_list_replicate algebra_simps)
  from Suc.IH[OF _ Suc.prems(2-5) this grow _ st(1)] lower st
  obtain more where more: "damage_rounds k start amount dealt' hits' = Some (hits' @ more)" "set more = {1..int k}"
      "sorted_wrt (\<ge>) more" "amount \<le> sum_list (hits' @ more)"
    and ex: "start * (start + 1) \<le> amount \<Longrightarrow> 2 * dealt' \<le> 2 * ?med + int k + 1 \<Longrightarrow> sum_list (hits' @ more) = amount"
    by auto
  have "sum_list (hits' @ more) = amount"
    if a: "start * (start + 1) \<le> amount" and d: "2 * dealt \<le> 2 * ((start - ?i) * amount div start) + ?i + 1"
  proof (rule ex[OF a])
    have "(start - ?i) * amount div start + (start + 1) \<le> ?med" using med_step[OF a st(1), of "start - ?i"] by simp
    from hit_fits[OF this d st(2)] have "2 * (dealt + ?i) \<le> 2 * ?med + ?i" .
    then have "2 * dealt' \<le> 2 * ?med + ?i"
      using med0 med1 Suc.prems st by (intro damage_round_upper[OF r]) auto
    then show "2 * dealt' \<le> 2 * ?med + int k + 1" by simp
  qed
  moreover have "set (replicate (Suc j) ?i @ more) = {1..?i}" using more(2) by auto
  moreover have "sorted_wrt (\<ge>) (replicate (Suc j) ?i @ more)" 
    using more(2,3) sorted_replicate[of "Suc j" ?i] by (auto simp: sorted_wrt_append)
  moreover have "hits' @ more = hits @ (replicate (Suc j) ?i @ more)" by (simp add: hits')
  ultimately show ?case using step more(1,4) by metis
qed simp

text \<open>C22: Damage over time is spread as promised: the loops of \<open>generateDamageList\<close> end for every amount and first hit of
  the game's magnitudes, the hits fall from the first value down to one without a gap, together they deal at least the
  amount, and exactly the amount when it is large against the first hit. The floating point comparison of the code never
  makes a difference to this.\<close>

theorem generateDamageList_spreads:
  assumes "0 < start" "start \<le> 32768" "0 < amount" "amount < 4194304" "start * amount < 2 ^ 31"
  shows "\<exists>hits. generateDamageList amount start = Some hits \<and> set hits = {1..start} \<and> sorted_wrt (\<ge>) hits \<and>
      amount \<le> sum_list hits \<and> (start * (start + 1) \<le> amount \<longrightarrow> sum_list hits = amount)"
  using damage_rounds_spec[of "nat start" start amount 0 "[]"] assms by (auto simp: generateDamageList_def)

theorem generateDamageList_spreads_witness:
  "\<exists>hits. generateDamageList 100 5 = Some hits \<and> set hits = {1..5} \<and> sum_list hits = 100"
  using generateDamageList_spreads[of 5 100] by auto

section \<open>The damage list of a condition\<close>

definition uniform_random :: "(int \<Rightarrow> int \<Rightarrow> int) \<Rightarrow> int \<Rightarrow> int \<Rightarrow> int" where
  "uniform_random draw minNumber maxNumber =
    (if minNumber = maxNumber then minNumber
     else if minNumber > maxNumber then draw maxNumber minNumber
     else draw minNumber maxNumber)"

abbreviation (input) "EVENT_CREATURE_THINK_INTERVAL \<equiv> (1000 :: i32)"

fun push_rounds :: "nat \<Rightarrow> int \<Rightarrow> i32 \<Rightarrow> i32 \<Rightarrow> condition \<Rightarrow> condition" where
  "push_rounds 0 now time value c = c"
| "push_rounds (Suc n) now time value c =
     push_rounds n now time value (push_interval now \<lparr>timeLeft = time, ivalue = value, interval = time\<rparr> c)"

text \<open>\<open>addDamage\<close> on an object of the class; \<open>damage_of\<close> is \<open>this\<close> seen as a \<open>ConditionDamage\<close>.\<close>

definition addDamage :: "int \<Rightarrow> i32 \<Rightarrow> i32 \<Rightarrow> i32 \<Rightarrow> condition \<Rightarrow> damage \<Rightarrow> bool \<times> condition" where
  "addDamage now rounds time value c d =
    (let time = (if sint time < sint EVENT_CREATURE_THINK_INTERVAL then EVENT_CREATURE_THINK_INTERVAL else time) in
     if rounds = -1 then
       (True, snd (setParam CONDITION_PARAM_TICKS (-1)
                (snd (setParam CONDITION_PARAM_TICKINTERVAL time (c\<lparr>body := Damage (d\<lparr>periodDamage := value\<rparr>)\<rparr>)))))
     else if sint (periodDamage d) > 0 then (False, c)
     else (True, push_rounds (nat (sint rounds)) now time value c))"

definition push_hit :: "int \<Rightarrow> int \<Rightarrow> condition \<Rightarrow> condition" where
  "push_hit now v c =
    (case body c of Damage d \<Rightarrow> snd (addDamage now 1 (tickInterval d) (- of_int v) c d) | _ \<Rightarrow> c)"

text \<open>\<open>init\<close>; the default first hit is \<open>ceil(amount / 20.0)\<close>, at least one. \<open>None\<close> is the overflow of
  \<open>generateDamageList\<close>.\<close>

definition init :: "int \<Rightarrow> (int \<Rightarrow> int \<Rightarrow> int) \<Rightarrow> condition \<Rightarrow> damage \<Rightarrow> (bool \<times> condition) option" where
  "init now draw c d =
    (if periodDamage d \<noteq> 0 then Some (True, c)
     else if damageList d \<noteq> [] then Some (True, c)
     else
       let c = setTicks now 0 c; amount = uniform_random draw (sint (minDamage d)) (sint (maxDamage d)) in
       if amount = 0 then Some (False, c)
       else
         let start = (if sint (startDamage d) > sint (maxDamage d) then sint (maxDamage d)
                      else if startDamage d = 0 then max 1 \<lceil>rat_of_int amount / 20\<rceil>
                      else sint (startDamage d));
             c = c\<lparr>body := Damage (d\<lparr>startDamage := of_int start\<rparr>)\<rparr>
         in case generateDamageList amount start of
              None \<Rightarrow> None
            | Some hits \<Rightarrow>
                let c = fold (push_hit now) hits c in
                Some (case body c of Damage d' \<Rightarrow> (damageList d' \<noteq> [], c) | _ \<Rightarrow> (False, c)))"

definition getNextDamage :: "condition \<Rightarrow> damage \<Rightarrow> (i32 \<times> condition) option" where
  "getNextDamage c d =
    (if periodDamage d \<noteq> 0 then Some (periodDamage d, c)
     else case damageList d of
         [] \<Rightarrow> None
       | i # is \<Rightarrow>
           Some (ivalue i, if ticks c \<noteq> -1 then c\<lparr>body := Damage (d\<lparr>damageList := is\<rparr>)\<rparr> else c))"

definition getTotalDamage :: "damage \<Rightarrow> i32" where
  "getTotalDamage d =
    abs32 (if damageList d \<noteq> [] then foldl (\<lambda>result i. result + ivalue i) 0 (damageList d)
           else minDamage d + of_int (sint (maxDamage d - minDamage d) sdiv 2))"

definition damage_updateCondition :: "condition \<Rightarrow> damage \<Rightarrow> condition \<Rightarrow> damage \<Rightarrow> bool" where
  "damage_updateCondition c d new nd \<longleftrightarrow>
     forceUpdate nd \<or>
     (\<not> (ticks c = -1 \<and> sint (ticks new) > 0) \<and> sint (getTotalDamage nd) > sint (getTotalDamage d))"

end
