(* ===== verification/Condition_Effects.thy ===== *)
theory Condition_Effects
  imports Condition_Damage
begin

text \<open>
  What conditions do to a creature: the virtual operations \<open>startCondition\<close>, \<open>executeCondition\<close>, \<open>endCondition\<close> and
  \<open>addCondition\<close> of \<open>src/src/condition.cpp\<close> and the condition list of \<open>creature.cpp\<close> and \<open>player.cpp\<close>. Condition
  objects live in a store and the list of a creature holds references to them, so that an object may be reached after
  its deletion: the result \<open>None\<close> is such an access or another undefined step (a cast to a wrong class, a division by
  zero, a conversion out of range). Packets to clients, scheduler events and other calls out of the component are
  recorded in \<open>reports\<close>. What the rest of the game answers (the clock, the random engine, the map, the combat code) is the
  record \<open>world\<close>; the combat code may change the creature itself.
\<close>

section \<open>The creature\<close>

datatype creature_kind = Is_Player | Is_Monster | Is_Npc

datatype report =
    SendStats | SendSkills | SendIcons | SendChangeSpeed i32 | SendHealth | SendVisible bool | SendOutfit outfit
  | SendLight light_info | SendSpellCooldown u32 i32 | SendSpellGroupCooldown u32 i32 | SendHealed int | SendManaGain int
  | SendPoff | SendText u32 | Death_Task | Force_Add int nat | Force_Remove int u32 | Stop_Walk | Start_Walk
  | Update_Map_Cache | Update_Idle bool | Dismount | End_Fight

record creature =
  kind_of :: creature_kind
  conditions :: "nat list"
  store :: "nat \<Rightarrow> condition option"
  baseSpeed :: u32
  varSpeed :: i32
  walking :: bool
  varSkills :: "i32 list"
  varSpecialSkills :: "i32 list"
  varStats :: "i32 list"
  baseSkills :: "u16 list"
  magLevel :: u32
  health :: i32
  healthMax :: i32
  mana :: i32
  manaMax :: i32
  infiniteMana :: bool
  soulPoints :: u8
  soulMax :: u8
  canUseDefense :: bool
  currentOutfit :: outfit
  defaultOutfit :: outfit
  mounted :: bool
  internalLight :: light_info
  itemsLight :: light_info
  suppressions :: u32
  immunities :: u32
  cannotBeAttacked :: bool
  ghost :: bool
  pzLocked :: bool
  ignoreFieldDamage :: bool
  has_targets :: bool
  reports :: "report list"

record world =
  now :: int
  draw :: "int \<Rightarrow> int \<Rightarrow> int"
  walk_delay :: int
  protection_zone :: bool
  field_combat :: "u32 option"
  outfit_allowed :: "outfit \<Rightarrow> bool"
  owner_is_player :: "u32 \<Rightarrow> bool"
  may_combat :: "u32 \<Rightarrow> bool"
  combat :: "u32 \<Rightarrow> i32 \<Rightarrow> u32 \<Rightarrow> bool \<Rightarrow> creature \<Rightarrow> bool \<times> creature"

abbreviation is_player :: "creature \<Rightarrow> bool" where "is_player cr \<equiv> kind_of cr = Is_Player"

definition emit :: "report \<Rightarrow> creature \<Rightarrow> creature" where
  "emit n cr = cr\<lparr>reports := reports cr @ [n]\<rparr>"

definition put :: "nat \<Rightarrow> condition \<Rightarrow> creature \<Rightarrow> creature" where
  "put r c cr = cr\<lparr>store := (store cr)(r \<mapsto> c)\<rparr>"

definition free :: "nat \<Rightarrow> creature \<Rightarrow> creature" where
  "free r cr = cr\<lparr>store := (store cr)(r := None)\<rparr>"

section \<open>Speed, health, skills\<close>

definition getSpeed :: "creature \<Rightarrow> i32" where "getSpeed cr = baseSpeed cr + varSpeed cr"

definition setSpeed :: "i32 \<Rightarrow> creature \<Rightarrow> creature" where
  "setSpeed v cr =
    (let oldSpeed = getSpeed cr; cr = cr\<lparr>varSpeed := v\<rparr> in
     if sint (getSpeed cr) \<le> 0 then emit Stop_Walk cr
     else if sint oldSpeed \<le> 0 \<and> walking cr then emit Start_Walk cr
     else cr)"

definition changeSpeed :: "i32 \<Rightarrow> creature \<Rightarrow> creature" where
  "changeSpeed varSpeedDelta cr =
    (let cr = setSpeed (getSpeed cr - baseSpeed cr + varSpeedDelta) cr in emit (SendChangeSpeed (getSpeed cr)) cr)"

definition max32 :: "i32 \<Rightarrow> i32 \<Rightarrow> i32" where "max32 a b = (if sint a < sint b then b else a)"
definition min32 :: "i32 \<Rightarrow> i32 \<Rightarrow> i32" where "min32 a b = (if sint b < sint a then b else a)"

definition getMaxHealth :: "creature \<Rightarrow> i32" where
  "getMaxHealth cr = (if is_player cr then max32 1 (healthMax cr + varStats cr ! STAT_MAXHITPOINTS) else healthMax cr)"

definition getMaxMana :: "creature \<Rightarrow> i32" where
  "getMaxMana cr = max32 0 (manaMax cr + varStats cr ! STAT_MAXMANAPOINTS)"

definition Creature_changeHealth :: "i32 \<Rightarrow> bool \<Rightarrow> creature \<Rightarrow> creature" where
  "Creature_changeHealth healthChange sendHealthChange cr =
    (let oldHealth = health cr;
         cr = cr\<lparr>health := (if sint healthChange > 0 then oldHealth + min32 healthChange (getMaxHealth cr - oldHealth)
                         else max32 0 (oldHealth + healthChange))\<rparr>;
         cr = (if sendHealthChange \<and> oldHealth \<noteq> health cr then emit SendHealth cr else cr)
     in if sint (health cr) \<le> 0 then emit Death_Task cr else cr)"

definition changeHealth :: "i32 \<Rightarrow> bool \<Rightarrow> creature \<Rightarrow> creature" where
  "changeHealth healthChange sendHealthChange cr =
    (let cr' = Creature_changeHealth healthChange sendHealthChange cr in if is_player cr then emit SendStats cr' else cr')"

definition changeMana :: "i32 \<Rightarrow> creature \<Rightarrow> creature" where
  "changeMana manaChange cr =
     emit SendStats
      (if infiniteMana cr then cr
       else cr\<lparr>mana := (if sint manaChange > 0 then mana cr + min32 manaChange (getMaxMana cr - mana cr)
                       else max32 0 (mana cr + manaChange))\<rparr>)"

definition changeSoul :: "i32 \<Rightarrow> creature \<Rightarrow> creature" where
  "changeSoul soulChange cr =
     emit SendStats
      (cr\<lparr>soulPoints := ucast
         (if sint soulChange > 0 then ucast (soulPoints cr) + min32 soulChange (ucast (soulMax cr) - ucast (soulPoints cr))
          else max32 0 (ucast (soulPoints cr) + soulChange))\<rparr>)"

definition setVarSkill :: "nat \<Rightarrow> i32 \<Rightarrow> creature \<Rightarrow> creature" where
  "setVarSkill skill modifier cr = cr\<lparr>varSkills := (varSkills cr)[skill := varSkills cr ! skill + modifier]\<rparr>"

definition setVarSpecialSkill :: "nat \<Rightarrow> i32 \<Rightarrow> creature \<Rightarrow> creature" where
  "setVarSpecialSkill skill modifier cr =
     cr\<lparr>varSpecialSkills := (varSpecialSkills cr)[skill := varSpecialSkills cr ! skill + modifier]\<rparr>"

definition setVarStats :: "nat \<Rightarrow> i32 \<Rightarrow> creature \<Rightarrow> creature" where
  "setVarStats stat modifier cr =
    (let cr = cr\<lparr>varStats := (varStats cr)[stat := varStats cr ! stat + modifier]\<rparr> in
     if stat = STAT_MAXHITPOINTS then
       (if sint (health cr) > sint (getMaxHealth cr) then Creature_changeHealth (getMaxHealth cr - health cr) True cr
        else emit SendHealth cr)
     else if stat = STAT_MAXMANAPOINTS then
       (if unat (mana cr) > unat (getMaxMana cr) then changeMana (getMaxMana cr - mana cr) cr else cr)
     else cr)"

text \<open>A percentage of a base value: \<open>static_cast<int32_t>(base * ((percent - 100) / 100.f))\<close>.\<close>

definition percent_of :: "int \<Rightarrow> i32 \<Rightarrow> i32 option" where
  "percent_of base percent =
     map_option of_int (trunc32 (float_mul (float_of_int base) (float_div (float_of_int (sint (percent - 100))) 100)))"

fun apply_percent :: "(nat \<Rightarrow> int option) \<Rightarrow> i32 list \<Rightarrow> nat list \<Rightarrow> i32 list \<Rightarrow> i32 list option" where
  "apply_percent base percents [] vals = Some vals"
| "apply_percent base percents (i # is) vals =
    (if percents ! i = 0 then apply_percent base percents is vals
     else case base i of
         None \<Rightarrow> apply_percent base percents is vals
       | Some b \<Rightarrow>
           (case percent_of b (percents ! i) of
              None \<Rightarrow> None
            | Some v \<Rightarrow> apply_percent base percents is (vals[i := v])))"

definition updatePercentStats :: "creature \<Rightarrow> attributes \<Rightarrow> attributes option" where
  "updatePercentStats cr a =
     map_option (\<lambda>v. a\<lparr>stats := v\<rparr>)
       (apply_percent
         (\<lambda>i. if i = STAT_MAXHITPOINTS then Some (sint (getMaxHealth cr))
              else if i = STAT_MAXMANAPOINTS then Some (uint (getMaxMana cr))
              else if i = STAT_MAGICPOINTS then Some (uint (magLevel cr)) else None)
         (statsPercent a) [0..<4] (stats a))"

definition updatePercentSkills :: "creature \<Rightarrow> attributes \<Rightarrow> attributes option" where
  "updatePercentSkills cr a =
     map_option (\<lambda>v. a\<lparr>skills := v\<rparr>)
       (apply_percent (\<lambda>i. Some (uint (baseSkills cr ! i))) (skillsPercent a) [0..<7] (skills a))"

text \<open>\<open>add_each f vs is\<close> is the loop that adds every modifier that is not zero.\<close>

definition add_each :: "(nat \<Rightarrow> i32 \<Rightarrow> creature \<Rightarrow> creature) \<Rightarrow> i32 list \<Rightarrow> nat list \<Rightarrow> creature \<Rightarrow> creature" where
  "add_each f vs is cr = fold (\<lambda>i cr. if vs ! i \<noteq> 0 then f i (vs ! i) cr else cr) is cr"

definition sub_each :: "(nat \<Rightarrow> i32 \<Rightarrow> creature \<Rightarrow> creature) \<Rightarrow> (nat \<Rightarrow> bool) \<Rightarrow> i32 list \<Rightarrow> nat list \<Rightarrow> creature \<Rightarrow> creature" where
  "sub_each f affected vs is cr = fold (\<lambda>i cr. if affected i then f i (- (vs ! i)) cr else cr) is cr"

definition updateStats :: "attributes \<Rightarrow> creature \<Rightarrow> creature" where
  "updateStats a cr =
    (let cr = add_each setVarStats (stats a) [0..<4] cr in
     if \<exists>i\<in>set [0..<4]. stats a ! i \<noteq> 0 then emit SendStats cr else cr)"

definition updateSkills :: "attributes \<Rightarrow> creature \<Rightarrow> creature" where
  "updateSkills a cr =
    (let cr = add_each setVarSkill (skills a) [0..<7] cr;
         cr = add_each setVarSpecialSkill (specialSkills a) [0..<6] cr in
     if (\<exists>i\<in>set [0..<7]. skills a ! i \<noteq> 0) \<or> (\<exists>i\<in>set [0..<6]. specialSkills a ! i \<noteq> 0) then emit SendSkills cr else cr)"

text \<open>The four calls in the order of \<open>startCondition\<close> and \<open>addCondition\<close>; the object is written back to the store
  before the creature changes.\<close>

definition apply_attributes :: "nat \<Rightarrow> condition \<Rightarrow> attributes \<Rightarrow> creature \<Rightarrow> creature option" where
  "apply_attributes r c a cr =
     do { a1 \<leftarrow> updatePercentSkills cr a;
          let cr = updateSkills a1 cr;
          a2 \<leftarrow> updatePercentStats cr a1;
          Some (updateStats a2 (put r (c\<lparr>body := Attributes a2\<rparr>) cr)) }"

definition end_attributes :: "attributes \<Rightarrow> creature \<Rightarrow> creature" where
  "end_attributes a cr =
    (let cr = (if is_player cr then
          let cr = sub_each setVarSkill (\<lambda>i. skills a ! i \<noteq> 0 \<or> skillsPercent a ! i \<noteq> 0) (skills a) [0..<7] cr;
              cr = sub_each setVarSpecialSkill (\<lambda>i. specialSkills a ! i \<noteq> 0) (specialSkills a) [0..<6] cr;
              cr = (if (\<exists>i\<in>set [0..<7]. skills a ! i \<noteq> 0 \<or> skillsPercent a ! i \<noteq> 0) \<or>
                      (\<exists>i\<in>set [0..<6]. specialSkills a ! i \<noteq> 0) then emit SendSkills cr else cr);
              cr = sub_each setVarStats (\<lambda>i. stats a ! i \<noteq> 0) (stats a) [0..<4] cr
          in if \<exists>i\<in>set [0..<4]. stats a ! i \<noteq> 0 then emit SendStats cr else cr
        else cr)
     in if disableDefense a then cr\<lparr>canUseDefense := True\<rparr> else cr)"

section \<open>The virtual operations\<close>

definition isSuppress :: "u32 \<Rightarrow> creature \<Rightarrow> bool" where "isSuppress ty cr \<longleftrightarrow> hasBitSet ty (suppressions cr)"

definition isImmune :: "u32 \<Rightarrow> creature \<Rightarrow> bool" where
  "isImmune ty cr \<longleftrightarrow> (is_player cr \<and> cannotBeAttacked cr) \<or> hasBitSet ty (immunities cr)"

definition ConditionToDamageType :: "u32 \<Rightarrow> u32" where
  "ConditionToDamageType ty =
    (if ty = CONDITION_FIRE then 0x8 else if ty = CONDITION_ENERGY then 0x2 else if ty = CONDITION_BLEEDING then 0x1
     else if ty = CONDITION_DROWN then 0x100 else if ty = CONDITION_POISON then 0x4
     else if ty = CONDITION_FREEZING then 0x200 else if ty = CONDITION_DAZZLED then 0x400
     else if ty = CONDITION_CURSED then 0x800 else 0)"

text \<open>\<open>std::round(value / 2.)\<close> rounds halves away from zero.\<close>

definition half_round :: "i32 \<Rightarrow> i32" where
  "half_round v = of_int (if sint v < 0 then - ((- sint v + 1) div 2) else (sint v + 1) div 2)"

definition doDamage :: "world \<Rightarrow> u32 \<Rightarrow> damage \<Rightarrow> i32 \<Rightarrow> creature \<Rightarrow> bool \<times> creature" where
  "doDamage w ty d healthChange cr =
    (if isSuppress ty cr \<or> isImmune ty cr then (False, cr)
     else
       let v = (if field d \<and> is_player cr \<and> owner_is_player w (owner d) then half_round healthChange else healthChange) in
       if cannotBeAttacked cr \<or> \<not> may_combat w (owner d) then (False, if ghost cr then cr else emit SendPoff cr)
       else combat w (owner d) v (ConditionToDamageType ty) (field d) cr)"

definition onTickCondition :: "world \<Rightarrow> u32 \<Rightarrow> bool \<Rightarrow> bool" where
  "onTickCondition w ty bRemove =
    (case field_combat w of
       None \<Rightarrow> bRemove
     | Some t \<Rightarrow> if ConditionToDamageType ty = 0 then bRemove else t \<noteq> ConditionToDamageType ty)"

definition base_start :: "world \<Rightarrow> condition \<Rightarrow> condition" where
  "base_start w c = (if sint (ticks c) > 0 then c\<lparr>endTime := sint (ticks c) + now w\<rparr> else c)"

definition getFormulaValues :: "int \<Rightarrow> speed \<Rightarrow> (int \<times> int) option" where
  "getFormulaValues var s =
     do { a \<leftarrow> float_value (mina s); b \<leftarrow> float_value (minb s); a' \<leftarrow> float_value (maxa s); b' \<leftarrow> float_value (maxb s);
          lo \<leftarrow> trunc32 (float_add (float_mul (float_of_int var) a) b);
          hi \<leftarrow> trunc32 (float_add (float_mul (float_of_int var) a') b');
          Some (lo, hi) }"

definition resolve_speed :: "world \<Rightarrow> creature \<Rightarrow> speed \<Rightarrow> speed option" where
  "resolve_speed w cr s =
    (if speedDelta s \<noteq> 0 then Some s
     else map_option (\<lambda>(lo, hi). s\<lparr>speedDelta := of_int (uniform_random (draw w) lo hi)\<rparr>)
            (getFormulaValues (sint (baseSpeed cr)) s))"

definition has_type :: "u32 \<Rightarrow> creature \<Rightarrow> nat \<Rightarrow> bool" where
  "has_type ty cr r \<longleftrightarrow> (case store cr r of None \<Rightarrow> False | Some c \<Rightarrow> conditionType c = ty)"

definition isInvisible :: "creature \<Rightarrow> bool" where
  "isInvisible cr \<longleftrightarrow> list_ex (has_type CONDITION_INVISIBLE cr) (conditions cr)"

definition internalCreatureChangeOutfit :: "world \<Rightarrow> outfit \<Rightarrow> creature \<Rightarrow> creature" where
  "internalCreatureChangeOutfit w o' cr =
    (if \<not> outfit_allowed w o' then cr
     else let cr = cr\<lparr>currentOutfit := o'\<rparr> in if isInvisible cr then cr else emit (SendOutfit o') cr)"

definition getCreatureLight :: "creature \<Rightarrow> light_info" where
  "getCreatureLight cr =
    (if is_player cr \<and> \<not> level (internalLight cr) > level (itemsLight cr) then itemsLight cr else internalLight cr)"

text \<open>\<open>setCreatureLight\<close> followed by \<open>changeLight\<close>, as all callers do.\<close>

definition setCreatureLight :: "light_info \<Rightarrow> creature \<Rightarrow> creature" where
  "setCreatureLight li cr = (let cr = cr\<lparr>internalLight := li\<rparr> in emit (SendLight (getCreatureLight cr)) cr)"

text \<open>\<open>ticks / lightInfo.level\<close>: a division by zero when the level is zero.\<close>

definition light_interval :: "i32 \<Rightarrow> u8 \<Rightarrow> u32 option" where
  "light_interval tk lv = (if lv = 0 then None else Some (of_int (sint tk sdiv uint lv)))"

definition init_object :: "world \<Rightarrow> nat \<Rightarrow> creature \<Rightarrow> (bool \<times> creature) option" where
  "init_object w r cr =
    (case store cr r of
       None \<Rightarrow> None
     | Some c \<Rightarrow>
         (case body c of
            Damage d \<Rightarrow> map_option (\<lambda>(b, c'). (b, put r c' cr)) (init (now w) (draw w) c d)
          | _ \<Rightarrow> None))"

definition send_cooldown :: "condition \<Rightarrow> creature \<Rightarrow> creature" where
  "send_cooldown c cr =
    (if subId c \<noteq> 0 \<and> sint (ticks c) > 0 \<and> is_player cr then
       (case body c of
          SpellCooldown \<Rightarrow> emit (SendSpellCooldown (subId c) (ticks c)) cr
        | SpellGroupCooldown \<Rightarrow> emit (SendSpellGroupCooldown (subId c) (ticks c)) cr
        | _ \<Rightarrow> cr)
     else cr)"

definition startCondition :: "world \<Rightarrow> nat \<Rightarrow> creature \<Rightarrow> (bool \<times> creature) option" where
  "startCondition w r cr =
    (case store cr r of
       None \<Rightarrow> None
     | Some c0 \<Rightarrow>
         let c = base_start w c0; cr = put r c cr in
         (case body c of
            Generic \<Rightarrow> Some (True, cr)
          | Regeneration _ \<Rightarrow> Some (True, cr)
          | Soul _ \<Rightarrow> Some (True, cr)
          | Attributes a \<Rightarrow>
              let cr = cr\<lparr>canUseDefense := \<not> disableDefense a\<rparr> in
              if is_player cr then map_option (Pair True) (apply_attributes r c a cr) else Some (True, cr)
          | Invisible \<Rightarrow> Some (True, emit (SendVisible False) cr)
          | Damage d \<Rightarrow>
              if delayed d then init_object w r cr
              else let (hit, cr) = doDamage w (conditionType c) d (initDamage d) cr in
                if hit then init_object w r cr else Some (False, cr)
          | Speed s \<Rightarrow>
              map_option (\<lambda>s'. (True, changeSpeed (speedDelta s') (put r (c\<lparr>body := Speed s'\<rparr>) cr))) (resolve_speed w cr s)
          | Outfit o' \<Rightarrow> Some (True, internalCreatureChangeOutfit w o' cr)
          | Light l \<Rightarrow>
              map_option (\<lambda>iv. (True, setCreatureLight (lightInfo l)
                  (put r (c\<lparr>body := Light (l\<lparr>internalLightTicks := 0, lightChangeInterval := iv\<rparr>)\<rparr>) cr)))
                (light_interval (ticks c) (level (lightInfo l)))
          | SpellCooldown \<Rightarrow> Some (True, send_cooldown c cr)
          | SpellGroupCooldown \<Rightarrow> Some (True, send_cooldown c cr)))"

definition base_execute :: "world \<Rightarrow> nat \<Rightarrow> i32 \<Rightarrow> creature \<Rightarrow> (bool \<times> creature) option" where
  "base_execute w r elapsed cr =
    (case store cr r of
       None \<Rightarrow> None
     | Some c \<Rightarrow>
         if ticks c = -1 then Some (True, cr)
         else Some (endTime c \<ge> now w, put r (c\<lparr>ticks := max32 0 (ticks c - elapsed)\<rparr>) cr))"

definition regenerate :: "world \<Rightarrow> nat \<Rightarrow> condition \<Rightarrow> regeneration \<Rightarrow> i32 \<Rightarrow> creature \<Rightarrow> creature" where
  "regenerate w r c g elapsed cr =
    (let g = g\<lparr>internalHealthTicks := internalHealthTicks g + elapsed, internalManaTicks := internalManaTicks g + elapsed\<rparr> in
     if protection_zone w then put r (c\<lparr>body := Regeneration g\<rparr>) cr
     else
       let hp = healthTicks g \<le> internalHealthTicks g; mp = manaTicks g \<le> internalManaTicks g;
           g' = g\<lparr>internalHealthTicks := (if hp then 0 else internalHealthTicks g),
                  internalManaTicks := (if mp then 0 else internalManaTicks g)\<rparr>;
           cr = put r (c\<lparr>body := Regeneration g'\<rparr>) cr;
           cr = (if hp then
               let old = health cr; cr = changeHealth (healthGain g) True cr; gain = sint (health cr - old) in
               if isBuff c \<and> gain > 0 \<and> is_player cr then emit (SendHealed gain) cr else cr
             else cr)
       in if mp \<and> is_player cr then
            let old = mana cr; cr = changeMana (manaGain g) cr; gain = sint (mana cr - old) in
            if isBuff c \<and> gain > 0 then emit (SendManaGain gain) cr else cr
          else cr)"

definition tick_soul :: "world \<Rightarrow> nat \<Rightarrow> condition \<Rightarrow> soul \<Rightarrow> i32 \<Rightarrow> creature \<Rightarrow> creature" where
  "tick_soul w r c s elapsed cr =
    (let s = s\<lparr>internalSoulTicks := internalSoulTicks s + elapsed\<rparr> in
     if is_player cr \<and> \<not> protection_zone w \<and> soulTicks s \<le> internalSoulTicks s
     then changeSoul (soulGain s) (put r (c\<lparr>body := Soul (s\<lparr>internalSoulTicks := 0\<rparr>)\<rparr>) cr)
     else put r (c\<lparr>body := Soul s\<rparr>) cr)"

definition tick_light :: "nat \<Rightarrow> condition \<Rightarrow> light \<Rightarrow> i32 \<Rightarrow> creature \<Rightarrow> creature" where
  "tick_light r c l elapsed cr =
    (let l = l\<lparr>internalLightTicks := internalLightTicks l + elapsed\<rparr> in
     if lightChangeInterval l \<le> internalLightTicks l then
       let cr = put r (c\<lparr>body := Light (l\<lparr>internalLightTicks := 0\<rparr>)\<rparr>) cr; li = getCreatureLight cr in
       if level li > 0 then setCreatureLight (li\<lparr>level := level li - 1\<rparr>) cr else cr
     else put r (c\<lparr>body := Light l\<rparr>) cr)"

text \<open>\<open>ConditionDamage::executeCondition\<close> up to the call of the base class: the new state and the interval that is
  passed on.\<close>

definition tick_damage :: "world \<Rightarrow> nat \<Rightarrow> condition \<Rightarrow> damage \<Rightarrow> i32 \<Rightarrow> creature \<Rightarrow> creature \<times> i32" where
  "tick_damage w r c d elapsed cr =
    (if periodDamage d \<noteq> 0 then
       let t = periodDamageTick d + elapsed in
       if sint (tickInterval d) \<le> sint t then
         (snd (doDamage w (conditionType c) d (periodDamage d) (put r (c\<lparr>body := Damage (d\<lparr>periodDamageTick := 0\<rparr>)\<rparr>) cr)),
          elapsed)
       else (put r (c\<lparr>body := Damage (d\<lparr>periodDamageTick := t\<rparr>)\<rparr>) cr, elapsed)
     else case damageList d of
         [] \<Rightarrow> (cr, elapsed)
       | i # rest \<Rightarrow>
           let bRemove = onTickCondition w (conditionType c) (ticks c \<noteq> -1);
               left = timeLeft i - elapsed;
               over = sint left \<le> 0;
               list' = (if over then (if bRemove then rest else i\<lparr>timeLeft := interval i\<rparr> # rest)
                        else i\<lparr>timeLeft := left\<rparr> # rest);
               c' = c\<lparr>body := Damage (d\<lparr>damageList := list'\<rparr>)\<rparr>;
               cr = put r c' cr;
               cr = (if over then snd (doDamage w (conditionType c) d (ivalue i) cr) else cr)
           in if bRemove then (cr, elapsed)
              else (case store cr r of
                      None \<Rightarrow> cr
                    | Some c'' \<Rightarrow> if sint (ticks c'') > 0 then put r (c''\<lparr>endTime := endTime c'' + sint elapsed\<rparr>) cr else cr,
                    0))"

definition executeCondition :: "world \<Rightarrow> nat \<Rightarrow> i32 \<Rightarrow> creature \<Rightarrow> (bool \<times> creature) option" where
  "executeCondition w r elapsed cr =
    (case store cr r of
       None \<Rightarrow> None
     | Some c \<Rightarrow>
         (case body c of
            Regeneration g \<Rightarrow> base_execute w r elapsed (regenerate w r c g elapsed cr)
          | Soul s \<Rightarrow> base_execute w r elapsed (tick_soul w r c s elapsed cr)
          | Light l \<Rightarrow> base_execute w r elapsed (tick_light r c l elapsed cr)
          | Damage d \<Rightarrow> (let (cr, elapsed) = tick_damage w r c d elapsed cr in base_execute w r elapsed cr)
          | _ \<Rightarrow> base_execute w r elapsed cr))"

definition endCondition :: "world \<Rightarrow> condition \<Rightarrow> creature \<Rightarrow> creature" where
  "endCondition w c cr =
    (case body c of
       Attributes a \<Rightarrow> end_attributes a cr
     | Invisible \<Rightarrow> if isInvisible cr then cr else emit (SendVisible True) cr
     | Speed s \<Rightarrow> changeSpeed (- speedDelta s) cr
     | Outfit _ \<Rightarrow> internalCreatureChangeOutfit w (defaultOutfit cr) cr
     | Light _ \<Rightarrow> setCreatureLight \<lparr>level = 0, color = 0\<rparr> cr
     | _ \<Rightarrow> cr)"

section \<open>Merging a condition into one of the same type\<close>

definition updateCondition :: "world \<Rightarrow> condition \<Rightarrow> condition \<Rightarrow> bool" where
  "updateCondition w c new \<longleftrightarrow>
     conditionType c = conditionType new \<and>
     \<not> (ticks c = -1 \<and> sint (ticks new) > 0) \<and>
     \<not> (sint (ticks new) \<ge> 0 \<and> endTime c > now w + sint (ticks new))"

definition merge_attributes ::
  "world \<Rightarrow> nat \<Rightarrow> condition \<Rightarrow> attributes \<Rightarrow> condition \<Rightarrow> attributes \<Rightarrow> creature \<Rightarrow> creature option" where
  "merge_attributes w r c a new na cr =
    (if updateCondition w c new then
       let c = setTicks (now w) (ticks new) c;
           cr = end_attributes a cr;
           a' = a\<lparr>skills := skills na, specialSkills := specialSkills na, skillsPercent := skillsPercent na,
                  stats := stats na, statsPercent := statsPercent na, disableDefense := disableDefense na\<rparr>
       in if is_player cr then apply_attributes r c a' cr else Some (put r (c\<lparr>body := Attributes a'\<rparr>) cr)
     else Some cr)"

definition merge_damage :: "world \<Rightarrow> nat \<Rightarrow> condition \<Rightarrow> damage \<Rightarrow> condition \<Rightarrow> damage \<Rightarrow> creature \<Rightarrow> creature option" where
  "merge_damage w r c d new nd cr =
    (if conditionType new \<noteq> conditionType c \<or> \<not> damage_updateCondition c d new nd then Some cr
     else
       let c = setTicks (now w) (ticks new) c;
           nextTimeLeft = (case damageList d of [] \<Rightarrow> tickInterval nd | i # _ \<Rightarrow> timeLeft i);
           d' = d\<lparr>owner := owner nd, maxDamage := maxDamage nd, minDamage := minDamage nd, startDamage := startDamage nd,
                  tickInterval := tickInterval nd, periodDamage := periodDamage nd, damageList := damageList nd\<rparr>
       in case init (now w) (draw w) (c\<lparr>body := Damage d'\<rparr>) d' of
            None \<Rightarrow> None
          | Some (False, c') \<Rightarrow> Some (put r c' cr)
          | Some (True, c') \<Rightarrow>
              (case body c' of
                 Damage e \<Rightarrow>
                   let e = (case damageList e of [] \<Rightarrow> e | i # is \<Rightarrow> e\<lparr>damageList := i\<lparr>timeLeft := nextTimeLeft\<rparr> # is\<rparr>);
                       c'' = c'\<lparr>body := Damage e\<rparr> in
                   if delayed e then Some (put r c'' cr)
                   else (case getNextDamage c'' e of
                           None \<Rightarrow> Some (put r c'' cr)
                         | Some (v, c3) \<Rightarrow> Some (snd (doDamage w (conditionType c3) e v (put r c3 cr))))
               | _ \<Rightarrow> None))"

definition merge_speed :: "world \<Rightarrow> nat \<Rightarrow> condition \<Rightarrow> speed \<Rightarrow> condition \<Rightarrow> speed \<Rightarrow> creature \<Rightarrow> creature option" where
  "merge_speed w r c s new ns cr =
    (if conditionType c \<noteq> conditionType new \<or> (ticks c = -1 \<and> sint (ticks new) > 0) then Some cr
     else
       map_option
         (\<lambda>s'. let cr = put r ((setTicks (now w) (ticks new) c)\<lparr>body := Speed s'\<rparr>) cr;
                   newSpeedChange = speedDelta s' - speedDelta s in
               if newSpeedChange \<noteq> 0 then changeSpeed newSpeedChange cr else cr)
         (resolve_speed w cr ns))"

definition refresh :: "world \<Rightarrow> condition \<Rightarrow> condition \<Rightarrow> condition" where
  "refresh w new c = setTicks (now w) (ticks new) c"

definition merge_generic :: "world \<Rightarrow> nat \<Rightarrow> condition \<Rightarrow> condition \<Rightarrow> creature \<Rightarrow> creature option" where
  "merge_generic w r c new cr = Some (if updateCondition w c new then put r (refresh w new c) cr else cr)"

definition merge_regeneration ::
  "world \<Rightarrow> nat \<Rightarrow> condition \<Rightarrow> regeneration \<Rightarrow> condition \<Rightarrow> regeneration \<Rightarrow> creature \<Rightarrow> creature option" where
  "merge_regeneration w r c g new ng cr =
     Some (if updateCondition w c new then
       put r ((refresh w new c)\<lparr>body := Regeneration (g\<lparr>healthTicks := healthTicks ng, manaTicks := manaTicks ng,
         healthGain := healthGain ng, manaGain := manaGain ng\<rparr>)\<rparr>) cr else cr)"

definition merge_soul :: "world \<Rightarrow> nat \<Rightarrow> condition \<Rightarrow> soul \<Rightarrow> condition \<Rightarrow> soul \<Rightarrow> creature \<Rightarrow> creature option" where
  "merge_soul w r c s new ns cr =
     Some (if updateCondition w c new then
       put r ((refresh w new c)\<lparr>body := Soul (s\<lparr>soulTicks := soulTicks ns, soulGain := soulGain ns\<rparr>)\<rparr>) cr else cr)"

definition merge_outfit :: "world \<Rightarrow> nat \<Rightarrow> condition \<Rightarrow> condition \<Rightarrow> outfit \<Rightarrow> creature \<Rightarrow> creature option" where
  "merge_outfit w r c new no cr =
     Some (if updateCondition w c new then
       internalCreatureChangeOutfit w no (put r ((refresh w new c)\<lparr>body := Outfit no\<rparr>) cr) else cr)"

definition merge_light :: "world \<Rightarrow> nat \<Rightarrow> condition \<Rightarrow> light \<Rightarrow> condition \<Rightarrow> light \<Rightarrow> creature \<Rightarrow> creature option" where
  "merge_light w r c l new nl cr =
    (if updateCondition w c new then
       map_option (\<lambda>iv. setCreatureLight (lightInfo nl)
           (put r ((refresh w new c)\<lparr>body := Light (l\<lparr>lightInfo := lightInfo nl, internalLightTicks := 0,
              lightChangeInterval := iv\<rparr>)\<rparr>) cr))
         (light_interval (ticks new) (level (lightInfo nl)))
     else Some cr)"

definition merge_cooldown :: "world \<Rightarrow> nat \<Rightarrow> condition \<Rightarrow> condition \<Rightarrow> creature \<Rightarrow> creature option" where
  "merge_cooldown w r c new cr =
     Some (if updateCondition w c new then send_cooldown (refresh w new c) (put r (refresh w new c) cr) else cr)"

lemmas merge_defs = merge_generic_def merge_regeneration_def merge_soul_def merge_outfit_def merge_light_def merge_cooldown_def refresh_def

text \<open>\<open>addCondition\<close> of a condition is virtual: \<open>prevCond->addCondition(this, condition)\<close>, dispatched on the class of the
  object in the list. A cast of the new object to another class is undefined.\<close>

definition merge :: "world \<Rightarrow> nat \<Rightarrow> condition \<Rightarrow> creature \<Rightarrow> creature option" where
  "merge w r new cr =
    (case store cr r of
       None \<Rightarrow> None
     | Some c \<Rightarrow>
         (case (body c, body new) of
            (Attributes a, Attributes na) \<Rightarrow> merge_attributes w r c a new na cr
          | (Damage d, Damage nd) \<Rightarrow> merge_damage w r c d new nd cr
          | (Speed s, Speed ns) \<Rightarrow> merge_speed w r c s new ns cr
          | (Regeneration g, Regeneration ng) \<Rightarrow> merge_regeneration w r c g new ng cr
          | (Soul s, Soul ns) \<Rightarrow> merge_soul w r c s new ns cr
          | (Outfit _, Outfit no) \<Rightarrow> merge_outfit w r c new no cr
          | (Light l, Light nl) \<Rightarrow> merge_light w r c l new nl cr
          | (Generic, _) \<Rightarrow> merge_generic w r c new cr
          | (Invisible, _) \<Rightarrow> merge_generic w r c new cr
          | (SpellCooldown, _) \<Rightarrow> merge_cooldown w r c new cr
          | (SpellGroupCooldown, _) \<Rightarrow> merge_cooldown w r c new cr
          | _ \<Rightarrow> None))"

section \<open>The condition list of a creature\<close>

definition hasCondition :: "world \<Rightarrow> u32 \<Rightarrow> u32 \<Rightarrow> creature \<Rightarrow> bool" where
  "hasCondition w ty sid cr \<longleftrightarrow>
     \<not> isSuppress ty cr \<and>
     list_ex (\<lambda>r. case store cr r of
                None \<Rightarrow> False
              | Some c \<Rightarrow> conditionType c = ty \<and> subId c = sid \<and> (endTime c \<ge> now w \<or> ticks c = -1)) (conditions cr)"

definition getCondition :: "u32 \<Rightarrow> creature \<Rightarrow> nat option" where
  "getCondition ty cr = find (has_type ty cr) (conditions cr)"

definition has_key :: "u32 \<Rightarrow> u8 \<Rightarrow> u32 \<Rightarrow> creature \<Rightarrow> nat \<Rightarrow> bool" where
  "has_key ty i sid cr r \<longleftrightarrow>
     (case store cr r of None \<Rightarrow> False | Some c \<Rightarrow> conditionType c = ty \<and> cid c = i \<and> subId c = sid)"

definition getCondition_key :: "u32 \<Rightarrow> u8 \<Rightarrow> u32 \<Rightarrow> creature \<Rightarrow> nat option" where
  "getCondition_key ty i sid cr = find (has_key ty i sid cr) (conditions cr)"

definition updateIdleStatus :: "creature \<Rightarrow> creature" where
  "updateIdleStatus cr =
     emit (Update_Idle (\<not> has_targets cr \<and>
       \<not> list_ex (\<lambda>r. case store cr r of None \<Rightarrow> False | Some c \<Rightarrow> aggressive c) (conditions cr))) cr"

definition onEndCondition :: "u32 \<Rightarrow> creature \<Rightarrow> creature" where
  "onEndCondition ty cr =
    (case kind_of cr of
       Is_Npc \<Rightarrow> cr
     | Is_Player \<Rightarrow>
         emit SendIcons (if ty = CONDITION_INFIGHT then emit End_Fight (cr\<lparr>pzLocked := False\<rparr>) else cr)
     | Is_Monster \<Rightarrow>
         updateIdleStatus
          (if ty \<in> {CONDITION_FIRE, CONDITION_ENERGY, CONDITION_POISON}
           then emit Update_Map_Cache (cr\<lparr>ignoreFieldDamage := False\<rparr>) else cr))"

definition erase :: "nat \<Rightarrow> creature \<Rightarrow> creature" where
  "erase r cr = cr\<lparr>conditions := remove1 r (conditions cr)\<rparr>"

text \<open>The steps that every removal takes: erase, end, delete, notify. The notification does not read the object, so its
  order with the deletion, which differs between the callers, does not matter.\<close>

definition drop_condition :: "world \<Rightarrow> nat \<Rightarrow> condition \<Rightarrow> creature \<Rightarrow> creature" where
  "drop_condition w r c cr = onEndCondition (conditionType c) (free r (endCondition w c (erase r cr)))"

definition delayed_removal :: "world \<Rightarrow> bool \<Rightarrow> u32 \<Rightarrow> bool" where
  "delayed_removal w force ty \<longleftrightarrow> \<not> force \<and> ty = CONDITION_PARALYZE \<and> walk_delay w > 0"

fun remove_loop :: "world \<Rightarrow> (condition \<Rightarrow> bool) \<Rightarrow> u32 \<Rightarrow> bool \<Rightarrow> nat list \<Rightarrow> creature \<Rightarrow> creature option" where
  "remove_loop w P ty force [] cr = Some cr"
| "remove_loop w P ty force (r # rs) cr =
    (case store cr r of
       None \<Rightarrow> None
     | Some c \<Rightarrow>
         if \<not> (conditionType c = ty \<and> P c) then remove_loop w P ty force rs cr
         else if delayed_removal w force ty then Some (emit (Force_Remove (walk_delay w) ty) cr)
         else remove_loop w P ty force rs (drop_condition w r c cr))"

definition removeCondition :: "world \<Rightarrow> u32 \<Rightarrow> bool \<Rightarrow> creature \<Rightarrow> creature option" where
  "removeCondition w ty force cr = remove_loop w (\<lambda>_. True) ty force (conditions cr) cr"

definition removeCondition_id :: "world \<Rightarrow> u32 \<Rightarrow> u8 \<Rightarrow> bool \<Rightarrow> creature \<Rightarrow> creature option" where
  "removeCondition_id w ty i force cr = remove_loop w (\<lambda>c. cid c = i) ty force (conditions cr) cr"

definition removeCondition_ref :: "world \<Rightarrow> nat \<Rightarrow> bool \<Rightarrow> creature \<Rightarrow> creature option" where
  "removeCondition_ref w r force cr =
    (if r \<notin> set (conditions cr) then Some cr
     else case store cr r of
         None \<Rightarrow> None
       | Some c \<Rightarrow>
           if delayed_removal w force (conditionType c) then Some (emit (Force_Remove (walk_delay w) (conditionType c)) cr)
           else Some (drop_condition w r c cr))"

definition Creature_onAddCondition :: "world \<Rightarrow> u32 \<Rightarrow> creature \<Rightarrow> creature option" where
  "Creature_onAddCondition w ty cr =
    (if ty = CONDITION_PARALYZE \<and> hasCondition w CONDITION_HASTE 0 cr then removeCondition w CONDITION_HASTE False cr
     else if ty = CONDITION_HASTE \<and> hasCondition w CONDITION_PARALYZE 0 cr then removeCondition w CONDITION_PARALYZE False cr
     else Some cr)"

definition onAddCondition :: "world \<Rightarrow> u32 \<Rightarrow> creature \<Rightarrow> creature option" where
  "onAddCondition w ty cr =
    (case kind_of cr of
       Is_Npc \<Rightarrow> Creature_onAddCondition w ty cr
     | Is_Player \<Rightarrow>
         map_option (\<lambda>cr. emit SendIcons (if ty = CONDITION_OUTFIT \<and> mounted cr then emit Dismount cr else cr))
           (Creature_onAddCondition w ty cr)
     | Is_Monster \<Rightarrow>
         Some (updateIdleStatus
           (if ty \<in> {CONDITION_FIRE, CONDITION_ENERGY, CONDITION_POISON} then emit Update_Map_Cache cr else cr)))"

text \<open>\<open>Creature::addCondition\<close> of the object \<open>q\<close>, which the caller has allocated and hands over.\<close>

definition addCondition :: "world \<Rightarrow> nat \<Rightarrow> bool \<Rightarrow> creature \<Rightarrow> (bool \<times> creature) option" where
  "addCondition w q force cr =
    (case store cr q of
       None \<Rightarrow> None
     | Some new \<Rightarrow>
         if \<not> force \<and> conditionType new = CONDITION_HASTE \<and> hasCondition w CONDITION_PARALYZE 0 cr \<and> walk_delay w > 0
         then Some (False, emit (Force_Add (walk_delay w) q) cr)
         else case getCondition_key (conditionType new) (cid new) (subId new) cr of
             Some r \<Rightarrow> map_option (\<lambda>cr. (True, free q cr)) (merge w r new cr)
           | None \<Rightarrow>
               (case startCondition w q cr of
                  None \<Rightarrow> None
                | Some (False, cr) \<Rightarrow> Some (False, free q cr)
                | Some (True, cr) \<Rightarrow>
                    map_option (Pair True) (onAddCondition w (conditionType new) (cr\<lparr>conditions := conditions cr @ [q]\<rparr>))))"

definition combat_message :: "u32 \<Rightarrow> bool" where
  "combat_message ty \<longleftrightarrow>
     ty \<in> {CONDITION_POISON, CONDITION_DROWN, CONDITION_PARALYZE, CONDITION_DRUNK, CONDITION_CURSED, CONDITION_FREEZING,
       CONDITION_DAZZLED, CONDITION_BLEEDING}"

definition addCombatCondition :: "world \<Rightarrow> nat \<Rightarrow> creature \<Rightarrow> (bool \<times> creature) option" where
  "addCombatCondition w q cr =
    (case store cr q of
       None \<Rightarrow> None
     | Some new \<Rightarrow>
         map_option (\<lambda>(b, cr). (b, if b \<and> is_player cr \<and> combat_message (conditionType new)
                                  then emit (SendText (conditionType new)) cr else cr))
           (addCondition w q False cr))"

fun execute_loop :: "world \<Rightarrow> i32 \<Rightarrow> nat list \<Rightarrow> creature \<Rightarrow> creature option" where
  "execute_loop w elapsed [] cr = Some cr"
| "execute_loop w elapsed (r # rs) cr =
    (if r \<notin> set (conditions cr) then execute_loop w elapsed rs cr
     else case executeCondition w r elapsed cr of
         None \<Rightarrow> None
       | Some (True, cr) \<Rightarrow> execute_loop w elapsed rs cr
       | Some (False, cr) \<Rightarrow>
           if r \<notin> set (conditions cr) then execute_loop w elapsed rs cr
           else case store cr r of
               None \<Rightarrow> None
             | Some c \<Rightarrow> execute_loop w elapsed rs (drop_condition w r c cr))"

definition executeConditions :: "world \<Rightarrow> i32 \<Rightarrow> creature \<Rightarrow> creature option" where
  "executeConditions w elapsed cr = execute_loop w elapsed (conditions cr) cr"

text \<open>\<open>Player::getClientIcons\<close>; the client fails on ten or more icons, so the lowest ones are dropped.\<close>

definition popcount :: "u16 \<Rightarrow> nat" where "popcount icons = length (filter (bit icons) [0..<16])"

fun cap_icons :: "nat list \<Rightarrow> u16 \<Rightarrow> u16" where
  "cap_icons [] icons = icons"
| "cap_icons (pos # ps) icons =
    (if popcount icons < 10 then icons else cap_icons ps (if bit icons pos then unset_bit pos icons else icons))"

definition getClientIcons :: "bool \<Rightarrow> creature \<Rightarrow> u16" where
  "getClientIcons on_protection_tile cr =
    (let icons = foldl (\<lambda>icons r. case store cr r of
               None \<Rightarrow> icons
             | Some c \<Rightarrow> if isSuppress (conditionType c) cr then icons else icons OR ucast (getIcons c)) 0 (conditions cr);
         icons = (if pzLocked cr then icons OR 0x2000 else icons);
         icons = (if on_protection_tile then (icons OR 0x4000) AND NOT 0x80 else icons)
     in cap_icons [0..<20] icons)"

section \<open>Modifiers and their ledger\<close>

text \<open>The modifiers of a creature that conditions add to and take from, what a condition object contributes to each, and
  the ledger: the modifier less the contributions of all listed conditions. Arithmetic wraps, as the code's does, and
  the ledger is exact nevertheless.\<close>

datatype modifier = MSpeed | MSkill nat | MSpecial nat | MStat nat

fun amount_of :: "modifier \<Rightarrow> creature \<Rightarrow> i32" where
  "amount_of MSpeed cr = varSpeed cr"
| "amount_of (MSkill i) cr = varSkills cr ! i"
| "amount_of (MSpecial i) cr = varSpecialSkills cr ! i"
| "amount_of (MStat i) cr = varStats cr ! i"

definition contrib :: "modifier \<Rightarrow> condition \<Rightarrow> i32" where
  "contrib m c =
    (case (m, body c) of
       (MSpeed, Speed s) \<Rightarrow> speedDelta s
     | (MSkill i, Attributes a) \<Rightarrow> skills a ! i
     | (MSpecial i, Attributes a) \<Rightarrow> specialSkills a ! i
     | (MStat i, Attributes a) \<Rightarrow> stats a ! i
     | _ \<Rightarrow> 0)"

fun in_range :: "modifier \<Rightarrow> bool" where
  "in_range MSpeed = True"
| "in_range (MSkill i) = (i < 7)"
| "in_range (MSpecial i) = (i < 6)"
| "in_range (MStat i) = (i < 4)"

definition tracked :: "modifier \<Rightarrow> creature \<Rightarrow> bool" where
  "tracked m cr \<longleftrightarrow> in_range m \<and> (m = MSpeed \<or> is_player cr)"

definition owed :: "modifier \<Rightarrow> (nat \<Rightarrow> condition option) \<Rightarrow> nat \<Rightarrow> i32" where
  "owed m st r = (case st r of None \<Rightarrow> 0 | Some c \<Rightarrow> contrib m c)"

definition ledger :: "modifier \<Rightarrow> creature \<Rightarrow> i32" where
  "ledger m cr = amount_of m cr - sum_list (map (owed m (store cr)) (conditions cr))"

definition arrays :: "creature \<Rightarrow> bool" where
  "arrays cr \<longleftrightarrow> length (varSkills cr) = 7 \<and> length (varSpecialSkills cr) = 6 \<and> length (varStats cr) = 4"

definition well_formed :: "creature \<Rightarrow> bool" where
  "well_formed cr \<longleftrightarrow>
     arrays cr \<and> distinct (conditions cr) \<and>
     list_all (\<lambda>r. case store cr r of None \<Rightarrow> False | Some c \<Rightarrow> well_typed c) (conditions cr)"

text \<open>\<open>frame cr cr'\<close>: the same creature as far as conditions are concerned, modifiers apart.\<close>

definition frame :: "creature \<Rightarrow> creature \<Rightarrow> bool" where
  "frame cr cr' \<longleftrightarrow>
     kind_of cr' = kind_of cr \<and> conditions cr' = conditions cr \<and> store cr' = store cr \<and> (arrays cr \<longrightarrow> arrays cr')"

named_theorems frame_intros
named_theorems amount_simps

lemma frame_refl [frame_intros]: "frame cr cr" by (simp add: frame_def)

lemma frame_trans: "frame a b \<Longrightarrow> frame b c \<Longrightarrow> frame a c" by (simp add: frame_def)

lemma emit_frame [frame_intros]: "frame a b \<Longrightarrow> frame a (emit n b)"
  by (simp add: frame_def emit_def arrays_def)

lemma emit_amount [amount_simps]: "amount_of m (emit n cr) = amount_of m cr"
  by (cases m) (simp_all add: emit_def)

lemma amount_other [amount_simps]:
  "amount_of m (cr\<lparr>store := st\<rparr>) = amount_of m cr" "amount_of m (cr\<lparr>conditions := cs\<rparr>) = amount_of m cr"
  "amount_of m (cr\<lparr>health := h\<rparr>) = amount_of m cr" "amount_of m (cr\<lparr>mana := h\<rparr>) = amount_of m cr"
  "amount_of m (cr\<lparr>soulPoints := so\<rparr>) = amount_of m cr" "amount_of m (cr\<lparr>canUseDefense := b\<rparr>) = amount_of m cr"
  "amount_of m (cr\<lparr>internalLight := li\<rparr>) = amount_of m cr" "amount_of m (cr\<lparr>currentOutfit := o'\<rparr>) = amount_of m cr"
  "amount_of m (cr\<lparr>pzLocked := b\<rparr>) = amount_of m cr" "amount_of m (cr\<lparr>ignoreFieldDamage := b\<rparr>) = amount_of m cr"
  by (cases m; simp)+

lemma frame_other [frame_intros]:
  "frame a b \<Longrightarrow> frame a (b\<lparr>health := h\<rparr>)" "frame a b \<Longrightarrow> frame a (b\<lparr>mana := h\<rparr>)"
  "frame a b \<Longrightarrow> frame a (b\<lparr>soulPoints := so\<rparr>)" "frame a b \<Longrightarrow> frame a (b\<lparr>canUseDefense := x\<rparr>)"
  "frame a b \<Longrightarrow> frame a (b\<lparr>internalLight := li\<rparr>)" "frame a b \<Longrightarrow> frame a (b\<lparr>currentOutfit := o'\<rparr>)"
  "frame a b \<Longrightarrow> frame a (b\<lparr>pzLocked := x\<rparr>)" "frame a b \<Longrightarrow> frame a (b\<lparr>ignoreFieldDamage := x\<rparr>)"
  by (simp_all add: frame_def arrays_def)

lemma frame_if [frame_intros]: "(p \<Longrightarrow> frame a b) \<Longrightarrow> (\<not> p \<Longrightarrow> frame a c) \<Longrightarrow> frame a (if p then b else c)"
  by simp

lemma Creature_changeHealth_core:
  "frame a cr \<Longrightarrow> frame a (Creature_changeHealth v s cr)" "amount_of m (Creature_changeHealth v s cr) = amount_of m cr"
  by (auto simp: Creature_changeHealth_def Let_def amount_simps intro!: frame_intros)

lemma changeHealth_core:
  "frame a cr \<Longrightarrow> frame a (changeHealth v s cr)" "amount_of m (changeHealth v s cr) = amount_of m cr"
  by (auto simp: changeHealth_def Let_def amount_simps Creature_changeHealth_core intro!: frame_intros)

lemma changeMana_core: "frame a cr \<Longrightarrow> frame a (changeMana v cr)" "amount_of m (changeMana v cr) = amount_of m cr"
  by (auto simp: changeMana_def amount_simps intro!: frame_intros)

lemma changeSoul_core: "frame a cr \<Longrightarrow> frame a (changeSoul v cr)" "amount_of m (changeSoul v cr) = amount_of m cr"
  by (auto simp: changeSoul_def amount_simps intro!: frame_intros)

lemma outfit_core:
  "frame a cr \<Longrightarrow> frame a (internalCreatureChangeOutfit w o' cr)"
  "amount_of m (internalCreatureChangeOutfit w o' cr) = amount_of m cr"
  by (auto simp: internalCreatureChangeOutfit_def Let_def amount_simps intro!: frame_intros)

lemma light_core: "frame a cr \<Longrightarrow> frame a (setCreatureLight li cr)" "amount_of m (setCreatureLight li cr) = amount_of m cr"
  by (auto simp: setCreatureLight_def Let_def amount_simps intro!: frame_intros)

lemma cooldown_core: "frame a cr \<Longrightarrow> frame a (send_cooldown c cr)" "amount_of m (send_cooldown c cr) = amount_of m cr"
  by (auto simp: send_cooldown_def amount_simps intro!: frame_intros split: cond_body.splits)

lemma onEnd_core: "frame a cr \<Longrightarrow> frame a (onEndCondition ty cr)" "amount_of m (onEndCondition ty cr) = amount_of m cr"
  by (auto simp: onEndCondition_def updateIdleStatus_def amount_simps intro!: frame_intros split: creature_kind.splits)

lemmas core_frames [frame_intros] = Creature_changeHealth_core(1) changeHealth_core(1) changeMana_core(1) changeSoul_core(1)
  outfit_core(1) light_core(1) cooldown_core(1) onEnd_core(1)
lemmas core_amounts [amount_simps] = Creature_changeHealth_core(2) changeHealth_core(2) changeMana_core(2) changeSoul_core(2)
  outfit_core(2) light_core(2) cooldown_core(2) onEnd_core(2)

lemma setSpeed_core: "frame a cr \<Longrightarrow> frame a (setSpeed v cr)"
  "amount_of m (setSpeed v cr) = (if m = MSpeed then v else amount_of m cr)" "baseSpeed (setSpeed v cr) = baseSpeed cr"
  by (cases m; auto simp: setSpeed_def Let_def emit_def frame_def arrays_def)+

lemma changeSpeed_core:
  "frame a cr \<Longrightarrow> frame a (changeSpeed v cr)"
  "amount_of m (changeSpeed v cr) = amount_of m cr + (if m = MSpeed then v else 0)"
  by (auto simp: changeSpeed_def Let_def amount_simps setSpeed_core getSpeed_def intro!: frame_intros)

lemmas changeSpeed_frame [frame_intros] = changeSpeed_core(1)
lemmas changeSpeed_amount [amount_simps] = changeSpeed_core(2)

text \<open>The contract of the three setters of a player's modifiers, and the loops over them.\<close>

locale modifier_setter =
  fixes f :: "nat \<Rightarrow> i32 \<Rightarrow> creature \<Rightarrow> creature" and mk :: "nat \<Rightarrow> modifier" and n :: nat
  assumes f_frame: "frame a cr \<Longrightarrow> frame a (f i v cr)"
    and f_amount: "i < n \<Longrightarrow> arrays cr \<Longrightarrow> in_range m \<Longrightarrow> amount_of m (f i v cr) = amount_of m cr + (if m = mk i then v else 0)"
    and mk_inj: "mk i = mk j \<longleftrightarrow> i = j"
begin

lemma f_arrays: "arrays cr \<Longrightarrow> arrays (f i v cr)"
  using f_frame[OF frame_refl] by (simp add: frame_def)

lemma loop_frame: "frame a cr \<Longrightarrow> frame a (fold (\<lambda>i cr. if p i then f i (g i) cr else cr) is cr)"
  by (induction "is" arbitrary: cr) (simp_all add: f_frame)

lemma loop_amount:
  assumes "arrays cr" and "in_range m" and "distinct is" and "set is \<subseteq> {..<n}"
  shows "amount_of m (fold (\<lambda>i cr. if p i then f i (g i) cr else cr) is cr) =
    amount_of m cr + sum_list (map (\<lambda>i. if m = mk i \<and> p i then g i else 0) is)"
  using assms
proof (induction "is" arbitrary: cr)
  case (Cons i "is")
  then show ?case using f_arrays by (cases "p i") (simp_all add: f_amount)
qed simp

lemma pick_one:
  assumes "distinct is"
  shows "sum_list (map (\<lambda>i. if mk j = mk i \<and> p i then g i else 0) is) = (if j \<in> set is \<and> p j then g j else (0 :: i32))"
  using assms by (induction "is") (auto simp: mk_inj)

lemma loop_amount_mk:
  assumes "arrays cr" and "in_range (mk j)" and "j < n"
  shows "amount_of (mk j) (fold (\<lambda>i cr. if p i then f i (g i) cr else cr) [0..<n] cr) =
    amount_of (mk j) cr + (if p j then g j else 0)"
  using loop_amount[OF assms(1,2), of "[0..<n]" p g] pick_one[of "[0..<n]" j p g] assms(3) by (simp add: atLeast0LessThan)

lemma loop_amount_other:
  assumes "arrays cr" and "in_range m" and "\<forall>i. m \<noteq> mk i"
  shows "amount_of m (fold (\<lambda>i cr. if p i then f i (g i) cr else cr) [0..<n] cr) = amount_of m cr"
  using loop_amount[OF assms(1,2), of "[0..<n]" p g] assms(3) by (simp add: atLeast0LessThan)

end

interpretation sk: modifier_setter setVarSkill MSkill 7
proof unfold_locales
  fix i :: nat and v cr m
  assume "i < 7" "arrays cr" "in_range m"
  then show "amount_of m (setVarSkill i v cr) = amount_of m cr + (if m = MSkill i then v else 0)"
    by (cases m) (auto simp: setVarSkill_def arrays_def nth_list_update)
qed (auto simp: setVarSkill_def frame_def arrays_def)

interpretation sp: modifier_setter setVarSpecialSkill MSpecial 6
proof unfold_locales
  fix i :: nat and v cr m
  assume "i < 6" "arrays cr" "in_range m"
  then show "amount_of m (setVarSpecialSkill i v cr) = amount_of m cr + (if m = MSpecial i then v else 0)"
    by (cases m) (auto simp: setVarSpecialSkill_def arrays_def nth_list_update)
qed (auto simp: setVarSpecialSkill_def frame_def arrays_def)

lemma setVarStats_amount:
  "amount_of m (setVarStats i v cr) = amount_of m (cr\<lparr>varStats := (varStats cr)[i := varStats cr ! i + v]\<rparr>)"
  by (simp add: setVarStats_def Let_def core_amounts emit_amount)

interpretation ss: modifier_setter setVarStats MStat 4
proof unfold_locales
  fix i :: nat and v cr m
  assume "i < 4" "arrays cr" "in_range m"
  then show "amount_of m (setVarStats i v cr) = amount_of m cr + (if m = MStat i then v else 0)"
    using setVarStats_amount[of m i v cr] by (cases m) (auto simp: arrays_def nth_list_update)
next
  fix a cr v and i :: nat
  assume "frame a cr"
  then have "frame a (cr\<lparr>varStats := (varStats cr)[i := varStats cr ! i + v]\<rparr>)" by (simp add: frame_def arrays_def)
  then show "frame a (setVarStats i v cr)" by (auto simp: setVarStats_def Let_def intro!: frame_intros)
qed simp

declare amount_of.simps [simp del]

text \<open>Applying the modifiers of an attribute condition adds its contributions, ending it takes them away.\<close>

definition contrib_of :: "modifier \<Rightarrow> attributes \<Rightarrow> i32" where
  "contrib_of m a =
    (case m of MSpeed \<Rightarrow> 0 | MSkill i \<Rightarrow> skills a ! i | MSpecial i \<Rightarrow> specialSkills a ! i | MStat i \<Rightarrow> stats a ! i)"

lemma frame_arrays: "frame a b \<Longrightarrow> arrays a \<Longrightarrow> arrays b" by (simp add: frame_def)

lemma update_core:
  "frame a cr \<Longrightarrow> frame a (updateSkills b cr)" "frame a cr \<Longrightarrow> frame a (updateStats b cr)"
  by (auto simp: updateSkills_def updateStats_def add_each_def Let_def intro!: frame_intros sk.loop_frame sp.loop_frame
      ss.loop_frame)

lemma updateSkills_amount:
  assumes "arrays cr" and "in_range m"
  shows "amount_of m (updateSkills a cr) =
    amount_of m cr + (case m of MSkill i \<Rightarrow> skills a ! i | MSpecial i \<Rightarrow> specialSkills a ! i | _ \<Rightarrow> 0)"
proof -
  let ?cr = "add_each setVarSkill (skills a) [0..<7] cr"
  have ar: "arrays ?cr" using sk.loop_frame[OF frame_refl] assms(1) unfolding add_each_def by (rule frame_arrays)
  have 1: "amount_of m ?cr = amount_of m cr + (case m of MSkill i \<Rightarrow> skills a ! i | _ \<Rightarrow> 0)"
    using assms unfolding add_each_def by (cases m) (simp_all add: sk.loop_amount_mk sk.loop_amount_other)
  have "amount_of m (add_each setVarSpecialSkill (specialSkills a) [0..<6] ?cr) =
      amount_of m ?cr + (case m of MSpecial i \<Rightarrow> specialSkills a ! i | _ \<Rightarrow> 0)"
    using assms ar unfolding add_each_def[of setVarSpecialSkill]
    by (cases m) (simp_all add: sp.loop_amount_mk sp.loop_amount_other)
  with 1 show ?thesis by (cases m) (simp_all add: updateSkills_def Let_def emit_amount)
qed

lemma updateStats_amount:
  assumes "arrays cr" and "in_range m"
  shows "amount_of m (updateStats a cr) = amount_of m cr + (case m of MStat i \<Rightarrow> stats a ! i | _ \<Rightarrow> 0)"
  using assms unfolding updateStats_def add_each_def Let_def
  by (cases m) (simp_all add: ss.loop_amount_mk ss.loop_amount_other emit_amount)

lemma end_attributes_frame: "frame x cr \<Longrightarrow> frame x (end_attributes a cr)"
  unfolding end_attributes_def Let_def sub_each_def
  by (intro frame_intros sk.loop_frame sp.loop_frame ss.loop_frame)

lemma end_attributes_npc: "\<not> is_player cr \<Longrightarrow> amount_of m (end_attributes a cr) = amount_of m cr"
  by (simp add: end_attributes_def Let_def amount_simps)

lemma end_attributes_amount:
  assumes "is_player cr" and "arrays cr" and "in_range m"
  shows "amount_of m (end_attributes a cr) = amount_of m cr - contrib_of m a"
proof -
  let ?s1 = "sub_each setVarSkill (\<lambda>i. skills a ! i \<noteq> 0 \<or> skillsPercent a ! i \<noteq> 0) (skills a) [0..<7] cr"
  let ?s2 = "sub_each setVarSpecialSkill (\<lambda>i. specialSkills a ! i \<noteq> 0) (specialSkills a) [0..<6] ?s1"
  have f1: "frame cr ?s1" unfolding sub_each_def by (rule sk.loop_frame[OF frame_refl])
  then have f2: "frame cr ?s2" unfolding sub_each_def[of setVarSpecialSkill] by (rule sp.loop_frame)
  have 1: "amount_of m ?s1 = amount_of m cr - (case m of MSkill i \<Rightarrow> skills a ! i | _ \<Rightarrow> 0)"
    using assms unfolding sub_each_def by (cases m) (auto simp: sk.loop_amount_mk sk.loop_amount_other)
  have 2: "amount_of m ?s2 = amount_of m ?s1 - (case m of MSpecial i \<Rightarrow> specialSkills a ! i | _ \<Rightarrow> 0)"
    using assms frame_arrays[OF f1] unfolding sub_each_def[of setVarSpecialSkill]
    by (cases m) (auto simp: sp.loop_amount_mk sp.loop_amount_other)
  have 3: "amount_of m (sub_each setVarStats (\<lambda>i. stats a ! i \<noteq> 0) (stats a) [0..<4] x) =
      amount_of m x - (case m of MStat i \<Rightarrow> stats a ! i | _ \<Rightarrow> 0)" if "arrays x" for x
    using assms that unfolding sub_each_def by (cases m) (auto simp: ss.loop_amount_mk ss.loop_amount_other)
  have ar: "arrays ?s2" "arrays (emit SendSkills ?s2)"
    using frame_arrays[OF f2] frame_arrays[OF emit_frame[OF f2]] assms by auto
  show ?thesis
    using assms(1) 1 2 3[OF ar(1)] 3[OF ar(2)] unfolding end_attributes_def Let_def
    by (cases m) (simp_all add: amount_simps contrib_of_def)
qed

lemma contrib_attributes: "in_range m \<Longrightarrow> contrib m (c\<lparr>body := Attributes a\<rparr>) = contrib_of m a"
  by (cases m) (simp_all add: contrib_def contrib_of_def)

lemma apply_percent_none: "\<forall>i\<in>set is. percents ! i = 0 \<Longrightarrow> apply_percent base percents is vals = Some vals"
  by (induction "is") auto

definition no_percents :: "attributes \<Rightarrow> bool" where
  "no_percents a \<longleftrightarrow> skillsPercent a = replicate 7 0 \<and> statsPercent a = replicate 4 0"

text \<open>\<open>yields b Q x\<close>: a result of \<open>x\<close> has the property \<open>Q\<close>, and there is one if \<open>b\<close>.\<close>

definition yields :: "bool \<Rightarrow> ('a \<Rightarrow> bool) \<Rightarrow> 'a option \<Rightarrow> bool" where
  "yields b Q x \<longleftrightarrow> (case x of None \<Rightarrow> \<not> b | Some y \<Rightarrow> Q y)"

lemma yields_Some [simp]: "yields b Q (Some y) \<longleftrightarrow> Q y" "yields b Q None \<longleftrightarrow> \<not> b"
  by (simp_all add: yields_def)

lemma yields_mono: "yields b Q x \<Longrightarrow> (b' \<Longrightarrow> b) \<Longrightarrow> (\<And>y. x = Some y \<Longrightarrow> Q y \<Longrightarrow> Q' y) \<Longrightarrow> yields b' Q' x"
  by (cases x) auto

lemma yields_map: "yields b Q (map_option f x) \<longleftrightarrow> yields b (\<lambda>y. Q (f y)) x"
  by (cases x) simp_all

lemma yields_total: "\<exists>y. x = Some y \<and> Q y \<Longrightarrow> yields b Q x"
  by auto

lemma apply_percent_length: "apply_percent base percents is vals = Some v \<Longrightarrow> length v = length vals"
  by (induction base percents "is" vals rule: apply_percent.induct) (auto split: if_splits option.splits)

text \<open>The object is stored with the modifiers that were applied, percentages resolved.\<close>

definition applied :: "nat \<Rightarrow> condition \<Rightarrow> attributes \<Rightarrow> creature \<Rightarrow> creature \<Rightarrow> bool" where
  "applied r c a cr cr' \<longleftrightarrow>
     (\<exists>a'. frame (put r (c\<lparr>body := Attributes a'\<rparr>) cr) cr' \<and> (arrays_ok (Attributes a) \<longrightarrow> arrays_ok (Attributes a')) \<and>
        (\<forall>m. in_range m \<longrightarrow> amount_of m cr' = amount_of m cr + contrib_of m a'))"

lemma apply_attributes_result:
  assumes "arrays cr"
  shows "yields (no_percents a) (applied r c a cr) (apply_attributes r c a cr)"
proof -
  have p: "updatePercentSkills x a = Some a" "updatePercentStats x a = Some a" if "no_percents a" for x
    using that by (simp_all add: updatePercentSkills_def updatePercentStats_def apply_percent_none no_percents_def)
  have 1: "applied r c a cr cr'" if a1: "updatePercentSkills cr a = Some a1" and a2: "updatePercentStats (updateSkills a1 cr) a1 = Some a2"
      and cr': "cr' = updateStats a2 (put r (c\<lparr>body := Attributes a2\<rparr>) (updateSkills a1 cr))" for a1 a2 cr'
  proof -
    let ?c = "c\<lparr>body := Attributes a2\<rparr>"
    have f: "frame cr (updateSkills a1 cr)" by (rule update_core(1)[OF frame_refl])
    then have "frame (put r ?c cr) (put r ?c (updateSkills a1 cr))" by (simp add: frame_def put_def arrays_def)
    then have 1: "frame (put r ?c cr) cr'" unfolding cr' by (rule update_core(2))
    obtain v u where e: "a1 = a\<lparr>skills := v\<rparr>" "a2 = a1\<lparr>stats := u\<rparr>" "length v = length (skills a)" "length u = length (stats a)"
      using a1 a2 by (auto simp: updatePercentSkills_def updatePercentStats_def dest!: apply_percent_length)
    have "arrays (put r ?c (updateSkills a1 cr))" using frame_arrays[OF f assms] by (simp add: put_def arrays_def)
    then have "amount_of m cr' = amount_of m cr + contrib_of m a2" if "in_range m" for m
      using updateStats_amount[of "put r ?c (updateSkills a1 cr)" m a2] updateSkills_amount[OF assms that, of a1] that
      by (cases m) (simp_all add: cr' put_def contrib_of_def amount_simps e)
    then show ?thesis using 1 e by (auto simp: applied_def)
  qed
  show ?thesis
  proof (cases "updatePercentSkills cr a")
    case None
    then show ?thesis using p(1) by (auto simp: apply_attributes_def)
  next
    case (Some a1)
    show ?thesis
    proof (cases "updatePercentStats (updateSkills a1 cr) a1")
      case None
      then show ?thesis using p Some by (auto simp: apply_attributes_def Let_def)
    next
      case a2: (Some a2)
      then show ?thesis using Some 1[OF Some a2 refl] by (simp add: apply_attributes_def Let_def)
    qed
  qed
qed

section \<open>Steps that keep the ledger\<close>

text \<open>\<open>like c c'\<close>: the same object after a change that does not matter to others. \<open>keeps cr cr'\<close>: no object has been
  deleted or exchanged, the creature is still well formed, and every ledger is as before. The calls into the combat code
  are assumed to be of this kind.\<close>

definition like :: "condition \<Rightarrow> condition \<Rightarrow> bool" where
  "like c c' \<longleftrightarrow>
     conditionType c' = conditionType c \<and> cid c' = cid c \<and> subId c' = subId c \<and> class_of (body c') = class_of (body c) \<and>
     (arrays_ok (body c) \<longrightarrow> arrays_ok (body c')) \<and> (\<forall>m. contrib m c' = contrib m c)"

definition keeps :: "creature \<Rightarrow> creature \<Rightarrow> bool" where
  "keeps cr cr' \<longleftrightarrow>
     kind_of cr' = kind_of cr \<and> (well_formed cr \<longrightarrow> well_formed cr') \<and>
     (\<forall>r c. store cr r = Some c \<longrightarrow>
        (\<exists>c'. store cr' r = Some c' \<and> like c c') \<and> (r \<in> set (conditions cr') \<longrightarrow> r \<in> set (conditions cr))) \<and>
     (\<forall>m. well_formed cr \<longrightarrow> tracked m cr \<longrightarrow> ledger m cr' = ledger m cr)"

definition calm :: "world \<Rightarrow> bool" where
  "calm w \<longleftrightarrow>
     (\<forall>own v ty f cr. keeps cr (snd (combat w own v ty f cr)) \<and>
        (\<forall>r. r \<notin> set (conditions cr) \<longrightarrow> store (snd (combat w own v ty f cr)) r = store cr r))"

lemma like_refl [simp]: "like c c" by (simp add: like_def)

lemma like_trans: "like a b \<Longrightarrow> like b c \<Longrightarrow> like a c" by (simp add: like_def)

lemma like_well_typed: "like c c' \<Longrightarrow> well_typed c \<Longrightarrow> well_typed c'" by (simp add: like_def well_typed_def)

lemma tracked_kind: "kind_of cr' = kind_of cr \<Longrightarrow> tracked m cr' = tracked m cr" by (simp add: tracked_def)

lemma keeps_refl [simp]: "keeps cr cr" by (simp add: keeps_def)

lemma keeps_store: "keeps a b \<Longrightarrow> store a r = Some c \<Longrightarrow> \<exists>c'. store b r = Some c' \<and> like c c'"
  unfolding keeps_def by blast

lemma keeps_listed: "keeps a b \<Longrightarrow> store a r = Some c \<Longrightarrow> r \<in> set (conditions b) \<Longrightarrow> r \<in> set (conditions a)"
  unfolding keeps_def by blast

lemma keeps_trans: "keeps a b \<Longrightarrow> keeps b c \<Longrightarrow> keeps a c"
proof -
  assume ab: "keeps a b" and bc: "keeps b c"
  have "well_formed a \<longrightarrow> well_formed c" "kind_of c = kind_of a" using ab bc by (simp_all add: keeps_def)
  moreover have "(\<exists>c'. store c r = Some c' \<and> like x c') \<and> (r \<in> set (conditions c) \<longrightarrow> r \<in> set (conditions a))"
    if sx: "store a r = Some x" for r x
  proof -
    obtain y where y: "store b r = Some y" "like x y" using keeps_store[OF ab sx] by blast
    obtain z where z: "store c r = Some z" "like y z" using keeps_store[OF bc y(1)] by blast
    have "r \<in> set (conditions c) \<Longrightarrow> r \<in> set (conditions a)" using keeps_listed[OF bc y(1)] keeps_listed[OF ab sx] by blast
    then show ?thesis using z like_trans[OF y(2)] by blast
  qed
  moreover have "ledger m c = ledger m a" if "well_formed a" "tracked m a" for m
    using ab bc that tracked_kind[of b a m] by (simp add: keeps_def)
  ultimately show "keeps a c" by (simp add: keeps_def)
qed

lemma frame_well_formed: "frame a b \<Longrightarrow> well_formed a \<Longrightarrow> well_formed b"
  by (simp add: frame_def well_formed_def)

lemma frame_keeps: "frame a b \<Longrightarrow> (\<And>m. in_range m \<Longrightarrow> amount_of m b = amount_of m a) \<Longrightarrow> keeps a b"
  using frame_well_formed by (auto simp: keeps_def frame_def ledger_def tracked_def)

lemma put_keeps:
  assumes "store cr r = Some c" and "like c c'"
  shows "keeps cr (put r c' cr)"
proof -
  have o: "owed m (store (put r c' cr)) = owed m (store cr)" for m
    using assms by (auto simp: owed_def put_def like_def fun_eq_iff)
  have "well_formed cr \<Longrightarrow> well_formed (put r c' cr)"
    using assms like_well_typed by (auto simp: well_formed_def put_def arrays_def list_all_iff split: option.splits)
  then show ?thesis using assms o by (auto simp: keeps_def ledger_def put_def amount_simps)
qed

lemma sum_owed_cong: "(\<And>r. r \<in> set rs \<Longrightarrow> st r = st' r) \<Longrightarrow> sum_list (map (owed m st) rs) = sum_list (map (owed m st') rs)"
  by (induction rs) (auto simp: owed_def)

lemma put_unlisted:
  assumes "r \<notin> set (conditions cr)"
  shows "well_formed cr \<Longrightarrow> well_formed (put r c cr)" "ledger m (put r c cr) = ledger m cr"
proof -
  show "well_formed cr \<Longrightarrow> well_formed (put r c cr)" using assms by (auto simp: well_formed_def put_def arrays_def list_all_iff)
  have "sum_list (map (owed m (store (put r c cr))) (conditions cr)) = sum_list (map (owed m (store cr)) (conditions cr))"
    using assms by (intro sum_owed_cong) (auto simp: put_def)
  then show "ledger m (put r c cr) = ledger m cr" by (simp add: ledger_def put_def amount_simps)
qed

lemma doDamage_keeps: "calm w \<Longrightarrow> keeps cr (snd (doDamage w ty d v cr))"
  using frame_keeps[OF emit_frame[OF frame_refl[of cr]]] by (auto simp: doDamage_def Let_def calm_def emit_amount)

lemma doDamage_unlisted: "calm w \<Longrightarrow> r \<notin> set (conditions cr) \<Longrightarrow> store (snd (doDamage w ty d v cr)) r = store cr r"
  by (auto simp: doDamage_def Let_def calm_def emit_def)

text \<open>Execution of a listed object keeps everything and yields a result.\<close>

lemma like_same:
  "conditionType c' = conditionType c \<Longrightarrow> cid c' = cid c \<Longrightarrow> subId c' = subId c \<Longrightarrow> body c' = body c \<Longrightarrow> like c c'"
  by (simp add: like_def contrib_def)

lemma like_simps:
  "like c (c\<lparr>ticks := t\<rparr>)" "like c (c\<lparr>endTime := e\<rparr>)" "like c (setTicks now' t c)" "like c (base_start w c)"
  by (auto intro!: like_same simp: setTicks_def base_start_def)

lemma like_body:
  assumes "class_of b = class_of (body c)" and "class_of b \<notin> {CAttributes, CSpeed}"
  shows "like c (c\<lparr>body := b\<rparr>)"
  using assms by (cases b; cases "body c") (auto simp: like_def contrib_def split: modifier.splits)

lemma base_execute_total:
  assumes "store cr r = Some c"
  shows "\<exists>b cr'. base_execute w r t cr = Some (b, cr') \<and> keeps cr cr'"
  using assms put_keeps[OF assms like_simps(1)] by (auto simp: base_execute_def)

lemma base_execute_after:
  assumes "store cr r = Some c" and "keeps cr cr'"
  shows "\<exists>b cr''. base_execute w r t cr' = Some (b, cr'') \<and> keeps cr cr''"
  using keeps_store[OF assms(2,1)] base_execute_total[of cr' r] keeps_trans[OF assms(2)] by blast

lemma regenerate_keeps:
  assumes "store cr r = Some c" and "body c = Regeneration g"
  shows "keeps cr (regenerate w r c g t cr)"
proof -
  have p: "keeps cr (put r (c\<lparr>body := Regeneration g'\<rparr>) cr)" for g'
    using assms by (intro put_keeps[OF assms(1)] like_body) auto
  show ?thesis unfolding regenerate_def Let_def
    by (auto intro!: p keeps_trans[OF p] frame_keeps frame_intros simp: amount_simps)
qed

lemma tick_soul_keeps:
  assumes "store cr r = Some c" and "body c = Soul s"
  shows "keeps cr (tick_soul w r c s t cr)"
proof -
  have p: "keeps cr (put r (c\<lparr>body := Soul s'\<rparr>) cr)" for s'
    using assms by (intro put_keeps[OF assms(1)] like_body) auto
  show ?thesis unfolding tick_soul_def Let_def
    by (auto intro!: p keeps_trans[OF p] frame_keeps frame_intros simp: amount_simps)
qed

lemma tick_light_keeps:
  assumes "store cr r = Some c" and "body c = Light l"
  shows "keeps cr (tick_light r c l t cr)"
proof -
  have p: "keeps cr (put r (c\<lparr>body := Light l'\<rparr>) cr)" for l'
    using assms by (intro put_keeps[OF assms(1)] like_body) auto
  show ?thesis unfolding tick_light_def Let_def
    by (auto intro!: p keeps_trans[OF p] frame_keeps frame_intros simp: amount_simps)
qed

lemma later_endTime_keeps:
  "keeps cr (case store cr r of None \<Rightarrow> cr
     | Some c'' \<Rightarrow> if sint (ticks c'') > 0 then put r (c''\<lparr>endTime := endTime c'' + x\<rparr>) cr else cr)"
  by (auto split: option.splits intro: put_keeps like_simps)

lemma tick_damage_keeps:
  assumes "calm w" and "store cr r = Some c" and "body c = Damage d"
  shows "keeps cr (fst (tick_damage w r c d t cr))"
proof -
  have p: "keeps cr (put r (c\<lparr>body := Damage d'\<rparr>) cr)" for d'
    using assms by (intro put_keeps[OF assms(2)] like_body) auto
  note q = keeps_trans[OF p doDamage_keeps[OF assms(1)]]
  show ?thesis unfolding tick_damage_def Let_def
    by (auto simp: p q split: list.splits intro!: keeps_trans[OF p later_endTime_keeps] keeps_trans[OF q later_endTime_keeps])
qed

lemma executeCondition_total:
  assumes "calm w" and "store cr r = Some c"
  shows "\<exists>b cr'. executeCondition w r t cr = Some (b, cr') \<and> keeps cr cr'"
proof (cases "body c")
  case (Damage d)
  obtain x t' where td: "tick_damage w r c d t cr = (x, t')" by (cases "tick_damage w r c d t cr")
  then have "keeps cr x" using tick_damage_keeps[OF assms Damage, of t] by simp
  then show ?thesis using base_execute_after[OF assms(2)] Damage by (simp add: executeCondition_def assms(2) td)
qed (use base_execute_total[OF assms(2)] base_execute_after[OF assms(2) regenerate_keeps[OF assms(2)]]
      base_execute_after[OF assms(2) tick_soul_keeps[OF assms(2)]] base_execute_after[OF assms(2) tick_light_keeps[OF assms(2)]]
    in \<open>simp_all add: executeCondition_def assms(2)\<close>)

section \<open>Ending, merging and starting\<close>

definition settled :: "creature \<Rightarrow> creature \<Rightarrow> bool" where
  "settled cr cr' \<longleftrightarrow>
     kind_of cr' = kind_of cr \<and>
     (well_formed cr \<longrightarrow> well_formed cr' \<and> (\<forall>m. tracked m cr \<longrightarrow> ledger m cr' = ledger m cr))"

lemma settled_refl [simp]: "settled cr cr" by (simp add: settled_def)

lemma settled_trans: "settled a b \<Longrightarrow> settled b c \<Longrightarrow> settled a c"
  using tracked_kind[of b a] by (auto simp: settled_def)

lemma keeps_settled: "keeps a b \<Longrightarrow> settled a b"
  by (auto simp: keeps_def settled_def)

lemma frame_settled: "frame a b \<Longrightarrow> (\<And>m. in_range m \<Longrightarrow> amount_of m b = amount_of m a) \<Longrightarrow> settled a b"
  using frame_keeps keeps_settled by blast

lemma well_formed_store: "well_formed cr \<Longrightarrow> r \<in> set (conditions cr) \<Longrightarrow> \<exists>c. store cr r = Some c \<and> well_typed c"
  by (auto simp: well_formed_def list_all_iff split: option.splits)

lemma free_unlisted: "q \<notin> set (conditions cr) \<Longrightarrow> settled cr (free q cr)"
proof -
  assume q: "q \<notin> set (conditions cr)"
  have "well_formed cr \<Longrightarrow> well_formed (free q cr)" using q by (auto simp: well_formed_def free_def arrays_def list_all_iff)
  moreover have "ledger m (free q cr) = ledger m cr" for m
  proof -
    have "sum_list (map (owed m (store (free q cr))) (conditions cr)) = sum_list (map (owed m (store cr)) (conditions cr))"
      using q by (intro sum_owed_cong) (auto simp: free_def)
    then show ?thesis by (simp add: ledger_def free_def amount_simps)
  qed
  ultimately show ?thesis by (simp add: settled_def) (simp add: free_def)
qed

lemma endCondition_frame: "frame x cr \<Longrightarrow> frame x (endCondition w c cr)"
  by (auto simp: endCondition_def intro!: frame_intros end_attributes_frame split: cond_body.splits)

lemma endCondition_amount:
  assumes "arrays cr" and "tracked m cr"
  shows "amount_of m (endCondition w c cr) = amount_of m cr - contrib m c"
proof (cases "body c")
  case (Attributes a)
  have "contrib m c = contrib_of m a" using Attributes by (cases m) (auto simp: contrib_def contrib_of_def)
  then show ?thesis using Attributes assms end_attributes_amount[of cr m a] end_attributes_npc[of cr m a]
    by (cases "is_player cr") (auto simp: endCondition_def tracked_def contrib_of_def)
qed (cases m; auto simp: endCondition_def amount_simps contrib_def)+

lemma drop_condition_settled:
  assumes wf: "well_formed cr" and r: "r \<in> set (conditions cr)" and c: "store cr r = Some c"
  shows "settled cr (drop_condition w r c cr)" "conditions (drop_condition w r c cr) = remove1 r (conditions cr)"
    "store (drop_condition w r c cr) = (store cr)(r := None)"
proof -
  let ?e = "endCondition w c (erase r cr)" and ?d = "drop_condition w r c cr"
  have f: "frame (erase r cr) ?e" by (rule endCondition_frame[OF frame_refl])
  have "frame (free r ?e) ?d" unfolding drop_condition_def by (rule onEnd_core(1)[OF frame_refl])
  with f show cd: "conditions ?d = remove1 r (conditions cr)" and st: "store ?d = (store cr)(r := None)"
    by (simp_all add: frame_def free_def erase_def)
  have k: "kind_of ?d = kind_of cr" using f \<open>frame (free r ?e) ?d\<close> by (simp add: frame_def free_def erase_def)
  have ar: "arrays (erase r cr)" "arrays ?d"
    using wf f \<open>frame (free r ?e) ?d\<close> by (simp_all add: frame_def free_def erase_def well_formed_def arrays_def)
  have dist: "distinct (conditions cr)" using wf by (simp add: well_formed_def)
  then have out: "r \<notin> set (remove1 r (conditions cr))" by simp
  have "well_formed ?d"
    using wf ar(2) dist out by (auto simp: well_formed_def cd st list_all_iff set_remove1_eq split: option.splits)
  moreover have "ledger m ?d = ledger m cr" if "tracked m cr" for m
  proof -
    have "amount_of m ?d = amount_of m cr - contrib m c"
      using endCondition_amount[OF ar(1), of m w c] that
      by (simp add: drop_condition_def onEnd_core(2) free_def erase_def amount_simps tracked_def)
    moreover have "sum_list (map (owed m (store ?d)) (remove1 r (conditions cr))) =
        sum_list (map (owed m (store cr)) (remove1 r (conditions cr)))"
      using out by (intro sum_owed_cong) (auto simp: st)
    moreover have "sum_list (map (owed m (store cr)) (conditions cr)) =
        contrib m c + sum_list (map (owed m (store cr)) (remove1 r (conditions cr)))"
      using sum_list_map_remove1[OF r, of "owed m (store cr)"] by (simp add: owed_def[of m "store cr" r] c)
    ultimately show ?thesis by (simp add: ledger_def cd)
  qed
  ultimately show "settled cr ?d" using k by (simp add: settled_def)
qed

lemma remove_loop_total:
  assumes "well_formed cr" and "distinct rs" and "set rs \<subseteq> set (conditions cr)"
  shows "\<exists>cr'. remove_loop w P ty force rs cr = Some cr' \<and> settled cr cr'"
  using assms
proof (induction rs arbitrary: cr)
  case (Cons r rs)
  have r: "r \<in> set (conditions cr)" using Cons.prems by simp
  then obtain c where c: "store cr r = Some c" using well_formed_store[OF Cons.prems(1)] by blast
  note d = drop_condition_settled[OF Cons.prems(1) r c, of w]
  have "settled cr (emit n cr)" for n by (rule frame_settled[OF emit_frame[OF frame_refl] emit_amount])
  moreover have "\<exists>cr'. remove_loop w P ty force rs (drop_condition w r c cr) = Some cr' \<and> settled cr cr'"
  proof -
    have "well_formed (drop_condition w r c cr)" using d(1) Cons.prems(1) by (simp add: settled_def)
    moreover have "set rs \<subseteq> set (conditions (drop_condition w r c cr))"
      using Cons.prems d(2) by (auto simp: set_remove1_eq well_formed_def)
    ultimately show ?thesis using Cons.IH[of "drop_condition w r c cr"] Cons.prems(2) settled_trans[OF d(1)] by auto
  qed
  ultimately show ?case using Cons.IH[OF Cons.prems(1)] Cons.prems c by auto
qed simp

lemma removeCondition_total: "well_formed cr \<Longrightarrow> \<exists>cr'. removeCondition w ty force cr = Some cr' \<and> settled cr cr'"
  "well_formed cr \<Longrightarrow> \<exists>cr'. removeCondition_id w ty i force cr = Some cr' \<and> settled cr cr'"
  by (simp_all add: removeCondition_def removeCondition_id_def remove_loop_total well_formed_def)

lemma removeCondition_ref_total:
  assumes "well_formed cr"
  shows "\<exists>cr'. removeCondition_ref w r force cr = Some cr' \<and> settled cr cr'"
proof (cases "r \<in> set (conditions cr)")
  case True
  then obtain c where "store cr r = Some c" using well_formed_store[OF assms] by blast
  with drop_condition_settled[OF assms True this] frame_settled[OF emit_frame[OF frame_refl] emit_amount]
  show ?thesis by (auto simp: removeCondition_ref_def)
qed (simp add: removeCondition_ref_def)

lemma onAddCondition_total:
  assumes "well_formed cr"
  shows "\<exists>cr'. onAddCondition w ty cr = Some cr' \<and> settled cr cr'"
proof -
  have "\<exists>x. Creature_onAddCondition w ty cr = Some x \<and> settled cr x"
    using removeCondition_total(1)[OF assms] by (auto simp: Creature_onAddCondition_def)
  then obtain x where x: "Creature_onAddCondition w ty cr = Some x" "settled cr x" by blast
  have e: "settled a b \<Longrightarrow> settled a (emit n b)" for a b n
    using settled_trans[OF _ frame_settled[OF emit_frame[OF frame_refl] emit_amount]] .
  show ?thesis using x by (cases "kind_of cr") (auto simp: onAddCondition_def updateIdleStatus_def intro!: e)
qed

text \<open>\<open>ready c\<close>: an object that can surely be started or merged: its speed, its hits and its light are given, and no
  percentages have to be computed in floating point.\<close>

definition ready :: "condition \<Rightarrow> bool" where
  "ready c \<longleftrightarrow> well_typed c \<and>
    (case body c of
       Attributes a \<Rightarrow> no_percents a
     | Speed s \<Rightarrow> speedDelta s \<noteq> 0
     | Light l \<Rightarrow> level (lightInfo l) \<noteq> 0
     | Damage d \<Rightarrow> periodDamage d \<noteq> 0 \<or> damageList d \<noteq> []
     | _ \<Rightarrow> True)"

lemma owed_put:
  assumes "distinct (conditions cr)" and "r \<in> set (conditions cr)" and "store cr r = Some c"
  shows "sum_list (map (owed m ((store cr)(r \<mapsto> c'))) (conditions cr)) =
    sum_list (map (owed m (store cr)) (conditions cr)) - contrib m c + contrib m c'"
proof -
  have "sum_list (map (owed m ((store cr)(r \<mapsto> c'))) (remove1 r (conditions cr))) =
      sum_list (map (owed m (store cr)) (remove1 r (conditions cr)))"
    using assms(1) by (intro sum_owed_cong) auto
  then show ?thesis
    using sum_list_map_remove1[OF assms(2), of "owed m (store cr)"]
      sum_list_map_remove1[OF assms(2), of "owed m ((store cr)(r \<mapsto> c'))"] assms(3)
    by (simp add: owed_def[of m _ r])
qed

lemma replace_settled:
  assumes wf: "well_formed cr" and r: "r \<in> set (conditions cr)" and c: "store cr r = Some c" and c': "well_typed c'"
    and f: "frame (put r c' cr) cr'"
    and am: "\<And>m. tracked m cr \<Longrightarrow> amount_of m cr' = amount_of m cr - contrib m c + contrib m c'"
  shows "settled cr cr' \<and> conditions cr' = conditions cr"
proof -
  have s: "conditions cr' = conditions cr" "kind_of cr' = kind_of cr" "store cr' = (store cr)(r \<mapsto> c')" "arrays cr'"
    using f wf by (simp_all add: frame_def put_def well_formed_def arrays_def)
  have "well_formed cr'" using wf c' by (auto simp: well_formed_def s list_all_iff)
  moreover have "ledger m cr' = ledger m cr" if "tracked m cr" for m
    using am[OF that] owed_put[OF _ r c, of m c'] wf by (simp add: ledger_def s well_formed_def)
  ultimately show ?thesis using s by (simp add: settled_def)
qed

lemma merge_attributes_result:
  assumes wf: "well_formed cr" and r: "r \<in> set (conditions cr)" and c: "store cr r = Some c"
    and b: "body c = Attributes a" and na: "well_typed new" "body new = Attributes na" and ty: "conditionType new = conditionType c"
  shows "yields (ready new) (\<lambda>cr'. settled cr cr' \<and> conditions cr' = conditions cr) (merge_attributes w r c a new na cr)"
proof (cases "updateCondition w c new")
  case True
  let ?a = "a\<lparr>skills := skills na, specialSkills := specialSkills na, skillsPercent := skillsPercent na,
      stats := stats na, statsPercent := statsPercent na, disableDefense := disableDefense na\<rparr>"
  let ?c = "setTicks (now w) (ticks new) c" and ?e = "end_attributes a cr"
  have ok: "arrays_ok (Attributes ?a)" using na by (simp add: well_typed_def)
  have wt: "well_typed (?c\<lparr>body := Attributes x\<rparr>)" if "arrays_ok (Attributes x)" for x
    using well_formed_store[OF wf r] c that by (auto simp: well_typed_def setTicks_def b)
  have f: "frame cr ?e" by (rule end_attributes_frame[OF frame_refl])
  have k: "is_player ?e = is_player cr" and ar: "arrays cr" "arrays ?e" using f wf by (simp_all add: frame_def well_formed_def)
  have pf: "frame (put r x cr) y" if "frame (put r x ?e) y" for x y
    using that f by (simp add: frame_def put_def arrays_def)
  have contr: "contrib m c = contrib_of m a" "contrib m (?c\<lparr>body := Attributes x\<rparr>) = contrib_of m x" for m x
    by (cases m; simp add: contrib_def contrib_of_def b)+
  show ?thesis
  proof (cases "is_player cr")
    case player: True
    have np: "no_percents ?a" if "ready new" using na that by (simp add: ready_def no_percents_def)
    have "settled cr cr' \<and> conditions cr' = conditions cr" if ap: "applied r ?c ?a ?e cr'" for cr'
    proof -
      obtain x where x: "frame (put r (?c\<lparr>body := Attributes x\<rparr>) ?e) cr'" "arrays_ok (Attributes x)"
        "\<And>m. in_range m \<Longrightarrow> amount_of m cr' = amount_of m ?e + contrib_of m x" using ap ok unfolding applied_def by blast
      show ?thesis using x(3) end_attributes_amount[OF player ar(1), of _ a]
        by (intro replace_settled[OF wf r c wt[OF x(2)] pf[OF x(1)]]) (simp add: contr tracked_def)
    qed
    then have "yields (ready new) (\<lambda>cr'. settled cr cr' \<and> conditions cr' = conditions cr) (apply_attributes r ?c ?a ?e)"
      using np by (intro yields_mono[OF apply_attributes_result[OF ar(2)]]) auto
    then show ?thesis using True k player by (simp add: merge_attributes_def Let_def)
  next
    case False
    let ?cr' = "put r (?c\<lparr>body := Attributes ?a\<rparr>) ?e"
    have "settled cr ?cr' \<and> conditions ?cr' = conditions cr"
      using False end_attributes_npc[OF False, of _ a]
      by (intro replace_settled[OF wf r c wt[OF ok] pf[OF frame_refl]]) (auto simp: contr tracked_def put_def amount_simps contrib_of_def)
    then show ?thesis using True k False by (simp add: merge_attributes_def Let_def)
  qed
qed (simp add: merge_attributes_def)

lemma init_ready: "periodDamage d \<noteq> 0 \<or> damageList d \<noteq> [] \<Longrightarrow> init now' draw' c d = Some (True, c)"
  by (auto simp: init_def)

lemma getNextDamage_shape:
  "getNextDamage (c\<lparr>body := Damage e\<rparr>) e = Some (v, c') \<Longrightarrow> \<exists>e'. c' = c\<lparr>body := Damage e'\<rparr>"
  by (auto simp: getNextDamage_def split: if_splits list.splits)

text \<open>Filling the list of hits changes nothing that others see of the object.\<close>

lemma like_damage:
  "conditionType c' = conditionType c \<Longrightarrow> cid c' = cid c \<Longrightarrow> subId c' = subId c \<Longrightarrow> body c = Damage d \<Longrightarrow> body c' = Damage d' \<Longrightarrow>
   like c c'"
  by (auto simp: like_def contrib_def split: modifier.splits)

definition damage_like :: "condition \<Rightarrow> condition \<Rightarrow> bool" where
  "damage_like c c' \<longleftrightarrow> conditionType c' = conditionType c \<and> cid c' = cid c \<and> subId c' = subId c \<and>
     class_of (body c) = CDamage \<and> class_of (body c') = CDamage"

lemma damage_like_like: "damage_like c c' \<Longrightarrow> like c c'"
  unfolding damage_like_def by (cases "body c"; cases "body c'") (auto intro: like_damage)

lemma push_rounds_damage: "damage_like c c' \<Longrightarrow> damage_like c (push_rounds n t time v c')"
  by (induction n t time v c' rule: push_rounds.induct)
    (auto simp: damage_like_def push_interval_def setTicks_def Let_def split: cond_body.splits)

lemma init_damage:
  assumes "class_of (body c) = CDamage" and "init t draw' c d = Some (b, c')"
  shows "damage_like c c'"
proof -
  have hit: "damage_like x (push_hit t v y)" if "damage_like x y" for v x y
    using that push_rounds_damage[OF that, of 1 t] by (auto simp: push_hit_def addDamage_def Let_def split: cond_body.splits)
  have hits: "damage_like x (fold (push_hit t) hs y)" if "damage_like x y" for hs x y
    using that hit by (induction hs arbitrary: y) auto
  have start: "damage_like c ((setTicks t 0 c)\<lparr>body := Damage d'\<rparr>)" for d'
    using assms(1) by (simp add: damage_like_def setTicks_def)
  have "damage_like c c" "damage_like c (setTicks t 0 c)" using assms(1) by (simp_all add: damage_like_def setTicks_def)
  then show ?thesis using assms(2) hits[OF start]
    by (auto simp: init_def Let_def split: if_splits option.splits cond_body.splits)
qed

lemma merge_damage_result:
  assumes "calm w" and c: "store cr r = Some c" and b: "body c = Damage d" and nd: "body new = Damage nd"
  shows "yields (ready new) (keeps cr) (merge_damage w r c d new nd cr)"
proof (cases "conditionType new \<noteq> conditionType c \<or> \<not> damage_updateCondition c d new nd")
  case False
  let ?c = "setTicks (now w) (ticks new) c"
  let ?d = "d\<lparr>owner := owner nd, maxDamage := maxDamage nd, minDamage := minDamage nd, startDamage := startDamage nd,
      tickInterval := tickInterval nd, periodDamage := periodDamage nd, damageList := damageList nd\<rparr>"
  define nt where "nt = (case damageList d of [] \<Rightarrow> tickInterval nd | i # _ \<Rightarrow> timeLeft i)"
  have p: "keeps cr (put r x cr)" if "damage_like c x" for x using put_keeps[OF c damage_like_like[OF that]] .
  have first: "damage_like c (?c\<lparr>body := Damage ?d\<rparr>)" using b by (simp add: damage_like_def setTicks_def)
  note q = keeps_trans[OF p doDamage_keeps[OF assms(1)]]
  show ?thesis
  proof (cases "init (now w) (draw w) (?c\<lparr>body := Damage ?d\<rparr>) ?d")
    case None
    then have "\<not> (periodDamage ?d \<noteq> 0 \<or> damageList ?d \<noteq> [])" using init_ready[of ?d "now w" "draw w" "?c\<lparr>body := Damage ?d\<rparr>"] by fastforce
    then have "\<not> ready new" using nd by (simp add: ready_def)
    then show ?thesis by (cases "merge_damage w r c d new nd cr") (use False None in \<open>simp_all add: merge_damage_def Let_def nt_def\<close>)
  next
    case (Some x)
    obtain hit c' where x: "x = (hit, c')" by (cases x)
    have c': "damage_like c c'" using init_damage[OF _ Some[unfolded x]] first by (auto simp: damage_like_def)
    then obtain e where e: "body c' = Damage e" by (cases "body c'") (auto simp: damage_like_def)
    define e' where "e' = (case damageList e of [] \<Rightarrow> e | i # is \<Rightarrow> e\<lparr>damageList := i\<lparr>timeLeft := nt\<rparr> # is\<rparr>)"
    let ?e = "c'\<lparr>body := Damage e'\<rparr>"
    have m: "merge_damage w r c d new nd cr =
        (if \<not> hit then Some (put r c' cr)
         else if delayed e' then Some (put r ?e cr)
         else case getNextDamage ?e e' of
             None \<Rightarrow> Some (put r ?e cr)
           | Some (v, c3) \<Rightarrow> Some (snd (doDamage w (conditionType c3) e' v (put r c3 cr))))"
      unfolding merge_damage_def Let_def if_not_P[OF False] Some x e'_def nt_def
      by (cases hit) (simp_all add: e Let_def split: option.split)
    have le: "damage_like c (c'\<lparr>body := Damage z\<rparr>)" for z using c' by (simp add: damage_like_def)
    show ?thesis
    proof (cases "getNextDamage ?e e'")
      case (Some y)
      obtain v c3 where y: "y = (v, c3)" by (cases y)
      then obtain z where "c3 = c'\<lparr>body := Damage z\<rparr>" using getNextDamage_shape Some by blast
      then show ?thesis using m y Some p[OF c'] p[OF le] q[OF le] by simp
    qed (use m p[OF c'] p[OF le] in simp)
  qed
qed (simp add: merge_damage_def)

lemma merge_speed_result:
  assumes wf: "well_formed cr" and r: "r \<in> set (conditions cr)" and c: "store cr r = Some c" and b: "body c = Speed s"
    and ns: "body new = Speed ns"
  shows "yields (ready new) (\<lambda>cr'. settled cr cr' \<and> conditions cr' = conditions cr) (merge_speed w r c s new ns cr)"
proof (cases "conditionType c \<noteq> conditionType new \<or> (ticks c = -1 \<and> sint (ticks new) > 0)")
  case False
  define refreshed where "refreshed = (\<lambda>s'. put r ((setTicks (now w) (ticks new) c)\<lparr>body := Speed s'\<rparr>) cr)"
  define changed where "changed = (\<lambda>s'. if speedDelta s' - speedDelta s \<noteq> 0 then changeSpeed (speedDelta s' - speedDelta s) (refreshed s') else refreshed s')"
  have sp: "settled cr (changed s') \<and> conditions (changed s') = conditions cr" for s'
  proof -
    let ?c = "(setTicks (now w) (ticks new) c)\<lparr>body := Speed s'\<rparr>"
    have "well_typed ?c" using well_formed_store[OF wf r] c b by (auto simp: well_typed_def setTicks_def)
    moreover have "frame (put r ?c cr) (changed s')" unfolding changed_def refreshed_def by (auto intro!: frame_intros)
    moreover have "amount_of m (changed s') = amount_of m cr - contrib m c + contrib m ?c" for m
      unfolding changed_def refreshed_def by (cases m) (auto simp: changeSpeed_core(2) put_def amount_simps contrib_def b)
    ultimately show ?thesis by (intro replace_settled[OF wf r c])
  qed
  have m: "merge_speed w r c s new ns cr = map_option changed (resolve_speed w cr ns)"
    unfolding merge_speed_def if_not_P[OF False] Let_def changed_def refreshed_def ..
  have "resolve_speed w cr ns \<noteq> None" if "ready new" using ns that by (simp add: resolve_speed_def ready_def)
  then show ?thesis unfolding m yields_map using sp by (cases "resolve_speed w cr ns") auto
qed (simp add: merge_speed_def)

lemma same_type_same_class:
  "well_typed c \<Longrightarrow> well_typed c' \<Longrightarrow> conditionType c = conditionType c' \<Longrightarrow> class_of (body c) = class_of (body c')"
  by (auto simp: well_typed_def)

lemma put_frame_keeps:
  assumes "store cr r = Some c" and "like c c'" and "frame (put r c' cr) cr'"
    and "\<And>m. in_range m \<Longrightarrow> amount_of m cr' = amount_of m (put r c' cr)"
  shows "keeps cr cr'"
  using keeps_trans[OF put_keeps[OF assms(1,2)] frame_keeps[OF assms(3,4)]] .

lemma merge_plain_keeps:
  assumes c: "store cr r = Some c" and cl: "class_of b = class_of (body c)" "class_of b \<notin> {CAttributes, CSpeed}"
    and "\<And>m. in_range m \<Longrightarrow> amount_of m cr' = amount_of m (put r ((setTicks t tk c)\<lparr>body := b\<rparr>) cr)"
    and "frame (put r ((setTicks t tk c)\<lparr>body := b\<rparr>) cr) cr'"
  shows "keeps cr cr'"
  by (rule put_frame_keeps[OF c like_trans[OF like_simps(3) like_body] assms(5) assms(4)])
    (use cl in \<open>auto simp: setTicks_def\<close>)

lemma merge_result:
  assumes "calm w" and wf: "well_formed cr" and r: "r \<in> set (conditions cr)" and c: "store cr r = Some c"
    and new: "well_typed new" "conditionType new = conditionType c"
  shows "yields (ready new) (\<lambda>cr'. settled cr cr' \<and>
    (\<forall>q n. store cr q = Some n \<longrightarrow> q \<in> set (conditions cr') \<longrightarrow> q \<in> set (conditions cr))) (merge w r new cr)"
proof -
  have cls: "class_of (body new) = class_of (body c)"
    using same_type_same_class[of new c] well_formed_store[OF wf r] c new by auto
  have K: ?thesis if "yields (ready new) (keeps cr) (merge w r new cr)"
    by (rule yields_mono[OF that]) (use keeps_settled keeps_listed in blast)+
  have S: ?thesis if "yields (ready new) (\<lambda>cr'. settled cr cr' \<and> conditions cr' = conditions cr) (merge w r new cr)"
    by (rule yields_mono[OF that]) auto
  have P: "keeps cr (put r ((setTicks t tk c)\<lparr>body := b\<rparr>) cr)"
    if "class_of b = class_of (body c)" "class_of b \<notin> {CAttributes, CSpeed}" for b t tk
    using that by (intro merge_plain_keeps[OF c _ _ _ frame_refl]) auto
  have P0: "keeps cr (put r (setTicks t tk c) cr)" for t tk by (rule put_keeps[OF c like_simps(3)])
  show ?thesis
  proof (cases "body c")
    case (Attributes a)
    with cls obtain na where "body new = Attributes na" by (cases "body new") auto
    with merge_attributes_result[OF wf r c Attributes new(1) this new(2)] Attributes show ?thesis
      by (intro S) (simp add: merge_def merge_defs c)
  next
    case (Damage d)
    with cls obtain nd where "body new = Damage nd" by (cases "body new") auto
    with merge_damage_result[OF assms(1) c Damage this] Damage show ?thesis by (intro K) (simp add: merge_def merge_defs c)
  next
    case (Speed s)
    with cls obtain ns where "body new = Speed ns" by (cases "body new") auto
    with merge_speed_result[OF wf r c Speed this] Speed show ?thesis by (intro S) (simp add: merge_def merge_defs c)
  next
    case (Outfit o')
    with cls obtain no where "body new = Outfit no" by (cases "body new") auto
    with Outfit show ?thesis
      by (intro K) (auto simp: merge_def merge_defs c outfit_core(2) intro!: merge_plain_keeps[OF c, of "Outfit no"] outfit_core(1) frame_refl)
  next
    case (Light l)
    with cls obtain nl where nl: "body new = Light nl" by (cases "body new") auto
    have lit: "keeps cr (setCreatureLight (lightInfo nl) (put r ((setTicks (now w) (ticks new) c)
        \<lparr>body := Light (l\<lparr>lightInfo := lightInfo nl, internalLightTicks := 0, lightChangeInterval := iv\<rparr>)\<rparr>) cr))" for iv
      using Light by (intro merge_plain_keeps[OF c, where b = "Light (l\<lparr>lightInfo := lightInfo nl, internalLightTicks := 0, lightChangeInterval := iv\<rparr>)"])
        (auto simp: light_core(2) intro!: light_core(1) frame_refl)
    have "ready new \<Longrightarrow> light_interval (ticks new) (level (lightInfo nl)) \<noteq> None" using nl by (simp add: light_interval_def ready_def)
    with nl Light lit show ?thesis
      by (intro K) (cases "light_interval (ticks new) (level (lightInfo nl))"; auto simp: merge_def merge_defs c Let_def)
  next
    case (Regeneration g)
    with cls obtain ng where "body new = Regeneration ng" by (cases "body new") auto
    with Regeneration show ?thesis by (intro K) (auto simp: merge_def merge_defs c intro!: P)
  next
    case (Soul s)
    with cls obtain ns where "body new = Soul ns" by (cases "body new") auto
    with Soul show ?thesis by (intro K) (auto simp: merge_def merge_defs c intro!: P)
  qed (use P0 keeps_trans[OF P0 frame_keeps[OF cooldown_core(1)[OF frame_refl] cooldown_core(2)]] in
      \<open>intro K; auto simp: merge_def merge_defs c Let_def\<close>)+
qed

text \<open>Starting an object that is not listed yet adds its contributions.\<close>

definition started :: "creature \<Rightarrow> nat \<Rightarrow> creature \<Rightarrow> bool" where
  "started cr q cr' \<longleftrightarrow>
     kind_of cr' = kind_of cr \<and> well_formed cr' \<and> q \<notin> set (conditions cr') \<and>
     (\<exists>c'. store cr' q = Some c' \<and> well_typed c' \<and> (\<forall>m. tracked m cr \<longrightarrow> ledger m cr' = ledger m cr + contrib m c'))"

lemma started_by_frame:
  assumes wf: "well_formed cr" and q: "q \<notin> set (conditions cr)" and c': "well_typed c'"
    and f: "frame (put q c' cr) cr'" and am: "\<And>m. tracked m cr \<Longrightarrow> amount_of m cr' = amount_of m cr + contrib m c'"
  shows "started cr q cr'"
proof -
  have s: "conditions cr' = conditions cr" "kind_of cr' = kind_of cr" "store cr' = store (put q c' cr)"
    using f by (simp_all add: frame_def put_def)
  have "well_formed cr'" by (rule frame_well_formed[OF f put_unlisted(1)[OF q wf]])
  moreover have "ledger m cr' = ledger m cr + contrib m c'" if "tracked m cr" for m
    using put_unlisted(2)[OF q, of m c'] am[OF that] by (simp add: ledger_def s put_def amount_simps)
  ultimately show ?thesis using s q c' by (auto simp: started_def put_def)
qed

lemma started_keeps:
  assumes "well_formed cr" and "q \<notin> set (conditions cr)" and c: "well_typed c'" "class_of (body c') = CDamage"
    and k: "keeps (put q c cr) cr'" and s: "store cr' q = Some c'"
  shows "started cr q cr'"
proof -
  have z: "contrib m c' = 0" for m using c(2) by (cases "body c'"; cases m) (simp_all add: contrib_def)
  have p: "well_formed (put q c cr)" by (rule put_unlisted(1)[OF assms(2,1)])
  have "kind_of (put q c cr) = kind_of cr" by (simp add: put_def)
  moreover have "q \<notin> set (conditions cr')"
    using keeps_listed[OF k, of q] assms(2) by (auto simp: put_def)
  ultimately show ?thesis
    using k p s c z put_unlisted(2)[OF assms(2)] tracked_kind[of "put q c cr" cr] by (simp add: started_def keeps_def)
qed

lemma contrib_plain: "class_of (body c) \<notin> {CAttributes, CSpeed} \<Longrightarrow> contrib m c = 0"
  by (cases "body c"; cases m) (simp_all add: contrib_def)

lemma put_settled: "q \<notin> set (conditions cr) \<Longrightarrow> settled cr (put q c cr)"
  using put_unlisted[of q cr] by (simp add: settled_def) (simp add: put_def)

lemma list_started:
  assumes "started cr q x"
  shows "settled cr (x\<lparr>conditions := conditions x @ [q]\<rparr>) \<and> well_formed (x\<lparr>conditions := conditions x @ [q]\<rparr>)"
proof -
  obtain c where x: "kind_of x = kind_of cr" "well_formed x" "q \<notin> set (conditions x)" "store x q = Some c" "well_typed c"
    and l: "\<And>m. tracked m cr \<Longrightarrow> ledger m x = ledger m cr + contrib m c" using assms by (auto simp: started_def)
  have "ledger m (x\<lparr>conditions := conditions x @ [q]\<rparr>) = ledger m cr" if "tracked m cr" for m
    using l[OF that] x(4) by (simp add: ledger_def amount_simps owed_def[of m _ q]) (simp add: algebra_simps)
  moreover have "well_formed (x\<lparr>conditions := conditions x @ [q]\<rparr>)"
    using x by (auto simp: well_formed_def arrays_def list_all_iff)
  ultimately show ?thesis using x(1) by (simp add: settled_def)
qed

text \<open>An object that starts is ready to be listed, and one that does not start has left no trace.\<close>

definition start_ok :: "creature \<Rightarrow> nat \<Rightarrow> bool \<times> creature \<Rightarrow> bool" where
  "start_ok cr q res \<longleftrightarrow> started cr q (snd res) \<and> (fst res \<or> settled cr (snd res))"

lemma start_attributes_result:
  assumes wf: "well_formed cr" and q: "q \<notin> set (conditions cr)" and wt: "well_typed c" and b: "body c = Attributes a"
  shows "yields (ready c) (start_ok cr q) (let x = (put q c cr)\<lparr>canUseDefense := \<not> disableDefense a\<rparr> in
      if is_player x then map_option (Pair True) (apply_attributes q c a x) else Some (True, x))"
proof -
  let ?x = "(put q c cr)\<lparr>canUseDefense := \<not> disableDefense a\<rparr>"
  have contr: "contrib m (c\<lparr>body := Attributes y\<rparr>) = contrib_of m y" for m y by (cases m) (simp_all add: contrib_def contrib_of_def)
  have cb: "c\<lparr>body := Attributes a\<rparr> = c" using b by simp
  have fx: "frame (put q c cr) ?x" by (intro frame_intros)
  have k: "is_player ?x = is_player cr" by (simp add: put_def)
  show ?thesis
  proof (cases "is_player cr")
    case True
    have ar: "arrays ?x" using wf by (simp add: well_formed_def put_def arrays_def)
    have "start_ok cr q (True, cr')" if ap: "applied q c a ?x cr'" for cr'
    proof -
      obtain y where y: "frame (put q (c\<lparr>body := Attributes y\<rparr>) ?x) cr'" "arrays_ok (Attributes y)"
        "\<And>m. in_range m \<Longrightarrow> amount_of m cr' = amount_of m ?x + contrib_of m y" using ap wt b unfolding applied_def well_typed_def by auto
      have "frame (put q (c\<lparr>body := Attributes y\<rparr>) cr) cr'" using y(1) by (simp add: frame_def put_def arrays_def)
      moreover have "well_typed (c\<lparr>body := Attributes y\<rparr>)" using wt y(2) b by (simp add: well_typed_def)
      ultimately have "started cr q cr'"
        using y(3) contr[of _ y] by (intro started_by_frame[OF wf q]) (auto simp: put_def amount_simps tracked_def)
      then show ?thesis by (simp add: start_ok_def)
    qed
    then have "yields (ready c) (start_ok cr q) (map_option (Pair True) (apply_attributes q c a ?x))" unfolding yields_map
      by (intro yields_mono[OF apply_attributes_result[OF ar]]) (auto simp: ready_def b)
    then show ?thesis using True k by (simp add: Let_def)
  next
    case False
    have "started cr q ?x"
      using False contr[of _ a] by (intro started_by_frame[OF wf q wt fx]) (auto simp: put_def amount_simps cb tracked_def contrib_of_def)
    then show ?thesis using False k by (simp add: Let_def start_ok_def)
  qed
qed

lemma start_damage_result:
  assumes "calm w" and wf: "well_formed cr" and q: "q \<notin> set (conditions cr)" and wt: "well_typed c" and b: "body c = Damage d"
  shows "yields (ready c) (start_ok cr q) (if delayed d then init_object w q (put q c cr)
      else let (hit, x) = doDamage w (conditionType c) d (initDamage d) (put q c cr) in
        if hit then init_object w q x else Some (False, x))"
proof -
  have S: "start_ok cr q (h, x)" if k: "keeps (put q c cr) x" and s: "store x q = Some c'" "damage_like c c'" for x c' h
  proof -
    have "well_typed c'" "class_of (body c') = CDamage" using like_well_typed[OF damage_like_like[OF s(2)] wt] s(2) by (simp_all add: damage_like_def)
    then have "started cr q x" by (rule started_keeps[OF wf q _ _ k s(1)])
    moreover have "settled cr x" using settled_trans[OF put_settled[OF q] keeps_settled[OF k]] .
    ultimately show ?thesis by (simp add: start_ok_def)
  qed
  have dc: "damage_like c c" using b by (simp add: damage_like_def)
  have I: "yields (ready c) (start_ok cr q) (init_object w q x)" if k: "keeps (put q c cr) x" and s: "store x q = Some c" for x
  proof (cases "init (now w) (draw w) c d")
    case None
    then have "\<not> ready c" using init_ready[of d "now w" "draw w" c] b by (auto simp: ready_def)
    then show ?thesis using None s b by (simp add: init_object_def)
  next
    case (Some y)
    obtain h c' where y: "y = (h, c')" by (cases y)
    have "damage_like c c'" using init_damage[OF _ Some[unfolded y]] b by simp
    then have "start_ok cr q (h, put q c' x)"
      using S[OF keeps_trans[OF k put_keeps[OF s damage_like_like]], of c' c' h] by (simp add: put_def)
    then show ?thesis using Some y s b by (simp add: init_object_def)
  qed
  obtain hit x where dd: "doDamage w (conditionType c) d (initDamage d) (put q c cr) = (hit, x)"
    by (cases "doDamage w (conditionType c) d (initDamage d) (put q c cr)")
  have kx: "keeps (put q c cr) x" using doDamage_keeps[OF assms(1), of "put q c cr"] dd by (metis snd_conv)
  have sx: "store x q = Some c"
    using doDamage_unlisted[OF assms(1), of q "put q c cr" "conditionType c" d "initDamage d"] q dd by (simp add: put_def)
  have p: "store (put q c cr) q = Some c" by (simp add: put_def)
  show ?thesis using I[OF kx sx] I[OF keeps_refl p] S[OF kx sx dc, of False] by (simp add: dd)
qed

lemma startCondition_result:
  assumes "calm w" and wf: "well_formed cr" and q: "q \<notin> set (conditions cr)" and c: "store cr q = Some c0" and wt0: "well_typed c0"
  shows "yields (ready c0) (start_ok cr q) (startCondition w q cr)"
proof -
  define c where "c = base_start w c0"
  have b: "body c = body c0" and wt: "well_typed c" and rc: "ready c \<longleftrightarrow> ready c0"
    using wt0 by (auto simp: c_def base_start_def ready_def well_typed_def)
  have plain: ?thesis
    if "class_of (body c) \<notin> {CAttributes, CSpeed}" and st: "startCondition w q cr = Some (True, x)"
      and "frame (put q c cr) x" and "\<And>m. amount_of m x = amount_of m (put q c cr)" for x
  proof -
    have "contrib m c = 0" for m by (rule contrib_plain[OF that(1)])
    then have "started cr q x" using that(3,4) by (intro started_by_frame[OF wf q wt]) (auto simp: put_def amount_simps)
    with st show ?thesis by (simp add: start_ok_def)
  qed
  show ?thesis
  proof (cases "body c")
    case (Attributes a)
    then have "startCondition w q cr = (let x = (put q c cr)\<lparr>canUseDefense := \<not> disableDefense a\<rparr> in
        if is_player x then map_option (Pair True) (apply_attributes q c a x) else Some (True, x))"
      by (simp add: startCondition_def c Let_def c_def[symmetric])
    then show ?thesis using start_attributes_result[OF wf q wt Attributes] rc by simp
  next
    case (Speed s)
    define set_speed where "set_speed = (\<lambda>s'. changeSpeed (speedDelta s') (put q (c\<lparr>body := Speed s'\<rparr>) (put q c cr)))"
    have st: "started cr q (set_speed s')" for s'
      using wt Speed unfolding set_speed_def
      by (intro started_by_frame[OF wf q, of "c\<lparr>body := Speed s'\<rparr>"])
        (auto simp: changeSpeed_core(2) put_def amount_simps contrib_def well_typed_def frame_refl
          intro!: changeSpeed_core(1) split: modifier.splits)
    have e: "startCondition w q cr = map_option (\<lambda>s'. (True, set_speed s')) (resolve_speed w (put q c cr) s)"
      using Speed by (simp add: startCondition_def c Let_def c_def[symmetric] set_speed_def)
    have "ready c0 \<Longrightarrow> resolve_speed w (put q c cr) s \<noteq> None" using Speed b by (simp add: resolve_speed_def ready_def)
    then show ?thesis unfolding e yields_map using st by (cases "resolve_speed w (put q c cr) s") (auto simp: start_ok_def)
  next
    case (Damage d)
    then have e: "startCondition w q cr = (if delayed d then init_object w q (put q c cr)
        else let (hit, x) = doDamage w (conditionType c) d (initDamage d) (put q c cr) in
          if hit then init_object w q x else Some (False, x))"
      by (simp add: startCondition_def c Let_def c_def[symmetric])
    show ?thesis unfolding e using start_damage_result[OF assms(1) wf q wt Damage] rc by simp
  next
    case (Light l)
    define lit where "lit = (\<lambda>iv. setCreatureLight (lightInfo l)
        (put q (c\<lparr>body := Light (l\<lparr>internalLightTicks := 0, lightChangeInterval := iv\<rparr>)\<rparr>) (put q c cr)))"
    have st: "started cr q (lit iv)" for iv
      using wt Light unfolding lit_def
      by (intro started_by_frame[OF wf q, of "c\<lparr>body := Light (l\<lparr>internalLightTicks := 0, lightChangeInterval := iv\<rparr>)\<rparr>"])
        (auto simp: light_core(2) put_def amount_simps contrib_def well_typed_def frame_refl
          intro!: light_core(1) split: modifier.splits)
    have e: "startCondition w q cr = map_option (\<lambda>iv. (True, lit iv)) (light_interval (ticks c) (level (lightInfo l)))"
      using Light by (simp add: startCondition_def c Let_def c_def[symmetric] lit_def)
    have "ready c0 \<Longrightarrow> light_interval (ticks c) (level (lightInfo l)) \<noteq> None" using Light b by (simp add: light_interval_def ready_def)
    then show ?thesis unfolding e yields_map using st by (cases "light_interval (ticks c) (level (lightInfo l))") (auto simp: start_ok_def)
  next
    case Generic
    then show ?thesis by (intro plain[of "put q c cr"]) (auto simp: startCondition_def c Let_def c_def[symmetric] frame_refl)
  next
    case (Regeneration g)
    then show ?thesis by (intro plain[of "put q c cr"]) (auto simp: startCondition_def c Let_def c_def[symmetric] frame_refl)
  next
    case (Soul s)
    then show ?thesis by (intro plain[of "put q c cr"]) (auto simp: startCondition_def c Let_def c_def[symmetric] frame_refl)
  next
    case Invisible
    then show ?thesis by (intro plain[OF _ _ emit_frame[OF frame_refl] emit_amount])
        (auto simp: startCondition_def c Let_def c_def[symmetric])
  next
    case (Outfit o')
    then show ?thesis by (intro plain[OF _ _ outfit_core(1)[OF frame_refl] outfit_core(2)])
        (auto simp: startCondition_def c Let_def c_def[symmetric])
  next
    case SpellCooldown
    then show ?thesis by (intro plain[OF _ _ cooldown_core(1)[OF frame_refl] cooldown_core(2)])
        (auto simp: startCondition_def c Let_def c_def[symmetric])
  next
    case SpellGroupCooldown
    then show ?thesis by (intro plain[OF _ _ cooldown_core(1)[OF frame_refl] cooldown_core(2)])
        (auto simp: startCondition_def c Let_def c_def[symmetric])
  qed
qed

lemma addCondition_result:
  assumes "calm w" and wf: "well_formed cr" and q: "q \<notin> set (conditions cr)" and c: "store cr q = Some new" and wt: "well_typed new"
  shows "yields (ready new) (\<lambda>res. settled cr (snd res)) (addCondition w q force cr)"
proof (cases "\<not> force \<and> conditionType new = CONDITION_HASTE \<and> hasCondition w CONDITION_PARALYZE 0 cr \<and> walk_delay w > 0")
  case True
  then show ?thesis
    using frame_settled[OF emit_frame[OF frame_refl] emit_amount, of cr] by (simp add: addCondition_def c)
next
  case nodelay: False
  show ?thesis
  proof (cases "getCondition_key (conditionType new) (cid new) (subId new) cr")
    case (Some r)
    then have r: "r \<in> set (conditions cr)" and "has_key (conditionType new) (cid new) (subId new) cr r"
      by (auto simp: getCondition_key_def find_Some_iff)
    then obtain c' where c': "store cr r = Some c'" "conditionType new = conditionType c'"
      by (auto simp: has_key_def split: option.splits)
    have e: "addCondition w q force cr = map_option (\<lambda>cr. (True, free q cr)) (merge w r new cr)"
      using Some unfolding addCondition_def c option.case if_not_P[OF nodelay] by simp
    have "settled cr (free q cr')" if "settled cr cr'" "q \<in> set (conditions cr') \<longrightarrow> q \<in> set (conditions cr)" for cr'
      using settled_trans[OF that(1) free_unlisted] that(2) q by blast
    then show ?thesis unfolding e yields_map using c by (intro yields_mono[OF merge_result[OF assms(1) wf r c'(1) wt c'(2)]]) auto
  next
    case None
    have e: "addCondition w q force cr = (case startCondition w q cr of
                  None \<Rightarrow> None
                | Some (False, cr) \<Rightarrow> Some (False, free q cr)
                | Some (True, cr) \<Rightarrow>
                    map_option (Pair True) (onAddCondition w (conditionType new) (cr\<lparr>conditions := conditions cr @ [q]\<rparr>)))"
      using None unfolding addCondition_def c option.case if_not_P[OF nodelay] by simp
    show ?thesis
    proof (cases "startCondition w q cr")
      case None
      then show ?thesis using startCondition_result[OF assms(1) wf q c wt] e by simp
    next
      case (Some y)
      obtain b x where y: "y = (b, x)" by (cases y)
      have s: "started cr q x" "b \<or> settled cr x" using startCondition_result[OF assms(1) wf q c wt] Some y by (simp_all add: start_ok_def)
      show ?thesis
      proof (cases b)
        case True
        obtain z where "onAddCondition w (conditionType new) (x\<lparr>conditions := conditions x @ [q]\<rparr>) = Some z" "settled cr z"
          using list_started[OF s(1)] onAddCondition_total settled_trans by blast
        then show ?thesis using True Some y e by simp
      next
        case False
        have "settled cr (free q x)" using settled_trans[OF _ free_unlisted] s False by (auto simp: started_def)
        then show ?thesis using False Some y e by simp
      qed
    qed
  qed
qed

lemma execute_loop_total:
  assumes "calm w" and "well_formed cr"
  shows "\<exists>cr'. execute_loop w t rs cr = Some cr' \<and> settled cr cr'"
  using assms(2)
proof (induction rs arbitrary: cr)
  case (Cons r rs)
  show ?case
  proof (cases "r \<in> set (conditions cr)")
    case True
    then obtain c where "store cr r = Some c" using well_formed_store[OF Cons.prems] by blast
    then obtain b x where x: "executeCondition w r t cr = Some (b, x)" "keeps cr x"
      using executeCondition_total[OF assms(1)] by blast
    have wfx: "well_formed x" and sx: "settled cr x" using x(2) Cons.prems keeps_settled by (auto simp: settled_def)
    show ?thesis
    proof (cases "\<not> b \<and> r \<in> set (conditions x)")
      case drop: True
      then obtain c' where c': "store x r = Some c'" using well_formed_store[OF wfx] by blast
      have d: "settled cr (drop_condition w r c' x)" using settled_trans[OF sx drop_condition_settled(1)[OF wfx _ c']] drop by blast
      then have "well_formed (drop_condition w r c' x)" using Cons.prems by (simp add: settled_def)
      then show ?thesis using Cons.IH[of "drop_condition w r c' x"] settled_trans[OF d] True drop x(1) c' by auto
    next
      case False
      then show ?thesis using Cons.IH[OF wfx] settled_trans[OF sx] True x(1) by (cases b) auto
    qed
  qed (use Cons in auto)
qed simp

section \<open>Histories\<close>

text \<open>A history of a creature: requests of the rest of the game, each met in some state of the world.\<close>

datatype request =
    Add condition bool
  | Remove u32 bool
  | Remove_Id u32 u8 bool
  | Remove_Ref nat bool
  | Execute i32

text \<open>The reference of a new object is any that is not in use.\<close>

definition serve :: "world \<Rightarrow> nat \<Rightarrow> request \<Rightarrow> creature \<Rightarrow> creature option" where
  "serve w q req cr =
    (case req of
       Add c force \<Rightarrow> if store cr q = None then map_option snd (addCondition w q force (put q c cr)) else None
     | Remove ty force \<Rightarrow> removeCondition w ty force cr
     | Remove_Id ty i force \<Rightarrow> removeCondition_id w ty i force cr
     | Remove_Ref r force \<Rightarrow> removeCondition_ref w r force cr
     | Execute t \<Rightarrow> executeConditions w t cr)"

inductive history :: "creature \<Rightarrow> creature \<Rightarrow> bool" where
  same: "history cr cr"
| next_request:
    "history cr cr1 \<Longrightarrow> calm w \<Longrightarrow> (\<And>c force. req = Add c force \<Longrightarrow> well_typed c) \<Longrightarrow> serve w q req cr1 = Some cr2 \<Longrightarrow>
     history cr cr2"

text \<open>The requests that cannot fail: all but an addition that may divide by zero or leave the range of a conversion.\<close>

definition valid_request :: "nat \<Rightarrow> request \<Rightarrow> creature \<Rightarrow> bool" where
  "valid_request q req cr \<longleftrightarrow> (case req of Add c _ \<Rightarrow> ready c \<and> store cr q = None | _ \<Rightarrow> True)"

lemma serve_result:
  assumes "calm w" and wf: "well_formed cr" and v: "\<And>c force. req = Add c force \<Longrightarrow> well_typed c"
  shows "yields (valid_request q req cr) (settled cr) (serve w q req cr)"
proof (cases req)
  case (Add c force)
  show ?thesis
  proof (cases "store cr q = None")
    case True
    then have q: "q \<notin> set (conditions cr)" using well_formed_store[OF wf, of q] by auto
    have p: "settled cr (put q c cr)" "well_formed (put q c cr)" using put_settled[OF q] put_unlisted(1)[OF q wf] by auto
    have "yields (ready c) (\<lambda>res. settled (put q c cr) (snd res)) (addCondition w q force (put q c cr))"
      using addCondition_result[OF assms(1) p(2), of q c force] q v[OF Add] by (simp add: put_def)
    then have "yields (ready c) (settled cr) (map_option snd (addCondition w q force (put q c cr)))"
      unfolding yields_map by (rule yields_mono) (use settled_trans[OF p(1)] in auto)
    then show ?thesis using Add True by (simp add: serve_def valid_request_def)
  qed (use Add in \<open>auto simp: serve_def valid_request_def\<close>)
next
  case (Execute t)
  then show ?thesis using execute_loop_total[OF assms(1) wf, of t "conditions cr"] by (auto simp: serve_def executeConditions_def)
qed (simp_all add: serve_def yields_total[OF removeCondition_total(1)[OF wf]] yields_total[OF removeCondition_total(2)[OF wf]]
    yields_total[OF removeCondition_ref_total[OF wf]])

lemma history_settled: "history cr cr' \<Longrightarrow> well_formed cr \<Longrightarrow> settled cr cr' \<and> well_formed cr'"
proof (induction rule: history.induct)
  case (next_request cr cr1 w req q cr2)
  then have 1: "settled cr cr1" "well_formed cr1" by auto
  have "yields (valid_request q req cr1) (settled cr1) (serve w q req cr1)"
    by (rule serve_result[OF next_request.hyps(2) 1(2)]) (rule next_request.hyps(3))
  then have "settled cr1 cr2" using next_request.hyps(4) by simp
  then have "settled cr cr2" by (rule settled_trans[OF 1(1)])
  then show ?case using next_request.prems by (simp add: settled_def)
qed simp


definition example_player :: creature where
  "example_player =
     \<lparr> kind_of = Is_Player, conditions = [], store = (\<lambda>_. None), baseSpeed = 220, varSpeed = 0, walking = False,
       varSkills = replicate 7 0, varSpecialSkills = replicate 6 0, varStats = replicate 4 0,
       baseSkills = replicate 7 10, magLevel = 0, health = 150, healthMax = 150, mana = 0, manaMax = 0,
       infiniteMana = False, soulPoints = 100, soulMax = 100, canUseDefense = True, currentOutfit = new_outfit,
       defaultOutfit = new_outfit, mounted = False, internalLight = \<lparr>level = 0, color = 0\<rparr>,
       itemsLight = \<lparr>level = 0, color = 0\<rparr>, suppressions = 0, immunities = 0, cannotBeAttacked = False, ghost = False,
       pzLocked = False, ignoreFieldDamage = False, has_targets = False, reports = [] \<rparr>"

definition example_world :: world where
  "example_world =
     \<lparr> now = 1000, draw = (\<lambda>a b. a), walk_delay = 0, protection_zone = False, field_combat = None,
       outfit_allowed = (\<lambda>_. True), owner_is_player = (\<lambda>_. False), may_combat = (\<lambda>_. True),
       combat = (\<lambda>_ v _ _ cr. (True, changeHealth v True cr)) \<rparr>"

definition example_haste :: condition where
  "example_haste = new_condition CONDITIONID_COMBAT CONDITION_HASTE 2000 False 0 False (Speed (new_speed 80))"

lemma example_calm: "calm example_world"
  using frame_keeps[OF changeHealth_core(1)[OF frame_refl] changeHealth_core(2)] changeHealth_core(1)[OF frame_refl]
  by (auto simp: calm_def example_world_def frame_def)


section \<open>Icons and defence\<close>

lemma popcount_clear: "(\<And>i. i < k \<Longrightarrow> \<not> bit icons i) \<Longrightarrow> popcount icons \<le> 16 - k"
proof -
  assume clear: "\<And>i. i < k \<Longrightarrow> \<not> bit icons i"
  have "filter (bit icons) [0..<16] = filter (bit icons) [k..<16]"
  proof (cases "k \<le> 16")
    case True
    then have "[0..<16] = [0..<k] @ [k..<16]" using upt_add_eq_append[of 0 k "16 - k"] by simp
    then show ?thesis using clear by (simp add: filter_empty_conv)
  qed (use clear in \<open>auto simp: filter_empty_conv\<close>)
  then show ?thesis using length_filter_le[of "bit icons" "[k..<16]"] by (simp add: popcount_def)
qed

lemma cap_icons_bound: "k \<le> 16 \<Longrightarrow> (\<And>i. i < k \<Longrightarrow> \<not> bit icons i) \<Longrightarrow> popcount (cap_icons [k..<20] icons) < 10"
proof (induction "16 - k" arbitrary: k icons)
  case 0
  then show ?case using popcount_clear[of 16 icons] by (simp add: upt_conv_Cons)
next
  case (Suc n)
  let ?icons = "if bit icons k then unset_bit k icons else icons"
  have "\<not> bit ?icons i" if "i < k + 1" for i
    using Suc.prems(2)[of i] that by (cases "i = k") (auto simp: bit_unset_bit_iff)
  then have "popcount (cap_icons [k + 1..<20] ?icons) < 10" using Suc.hyps by (intro Suc.hyps(1)) auto
  moreover have "[k..<20] = k # [k + 1..<20]" using Suc.prems(1) by (simp add: upt_conv_Cons)
  ultimately show ?case by simp
qed

text \<open>The client, which fails on ten or more icons, never gets as many.\<close>

theorem client_icons_bounded: "popcount (getClientIcons p cr) < 10"
  using cap_icons_bound[of 0] by (simp add: getClientIcons_def Let_def)

text \<open>C38: A refreshed condition loses its ban on defending: when a condition that disables a creature's defence is merged
  into a running one that also does, ending the old values allows defence again and nothing forbids it anew, although the
  condition stays listed with its ban.\<close>

theorem refresh_restores_defense:
  assumes "store cr r = Some c" and "body c = Attributes a" and "disableDefense a"
    and "body new = Attributes na" and "disableDefense na" and "updateCondition w c new" and "\<not> is_player cr"
  shows "\<exists>cr' c' a'. merge w r new cr = Some cr' \<and> store cr' r = Some c' \<and> body c' = Attributes a' \<and>
    disableDefense a' \<and> canUseDefense cr'"
  using assms by (simp add: merge_def merge_attributes_def end_attributes_def Let_def put_def)

definition example_curse :: condition where
  "example_curse = new_condition CONDITIONID_COMBAT CONDITION_ATTRIBUTES 5000 False 0 True
     (Attributes (new_attributes\<lparr>disableDefense := True\<rparr>))"

theorem refresh_restores_defense_witness:
  "\<exists>cr1 cr2. serve example_world 0 (Add example_curse False) (example_player\<lparr>kind_of := Is_Monster\<rparr>) = Some cr1 \<and>
     \<not> canUseDefense cr1 \<and> merge example_world 0 example_curse cr1 = Some cr2 \<and> canUseDefense cr2"
proof -
  let ?s = "serve example_world 0 (Add example_curse False) (example_player\<lparr>kind_of := Is_Monster\<rparr>)"
  let ?c = "the (store (the ?s) 0)"
  have "\<not> Option.is_none ?s" and d: "\<not> canUseDefense (the ?s)" and m: "\<not> is_player (the ?s)"
    and "\<not> Option.is_none (store (the ?s) 0)" and u: "updateCondition example_world ?c example_curse"
    and a: "body ?c = Attributes (new_attributes\<lparr>disableDefense := True\<rparr>)" by code_simp+
  then have s: "?s = Some (the ?s)" and c: "store (the ?s) 0 = Some ?c" by (simp_all add: Option.is_none_def)
  have n: "body example_curse = Attributes (new_attributes\<lparr>disableDefense := True\<rparr>)"
    by (simp add: example_curse_def new_condition_def)
  from refresh_restores_defense[OF c a _ n _ u m] s d show ?thesis by auto
qed

end
