(* ===== verification/World_Position.thy ===== *)
theory World_Position
  imports Server_Prelude
begin

text \<open>
  Positions and directions: \<open>struct Position\<close> and \<open>enum Direction\<close> of \<open>src/src/position.h\<close>,
  and the direction helpers \<open>getDirection\<close>, \<open>getNextPosition\<close> and \<open>getDirectionTo\<close> of
  \<open>src/src/tools.cpp\<close>. Coordinates keep their widths (16, 16 and 8 bits), so steps over the edge
  of the map wrap. \<open>operator<\<close> is the order of the library's class \<open>linorder\<close>.
\<close>

section \<open>Data\<close>

datatype direction =
    DIRECTION_NORTH | DIRECTION_EAST | DIRECTION_SOUTH | DIRECTION_WEST
  | DIRECTION_SOUTHWEST | DIRECTION_SOUTHEAST | DIRECTION_NORTHWEST | DIRECTION_NORTHEAST
  | DIRECTION_NONE

datatype position = Position (pos_x: u16) (pos_y: u16) (pos_z: u8)

definition origin :: position where
  "origin = Position 0 0 0"

section \<open>Offsets, distances and ranges\<close>

definition getOffsetX :: "position \<Rightarrow> position \<Rightarrow> int" where
  "getOffsetX p1 p2 = uint (pos_x p1) - uint (pos_x p2)"
definition getOffsetY :: "position \<Rightarrow> position \<Rightarrow> int" where
  "getOffsetY p1 p2 = uint (pos_y p1) - uint (pos_y p2)"
definition getOffsetZ :: "position \<Rightarrow> position \<Rightarrow> int" where
  "getOffsetZ p1 p2 = uint (pos_z p1) - uint (pos_z p2)"

definition getDistanceX :: "position \<Rightarrow> position \<Rightarrow> int" where
  "getDistanceX p1 p2 = \<bar>getOffsetX p1 p2\<bar>"
definition getDistanceY :: "position \<Rightarrow> position \<Rightarrow> int" where
  "getDistanceY p1 p2 = \<bar>getOffsetY p1 p2\<bar>"
definition getDistanceZ :: "position \<Rightarrow> position \<Rightarrow> int" where
  "getDistanceZ p1 p2 = \<bar>getOffsetZ p1 p2\<bar>"

definition areInRange2 :: "int \<Rightarrow> int \<Rightarrow> position \<Rightarrow> position \<Rightarrow> bool" where
  "areInRange2 deltax deltay p1 p2 \<longleftrightarrow>
     getDistanceX p1 p2 \<le> deltax \<and> getDistanceY p1 p2 \<le> deltay"

definition areInRange3 :: "int \<Rightarrow> int \<Rightarrow> int \<Rightarrow> position \<Rightarrow> position \<Rightarrow> bool" where
  "areInRange3 deltax deltay deltaz p1 p2 \<longleftrightarrow>
     getDistanceX p1 p2 \<le> deltax \<and> getDistanceY p1 p2 \<le> deltay \<and> getDistanceZ p1 p2 \<le> deltaz"

lemmas distance_defs = getDistanceX_def getDistanceY_def getDistanceZ_def
  getOffsetX_def getOffsetY_def getOffsetZ_def

section \<open>Comparison and arithmetic operators\<close>

definition pos_less :: "position \<Rightarrow> position \<Rightarrow> bool" where
  "pos_less a p =
     (if pos_z a < pos_z p then True else if pos_z a > pos_z p then False
      else if pos_y a < pos_y p then True else if pos_y a > pos_y p then False
      else if pos_x a < pos_x p then True else if pos_x a > pos_x p then False
      else False)"

definition pos_greater :: "position \<Rightarrow> position \<Rightarrow> bool" where
  "pos_greater a p \<longleftrightarrow> \<not> pos_less a p"

definition pos_equal :: "position \<Rightarrow> position \<Rightarrow> bool" where
  "pos_equal a p \<longleftrightarrow> pos_x p = pos_x a \<and> pos_y p = pos_y a \<and> pos_z p = pos_z a"

definition pos_plus :: "position \<Rightarrow> position \<Rightarrow> position" where
  "pos_plus a p = Position (pos_x a + pos_x p) (pos_y a + pos_y p) (pos_z a + pos_z p)"

definition pos_minus :: "position \<Rightarrow> position \<Rightarrow> position" where
  "pos_minus a p = Position (pos_x a - pos_x p) (pos_y a - pos_y p) (pos_z a - pos_z p)"

instantiation position :: linorder
begin
definition less_position :: "position \<Rightarrow> position \<Rightarrow> bool" where
  "less_position a p = pos_less a p"
definition less_eq_position :: "position \<Rightarrow> position \<Rightarrow> bool" where
  "less_eq_position a p \<longleftrightarrow> pos_less a p \<or> a = p"
instance
  by standard (auto simp: less_position_def less_eq_position_def pos_less_def
      intro: position.expand split: if_splits)
end

section \<open>Direction helpers of tools.cpp\<close>

definition getDirection :: "string \<Rightarrow> direction" where
  "getDirection s =
     (if s = ''north'' \<or> s = ''n'' \<or> s = ''0'' then DIRECTION_NORTH
      else if s = ''east'' \<or> s = ''e'' \<or> s = ''1'' then DIRECTION_EAST
      else if s = ''south'' \<or> s = ''s'' \<or> s = ''2'' then DIRECTION_SOUTH
      else if s = ''west'' \<or> s = ''w'' \<or> s = ''3'' then DIRECTION_WEST
      else if s = ''southwest'' \<or> s = ''south west'' \<or> s = ''south-west'' \<or> s = ''sw'' \<or> s = ''4''
        then DIRECTION_SOUTHWEST
      else if s = ''southeast'' \<or> s = ''south east'' \<or> s = ''south-east'' \<or> s = ''se'' \<or> s = ''5''
        then DIRECTION_SOUTHEAST
      else if s = ''northwest'' \<or> s = ''north west'' \<or> s = ''north-west'' \<or> s = ''nw'' \<or> s = ''6''
        then DIRECTION_NORTHWEST
      else if s = ''northeast'' \<or> s = ''north east'' \<or> s = ''north-east'' \<or> s = ''ne'' \<or> s = ''7''
        then DIRECTION_NORTHEAST
      else DIRECTION_NORTH)"

fun getNextPosition :: "direction \<Rightarrow> position \<Rightarrow> position" where
  "getNextPosition DIRECTION_NORTH (Position x y z) = Position x (y - 1) z"
| "getNextPosition DIRECTION_SOUTH (Position x y z) = Position x (y + 1) z"
| "getNextPosition DIRECTION_WEST (Position x y z) = Position (x - 1) y z"
| "getNextPosition DIRECTION_EAST (Position x y z) = Position (x + 1) y z"
| "getNextPosition DIRECTION_SOUTHWEST (Position x y z) = Position (x - 1) (y + 1) z"
| "getNextPosition DIRECTION_NORTHWEST (Position x y z) = Position (x - 1) (y - 1) z"
| "getNextPosition DIRECTION_NORTHEAST (Position x y z) = Position (x + 1) (y - 1) z"
| "getNextPosition DIRECTION_SOUTHEAST (Position x y z) = Position (x + 1) (y + 1) z"
| "getNextPosition DIRECTION_NONE p = p"

definition getDirectionTo :: "position \<Rightarrow> position \<Rightarrow> direction" where
  "getDirectionTo from to =
     (let x0 = getOffsetX from to;
          dir = (if x0 < 0 then DIRECTION_EAST else DIRECTION_WEST);
          x_offset = (if x0 < 0 then \<bar>x0\<bar> else x0);
          y0 = getOffsetY from to
      in if y0 \<ge> 0
         then (if y0 > x_offset then DIRECTION_NORTH
               else if y0 = x_offset
                 then (if dir = DIRECTION_EAST then DIRECTION_NORTHEAST else DIRECTION_NORTHWEST)
               else dir)
         else (let y_offset = \<bar>y0\<bar>
               in if y_offset > x_offset then DIRECTION_SOUTH
                  else if y_offset = x_offset
                    then (if dir = DIRECTION_EAST then DIRECTION_SOUTHEAST else DIRECTION_SOUTHWEST)
                  else dir))"

text \<open>The lower-case name of a direction as \<open>getDirection\<close> spells it, and the opposite direction.\<close>

fun direction_name :: "direction \<Rightarrow> string" where
  "direction_name DIRECTION_NORTH = ''North''"
| "direction_name DIRECTION_EAST = ''East''"
| "direction_name DIRECTION_WEST = ''West''"
| "direction_name DIRECTION_SOUTH = ''South''"
| "direction_name DIRECTION_SOUTHWEST = ''South-West''"
| "direction_name DIRECTION_SOUTHEAST = ''South-East''"
| "direction_name DIRECTION_NORTHWEST = ''North-West''"
| "direction_name DIRECTION_NORTHEAST = ''North-East''"
| "direction_name DIRECTION_NONE = ''''"

fun opposite :: "direction \<Rightarrow> direction" where
  "opposite DIRECTION_NORTH = DIRECTION_SOUTH"
| "opposite DIRECTION_SOUTH = DIRECTION_NORTH"
| "opposite DIRECTION_EAST = DIRECTION_WEST"
| "opposite DIRECTION_WEST = DIRECTION_EAST"
| "opposite DIRECTION_SOUTHWEST = DIRECTION_NORTHEAST"
| "opposite DIRECTION_NORTHEAST = DIRECTION_SOUTHWEST"
| "opposite DIRECTION_NORTHWEST = DIRECTION_SOUTHEAST"
| "opposite DIRECTION_SOUTHEAST = DIRECTION_NORTHWEST"
| "opposite DIRECTION_NONE = DIRECTION_NONE"

section \<open>Lemmas\<close>

lemma pos_equal_iff [simp]: "pos_equal a p \<longleftrightarrow> a = p"
  by (cases a; cases p) (auto simp: pos_equal_def)

lemma pos_minus_plus: "pos_minus (pos_plus a p) p = a" "pos_plus (pos_minus a p) p = a"
  by (simp_all add: pos_minus_def pos_plus_def)

lemma pos_greater_iff: "pos_greater a p \<longleftrightarrow> p \<le> a"
  using not_less [of a p] by (simp add: pos_greater_def less_position_def)

lemma getNextPosition_opposite: "getNextPosition (opposite d) (getNextPosition d p) = p"
  by (cases d; cases p) auto

lemma getNextPosition_z: "pos_z (getNextPosition d p) = pos_z p"
  by (cases d; cases p) auto

text \<open>Away from the edges a step is a step of the integers.\<close>

lemma uint_inc: "uint (w :: 'a::len word) < 2 ^ LENGTH('a) - 1 \<Longrightarrow> uint (w + 1) = uint w + 1"
  by (simp add: uint_word_ariths)

lemma uint_dec: "0 < uint (w :: 'a::len word) \<Longrightarrow> uint (w - 1) = uint w - 1"
proof -
  assume "0 < uint w"
  moreover have "uint w - 1 < 2 ^ LENGTH('a)" using uint_lt2p[of w] by linarith
  ultimately show ?thesis by (simp add: uint_word_ariths)
qed

definition interior :: "position \<Rightarrow> bool" where
  "interior p \<longleftrightarrow> 0 < pos_x p \<and> pos_x p < 65535 \<and> 0 < pos_y p \<and> pos_y p < 65535"

lemma interior_offsets:
  assumes "interior p"
  shows "uint (pos_x p + 1) = uint (pos_x p) + 1" "uint (pos_x p - 1) = uint (pos_x p) - 1"
    "uint (pos_y p + 1) = uint (pos_y p) + 1" "uint (pos_y p - 1) = uint (pos_y p) - 1"
  using assms by (auto simp: interior_def word_less_def intro!: uint_inc uint_dec)

text \<open>C34: stepping one square and asking for the direction back gives the direction of the step:
  away from the map's edges \<open>getDirectionTo\<close> inverts \<open>getNextPosition\<close>.\<close>

theorem getDirectionTo_next:
  assumes "interior p" and "d \<noteq> DIRECTION_NONE"
  shows "getDirectionTo p (getNextPosition d p) = d"
  using assms interior_offsets[OF assms(1)]
  by (cases d; cases p) (simp_all add: getDirectionTo_def getOffsetX_def getOffsetY_def)

theorem getDirectionTo_next_witness:
  "getDirectionTo (Position 100 100 7) (getNextPosition DIRECTION_SOUTHWEST (Position 100 100 7))
   = DIRECTION_SOUTHWEST"
  by (rule getDirectionTo_next) (simp_all add: interior_def)

text \<open>C35: \<open>operator<\<close> orders positions by floor, then row, then column, and is a strict total
  order; \<open>operator>\<close>, written as its negation, is the reflexive converse: it holds of a position
  and itself.\<close>

theorem position_operators:
  "(pos_less a p \<longleftrightarrow>
      pos_z a < pos_z p \<or> pos_z a = pos_z p \<and>
        (pos_y a < pos_y p \<or> pos_y a = pos_y p \<and> pos_x a < pos_x p))
   \<and> (pos_greater a p \<longleftrightarrow> pos_less p a \<or> a = p)
   \<and> pos_greater a a"
  using pos_greater_iff[of a p] pos_greater_iff[of a a]
  by (auto simp: pos_less_def less_eq_position_def)

end
