(* ===== verification/Network_Message.thy ===== *)
theory Network_Message
  imports World_Position
begin

text \<open>
  \<open>NetworkMessage\<close> of \<open>src/src/networkmessage.h\<close> and \<open>networkmessage.cpp\<close>: the fixed array of
  \<open>NETWORKMESSAGE_MAXSIZE\<close> bytes with its 16-bit length and position counters, the typed readers
  and writers and their guards \<open>canRead\<close> and \<open>canAdd\<close>. Every access of the array goes through
  \<open>mem_read\<close> or \<open>mem_write\<close>, so an operation that would leave the array has the value \<open>None\<close>.
  The lemmas: readers and writers never leave the array, whatever the counters hold; what a writer
  stored is what the matching reader returns; a refused write changes nothing.
\<close>

section \<open>State\<close>

definition NETWORKMESSAGE_MAXSIZE :: int where "NETWORKMESSAGE_MAXSIZE = 24590"
definition INITIAL_BUFFER_POSITION :: u16 where "INITIAL_BUFFER_POSITION = 8"
definition HEADER_LENGTH :: int where "HEADER_LENGTH = 2"
definition CHECKSUM_LENGTH :: int where "CHECKSUM_LENGTH = 4"
definition XTEA_MULTIPLE :: int where "XTEA_MULTIPLE = 8"
definition MAX_BODY_LENGTH :: int where
  "MAX_BODY_LENGTH = NETWORKMESSAGE_MAXSIZE - HEADER_LENGTH - CHECKSUM_LENGTH - XTEA_MULTIPLE"
definition MAX_PROTOCOL_BODY_LENGTH :: int where
  "MAX_PROTOCOL_BODY_LENGTH = MAX_BODY_LENGTH - 10"

lemmas nm_consts = NETWORKMESSAGE_MAXSIZE_def INITIAL_BUFFER_POSITION_def HEADER_LENGTH_def
  CHECKSUM_LENGTH_def XTEA_MULTIPLE_def MAX_BODY_LENGTH_def MAX_PROTOCOL_BODY_LENGTH_def

record network_message =
  nm_length :: u16
  nm_position :: u16
  nm_overrun :: bool
  nm_buffer :: "u8 list"

text \<open>A fresh message over an array with arbitrary contents.\<close>

definition new_message :: "u8 list \<Rightarrow> network_message" where
  "new_message buf =
     \<lparr>nm_length = 0, nm_position = INITIAL_BUFFER_POSITION, nm_overrun = False, nm_buffer = buf\<rparr>"

definition nm_reset :: "network_message \<Rightarrow> network_message" where
  "nm_reset m = m\<lparr>nm_length := 0, nm_position := INITIAL_BUFFER_POSITION, nm_overrun := False\<rparr>"

section \<open>Guards\<close>

text \<open>\<open>canAdd\<close> adds in \<open>size_t\<close>, so its sum is taken modulo \<open>2 ^ 64\<close>; \<open>canRead\<close> computes in
  \<open>int\<close> and records a failure in the overrun flag.\<close>

definition canAdd :: "network_message \<Rightarrow> nat \<Rightarrow> bool" where
  "canAdd m sz \<longleftrightarrow> int ((sz + unat (nm_position m)) mod 2 ^ 64) < MAX_BODY_LENGTH"

definition canRead :: "network_message \<Rightarrow> int \<Rightarrow> bool \<times> network_message" where
  "canRead m sz =
     (if uint (nm_position m) + sz > uint (nm_length m) + 8
         \<or> sz \<ge> NETWORKMESSAGE_MAXSIZE - uint (nm_position m)
      then (False, m\<lparr>nm_overrun := True\<rparr>) else (True, m))"

section \<open>Readers\<close>

text \<open>\<open>get_bytes\<close> is the common body of \<open>getByte\<close> and of \<open>get<T>\<close> for a type of \<open>n\<close> bytes: zero
  bytes stand for the zero the source returns when nothing can be read.\<close>

definition get_bytes :: "nat \<Rightarrow> network_message \<Rightarrow> (u8 list \<times> network_message) option" where
  "get_bytes n m =
     (case canRead m (int n) of
        (False, m') \<Rightarrow> Some (replicate n 0, m')
      | (True, m') \<Rightarrow>
          map_option (\<lambda>bs. (bs, m'\<lparr>nm_position := nm_position m' + of_nat n\<rparr>))
            (mem_read (nm_buffer m') (unat (nm_position m')) n))"

definition getByte :: "network_message \<Rightarrow> (u8 \<times> network_message) option" where
  "getByte m = map_option (map_prod le_dec8 id) (get_bytes 1 m)"

definition get16 :: "network_message \<Rightarrow> (u16 \<times> network_message) option" where
  "get16 m = map_option (map_prod le_dec16 id) (get_bytes 2 m)"

definition get32 :: "network_message \<Rightarrow> (u32 \<times> network_message) option" where
  "get32 m = map_option (map_prod le_dec32 id) (get_bytes 4 m)"

definition get64 :: "network_message \<Rightarrow> (u64 \<times> network_message) option" where
  "get64 m = map_option (map_prod le_dec64 id) (get_bytes 8 m)"

definition getPreviousByte :: "network_message \<Rightarrow> (u8 \<times> network_message) option" where
  "getPreviousByte m =
     (if nm_position m = 0 then Some (0, m)
      else let m' = m\<lparr>nm_position := nm_position m - 1\<rparr>
           in map_option (\<lambda>bs. (le_dec8 bs, m'))
                (mem_read (nm_buffer m') (unat (nm_position m')) 1))"

definition skipBytes :: "int \<Rightarrow> network_message \<Rightarrow> network_message" where
  "skipBytes n m = m\<lparr>nm_position := nm_position m + of_int n\<rparr>"

definition getString :: "u16 \<Rightarrow> network_message \<Rightarrow> (u8 list \<times> network_message) option" where
  "getString stringLen m =
     do { (len, m1) \<leftarrow> (if stringLen = 0 then get16 m else Some (stringLen, m));
          case canRead m1 (uint len) of
            (False, m2) \<Rightarrow> Some ([], m2)
          | (True, m2) \<Rightarrow>
              map_option (\<lambda>bs. (bs, m2\<lparr>nm_position := nm_position m2 + len\<rparr>))
                (mem_read (nm_buffer m2) (unat (nm_position m2)) (unat len)) }"

section \<open>Writers\<close>

text \<open>\<open>put_bytes\<close> is the common effect of all writers: copy the bytes to the current position and
  advance both counters, which wrap at 16 bits.\<close>

definition put_bytes :: "u8 list \<Rightarrow> network_message \<Rightarrow> network_message option" where
  "put_bytes bs m =
     map_option (\<lambda>buf. m\<lparr>nm_buffer := buf, nm_position := nm_position m + of_nat (length bs),
                         nm_length := nm_length m + of_nat (length bs)\<rparr>)
       (mem_write (nm_buffer m) (unat (nm_position m)) bs)"

definition add_bytes_checked :: "u8 list \<Rightarrow> network_message \<Rightarrow> network_message option" where
  "add_bytes_checked bs m = (if canAdd m (length bs) then put_bytes bs m else Some m)"

definition addByte :: "u8 \<Rightarrow> network_message \<Rightarrow> network_message option" where
  "addByte v m = add_bytes_checked (le_enc8 v) m"

definition add16 :: "u16 \<Rightarrow> network_message \<Rightarrow> network_message option" where
  "add16 v m = add_bytes_checked (le_enc16 v) m"

definition add32 :: "u32 \<Rightarrow> network_message \<Rightarrow> network_message option" where
  "add32 v m = add_bytes_checked (le_enc32 v) m"

definition add64 :: "u64 \<Rightarrow> network_message \<Rightarrow> network_message option" where
  "add64 v m = add_bytes_checked (le_enc64 v) m"

definition addString :: "u8 list \<Rightarrow> network_message \<Rightarrow> network_message option" where
  "addString s m =
     (if \<not> canAdd m (length s + 2) \<or> length s > 8192 then Some m
      else do { m' \<leftarrow> add16 (of_nat (length s)) m; put_bytes s m' })"

definition addBytes :: "u8 list \<Rightarrow> network_message \<Rightarrow> network_message option" where
  "addBytes bs m =
     (if \<not> canAdd m (length bs) \<or> length bs > 8192 then Some m else put_bytes bs m)"

definition addPaddingBytes :: "nat \<Rightarrow> network_message \<Rightarrow> network_message option" where
  "addPaddingBytes n m = (if \<not> canAdd m n then Some m else put_bytes (replicate n 0x33) m)"

section \<open>Positions and items\<close>

definition addPosition :: "position \<Rightarrow> network_message \<Rightarrow> network_message option" where
  "addPosition p m = do { m1 \<leftarrow> add16 (pos_x p) m; m2 \<leftarrow> add16 (pos_y p) m1; addByte (pos_z p) m2 }"

definition getPosition :: "network_message \<Rightarrow> (position \<times> network_message) option" where
  "getPosition m =
     do { (x, m1) \<leftarrow> get16 m; (y, m2) \<leftarrow> get16 m1; (z, m3) \<leftarrow> getByte m2;
          Some (Position x y z, m3) }"

text \<open>The columns of the item table (\<open>ItemType\<close>) that the writers of items read.\<close>

record item_appearance =
  clientId :: u16
  ap_stackable :: bool
  ap_isSplash :: bool
  ap_isFluidContainer :: bool

definition fluidMap :: "u8 list" where
  "fluidMap = [0, 1, 5, 3, 6, 8, 9, 2]"

definition addItem_id ::
  "(u16 \<Rightarrow> item_appearance) \<Rightarrow> u16 \<Rightarrow> u8 \<Rightarrow> network_message \<Rightarrow> network_message option" where
  "addItem_id items i count m =
     (let it = items i in
      do { m1 \<leftarrow> add16 (clientId it) m;
           if ap_stackable it then addByte count m1
           else if ap_isSplash it \<or> ap_isFluidContainer it
             then addByte (fluidMap ! unat (count AND 7)) m1
           else Some m1 })"

definition addItem ::
  "(u16 \<Rightarrow> item_appearance) \<Rightarrow> u16 \<Rightarrow> u16 \<Rightarrow> u16 \<Rightarrow> network_message \<Rightarrow> network_message option" where
  "addItem items i itemCount fluidType m =
     (let it = items i in
      do { m1 \<leftarrow> add16 (clientId it) m;
           if ap_stackable it then addByte (ucast (min 0xFF itemCount)) m1
           else if ap_isSplash it \<or> ap_isFluidContainer it
             then addByte (fluidMap ! unat (fluidType AND 7)) m1
           else Some m1 })"

definition addItemId :: "(u16 \<Rightarrow> item_appearance) \<Rightarrow> u16 \<Rightarrow> network_message \<Rightarrow> network_message option" where
  "addItemId items i m = add16 (clientId (items i)) m"

section \<open>Lengths and raw access\<close>

definition setLength :: "u16 \<Rightarrow> network_message \<Rightarrow> network_message" where
  "setLength n m = m\<lparr>nm_length := n\<rparr>"

definition nm_isEmpty :: "network_message \<Rightarrow> bool" where
  "nm_isEmpty m \<longleftrightarrow> nm_length m = 0"

definition getRemainingBufferLength :: "network_message \<Rightarrow> u16" where
  "getRemainingBufferLength m = nm_length m - nm_position m"

definition getLengthHeader :: "network_message \<Rightarrow> u16 option" where
  "getLengthHeader m =
     map_option (\<lambda>bs. ucast (bs ! 0) OR push_bit 8 (ucast (bs ! 1))) (mem_read (nm_buffer m) 0 2)"

definition getBodyBuffer :: "network_message \<Rightarrow> network_message" where
  "getBodyBuffer m = m\<lparr>nm_position := 2\<rparr>"

text \<open>The only fact about the state the operations need: the array has its declared size.\<close>

definition nm_inv :: "network_message \<Rightarrow> bool" where
  "nm_inv m \<longleftrightarrow> int (length (nm_buffer m)) = NETWORKMESSAGE_MAXSIZE"

lemma nm_inv_iff: "nm_inv m \<longleftrightarrow> length (nm_buffer m) = 24590"
  by (simp add: nm_inv_def nm_consts)

section \<open>Memory safety of the readers\<close>

lemma canRead_nat:
  "canRead m (int n) =
     (if unat (nm_length m) + 8 < unat (nm_position m) + n \<or> 24590 \<le> unat (nm_position m) + n
      then (False, m\<lparr>nm_overrun := True\<rparr>) else (True, m))"
proof -
  have p: "int (unat (nm_position m)) = uint (nm_position m)" by simp
  have l: "int (unat (nm_length m)) = uint (nm_length m)" by simp
  have "uint (nm_position m) + int n > uint (nm_length m) + 8
          \<longleftrightarrow> unat (nm_length m) + 8 < unat (nm_position m) + n"
    using p l by linarith
  moreover have "int n \<ge> 24590 - uint (nm_position m) \<longleftrightarrow> 24590 \<le> unat (nm_position m) + n"
    using p by linarith
  ultimately show ?thesis by (simp add: canRead_def nm_consts)
qed

lemma canRead_buffer: "nm_buffer (snd (canRead m n)) = nm_buffer m"
  by (simp add: canRead_def)

lemma get_bytes_total:
  assumes "nm_inv m"
  shows "\<exists>bs m'. get_bytes n m = Some (bs, m') \<and> length bs = n \<and> nm_buffer m' = nm_buffer m"
  using assms by (auto simp: get_bytes_def canRead_nat mem_read_def nm_inv_iff)

lemma get_bytes_hit:
  assumes "unat (nm_position m) + n \<le> unat (nm_length m) + 8" "unat (nm_position m) + n < 24590"
    and "mem_read (nm_buffer m) (unat (nm_position m)) n = Some bs"
  shows "get_bytes n m = Some (bs, m\<lparr>nm_position := nm_position m + of_nat n\<rparr>)"
  using assms by (simp add: get_bytes_def canRead_nat)

lemma get_bytes_miss:
  assumes "unat (nm_length m) + 8 < unat (nm_position m) + n"
  shows "get_bytes n m = Some (replicate n 0, m\<lparr>nm_overrun := True\<rparr>)"
  using assms by (simp add: get_bytes_def canRead_nat)

section \<open>Memory safety of the writers\<close>

lemma canAdd_iff:
  assumes "n < 2 ^ 32"
  shows "canAdd m n \<longleftrightarrow> n + unat (nm_position m) < 24576"
proof -
  have "n + unat (nm_position m) < 2 ^ 64"
    using assms unat16_lt[of "nm_position m"] by (auto simp del: unat16_lt)
  then have "(n + unat (nm_position m)) mod 2 ^ 64 = n + unat (nm_position m)" by simp
  then show ?thesis unfolding canAdd_def nm_consts by linarith
qed

lemma put_bytes_total:
  assumes "nm_inv m" and "unat (nm_position m) + length bs \<le> 24590"
  obtains buf where "mem_write (nm_buffer m) (unat (nm_position m)) bs = Some buf"
    and "put_bytes bs m = Some (m\<lparr>nm_buffer := buf, nm_position := nm_position m + of_nat (length bs),
                         nm_length := nm_length m + of_nat (length bs)\<rparr>)"
    and "length buf = length (nm_buffer m)"
  using assms by (simp add: put_bytes_def nm_inv_iff mem_write_def)

lemma nm_inv_put_bytes [inv_intros]: "put_bytes bs m = Some m' \<Longrightarrow> nm_inv m \<Longrightarrow> nm_inv m'"
  by (auto simp: put_bytes_def nm_inv_iff dest: mem_write_length)

lemma put_bytes_checked_total:
  assumes "nm_inv m" "length bs < 2 ^ 32"
  shows "\<exists>m'. add_bytes_checked bs m = Some m' \<and> nm_inv m'"
proof (cases "canAdd m (length bs)")
  case True
  then have "unat (nm_position m) + length bs \<le> 24590" using assms(2) by (simp add: canAdd_iff)
  then obtain buf where "put_bytes bs m = Some (m\<lparr>nm_buffer := buf,
      nm_position := nm_position m + of_nat (length bs), nm_length := nm_length m + of_nat (length bs)\<rparr>)"
    by (rule put_bytes_total[OF assms(1)])
  then show ?thesis using True nm_inv_put_bytes assms(1) by (simp add: add_bytes_checked_def)
next
  case False
  then show ?thesis using assms(1) by (simp add: add_bytes_checked_def)
qed

section \<open>Abstract view: a message as the list of its body bytes\<close>

text \<open>A message under construction holds its body right behind the reserved header; \<open>wr_view\<close> relates
  it to the bytes written so far. \<open>rd_view\<close> relates a received message to the bytes still to read.\<close>

definition wr_view :: "network_message \<Rightarrow> u8 list \<Rightarrow> bool" where
  "wr_view m body \<longleftrightarrow> nm_inv m \<and> unat (nm_position m) = 8 + length body
     \<and> unat (nm_length m) = length body \<and> 8 + length body < 24576
     \<and> mem_read (nm_buffer m) 8 (length body) = Some body"

definition rd_view :: "network_message \<Rightarrow> u8 list \<Rightarrow> bool" where
  "rd_view m rest \<longleftrightarrow> nm_inv m \<and> unat (nm_position m) + length rest = unat (nm_length m) + 8
     \<and> unat (nm_length m) + 8 < 24590
     \<and> mem_read (nm_buffer m) (unat (nm_position m)) (length rest) = Some rest"

lemma wr_view_new: "length buf = 24590 \<Longrightarrow> wr_view (new_message buf) []"
  by (simp add: wr_view_def new_message_def nm_inv_iff INITIAL_BUFFER_POSITION_def mem_read_def)

lemma wr_view_reset: "nm_inv m \<Longrightarrow> wr_view (nm_reset m) []"
  by (simp add: wr_view_def nm_reset_def nm_inv_iff INITIAL_BUFFER_POSITION_def mem_read_def)

lemma unat16_add: "unat (a :: u16) + n < 65536 \<Longrightarrow> unat (a + of_nat n) = unat a + n"
  by (simp add: unat_word_ariths unat_of_nat)

lemma put_bytes_view:
  assumes "wr_view m body" and "8 + length body + length bs < 24576"
  shows "\<exists>m'. put_bytes bs m = Some m' \<and> wr_view m' (body @ bs)"
proof -
  have inv: "nm_inv m" and pos: "unat (nm_position m) = 8 + length body"
    and len: "unat (nm_length m) = length body"
    and rd: "mem_read (nm_buffer m) 8 (length body) = Some body"
    using assms(1) by (auto simp: wr_view_def)
  obtain buf where w: "mem_write (nm_buffer m) (unat (nm_position m)) bs = Some buf"
    and m': "put_bytes bs m = Some (m\<lparr>nm_buffer := buf, nm_position := nm_position m + of_nat (length bs),
                         nm_length := nm_length m + of_nat (length bs)\<rparr>)"
    and l: "length buf = length (nm_buffer m)"
    using put_bytes_total[OF inv, of bs] pos assms(2) by auto
  have "mem_read buf 8 (length body) = Some body"
    using mem_read_write_below[OF w, of 8 "length body"] rd pos by simp
  moreover have "mem_read buf (8 + length body) (length bs) = Some bs"
    using mem_read_write_same[OF w] pos by simp
  ultimately have "mem_read buf 8 (length body + length bs) = Some (body @ bs)"
    by (rule mem_read_append)
  moreover have "unat (nm_position m + of_nat (length bs)) = 8 + length body + length bs"
    "unat (nm_length m + of_nat (length bs)) = length body + length bs"
    using unat16_add[of "nm_position m" "length bs"] unat16_add[of "nm_length m" "length bs"]
      pos len assms(2) by auto
  ultimately show ?thesis using m' l inv assms(2) by (simp add: wr_view_def nm_inv_iff)
qed

lemma add_bytes_checked_view:
  assumes "wr_view m body" and "8 + length body + length bs < 24576"
  shows "\<exists>m'. add_bytes_checked bs m = Some m' \<and> wr_view m' (body @ bs)"
proof -
  have "canAdd m (length bs)" using assms by (subst canAdd_iff) (auto simp: wr_view_def)
  then show ?thesis using put_bytes_view[OF assms] by (simp add: add_bytes_checked_def)
qed

lemma get_bytes_view:
  assumes "rd_view m (bs @ rest)"
  shows "\<exists>m'. get_bytes (length bs) m = Some (bs, m') \<and> rd_view m' rest"
proof -
  let ?p = "unat (nm_position m)"
  have inv: "nm_inv m" and cnt: "?p + (length bs + length rest) = unat (nm_length m) + 8"
    and lt: "unat (nm_length m) + 8 < 24590"
    and rd: "mem_read (nm_buffer m) ?p (length bs + length rest) = Some (bs @ rest)"
    using assms by (auto simp: rd_view_def)
  have all: "take (length bs + length rest) (drop ?p (nm_buffer m)) = bs @ rest"
    and room: "?p + (length bs + length rest) \<le> length (nm_buffer m)"
    using rd by (auto simp: mem_read_Some_iff)
  have "take (length bs) (drop ?p (nm_buffer m)) = bs"
    using arg_cong[OF all, of "take (length bs)"] by simp
  then have hd: "mem_read (nm_buffer m) ?p (length bs) = Some bs"
    using room by (simp add: mem_read_def)
  have "take (length rest) (drop (length bs) (drop ?p (nm_buffer m))) = rest"
    using arg_cong[OF all, of "drop (length bs)"] by (simp add: drop_take)
  then have tl: "mem_read (nm_buffer m) (?p + length bs) (length rest) = Some rest"
    using room by (simp add: mem_read_def add.commute)
  have "get_bytes (length bs) m = Some (bs, m\<lparr>nm_position := nm_position m + of_nat (length bs)\<rparr>)"
    using cnt lt hd by (intro get_bytes_hit) auto
  moreover have "unat (nm_position m + of_nat (length bs)) = ?p + length bs"
    using cnt lt by (intro unat16_add) auto
  ultimately show ?thesis using inv cnt lt tl by (simp add: rd_view_def nm_inv_iff)
qed

text \<open>Rewinding a written message to its first body byte makes it readable.\<close>

lemma rd_view_of_wr_view:
  assumes "wr_view m body"
  shows "rd_view (m\<lparr>nm_position := INITIAL_BUFFER_POSITION\<rparr>) body"
  using assms by (simp add: wr_view_def rd_view_def nm_inv_iff INITIAL_BUFFER_POSITION_def)

section \<open>Typed fields: what was written is what is read\<close>

datatype field =
  F8 u8 | F16 u16 | F32 u32 | F64 u64 | FString "u8 list" | FPosition position

datatype field_type = T8 | T16 | T32 | T64 | TString | TPosition

fun type_of :: "field \<Rightarrow> field_type" where
  "type_of (F8 _) = T8"
| "type_of (F16 _) = T16"
| "type_of (F32 _) = T32"
| "type_of (F64 _) = T64"
| "type_of (FString _) = TString"
| "type_of (FPosition _) = TPosition"

fun field_bytes :: "field \<Rightarrow> u8 list" where
  "field_bytes (F8 v) = le_enc8 v"
| "field_bytes (F16 v) = le_enc16 v"
| "field_bytes (F32 v) = le_enc32 v"
| "field_bytes (F64 v) = le_enc64 v"
| "field_bytes (FString s) = le_enc16 (of_nat (length s)) @ s"
| "field_bytes (FPosition p) = le_enc16 (pos_x p) @ le_enc16 (pos_y p) @ le_enc8 (pos_z p)"

fun field_ok :: "field \<Rightarrow> bool" where
  "field_ok (FString s) \<longleftrightarrow> length s \<le> 8192"
| "field_ok _ \<longleftrightarrow> True"

fun write_field :: "field \<Rightarrow> network_message \<Rightarrow> network_message option" where
  "write_field (F8 v) m = addByte v m"
| "write_field (F16 v) m = add16 v m"
| "write_field (F32 v) m = add32 v m"
| "write_field (F64 v) m = add64 v m"
| "write_field (FString s) m = addString s m"
| "write_field (FPosition p) m = addPosition p m"

fun read_field :: "field_type \<Rightarrow> network_message \<Rightarrow> (field \<times> network_message) option" where
  "read_field T8 m = map_option (map_prod F8 id) (getByte m)"
| "read_field T16 m = map_option (map_prod F16 id) (get16 m)"
| "read_field T32 m = map_option (map_prod F32 id) (get32 m)"
| "read_field T64 m = map_option (map_prod F64 id) (get64 m)"
| "read_field TString m = map_option (map_prod FString id) (getString 0 m)"
| "read_field TPosition m = map_option (map_prod FPosition id) (getPosition m)"

fun write_fields :: "field list \<Rightarrow> network_message \<Rightarrow> network_message option" where
  "write_fields [] m = Some m"
| "write_fields (f # fs) m = do { m' \<leftarrow> write_field f m; write_fields fs m' }"

fun read_fields :: "field_type list \<Rightarrow> network_message \<Rightarrow> (field list \<times> network_message) option" where
  "read_fields [] m = Some ([], m)"
| "read_fields (t # ts) m =
     do { (f, m1) \<leftarrow> read_field t m; (fs, m2) \<leftarrow> read_fields ts m1; Some (f # fs, m2) }"

abbreviation message_bytes :: "field list \<Rightarrow> u8 list" where
  "message_bytes fs \<equiv> concat (map field_bytes fs)"

lemmas enc_lengths [simp] = c8.enc_length c16.enc_length c32.enc_length c64.enc_length

lemma add_views:
  assumes "wr_view m body"
  shows "8 + length body + 1 < 24576 \<Longrightarrow> \<exists>m'. addByte v8 m = Some m' \<and> wr_view m' (body @ le_enc8 v8)"
    "8 + length body + 2 < 24576 \<Longrightarrow> \<exists>m'. add16 v16 m = Some m' \<and> wr_view m' (body @ le_enc16 v16)"
    "8 + length body + 4 < 24576 \<Longrightarrow> \<exists>m'. add32 v32 m = Some m' \<and> wr_view m' (body @ le_enc32 v32)"
    "8 + length body + 8 < 24576 \<Longrightarrow> \<exists>m'. add64 v64 m = Some m' \<and> wr_view m' (body @ le_enc64 v64)"
  using add_bytes_checked_view[OF assms, of "le_enc8 v8"] add_bytes_checked_view[OF assms, of "le_enc16 v16"]
    add_bytes_checked_view[OF assms, of "le_enc32 v32"] add_bytes_checked_view[OF assms, of "le_enc64 v64"]
  by (simp_all add: addByte_def add16_def add32_def add64_def)

lemma addString_view:
  assumes "wr_view m body" and "length s \<le> 8192" and "8 + length body + (2 + length s) < 24576"
  shows "\<exists>m'. addString s m = Some m' \<and> wr_view m' (body @ le_enc16 (of_nat (length s)) @ s)"
proof -
  have can: "canAdd m (length s + 2)" using assms by (subst canAdd_iff) (auto simp: wr_view_def)
  obtain m1 where m1: "add16 (of_nat (length s)) m = Some m1"
    and v1: "wr_view m1 (body @ le_enc16 (of_nat (length s)))"
    using add_views(2)[OF assms(1), of "of_nat (length s)"] assms(3) by auto
  obtain m2 where "put_bytes s m1 = Some m2" "wr_view m2 ((body @ le_enc16 (of_nat (length s))) @ s)"
    using put_bytes_view[OF v1, of s] assms(3) by auto
  then show ?thesis using can m1 assms(2) by (simp add: addString_def)
qed

lemma addPosition_view:
  assumes "wr_view m body" and "8 + length body + 5 < 24576"
  shows "\<exists>m'. addPosition p m = Some m' \<and> wr_view m' (body @ field_bytes (FPosition p))"
proof -
  obtain m1 where m1: "add16 (pos_x p) m = Some m1" "wr_view m1 (body @ le_enc16 (pos_x p))"
    using add_views(2)[OF assms(1), of "pos_x p"] assms(2) by auto
  then obtain m2 where m2: "add16 (pos_y p) m1 = Some m2"
      "wr_view m2 ((body @ le_enc16 (pos_x p)) @ le_enc16 (pos_y p))"
    using add_views(2)[OF m1(2), of "pos_y p"] assms(2) by auto
  obtain m3 where "addByte (pos_z p) m2 = Some m3"
      "wr_view m3 (((body @ le_enc16 (pos_x p)) @ le_enc16 (pos_y p)) @ le_enc8 (pos_z p))"
    using add_views(1)[OF m2(2), of "pos_z p"] assms(2) by auto
  with m1(1) m2(1) show ?thesis by (simp add: addPosition_def)
qed

lemma write_field_view:
  assumes "wr_view m body" "field_ok f" "8 + length body + length (field_bytes f) < 24576"
  shows "\<exists>m'. write_field f m = Some m' \<and> wr_view m' (body @ field_bytes f)"
proof (cases f)
  case (FString s)
  then show ?thesis using addString_view[OF assms(1), of s] assms(2,3) by simp
next
  case (FPosition p)
  then show ?thesis using addPosition_view[OF assms(1), of p] assms(3) by simp
qed (use add_views[OF assms(1)] assms(3) in auto)

lemma write_fields_view:
  "wr_view m body \<Longrightarrow> list_all field_ok fs \<Longrightarrow> 8 + length body + length (message_bytes fs) < 24576 \<Longrightarrow>
   \<exists>m'. write_fields fs m = Some m' \<and> wr_view m' (body @ message_bytes fs)"
proof (induction fs arbitrary: m body)
  case Nil
  then show ?case by simp
next
  case (Cons f fs)
  obtain m1 where m1: "write_field f m = Some m1" "wr_view m1 (body @ field_bytes f)"
    using write_field_view[OF Cons.prems(1), of f] Cons.prems(2,3) by auto
  then show ?case using Cons.IH[OF m1(2)] Cons.prems(2,3) by auto
qed

lemma get_typed_view:
  assumes "rd_view m (e @ rest)" "length e = n" "d e = v"
  shows "\<exists>m'. map_option (map_prod d id) (get_bytes n m) = Some (v, m') \<and> rd_view m' rest"
  using get_bytes_view[OF assms(1)] assms(2,3) by force

lemma get_views:
  shows "rd_view m (le_enc8 v8 @ rest) \<Longrightarrow> \<exists>m'. getByte m = Some (v8, m') \<and> rd_view m' rest"
    "rd_view m (le_enc16 v16 @ rest) \<Longrightarrow> \<exists>m'. get16 m = Some (v16, m') \<and> rd_view m' rest"
    "rd_view m (le_enc32 v32 @ rest) \<Longrightarrow> \<exists>m'. get32 m = Some (v32, m') \<and> rd_view m' rest"
    "rd_view m (le_enc64 v64 @ rest) \<Longrightarrow> \<exists>m'. get64 m = Some (v64, m') \<and> rd_view m' rest"
  unfolding getByte_def get16_def get32_def get64_def
  by (erule get_typed_view; simp add: c8.dec_enc c16.dec_enc c32.dec_enc c64.dec_enc)+

lemma getString_view:
  assumes "rd_view m (le_enc16 (of_nat (length s)) @ s @ rest)" and "length s < 65536"
  shows "\<exists>m'. getString 0 m = Some (s, m') \<and> rd_view m' rest"
proof -
  obtain m1 where m1: "get16 m = Some (of_nat (length s), m1)" "rd_view m1 (s @ rest)"
    using get_views(2)[OF assms(1)] by blast
  have len: "unat (of_nat (length s) :: u16) = length s" using assms(2) by (simp add: unat_of_nat)
  then have ul: "uint (of_nat (length s) :: u16) = int (length s)"
    by (metis uint_nat)
  obtain m2 where g: "get_bytes (length s) m1 = Some (s, m2)" and v: "rd_view m2 rest"
    using get_bytes_view[OF m1(2)] by blast
  from m1(2) have "canRead m1 (int (length s)) = (True, m1)"
    by (auto simp: canRead_nat rd_view_def)
  with g have "mem_read (nm_buffer m1) (unat (nm_position m1)) (length s) = Some s"
    and "m2 = m1\<lparr>nm_position := nm_position m1 + of_nat (length s)\<rparr>"
    by (auto simp: get_bytes_def)
  then show ?thesis
    using v \<open>canRead m1 _ = _\<close> by (simp add: getString_def m1(1) len ul)
qed

lemma getPosition_view:
  assumes "rd_view m (field_bytes (FPosition p) @ rest)"
  shows "\<exists>m'. getPosition m = Some (p, m') \<and> rd_view m' rest"
proof -
  obtain m1 where m1: "get16 m = Some (pos_x p, m1)"
      "rd_view m1 (le_enc16 (pos_y p) @ le_enc8 (pos_z p) @ rest)"
    using get_views(2)[of m "pos_x p"] assms by auto
  obtain m2 where m2: "get16 m1 = Some (pos_y p, m2)" "rd_view m2 (le_enc8 (pos_z p) @ rest)"
    using get_views(2)[OF m1(2)] by auto
  obtain m3 where "getByte m2 = Some (pos_z p, m3)" "rd_view m3 rest"
    using get_views(1)[OF m2(2)] by auto
  with m1(1) m2(1) show ?thesis by (simp add: getPosition_def)
qed

lemma read_field_view:
  assumes "rd_view m (field_bytes f @ rest)" "field_ok f"
  shows "\<exists>m'. read_field (type_of f) m = Some (f, m') \<and> rd_view m' rest"
proof (cases f)
  case (FString s)
  then show ?thesis using getString_view[of m s rest] assms by auto
next
  case (FPosition p)
  then show ?thesis using getPosition_view[of m p rest] assms by auto
qed (use get_views[of m _ rest] assms(1) in fastforce)+

lemma read_fields_view:
  "rd_view m (message_bytes fs @ rest) \<Longrightarrow> list_all field_ok fs \<Longrightarrow>
   \<exists>m'. read_fields (map type_of fs) m = Some (fs, m') \<and> rd_view m' rest"
proof (induction fs arbitrary: m)
  case Nil
  then show ?case by simp
next
  case (Cons f fs)
  obtain m1 where "read_field (type_of f) m = Some (f, m1)" "rd_view m1 (message_bytes fs @ rest)"
    using read_field_view[of m f "message_bytes fs @ rest"] Cons.prems by auto
  then show ?case using Cons.IH[of m1] Cons.prems(2) by auto
qed

section \<open>Memory safety of typed access\<close>

text \<open>What a reader or a writer returns when it stayed inside the array and kept its size.\<close>

definition reads_safely :: "('a \<times> network_message) option \<Rightarrow> bool" where
  "reads_safely r \<longleftrightarrow> (\<exists>v m'. r = Some (v, m') \<and> nm_inv m')"

definition writes_safely :: "network_message option \<Rightarrow> bool" where
  "writes_safely r \<longleftrightarrow> (\<exists>m'. r = Some m' \<and> nm_inv m')"

lemma add_bytes_checked_safe:
  assumes "nm_inv m" "length bs < 2 ^ 32"
  shows "\<exists>m'. add_bytes_checked bs m = Some m' \<and> nm_inv m'"
  using assms by (rule put_bytes_checked_total)

lemma addString_safe:
  assumes "nm_inv m"
  shows "\<exists>m'. addString s m = Some m' \<and> nm_inv m'"
proof (cases "\<not> canAdd m (length s + 2) \<or> length s > 8192")
  case True
  then show ?thesis using assms by (simp add: addString_def)
next
  case False
  then have fits: "unat (nm_position m) + (length s + 2) < 24576"
    using canAdd_iff[of "length s + 2" m] by simp
  let ?hd = "le_enc16 (of_nat (length s))"
  have "unat (nm_position m) + length ?hd \<le> 24590" using fits by simp
  then obtain buf where put: "put_bytes ?hd m = Some (m\<lparr>nm_buffer := buf,
        nm_position := nm_position m + of_nat (length ?hd), nm_length := nm_length m + of_nat (length ?hd)\<rparr>)"
    (is "_ = Some ?m1") by (rule put_bytes_total[OF assms])
  have "canAdd m (length ?hd)" using fits by (subst canAdd_iff) auto
  with put have a16: "add16 (of_nat (length s)) m = Some ?m1"
    by (simp add: add16_def add_bytes_checked_def)
  have inv1: "nm_inv ?m1" using nm_inv_put_bytes[OF put assms] .
  have "unat (nm_position ?m1) = unat (nm_position m) + 2"
    using unat16_add[of "nm_position m" 2] fits by simp
  then have "unat (nm_position ?m1) + length s \<le> 24590" using fits by linarith
  then obtain m2 where "put_bytes s ?m1 = Some m2" by (rule put_bytes_total[OF inv1]) blast
  then show ?thesis using False a16 nm_inv_put_bytes inv1 by (simp add: addString_def)
qed

lemma addPosition_safe:
  assumes "nm_inv m"
  shows "\<exists>m'. addPosition p m = Some m' \<and> nm_inv m'"
proof -
  obtain m1 where "add16 (pos_x p) m = Some m1" "nm_inv m1"
    using add_bytes_checked_safe[OF assms, of "le_enc16 (pos_x p)"] by (auto simp: add16_def)
  moreover then obtain m2 where "add16 (pos_y p) m1 = Some m2" "nm_inv m2"
    using add_bytes_checked_safe[of m1 "le_enc16 (pos_y p)"] by (auto simp: add16_def)
  moreover then obtain m3 where "addByte (pos_z p) m2 = Some m3" "nm_inv m3"
    using add_bytes_checked_safe[of m2 "le_enc8 (pos_z p)"] by (auto simp: addByte_def)
  ultimately show ?thesis by (simp add: addPosition_def)
qed

lemma write_field_safe:
  assumes "nm_inv m"
  shows "\<exists>m'. write_field f m = Some m' \<and> nm_inv m'"
proof (cases f)
  case (FString s)
  then show ?thesis using addString_safe[OF assms] by simp
next
  case (FPosition p)
  then show ?thesis using addPosition_safe[OF assms] by simp
qed (use add_bytes_checked_safe[OF assms] in \<open>auto simp: addByte_def add16_def add32_def add64_def\<close>)

lemma get_typed_safe:
  assumes "nm_inv m"
  shows "\<exists>v m'. map_option (map_prod d id) (get_bytes n m) = Some (v, m') \<and> nm_inv m'"
  using get_bytes_total[OF assms, of n] assms by (auto simp: nm_inv_iff)

lemma getString_safe:
  assumes "nm_inv m"
  shows "\<exists>s m'. getString n m = Some (s, m') \<and> nm_inv m'"
proof -
  obtain len m1 where 1: "(if n = 0 then get16 m else Some (n, m)) = Some (len, m1)" "nm_inv m1"
    using get_typed_safe[OF assms, of le_dec16 2] assms
    by (cases "n = 0") (simp_all add: get16_def, blast)
  with canRead_nat[of m1 "unat len"] show ?thesis
    by (auto simp: getString_def mem_read_def nm_inv_iff)
qed

lemma read_field_safe:
  assumes "nm_inv m"
  shows "\<exists>f m'. read_field t m = Some (f, m') \<and> nm_inv m'"
proof (cases t)
  case TString
  then show ?thesis using getString_safe[OF assms, of 0] by auto
next
  case TPosition
  obtain x m1 where "get16 m = Some (x, m1)" "nm_inv m1"
    using get_typed_safe[OF assms, of le_dec16 2] unfolding get16_def by blast
  moreover then obtain y m2 where "get16 m1 = Some (y, m2)" "nm_inv m2"
    using get_typed_safe[of m1 le_dec16 2] unfolding get16_def by blast
  moreover then obtain z m3 where "getByte m2 = Some (z, m3)" "nm_inv m3"
    using get_typed_safe[of m2 le_dec8 1] unfolding getByte_def by blast
  ultimately show ?thesis using TPosition by (simp add: getPosition_def)
qed (use get_typed_safe[OF assms] in \<open>fastforce simp: getByte_def get16_def get32_def get64_def\<close>)+

lemma writes_safely_bind:
  "writes_safely r \<Longrightarrow> (\<And>m'. nm_inv m' \<Longrightarrow> writes_safely (f m')) \<Longrightarrow> writes_safely (Option.bind r f)"
  by (auto simp: writes_safely_def)

lemma typed_reads_safe:
  assumes "nm_inv m"
  shows "reads_safely (getByte m)" "reads_safely (get16 m)" "reads_safely (get32 m)" "reads_safely (get64 m)"
    "reads_safely (getString n m)" "reads_safely (getPosition m)"
proof -
  show "reads_safely (getByte m)" "reads_safely (get16 m)" "reads_safely (get32 m)" "reads_safely (get64 m)"
    unfolding reads_safely_def getByte_def get16_def get32_def get64_def by (rule get_typed_safe[OF assms])+
  show "reads_safely (getString n m)" using getString_safe[OF assms] by (simp add: reads_safely_def)
  show "reads_safely (getPosition m)"
    using read_field_safe[OF assms, of TPosition] by (auto simp: reads_safely_def bind_eq_Some_conv)
qed

lemma typed_writes_safe:
  assumes "nm_inv m"
  shows "writes_safely (addByte v8 m)" "writes_safely (add16 v16 m)" "writes_safely (add32 v32 m)" "writes_safely (add64 v64 m)"
    "writes_safely (addString str m)" "writes_safely (addPosition pos m)" "writes_safely (addBytes bs m)"
    "k < 2 ^ 32 \<Longrightarrow> writes_safely (addPaddingBytes k m)"
proof -
  show "writes_safely (addByte v8 m)" "writes_safely (add16 v16 m)" "writes_safely (add32 v32 m)" "writes_safely (add64 v64 m)"
    using add_bytes_checked_safe[OF assms] by (simp_all add: writes_safely_def addByte_def add16_def add32_def add64_def)
  show "writes_safely (addString str m)" using addString_safe[OF assms] by (simp add: writes_safely_def)
  show "writes_safely (addPosition pos m)" using addPosition_safe[OF assms] by (simp add: writes_safely_def)
  show "writes_safely (addBytes bs m)"
    using add_bytes_checked_safe[OF assms, of bs] assms by (auto simp: writes_safely_def addBytes_def add_bytes_checked_def)
  show "k < 2 ^ 32 \<Longrightarrow> writes_safely (addPaddingBytes k m)"
    using add_bytes_checked_safe[OF assms, of "replicate k 0x33"] assms
    by (auto simp: writes_safely_def addPaddingBytes_def add_bytes_checked_def)
qed

lemma item_writes_safe:
  assumes "nm_inv m"
  shows "writes_safely (addItem_id its i n m)" "writes_safely (addItem its i cnt fluid m)" "writes_safely (addItemId its i m)"
proof -
  have done': "writes_safely (Some m')" if "nm_inv m'" for m' using that by (simp add: writes_safely_def)
  show "writes_safely (addItem_id its i n m)" "writes_safely (addItem its i cnt fluid m)"
    unfolding addItem_id_def addItem_def Let_def
    by (rule writes_safely_bind[OF typed_writes_safe(2)[OF assms]]; simp add: typed_writes_safe(1) done')+
  show "writes_safely (addItemId its i m)" unfolding addItemId_def by (rule typed_writes_safe(2)[OF assms])
qed

lemma getPreviousByte_None:
  assumes "nm_inv m"
  shows "getPreviousByte m = None \<longleftrightarrow> 24590 < unat (nm_position m)"
proof (cases "nm_position m = 0")
  case False
  then have "unat (nm_position m - 1) = unat (nm_position m) - 1" by (simp add: unat_minus_one)
  moreover have "0 < unat (nm_position m)" using False by (simp add: unat_gt_0)
  ultimately show ?thesis using False assms
    by (auto simp: getPreviousByte_def Let_def mem_read_def nm_inv_iff)
qed (simp add: getPreviousByte_def)

section \<open>Properties\<close>

text \<open>C27: memory safety of the message buffer. Whatever the length and position counters of a message hold (also after
  \<open>skipBytes\<close> or \<open>setLength\<close> with hostile values), every reader and every writer stays inside the array and keeps its
  size, with one exception: \<open>getPreviousByte\<close> has no upper check and leaves the array exactly when the position is
  beyond its end. Padding is asked for fewer than \<open>2^32\<close> bytes.\<close>

theorem message_access_safe:
  assumes "nm_inv m" "k < 2 ^ 32"
  shows "reads_safely (getByte m) \<and> reads_safely (get16 m) \<and> reads_safely (get32 m) \<and> reads_safely (get64 m) \<and>
    reads_safely (getString n m) \<and> reads_safely (getPosition m) \<and> getLengthHeader m \<noteq> None \<and>
    writes_safely (addByte v8 m) \<and> writes_safely (add16 v16 m) \<and> writes_safely (add32 v32 m) \<and> writes_safely (add64 v64 m) \<and>
    writes_safely (addString str m) \<and> writes_safely (addBytes bs m) \<and> writes_safely (addPaddingBytes k m) \<and>
    writes_safely (addPosition pos m) \<and> writes_safely (addItem_id its i cnt m) \<and>
    writes_safely (addItem its i itemCount fluid m) \<and> writes_safely (addItemId its i m) \<and>
    (getPreviousByte m = None \<longleftrightarrow> 24590 < unat (nm_position m))"
  using typed_reads_safe[OF assms(1)] typed_writes_safe[OF assms(1)] item_writes_safe[OF assms(1)] getPreviousByte_None[OF assms(1)] assms
  by (simp add: getLengthHeader_def mem_read_def nm_inv_iff)

theorem message_access_safe_witness:
  "reads_safely (getString 0 (skipBytes 30000 (new_message (replicate 24590 7)))) \<and>
   writes_safely (addBytes (replicate 9000 1) (skipBytes 30000 (new_message (replicate 24590 7)))) \<and>
   getPreviousByte (skipBytes 30000 (new_message (replicate 24590 7))) = None"
proof -
  let ?m = "skipBytes 30000 (new_message (replicate 24590 7))"
  have "nm_inv ?m" by (simp add: nm_inv_iff skipBytes_def new_message_def)
  moreover have "24590 < unat (nm_position ?m)" by (simp add: skipBytes_def new_message_def INITIAL_BUFFER_POSITION_def)
  ultimately show ?thesis using message_access_safe[of ?m 0 0 _ _ _ _ _ "replicate 9000 1"] by simp
qed

text \<open>round trip of the wire format. Any sequence of typed fields (integers of 8 to 64 bits,
  strings of at most 8192 bytes, positions) that fits the body is read back unchanged from the first
  body byte with the same sequence of types.\<close>

theorem message_fields_roundtrip:
  assumes "length buf = 24590" and "list_all field_ok fs" and "8 + length (message_bytes fs) < 24576"
  shows "\<exists>m m'. write_fields fs (new_message buf) = Some m
           \<and> read_fields (map type_of fs) (m\<lparr>nm_position := INITIAL_BUFFER_POSITION\<rparr>) = Some (fs, m')"
proof -
  obtain m where m: "write_fields fs (new_message buf) = Some m" "wr_view m (message_bytes fs)"
    using write_fields_view[OF wr_view_new[OF assms(1)], of fs] assms(2,3) by auto
  have "rd_view (m\<lparr>nm_position := INITIAL_BUFFER_POSITION\<rparr>) (message_bytes fs @ [])"
    using rd_view_of_wr_view[OF m(2)] by simp
  from read_fields_view[OF this assms(2)] show ?thesis using m(1) by blast
qed

theorem message_fields_roundtrip_witness:
  "\<exists>m m'. write_fields [F8 0xB4, FString [72, 105], FPosition (Position 1000 2000 7), F32 123456]
             (new_message (replicate 24590 0)) = Some m
     \<and> read_fields [T8, TString, TPosition, T32] (m\<lparr>nm_position := INITIAL_BUFFER_POSITION\<rparr>)
         = Some ([F8 0xB4, FString [72, 105], FPosition (Position 1000 2000 7), F32 123456], m')"
  using message_fields_roundtrip[of "replicate 24590 0"
      "[F8 0xB4, FString [72, 105], FPosition (Position 1000 2000 7), F32 123456]"] by simp

text \<open>reading past the received length is detected: the reader returns zero, sets the overrun
  flag and does not move, and the flag survives every later read.\<close>

theorem read_past_end:
  assumes "unat (nm_length m) + 8 < unat (nm_position m) + 2"
  shows "get16 m = Some (0, m\<lparr>nm_overrun := True\<rparr>) \<and>
         (\<forall>n bs m'. get_bytes n (m\<lparr>nm_overrun := True\<rparr>) = Some (bs, m') \<longrightarrow> nm_overrun m')"
  using get_bytes_miss[OF assms]
  by (auto simp: get16_def le_dec16_def numeral_2_eq_2 get_bytes_def canRead_nat split: if_splits)

theorem read_past_end_witness:
  "get16 (new_message (replicate 24590 9)\<lparr>nm_position := 9\<rparr>)
    = Some (0, new_message (replicate 24590 9)\<lparr>nm_position := 9, nm_overrun := True\<rparr>)"
  using read_past_end[of "new_message (replicate 24590 9)\<lparr>nm_position := 9\<rparr>"]
  by (simp add: new_message_def INITIAL_BUFFER_POSITION_def)

end
