(* ===== verification/Game_Packets.thy ===== *)
theory Game_Packets
  imports Network_Message
begin

text \<open>
  The packets of the game client (\<open>ProtocolGame::parsePacket\<close> and the \<open>parse\<close> methods of
  \<open>src/src/protocolgame.cpp\<close>): each reads its fields from a received message and queues a request for
  the dispatcher thread. A request carries the arguments that the code captures in the task; requests
  queued with \<open>addGameTaskTimed\<close> expire. A parser returns the request it queues, if any, and the
  message after reading; it has no value when it would leave the buffer.
\<close>

section \<open>Requests\<close>

datatype fightMode = FIGHTMODE_ATTACK | FIGHTMODE_BALANCED | FIGHTMODE_DEFENSE

type_synonym bytes = "u8 list"

datatype (plugins only: size) game_request =
    Logout | PlayerReceivePingBack | PlayerReceivePing | ParsePlayerExtendedOpcode u8 bytes
  | PlayerAutoWalk "direction list" | PlayerMove direction | PlayerStopAutoWalk | PlayerTurn direction
  | PlayerEquipItem u16 | PlayerMoveThing position u16 u8 position u8 | PlayerLookInShop u16 u8
  | PlayerPurchaseItem u16 u8 u8 bool bool | PlayerSellItem u16 u8 u8 bool | PlayerCloseShop
  | PlayerRequestTrade position u8 u32 u16 | PlayerLookInTrade bool u8 | PlayerAcceptTrade | PlayerCloseTrade
  | PlayerUseItem position u8 u8 u16 | PlayerUseItemEx position u8 u16 position u8 u16
  | PlayerUseWithCreature position u8 u32 u16 | PlayerRotateItem position u8 u16 | PlayerCloseContainer u8
  | PlayerMoveUpContainer u8 | PlayerWriteItem u32 bytes | PlayerUpdateHouseWindow u8 u32 bytes
  | PlayerWrapItem position u8 u16 | PlayerLookAt position u8 | PlayerLookInBattleList u32
  | PlayerSay u16 u8 bytes bytes | PlayerRequestChannels | PlayerOpenChannel u16 | PlayerCloseChannel u16
  | PlayerOpenPrivateChannel bytes | PlayerCloseNpcChannel | PlayerSetFightModes fightMode bool bool
  | PlayerSetAttackedCreature u32 | PlayerFollowCreature u32 | PlayerInviteToParty u32 | PlayerJoinParty u32
  | PlayerRevokePartyInvitation u32 | PlayerPassPartyLeadership u32 | PlayerLeaveParty
  | PlayerEnableSharedPartyExperience bool | PlayerCreatePrivateChannel | PlayerChannelInvite bytes
  | PlayerChannelExclude bytes | PlayerCancelAttackAndFollow | PlayerUpdateContainer u8 | PlayerBrowseField position
  | PlayerSeekInContainer u8 u16 | PlayerRequestOutfit | PlayerChangeOutfit u16 u8 u8 u8 u8 u8
  | PlayerRequestAddVip bytes | PlayerRequestRemoveVip u32 | PlayerReportBug bytes position u8
  | PlayerDebugAssert bytes bytes bytes bytes | PlayerShowQuestLog | PlayerShowQuestLine u16
  | PlayerReportRuleViolation bytes u8 u8 bytes bytes

type_synonym queued = "bool \<times> game_request"
type_synonym packet_parser = "network_message \<Rightarrow> (queued option \<times> network_message) option"

definition addGameTask :: "game_request \<Rightarrow> packet_parser" where
  "addGameTask r m = Some (Some (False, r), m)"

definition addGameTaskTimed :: "game_request \<Rightarrow> packet_parser" where
  "addGameTaskTimed r m = Some (Some (True, r), m)"

definition ignore :: packet_parser where
  "ignore m = Some (None, m)"

section \<open>Parsers\<close>

definition bad_name :: "bytes \<Rightarrow> bool" where
  "bad_name s \<longleftrightarrow> s = [] \<or> length s > 255"

definition parse_name :: "(bytes \<Rightarrow> game_request) \<Rightarrow> packet_parser" where
  "parse_name r m = do { (name, m) \<leftarrow> getString 0 m; if bad_name name \<or> nm_overrun m then ignore m else addGameTask (r name) m }"

definition parseChannelInvite :: packet_parser where
  "parseChannelInvite = parse_name PlayerChannelInvite"

definition parseChannelExclude :: packet_parser where
  "parseChannelExclude = parse_name PlayerChannelExclude"

definition parseOpenChannel :: packet_parser where
  "parseOpenChannel m = do { (channelId, m) \<leftarrow> get16 m; addGameTask (PlayerOpenChannel channelId) m }"

definition parseCloseChannel :: packet_parser where
  "parseCloseChannel m = do { (channelId, m) \<leftarrow> get16 m; addGameTask (PlayerCloseChannel channelId) m }"

definition parseOpenPrivateChannel :: packet_parser where
  "parseOpenPrivateChannel = parse_name PlayerOpenPrivateChannel"

definition raw_direction :: "u8 \<Rightarrow> direction option" where
  "raw_direction rawdir =
     (if rawdir = 1 then Some DIRECTION_EAST else if rawdir = 2 then Some DIRECTION_NORTHEAST
      else if rawdir = 3 then Some DIRECTION_NORTH else if rawdir = 4 then Some DIRECTION_NORTHWEST
      else if rawdir = 5 then Some DIRECTION_WEST else if rawdir = 6 then Some DIRECTION_SOUTHWEST
      else if rawdir = 7 then Some DIRECTION_SOUTH else if rawdir = 8 then Some DIRECTION_SOUTHEAST else None)"

text \<open>The directions are read backwards from the end of the message.\<close>

fun walk_path :: "nat \<Rightarrow> network_message \<Rightarrow> (direction list \<times> network_message) option" where
  "walk_path 0 m = Some ([], m)"
| "walk_path (Suc n) m =
     do { (rawdir, m) \<leftarrow> getPreviousByte m; (path, m) \<leftarrow> walk_path n m;
          Some (case raw_direction rawdir of Some d \<Rightarrow> d # path | None \<Rightarrow> path, m) }"

definition parseAutoWalk :: packet_parser where
  "parseAutoWalk m =
     do { (numdirs, m) \<leftarrow> getByte m;
          if numdirs = 0 \<or> uint (nm_position m) + uint numdirs \<noteq> uint (nm_length m) + 8 then ignore m
          else if nm_overrun m then ignore m
          else do { (path, m) \<leftarrow> walk_path (unat numdirs) (skipBytes (uint numdirs) m);
                    if path = [] then ignore m else addGameTask (PlayerAutoWalk path) m } }"

definition parseSetOutfit :: packet_parser where
  "parseSetOutfit m =
     do { (lookType, m) \<leftarrow> get16 m; (lookHead, m) \<leftarrow> getByte m; (lookBody, m) \<leftarrow> getByte m;
          (lookLegs, m) \<leftarrow> getByte m; (lookFeet, m) \<leftarrow> getByte m; (lookAddons, m) \<leftarrow> getByte m;
          if nm_overrun m then ignore m
          else if lookHead > 132 \<or> lookBody > 132 \<or> lookLegs > 132 \<or> lookFeet > 132 then ignore m
          else if lookAddons > 3 then ignore m
          else addGameTask (PlayerChangeOutfit lookType lookHead lookBody lookLegs lookFeet lookAddons) m }"

definition parseUseItem :: packet_parser where
  "parseUseItem m =
     do { (pos, m) \<leftarrow> getPosition m; (spriteId, m) \<leftarrow> get16 m; (stackpos, m) \<leftarrow> getByte m; (index, m) \<leftarrow> getByte m;
          addGameTaskTimed (PlayerUseItem pos stackpos index spriteId) m }"

definition parseUseItemEx :: packet_parser where
  "parseUseItemEx m =
     do { (fromPos, m) \<leftarrow> getPosition m; (fromSpriteId, m) \<leftarrow> get16 m; (fromStackPos, m) \<leftarrow> getByte m;
          (toPos, m) \<leftarrow> getPosition m; (toSpriteId, m) \<leftarrow> get16 m; (toStackPos, m) \<leftarrow> getByte m;
          addGameTaskTimed (PlayerUseItemEx fromPos fromStackPos fromSpriteId toPos toStackPos toSpriteId) m }"

definition parseUseWithCreature :: packet_parser where
  "parseUseWithCreature m =
     do { (fromPos, m) \<leftarrow> getPosition m; (spriteId, m) \<leftarrow> get16 m; (fromStackPos, m) \<leftarrow> getByte m; (creatureId, m) \<leftarrow> get32 m;
          addGameTaskTimed (PlayerUseWithCreature fromPos fromStackPos creatureId spriteId) m }"

definition parseCloseContainer :: packet_parser where
  "parseCloseContainer m = do { (cid, m) \<leftarrow> getByte m; addGameTask (PlayerCloseContainer cid) m }"

definition parseUpArrowContainer :: packet_parser where
  "parseUpArrowContainer m = do { (cid, m) \<leftarrow> getByte m; addGameTask (PlayerMoveUpContainer cid) m }"

definition parseUpdateContainer :: packet_parser where
  "parseUpdateContainer m = do { (cid, m) \<leftarrow> getByte m; addGameTask (PlayerUpdateContainer cid) m }"

definition parseThrow :: packet_parser where
  "parseThrow m =
     do { (fromPos, m) \<leftarrow> getPosition m; (spriteId, m) \<leftarrow> get16 m; (fromStackpos, m) \<leftarrow> getByte m;
          (toPos, m) \<leftarrow> getPosition m; (count, m) \<leftarrow> getByte m;
          if nm_overrun m then ignore m
          else if count = 0 then ignore m
          else if toPos \<noteq> fromPos then addGameTaskTimed (PlayerMoveThing fromPos spriteId fromStackpos toPos count) m
          else ignore m }"

definition parseLookAt :: packet_parser where
  "parseLookAt m =
     do { (pos, m) \<leftarrow> getPosition m; (stackpos, m) \<leftarrow> getByte (skipBytes 2 m);
          addGameTaskTimed (PlayerLookAt pos stackpos) m }"

definition parseLookInBattleList :: packet_parser where
  "parseLookInBattleList m = do { (creatureId, m) \<leftarrow> get32 m; addGameTaskTimed (PlayerLookInBattleList creatureId) m }"

definition TALKTYPE_PRIVATE_TO :: u8 where "TALKTYPE_PRIVATE_TO = 5"
definition TALKTYPE_CHANNEL_Y :: u8 where "TALKTYPE_CHANNEL_Y = 7"
definition TALKTYPE_CHANNEL_R1 :: u8 where "TALKTYPE_CHANNEL_R1 = 14"
definition TALKTYPE_PRIVATE_RED_TO :: u8 where "TALKTYPE_PRIVATE_RED_TO = 16"

definition say_text :: "u16 \<Rightarrow> u8 \<Rightarrow> bytes \<Rightarrow> packet_parser" where
  "say_text channelId type receiver m =
     (if nm_overrun m then ignore m
      else do { (words, m) \<leftarrow> getString 0 m;
                if bad_name words then ignore m else addGameTask (PlayerSay channelId type receiver words) m })"

definition parseSay :: packet_parser where
  "parseSay m =
     do { (type, m) \<leftarrow> getByte m;
          if type = TALKTYPE_PRIVATE_TO \<or> type = TALKTYPE_PRIVATE_RED_TO then
            do { (receiver, m) \<leftarrow> getString 0 m; if bad_name receiver then ignore m else say_text 0 type receiver m }
          else if type = TALKTYPE_CHANNEL_Y \<or> type = TALKTYPE_CHANNEL_R1 then
            do { (channelId, m) \<leftarrow> get16 m; say_text channelId type [] m }
          else say_text 0 type [] m }"

definition parseFightModes :: packet_parser where
  "parseFightModes m =
     do { (rawFightMode, m) \<leftarrow> getByte m; (rawChaseMode, m) \<leftarrow> getByte m; (rawSecureMode, m) \<leftarrow> getByte m;
          addGameTask (PlayerSetFightModes
            (if rawFightMode = 1 then FIGHTMODE_ATTACK else if rawFightMode = 2 then FIGHTMODE_BALANCED else FIGHTMODE_DEFENSE)
            (rawChaseMode \<noteq> 0) (rawSecureMode \<noteq> 0)) m }"

definition parseAttack :: packet_parser where
  "parseAttack m = do { (creatureId, m) \<leftarrow> get32 m; addGameTask (PlayerSetAttackedCreature creatureId) m }"

definition parseFollow :: packet_parser where
  "parseFollow m = do { (creatureId, m) \<leftarrow> get32 m; addGameTask (PlayerFollowCreature creatureId) m }"

definition parseEquipObject :: packet_parser where
  "parseEquipObject m = do { (spriteId, m) \<leftarrow> get16 m; addGameTaskTimed (PlayerEquipItem spriteId) m }"

definition parseTextWindow :: packet_parser where
  "parseTextWindow m =
     do { (windowTextId, m) \<leftarrow> get32 m; (newText, m) \<leftarrow> getString 0 m;
          if nm_overrun m then ignore m else if length newText > 8192 then ignore m
          else addGameTask (PlayerWriteItem windowTextId newText) m }"

definition parseHouseWindow :: packet_parser where
  "parseHouseWindow m =
     do { (doorId, m) \<leftarrow> getByte m; (ident, m) \<leftarrow> get32 m; (words, m) \<leftarrow> getString 0 m;
          if nm_overrun m then ignore m else if length words > 8192 then ignore m
          else addGameTask (PlayerUpdateHouseWindow doorId ident words) m }"

definition parseWrapItem :: packet_parser where
  "parseWrapItem m =
     do { (pos, m) \<leftarrow> getPosition m; (spriteId, m) \<leftarrow> get16 m; (stackpos, m) \<leftarrow> getByte m;
          addGameTaskTimed (PlayerWrapItem pos stackpos spriteId) m }"

definition parseLookInShop :: packet_parser where
  "parseLookInShop m = do { (ident, m) \<leftarrow> get16 m; (count, m) \<leftarrow> getByte m; addGameTaskTimed (PlayerLookInShop ident count) m }"

definition parsePlayerPurchase :: packet_parser where
  "parsePlayerPurchase m =
     do { (ident, m) \<leftarrow> get16 m; (count, m) \<leftarrow> getByte m; (amount, m) \<leftarrow> getByte m;
          (ignoreCap, m) \<leftarrow> getByte m; (inBackpacks, m) \<leftarrow> getByte m;
          if nm_overrun m then ignore m else if amount = 0 then ignore m
          else addGameTaskTimed (PlayerPurchaseItem ident count amount (ignoreCap \<noteq> 0) (inBackpacks \<noteq> 0)) m }"

definition parsePlayerSale :: packet_parser where
  "parsePlayerSale m =
     do { (ident, m) \<leftarrow> get16 m; (count, m) \<leftarrow> getByte m; (amount, m) \<leftarrow> getByte m; (ignoreEquipped, m) \<leftarrow> getByte m;
          if nm_overrun m then ignore m else if amount = 0 then ignore m
          else addGameTaskTimed (PlayerSellItem ident count amount (ignoreEquipped \<noteq> 0)) m }"

definition parseRequestTrade :: packet_parser where
  "parseRequestTrade m =
     do { (pos, m) \<leftarrow> getPosition m; (spriteId, m) \<leftarrow> get16 m; (stackpos, m) \<leftarrow> getByte m; (playerId, m) \<leftarrow> get32 m;
          addGameTask (PlayerRequestTrade pos stackpos playerId spriteId) m }"

definition parseLookInTrade :: packet_parser where
  "parseLookInTrade m =
     do { (counterOffer, m) \<leftarrow> getByte m; (index, m) \<leftarrow> getByte m; addGameTaskTimed (PlayerLookInTrade (counterOffer = 1) index) m }"

definition parseAddVip :: packet_parser where
  "parseAddVip = parse_name PlayerRequestAddVip"

definition parseRemoveVip :: packet_parser where
  "parseRemoveVip m = do { (guid, m) \<leftarrow> get32 m; addGameTask (PlayerRequestRemoveVip guid) m }"

definition parseRotateItem :: packet_parser where
  "parseRotateItem m =
     do { (pos, m) \<leftarrow> getPosition m; (spriteId, m) \<leftarrow> get16 m; (stackpos, m) \<leftarrow> getByte m;
          addGameTaskTimed (PlayerRotateItem pos stackpos spriteId) m }"

definition REPORT_TYPE_NAME :: u8 where "REPORT_TYPE_NAME = 0"
definition REPORT_TYPE_STATEMENT :: u8 where "REPORT_TYPE_STATEMENT = 1"
definition BUG_CATEGORY_MAP :: u8 where "BUG_CATEGORY_MAP = 0"

definition report_violation :: "bytes \<Rightarrow> u8 \<Rightarrow> u8 \<Rightarrow> bytes \<Rightarrow> bytes \<Rightarrow> packet_parser" where
  "report_violation targetName reportType reportReason comment translation m =
     (if nm_overrun m then ignore m
      else if targetName = [] \<or> length targetName > 255 \<or> length comment > 4096 \<or> length translation > 4096 then ignore m
      else addGameTask (PlayerReportRuleViolation targetName reportType reportReason comment translation) m)"

definition parseRuleViolationReport :: packet_parser where
  "parseRuleViolationReport m =
     do { (reportType, m) \<leftarrow> getByte m; (reportReason, m) \<leftarrow> getByte m;
          (targetName, m) \<leftarrow> getString 0 m; (comment, m) \<leftarrow> getString 0 m;
          if reportType = REPORT_TYPE_NAME then
            do { (translation, m) \<leftarrow> getString 0 m; report_violation targetName reportType reportReason comment translation m }
          else if reportType = REPORT_TYPE_STATEMENT then
            do { (translation, m) \<leftarrow> getString 0 m; (statementId, m) \<leftarrow> get32 m;
                 report_violation targetName reportType reportReason comment translation m }
          else report_violation targetName reportType reportReason comment [] m }"

definition report_bug :: "u8 \<Rightarrow> bytes \<Rightarrow> position \<Rightarrow> packet_parser" where
  "report_bug category message pos m =
     (if nm_overrun m then ignore m
      else if message = [] \<or> length message > 4096 then ignore m
      else addGameTask (PlayerReportBug message pos category) m)"

definition parseBugReport :: packet_parser where
  "parseBugReport m =
     do { (category, m) \<leftarrow> getByte m; (message, m) \<leftarrow> getString 0 m;
          if category = BUG_CATEGORY_MAP then do { (pos, m) \<leftarrow> getPosition m; report_bug category message pos m }
          else report_bug category message origin m }"

text \<open>\<open>debugAssertSent\<close> is the flag of the connection.\<close>

definition parseDebugAssert :: "bool \<Rightarrow> packet_parser" where
  "parseDebugAssert debugAssertSent m =
     (if debugAssertSent then ignore m
      else do { (assertLine, m) \<leftarrow> getString 0 m; (date, m) \<leftarrow> getString 0 m;
                (description, m) \<leftarrow> getString 0 m; (comment, m) \<leftarrow> getString 0 m;
                if nm_overrun m then ignore m
                else if length assertLine > 1024 \<or> length date > 64 \<or> length description > 1024 \<or> length comment > 1024 then ignore m
                else addGameTask (PlayerDebugAssert assertLine date description comment) m })"

definition parseInviteToParty :: packet_parser where
  "parseInviteToParty m = do { (targetId, m) \<leftarrow> get32 m; addGameTask (PlayerInviteToParty targetId) m }"

definition parseJoinParty :: packet_parser where
  "parseJoinParty m = do { (targetId, m) \<leftarrow> get32 m; addGameTask (PlayerJoinParty targetId) m }"

definition parseRevokePartyInvite :: packet_parser where
  "parseRevokePartyInvite m = do { (targetId, m) \<leftarrow> get32 m; addGameTask (PlayerRevokePartyInvitation targetId) m }"

definition parsePassPartyLeadership :: packet_parser where
  "parsePassPartyLeadership m = do { (targetId, m) \<leftarrow> get32 m; addGameTask (PlayerPassPartyLeadership targetId) m }"

definition parseEnableSharedPartyExperience :: packet_parser where
  "parseEnableSharedPartyExperience m = do { (active, m) \<leftarrow> getByte m; addGameTask (PlayerEnableSharedPartyExperience (active = 1)) m }"

definition parseQuestLine :: packet_parser where
  "parseQuestLine m = do { (questId, m) \<leftarrow> get16 m; addGameTask (PlayerShowQuestLine questId) m }"

definition parseBrowseField :: packet_parser where
  "parseBrowseField m = do { (pos, m) \<leftarrow> getPosition m; addGameTask (PlayerBrowseField pos) m }"

definition parseSeekInContainer :: packet_parser where
  "parseSeekInContainer m = do { (containerId, m) \<leftarrow> getByte m; (index, m) \<leftarrow> get16 m; addGameTask (PlayerSeekInContainer containerId index) m }"

definition parseExtendedOpcode :: packet_parser where
  "parseExtendedOpcode m =
     do { (opcode, m) \<leftarrow> getByte m; (buffer, m) \<leftarrow> getString 0 m;
          if nm_overrun m then ignore m else if length buffer > 65535 then ignore m
          else addGameTask (ParsePlayerExtendedOpcode opcode buffer) m }"

section \<open>The switch\<close>

definition handlers :: "bool \<Rightarrow> (u8 \<times> packet_parser) list" where
  "handlers debugAssertSent =
    [(0x14, addGameTask Logout), (0x1D, addGameTask PlayerReceivePingBack), (0x1E, addGameTask PlayerReceivePing),
     (0x32, parseExtendedOpcode), (0x64, parseAutoWalk),
     (0x65, addGameTask (PlayerMove DIRECTION_NORTH)), (0x66, addGameTask (PlayerMove DIRECTION_EAST)),
     (0x67, addGameTask (PlayerMove DIRECTION_SOUTH)), (0x68, addGameTask (PlayerMove DIRECTION_WEST)),
     (0x69, addGameTask PlayerStopAutoWalk),
     (0x6A, addGameTask (PlayerMove DIRECTION_NORTHEAST)), (0x6B, addGameTask (PlayerMove DIRECTION_SOUTHEAST)),
     (0x6C, addGameTask (PlayerMove DIRECTION_SOUTHWEST)), (0x6D, addGameTask (PlayerMove DIRECTION_NORTHWEST)),
     (0x6F, addGameTaskTimed (PlayerTurn DIRECTION_NORTH)), (0x70, addGameTaskTimed (PlayerTurn DIRECTION_EAST)),
     (0x71, addGameTaskTimed (PlayerTurn DIRECTION_SOUTH)), (0x72, addGameTaskTimed (PlayerTurn DIRECTION_WEST)),
     (0x77, parseEquipObject), (0x78, parseThrow), (0x79, parseLookInShop), (0x7A, parsePlayerPurchase), (0x7B, parsePlayerSale),
     (0x7C, addGameTask PlayerCloseShop), (0x7D, parseRequestTrade), (0x7E, parseLookInTrade),
     (0x7F, addGameTask PlayerAcceptTrade), (0x80, addGameTask PlayerCloseTrade),
     (0x82, parseUseItem), (0x83, parseUseItemEx), (0x84, parseUseWithCreature), (0x85, parseRotateItem),
     (0x87, parseCloseContainer), (0x88, parseUpArrowContainer), (0x89, parseTextWindow), (0x8A, parseHouseWindow),
     (0x8B, parseWrapItem), (0x8C, parseLookAt), (0x8D, parseLookInBattleList), (0x8E, ignore),
     (0x96, parseSay), (0x97, addGameTask PlayerRequestChannels), (0x98, parseOpenChannel), (0x99, parseCloseChannel),
     (0x9A, parseOpenPrivateChannel), (0x9E, addGameTask PlayerCloseNpcChannel), (0xA0, parseFightModes),
     (0xA1, parseAttack), (0xA2, parseFollow), (0xA3, parseInviteToParty), (0xA4, parseJoinParty), (0xA5, parseRevokePartyInvite),
     (0xA6, parsePassPartyLeadership), (0xA7, addGameTask PlayerLeaveParty), (0xA8, parseEnableSharedPartyExperience),
     (0xAA, addGameTask PlayerCreatePrivateChannel), (0xAB, parseChannelInvite), (0xAC, parseChannelExclude),
     (0xBE, addGameTask PlayerCancelAttackAndFollow), (0xC9, ignore), (0xCA, parseUpdateContainer), (0xCB, parseBrowseField),
     (0xCC, parseSeekInContainer), (0xD2, addGameTask PlayerRequestOutfit), (0xD3, parseSetOutfit), (0xDC, parseAddVip),
     (0xDD, parseRemoveVip), (0xE6, parseBugReport), (0xE7, ignore), (0xE8, parseDebugAssert debugAssertSent),
     (0xF0, addGameTaskTimed PlayerShowQuestLog), (0xF1, parseQuestLine), (0xF2, parseRuleViolationReport), (0xF3, ignore)]"

definition dispatch_packet :: "bool \<Rightarrow> u8 \<Rightarrow> packet_parser" where
  "dispatch_packet debugAssertSent recvbyte m =
     (case map_of (handlers debugAssertSent) recvbyte of Some p \<Rightarrow> p m | None \<Rightarrow> ignore m)"

record game_player =
  gp_id :: u32
  gp_removed :: bool
  gp_health :: int

record protocol_game =
  pg_acceptPackets :: bool
  pg_shutdown :: bool
  pg_player :: "game_player option"
  pg_debugAssertSent :: bool
  pg_queue :: "(u32 \<times> queued) list"
  pg_disconnected :: bool

definition parsePacket :: "network_message \<Rightarrow> protocol_game \<Rightarrow> (network_message \<times> protocol_game) option" where
  "parsePacket m pg =
     (if \<not> pg_acceptPackets pg \<or> pg_shutdown pg \<or> nm_length m = 0 then Some (m, pg)
      else do { (recvbyte, m) \<leftarrow> getByte m;
        case pg_player pg of
          None \<Rightarrow> Some (m, if recvbyte = 0x0F then pg\<lparr>pg_disconnected := True\<rparr> else pg)
        | Some player \<Rightarrow>
            let dead = gp_removed player \<or> gp_health player \<le> 0 in
            if dead \<and> recvbyte = 0x0F then Some (m, pg\<lparr>pg_disconnected := True\<rparr>)
            else if dead \<and> recvbyte \<noteq> 0x14 then Some (m, pg)
            else do { (task, m) \<leftarrow> dispatch_packet (pg_debugAssertSent pg) recvbyte m;
                      let pg = pg\<lparr>pg_debugAssertSent := pg_debugAssertSent pg \<or> recvbyte = 0xE8\<rparr>;
                          pg = (case task of Some t \<Rightarrow> pg\<lparr>pg_queue := pg_queue pg @ [(gp_id player, t)]\<rparr> | None \<Rightarrow> pg);
                          pg = (if nm_overrun m then pg\<lparr>pg_disconnected := True\<rparr> else pg)
                      in Some (m, pg) } })"

section \<open>Requests that the parsers let through\<close>

text \<open>The limits that the code puts on what a client may send.\<close>

fun request_ok :: "game_request \<Rightarrow> bool" where
  "request_ok (PlayerAutoWalk path) \<longleftrightarrow> path \<noteq> [] \<and> length path \<le> 255 \<and> DIRECTION_NONE \<notin> set path"
| "request_ok (PlayerMoveThing fromPos spriteId stackpos toPos n) \<longleftrightarrow> n \<noteq> 0 \<and> toPos \<noteq> fromPos"
| "request_ok (PlayerPurchaseItem ident cnt amount ignoreCap inBackpacks) \<longleftrightarrow> amount \<noteq> 0"
| "request_ok (PlayerSellItem ident cnt amount ignoreEquipped) \<longleftrightarrow> amount \<noteq> 0"
| "request_ok (PlayerWriteItem w s) \<longleftrightarrow> length s \<le> 8192"
| "request_ok (PlayerUpdateHouseWindow d i s) \<longleftrightarrow> length s \<le> 8192"
| "request_ok (PlayerSay channelId type receiver s) \<longleftrightarrow> \<not> bad_name s \<and>
     (if type = TALKTYPE_PRIVATE_TO \<or> type = TALKTYPE_PRIVATE_RED_TO then \<not> bad_name receiver \<and> channelId = 0
      else receiver = [] \<and> (type = TALKTYPE_CHANNEL_Y \<or> type = TALKTYPE_CHANNEL_R1 \<or> channelId = 0))"
| "request_ok (PlayerOpenPrivateChannel s) \<longleftrightarrow> \<not> bad_name s"
| "request_ok (PlayerChannelInvite s) \<longleftrightarrow> \<not> bad_name s"
| "request_ok (PlayerChannelExclude s) \<longleftrightarrow> \<not> bad_name s"
| "request_ok (PlayerRequestAddVip s) \<longleftrightarrow> \<not> bad_name s"
| "request_ok (ParsePlayerExtendedOpcode opcode s) \<longleftrightarrow> length s \<le> 65535"
| "request_ok (PlayerMove d) \<longleftrightarrow> d \<noteq> DIRECTION_NONE"
| "request_ok (PlayerTurn d) \<longleftrightarrow> d \<in> {DIRECTION_NORTH, DIRECTION_EAST, DIRECTION_SOUTH, DIRECTION_WEST}"
| "request_ok (PlayerChangeOutfit t h b l f a) \<longleftrightarrow> h \<le> 132 \<and> b \<le> 132 \<and> l \<le> 132 \<and> f \<le> 132 \<and> a \<le> 3"
| "request_ok (PlayerReportBug s pos category) \<longleftrightarrow> s \<noteq> [] \<and> length s \<le> 4096 \<and> (category = BUG_CATEGORY_MAP \<or> pos = origin)"
| "request_ok (PlayerDebugAssert a b c d) \<longleftrightarrow> length a \<le> 1024 \<and> length b \<le> 64 \<and> length c \<le> 1024 \<and> length d \<le> 1024"
| "request_ok (PlayerReportRuleViolation name type reason comment translation) \<longleftrightarrow>
     \<not> bad_name name \<and> length comment \<le> 4096 \<and> length translation \<le> 4096 \<and>
     (type = REPORT_TYPE_NAME \<or> type = REPORT_TYPE_STATEMENT \<or> translation = [])"
| "request_ok r \<longleftrightarrow> True"

text \<open>A received message: the connection never accepts a length that does not fit the buffer.\<close>

definition recv_inv :: "network_message \<Rightarrow> bool" where
  "recv_inv m \<longleftrightarrow> nm_inv m \<and> unat (nm_length m) + 8 \<le> 24590"

definition safe_reader :: "(network_message \<Rightarrow> ('a \<times> network_message) option) \<Rightarrow> bool" where
  "safe_reader rd \<longleftrightarrow> (\<forall>m. recv_inv m \<longrightarrow> (\<exists>v m'. rd m = Some (v, m') \<and> recv_inv m'))"

definition safe_parser :: "packet_parser \<Rightarrow> bool" where
  "safe_parser p \<longleftrightarrow> (\<forall>m. recv_inv m \<longrightarrow> (\<exists>t m'. p m = Some (t, m') \<and> recv_inv m' \<and> (case t of Some (timed, r) \<Rightarrow> request_ok r | None \<Rightarrow> True)))"

named_theorems safe_intros

lemma safe_get_bytes:
  assumes "recv_inv m"
  shows "\<exists>bs m'. get_bytes n m = Some (bs, m') \<and> recv_inv m'"
  using get_bytes_total[of m n] assms by (auto simp: recv_inv_def get_bytes_def canRead_nat nm_inv_iff split: if_splits)

lemma safe_typed: "safe_reader (\<lambda>m. map_option (map_prod d id) (get_bytes n m))"
  unfolding safe_reader_def using safe_get_bytes by fastforce

lemma safe_readers [safe_intros]: "safe_reader getByte" "safe_reader get16" "safe_reader get32"
  unfolding getByte_def get16_def get32_def by (rule safe_typed)+

lemma safe_getString [safe_intros]: "safe_reader (getString 0)"
proof -
  have "\<exists>s m'. getString 0 m = Some (s, m') \<and> recv_inv m'" if inv: "recv_inv m" for m
  proof -
    obtain len m1 where 1: "get16 m = Some (len, m1)" "recv_inv m1" using safe_readers(2) inv unfolding safe_reader_def by blast
    then show ?thesis using canRead_nat[of m1 "unat len"] by (auto simp: getString_def recv_inv_def mem_read_def nm_inv_iff)
  qed
  then show ?thesis by (simp add: safe_reader_def)
qed

lemma safe_getPosition [safe_intros]: "safe_reader getPosition"
proof -
  have "\<exists>p m'. getPosition m = Some (p, m') \<and> recv_inv m'" if inv: "recv_inv m" for m
  proof -
    obtain x m1 where 1: "get16 m = Some (x, m1)" "recv_inv m1" using safe_readers(2) inv unfolding safe_reader_def by blast
    obtain y m2 where 2: "get16 m1 = Some (y, m2)" "recv_inv m2" using safe_readers(2) 1 unfolding safe_reader_def by blast
    obtain z m3 where 3: "getByte m2 = Some (z, m3)" "recv_inv m3" using safe_readers(1) 2 unfolding safe_reader_def by blast
    show ?thesis using 1 2 3 by (simp add: getPosition_def)
  qed
  then show ?thesis by (simp add: safe_reader_def)
qed

lemma safe_skip [safe_intros]: "safe_reader rd \<Longrightarrow> safe_reader (\<lambda>m. rd (skipBytes n m))"
  unfolding safe_reader_def by (auto simp: recv_inv_def skipBytes_def nm_inv_iff)

lemma safe_bind [safe_intros]:
  assumes "safe_reader rd" "\<And>v. safe_parser (f v)"
  shows "safe_parser (\<lambda>m. Option.bind (rd m) (\<lambda>(v, m). f v m))"
  unfolding safe_parser_def
proof (intro allI impI)
  fix m assume "recv_inv m"
  then obtain v m1 where "rd m = Some (v, m1)" "recv_inv m1" using assms(1) unfolding safe_reader_def by blast
  then show "\<exists>t m'. Option.bind (rd m) (\<lambda>(v, m). f v m) = Some (t, m') \<and> recv_inv m' \<and> (case t of Some (timed, r) \<Rightarrow> request_ok r | None \<Rightarrow> True)"
    using assms(2)[of v] unfolding safe_parser_def by simp
qed

lemma safe_if [safe_intros]:
  "(c \<Longrightarrow> safe_parser p) \<Longrightarrow> (\<not> c \<Longrightarrow> safe_parser q) \<Longrightarrow> safe_parser (\<lambda>m. if c then p m else q m)"
  by (simp add: safe_parser_def)

lemma safe_overrun [safe_intros]:
  "safe_parser p \<Longrightarrow> safe_parser q \<Longrightarrow> safe_parser (\<lambda>m. if nm_overrun m then p m else q m)"
  by (simp add: safe_parser_def)

lemma safe_or_overrun [safe_intros]:
  "safe_parser p \<Longrightarrow> (\<not> c \<Longrightarrow> safe_parser q) \<Longrightarrow> safe_parser (\<lambda>m. if c \<or> nm_overrun m then p m else q m)"
  by (simp add: safe_parser_def)

lemma safe_tasks [safe_intros]:
  "safe_parser ignore" "request_ok r \<Longrightarrow> safe_parser (addGameTask r)" "request_ok r \<Longrightarrow> safe_parser (addGameTaskTimed r)"
  by (simp_all add: safe_parser_def ignore_def addGameTask_def addGameTaskTimed_def)

lemma raw_direction_valid: "raw_direction b = Some d \<Longrightarrow> d \<noteq> DIRECTION_NONE"
  by (auto simp: raw_direction_def split: if_splits)

lemma walk_path_safe:
  "nm_inv m \<Longrightarrow> unat (nm_position m) \<le> 24590 \<Longrightarrow> \<exists>path m'. walk_path n m = Some (path, m') \<and> nm_inv m' \<and> nm_length m' = nm_length m \<and> length path \<le> n \<and> DIRECTION_NONE \<notin> set path"
proof (induction n arbitrary: m)
  case (Suc n)
  have "\<exists>b m1. getPreviousByte m = Some (b, m1) \<and> nm_inv m1 \<and> nm_length m1 = nm_length m \<and> unat (nm_position m1) \<le> 24590"
  proof (cases "nm_position m = 0")
    case False
    then have "unat (nm_position m - 1) = unat (nm_position m) - 1" "unat (nm_position m) > 0" by (simp_all add: unat_minus_one unat_gt_0)
    then show ?thesis using Suc.prems False by (auto simp: getPreviousByte_def mem_read_def nm_inv_iff)
  qed (use Suc.prems in \<open>simp add: getPreviousByte_def\<close>)
  then obtain b m1 where 1: "getPreviousByte m = Some (b, m1)" "nm_inv m1" "nm_length m1 = nm_length m" "unat (nm_position m1) \<le> 24590" by blast
  obtain path m2 where 2: "walk_path n m1 = Some (path, m2)" "nm_inv m2" "nm_length m2 = nm_length m1" "length path \<le> n" "DIRECTION_NONE \<notin> set path"
    using Suc.IH[OF 1(2,4)] by blast
  then show ?case using 1 raw_direction_valid[of b] by (auto split: option.split)
qed simp

lemma safe_parseAutoWalk [safe_intros]: "safe_parser parseAutoWalk"
proof -
  have "safe_parser (\<lambda>m. if n = 0 \<or> uint (nm_position m) + uint n \<noteq> uint (nm_length m) + 8 then ignore m else if nm_overrun m then ignore m
      else Option.bind (walk_path (unat n) (skipBytes (uint n) m)) (\<lambda>(path, m). if path = [] then ignore m else addGameTask (PlayerAutoWalk path) m))" for n :: u8
    unfolding safe_parser_def
  proof (intro allI impI)
    fix m assume inv: "recv_inv m"
    let ?m = "skipBytes (uint n) m"
    have n: "unat n < 256" using unsigned_less[of n] by simp
    show "\<exists>t m'. (if n = 0 \<or> uint (nm_position m) + uint n \<noteq> uint (nm_length m) + 8 then ignore m else if nm_overrun m then ignore m
        else Option.bind (walk_path (unat n) ?m) (\<lambda>(path, m). if path = [] then ignore m else addGameTask (PlayerAutoWalk path) m)) = Some (t, m') \<and>
      recv_inv m' \<and> (case t of Some (timed, r) \<Rightarrow> request_ok r | None \<Rightarrow> True)"
    proof (cases "n = 0 \<or> uint (nm_position m) + uint n \<noteq> uint (nm_length m) + 8 \<or> nm_overrun m")
      case True
      then show ?thesis using inv by (auto simp: ignore_def)
    next
      case False
      have u: "int (unat (nm_position m)) = uint (nm_position m)" "int (unat n) = uint n" "int (unat (nm_length m)) = uint (nm_length m)" by simp_all
      have e: "unat (nm_position m) + unat n = unat (nm_length m) + 8" using False u by linarith
      have "nm_position ?m = nm_position m + of_nat (unat n)" by (simp add: skipBytes_def)
      moreover have "unat (nm_position m) + unat n < 65536" using e inv by (simp add: recv_inv_def)
      ultimately have "unat (nm_position ?m) = unat (nm_position m) + unat n" by (metis unat16_add)
      then have "nm_inv ?m" "unat (nm_position ?m) \<le> 24590" using e inv by (simp_all add: recv_inv_def nm_inv_iff skipBytes_def)
      from walk_path_safe[OF this, of "unat n"] obtain path m' where
        w: "walk_path (unat n) ?m = Some (path, m')" "nm_inv m'" "nm_length m' = nm_length ?m" "length path \<le> unat n" "DIRECTION_NONE \<notin> set path" by blast
      have "recv_inv m'" using w(2,3) inv by (simp add: recv_inv_def skipBytes_def)
      moreover have "length path \<le> 255" using w(4) n by linarith
      ultimately show ?thesis using False w(1,5) by (simp add: ignore_def addGameTask_def)
    qed
  qed
  then show ?thesis unfolding parseAutoWalk_def by (intro safe_bind safe_readers)
qed

lemmas parser_defs = parse_name_def parseChannelInvite_def parseChannelExclude_def parseOpenChannel_def parseCloseChannel_def parseOpenPrivateChannel_def
  parseSetOutfit_def parseUseItem_def parseUseItemEx_def parseUseWithCreature_def parseCloseContainer_def parseUpArrowContainer_def
  parseUpdateContainer_def parseThrow_def parseLookAt_def parseLookInBattleList_def say_text_def parseSay_def parseFightModes_def parseAttack_def
  parseFollow_def parseEquipObject_def parseTextWindow_def parseHouseWindow_def parseWrapItem_def parseLookInShop_def parsePlayerPurchase_def
  parsePlayerSale_def parseRequestTrade_def parseLookInTrade_def parseAddVip_def parseRemoveVip_def parseRotateItem_def report_violation_def
  parseRuleViolationReport_def report_bug_def parseBugReport_def parseDebugAssert_def parseInviteToParty_def parseJoinParty_def parseRevokePartyInvite_def
  parsePassPartyLeadership_def parseEnableSharedPartyExperience_def parseQuestLine_def parseBrowseField_def parseSeekInContainer_def parseExtendedOpcode_def

lemma safe_handlers: "list_all (\<lambda>(b, p). safe_parser p) (handlers sent)"
  unfolding handlers_def parser_defs list.pred_inject prod.case
  by (intro conjI TrueI safe_intros; (auto simp: bad_name_def not_less)?)

text \<open>C13: Whatever a client sends, parsing it stays inside the buffer and returns; it queues at most one request, for
  the player of the connection, and that request is within the limits; a packet of a living player that ends
  early disconnects the client.\<close>

theorem hostile_packet_contained:
  assumes "recv_inv m"
  shows "\<exists>m' pg'. parsePacket m pg = Some (m', pg') \<and>
    (pg_queue pg' = pg_queue pg \<or> (\<exists>player timed r. pg_player pg = Some player \<and> request_ok r \<and> pg_queue pg' = pg_queue pg @ [(gp_id player, timed, r)])) \<and>
    (pg_acceptPackets pg \<and> \<not> pg_shutdown pg \<and> nm_length m \<noteq> 0 \<and> (\<exists>player. pg_player pg = Some player \<and> \<not> gp_removed player \<and> gp_health player > 0) \<and> nm_overrun m' \<longrightarrow>
       pg_disconnected pg')"
proof -
  obtain b m1 where 1: "getByte m = Some (b, m1)" "recv_inv m1" using safe_readers(1) assms unfolding safe_reader_def by blast
  have "safe_parser (dispatch_packet sent b)" for sent
  proof (cases "map_of (handlers sent) b")
    case (Some p)
    then have "(b, p) \<in> set (handlers sent)" by (rule map_of_SomeD)
    then show ?thesis using safe_handlers[of sent] Some by (auto simp: list_all_iff dispatch_packet_def safe_parser_def)
  qed (use safe_tasks(1) in \<open>simp add: dispatch_packet_def safe_parser_def\<close>)
  then obtain t m2 where 2: "dispatch_packet (pg_debugAssertSent pg) b m1 = Some (t, m2)" "case t of Some (timed, r) \<Rightarrow> request_ok r | None \<Rightarrow> True"
    using 1(2) unfolding safe_parser_def by blast
  show ?thesis using 1(1) 2 unfolding parsePacket_def
    by (cases "pg_player pg"; cases t) (auto simp: Let_def)
qed

theorem hostile_packet_contained_witness:
  "\<exists>m' pg'. parsePacket \<lparr>nm_length = 3, nm_position = 8, nm_overrun = False, nm_buffer = replicate 8 0 @ [0xA1, 1, 2] @ replicate 24579 0\<rparr>
      \<lparr>pg_acceptPackets = True, pg_shutdown = False, pg_player = None, pg_debugAssertSent = False, pg_queue = [], pg_disconnected = False\<rparr> = Some (m', pg')"
  using hostile_packet_contained[of "\<lparr>nm_length = 3, nm_position = 8, nm_overrun = False, nm_buffer = replicate 8 0 @ [0xA1, 1, 2] @ replicate 24579 0\<rparr>"
      "\<lparr>pg_acceptPackets = True, pg_shutdown = False, pg_player = None, pg_debugAssertSent = False, pg_queue = [], pg_disconnected = False\<rparr>"]
  by (auto simp: recv_inv_def nm_inv_iff)

section \<open>What a client writes is what is queued\<close>

fun dir_byte :: "direction \<Rightarrow> u8" where
  "dir_byte DIRECTION_EAST = 1" | "dir_byte DIRECTION_NORTHEAST = 2" | "dir_byte DIRECTION_NORTH = 3" | "dir_byte DIRECTION_NORTHWEST = 4"
| "dir_byte DIRECTION_WEST = 5" | "dir_byte DIRECTION_SOUTHWEST = 6" | "dir_byte DIRECTION_SOUTH = 7" | "dir_byte DIRECTION_SOUTHEAST = 8" | "dir_byte DIRECTION_NONE = 0"

fun move_opcode :: "direction \<Rightarrow> u8" where
  "move_opcode DIRECTION_NORTH = 0x65" | "move_opcode DIRECTION_EAST = 0x66" | "move_opcode DIRECTION_SOUTH = 0x67" | "move_opcode DIRECTION_WEST = 0x68"
| "move_opcode DIRECTION_NORTHEAST = 0x6A" | "move_opcode DIRECTION_SOUTHEAST = 0x6B" | "move_opcode DIRECTION_SOUTHWEST = 0x6C" | "move_opcode DIRECTION_NORTHWEST = 0x6D"
| "move_opcode DIRECTION_NONE = 0"

fun turn_opcode :: "direction \<Rightarrow> u8" where
  "turn_opcode DIRECTION_NORTH = 0x6F" | "turn_opcode DIRECTION_EAST = 0x70" | "turn_opcode DIRECTION_SOUTH = 0x71" | "turn_opcode DIRECTION_WEST = 0x72"
| "turn_opcode d = 0"

definition mode_byte :: "fightMode \<Rightarrow> u8" where
  "mode_byte f = (case f of FIGHTMODE_ATTACK \<Rightarrow> 1 | FIGHTMODE_BALANCED \<Rightarrow> 2 | FIGHTMODE_DEFENSE \<Rightarrow> 3)"

abbreviation bool_byte :: "bool \<Rightarrow> u8" where
  "bool_byte b \<equiv> (if b then 1 else 0)"

text \<open>The packet of a request: its opcode and its fields.\<close>

fun client_packet :: "game_request \<Rightarrow> u8 \<times> field list" where
  "client_packet Logout = (0x14, [])"
| "client_packet PlayerReceivePingBack = (0x1D, [])"
| "client_packet PlayerReceivePing = (0x1E, [])"
| "client_packet (ParsePlayerExtendedOpcode opcode s) = (0x32, [F8 opcode, FString s])"
| "client_packet (PlayerAutoWalk path) = (0x64, F8 (of_nat (length path)) # map (F8 \<circ> dir_byte) (rev path))"
| "client_packet (PlayerMove d) = (move_opcode d, [])"
| "client_packet PlayerStopAutoWalk = (0x69, [])"
| "client_packet (PlayerTurn d) = (turn_opcode d, [])"
| "client_packet (PlayerEquipItem spr) = (0x77, [F16 spr])"
| "client_packet (PlayerMoveThing fromPos spr sp toPos n) = (0x78, [FPosition fromPos, F16 spr, F8 sp, FPosition toPos, F8 n])"
| "client_packet (PlayerLookInShop i n) = (0x79, [F16 i, F8 n])"
| "client_packet (PlayerPurchaseItem i n a c b) = (0x7A, [F16 i, F8 n, F8 a, F8 (bool_byte c), F8 (bool_byte b)])"
| "client_packet (PlayerSellItem i n a e) = (0x7B, [F16 i, F8 n, F8 a, F8 (bool_byte e)])"
| "client_packet PlayerCloseShop = (0x7C, [])"
| "client_packet (PlayerRequestTrade pos sp pid spr) = (0x7D, [FPosition pos, F16 spr, F8 sp, F32 pid])"
| "client_packet (PlayerLookInTrade c i) = (0x7E, [F8 (bool_byte c), F8 i])"
| "client_packet PlayerAcceptTrade = (0x7F, [])"
| "client_packet PlayerCloseTrade = (0x80, [])"
| "client_packet (PlayerUseItem pos sp i spr) = (0x82, [FPosition pos, F16 spr, F8 sp, F8 i])"
| "client_packet (PlayerUseItemEx p1 sp1 spr1 p2 sp2 spr2) = (0x83, [FPosition p1, F16 spr1, F8 sp1, FPosition p2, F16 spr2, F8 sp2])"
| "client_packet (PlayerUseWithCreature pos sp cid spr) = (0x84, [FPosition pos, F16 spr, F8 sp, F32 cid])"
| "client_packet (PlayerRotateItem pos sp spr) = (0x85, [FPosition pos, F16 spr, F8 sp])"
| "client_packet (PlayerCloseContainer c) = (0x87, [F8 c])"
| "client_packet (PlayerMoveUpContainer c) = (0x88, [F8 c])"
| "client_packet (PlayerWriteItem w s) = (0x89, [F32 w, FString s])"
| "client_packet (PlayerUpdateHouseWindow d i s) = (0x8A, [F8 d, F32 i, FString s])"
| "client_packet (PlayerWrapItem pos sp spr) = (0x8B, [FPosition pos, F16 spr, F8 sp])"
| "client_packet (PlayerLookAt pos sp) = (0x8C, [FPosition pos, F16 0, F8 sp])"
| "client_packet (PlayerLookInBattleList c) = (0x8D, [F32 c])"
| "client_packet (PlayerSay ch ty rec s) = (0x96, F8 ty #
     (if ty = TALKTYPE_PRIVATE_TO \<or> ty = TALKTYPE_PRIVATE_RED_TO then [FString rec, FString s]
      else if ty = TALKTYPE_CHANNEL_Y \<or> ty = TALKTYPE_CHANNEL_R1 then [F16 ch, FString s] else [FString s]))"
| "client_packet PlayerRequestChannels = (0x97, [])"
| "client_packet (PlayerOpenChannel c) = (0x98, [F16 c])"
| "client_packet (PlayerCloseChannel c) = (0x99, [F16 c])"
| "client_packet (PlayerOpenPrivateChannel s) = (0x9A, [FString s])"
| "client_packet PlayerCloseNpcChannel = (0x9E, [])"
| "client_packet (PlayerSetFightModes f c s) = (0xA0, [F8 (mode_byte f), F8 (bool_byte c), F8 (bool_byte s)])"
| "client_packet (PlayerSetAttackedCreature c) = (0xA1, [F32 c])"
| "client_packet (PlayerFollowCreature c) = (0xA2, [F32 c])"
| "client_packet (PlayerInviteToParty c) = (0xA3, [F32 c])"
| "client_packet (PlayerJoinParty c) = (0xA4, [F32 c])"
| "client_packet (PlayerRevokePartyInvitation c) = (0xA5, [F32 c])"
| "client_packet (PlayerPassPartyLeadership c) = (0xA6, [F32 c])"
| "client_packet PlayerLeaveParty = (0xA7, [])"
| "client_packet (PlayerEnableSharedPartyExperience b) = (0xA8, [F8 (bool_byte b)])"
| "client_packet PlayerCreatePrivateChannel = (0xAA, [])"
| "client_packet (PlayerChannelInvite s) = (0xAB, [FString s])"
| "client_packet (PlayerChannelExclude s) = (0xAC, [FString s])"
| "client_packet PlayerCancelAttackAndFollow = (0xBE, [])"
| "client_packet (PlayerUpdateContainer c) = (0xCA, [F8 c])"
| "client_packet (PlayerBrowseField pos) = (0xCB, [FPosition pos])"
| "client_packet (PlayerSeekInContainer c i) = (0xCC, [F8 c, F16 i])"
| "client_packet PlayerRequestOutfit = (0xD2, [])"
| "client_packet (PlayerChangeOutfit t h b l f a) = (0xD3, [F16 t, F8 h, F8 b, F8 l, F8 f, F8 a])"
| "client_packet (PlayerRequestAddVip s) = (0xDC, [FString s])"
| "client_packet (PlayerRequestRemoveVip g) = (0xDD, [F32 g])"
| "client_packet (PlayerReportBug s pos c) = (0xE6, [F8 c, FString s] @ (if c = BUG_CATEGORY_MAP then [FPosition pos] else []))"
| "client_packet (PlayerDebugAssert a b c d) = (0xE8, [FString a, FString b, FString c, FString d])"
| "client_packet PlayerShowQuestLog = (0xF0, [])"
| "client_packet (PlayerShowQuestLine q) = (0xF1, [F16 q])"
| "client_packet (PlayerReportRuleViolation name ty re comment tr) = (0xF2, [F8 ty, F8 re, FString name, FString comment] @
     (if ty = REPORT_TYPE_NAME then [FString tr] else if ty = REPORT_TYPE_STATEMENT then [FString tr, F32 0] else []))"

fun expires :: "game_request \<Rightarrow> bool" where
  "expires (PlayerTurn d) = True" | "expires (PlayerEquipItem spr) = True" | "expires (PlayerMoveThing p1 spr sp p2 n) = True"
| "expires (PlayerLookInShop i n) = True" | "expires (PlayerPurchaseItem i n a c b) = True" | "expires (PlayerSellItem i n a e) = True"
| "expires (PlayerLookInTrade c i) = True" | "expires (PlayerUseItem pos sp i spr) = True" | "expires (PlayerUseItemEx p1 sp1 spr1 p2 sp2 spr2) = True"
| "expires (PlayerUseWithCreature pos sp cid spr) = True" | "expires (PlayerRotateItem pos sp spr) = True" | "expires (PlayerWrapItem pos sp spr) = True"
| "expires (PlayerLookAt pos sp) = True" | "expires (PlayerLookInBattleList c) = True" | "expires PlayerShowQuestLog = True" | "expires r = False"

text \<open>Parsing the fields \<open>fs\<close>, the rest of a message without overrun, gives \<open>t\<close>.\<close>

definition yields :: "packet_parser \<Rightarrow> field list \<Rightarrow> queued option \<Rightarrow> bool" where
  "yields p fs t \<longleftrightarrow> (\<forall>m. rd_view m (message_bytes fs) \<and> \<not> nm_overrun m \<longrightarrow> (\<exists>m'. p m = Some (t, m') \<and> \<not> nm_overrun m'))"

named_theorems yields_intros

lemma canRead_view: "rd_view m (bs @ rest) \<Longrightarrow> canRead m (int (length bs)) = (True, m)"
  by (auto simp: canRead_nat rd_view_def)

lemma get_bytes_clean:
  assumes "rd_view m (bs @ rest)" "\<not> nm_overrun m"
  shows "\<exists>m'. get_bytes (length bs) m = Some (bs, m') \<and> rd_view m' rest \<and> \<not> nm_overrun m'"
proof -
  obtain m' where m': "get_bytes (length bs) m = Some (bs, m')" "rd_view m' rest" using get_bytes_view[OF assms(1)] by blast
  show ?thesis using canRead_view[OF assms(1)] m' assms(2) by (auto simp: get_bytes_def)
qed

lemma getter_clean:
  assumes "rd_view m (e @ rest)" "\<not> nm_overrun m" "length e = n" "d e = v"
  shows "\<exists>m'. map_option (map_prod d id) (get_bytes n m) = Some (v, m') \<and> rd_view m' rest \<and> \<not> nm_overrun m'"
  using get_bytes_clean[OF assms(1,2)] assms(3,4) by force

lemma getters_clean:
  "rd_view m (le_enc8 v8 @ rest) \<Longrightarrow> \<not> nm_overrun m \<Longrightarrow> \<exists>m'. getByte m = Some (v8, m') \<and> rd_view m' rest \<and> \<not> nm_overrun m'"
  "rd_view m (le_enc16 v16 @ rest) \<Longrightarrow> \<not> nm_overrun m \<Longrightarrow> \<exists>m'. get16 m = Some (v16, m') \<and> rd_view m' rest \<and> \<not> nm_overrun m'"
  "rd_view m (le_enc32 v32 @ rest) \<Longrightarrow> \<not> nm_overrun m \<Longrightarrow> \<exists>m'. get32 m = Some (v32, m') \<and> rd_view m' rest \<and> \<not> nm_overrun m'"
  unfolding getByte_def get16_def get32_def
  by (erule getter_clean; simp add: c8.dec_enc c16.dec_enc c32.dec_enc)+

lemma getString_clean:
  assumes "rd_view m (le_enc16 (of_nat (length s)) @ s @ rest)" "length s < 65536" "\<not> nm_overrun m"
  shows "\<exists>m'. getString 0 m = Some (s, m') \<and> rd_view m' rest \<and> \<not> nm_overrun m'"
proof -
  obtain m' where m': "getString 0 m = Some (s, m')" "rd_view m' rest" using getString_view[OF assms(1,2)] by blast
  obtain m1 where m1: "get16 m = Some (of_nat (length s), m1)" "rd_view m1 (s @ rest)" "\<not> nm_overrun m1"
    using getters_clean(2)[OF assms(1,3)] by blast
  have len: "unat (of_nat (length s) :: u16) = length s" using assms(2) by (simp add: unat_of_nat)
  then have "uint (of_nat (length s) :: u16) = int (length s)" by (metis uint_nat)
  then show ?thesis using canRead_view[OF m1(2)] m' m1 by (auto simp: getString_def)
qed

lemma getPosition_clean:
  assumes "rd_view m (field_bytes (FPosition p) @ rest)" "\<not> nm_overrun m"
  shows "\<exists>m'. getPosition m = Some (p, m') \<and> rd_view m' rest \<and> \<not> nm_overrun m'"
proof -
  obtain m1 where m1: "get16 m = Some (pos_x p, m1)" "rd_view m1 (le_enc16 (pos_y p) @ le_enc8 (pos_z p) @ rest)" "\<not> nm_overrun m1"
    using getters_clean(2)[of m "pos_x p"] assms by auto
  obtain m2 where m2: "get16 m1 = Some (pos_y p, m2)" "rd_view m2 (le_enc8 (pos_z p) @ rest)" "\<not> nm_overrun m2"
    using getters_clean(2)[OF m1(2,3)] by auto
  obtain m3 where "getByte m2 = Some (pos_z p, m3)" "rd_view m3 rest" "\<not> nm_overrun m3"
    using getters_clean(1)[OF m2(2,3)] by auto
  with m1(1) m2(1) show ?thesis by (simp add: getPosition_def)
qed

lemma yields_reader:
  assumes "\<And>m rest. rd_view m (field_bytes fd @ rest) \<Longrightarrow> \<not> nm_overrun m \<Longrightarrow> \<exists>m'. rd m = Some (v, m') \<and> rd_view m' rest \<and> \<not> nm_overrun m'"
    and "yields (f v) fs t"
  shows "yields (\<lambda>m. Option.bind (rd m) (\<lambda>(x, m). f x m)) (fd # fs) t"
  unfolding yields_def
proof (intro allI impI)
  fix m assume "rd_view m (message_bytes (fd # fs)) \<and> \<not> nm_overrun m"
  then obtain m1 where "rd m = Some (v, m1)" "rd_view m1 (message_bytes fs)" "\<not> nm_overrun m1" using assms(1)[of m "message_bytes fs"] by auto
  then show "\<exists>m'. Option.bind (rd m) (\<lambda>(x, m). f x m) = Some (t, m') \<and> \<not> nm_overrun m'" using assms(2) by (simp add: yields_def)
qed

lemma yields_readers [yields_intros]:
  "yields (f a) fs t \<Longrightarrow> yields (\<lambda>m. Option.bind (getByte m) (\<lambda>(x, m). f x m)) (F8 a # fs) t"
  "yields (g b) fs t \<Longrightarrow> yields (\<lambda>m. Option.bind (get16 m) (\<lambda>(x, m). g x m)) (F16 b # fs) t"
  "yields (h c) fs t \<Longrightarrow> yields (\<lambda>m. Option.bind (get32 m) (\<lambda>(x, m). h x m)) (F32 c # fs) t"
  "yields (k p) fs t \<Longrightarrow> yields (\<lambda>m. Option.bind (getPosition m) (\<lambda>(x, m). k x m)) (FPosition p # fs) t"
  by (erule yields_reader[rotated], insert getters_clean getPosition_clean, simp)+

lemma yields_getString [yields_intros]:
  "length s < 65536 \<Longrightarrow> yields (l s) fs t \<Longrightarrow> yields (\<lambda>m. Option.bind (getString 0 m) (\<lambda>(x, m). l x m)) (FString s # fs) t"
  by (rule yields_reader[of _ _ s]) (simp_all add: getString_clean)

lemma yields_tasks [yields_intros]:
  "yields (addGameTask r) [] (Some (False, r))" "yields (addGameTaskTimed r) [] (Some (True, r))"
  by (simp_all add: yields_def addGameTask_def addGameTaskTimed_def)

lemma yields_guards [yields_intros]:
  "yields q fs t \<Longrightarrow> yields (\<lambda>m. if nm_overrun m then p m else q m) fs t"
  "\<not> c \<Longrightarrow> yields q fs t \<Longrightarrow> yields (\<lambda>m. if c \<or> nm_overrun m then p m else q m) fs t"
  by (simp_all add: yields_def)

lemma yields_if [simp]:
  "c \<Longrightarrow> yields (\<lambda>m. if c then p m else q m) fs t = yields p fs t" "\<not> c \<Longrightarrow> yields (\<lambda>m. if c then p m else q m) fs t = yields q fs t"
  by simp_all

lemma yields_skip [yields_intros]:
  assumes "yields (\<lambda>m. Option.bind (getByte m) (\<lambda>(x, m). f x m)) fs t"
  shows "yields (\<lambda>m. Option.bind (getByte (skipBytes 2 m)) (\<lambda>(x, m). f x m)) (F16 v # fs) t"
  unfolding yields_def
proof (intro allI impI)
  fix m assume "rd_view m (message_bytes (F16 v # fs)) \<and> \<not> nm_overrun m"
  then have v: "rd_view m (le_enc16 v @ message_bytes fs)" "\<not> nm_overrun m" by simp_all
  obtain m1 where m1: "get_bytes (length (le_enc16 v)) m = Some (le_enc16 v, m1)" "rd_view m1 (message_bytes fs)" "\<not> nm_overrun m1" using get_bytes_clean[OF v] by blast
  have "m1 = skipBytes 2 m" using canRead_view[OF v(1)] m1(1) by (auto simp: get_bytes_def skipBytes_def)
  then show "\<exists>m'. Option.bind (getByte (skipBytes 2 m)) (\<lambda>(x, m). f x m) = Some (t, m') \<and> \<not> nm_overrun m'"
    using assms m1 unfolding yields_def by blast
qed

lemma le_enc8_single: "le_enc8 b = [b]" "le_dec8 [b] = b"
  by (simp_all add: le_enc8_def le_dec8_def)

lemma walk_path_reads:
  "mem_read (nm_buffer m) p (length bs) = Some bs \<Longrightarrow> unat (nm_position m) = p + length bs \<Longrightarrow>
   \<exists>m'. walk_path (length bs) m = Some (List.map_filter raw_direction (rev bs), m') \<and> nm_overrun m' = nm_overrun m"
proof (induction bs arbitrary: m rule: rev_induct)
  case Nil
  then show ?case by (simp add: map_filter_simps)
next
  case (snoc b bs)
  have pos: "nm_position m \<noteq> 0" using snoc.prems(2) by auto
  then have pos': "unat (nm_position m - 1) = p + length bs" using snoc.prems(2) by (simp add: unat_minus_one)
  have rd: "mem_read (nm_buffer m) p (length bs) = Some bs" "mem_read (nm_buffer m) (p + length bs) 1 = Some [b]"
    using snoc.prems(1) by (auto simp: mem_read_def take_Suc_conv_app_nth split: if_splits)
  let ?m = "m\<lparr>nm_position := nm_position m - 1\<rparr>"
  have "getPreviousByte m = Some (b, ?m)" using pos pos' rd(2) by (simp add: getPreviousByte_def le_enc8_single)
  moreover obtain m' where "walk_path (length bs) ?m = Some (List.map_filter raw_direction (rev bs), m')" "nm_overrun m' = nm_overrun m"
    using snoc.IH[of ?m] rd(1) pos' by auto
  ultimately show ?case by (auto simp: map_filter_simps split: option.split)
qed

lemma raw_dir_byte: "d \<noteq> DIRECTION_NONE \<Longrightarrow> raw_direction (dir_byte d) = Some d"
  by (cases d) (simp_all add: raw_direction_def)

lemma map_filter_dirs: "DIRECTION_NONE \<notin> set path \<Longrightarrow> List.map_filter raw_direction (map dir_byte path) = path"
  by (induction path) (auto simp: map_filter_simps raw_dir_byte)

lemma yields_parseAutoWalk:
  assumes "path \<noteq> []" "length path \<le> 255" "DIRECTION_NONE \<notin> set path"
  shows "yields parseAutoWalk (F8 (of_nat (length path)) # map (F8 \<circ> dir_byte) (rev path)) (Some (False, PlayerAutoWalk path))"
  unfolding parseAutoWalk_def
proof (rule yields_readers(1), unfold yields_def, intro allI impI)
  let ?n = "of_nat (length path) :: u8"
  let ?bs = "map dir_byte (rev path)"
  fix m assume v: "rd_view m (message_bytes (map (F8 \<circ> dir_byte) (rev path))) \<and> \<not> nm_overrun m"
  have "message_bytes (map (F8 \<circ> dir_byte) xs) = map dir_byte xs" for xs by (induction xs) (simp_all add: le_enc8_single)
  then have r: "rd_view m ?bs" "\<not> nm_overrun m" using v by metis+
  have n: "unat ?n = length path" using assms(2) by (simp add: unat_of_nat)
  then have un: "uint ?n = int (length path)" by (metis uint_nat)
  have nz: "?n \<noteq> 0" using n assms(1) by auto
  have e: "unat (nm_position m) + length path = unat (nm_length m) + 8" using r(1) by (simp add: rd_view_def)
  have "int (unat (nm_position m)) = uint (nm_position m)" "int (unat (nm_length m)) = uint (nm_length m)" by simp_all
  then have eq: "uint (nm_position m) + uint ?n = uint (nm_length m) + 8" using e un by linarith
  let ?m = "skipBytes (uint ?n) m"
  have "unat (nm_position m) + length path < 65536" using e r(1) by (simp add: rd_view_def)
  then have "unat (nm_position ?m) = unat (nm_position m) + length ?bs" using unat16_add[of "nm_position m" "length path"] by (simp add: skipBytes_def un)
  moreover have "mem_read (nm_buffer ?m) (unat (nm_position m)) (length ?bs) = Some ?bs" using r(1) by (simp add: rd_view_def skipBytes_def)
  ultimately obtain m' where w: "walk_path (length ?bs) ?m = Some (List.map_filter raw_direction (rev ?bs), m')" "nm_overrun m' = nm_overrun ?m"
    using walk_path_reads[of ?m "unat (nm_position m)" ?bs] by blast
  have "walk_path (unat ?n) ?m = Some (path, m')" using w(1) map_filter_dirs[OF assms(3)] n by (simp add: rev_map)
  then show "\<exists>m'. (if ?n = 0 \<or> uint (nm_position m) + uint ?n \<noteq> uint (nm_length m) + 8 then ignore m else if nm_overrun m then ignore m
      else Option.bind (walk_path (unat ?n) ?m) (\<lambda>(path, m). if path = [] then ignore m else addGameTask (PlayerAutoWalk path) m)) =
      Some (Some (False, PlayerAutoWalk path), m') \<and> \<not> nm_overrun m'"
    using r(2) nz eq w(2) assms(1) by (simp add: addGameTask_def skipBytes_def)
qed

definition handler :: "bool \<Rightarrow> u8 \<Rightarrow> packet_parser" where
  "handler sent b = (case map_of (handlers sent) b of Some p \<Rightarrow> p | None \<Rightarrow> ignore)"

lemma dispatch_handler: "dispatch_packet sent b = handler sent b"
  by (rule ext) (simp add: dispatch_packet_def handler_def split: option.split)

lemma yields_say [yields_intros]:
  assumes "request_ok (PlayerSay channelId type receiver s)"
  shows "yields parseSay (snd (client_packet (PlayerSay channelId type receiver s))) (Some (False, PlayerSay channelId type receiver s))"
proof -
  have w: "\<not> bad_name s" "length s < 65536" using assms by (auto simp: bad_name_def)
  have words: "yields (say_text ch type rc) [FString s] (Some (False, PlayerSay ch type rc s))" for ch rc
    unfolding say_text_def by (intro yields_intros) (simp_all add: w yields_tasks)
  consider "type = TALKTYPE_PRIVATE_TO \<or> type = TALKTYPE_PRIVATE_RED_TO" | "\<not> (type = TALKTYPE_PRIVATE_TO \<or> type = TALKTYPE_PRIVATE_RED_TO)" "type = TALKTYPE_CHANNEL_Y \<or> type = TALKTYPE_CHANNEL_R1"
    | "\<not> (type = TALKTYPE_PRIVATE_TO \<or> type = TALKTYPE_PRIVATE_RED_TO)" "\<not> (type = TALKTYPE_CHANNEL_Y \<or> type = TALKTYPE_CHANNEL_R1)" by blast
  then show ?thesis
  proof cases
    case 1
    then have r: "\<not> bad_name receiver" "channelId = 0" "length receiver < 65536" using assms by (auto simp: bad_name_def)
    have "yields (\<lambda>m. if bad_name receiver then ignore m else say_text 0 type receiver m) [FString s] (Some (False, PlayerSay 0 type receiver s))"
      using r words by simp
    then have "yields (\<lambda>m. Option.bind (getString 0 m) (\<lambda>(rc, m). if bad_name rc then ignore m else say_text 0 type rc m)) [FString receiver, FString s] (Some (False, PlayerSay 0 type receiver s))"
      by (rule yields_getString[OF r(3)])
    then show ?thesis unfolding parseSay_def using 1 r by (simp, intro yields_readers(1)) simp
  next
    case 2
    have "yields (\<lambda>m. Option.bind (get16 m) (\<lambda>(ch, m). say_text ch type [] m)) [F16 channelId, FString s] (Some (False, PlayerSay channelId type [] s))"
      by (rule yields_readers(2)) (rule words)
    then show ?thesis unfolding parseSay_def using 2 assms by (simp, intro yields_readers(1)) simp
  next
    case 3
    then show ?thesis unfolding parseSay_def using assms words by (simp, intro yields_readers(1)) simp
  qed
qed

lemma yields_bug [yields_intros]:
  assumes "request_ok (PlayerReportBug s pos category)"
  shows "yields parseBugReport (snd (client_packet (PlayerReportBug s pos category))) (Some (False, PlayerReportBug s pos category))"
proof -
  have s: "s \<noteq> []" "\<not> length s > 4096" "length s < 65536" using assms by auto
  have b: "yields (report_bug category s p) [] (Some (False, PlayerReportBug s p category))" for p
    unfolding report_bug_def by (intro yields_intros) (use s yields_tasks in auto)
  show ?thesis
  proof (cases "category = BUG_CATEGORY_MAP")
    case True
    have "yields (\<lambda>m. Option.bind (getPosition m) (\<lambda>(p, m). report_bug category s p m)) [FPosition pos] (Some (False, PlayerReportBug s pos category))"
      by (rule yields_readers(4)) (rule b)
    then show ?thesis unfolding parseBugReport_def using True s by (simp, intro yields_readers(1) yields_getString) simp_all
  next
    case False
    then show ?thesis unfolding parseBugReport_def using assms s b by (simp, intro yields_readers(1) yields_getString) simp_all
  qed
qed

lemma yields_violation [yields_intros]:
  assumes "request_ok (PlayerReportRuleViolation name type reason comment tr)"
  shows "yields parseRuleViolationReport (snd (client_packet (PlayerReportRuleViolation name type reason comment tr))) (Some (False, PlayerReportRuleViolation name type reason comment tr))"
proof -
  have s: "name \<noteq> []" "length name \<le> 255" "length comment \<le> 4096" "length tr \<le> 4096" "length name < 65536" "length comment < 65536" "length tr < 65536"
    using assms by (auto simp: bad_name_def)
  have r: "yields (report_violation name type reason comment tr) [] (Some (False, PlayerReportRuleViolation name type reason comment tr))"
    unfolding report_violation_def by (intro yields_intros) (use s yields_tasks in auto)
  consider "type = REPORT_TYPE_NAME" | "type \<noteq> REPORT_TYPE_NAME" "type = REPORT_TYPE_STATEMENT" | "type \<noteq> REPORT_TYPE_NAME" "type \<noteq> REPORT_TYPE_STATEMENT" by blast
  then show ?thesis
  proof cases
    case 1
    have "yields (\<lambda>m. Option.bind (getString 0 m) (\<lambda>(tr, m). report_violation name type reason comment tr m)) [FString tr] (Some (False, PlayerReportRuleViolation name type reason comment tr))"
      by (rule yields_getString[OF s(7)]) (rule r)
    then show ?thesis unfolding parseRuleViolationReport_def using 1 s by (simp, intro yields_readers(1) yields_getString) simp_all
  next
    case 2
    have "yields (\<lambda>m. Option.bind (getString 0 m) (\<lambda>(tr, m). Option.bind (get32 m) (\<lambda>(i, m). report_violation name type reason comment tr m))) [FString tr, F32 0]
        (Some (False, PlayerReportRuleViolation name type reason comment tr))"
      by (rule yields_getString[OF s(7)], rule yields_readers(3)) (rule r)
    then show ?thesis unfolding parseRuleViolationReport_def using 2 s by (simp, intro yields_readers(1) yields_getString) simp_all
  next
    case 3
    then show ?thesis unfolding parseRuleViolationReport_def using assms s r by (simp, intro yields_readers(1) yields_getString) simp_all
  qed
qed

lemma yields_fight: "yields parseFightModes [F8 (mode_byte f), F8 (bool_byte c), F8 (bool_byte s)] (Some (False, PlayerSetFightModes f c s))"
proof -
  have "yields parseFightModes [F8 (mode_byte f), F8 (bool_byte c), F8 (bool_byte s)]
      (Some (False, PlayerSetFightModes (if mode_byte f = 1 then FIGHTMODE_ATTACK else if mode_byte f = 2 then FIGHTMODE_BALANCED else FIGHTMODE_DEFENSE) (bool_byte c \<noteq> 0) (bool_byte s \<noteq> 0)))"
    unfolding parseFightModes_def by (intro yields_intros)
  then show ?thesis by (cases f; cases c; cases s) (simp_all add: mode_byte_def)
qed

lemma yields_trade: "yields parseLookInTrade [F8 (bool_byte c), F8 i] (Some (True, PlayerLookInTrade c i))"
proof -
  have "yields parseLookInTrade [F8 (bool_byte c), F8 i] (Some (True, PlayerLookInTrade (bool_byte c = 1) i))"
    unfolding parseLookInTrade_def by (intro yields_intros)
  then show ?thesis by (cases c) simp_all
qed

lemma yields_shared: "yields parseEnableSharedPartyExperience [F8 (bool_byte c)] (Some (False, PlayerEnableSharedPartyExperience c))"
proof -
  have "yields parseEnableSharedPartyExperience [F8 (bool_byte c)] (Some (False, PlayerEnableSharedPartyExperience (bool_byte c = 1)))"
    unfolding parseEnableSharedPartyExperience_def by (intro yields_intros)
  then show ?thesis by (cases c) simp_all
qed

lemma bool_byte_nz: "(bool_byte b \<noteq> 0) = b"
  by simp

lemma yields_purchase:
  assumes "a \<noteq> 0"
  shows "yields parsePlayerPurchase [F16 i, F8 n, F8 a, F8 (bool_byte c), F8 (bool_byte b)] (Some (True, PlayerPurchaseItem i n a c b))"
    "yields parsePlayerSale [F16 i, F8 n, F8 a, F8 (bool_byte e)] (Some (True, PlayerSellItem i n a e))"
proof -
  have "yields parsePlayerPurchase [F16 i, F8 n, F8 a, F8 (bool_byte c), F8 (bool_byte b)] (Some (True, PlayerPurchaseItem i n a (bool_byte c \<noteq> 0) (bool_byte b \<noteq> 0)))"
    unfolding parsePlayerPurchase_def yields_if(2)[OF assms] using assms by (intro yields_intros) (simp add: yields_tasks cong: if_cong del: bool_byte_nz)
  moreover have "yields parsePlayerSale [F16 i, F8 n, F8 a, F8 (bool_byte e)] (Some (True, PlayerSellItem i n a (bool_byte e \<noteq> 0)))"
    unfolding parsePlayerSale_def using assms by (intro yields_intros) (simp add: yields_tasks cong: if_cong del: bool_byte_nz)
  ultimately show "yields parsePlayerPurchase [F16 i, F8 n, F8 a, F8 (bool_byte c), F8 (bool_byte b)] (Some (True, PlayerPurchaseItem i n a c b))"
    "yields parsePlayerSale [F16 i, F8 n, F8 a, F8 (bool_byte e)] (Some (True, PlayerSellItem i n a e))" by (simp_all only: bool_byte_nz)
qed

lemma yields_debug:
  assumes "length a \<le> 1024" "length b \<le> 64" "length c \<le> 1024" "length d \<le> 1024"
  shows "yields (parseDebugAssert False) [FString a, FString b, FString c, FString d] (Some (False, PlayerDebugAssert a b c d))"
  unfolding parseDebugAssert_def if_False by (intro yields_intros) (use assms yields_tasks in auto)

lemma yields_request:
  assumes "request_ok r"
  shows "yields (handler False (fst (client_packet r))) (snd (client_packet r)) (Some (expires r, r))"
proof (cases r)
  case (PlayerSay channelId type receiver s)
  then show ?thesis using yields_say assms by (simp add: handler_def handlers_def)
next
  case (PlayerReportBug s pos category)
  then show ?thesis using yields_bug assms by (simp add: handler_def handlers_def)
next
  case (PlayerReportRuleViolation name type reason comment tr)
  then show ?thesis using yields_violation assms by (simp add: handler_def handlers_def)
next
  case (PlayerAutoWalk path)
  then show ?thesis using yields_parseAutoWalk assms by (simp add: handler_def handlers_def)
next
  case (PlayerMove d)
  then show ?thesis using assms yields_tasks by (cases d) (simp_all add: handler_def handlers_def)
next
  case (PlayerTurn d)
  then show ?thesis using assms yields_tasks by (cases d) (simp_all add: handler_def handlers_def)
next
  case (PlayerSetFightModes f c s)
  then show ?thesis using yields_fight[of f c s] by (simp add: handler_def handlers_def)
next
  case (PlayerLookInTrade c i)
  then show ?thesis using yields_trade[of c i] by (simp add: handler_def handlers_def)
next
  case (PlayerEnableSharedPartyExperience c)
  then show ?thesis using yields_shared[of c] by (simp add: handler_def handlers_def)
next
  case (PlayerPurchaseItem i n a c b)
  then show ?thesis using yields_purchase(1)[of a i n c b] assms by (simp add: handler_def handlers_def)
next
  case (PlayerSellItem i n a e)
  then show ?thesis using yields_purchase(2)[of a i n e] assms by (simp add: handler_def handlers_def)
next
  case (PlayerDebugAssert a b c d)
  then show ?thesis using yields_debug[of a b c d] assms by (simp add: handler_def handlers_def)
qed (insert assms, simp_all add: handler_def handlers_def yields_tasks, (unfold parser_defs, intro yields_intros; (auto simp: bad_name_def not_less yields_tasks yields_guards)?)+)

definition packet_fields :: "game_request \<Rightarrow> field list" where
  "packet_fields r = F8 (fst (client_packet r)) # snd (client_packet r)"

lemma rd_view_nonempty: "rd_view m (message_bytes (F8 b # fs)) \<Longrightarrow> nm_position m = 8 \<Longrightarrow> nm_length m \<noteq> 0"
  by (auto simp: rd_view_def le_enc8_single)

text \<open>C14: Whatever request a living player makes within the limits, the packet that encodes it queues exactly that
  request, for that player and with its expiry, and keeps the connection.\<close>

theorem client_request_roundtrip:
  assumes "request_ok r" "rd_view m (message_bytes (packet_fields r))" "nm_position m = 8" "\<not> nm_overrun m"
    and "pg_acceptPackets pg" "\<not> pg_shutdown pg" "pg_player pg = Some player" "\<not> gp_removed player" "gp_health player > 0" "\<not> pg_debugAssertSent pg"
  shows "\<exists>m'. parsePacket m pg = Some (m', pg\<lparr>pg_debugAssertSent := fst (client_packet r) = 0xE8, pg_queue := pg_queue pg @ [(gp_id player, expires r, r)]\<rparr>)"
proof -
  have v: "rd_view m (le_enc8 (fst (client_packet r)) @ message_bytes (snd (client_packet r)))" using assms(2) by (simp add: packet_fields_def)
  obtain m1 where m1: "getByte m = Some (fst (client_packet r), m1)" "rd_view m1 (message_bytes (snd (client_packet r)))" "\<not> nm_overrun m1"
    using getters_clean(1)[OF v assms(4)] by blast
  obtain m2 where m2: "handler False (fst (client_packet r)) m1 = Some (Some (expires r, r), m2)" "\<not> nm_overrun m2"
    using yields_request[OF assms(1)] m1(2,3) unfolding yields_def by blast
  have "nm_length m \<noteq> 0" using rd_view_nonempty assms(2,3) unfolding packet_fields_def by blast
  then show ?thesis using m1(1) m2 assms(5-10) by (simp add: parsePacket_def dispatch_handler Let_def)
qed

theorem client_request_roundtrip_witness:
  "\<exists>m'. parsePacket \<lparr>nm_length = 5, nm_position = 8, nm_overrun = False, nm_buffer = replicate 8 0 @ [0xA1, 1, 2, 0, 0] @ replicate 24577 0\<rparr>
      \<lparr>pg_acceptPackets = True, pg_shutdown = False, pg_player = Some \<lparr>gp_id = 7, gp_removed = False, gp_health = 10\<rparr>, pg_debugAssertSent = False, pg_queue = [], pg_disconnected = False\<rparr> =
    Some (m', \<lparr>pg_acceptPackets = True, pg_shutdown = False, pg_player = Some \<lparr>gp_id = 7, gp_removed = False, gp_health = 10\<rparr>, pg_debugAssertSent = False,
      pg_queue = [(7, False, PlayerSetAttackedCreature 513)], pg_disconnected = False\<rparr>)"
proof -
  have "message_bytes (packet_fields (PlayerSetAttackedCreature 513)) = [0xA1, 1, 2, 0, 0]"
  proof -
    have four: "(4::nat) = Suc (Suc (Suc (Suc 0)))" by simp
    have "le_bytes 4 513 = [1, 2, 0, 0]" unfolding four le_bytes.simps by simp
    then show ?thesis by (simp add: packet_fields_def le_enc8_single le_enc32_def)
  qed
  then have "rd_view \<lparr>nm_length = 5, nm_position = 8, nm_overrun = False, nm_buffer = replicate 8 0 @ [0xA1, 1, 2, 0, 0] @ replicate 24577 0\<rparr>
      (message_bytes (packet_fields (PlayerSetAttackedCreature 513)))"
    by (simp add: rd_view_def nm_inv_iff mem_read_def)
  from client_request_roundtrip[OF _ this, of "\<lparr>pg_acceptPackets = True, pg_shutdown = False, pg_player = Some \<lparr>gp_id = 7, gp_removed = False, gp_health = 10\<rparr>,
      pg_debugAssertSent = False, pg_queue = [], pg_disconnected = False\<rparr>"] show ?thesis by simp
qed

end
