(* ===== verification/World_Map.thy ===== *)
theory World_Map
  imports World_Position
begin

text \<open>
  The map of \<open>src/src/map.h\<close> and \<open>map.cpp\<close>: a quad tree over the upper thirteen bits of both coordinates, whose leaves
  hold sixteen floors of eight by eight tiles, the creatures standing in the block, and links to the leaves
  south and east. Leaves are addresses into a store, since the links alias them; a null pointer is \<open>QNull\<close> or
  \<open>None\<close>. Tiles are a parameter, and so is what an existing tile becomes when a second one is set at its
  position. Positions and kinds of creatures are given by functions.
\<close>

section \<open>The quad tree\<close>

definition MAP_MAX_LAYERS :: nat where "MAP_MAX_LAYERS = 16"
definition FLOOR_BITS :: nat where "FLOOR_BITS = 3"
definition FLOOR_SIZE :: nat where "FLOOR_SIZE = 8"
definition FLOOR_MASK :: u32 where "FLOOR_MASK = 7"

datatype qnode = QNull | QLeaf nat | QNode qnode qnode qnode qnode

definition child_index :: "u32 \<Rightarrow> u32 \<Rightarrow> u32" where
  "child_index x y = drop_bit 15 (x AND 0x8000) OR drop_bit 14 (y AND 0x8000)"

definition get_child :: "u32 \<Rightarrow> qnode \<times> qnode \<times> qnode \<times> qnode \<Rightarrow> qnode" where
  "get_child i = (\<lambda>(a, b, c, d). if i = 0 then a else if i = 1 then b else if i = 2 then c else d)"

definition set_child :: "u32 \<Rightarrow> qnode \<Rightarrow> qnode \<times> qnode \<times> qnode \<times> qnode \<Rightarrow> qnode" where
  "set_child i n = (\<lambda>(a, b, c, d).
     if i = 0 then QNode n b c d else if i = 1 then QNode a n c d else if i = 2 then QNode a b n d else QNode a b c n)"

text \<open>\<open>QTreeNode::getLeaf\<close>, and the loop of \<open>getLeafStatic\<close>, which starts at the children of its node.\<close>

fun getLeaf :: "qnode \<Rightarrow> u32 \<Rightarrow> u32 \<Rightarrow> nat option" where
  "getLeaf QNull x y = None"
| "getLeaf (QLeaf i) x y = Some i"
| "getLeaf (QNode a b c d) x y =
     (let i = child_index x y; x = push_bit 1 x; y = push_bit 1 y in
      if i = 0 then getLeaf a x y else if i = 1 then getLeaf b x y else if i = 2 then getLeaf c x y else getLeaf d x y)"

function getLeafStatic :: "qnode \<Rightarrow> u32 \<Rightarrow> u32 \<Rightarrow> nat option" where
  "getLeafStatic (QNode a b c d) x y =
     (case get_child (child_index x y) (a, b, c, d) of
        QNull \<Rightarrow> None
      | QLeaf i \<Rightarrow> Some i
      | QNode a' b' c' d' \<Rightarrow> getLeafStatic (QNode a' b' c' d') (push_bit 1 x) (push_bit 1 y))"
| "getLeafStatic QNull x y = None"
| "getLeafStatic (QLeaf i) x y = None"
  by pat_completeness auto
termination
  by (relation "measure (\<lambda>(n, x, y). size n)") (auto simp: get_child_def split: if_splits)

partial_function (option) createLeaf :: "qnode \<Rightarrow> u32 \<Rightarrow> u32 \<Rightarrow> u32 \<Rightarrow> nat \<Rightarrow> (qnode \<times> nat \<times> bool) option" where
  "createLeaf n x y level fresh =
     (case n of
        QNull \<Rightarrow> None
      | QLeaf i \<Rightarrow> Some (QLeaf i, i, False)
      | QNode a b c d \<Rightarrow>
          (let index = child_index x y; ch = get_child index (a, b, c, d);
               new = (ch = QNull);
               ch = (if new then if level \<noteq> of_nat FLOOR_BITS then QNode QNull QNull QNull QNull else QLeaf fresh else ch)
           in Option.bind (createLeaf ch (x * 2) (y * 2) (level - 1) fresh)
                (\<lambda>(ch', leaf, newLeaf). Some (set_child index ch' (a, b, c, d), leaf, newLeaf \<or> new \<and> level = of_nat FLOOR_BITS))))"

record 't map_leaf =
  leafS :: "nat option"
  leafE :: "nat option"
  floors :: "nat \<rightharpoonup> (nat \<times> nat \<rightharpoonup> 't)"
  creature_list :: "u32 list"
  player_list :: "u32 list"

record 't world_map =
  root :: qnode
  leaves :: "nat \<Rightarrow> 't map_leaf"
  next_leaf :: nat
  spectatorCache :: "position \<rightharpoonup> u32 list"
  playersSpectatorCache :: "position \<rightharpoonup> u32 list"

definition new_leaf :: "'t map_leaf" where
  "new_leaf = \<lparr>leafS = None, leafE = None, floors = Map.empty, creature_list = [], player_list = []\<rparr>"

definition empty_map :: "'t world_map" where
  "empty_map = \<lparr>root = QNode QNull QNull QNull QNull, leaves = (\<lambda>_. new_leaf), next_leaf = 0,
     spectatorCache = Map.empty, playersSpectatorCache = Map.empty\<rparr>"

definition upd_leaf :: "nat \<Rightarrow> ('t map_leaf \<Rightarrow> 't map_leaf) \<Rightarrow> 't world_map \<Rightarrow> 't world_map" where
  "upd_leaf i f m = m\<lparr>leaves := (leaves m)(i := f (leaves m i))\<rparr>"

definition getQTNode :: "u16 \<Rightarrow> u16 \<Rightarrow> 't world_map \<Rightarrow> nat option" where
  "getQTNode x y m = getLeafStatic (root m) (ucast x) (ucast y)"

definition tile_offset :: "u16 \<Rightarrow> nat" where
  "tile_offset x = unat (ucast x AND FLOOR_MASK)"

definition getTile :: "u16 \<Rightarrow> u16 \<Rightarrow> u8 \<Rightarrow> 't world_map \<Rightarrow> 't option" where
  "getTile x y z m =
     (if unat z \<ge> MAP_MAX_LAYERS then None
      else case getLeafStatic (root m) (ucast x) (ucast y) of
             None \<Rightarrow> None
           | Some leaf \<Rightarrow>
               (case floors (leaves m leaf) (unat z) of
                  None \<Rightarrow> None
                | Some floor \<Rightarrow> floor (tile_offset x, tile_offset y)))"

definition createFloor :: "nat \<Rightarrow> 't map_leaf \<Rightarrow> 't map_leaf" where
  "createFloor z leaf = (if floors leaf z = None then leaf\<lparr>floors := (floors leaf)(z \<mapsto> Map.empty)\<rparr> else leaf)"

text \<open>The links of a leaf that was just created and of the leaves next to it. The neighbours' coordinates are
  computed in 32 bits.\<close>

definition link_leaf :: "u16 \<Rightarrow> u16 \<Rightarrow> nat \<Rightarrow> 't world_map \<Rightarrow> 't world_map" where
  "link_leaf x y leaf m =
     (let x = ucast x :: u32; y = ucast y :: u32;
          m = (case getLeaf (root m) x (y - of_nat FLOOR_SIZE) of Some i \<Rightarrow> upd_leaf i (leafS_update (\<lambda>_. Some leaf)) m | None \<Rightarrow> m);
          m = (case getLeaf (root m) (x - of_nat FLOOR_SIZE) y of Some i \<Rightarrow> upd_leaf i (leafE_update (\<lambda>_. Some leaf)) m | None \<Rightarrow> m);
          m = (case getLeaf (root m) x (y + of_nat FLOOR_SIZE) of Some i \<Rightarrow> upd_leaf leaf (leafS_update (\<lambda>_. Some i)) m | None \<Rightarrow> m)
      in (case getLeaf (root m) (x + of_nat FLOOR_SIZE) y of Some i \<Rightarrow> upd_leaf leaf (leafE_update (\<lambda>_. Some i)) m | None \<Rightarrow> m))"

definition place_tile :: "('t \<Rightarrow> 't \<Rightarrow> 't) \<Rightarrow> u16 \<Rightarrow> u16 \<Rightarrow> u8 \<Rightarrow> 't \<Rightarrow> nat \<Rightarrow> 't world_map \<Rightarrow> 't world_map" where
  "place_tile absorb x y z newTile leaf m =
     (let m = upd_leaf leaf (createFloor (unat z)) m;
          floor = the (floors (leaves m leaf) (unat z));
          pos = (tile_offset x, tile_offset y);
          tile = (case floor pos of Some old \<Rightarrow> absorb old newTile | None \<Rightarrow> newTile)
      in upd_leaf leaf (\<lambda>l. l\<lparr>floors := (floors l)(unat z \<mapsto> floor(pos \<mapsto> tile))\<rparr>) m)"

definition setTile :: "('t \<Rightarrow> 't \<Rightarrow> 't) \<Rightarrow> u16 \<Rightarrow> u16 \<Rightarrow> u8 \<Rightarrow> 't \<Rightarrow> 't world_map \<Rightarrow> 't world_map option" where
  "setTile absorb x y z newTile m =
     (if unat z \<ge> MAP_MAX_LAYERS then Some m
      else Option.bind (createLeaf (root m) (ucast x) (ucast y) 15 (next_leaf m)) (\<lambda>(r, leaf, newLeaf).
        let m = m\<lparr>root := r\<rparr>;
            m = (if newLeaf then link_leaf x y leaf (m\<lparr>leaves := (leaves m)(leaf := new_leaf), next_leaf := Suc (next_leaf m)\<rparr>) else m)
        in Some (place_tile absorb x y z newTile leaf m)))"

section \<open>Blocks\<close>

text \<open>The leaf of a position depends on bits 3 to 15 of its coordinates: the number of its block.\<close>

definition block :: "u32 \<Rightarrow> int" where
  "block x = take_bit 13 (drop_bit 3 (uint x))"

definition agree :: "nat \<Rightarrow> u32 \<Rightarrow> u32 \<Rightarrow> bool" where
  "agree n x x' \<longleftrightarrow> (\<forall>i < n. bit x (15 - i) = bit x' (15 - i))"

lemma bit_shifted: "bit (x * 2) (Suc n) \<longleftrightarrow> n < 31 \<and> bit x n" for x :: u32
  using bit_double_iff[of x "Suc n"] by (auto simp: mult.commute[of 2])

lemma agree_Suc: "n \<le> 13 \<Longrightarrow> agree (Suc n) x x' \<longleftrightarrow> bit x 15 = bit x' 15 \<and> agree n (x * 2) (x' * 2)"
proof -
  assume n: "n \<le> 13"
  have "bit (w * 2) (15 - i) = bit w (15 - Suc i)" if "i < n" for w :: u32 and i
  proof -
    have "15 - i = Suc (15 - Suc i)" "15 - Suc i < 31" using that n by simp_all
    then show ?thesis using bit_shifted[of w "15 - Suc i"] by metis
  qed
  then show ?thesis unfolding agree_def by (auto simp: All_less_Suc2)
qed

lemma bit_block: "bit (block x) j \<longleftrightarrow> j < 13 \<and> bit x (j + 3)"
  by (auto simp: block_def bit_take_bit_iff bit_drop_bit_eq bit_uint_iff bit_simps add.commute)

lemma agree_13: "agree 13 x x' \<longleftrightarrow> block x = block x'"
proof -
  have "block x = block x' \<longleftrightarrow> (\<forall>j < 13. bit x (j + 3) = bit x' (j + 3))"
    unfolding bit_eq_iff bit_block by auto
  also have "\<dots> \<longleftrightarrow> agree 13 x x'"
  proof
    assume L: "\<forall>j < 13. bit x (j + 3) = bit x' (j + 3)"
    have "bit x (15 - i) = bit x' (15 - i)" if "i < 13" for i using L[rule_format, of "12 - i"] that by simp
    then show "agree 13 x x'" by (simp add: agree_def)
  next
    assume R: "agree 13 x x'"
    have "bit x (j + 3) = bit x' (j + 3)" if "j < 13" for j
    proof -
      have "12 - j < 13" "15 - (12 - j) = j + 3" using that by simp_all
      then show ?thesis using R unfolding agree_def by metis
    qed
    then show "\<forall>j < 13. bit x (j + 3) = bit x' (j + 3)" by simp
  qed
  finally show ?thesis by simp
qed

lemma block_of_int: "block (word_of_int v) = (v div 8) mod 8192"
proof -
  have "block (word_of_int v) = take_bit 13 (drop_bit 3 v)"
    unfolding bit_eq_iff bit_block by (auto simp: bit_take_bit_iff bit_drop_bit_eq bit_word_of_int_iff add.commute)
  then show ?thesis by (simp add: take_bit_eq_mod drop_bit_eq_div)
qed

lemma block_bound: "0 \<le> block x" "block x < 8192"
  by (simp_all add: block_def take_bit_eq_mod)

lemma block_shift:
  "block (x + 8) = (if block x = 8191 then 0 else block x + 1)" "block (x - 8) = (if block x = 0 then 8191 else block x - 1)"
proof -
  have x: "block x = (uint x div 8) mod 8192" using block_of_int[of "uint x"] by simp
  have "x + 8 = word_of_int (uint x + 8)" "x - 8 = word_of_int (uint x - 8)" by simp_all
  moreover have "(uint x + 8) div 8 = uint x div 8 + 1" "(uint x - 8) div 8 = uint x div 8 - 1" by linarith+
  ultimately have "block (x + 8) = (block x + 1) mod 8192" "block (x - 8) = (block x - 1) mod 8192"
    unfolding x by (simp_all only: block_of_int mod_simps)
  moreover have "(- 1) mod 8192 = (8191 :: int)" by simp
  ultimately show "block (x + 8) = (if block x = 8191 then 0 else block x + 1)"
      "block (x - 8) = (if block x = 0 then 8191 else block x - 1)"
    using block_bound[of x] by (auto simp: mod_pos_pos_trivial)
qed

lemma block_shift_iff:
  "block (x + 8) = block y \<longleftrightarrow> block x = block (y - 8)" "block (x + 8) = block (y + 8) \<longleftrightarrow> block x = block y"
  using block_bound[of x] block_bound[of y] unfolding block_shift by (auto split: if_splits)

section \<open>Looking up and creating leaves\<close>

lemma mask_bit_15: "x AND 0x8000 = (if bit x 15 then 0x8000 else 0)" for x :: u32
proof (rule bit_word_eqI)
  fix n
  have "bit (0x8000 :: u32) n \<longleftrightarrow> n = 15" using bit_exp_iff[of 15 n, where 'a = "32 word"] by auto
  then show "bit (x AND 0x8000) n = bit (if bit x 15 then 0x8000 else 0 :: u32) n" by (auto simp: bit_and_iff)
qed

lemma child_index_bits: "child_index x y = (if bit x 15 then 1 else 0) + (if bit y 15 then 2 else 0)"
  unfolding child_index_def mask_bit_15 by (cases "bit x 15"; cases "bit y 15"; simp)


lemma getLeaf_QNode: "getLeaf (QNode a b c d) x y = getLeaf (get_child (child_index x y) (a, b, c, d)) (x * 2) (y * 2)"
  by (simp add: get_child_def Let_def)

lemma getLeafStatic_eq: "getLeafStatic (QNode a b c d) x y = getLeaf (QNode a b c d) x y"
proof (induction "QNode a b c d" x y arbitrary: a b c d rule: getLeafStatic.induct)
  case (1 a b c d x y)
  show ?case
  proof (cases "get_child (child_index x y) (a, b, c, d)")
    case (QNode a' b' c' d')
    then show ?thesis using 1[OF QNode] by (simp add: getLeaf_QNode[of a b c d] del: getLeaf.simps(3))
  qed (simp_all add: getLeaf_QNode del: getLeaf.simps(3))
qed

declare getLeaf.simps(3) [simp del] getLeafStatic.simps(1) [simp del]

fun depth_ok :: "nat \<Rightarrow> qnode \<Rightarrow> bool" where
  "depth_ok n QNull = True"
| "depth_ok n (QLeaf i) = (n = 0)"
| "depth_ok n (QNode a b c d) =
     (n \<noteq> 0 \<and> depth_ok (n - 1) a \<and> depth_ok (n - 1) b \<and> depth_ok (n - 1) c \<and> depth_ok (n - 1) d)"

lemma get_child_depth: "depth_ok n (QNode a b c d) \<Longrightarrow> depth_ok (n - 1) (get_child i (a, b, c, d))"
  by (simp add: get_child_def)

lemma set_child_depth: "depth_ok n (QNode a b c d) \<Longrightarrow> depth_ok (n - 1) t \<Longrightarrow> depth_ok n (set_child i t (a, b, c, d))"
  by (simp add: set_child_def)

lemma child_index_cases: "child_index x y \<in> {0, 1, 2, 3}"
  by (simp add: child_index_bits)

lemma child_index_eq: "child_index x y = child_index x' y' \<longleftrightarrow> bit x 15 = bit x' 15 \<and> bit y 15 = bit y' 15"
  by (simp add: child_index_bits)

lemma getLeaf_set_child:
  "getLeaf (set_child (child_index x y) t (a, b, c, d)) x' y' =
     (if bit x 15 = bit x' 15 \<and> bit y 15 = bit y' 15 then getLeaf t (x' * 2) (y' * 2) else getLeaf (QNode a b c d) x' y')"
  using child_index_cases[of x y] child_index_cases[of x' y'] unfolding child_index_eq[symmetric]
  by (auto simp: set_child_def getLeaf_QNode get_child_def)

lemma set_child_QNode: "\<exists>a' b' c' d'. set_child i t (a, b, c, d) = QNode a' b' c' d'"
  by (simp add: set_child_def)

lemma getLeaf_agree:
  "depth_ok n t \<Longrightarrow> n \<le> 13 \<Longrightarrow> agree n x x' \<Longrightarrow> agree n y y' \<Longrightarrow> getLeaf t x y = getLeaf t x' y'"
proof (induction t arbitrary: n x y x' y' rule: qnode.induct)
  case (QNode a b c d)
  obtain m where m: "n = Suc m" using QNode.prems(1) by (cases n) auto
  have ag: "bit x 15 = bit x' 15" "bit y 15 = bit y' 15" "agree m (x * 2) (x' * 2)" "agree m (y * 2) (y' * 2)"
    using QNode.prems(2-4) by (simp_all add: m agree_Suc)
  then have "child_index x y = child_index x' y'" by (simp add: child_index_eq)
  then show ?case using QNode.IH[of m "x * 2" "x' * 2" "y * 2" "y' * 2"] QNode.prems(1,2) ag m
    by (simp add: getLeaf_QNode get_child_def)
qed simp_all

lemma of_nat_level: "n \<le> 13 \<Longrightarrow> (of_nat (Suc n + 2) :: u32) - 1 = of_nat (n + 2)"
    "n \<le> 13 \<Longrightarrow> (of_nat (Suc n + 2) :: u32) = of_nat FLOOR_BITS \<longleftrightarrow> n = 0"
  by (simp_all add: FLOOR_BITS_def word_unat_eq_iff unat_word_ariths unat_of_nat take_bit_nat_eq_self)

lemma createLeaf_spec:
  assumes "n \<le> 13" "depth_ok n t" "t \<noteq> QNull"
  shows "\<exists>t' i. createLeaf t x y (of_nat (n + 2)) fresh = Some (t', i, getLeaf t x y = None) \<and> depth_ok n t' \<and> t' \<noteq> QNull \<and>
     (n \<noteq> 0 \<longrightarrow> (\<exists>a b c d. t' = QNode a b c d)) \<and>
     i = (case getLeaf t x y of Some j \<Rightarrow> j | None \<Rightarrow> fresh) \<and>
     (\<forall>x' y'. getLeaf t' x' y' = (if agree n x x' \<and> agree n y y' then Some i else getLeaf t x' y'))"
  using assms
proof (induction n arbitrary: t x y)
  case 0
  then obtain i where "t = QLeaf i" by (cases t) auto
  then show ?case by (subst createLeaf.simps) (simp add: agree_def)
next
  case (Suc n)
  then obtain a b c d where t: "t = QNode a b c d" by (cases t) auto
  let ?i = "child_index x y"
  define ch where "ch = get_child ?i (a, b, c, d)"
  define ch1 where "ch1 = (if ch = QNull then if n \<noteq> 0 then QNode QNull QNull QNull QNull else QLeaf fresh else ch)"
  have "depth_ok n ch1" "ch1 \<noteq> QNull" using get_child_depth[OF Suc.prems(2)[unfolded t], of ?i] by (auto simp: ch1_def ch_def)
  then obtain t' i where IH: "createLeaf ch1 (x * 2) (y * 2) (of_nat (n + 2)) fresh = Some (t', i, getLeaf ch1 (x * 2) (y * 2) = None)"
      "depth_ok n t'" "i = (case getLeaf ch1 (x * 2) (y * 2) of Some j \<Rightarrow> j | None \<Rightarrow> fresh)"
      "\<And>x' y'. getLeaf t' x' y' = (if agree n (x * 2) x' \<and> agree n (y * 2) y' then Some i else getLeaf ch1 x' y')"
    using Suc.IH[of ch1 "x * 2" "y * 2"] Suc.prems(1) by auto
  have lf: "getLeaf t x y = getLeaf ch (x * 2) (y * 2)" by (simp add: t getLeaf_QNode ch_def)
  have ch1: "getLeaf ch1 x' y' = (if ch = QNull \<and> n = 0 then Some fresh else getLeaf ch x' y')" for x' y'
    by (cases ch) (simp_all add: ch1_def getLeaf_QNode get_child_def)
  have "createLeaf t x y lv fresh = Option.bind (createLeaf ch1 (x * 2) (y * 2) (lv - 1) fresh)
      (\<lambda>(ch', leaf, new). Some (set_child ?i ch' (a, b, c, d), leaf, new \<or> ch = QNull \<and> n = 0))"
    if "lv = of_nat FLOOR_BITS \<longleftrightarrow> n = 0" for lv
    unfolding t ch1_def that[symmetric] ch_def by (subst createLeaf.simps) (simp add: Let_def if_distrib)
  then have "createLeaf t x y (of_nat (Suc n + 2)) fresh = Some (set_child ?i t' (a, b, c, d), i, getLeaf t x y = None)"
    using of_nat_level[of n] Suc.prems(1) IH(1) by (auto simp: lf ch1)
  moreover have "getLeaf (set_child ?i t' (a, b, c, d)) x' y' =
      (if agree (Suc n) x x' \<and> agree (Suc n) y y' then Some i else getLeaf t x' y')" for x' y'
  proof -
    have "getLeaf ch1 (x' * 2) (y' * 2) = getLeaf t x' y'"
      if "bit x 15 = bit x' 15" "bit y 15 = bit y' 15" "\<not> (agree n (x * 2) (x' * 2) \<and> agree n (y * 2) (y' * 2))"
      using that child_index_eq[of x y x' y'] by (auto simp: ch1 t getLeaf_QNode ch_def agree_def)
    then show ?thesis using Suc.prems(1) by (auto simp: getLeaf_set_child IH(4) agree_Suc t)
  qed
  moreover have "i = (case getLeaf t x y of Some j \<Rightarrow> j | None \<Rightarrow> fresh)" using IH(3) by (simp add: lf ch1)
  moreover have "depth_ok (Suc n) (set_child ?i t' (a, b, c, d))"
    using set_child_depth[OF Suc.prems(2)[unfolded t]] IH(2) by simp
  ultimately show ?case using set_child_QNode[of ?i t' a b c d] by (metis qnode.distinct(4))
qed


section \<open>The map invariant\<close>

text \<open>Different blocks have different leaves, and the links of a leaf lead to the leaves of the blocks east and
  south of it; the coordinates wrap around at the edge of the map.\<close>

definition map_inv :: "'t world_map \<Rightarrow> bool" where
  "map_inv m \<longleftrightarrow> (\<exists>a b c d. root m = QNode a b c d) \<and> depth_ok 13 (root m) \<and>
     (\<forall>x y i. getLeaf (root m) x y = Some i \<longrightarrow> i < next_leaf m) \<and>
     (\<forall>x y x' y' i. getLeaf (root m) x y = Some i \<longrightarrow> getLeaf (root m) x' y' = Some i \<longrightarrow> block x = block x' \<and> block y = block y') \<and>
     (\<forall>x y i. getLeaf (root m) x y = Some i \<longrightarrow>
        leafE (leaves m i) = getLeaf (root m) (x + 8) y \<and> leafS (leaves m i) = getLeaf (root m) x (y + 8))"

lemma map_invD:
  assumes "map_inv m"
  shows "depth_ok 13 (root m)" "root m \<noteq> QNull" "getLeafStatic (root m) x y = getLeaf (root m) x y"
    "getLeaf (root m) x y = Some i \<Longrightarrow> i < next_leaf m"
    "getLeaf (root m) x y = Some i \<Longrightarrow> getLeaf (root m) x' y' = Some i \<Longrightarrow> block x = block x' \<and> block y = block y'"
    "getLeaf (root m) x y = Some i \<Longrightarrow> leafE (leaves m i) = getLeaf (root m) (x + 8) y"
    "getLeaf (root m) x y = Some i \<Longrightarrow> leafS (leaves m i) = getLeaf (root m) x (y + 8)"
    "block x = block x' \<Longrightarrow> block y = block y' \<Longrightarrow> getLeaf (root m) x y = getLeaf (root m) x' y'"
proof -
  from assms obtain a b c d where r: "root m = QNode a b c d" by (auto simp: map_inv_def)
  show "depth_ok 13 (root m)" "root m \<noteq> QNull" "getLeafStatic (root m) x y = getLeaf (root m) x y"
    using assms r by (simp_all add: map_inv_def getLeafStatic_eq)
  show "getLeaf (root m) x y = Some i \<Longrightarrow> i < next_leaf m"
    "getLeaf (root m) x y = Some i \<Longrightarrow> getLeaf (root m) x' y' = Some i \<Longrightarrow> block x = block x' \<and> block y = block y'"
    "getLeaf (root m) x y = Some i \<Longrightarrow> leafE (leaves m i) = getLeaf (root m) (x + 8) y"
    "getLeaf (root m) x y = Some i \<Longrightarrow> leafS (leaves m i) = getLeaf (root m) x (y + 8)"
    using assms unfolding map_inv_def by metis+
  show "block x = block x' \<Longrightarrow> block y = block y' \<Longrightarrow> getLeaf (root m) x y = getLeaf (root m) x' y'"
    using getLeaf_agree[of 13 "root m" x x' y y'] assms by (simp add: map_inv_def agree_13)
qed

lemma map_inv_shape: "map_inv m \<Longrightarrow> \<exists>a b c d. root m = QNode a b c d"
  unfolding map_inv_def by (elim conjE)

lemma map_inv_cong:
  assumes inv: "map_inv m" and shape: "\<exists>a b c d. root m' = QNode a b c d" "depth_ok 13 (root m')"
    and eq: "getLeaf (root m') = getLeaf (root m)" "next_leaf m' = next_leaf m"
      "\<And>j. leafE (leaves m' j) = leafE (leaves m j)" "\<And>j. leafS (leaves m' j) = leafS (leaves m j)"
  shows "map_inv m'"
  using inv shape unfolding map_inv_def eq by (elim conjE) (intro conjI)

lemma empty_map_inv: "map_inv empty_map"
proof -
  have "getLeaf (QNode QNull QNull QNull QNull) x y = None" for x y by (simp add: getLeaf_QNode get_child_def)
  then show ?thesis by (simp add: map_inv_def empty_map_def)
qed

lemma block_neighbours: "block (x - 8) \<noteq> block x" "block (x + 8) \<noteq> block x"
  using block_bound[of x] by (auto simp: block_shift)

text \<open>The links and the other fields after \<open>link_leaf\<close>.\<close>

lemma link_leaf_fields:
  "root (link_leaf x y leaf m) = root m" "next_leaf (link_leaf x y leaf m) = next_leaf m"
  "floors (leaves (link_leaf x y leaf m) k) = floors (leaves m k)"
  "creature_list (leaves (link_leaf x y leaf m) k) = creature_list (leaves m k)"
  "player_list (leaves (link_leaf x y leaf m) k) = player_list (leaves m k)"
  "spectatorCache (link_leaf x y leaf m) = spectatorCache m" "playersSpectatorCache (link_leaf x y leaf m) = playersSpectatorCache m"
  by (simp_all add: link_leaf_def upd_leaf_def Let_def split: option.split)

lemma link_leaf_links:
  assumes "getLeaf (root m) (ucast x) (ucast y - 8) \<noteq> Some leaf" "getLeaf (root m) (ucast x - 8) (ucast y) \<noteq> Some leaf"
    "leafS (leaves m leaf) = None" "leafE (leaves m leaf) = None"
  shows "leafS (leaves (link_leaf x y leaf m) k) =
      (if k = leaf then getLeaf (root m) (ucast x) (ucast y + 8)
       else if getLeaf (root m) (ucast x) (ucast y - 8) = Some k then Some leaf else leafS (leaves m k))"
    "leafE (leaves (link_leaf x y leaf m) k) =
      (if k = leaf then getLeaf (root m) (ucast x + 8) (ucast y)
       else if getLeaf (root m) (ucast x - 8) (ucast y) = Some k then Some leaf else leafE (leaves m k))"
  using assms by (auto simp: link_leaf_def upd_leaf_def Let_def FLOOR_SIZE_def split: option.split)

lemma new_leaf_inv:
  assumes inv: "map_inv m" and none: "getLeaf (root m) (ucast x) (ucast y) = None"
    and r: "\<exists>a b c d. r = QNode a b c d" "depth_ok 13 r"
    and get: "\<And>x' y'. getLeaf r x' y' =
      (if block (ucast x) = block x' \<and> block (ucast y) = block y' then Some (next_leaf m) else getLeaf (root m) x' y')"
  shows "map_inv (link_leaf x y (next_leaf m) (m\<lparr>root := r, leaves := (leaves m)(next_leaf m := new_leaf), next_leaf := Suc (next_leaf m)\<rparr>))"
    (is "map_inv (link_leaf x y ?l ?m)")
proof -
  let ?x = "ucast x :: u32" and ?y = "ucast y :: u32"
  have old: "getLeaf (root m) x' y' = Some k \<Longrightarrow> k < ?l" for x' y' k using map_invD(4)[OF inv] .
  have inj: "block x1 = block x2 \<and> block y1 = block y2" if "getLeaf r x1 y1 = Some k" "getLeaf r x2 y2 = Some k" for x1 y1 x2 y2 k
  proof -
    have "(block ?x = block x1 \<and> block ?y = block y1) = (block ?x = block x2 \<and> block ?y = block y2)"
      using that old[of x1 y1 k] old[of x2 y2 k] unfolding get by (simp split: if_splits) blast
    then show ?thesis using that map_invD(5)[OF inv, of x1 y1 k x2 y2] unfolding get by (simp split: if_splits)
  qed
  have cong: "getLeaf r x1 y1 = getLeaf r x2 y2" if "block x1 = block x2" "block y1 = block y2" for x1 y1 x2 y2
    using that getLeaf_agree[OF r(2), of x1 x2 y1 y2] by (simp add: agree_13)
  have fresh: "getLeaf r ?x (?y - 8) \<noteq> Some ?l" "getLeaf r (?x - 8) ?y \<noteq> Some ?l"
    using old[of ?x "?y - 8" ?l] old[of "?x - 8" ?y ?l] block_neighbours[of ?x, symmetric] block_neighbours[of ?y, symmetric]
    by (auto simp only: get if_False simp_thms)
  note links = link_leaf_links[of ?m x y ?l, simplified, OF fresh, unfolded new_leaf_def, simplified]
  have S: "leafS (leaves (link_leaf x y ?l ?m) k) = getLeaf r x' (y' + 8)"
    and E: "leafE (leaves (link_leaf x y ?l ?m) k) = getLeaf r (x' + 8) y'" if k: "getLeaf r x' y' = Some k" for x' y' k
  proof -
    have "leafS (leaves (link_leaf x y ?l ?m) k) = getLeaf r x' (y' + 8) \<and> leafE (leaves (link_leaf x y ?l ?m) k) = getLeaf r (x' + 8) y'"
    proof (cases "block ?x = block x' \<and> block ?y = block y'")
      case True
      then have "k = ?l" using k by (simp add: get)
      then show ?thesis using True cong[of ?x x' "?y + 8" "y' + 8"] cong[of "?x + 8" "x' + 8" ?y y']
        by (simp add: links new_leaf_def block_shift_iff)
    next
      case False
      then have k0: "getLeaf (root m) x' y' = Some k" "k \<noteq> ?l" using k old[of x' y' k] by (auto simp: get)
      have "getLeaf r ?x (?y - 8) = Some k \<longleftrightarrow> block ?x = block x' \<and> block ?y = block (y' + 8)"
        using inj[OF _ k] cong[of ?x x' "?y - 8" y'] k block_shift_iff(1)[of y' ?y] by metis
      moreover have "getLeaf r (?x - 8) ?y = Some k \<longleftrightarrow> block ?x = block (x' + 8) \<and> block ?y = block y'"
        using inj[OF _ k] cong[of "?x - 8" x' ?y y'] k block_shift_iff(1)[of x' ?x] by metis
      ultimately show ?thesis using k0 map_invD(6,7)[OF inv k0(1)] by (auto simp: links new_leaf_def get)
    qed
    then show "leafS (leaves (link_leaf x y ?l ?m) k) = getLeaf r x' (y' + 8)"
      "leafE (leaves (link_leaf x y ?l ?m) k) = getLeaf r (x' + 8) y'" by simp_all
  qed
  have less: "getLeaf r x' y' = Some k \<Longrightarrow> k < Suc ?l" for x' y' k using old[of x' y' k] by (auto simp: get less_Suc_eq split: if_splits)
  have m: "root ?m = r" "next_leaf ?m = Suc ?l" by simp_all
  show ?thesis unfolding map_inv_def link_leaf_fields m
    by (intro conjI allI impI; (rule r | rule inj[THEN conjunct1] inj[THEN conjunct2], assumption, assumption | rule less S E, assumption))
qed


section \<open>Tiles\<close>

lemma uint_widen: "uint (ucast (x :: u16) :: u32) = uint x" "unat (ucast (x :: u16) :: u32) = unat x"
proof -
  have "uint x < 65536" using uint_bounded[of x] by simp
  then show "uint (ucast x :: u32) = uint x" by (simp add: unsigned_ucast_eq take_bit_int_eq_self)
  then show "unat (ucast x :: u32) = unat x" by (simp only: unat_eq_nat_uint)
qed

lemma block_tile: "block (ucast (x :: u16)) = uint x div 8"
proof -
  have "block (ucast x) = (uint x div 8) mod 8192" using block_of_int[of "uint (ucast x :: u32)"] by (simp add: uint_widen)
  moreover have "0 \<le> uint x div 8" "uint x div 8 < 8192" using uint_bounded[of x] by (simp_all add: pos_imp_zdiv_nonneg_iff)
  ultimately show ?thesis by simp
qed

lemma tile_offset_mod: "tile_offset x = unat x mod 8"
proof -
  have "(7 :: u32) = mask 3" by (simp add: mask_eq_exp_minus_1)
  then have "ucast x AND FLOOR_MASK = take_bit 3 (ucast x :: u32)" by (simp add: FLOOR_MASK_def take_bit_eq_mask)
  then have "tile_offset x = take_bit 3 (unat (ucast x :: u32))" by (simp add: tile_offset_def unsigned_take_bit_eq)
  then show ?thesis unfolding uint_widen by (simp add: take_bit_eq_mod)
qed

lemma same_tile: "x = x' \<longleftrightarrow> block (ucast x) = block (ucast x') \<and> tile_offset x = tile_offset x'" for x x' :: u16
proof -
  have "unat x = unat x'" if "uint x div 8 = uint x' div 8" "unat x mod 8 = unat x' mod 8"
  proof -
    have "int (unat x div 8) = int (unat x' div 8)" using that(1) by (simp add: of_nat_div)
    then have "unat x div 8 = unat x' div 8" by (simp only: of_nat_eq_iff)
    then show ?thesis using that(2) by (metis div_mult_mod_eq)
  qed
  then show ?thesis unfolding block_tile tile_offset_mod by (metis word_unat_eq_iff)
qed

lemma getTile_leaf:
  "map_inv m \<Longrightarrow> getTile x y z m =
     (if unat z \<ge> 16 then None
      else Option.bind (getLeaf (root m) (ucast x) (ucast y)) (\<lambda>i.
        Option.bind (floors (leaves m i) (unat z)) (\<lambda>f. f (tile_offset x, tile_offset y))))"
  by (simp add: getTile_def map_invD(3) MAP_MAX_LAYERS_def split: option.split)

text \<open>Writing one tile of a leaf leaves the tree and the links alone.\<close>

lemma upd_floors_inv: "map_inv m \<Longrightarrow> map_inv (upd_leaf i (\<lambda>l. l\<lparr>floors := F l\<rparr>) m)"
  using map_inv_cong[of m "upd_leaf i (\<lambda>l. l\<lparr>floors := F l\<rparr>) m"] map_invD(1)[of m] map_inv_shape[of m] by (simp add: upd_leaf_def)

lemma place_tile_eq:
  "place_tile absorb x y z t i m = upd_leaf i (\<lambda>l. l\<lparr>floors := (floors l)(unat z \<mapsto>
     (case floors l (unat z) of Some f \<Rightarrow> f | None \<Rightarrow> Map.empty)((tile_offset x, tile_offset y) \<mapsto>
       (case Option.bind (floors l (unat z)) (\<lambda>f. f (tile_offset x, tile_offset y)) of Some old \<Rightarrow> absorb old t | None \<Rightarrow> t)))\<rparr>) m"
  by (cases "floors (leaves m i) (unat z)") (simp_all add: place_tile_def upd_leaf_def createFloor_def Let_def)

lemma place_tile_inv: "map_inv m \<Longrightarrow> map_inv (place_tile absorb x y z t i m)"
  unfolding place_tile_eq by (rule upd_floors_inv)

lemma place_tile_get:
  assumes inv: "map_inv m" and leaf: "getLeaf (root m) (ucast x) (ucast y) = Some i" and z: "unat z < 16"
  shows "getTile x' y' z' (place_tile absorb x y z t i m) =
     (if x' = x \<and> y' = y \<and> z' = z then Some (case getTile x y z m of Some old \<Rightarrow> absorb old t | None \<Rightarrow> t) else getTile x' y' z' m)"
proof (cases "getLeaf (root m) (ucast x') (ucast y') = Some i \<and> z' = z")
  case True
  have "x' = x \<and> y' = y \<longleftrightarrow> tile_offset x' = tile_offset x \<and> tile_offset y' = tile_offset y"
    using True map_invD(5)[OF inv leaf, of "ucast x'" "ucast y'"] same_tile[of x' x] same_tile[of y' y] by auto
  then show ?thesis unfolding getTile_leaf[OF place_tile_inv[OF inv]] getTile_leaf[OF inv] unfolding place_tile_eq
    using True leaf z by (cases "floors (leaves m i) (unat z)") (simp_all add: upd_leaf_def)
next
  case False
  then have "\<not> (x' = x \<and> y' = y \<and> z' = z)" using leaf by auto
  moreover have "unat z' \<noteq> unat z \<or> getLeaf (root m) (ucast x') (ucast y') \<noteq> Some i" using False by (auto simp: word_unat_eq_iff)
  ultimately show ?thesis unfolding getTile_leaf[OF place_tile_inv[OF inv]] getTile_leaf[OF inv] unfolding place_tile_eq
    by (cases "getLeaf (root m) (ucast x') (ucast y')") (auto simp: upd_leaf_def)
qed

text \<open>The leaves of \<open>m\<close> are leaves of \<open>m'\<close> with the same creatures, and leaves that only \<open>m'\<close> has are empty.\<close>

definition same_creatures :: "'t world_map \<Rightarrow> 't world_map \<Rightarrow> bool" where
  "same_creatures m m' \<longleftrightarrow>
     (\<forall>x y k. getLeaf (root m) x y = Some k \<longrightarrow> getLeaf (root m') x y = Some k \<and>
        creature_list (leaves m' k) = creature_list (leaves m k) \<and> player_list (leaves m' k) = player_list (leaves m k)) \<and>
     (\<forall>x y k. getLeaf (root m') x y = Some k \<longrightarrow> getLeaf (root m) x y = None \<longrightarrow>
        creature_list (leaves m' k) = [] \<and> player_list (leaves m' k) = []) \<and>
     spectatorCache m' = spectatorCache m \<and> playersSpectatorCache m' = playersSpectatorCache m"

lemma setTile_leaf:
  assumes inv: "map_inv m" and z: "unat z < 16"
  obtains m1 i where "map_inv m1" "getLeaf (root m1) (ucast x) (ucast y) = Some i"
    "\<And>x' y' z'. getTile x' y' z' m1 = getTile x' y' z' m"
    "setTile absorb x y z newTile m = Some (place_tile absorb x y z newTile i m1)" "same_creatures m m1"
proof -
  let ?x = "ucast x :: u32" and ?y = "ucast y :: u32"
  obtain r i where c: "createLeaf (root m) ?x ?y 15 (next_leaf m) = Some (r, i, getLeaf (root m) ?x ?y = None)"
    and r: "depth_ok 13 r" "\<exists>a b c d. r = QNode a b c d" and i: "i = (case getLeaf (root m) ?x ?y of Some j \<Rightarrow> j | None \<Rightarrow> next_leaf m)"
    and get: "\<And>x' y'. getLeaf r x' y' = (if block ?x = block x' \<and> block ?y = block y' then Some i else getLeaf (root m) x' y')"
    using createLeaf_spec[of 13 "root m" ?x ?y "next_leaf m"] map_invD(1,2)[OF inv] by (auto simp: agree_13)
  show thesis
  proof (cases "getLeaf (root m) ?x ?y")
    case None
    let ?m = "m\<lparr>root := r, leaves := (leaves m)(next_leaf m := new_leaf), next_leaf := Suc (next_leaf m)\<rparr>"
    let ?m1 = "link_leaf x y (next_leaf m) ?m"
    have i': "i = next_leaf m" using i None by simp
    have inv1: "map_inv ?m1" using new_leaf_inv[OF inv None r(2) r(1)] get i' by simp
    have tiles: "getTile x' y' z' ?m1 = getTile x' y' z' m" for x' y' z'
    proof (cases "block ?x = block (ucast x') \<and> block ?y = block (ucast y')")
      case True
      then have "getLeaf (root m) (ucast x') (ucast y') = None" using None map_invD(8)[OF inv] by metis
      then show ?thesis using True unfolding getTile_leaf[OF inv1] getTile_leaf[OF inv]
        by (simp add: link_leaf_fields get i' new_leaf_def)
    next
      case False
      have "getLeaf (root m) (ucast x') (ucast y') \<noteq> Some (next_leaf m)" using map_invD(4)[OF inv, of "ucast x'" "ucast y'"] by auto
      then show ?thesis unfolding getTile_leaf[OF inv1] getTile_leaf[OF inv] using False
        by (auto simp: link_leaf_fields get split: bind_splits)
    qed
    show thesis
    proof (rule that[of ?m1 i])
      show "getLeaf (root ?m1) ?x ?y = Some i" by (simp add: link_leaf_fields get)
      show "setTile absorb x y z newTile m = Some (place_tile absorb x y z newTile i ?m1)"
        using c None z i' by (simp add: setTile_def MAP_MAX_LAYERS_def)
      have old: "getLeaf r x' y' = Some k \<and> k \<noteq> next_leaf m" if k: "getLeaf (root m) x' y' = Some k" for x' y' k
        using map_invD(4)[OF inv k] map_invD(8)[OF inv, of ?x x' ?y y'] None k by (auto simp: get)
      have new: "k = next_leaf m" if "getLeaf r x' y' = Some k" "getLeaf (root m) x' y' = None" for x' y' k
        using that by (simp add: get i' split: if_splits)
      show "same_creatures m ?m1" unfolding same_creatures_def link_leaf_fields
        by (intro conjI allI impI) (auto simp: new_leaf_def dest: old new)
    qed (rule inv1, rule tiles)
  next
    case (Some j)
    then have "i = j" using i by simp
    then have same: "getLeaf r x' y' = getLeaf (root m) x' y'" for x' y'
      using Some map_invD(8)[OF inv, of ?x x' ?y y'] by (simp add: get)
    then have "getLeaf r = getLeaf (root m)" by (simp add: fun_eq_iff)
    then have inv1: "map_inv (m\<lparr>root := r\<rparr>)" using map_inv_cong[OF inv, of "m\<lparr>root := r\<rparr>"] r by simp
    show thesis
    proof (rule that[of "m\<lparr>root := r\<rparr>" i])
      show "getTile x' y' z' (m\<lparr>root := r\<rparr>) = getTile x' y' z' m" for x' y' z'
        by (simp add: getTile_leaf[OF inv1] getTile_leaf[OF inv] same)
      show "same_creatures m (m\<lparr>root := r\<rparr>)" by (simp add: same_creatures_def same)
    qed (use inv1 c Some z in \<open>simp_all add: setTile_def MAP_MAX_LAYERS_def get same\<close>)
  qed
qed

section \<open>The map as a grid\<close>

type_synonym 't placement = "u16 \<times> u16 \<times> u8 \<times> 't"

definition setTiles :: "('t \<Rightarrow> 't \<Rightarrow> 't) \<Rightarrow> 't placement list \<Rightarrow> 't world_map \<Rightarrow> 't world_map option" where
  "setTiles absorb = bind_all (\<lambda>(x, y, z, t). setTile absorb x y z t)"

fun grid_set :: "('t \<Rightarrow> 't \<Rightarrow> 't) \<Rightarrow> 't placement \<Rightarrow> (u16 \<times> u16 \<times> u8 \<rightharpoonup> 't) \<Rightarrow> (u16 \<times> u16 \<times> u8 \<rightharpoonup> 't)" where
  "grid_set absorb (x, y, z, t) g =
     (if unat z < 16 then g((x, y, z) \<mapsto> (case g (x, y, z) of Some old \<Rightarrow> absorb old t | None \<Rightarrow> t)) else g)"

definition grid :: "'t world_map \<Rightarrow> u16 \<times> u16 \<times> u8 \<rightharpoonup> 't" where
  "grid m = (\<lambda>(x, y, z). getTile x y z m)"

lemma setTile_grid:
  assumes "map_inv m"
  obtains m' where "setTile absorb x y z t m = Some m'" "map_inv m'" "grid m' = grid_set absorb (x, y, z, t) (grid m)"
    "same_creatures m m'"
proof (cases "unat z < 16")
  case True
  obtain m1 i where m1: "map_inv m1" "getLeaf (root m1) (ucast x) (ucast y) = Some i"
    "\<And>x' y' z'. getTile x' y' z' m1 = getTile x' y' z' m" "setTile absorb x y z t m = Some (place_tile absorb x y z t i m1)"
    "same_creatures m m1" using setTile_leaf[OF assms True] by metis
  have "grid (place_tile absorb x y z t i m1) = grid_set absorb (x, y, z, t) (grid m)"
    using True by (auto simp: grid_def fun_eq_iff place_tile_get[OF m1(1,2) True] m1(3))
  moreover have "same_creatures m (place_tile absorb x y z t i m1)"
    using m1(5) by (auto simp: same_creatures_def place_tile_eq upd_leaf_def)
  ultimately show thesis using that m1(4) place_tile_inv[OF m1(1)] by blast
qed (use that[of m] assms in \<open>simp add: setTile_def MAP_MAX_LAYERS_def same_creatures_def\<close>)

interpretation tiles: refined_store map_inv grid "\<lambda>(x, y, z, t). setTile absorb x y z t" "grid_set absorb" for absorb
proof unfold_locales
  fix m :: "'a world_map" and c :: "'a placement"
  assume inv: "map_inv m"
  obtain x y z t where c: "c = (x, y, z, t)" by (cases c) auto
  show "\<exists>m'. (case c of (x, y, z, t) \<Rightarrow> setTile absorb x y z t) m = Some m' \<and> map_inv m' \<and> grid m' = grid_set absorb c (grid m)"
    unfolding c prod.case by (rule setTile_grid[OF inv, of absorb x y z t]) blast
qed

lemma grid_empty: "grid empty_map = Map.empty"
proof -
  have "getLeaf (QNode QNull QNull QNull QNull) x y = None" for x y by (simp add: getLeaf_QNode get_child_def)
  then show ?thesis by (simp add: grid_def fun_eq_iff getTile_leaf[OF empty_map_inv]) (simp add: empty_map_def)
qed

text \<open>C7: Whatever tiles are set in whatever order from the empty map on, every \<open>setTile\<close> returns, the quad tree
  keeps its invariant (one leaf for each block, thirteen levels, links that lead to the neighbours), and
  \<open>getTile\<close> answers as a grid of positions would that was filled by the same calls: the tile set at exactly
  that position, merged with the ones set there before, and nothing on a layer from sixteen on.\<close>

theorem map_refines_grid:
  "\<exists>m. setTiles absorb ps empty_map = Some m \<and> map_inv m \<and> grid m = fold (grid_set absorb) ps Map.empty"
  using tiles.puts_ok[OF empty_map_inv, of absorb ps] by (simp only: setTiles_def grid_empty)

end
