(* ===== verification/Tile_Stack.thy ===== *)
theory Tile_Stack
  imports World_Map Return_Values
begin

text \<open>
  The stack of things on a tile (\<open>Tile\<close> of \<open>src/src/tile.h\<close> and \<open>tile.cpp\<close>): the ground, one vector that holds the down
  items first and the items that are always on top after them, the creatures, and the flags that the items give
  the tile. Items are addresses into a store, since the tile, the items' parent pointers and the queue of
  released items share them; the table of item types is a parameter. A vector that was not allocated is an empty
  one. Spectators, scripts, browse windows and the cleaning list, which the operations notify, are not part of
  the model.
\<close>

section \<open>Items\<close>

record tile_item_type =
  tt_ground :: bool
  tt_alwaysOnTop :: bool
  tt_alwaysOnTopOrder :: u8
  tt_splash :: bool
  tt_magicField :: bool
  tt_floorChange :: u8
  tt_blockSolid :: bool
  tt_moveable :: bool
  tt_hasHeight :: bool
  tt_blockProjectile :: bool
  tt_blockPathFind :: bool
  tt_isVertical :: bool
  tt_isHorizontal :: bool
  tt_stackable :: bool
  tt_fluid :: bool
  tt_charges :: bool
  tt_allowPickupable :: bool
  tt_pickupable :: bool
  tt_bed :: bool
  tt_lookThrough :: bool
  tt_isHangable :: bool
  tt_replaceable :: bool

text \<open>An item with what the tile asks of its class and of its attributes.\<close>

record tile_item =
  ti_id :: u16
  ti_count :: u8
  ti_uniqueId :: bool
  ti_storeItem :: bool
  ti_teleport :: bool
  ti_magicField :: bool
  ti_mailbox :: bool
  ti_trashHolder :: bool
  ti_bed :: bool
  ti_depotLocker :: bool
  ti_parent :: "position option"

datatype item_property = PROP_BLOCKSOLID | PROP_HASHEIGHT | PROP_BLOCKPROJECTILE | PROP_BLOCKPATH | PROP_ISVERTICAL
  | PROP_ISHORIZONTAL | PROP_MOVEABLE | PROP_IMMOVABLEBLOCKSOLID | PROP_IMMOVABLEBLOCKPATH
  | PROP_IMMOVABLENOFIELDBLOCKPATH | PROP_NOFIELDBLOCKPATH | PROP_SUPPORTHANGABLE

type_synonym tile_types = "u16 \<Rightarrow> tile_item_type"

fun item_hasProperty :: "tile_types \<Rightarrow> tile_item \<Rightarrow> item_property \<Rightarrow> bool" where
  "item_hasProperty its i PROP_BLOCKSOLID = tt_blockSolid (its (ti_id i))"
| "item_hasProperty its i PROP_MOVEABLE = (tt_moveable (its (ti_id i)) \<and> \<not> ti_uniqueId i)"
| "item_hasProperty its i PROP_HASHEIGHT = tt_hasHeight (its (ti_id i))"
| "item_hasProperty its i PROP_BLOCKPROJECTILE = tt_blockProjectile (its (ti_id i))"
| "item_hasProperty its i PROP_BLOCKPATH = tt_blockPathFind (its (ti_id i))"
| "item_hasProperty its i PROP_ISVERTICAL = tt_isVertical (its (ti_id i))"
| "item_hasProperty its i PROP_ISHORIZONTAL = tt_isHorizontal (its (ti_id i))"
| "item_hasProperty its i PROP_IMMOVABLEBLOCKSOLID = (tt_blockSolid (its (ti_id i)) \<and> (\<not> tt_moveable (its (ti_id i)) \<or> ti_uniqueId i))"
| "item_hasProperty its i PROP_IMMOVABLEBLOCKPATH = (tt_blockPathFind (its (ti_id i)) \<and> (\<not> tt_moveable (its (ti_id i)) \<or> ti_uniqueId i))"
| "item_hasProperty its i PROP_IMMOVABLENOFIELDBLOCKPATH =
     (\<not> tt_magicField (its (ti_id i)) \<and> tt_blockPathFind (its (ti_id i)) \<and> (\<not> tt_moveable (its (ti_id i)) \<or> ti_uniqueId i))"
| "item_hasProperty its i PROP_NOFIELDBLOCKPATH = (\<not> tt_magicField (its (ti_id i)) \<and> tt_blockPathFind (its (ti_id i)))"
| "item_hasProperty its i PROP_SUPPORTHANGABLE = (tt_isHorizontal (its (ti_id i)) \<or> tt_isVertical (its (ti_id i)))"

section \<open>The tile\<close>

record tile =
  ground :: "nat option"
  item_vec :: "nat list"
  downItemCount :: u16
  tile_creatures :: "u32 list"
  tile_flags :: u32
  tilePos :: position

record tile_state =
  tile_of :: tile
  item_of :: "nat \<Rightarrow> tile_item"
  released :: "nat list"

datatype thing = TItem nat | TCreature u32

definition TILESTATE_FLOORCHANGE_DOWN :: u32 where "TILESTATE_FLOORCHANGE_DOWN = 2 ^ 0"
definition TILESTATE_FLOORCHANGE_NORTH :: u32 where "TILESTATE_FLOORCHANGE_NORTH = 2 ^ 1"
definition TILESTATE_FLOORCHANGE_SOUTH :: u32 where "TILESTATE_FLOORCHANGE_SOUTH = 2 ^ 2"
definition TILESTATE_FLOORCHANGE_EAST :: u32 where "TILESTATE_FLOORCHANGE_EAST = 2 ^ 3"
definition TILESTATE_FLOORCHANGE_WEST :: u32 where "TILESTATE_FLOORCHANGE_WEST = 2 ^ 4"
definition TILESTATE_FLOORCHANGE_SOUTH_ALT :: u32 where "TILESTATE_FLOORCHANGE_SOUTH_ALT = 2 ^ 5"
definition TILESTATE_FLOORCHANGE_EAST_ALT :: u32 where "TILESTATE_FLOORCHANGE_EAST_ALT = 2 ^ 6"
definition TILESTATE_PROTECTIONZONE :: u32 where "TILESTATE_PROTECTIONZONE = 2 ^ 7"
definition TILESTATE_NOPVPZONE :: u32 where "TILESTATE_NOPVPZONE = 2 ^ 8"
definition TILESTATE_NOLOGOUT :: u32 where "TILESTATE_NOLOGOUT = 2 ^ 9"
definition TILESTATE_PVPZONE :: u32 where "TILESTATE_PVPZONE = 2 ^ 10"
definition TILESTATE_TELEPORT :: u32 where "TILESTATE_TELEPORT = 2 ^ 11"
definition TILESTATE_MAGICFIELD :: u32 where "TILESTATE_MAGICFIELD = 2 ^ 12"
definition TILESTATE_MAILBOX :: u32 where "TILESTATE_MAILBOX = 2 ^ 13"
definition TILESTATE_TRASHHOLDER :: u32 where "TILESTATE_TRASHHOLDER = 2 ^ 14"
definition TILESTATE_BED :: u32 where "TILESTATE_BED = 2 ^ 15"
definition TILESTATE_DEPOT :: u32 where "TILESTATE_DEPOT = 2 ^ 16"
definition TILESTATE_BLOCKSOLID :: u32 where "TILESTATE_BLOCKSOLID = 2 ^ 17"
definition TILESTATE_BLOCKPATH :: u32 where "TILESTATE_BLOCKPATH = 2 ^ 18"
definition TILESTATE_IMMOVABLEBLOCKSOLID :: u32 where "TILESTATE_IMMOVABLEBLOCKSOLID = 2 ^ 19"
definition TILESTATE_IMMOVABLEBLOCKPATH :: u32 where "TILESTATE_IMMOVABLEBLOCKPATH = 2 ^ 20"
definition TILESTATE_IMMOVABLENOFIELDBLOCKPATH :: u32 where "TILESTATE_IMMOVABLENOFIELDBLOCKPATH = 2 ^ 21"
definition TILESTATE_NOFIELDBLOCKPATH :: u32 where "TILESTATE_NOFIELDBLOCKPATH = 2 ^ 22"
definition TILESTATE_SUPPORTS_HANGABLE :: u32 where "TILESTATE_SUPPORTS_HANGABLE = 2 ^ 23"
definition TILESTATE_FLOORCHANGE :: u32 where
  "TILESTATE_FLOORCHANGE = TILESTATE_FLOORCHANGE_DOWN OR TILESTATE_FLOORCHANGE_NORTH OR TILESTATE_FLOORCHANGE_SOUTH OR
     TILESTATE_FLOORCHANGE_EAST OR TILESTATE_FLOORCHANGE_WEST OR TILESTATE_FLOORCHANGE_SOUTH_ALT OR TILESTATE_FLOORCHANGE_EAST_ALT"

definition hasFlag :: "u32 \<Rightarrow> tile \<Rightarrow> bool" where
  "hasFlag flag t = hasBitSet flag (tile_flags t)"

definition setFlag :: "u32 \<Rightarrow> u32 \<Rightarrow> u32" where
  "setFlag flag flags = flags OR flag"

definition resetFlag :: "u32 \<Rightarrow> u32 \<Rightarrow> u32" where
  "resetFlag flag flags = flags AND NOT flag"

datatype zone_type = ZONE_PROTECTION | ZONE_NOPVP | ZONE_PVP | ZONE_NOLOGOUT | ZONE_NORMAL

definition getZone :: "tile \<Rightarrow> zone_type" where
  "getZone t =
     (if hasFlag TILESTATE_PROTECTIONZONE t then ZONE_PROTECTION
      else if hasFlag TILESTATE_NOPVPZONE t then ZONE_NOPVP
      else if hasFlag TILESTATE_PVPZONE t then ZONE_PVP else ZONE_NORMAL)"

text \<open>The vector: down items first.\<close>

definition down_items :: "tile \<Rightarrow> nat list" where
  "down_items t = take (unat (downItemCount t)) (item_vec t)"

definition top_items :: "tile \<Rightarrow> nat list" where
  "top_items t = drop (unat (downItemCount t)) (item_vec t)"

definition ground_list :: "tile \<Rightarrow> nat list" where
  "ground_list t = (case ground t of Some g \<Rightarrow> [g] | None \<Rightarrow> [])"

definition itype :: "tile_types \<Rightarrow> tile_state \<Rightarrow> nat \<Rightarrow> tile_item_type" where
  "itype its st i = its (ti_id (item_of st i))"

definition hasProperty :: "tile_types \<Rightarrow> tile_state \<Rightarrow> item_property \<Rightarrow> bool" where
  "hasProperty its st p \<longleftrightarrow> list_ex (\<lambda>i. item_hasProperty its (item_of st i) p) (ground_list (tile_of st) @ item_vec (tile_of st))"

definition hasProperty_except :: "tile_types \<Rightarrow> tile_state \<Rightarrow> nat \<Rightarrow> item_property \<Rightarrow> bool" where
  "hasProperty_except its st x p \<longleftrightarrow> list_ex (\<lambda>i. i \<noteq> x \<and> item_hasProperty its (item_of st i) p) (ground_list (tile_of st) @ item_vec (tile_of st))"

fun height_reached :: "tile_types \<Rightarrow> tile_state \<Rightarrow> nat \<Rightarrow> nat \<Rightarrow> nat list \<Rightarrow> bool" where
  "height_reached its st n height [] = False"
| "height_reached its st n height (i # is) =
     (let height = (if item_hasProperty its (item_of st i) PROP_HASHEIGHT then height + 1 else height)
      in n = height \<or> height_reached its st n height is)"

definition hasHeight :: "tile_types \<Rightarrow> tile_state \<Rightarrow> nat \<Rightarrow> bool" where
  "hasHeight its st n = height_reached its st n 0 (ground_list (tile_of st) @ item_vec (tile_of st))"

section \<open>Flags of items\<close>

definition flag_if :: "bool \<Rightarrow> u32 \<Rightarrow> u32 \<Rightarrow> u32" where
  "flag_if b flag flags = (if b then setFlag flag flags else flags)"

definition setTileFlags :: "tile_types \<Rightarrow> tile_item \<Rightarrow> u32 \<Rightarrow> u32" where
  "setTileFlags its i fl =
     (let fl = (if \<not> hasBitSet TILESTATE_FLOORCHANGE fl then
                  if tt_floorChange (its (ti_id i)) \<noteq> 0 then setFlag (ucast (tt_floorChange (its (ti_id i)))) fl else fl else fl);
          fl = flag_if (item_hasProperty its i PROP_IMMOVABLEBLOCKSOLID) TILESTATE_IMMOVABLEBLOCKSOLID fl;
          fl = flag_if (item_hasProperty its i PROP_BLOCKPATH) TILESTATE_BLOCKPATH fl;
          fl = flag_if (item_hasProperty its i PROP_NOFIELDBLOCKPATH) TILESTATE_NOFIELDBLOCKPATH fl;
          fl = flag_if (item_hasProperty its i PROP_IMMOVABLENOFIELDBLOCKPATH) TILESTATE_IMMOVABLENOFIELDBLOCKPATH fl;
          fl = flag_if (ti_teleport i) TILESTATE_TELEPORT fl;
          fl = flag_if (ti_magicField i) TILESTATE_MAGICFIELD fl;
          fl = flag_if (ti_mailbox i) TILESTATE_MAILBOX fl;
          fl = flag_if (ti_trashHolder i) TILESTATE_TRASHHOLDER fl;
          fl = flag_if (item_hasProperty its i PROP_BLOCKSOLID) TILESTATE_BLOCKSOLID fl;
          fl = flag_if (ti_bed i) TILESTATE_BED fl;
          fl = flag_if (ti_depotLocker i) TILESTATE_DEPOT fl
      in flag_if (item_hasProperty its i PROP_SUPPORTHANGABLE) TILESTATE_SUPPORTS_HANGABLE fl)"

definition unflag_if :: "bool \<Rightarrow> u32 \<Rightarrow> u32 \<Rightarrow> u32" where
  "unflag_if b flag flags = (if b then resetFlag flag flags else flags)"

text \<open>An item's property was the last of its kind on the tile.\<close>

definition last_of :: "tile_types \<Rightarrow> tile_state \<Rightarrow> nat \<Rightarrow> item_property \<Rightarrow> bool" where
  "last_of its st x p \<longleftrightarrow> item_hasProperty its (item_of st x) p \<and> \<not> hasProperty_except its st x p"

definition reset_flags :: "tile_types \<Rightarrow> nat \<Rightarrow> tile_state \<Rightarrow> u32" where
  "reset_flags its x st =
     (let i = item_of st x; fl = tile_flags (tile_of st);
          fl = unflag_if (tt_floorChange (its (ti_id i)) \<noteq> 0) TILESTATE_FLOORCHANGE fl;
          fl = unflag_if (last_of its st x PROP_BLOCKSOLID) TILESTATE_BLOCKSOLID fl;
          fl = unflag_if (last_of its st x PROP_IMMOVABLEBLOCKSOLID) TILESTATE_IMMOVABLEBLOCKSOLID fl;
          fl = unflag_if (last_of its st x PROP_BLOCKPATH) TILESTATE_BLOCKPATH fl;
          fl = unflag_if (last_of its st x PROP_NOFIELDBLOCKPATH) TILESTATE_NOFIELDBLOCKPATH fl;
          fl = unflag_if (last_of its st x PROP_IMMOVABLEBLOCKPATH) TILESTATE_IMMOVABLEBLOCKPATH fl;
          fl = unflag_if (last_of its st x PROP_IMMOVABLENOFIELDBLOCKPATH) TILESTATE_IMMOVABLENOFIELDBLOCKPATH fl;
          fl = unflag_if (ti_teleport i) TILESTATE_TELEPORT fl;
          fl = unflag_if (ti_magicField i) TILESTATE_MAGICFIELD fl;
          fl = unflag_if (ti_mailbox i) TILESTATE_MAILBOX fl;
          fl = unflag_if (ti_trashHolder i) TILESTATE_TRASHHOLDER fl;
          fl = unflag_if (ti_bed i) TILESTATE_BED fl;
          fl = unflag_if (ti_depotLocker i) TILESTATE_DEPOT fl
      in unflag_if (item_hasProperty its i PROP_SUPPORTHANGABLE) TILESTATE_SUPPORTS_HANGABLE fl)"

definition resetTileFlags :: "tile_types \<Rightarrow> nat \<Rightarrow> tile_state \<Rightarrow> tile_state" where
  "resetTileFlags its x st = st\<lparr>tile_of := (tile_of st)\<lparr>tile_flags := reset_flags its x st\<rparr>\<rparr>"

definition mark_flags :: "tile_types \<Rightarrow> nat \<Rightarrow> tile_state \<Rightarrow> tile_state" where
  "mark_flags its x st = st\<lparr>tile_of := (tile_of st)\<lparr>tile_flags := setTileFlags its (item_of st x) (tile_flags (tile_of st))\<rparr>\<rparr>"

section \<open>Indices\<close>

fun find_at :: "'a \<Rightarrow> 'a list \<Rightarrow> nat option" where
  "find_at x [] = None"
| "find_at x (y # ys) = (if y = x then Some 0 else map_option Suc (find_at x ys))"

text \<open>\<open>n\<close> is the index reached so far; the loops count it up before they compare.\<close>

definition getThingIndex :: "tile_types \<Rightarrow> thing \<Rightarrow> tile_state \<Rightarrow> int" where
  "getThingIndex its th st =
     (let t = tile_of st; n = (case ground t of Some g \<Rightarrow> 0 | None \<Rightarrow> - 1) in
      if (case ground t of Some g \<Rightarrow> th = TItem g | None \<Rightarrow> False) then 0
      else case (case th of TItem i \<Rightarrow> if tt_alwaysOnTop (itype its st i) then find_at i (top_items t) else None | TCreature c \<Rightarrow> None) of
        Some k \<Rightarrow> n + 1 + int k
      | None \<Rightarrow>
          (let n = n + int (length (top_items t)) in
           case (case th of TItem i \<Rightarrow> None | TCreature c \<Rightarrow> find_at c (tile_creatures t)) of
             Some k \<Rightarrow> n + 1 + int k
           | None \<Rightarrow>
               (let n = n + int (length (tile_creatures t)) in
                case (case th of TItem i \<Rightarrow> if \<not> tt_alwaysOnTop (itype its st i) then find_at i (down_items t) else None | TCreature c \<Rightarrow> None) of
                  Some k \<Rightarrow> n + 1 + int k
                | None \<Rightarrow> - 1)))"

definition getThing :: "nat \<Rightarrow> tile \<Rightarrow> thing option" where
  "getThing index t =
     (if ground t \<noteq> None \<and> index = 0 then map_option TItem (ground t)
      else let index = index - (if ground t = None then 0 else 1) in
        if index < length (top_items t) then Some (TItem (item_vec t ! (unat (downItemCount t) + index)))
        else let index = index - length (top_items t) in
          if index < length (tile_creatures t) then Some (TCreature (tile_creatures t ! index))
          else let index = index - length (tile_creatures t) in
            if index < unat (downItemCount t) then Some (TItem (item_vec t ! index)) else None)"


section \<open>Operations\<close>

definition set_parent :: "nat \<Rightarrow> position option \<Rightarrow> tile_state \<Rightarrow> tile_state" where
  "set_parent i p st = st\<lparr>item_of := (item_of st)(i := (item_of st i)\<lparr>ti_parent := p\<rparr>)\<rparr>"

definition ReleaseItem :: "nat \<Rightarrow> tile_state \<Rightarrow> tile_state" where
  "ReleaseItem i st = st\<lparr>released := released st @ [i]\<rparr>"

definition set_ground :: "nat option \<Rightarrow> tile_state \<Rightarrow> tile_state" where
  "set_ground g st = st\<lparr>tile_of := (tile_of st)\<lparr>ground := g\<rparr>\<rparr>"

definition set_items :: "nat list \<Rightarrow> u16 \<Rightarrow> tile_state \<Rightarrow> tile_state" where
  "set_items xs n st = st\<lparr>tile_of := (tile_of st)\<lparr>item_vec := xs, downItemCount := n\<rparr>\<rparr>"

definition erase_at :: "nat \<Rightarrow> 'a list \<Rightarrow> 'a list" where
  "erase_at k xs = take k xs @ drop (Suc k) xs"

definition insert_at :: "nat \<Rightarrow> 'a \<Rightarrow> 'a list \<Rightarrow> 'a list" where
  "insert_at k x xs = take k xs @ x # drop k xs"

text \<open>The first position of the top items before which an item is inserted.\<close>

fun top_slot :: "(nat \<Rightarrow> bool) \<Rightarrow> nat list \<Rightarrow> nat" where
  "top_slot before [] = 0"
| "top_slot before (x # xs) = (if before x then 0 else Suc (top_slot before xs))"

definition insert_top :: "(nat \<Rightarrow> bool) \<Rightarrow> nat \<Rightarrow> tile_state \<Rightarrow> tile_state" where
  "insert_top before i st =
     set_items (insert_at (unat (downItemCount (tile_of st)) + top_slot before (top_items (tile_of st))) i (item_vec (tile_of st))) (downItemCount (tile_of st)) st"

definition insert_down :: "nat \<Rightarrow> tile_state \<Rightarrow> tile_state" where
  "insert_down i st = set_items (i # item_vec (tile_of st)) (downItemCount (tile_of st) + 1) st"

definition removeThing :: "tile_types \<Rightarrow> nat \<Rightarrow> u32 \<Rightarrow> tile_state \<Rightarrow> tile_state" where
  "removeThing its i count st =
     (if getThingIndex its (TItem i) st = - 1 then st
      else if ground (tile_of st) = Some i then resetTileFlags its i (set_ground None (set_parent i None st))
      else if tt_alwaysOnTop (itype its st i)
      then (case find_at i (top_items (tile_of st)) of
              None \<Rightarrow> st
            | Some k \<Rightarrow> resetTileFlags its i
                (set_items (erase_at (unat (downItemCount (tile_of st)) + k) (item_vec (tile_of st))) (downItemCount (tile_of st)) (set_parent i None st)))
      else (case find_at i (down_items (tile_of st)) of
              None \<Rightarrow> st
            | Some k \<Rightarrow>
                if tt_stackable (itype its st i) \<and> count \<noteq> ucast (ti_count (item_of st i))
                then st\<lparr>item_of := (item_of st)(i := (item_of st i)\<lparr>ti_count := new_item_count (ti_count (item_of st i)) count\<rparr>)\<rparr>
                else resetTileFlags its i (set_items (erase_at k (item_vec (tile_of st))) (downItemCount (tile_of st) - 1) (set_parent i None st))))"

definition drop_item :: "tile_types \<Rightarrow> nat \<Rightarrow> tile_state \<Rightarrow> tile_state" where
  "drop_item its i st = ReleaseItem i (set_parent i None (removeThing its i 1 st))"

text \<open>\<open>Tile::addThing\<close> for an item.\<close>

definition addThing :: "tile_types \<Rightarrow> nat \<Rightarrow> tile_state \<Rightarrow> tile_state" where
  "addThing its i st =
     (if length (item_vec (tile_of st)) \<ge> 0xFFFF then st
      else let st = set_parent i (Some (tilePos (tile_of st))) st; ty = itype its st i in
        if tt_ground ty
        then (case ground (tile_of st) of
                None \<Rightarrow> mark_flags its i (set_ground (Some i) st)
              | Some old \<Rightarrow>
                  (let st = ReleaseItem old (set_parent old None st); st = set_ground (Some i) st
                   in mark_flags its i (resetTileFlags its old st)))
        else if tt_alwaysOnTop ty
        then (let st = (if tt_splash ty then
                          (case find (\<lambda>j. tt_splash (itype its st j)) (top_items (tile_of st)) of Some old \<Rightarrow> drop_item its old st | None \<Rightarrow> st)
                        else st)
              in mark_flags its i (insert_top (\<lambda>j. tt_alwaysOnTopOrder ty \<le> tt_alwaysOnTopOrder (itype its st j)) i st))
        else (case (if tt_magicField ty then find (\<lambda>j. ti_magicField (item_of st j)) (down_items (tile_of st)) else None) of
                Some old \<Rightarrow>
                  if tt_replaceable (itype its st old)
                  then mark_flags its i (insert_down i (drop_item its old st))
                  else ReleaseItem i (set_parent i None st)
              | None \<Rightarrow> mark_flags its i (insert_down i st)))"

definition internalAddThing :: "tile_types \<Rightarrow> nat \<Rightarrow> tile_state \<Rightarrow> tile_state" where
  "internalAddThing its i st =
     (let st = set_parent i (Some (tilePos (tile_of st))) st; ty = itype its st i in
      if tt_ground ty
      then (if ground (tile_of st) = None then mark_flags its i (set_ground (Some i) st) else st)
      else if length (item_vec (tile_of st)) \<ge> 0xFFFF then st
      else if tt_alwaysOnTop ty
      then mark_flags its i (insert_top (\<lambda>j. tt_alwaysOnTopOrder (itype its st j) > tt_alwaysOnTopOrder ty) i st)
      else mark_flags its i (insert_down i st))"

definition tile_setSubType :: "tile_types \<Rightarrow> u16 \<Rightarrow> tile_item \<Rightarrow> tile_item" where
  "tile_setSubType its n i =
     (if tt_fluid (its (ti_id i)) \<or> tt_splash (its (ti_id i)) then i
      else if tt_stackable (its (ti_id i)) then i\<lparr>ti_count := ucast n\<rparr>
      else if tt_charges (its (ti_id i)) then i
      else i\<lparr>ti_count := ucast n\<rparr>)"

definition updateThing :: "tile_types \<Rightarrow> nat \<Rightarrow> u16 \<Rightarrow> u32 \<Rightarrow> tile_state \<Rightarrow> tile_state" where
  "updateThing its i itemId count st =
     (if getThingIndex its (TItem i) st = - 1 then st
      else let st = resetTileFlags its i st;
               st = st\<lparr>item_of := (item_of st)(i := tile_setSubType its (ucast count) ((item_of st i)\<lparr>ti_id := itemId\<rparr>))\<rparr>
           in mark_flags its i st)"

text \<open>Where \<open>replaceThing\<close> puts the new item, and the item it replaces.\<close>

definition replace_in_vector :: "nat \<Rightarrow> nat \<Rightarrow> tile_state \<Rightarrow> (tile_state \<times> nat) option" where
  "replace_in_vector pos i st =
     (let t = tile_of st; d = unat (downItemCount t) in
      if pos < length (top_items t) then Some (set_items ((item_vec t)[d + pos := i]) (downItemCount t) st, item_vec t ! (d + pos))
      else let pos = pos - length (top_items t) in
        if pos < length (tile_creatures t) then None
        else let pos = pos - length (tile_creatures t) in
          if pos < d then Some (set_items ((item_vec t)[pos := i]) (downItemCount t) st, item_vec t ! pos) else None)"

text \<open>The index is a natural number; the code converts it to a signed one, which is the same below \<open>2^31\<close>, far above what a
  tile holds.\<close>

definition replaceThing :: "tile_types \<Rightarrow> nat \<Rightarrow> nat \<Rightarrow> tile_state \<Rightarrow> tile_state" where
  "replaceThing its index i st =
     (case (case ground (tile_of st) of
              Some g \<Rightarrow> if index = 0 then Some (set_ground (Some i) st, g) else replace_in_vector (index - 1) i st
            | None \<Rightarrow> replace_in_vector index i st) of
        None \<Rightarrow> st
      | Some (st, old) \<Rightarrow>
          set_parent old None (mark_flags its i (resetTileFlags its old (set_parent i (Some (tilePos (tile_of st))) st))))"

text \<open>Creatures on the tile.\<close>

definition addThing_creature :: "u32 \<Rightarrow> tile_state \<Rightarrow> tile_state" where
  "addThing_creature c st = st\<lparr>tile_of := (tile_of st)\<lparr>tile_creatures := c # tile_creatures (tile_of st)\<rparr>\<rparr>"

definition removeThing_creature :: "u32 \<Rightarrow> tile_state \<Rightarrow> tile_state" where
  "removeThing_creature c st = st\<lparr>tile_of := (tile_of st)\<lparr>tile_creatures := remove1 c (tile_creatures (tile_of st))\<rparr>\<rparr>"


section \<open>Flags agree with the items\<close>

text \<open>The flags that \<open>resetTileFlags\<close> takes away only when no other item has the property.\<close>

definition solid_flags :: "(item_property \<times> nat) list" where
  "solid_flags = [(PROP_BLOCKSOLID, 17), (PROP_BLOCKPATH, 18), (PROP_IMMOVABLEBLOCKSOLID, 19),
     (PROP_IMMOVABLENOFIELDBLOCKPATH, 21), (PROP_NOFIELDBLOCKPATH, 22)]"

lemmas tilestate_defs = TILESTATE_FLOORCHANGE_DOWN_def TILESTATE_FLOORCHANGE_NORTH_def TILESTATE_FLOORCHANGE_SOUTH_def
  TILESTATE_FLOORCHANGE_EAST_def TILESTATE_FLOORCHANGE_WEST_def TILESTATE_FLOORCHANGE_SOUTH_ALT_def TILESTATE_FLOORCHANGE_EAST_ALT_def
  TILESTATE_TELEPORT_def TILESTATE_MAGICFIELD_def TILESTATE_MAILBOX_def TILESTATE_TRASHHOLDER_def TILESTATE_BED_def TILESTATE_DEPOT_def
  TILESTATE_BLOCKSOLID_def TILESTATE_BLOCKPATH_def TILESTATE_IMMOVABLEBLOCKSOLID_def TILESTATE_IMMOVABLEBLOCKPATH_def
  TILESTATE_IMMOVABLENOFIELDBLOCKPATH_def TILESTATE_NOFIELDBLOCKPATH_def TILESTATE_SUPPORTS_HANGABLE_def

lemma bit_exp: "bit (2 ^ n :: u32) k \<longleftrightarrow> k = n \<and> n < 32"
  by (auto simp: bit_exp_iff)

lemma bit_flag_if: "bit (flag_if b (2 ^ n) fl) k \<longleftrightarrow> bit fl k \<or> b \<and> k = n \<and> n < 32"
  by (auto simp: flag_if_def setFlag_def bit_or_iff bit_exp)

lemma bit_unflag_if: "bit (unflag_if b (2 ^ n) fl) k \<longleftrightarrow> bit fl k \<and> \<not> (b \<and> k = n)"
proof -
  have "bit fl k \<Longrightarrow> k < 32" using bit_imp_le_length[of fl k] by simp
  then show ?thesis by (auto simp: unflag_if_def resetFlag_def bit_and_iff bit_not_iff bit_exp)
qed

lemma bit_floorChange:
  "8 \<le> k \<Longrightarrow> bit (if \<not> hasBitSet m fl then if c \<noteq> 0 then setFlag (ucast (c :: u8)) fl else fl else fl) k \<longleftrightarrow> bit fl k"
proof -
  assume k: "8 \<le> k"
  then have "\<not> bit (ucast c :: u32) k" using bit_imp_le_length[of c k] by (auto simp: bit_ucast_iff)
  then show ?thesis by (simp add: setFlag_def bit_or_iff)
qed

lemma bit_unfloor: "8 \<le> k \<Longrightarrow> bit (unflag_if b TILESTATE_FLOORCHANGE fl) k \<longleftrightarrow> bit fl k"
proof -
  assume k: "8 \<le> k"
  have "\<not> bit TILESTATE_FLOORCHANGE k"
    unfolding TILESTATE_FLOORCHANGE_def tilestate_defs(1-7) bit_or_iff bit_exp using k by linarith
  moreover have "bit fl k \<Longrightarrow> k < 32" using bit_imp_le_length[of fl k] by simp
  ultimately show ?thesis by (auto simp: unflag_if_def resetFlag_def bit_and_iff bit_not_iff)
qed

lemma setTileFlags_bit:
  assumes "(p, k) \<in> set solid_flags"
  shows "bit (setTileFlags its i fl) k \<longleftrightarrow> bit fl k \<or> item_hasProperty its i p"
proof -
  have k: "8 \<le> k" using assms by (auto simp: solid_flags_def)
  show ?thesis unfolding setTileFlags_def Let_def tilestate_defs(8-20) bit_flag_if bit_floorChange[OF k]
    using assms by (auto simp: solid_flags_def simp del: item_hasProperty.simps)
qed

lemma reset_flags_bit:
  assumes "(p, k) \<in> set solid_flags"
  shows "bit (reset_flags its x st) k \<longleftrightarrow> bit (tile_flags (tile_of st)) k \<and> \<not> last_of its st x p"
proof -
  have k: "8 \<le> k" using assms by (auto simp: solid_flags_def)
  show ?thesis unfolding reset_flags_def Let_def tilestate_defs(8-20) bit_unflag_if bit_unfloor[OF k]
    using assms by (auto simp: solid_flags_def simp del: item_hasProperty.simps)
qed

definition stack :: "tile \<Rightarrow> nat list" where
  "stack t = ground_list t @ item_vec t"

definition agree_flags :: "tile_types \<Rightarrow> (nat \<Rightarrow> tile_item) \<Rightarrow> nat set \<Rightarrow> u32 \<Rightarrow> bool" where
  "agree_flags its ob S fl \<longleftrightarrow> (\<forall>(p, k) \<in> set solid_flags. bit fl k \<longleftrightarrow> (\<exists>i \<in> S. item_hasProperty its (ob i) p))"

lemma agree_mark: "agree_flags its (item_of st) S (tile_flags (tile_of st)) \<Longrightarrow> agree_flags its (item_of st) (insert i S) (setTileFlags its (item_of st i) (tile_flags (tile_of st)))"
  unfolding agree_flags_def by (auto simp: setTileFlags_bit)

lemma agree_reset:
  assumes "agree_flags its (item_of st) (insert x (set (stack (tile_of st)))) (tile_flags (tile_of st))"
  shows "agree_flags its (item_of st) (set (stack (tile_of st)) - {x}) (reset_flags its x st)"
proof -
  have "hasProperty_except its st x p \<longleftrightarrow> (\<exists>i \<in> set (stack (tile_of st)) - {x}. item_hasProperty its (item_of st i) p)" for p
    unfolding hasProperty_except_def list_ex_iff stack_def by auto
  then show ?thesis using assms unfolding agree_flags_def
    by (auto simp: reset_flags_bit last_of_def split: prod.splits)
qed

lemma item_hasProperty_cong: "ti_id a = ti_id b \<Longrightarrow> ti_uniqueId a = ti_uniqueId b \<Longrightarrow> item_hasProperty its a p = item_hasProperty its b p"
  by (cases p) simp_all

lemma agree_cong:
  assumes "\<And>i. i \<in> S \<Longrightarrow> ti_id (ob i) = ti_id (ob' i) \<and> ti_uniqueId (ob i) = ti_uniqueId (ob' i)"
  shows "agree_flags its ob S fl = agree_flags its ob' S fl"
proof -
  have "i \<in> S \<Longrightarrow> item_hasProperty its (ob i) p = item_hasProperty its (ob' i) p" for i p
    using assms item_hasProperty_cong by blast
  then show ?thesis by (simp add: agree_flags_def cong: bex_cong)
qed


section \<open>The invariant of a tile\<close>

definition item_ok :: "tile_types \<Rightarrow> tile_item \<Rightarrow> bool" where
  "item_ok its i \<longleftrightarrow> (ti_magicField i \<longrightarrow> \<not> tt_stackable (its (ti_id i)))"

abbreviation ityp :: "tile_types \<Rightarrow> (nat \<Rightarrow> tile_item) \<Rightarrow> nat \<Rightarrow> tile_item_type" where
  "ityp its ob i \<equiv> its (ti_id (ob i))"

definition tile_shape :: "tile_types \<Rightarrow> (nat \<Rightarrow> tile_item) \<Rightarrow> tile \<Rightarrow> nat list \<Rightarrow> nat list \<Rightarrow> bool" where
  "tile_shape its ob t ds us \<longleftrightarrow> item_vec t = ds @ us \<and> downItemCount t = of_nat (length ds) \<and> length (ds @ us) \<le> 0xFFFF \<and> distinct (stack t) \<and>
     (\<forall>i \<in> set ds. \<not> tt_alwaysOnTop (ityp its ob i)) \<and> (\<forall>i \<in> set us. tt_alwaysOnTop (ityp its ob i)) \<and>
     (\<forall>i \<in> set ds \<union> set us. \<not> tt_ground (ityp its ob i)) \<and> (\<forall>i \<in> set (ground_list t). tt_ground (ityp its ob i)) \<and>
     (\<forall>i \<in> set (stack t). item_ok its (ob i)) \<and> sorted (map (\<lambda>i. tt_alwaysOnTopOrder (ityp its ob i)) us)"

definition tile_inv :: "tile_types \<Rightarrow> tile_state \<Rightarrow> bool" where
  "tile_inv its st \<longleftrightarrow> (\<exists>ds us. tile_shape its (item_of st) (tile_of st) ds us) \<and>
     (\<forall>i \<in> set (stack (tile_of st)). ti_parent (item_of st i) = Some (tilePos (tile_of st))) \<and>
     agree_flags its (item_of st) (set (stack (tile_of st))) (tile_flags (tile_of st))"

lemma shape_parts:
  assumes "tile_shape its ob t ds us"
  shows "down_items t = ds" "top_items t = us" "unat (downItemCount t) = length ds" "item_vec t = ds @ us" "stack t = ground_list t @ ds @ us"
proof -
  have "length ds < 65536" using assms by (simp add: tile_shape_def)
  then show n: "unat (downItemCount t) = length ds" using assms by (simp add: tile_shape_def unat_of_nat take_bit_nat_eq_self)
  show "item_vec t = ds @ us" using assms by (simp add: tile_shape_def)
  then show "down_items t = ds" "top_items t = us" "stack t = ground_list t @ ds @ us" by (simp_all add: down_items_def top_items_def n stack_def)
qed

text \<open>What the small steps leave alone.\<close>

lemma set_parent_simps [simp]:
  "tile_of (set_parent i p st) = tile_of st" "released (set_parent i p st) = released st" "ti_id (item_of (set_parent i p st) j) = ti_id (item_of st j)"
  "ti_uniqueId (item_of (set_parent i p st) j) = ti_uniqueId (item_of st j)" "ti_magicField (item_of (set_parent i p st) j) = ti_magicField (item_of st j)"
  "ti_parent (item_of (set_parent i p st) j) = (if j = i then p else ti_parent (item_of st j))"
  by (simp_all add: set_parent_def)

lemma small_simps [simp]:
  "tile_of (ReleaseItem i st) = tile_of st" "item_of (ReleaseItem i st) = item_of st"
  "tile_of (set_ground g st) = (tile_of st)\<lparr>ground := g\<rparr>" "item_of (set_ground g st) = item_of st"
  "tile_of (set_items xs n st) = (tile_of st)\<lparr>item_vec := xs, downItemCount := n\<rparr>" "item_of (set_items xs n st) = item_of st"
  "item_of (resetTileFlags its x st) = item_of st" "tile_of (resetTileFlags its x st) = (tile_of st)\<lparr>tile_flags := reset_flags its x st\<rparr>"
  "item_of (mark_flags its x st) = item_of st" "tile_of (mark_flags its x st) = (tile_of st)\<lparr>tile_flags := setTileFlags its (item_of st x) (tile_flags (tile_of st))\<rparr>"
  by (simp_all add: ReleaseItem_def set_ground_def set_items_def resetTileFlags_def mark_flags_def Let_def)

lemma stack_simps [simp]:
  "stack (t\<lparr>tile_flags := f\<rparr>) = stack t" "stack (t\<lparr>ground := g\<rparr>) = (case g of Some x \<Rightarrow> [x] | None \<Rightarrow> []) @ item_vec t"
  "stack (t\<lparr>item_vec := xs, downItemCount := n\<rparr>) = ground_list t @ xs" "stack (t\<lparr>item_vec := xs\<rparr>) = ground_list t @ xs"
  by (simp_all add: stack_def ground_list_def)

lemma shape_flags [simp]: "tile_shape its ob (t\<lparr>tile_flags := f\<rparr>) = tile_shape its ob t"
  by (simp add: tile_shape_def ground_list_def fun_eq_iff)

lemma shape_cong:
  assumes "\<And>i. ti_id (ob' i) = ti_id (ob i)" "\<And>i. ti_magicField (ob' i) = ti_magicField (ob i)"
  shows "tile_shape its ob' = tile_shape its ob"
  by (simp add: tile_shape_def item_ok_def assms fun_eq_iff)

text \<open>Adding an item in one place: the flags are marked, the parent is this tile.\<close>

lemma added_inv:
  assumes "tile_shape its (item_of st) t' ds us" and t': "tilePos t' = tilePos (tile_of st)" "tile_flags t' = tile_flags (tile_of st)" "set (stack t') = insert i S"
    and S: "\<And>j. j \<in> S \<Longrightarrow> ti_parent (item_of st j) = Some (tilePos (tile_of st))" and i: "ti_parent (item_of st i) = Some (tilePos (tile_of st))"
    and fl: "agree_flags its (item_of st) S (tile_flags (tile_of st))"
  shows "tile_inv its (mark_flags its i (st\<lparr>tile_of := t'\<rparr>))"
proof -
  have "agree_flags its (item_of st) (insert i S) (setTileFlags its (item_of st i) (tile_flags t'))"
    using agree_mark[of its "st\<lparr>tile_of := t'\<rparr>" S i] fl t' by simp
  moreover have "\<forall>j \<in> insert i S. ti_parent (item_of st j) = Some (tilePos t')" using S i t'(1) by simp
  ultimately show ?thesis unfolding tile_inv_def using assms(1) by (auto simp: t'(3))
qed

lemma removed_inv:
  assumes shape: "tile_shape its (item_of st) t' ds us" and t': "tilePos t' = tilePos (tile_of st)" "tile_flags t' = tile_flags (tile_of st)"
    and S: "set (stack (tile_of st)) = insert x (set (stack t'))" "x \<notin> set (stack t')"
    and inv: "tile_inv its st"
  shows "tile_inv its (resetTileFlags its x ((set_parent x None st)\<lparr>tile_of := t'\<rparr>))"
proof -
  let ?st = "(set_parent x None st)\<lparr>tile_of := t'\<rparr>"
  have ids: "ti_id (item_of ?st j) = ti_id (item_of st j)" "ti_uniqueId (item_of ?st j) = ti_uniqueId (item_of st j)"
    "ti_magicField (item_of ?st j) = ti_magicField (item_of st j)" for j by (simp_all add: set_parent_def)
  have "agree_flags its (item_of ?st) (insert x (set (stack (tile_of ?st)))) (tile_flags (tile_of ?st))"
    using inv agree_cong[of "insert x (set (stack t'))" "item_of ?st" "item_of st"] ids t' S by (simp add: tile_inv_def)
  from agree_reset[OF this] have "agree_flags its (item_of ?st) (set (stack t')) (reset_flags its x ?st)"
    using S(2) by simp
  moreover have "tile_shape its (item_of ?st) t' ds us" using shape_cong[of "item_of ?st" "item_of st" its] ids shape by simp
  moreover have "ti_parent (item_of ?st j) = Some (tilePos t')" if "j \<in> set (stack t')" for j
    using inv that S t' by (auto simp: tile_inv_def set_parent_def)
  ultimately show ?thesis unfolding tile_inv_def by auto
qed

section \<open>Every operation keeps it\<close>

lemma find_at_Some: "find_at x ys = Some k \<Longrightarrow> k < length ys \<and> ys ! k = x"
  by (induction ys arbitrary: k) (auto split: if_splits)

lemma find_at_in: "find_at x ys \<noteq> None \<longleftrightarrow> x \<in> set ys"
  by (induction ys) auto

lemma find_at_mem: "find_at x ys = Some k \<Longrightarrow> x \<in> set ys"
  using find_at_in[of x ys] by simp

lemma erase_at_split: "k < length xs \<Longrightarrow> erase_at (length ds + k) (ds @ xs) = ds @ erase_at k xs"
  "k < length ds \<Longrightarrow> erase_at k (ds @ us) = erase_at k ds @ us"
  by (simp_all add: erase_at_def)

lemma erase_at_remove1: "find_at x xs = Some k \<Longrightarrow> erase_at k xs = remove1 x xs"
  by (induction xs arbitrary: k) (auto simp: erase_at_def split: if_splits)

lemma insert_at_split: "insert_at (length ds + k) x (ds @ us) = ds @ insert_at k x us"
  by (simp add: insert_at_def)

lemma top_slot_le: "top_slot before us \<le> length us"
  by (induction us) auto

lemma insert_at_set: "set (insert_at k x us) = insert x (set us)"
  unfolding insert_at_def by (metis Un_insert_right append_take_drop_id list.simps(15) set_append)

lemma insert_at_distinct: "distinct (insert_at k x us) \<longleftrightarrow> x \<notin> set us \<and> distinct us"
proof -
  have "distinct (insert_at k x us) \<longleftrightarrow> distinct (x # (take k us @ drop k us))"
    unfolding insert_at_def by (simp only: distinct_append distinct.simps set_append list.set) blast
  then show ?thesis by (simp only: append_take_drop_id distinct.simps)
qed

lemma insert_top_sorted:
  assumes "sorted (map f us)" "\<And>j. j \<in> set us \<Longrightarrow> before j \<Longrightarrow> f i \<le> f j" "\<And>j. j \<in> set us \<Longrightarrow> \<not> before j \<Longrightarrow> f j \<le> f i"
  shows "sorted (map f (insert_at (top_slot before us) i us))"
  using assms
proof (induction us)
  case (Cons u us)
  show ?case
  proof (cases "before u")
    case True
    then show ?thesis using Cons.prems(1) Cons.prems(2)[of u] by (auto simp: insert_at_def intro: order_trans)
  next
    case False
    have "insert_at (top_slot before (u # us)) i (u # us) = u # insert_at (top_slot before us) i us" using False by (simp add: insert_at_def)
    then show ?thesis using Cons False by (simp add: insert_at_set)
  qed
qed (simp add: insert_at_def)

lemma index_on_stack: "getThingIndex its (TItem i) st \<noteq> - 1 \<Longrightarrow> i \<in> set (stack (tile_of st))"
proof -
  assume a: "getThingIndex its (TItem i) st \<noteq> - 1"
  have "find_at i (top_items (tile_of st)) \<noteq> None \<or> find_at i (down_items (tile_of st)) \<noteq> None \<or> ground (tile_of st) = Some i"
    using a by (auto simp: getThingIndex_def Let_def split: if_splits option.splits)
  moreover have "set (top_items (tile_of st)) \<subseteq> set (item_vec (tile_of st))" "set (down_items (tile_of st)) \<subseteq> set (item_vec (tile_of st))"
    by (auto simp: top_items_def down_items_def dest: in_set_dropD in_set_takeD)
  ultimately show ?thesis by (auto simp: stack_def ground_list_def dest: find_at_mem)
qed

lemma tile_invE:
  assumes "tile_inv its st"
  obtains ds us where "tile_shape its (item_of st) (tile_of st) ds us"
    "\<And>i. i \<in> set (stack (tile_of st)) \<Longrightarrow> ti_parent (item_of st i) = Some (tilePos (tile_of st))"
    "agree_flags its (item_of st) (set (stack (tile_of st))) (tile_flags (tile_of st))"
  using assms by (auto simp: tile_inv_def)

lemma parent_inv:
  assumes "tile_inv its st" "i \<notin> set (stack (tile_of st))"
  shows "tile_inv its (set_parent i p st)"
proof -
  have "tile_shape its (item_of (set_parent i p st)) = tile_shape its (item_of st)" by (rule shape_cong) simp_all
  moreover have "agree_flags its (item_of (set_parent i p st)) S fl = agree_flags its (item_of st) S fl" for S fl by (rule agree_cong) simp
  ultimately show ?thesis using assms by (auto simp: tile_inv_def)
qed

lemma count_inv:
  assumes "tile_inv its st"
  shows "tile_inv its (st\<lparr>item_of := (item_of st)(i := (item_of st i)\<lparr>ti_count := n\<rparr>)\<rparr>)"
proof -
  let ?ob = "(item_of st)(i := (item_of st i)\<lparr>ti_count := n\<rparr>)"
  have "tile_shape its ?ob = tile_shape its (item_of st)" by (rule shape_cong) simp_all
  moreover have "agree_flags its ?ob S fl = agree_flags its (item_of st) S fl" for S fl by (rule agree_cong) simp
  ultimately show ?thesis using assms by (simp add: tile_inv_def)
qed

lemma tile_removeThing_inv:
  assumes inv: "tile_inv its st"
  shows "tile_inv its (removeThing its i count st)"
proof (cases "getThingIndex its (TItem i) st = - 1")
  case False
  obtain ds us where sh: "tile_shape its (item_of st) (tile_of st) ds us" using inv by (rule tile_invE)
  note P = shape_parts[OF sh]
  have fields: "item_vec (tile_of st) = ds @ us" "downItemCount (tile_of st) = of_nat (length ds)" "length (ds @ us) \<le> 65535" "distinct (ground_list (tile_of st) @ ds @ us)"
    using sh P(5) by (auto simp: tile_shape_def)
  consider "ground (tile_of st) = Some i" | "ground (tile_of st) \<noteq> Some i" "tt_alwaysOnTop (itype its st i)" | "ground (tile_of st) \<noteq> Some i" "\<not> tt_alwaysOnTop (itype its st i)" by blast
  then show ?thesis
  proof cases
    case 1
    have "tile_inv its (resetTileFlags its i ((set_parent i None st)\<lparr>tile_of := (tile_of st)\<lparr>ground := None\<rparr>\<rparr>))"
      by (rule removed_inv[OF _ _ _ _ _ inv, of _ ds us]) (use 1 sh fields in \<open>auto simp: tile_shape_def ground_list_def stack_def\<close>)
    then show ?thesis using False 1 by (simp add: removeThing_def set_ground_def)
  next
    case 2
    show ?thesis
    proof (cases "find_at i us")
      case None
      then show ?thesis using False 2 inv P by (simp add: removeThing_def)
    next
      case (Some k)
      note k = find_at_Some[OF Some]
      let ?t = "(tile_of st)\<lparr>item_vec := ds @ remove1 i us, downItemCount := downItemCount (tile_of st)\<rparr>"
      have "tile_inv its (resetTileFlags its i ((set_parent i None st)\<lparr>tile_of := ?t\<rparr>))"
      proof (rule removed_inv[OF _ _ _ _ _ inv, of ?t ds "remove1 i us"])
        show "tile_shape its (item_of st) ?t ds (remove1 i us)"
          using sh fields unfolding tile_shape_def by (auto simp: ground_list_def stack_def length_remove1 sorted_map_remove1 dest: notin_set_remove1 in_set_remove1)
      qed (use k fields P(5) in \<open>auto simp: ground_list_def\<close>)
      then show ?thesis using False 2 Some P k erase_at_remove1[OF Some] by (simp add: removeThing_def set_items_def erase_at_split)
    qed
  next
    case 3
    show ?thesis
    proof (cases "find_at i ds")
      case None
      then show ?thesis using False 3 inv P by (simp add: removeThing_def)
    next
      case (Some k)
      note k = find_at_Some[OF Some]
      show ?thesis
      proof (cases "tt_stackable (itype its st i) \<and> count \<noteq> ucast (ti_count (item_of st i))")
        case True
        then show ?thesis using False 3 Some P inv count_inv[OF inv] by (simp add: removeThing_def)
      next
        case remove: False
        let ?t = "(tile_of st)\<lparr>item_vec := remove1 i ds @ us, downItemCount := downItemCount (tile_of st) - 1\<rparr>"
        have "(of_nat (length ds) :: u16) - 1 = of_nat (length ds - 1)" using k by (cases ds) simp_all
        then have "tile_shape its (item_of st) ?t (remove1 i ds) us"
          using sh fields k unfolding tile_shape_def
          by (auto simp: ground_list_def stack_def length_remove1 dest: notin_set_remove1 in_set_remove1)
        then have "tile_inv its (resetTileFlags its i ((set_parent i None st)\<lparr>tile_of := ?t\<rparr>))"
          by (rule removed_inv[OF _ _ _ _ _ inv]) (use find_at_mem[OF Some] fields P(5) in \<open>auto simp: ground_list_def\<close>)
        then show ?thesis using False 3 Some P k erase_at_remove1[OF Some] remove
          by (auto simp: removeThing_def set_items_def erase_at_split)
      qed
    qed
  qed
qed (simp add: removeThing_def inv)

lemma removeThing_fields:
  "tilePos (tile_of (removeThing its i n st)) = tilePos (tile_of st)" "ground (tile_of (removeThing its i n st)) = (if ground (tile_of st) = Some i then None else ground (tile_of st))"
  "ti_id (item_of (removeThing its i n st) j) = ti_id (item_of st j)" "ti_magicField (item_of (removeThing its i n st) j) = ti_magicField (item_of st j)"
  "ti_parent (item_of (removeThing its i n st) j) \<in> {ti_parent (item_of st j), None}" "j \<noteq> i \<Longrightarrow> ti_parent (item_of (removeThing its i n st) j) = ti_parent (item_of st j)"
  by (auto simp: removeThing_def getThingIndex_def split: option.split)

text \<open>Taking a whole item off: it is gone, and nothing else is.\<close>

lemma removeThing_stack:
  assumes inv: "tile_inv its st" and i: "i \<in> set (item_vec (tile_of st))" and whole: "\<not> tt_stackable (itype its st i) \<or> tt_alwaysOnTop (itype its st i)"
  shows "item_vec (tile_of (removeThing its i n st)) = remove1 i (item_vec (tile_of st))"
proof -
  obtain ds us where sh: "tile_shape its (item_of st) (tile_of st) ds us" using inv by (rule tile_invE)
  note P = shape_parts[OF sh]
  have d: "distinct (ground_list (tile_of st) @ ds @ us)" using sh P(5) by (simp add: tile_shape_def)
  then have g: "ground (tile_of st) \<noteq> Some i" using i P(4) by (auto simp: ground_list_def)
  have onTop: "tt_alwaysOnTop (itype its st i) \<longleftrightarrow> i \<in> set us" "i \<in> set ds \<or> i \<in> set us" using sh i P(4) by (auto simp: tile_shape_def itype_def)
  then obtain k where k: "find_at i (if tt_alwaysOnTop (itype its st i) then us else ds) = Some k"
    using find_at_in[of i us] find_at_in[of i ds] by auto
  have idx: "getThingIndex its (TItem i) st \<noteq> - 1"
    using k g P by (auto simp: getThingIndex_def Let_def split: option.split if_splits)
  show ?thesis
  proof (cases "tt_alwaysOnTop (itype its st i)")
    case True
    then have "find_at i us = Some k" "k < length us" using k find_at_Some[of i us k] by auto
    moreover have "i \<notin> set ds" using True onTop(1) d by auto
    ultimately show ?thesis using idx g True P erase_at_remove1[of i us k] by (simp add: removeThing_def erase_at_split remove1_append)
  next
    case False
    then have "find_at i ds = Some k" "k < length ds" using k find_at_Some[of i ds k] by auto
    then show ?thesis using idx g False whole P erase_at_remove1[of i ds k] find_at_mem[of i ds k] by (simp add: removeThing_def erase_at_split remove1_append)
  qed
qed

lemma drop_item_inv:
  assumes inv: "tile_inv its st" and i: "i \<in> set (item_vec (tile_of st))" and whole: "\<not> tt_stackable (itype its st i) \<or> tt_alwaysOnTop (itype its st i)"
  shows "tile_inv its (drop_item its i st)" "item_vec (tile_of (drop_item its i st)) = remove1 i (item_vec (tile_of st))"
    "ground (tile_of (drop_item its i st)) = ground (tile_of st)" "tilePos (tile_of (drop_item its i st)) = tilePos (tile_of st)"
    "ti_id (item_of (drop_item its i st) j) = ti_id (item_of st j)" "ti_magicField (item_of (drop_item its i st) j) = ti_magicField (item_of st j)"
    "j \<noteq> i \<Longrightarrow> ti_parent (item_of (drop_item its i st) j) = ti_parent (item_of st j)"
proof -
  let ?st = "removeThing its i 1 st"
  have d: "distinct (stack (tile_of st))" using inv by (auto simp: tile_inv_def tile_shape_def)
  then have g: "ground (tile_of st) \<noteq> Some i" using i by (auto simp: stack_def ground_list_def)
  show vec: "item_vec (tile_of (drop_item its i st)) = remove1 i (item_vec (tile_of st))"
    using removeThing_stack[OF assms] by (simp add: drop_item_def)
  show gr: "ground (tile_of (drop_item its i st)) = ground (tile_of st)" "tilePos (tile_of (drop_item its i st)) = tilePos (tile_of st)"
    using g by (simp_all add: drop_item_def removeThing_fields)
  show "ti_id (item_of (drop_item its i st) j) = ti_id (item_of st j)" "ti_magicField (item_of (drop_item its i st) j) = ti_magicField (item_of st j)"
    "j \<noteq> i \<Longrightarrow> ti_parent (item_of (drop_item its i st) j) = ti_parent (item_of st j)" by (simp_all add: drop_item_def removeThing_fields)
  have "i \<notin> set (stack (tile_of ?st))"
    using d g vec gr(1) unfolding drop_item_def by (auto simp: stack_def ground_list_def)
  from parent_inv[OF tile_removeThing_inv[OF inv] this] show "tile_inv its (drop_item its i st)" by (simp add: drop_item_def tile_inv_def)
qed


text \<open>Putting an item on the tile: as ground, on top, or below.\<close>

lemma put_inv:
  assumes inv: "tile_inv its st" and i: "i \<notin> set (stack (tile_of st))" "ti_parent (item_of st i) = Some (tilePos (tile_of st))" "item_ok its (item_of st i)"
    and len: "length (item_vec (tile_of st)) < 65535"
  shows "tt_ground (itype its st i) \<Longrightarrow> ground (tile_of st) = None \<Longrightarrow> tile_inv its (mark_flags its i (set_ground (Some i) st))"
    "\<not> tt_ground (itype its st i) \<Longrightarrow> \<not> tt_alwaysOnTop (itype its st i) \<Longrightarrow> tile_inv its (mark_flags its i (insert_down i st))"
    "\<not> tt_ground (itype its st i) \<Longrightarrow> tt_alwaysOnTop (itype its st i) \<Longrightarrow>
     (\<And>j. before j \<Longrightarrow> tt_alwaysOnTopOrder (itype its st i) \<le> tt_alwaysOnTopOrder (itype its st j)) \<Longrightarrow>
     (\<And>j. \<not> before j \<Longrightarrow> tt_alwaysOnTopOrder (itype its st j) \<le> tt_alwaysOnTopOrder (itype its st i)) \<Longrightarrow>
     tile_inv its (mark_flags its i (insert_top before i st))"
proof -
  obtain ds us where sh: "tile_shape its (item_of st) (tile_of st) ds us"
    and par: "\<And>j. j \<in> set (stack (tile_of st)) \<Longrightarrow> ti_parent (item_of st j) = Some (tilePos (tile_of st))"
    and fl: "agree_flags its (item_of st) (set (stack (tile_of st))) (tile_flags (tile_of st))" using inv by (rule tile_invE) blast
  note P = shape_parts[OF sh]
  have vec: "i \<notin> set ds" "i \<notin> set us" "i \<notin> set (ground_list (tile_of st))" "length ds + length us < 65535" using i(1) P(4,5) len by auto
  show "tile_inv its (mark_flags its i (set_ground (Some i) st))" if "tt_ground (itype its st i)" "ground (tile_of st) = None"
  proof -
    have "tile_shape its (item_of st) ((tile_of st)\<lparr>ground := Some i\<rparr>) ds us"
      using sh that i(3) vec unfolding tile_shape_def by (auto simp: ground_list_def stack_def itype_def)
    from added_inv[OF this _ _ _ par i(2) fl] show ?thesis using that(2) P(4) by (simp add: set_ground_def stack_def ground_list_def)
  qed
  show "tile_inv its (mark_flags its i (insert_down i st))" if "\<not> tt_ground (itype its st i)" "\<not> tt_alwaysOnTop (itype its st i)"
  proof -
    let ?t = "(tile_of st)\<lparr>item_vec := i # ds @ us, downItemCount := downItemCount (tile_of st) + 1\<rparr>"
    have "tile_shape its (item_of st) ?t (i # ds) us"
      using sh that i(3) vec unfolding tile_shape_def by (auto simp: ground_list_def stack_def itype_def)
    from added_inv[OF this _ _ _ par i(2) fl] show ?thesis using P(4,5) by (auto simp: insert_down_def set_items_def)
  qed
  show "tile_inv its (mark_flags its i (insert_top before i st))" if t: "\<not> tt_ground (itype its st i)" "tt_alwaysOnTop (itype its st i)"
    and before: "\<And>j. before j \<Longrightarrow> tt_alwaysOnTopOrder (itype its st i) \<le> tt_alwaysOnTopOrder (itype its st j)"
      "\<And>j. \<not> before j \<Longrightarrow> tt_alwaysOnTopOrder (itype its st j) \<le> tt_alwaysOnTopOrder (itype its st i)"
  proof -
    let ?us = "insert_at (top_slot before us) i us"
    let ?t = "(tile_of st)\<lparr>item_vec := ds @ ?us, downItemCount := downItemCount (tile_of st)\<rparr>"
    have "sorted (map (\<lambda>j. tt_alwaysOnTopOrder (ityp its (item_of st) j)) ?us)"
      using sh before by (intro insert_top_sorted) (auto simp: tile_shape_def itype_def)
    moreover have "length ?us = Suc (length us)" using top_slot_le[of before us] by (simp add: insert_at_def)
    ultimately have "tile_shape its (item_of st) ?t ds ?us"
      using sh t i(3) vec unfolding tile_shape_def by (auto simp: ground_list_def stack_def itype_def insert_at_set insert_at_distinct)
    from added_inv[OF this _ _ _ par i(2) fl] show ?thesis
      using P by (auto simp: insert_top_def set_items_def insert_at_split insert_at_set)
  qed
qed


lemma replaced_inv:
  assumes inv: "tile_inv its st" and i: "i \<notin> set (stack (tile_of st))" and ok: "item_ok its (item_of st i)"
    and t': "tile_shape its (item_of st) t' ds us" "tilePos t' = tilePos (tile_of st)" "tile_flags t' = tile_flags (tile_of st)"
    and old: "old \<in> set (stack (tile_of st))" "set (stack t') = insert i (set (stack (tile_of st)) - {old})"
  shows "tile_inv its (set_parent old None (mark_flags its i (resetTileFlags its old ((set_parent i (Some (tilePos (tile_of st))) st)\<lparr>tile_of := t'\<rparr>))))"
proof -
  let ?s = "(set_parent i (Some (tilePos (tile_of st))) st)\<lparr>tile_of := t'\<rparr>"
  have ne: "i \<noteq> old" using i old(1) by auto
  have ids: "ti_id (item_of ?s j) = ti_id (item_of st j)" "ti_uniqueId (item_of ?s j) = ti_uniqueId (item_of st j)"
    "ti_magicField (item_of ?s j) = ti_magicField (item_of st j)" for j by simp_all
  have ag: "agree_flags its (item_of ?s) S = agree_flags its (item_of st) S" for S by (intro ext agree_cong) (simp add: ids)
  have old_in: "set (stack (tile_of st)) = insert old (set (stack t') - {i})" using old i by auto
  have fl: "agree_flags its (item_of st) (set (stack (tile_of st))) (tile_flags t')" using inv t'(3) by (simp add: tile_inv_def)
  have bits: "(\<exists>j \<in> set (stack t') - {old}. item_hasProperty its (item_of ?s j) p) \<longleftrightarrow> hasProperty_except its ?s old p" for p
    by (auto simp: hasProperty_except_def list_ex_iff stack_def)
  have "agree_flags its (item_of ?s) (set (stack t')) (setTileFlags its (item_of ?s i) (reset_flags its old ?s))"
    unfolding agree_flags_def
  proof (intro ballI, clarify)
    fix p k assume pk: "(p, k) \<in> set solid_flags"
    let ?P = "\<lambda>j. item_hasProperty its (item_of st j) p"
    have P: "item_hasProperty its (item_of ?s j) p = ?P j" for j by (rule item_hasProperty_cong) (simp_all add: ids)
    have "bit (tile_flags t') k \<longleftrightarrow> ?P old \<or> (\<exists>j \<in> set (stack t') - {i}. ?P j)" using fl pk unfolding agree_flags_def old_in by auto
    moreover have "hasProperty_except its ?s old p \<longleftrightarrow> (\<exists>j \<in> set (stack t'). ?P j)" unfolding bits[symmetric] P using old(2) ne by auto
    ultimately show "bit (setTileFlags its (item_of ?s i) (reset_flags its old ?s)) k \<longleftrightarrow> (\<exists>j \<in> set (stack t'). item_hasProperty its (item_of ?s j) p)"
      unfolding setTileFlags_bit[OF pk] reset_flags_bit[OF pk] last_of_def P using old(2) by auto
  qed
  moreover have "tile_shape its (item_of ?s) t' ds us" using t'(1) shape_cong[of "item_of ?s" "item_of st" its] ids by simp
  moreover have "\<forall>j \<in> set (stack t'). ti_parent (item_of ?s j) = Some (tilePos t')" using inv old t'(2) by (auto simp: tile_inv_def)
  ultimately have "tile_inv its (mark_flags its i (resetTileFlags its old ?s))" unfolding tile_inv_def by auto
  then show ?thesis by (rule parent_inv) (use old ne in simp)
qed

lemma item_hasProperty_parent [simp]: "item_hasProperty its (item_of (set_parent j p st) x) q = item_hasProperty its (item_of st x) q"
  by (rule item_hasProperty_cong) simp_all

lemma flags_parent [simp]:
  "setTileFlags its (item_of (set_parent j p st) x) fl = setTileFlags its (item_of st x) fl" "reset_flags its x (set_parent j p st) = reset_flags its x st"
proof -
  have "last_of its (set_parent j p st) x q = last_of its st x q" for q by (simp add: last_of_def hasProperty_except_def)
  moreover have "ti_teleport (item_of (set_parent j p st) x) = ti_teleport (item_of st x)" "ti_mailbox (item_of (set_parent j p st) x) = ti_mailbox (item_of st x)"
    "ti_trashHolder (item_of (set_parent j p st) x) = ti_trashHolder (item_of st x)" "ti_bed (item_of (set_parent j p st) x) = ti_bed (item_of st x)"
    "ti_depotLocker (item_of (set_parent j p st) x) = ti_depotLocker (item_of st x)" by (simp_all add: set_parent_def)
  ultimately show "reset_flags its x (set_parent j p st) = reset_flags its x st" "setTileFlags its (item_of (set_parent j p st) x) fl = setTileFlags its (item_of st x) fl"
    by (simp_all add: reset_flags_def setTileFlags_def Let_def del: item_hasProperty.simps)
qed

text \<open>Letting go of an item commutes with the other small steps.\<close>

lemma release_commutes:
  "set_ground g (ReleaseItem j (set_parent k p st)) = ReleaseItem j (set_parent k p (set_ground g st))"
  "resetTileFlags its x (ReleaseItem j (set_parent k p st)) = ReleaseItem j (set_parent k p (resetTileFlags its x st))"
  "mark_flags its x (ReleaseItem j (set_parent k p st)) = ReleaseItem j (set_parent k p (mark_flags its x st))"
proof -
  have r: "reset_flags its x (ReleaseItem j s) = reset_flags its x s" for s
    by (simp add: reset_flags_def Let_def last_of_def hasProperty_except_def del: item_hasProperty.simps)
  show "resetTileFlags its x (ReleaseItem j (set_parent k p st)) = ReleaseItem j (set_parent k p (resetTileFlags its x st))"
    "mark_flags its x (ReleaseItem j (set_parent k p st)) = ReleaseItem j (set_parent k p (mark_flags its x st))"
    by (simp_all add: resetTileFlags_def mark_flags_def r) (simp_all add: ReleaseItem_def set_parent_def)
qed (simp add: set_ground_def ReleaseItem_def set_parent_def)

lemma tile_inv_release [simp]: "tile_inv its (ReleaseItem j st) = tile_inv its st"
  by (simp add: tile_inv_def)

lemma addThing_ground_inv:
  assumes inv: "tile_inv its st" and i: "i \<notin> set (stack (tile_of st))" "item_ok its (item_of st i)" "tt_ground (itype its st i)"
    and g: "ground (tile_of st) = Some old" and len: "length (item_vec (tile_of st)) < 65535"
  shows "tile_inv its (addThing its i st)"
proof -
  obtain ds us where sh: "tile_shape its (item_of st) (tile_of st) ds us" using inv by (rule tile_invE)
  let ?t = "(tile_of st)\<lparr>ground := Some i\<rparr>"
  have old: "old \<in> set (stack (tile_of st))" "i \<noteq> old" using g i(1) by (auto simp: stack_def ground_list_def)
  have sh': "tile_shape its (item_of st) ?t ds us" using sh i unfolding tile_shape_def by (auto simp: ground_list_def stack_def itype_def)
  have st': "set (stack ?t) = insert i (set (stack (tile_of st)) - {old})"
    using g sh by (auto simp: stack_def ground_list_def tile_shape_def)
  have inv': "tile_inv its (set_parent old None (mark_flags its i (resetTileFlags its old ((set_parent i (Some (tilePos (tile_of st))) st)\<lparr>tile_of := ?t\<rparr>))))"
    by (rule replaced_inv[OF inv i(1,2) sh' _ _ old(1) st']) simp_all
  have "itype its (set_parent i p st) = itype its st" for p by (simp add: itype_def fun_eq_iff)
  then have "addThing its i st = mark_flags its i (resetTileFlags its old (set_ground (Some i) (ReleaseItem old (set_parent old None (set_parent i (Some (tilePos (tile_of st))) st)))))"
    using g i(3) len by (simp add: addThing_def Let_def)
  then show ?thesis using inv' by (simp add: release_commutes) (simp add: set_ground_def)
qed

lemma put_after_drop:
  assumes inv: "tile_inv its st" and i: "i \<notin> set (stack (tile_of st))" "item_ok its (item_of st i)" "ti_parent (item_of st i) = Some (tilePos (tile_of st))"
    and len: "length (item_vec (tile_of st)) < 65535"
    and old: "old \<in> set (item_vec (tile_of st))" "\<not> tt_stackable (itype its st old) \<or> tt_alwaysOnTop (itype its st old)"
  shows "tile_inv its (drop_item its old st)" "i \<notin> set (stack (tile_of (drop_item its old st)))"
      "ti_parent (item_of (drop_item its old st) i) = Some (tilePos (tile_of (drop_item its old st)))" "item_ok its (item_of (drop_item its old st) i)"
      "length (item_vec (tile_of (drop_item its old st))) < 65535" "itype its (drop_item its old st) = itype its st"
proof -
  note D = drop_item_inv[OF inv old]
  have "i \<noteq> old" using old(1) i(1) by (auto simp: stack_def)
  then show "tile_inv its (drop_item its old st)" "i \<notin> set (stack (tile_of (drop_item its old st)))"
      "ti_parent (item_of (drop_item its old st) i) = Some (tilePos (tile_of (drop_item its old st)))" "item_ok its (item_of (drop_item its old st) i)"
      "length (item_vec (tile_of (drop_item its old st))) < 65535" "itype its (drop_item its old st) = itype its st"
    using D i len by (auto simp: itype_def item_ok_def stack_def ground_list_def length_remove1 dest: notin_set_remove1)
qed

lemma tile_addThing_inv:
  assumes inv: "tile_inv its st" and i: "i \<notin> set (stack (tile_of st))" "item_ok its (item_of st i)"
  shows "tile_inv its (addThing its i st)"
proof (cases "length (item_vec (tile_of st)) \<ge> 0xFFFF")
  case False
  let ?p = "Some (tilePos (tile_of st))"
  let ?s = "set_parent i ?p st"
  have s: "tile_inv its ?s" "i \<notin> set (stack (tile_of ?s))" "item_ok its (item_of ?s i)" "ti_parent (item_of ?s i) = Some (tilePos (tile_of ?s))"
    using parent_inv[OF inv i(1)] i by (simp_all add: item_ok_def)
  have len: "length (item_vec (tile_of ?s)) < 65535" using False by simp
  note put = put_inv[OF s(1,2,4,3) len]
  have ty: "itype its ?s = itype its st" by (simp add: itype_def fun_eq_iff)
  obtain ds us where sh: "tile_shape its (item_of st) (tile_of st) ds us" using inv by (rule tile_invE)
  note P = shape_parts[OF sh]
  have fields: "\<not> tt_stackable (itype its st j)" if "ti_magicField (item_of st j)" "j \<in> set ds" for j
    using sh that by (auto simp: tile_shape_def stack_def item_ok_def itype_def)
  have tops: "tt_alwaysOnTop (itype its st j)" if "j \<in> set us" for j using sh that by (auto simp: tile_shape_def itype_def)
  let ?before = "\<lambda>s j. tt_alwaysOnTopOrder (itype its st i) \<le> tt_alwaysOnTopOrder (itype its s j)"
  consider (ground) "tt_ground (itype its st i)" | (above) "\<not> tt_ground (itype its st i)" "tt_alwaysOnTop (itype its st i)"
    | (down) "\<not> tt_ground (itype its st i)" "\<not> tt_alwaysOnTop (itype its st i)" by blast
  then show ?thesis
  proof cases
    case ground
    show ?thesis
    proof (cases "ground (tile_of st)")
      case None
      then show ?thesis using put(1) ground ty False by (simp add: addThing_def)
    next
      case (Some old)
      then show ?thesis using addThing_ground_inv[OF inv i ground] False by simp
    qed
  next
    case above
    define old where "old = (if tt_splash (itype its st i) then find (\<lambda>j. tt_splash (itype its st j)) us else None)"
    show ?thesis
    proof (cases old)
      case None
      have "tile_inv its (mark_flags its i (insert_top (?before ?s) i ?s))" by (rule put(3)) (use above ty in auto)
      then show ?thesis using None above False ty P unfolding old_def by (auto simp: addThing_def Let_def split: if_splits)
    next
      case (Some x)
      then have x: "x \<in> set us" unfolding old_def by (auto simp: find_Some_iff split: if_splits)
      have "x \<in> set (item_vec (tile_of ?s))" "\<not> tt_stackable (itype its ?s x) \<or> tt_alwaysOnTop (itype its ?s x)" using x P(4) tops ty by auto
      note D = put_after_drop[OF s len this]
      have "tile_inv its (mark_flags its i (insert_top (?before (drop_item its x ?s)) i (drop_item its x ?s)))"
        by (rule put_inv(3)[OF D(1,2,3,4,5)]) (use above ty D(6) in auto)
      then show ?thesis using Some above False ty P unfolding old_def by (auto simp: addThing_def Let_def split: if_splits)
    qed
  next
    case down
    define old where "old = (if tt_magicField (itype its st i) then find (\<lambda>j. ti_magicField (item_of st j)) ds else None)"
    show ?thesis
    proof (cases old)
      case None
      then show ?thesis using put(2) down False ty P unfolding old_def by (auto simp: addThing_def Let_def)
    next
      case (Some x)
      then have x: "x \<in> set ds" "ti_magicField (item_of st x)" unfolding old_def by (auto simp: find_Some_iff split: if_splits)
      have "x \<in> set (item_vec (tile_of ?s))" "\<not> tt_stackable (itype its ?s x) \<or> tt_alwaysOnTop (itype its ?s x)" using x P(4) fields ty by auto
      note D = put_after_drop[OF s len this]
      have "tile_inv its (mark_flags its i (insert_down i (drop_item its x ?s)))"
        by (rule put_inv(2)[OF D(1,2,3,4,5)]) (use down ty D(6) in auto)
      moreover have "tile_inv its (ReleaseItem i (set_parent i None ?s))"
        using parent_inv[OF s(1,2), of None] by (simp add: tile_inv_def)
      ultimately show ?thesis using Some down False ty P unfolding old_def by (auto simp: addThing_def Let_def split: if_splits)
    qed
  qed
qed (simp add: addThing_def inv)

lemma internalAddThing_inv:
  assumes inv: "tile_inv its st" and i: "i \<notin> set (stack (tile_of st))" "item_ok its (item_of st i)"
  shows "tile_inv its (internalAddThing its i st)"
proof -
  let ?s = "set_parent i (Some (tilePos (tile_of st))) st"
  have s: "tile_inv its ?s" "i \<notin> set (stack (tile_of ?s))" "ti_parent (item_of ?s i) = Some (tilePos (tile_of ?s))" "item_ok its (item_of ?s i)"
    using parent_inv[OF inv i(1)] i by (simp_all add: item_ok_def)
  have gr: "tile_inv its (mark_flags its i (set_ground (Some i) ?s))" if g: "tt_ground (itype its ?s i)" "ground (tile_of st) = None"
  proof -
    obtain ds us where sh: "tile_shape its (item_of ?s) (tile_of ?s) ds us" and par: "\<And>j. j \<in> set (stack (tile_of ?s)) \<Longrightarrow> ti_parent (item_of ?s j) = Some (tilePos (tile_of ?s))"
      and fl: "agree_flags its (item_of ?s) (set (stack (tile_of ?s))) (tile_flags (tile_of ?s))" using s(1) by (rule tile_invE) blast
    have "tile_shape its (item_of ?s) ((tile_of ?s)\<lparr>ground := Some i\<rparr>) ds us"
      using sh s(2,4) g shape_parts(4)[OF sh] unfolding tile_shape_def by (auto simp: ground_list_def stack_def itype_def)
    from added_inv[OF this _ _ _ par s(3) fl] show ?thesis using g(2) by (simp add: set_ground_def stack_def ground_list_def)
  qed
  show ?thesis
  proof (cases "tt_ground (itype its ?s i) \<or> length (item_vec (tile_of st)) \<ge> 65535")
    case True
    then show ?thesis using s(1) gr by (auto simp: internalAddThing_def Let_def)
  next
    case False
    then have len: "length (item_vec (tile_of ?s)) < 65535" by simp
    note put = put_inv[OF s len]
    have "tile_inv its (mark_flags its i (insert_top (\<lambda>j. tt_alwaysOnTopOrder (itype its ?s j) > tt_alwaysOnTopOrder (itype its ?s i)) i ?s))"
      if "tt_alwaysOnTop (itype its ?s i)" by (rule put(3)) (use that False in auto)
    then show ?thesis using put(2) False by (auto simp: internalAddThing_def Let_def)
  qed
qed

text \<open>\<open>updateThing\<close> and \<open>replaceThing\<close> leave the order of the stack to their callers: the new type has to
  belong to the same place of the stack.\<close>

definition same_place :: "tile_item_type \<Rightarrow> tile_item_type \<Rightarrow> bool" where
  "same_place a b \<longleftrightarrow> tt_ground a = tt_ground b \<and> tt_alwaysOnTop a = tt_alwaysOnTop b \<and> tt_alwaysOnTopOrder a = tt_alwaysOnTopOrder b"

lemma setSubType_simps [simp]:
  "ti_id (tile_setSubType its n x) = ti_id x" "ti_magicField (tile_setSubType its n x) = ti_magicField x" "ti_parent (tile_setSubType its n x) = ti_parent x"
  by (simp_all add: tile_setSubType_def)

lemma shape_update:
  assumes "tile_shape its ob t ds us" "same_place (its (ti_id x)) (its (ti_id (ob i)))" "item_ok its x"
  shows "tile_shape its (ob(i := x)) t ds us"
proof -
  have "(\<lambda>j. tt_alwaysOnTopOrder (ityp its (ob(i := x)) j)) = (\<lambda>j. tt_alwaysOnTopOrder (ityp its ob j))" using assms(2) by (auto simp: same_place_def)
  then show ?thesis using assms unfolding tile_shape_def same_place_def by auto
qed

lemma tile_updateThing_inv:
  assumes inv: "tile_inv its st" and ty: "same_place (its itemId) (itype its st i)" "ti_magicField (item_of st i) \<Longrightarrow> \<not> tt_stackable (its itemId)"
  shows "tile_inv its (updateThing its i itemId n st)"
proof (cases "getThingIndex its (TItem i) st = - 1")
  case False
  let ?x = "tile_setSubType its (ucast n) ((item_of st i)\<lparr>ti_id := itemId\<rparr>)"
  let ?ob = "(item_of st)(i := ?x)" and ?S = "set (stack (tile_of st))"
  let ?s = "(resetTileFlags its i st)\<lparr>item_of := ?ob\<rparr>"
  have i: "i \<in> ?S" using index_on_stack[OF False] .
  obtain ds us where sh: "tile_shape its (item_of st) (tile_of st) ds us" and par: "\<And>j. j \<in> ?S \<Longrightarrow> ti_parent (item_of st j) = Some (tilePos (tile_of st))"
    and fl: "agree_flags its (item_of st) ?S (tile_flags (tile_of st))" using inv by (rule tile_invE) blast
  have sh': "tile_shape its ?ob (tile_of st) ds us"
    by (rule shape_update[OF sh]) (use ty in \<open>simp_all add: itype_def item_ok_def\<close>)
  have "agree_flags its (item_of st) (?S - {i}) (reset_flags its i st)" using agree_reset[of its st i] fl i by (simp add: insert_absorb)
  then have "agree_flags its (item_of ?s) (?S - {i}) (tile_flags (tile_of ?s))" using agree_cong[of "?S - {i}" "item_of ?s" "item_of st" its] by simp
  from agree_mark[OF this, of i] have "agree_flags its ?ob ?S (setTileFlags its ?x (reset_flags its i st))" using i by (simp add: insert_absorb)
  then have "tile_inv its (mark_flags its i ?s)" unfolding tile_inv_def using sh' par by auto
  then show ?thesis using False by (simp add: updateThing_def Let_def)
qed (simp add: updateThing_def inv)

section \<open>The stack as the client counts it\<close>

definition things :: "tile \<Rightarrow> thing list" where
  "things t = map TItem (ground_list t) @ map TItem (top_items t) @ map TCreature (tile_creatures t) @ map TItem (down_items t)"

lemma find_at_append: "find_at x (xs @ ys) = (case find_at x xs of Some k \<Rightarrow> Some k | None \<Rightarrow> map_option (\<lambda>k. length xs + k) (find_at x ys))"
  by (induction xs; cases "find_at x ys") (auto split: option.split)

lemma find_at_map: "inj f \<Longrightarrow> find_at (f x) (map f xs) = find_at x xs"
  by (induction xs) (auto dest: injD)

lemma find_at_None: "x \<notin> set xs \<Longrightarrow> find_at x xs = None"
  using find_at_in[of x xs] by blast

lemma things_find:
  "find_at (TItem i) (map TItem xs) = find_at i xs" "find_at (TItem i) (map TCreature cs) = None"
  "find_at (TCreature c) (map TCreature cs) = find_at c cs" "find_at (TCreature c) (map TItem xs) = None"
  by (simp_all add: find_at_map inj_def find_at_None image_iff)

lemma getThingIndex_find:
  assumes "tile_inv its st"
  shows "getThingIndex its th st = (case find_at th (things (tile_of st)) of Some k \<Rightarrow> int k | None \<Rightarrow> - 1)"
proof -
  obtain ds us where sh: "tile_shape its (item_of st) (tile_of st) ds us" using assms by (rule tile_invE)
  note P = shape_parts[OF sh]
  have cls: "i \<in> set us \<Longrightarrow> tt_alwaysOnTop (itype its st i)" "i \<in> set ds \<Longrightarrow> \<not> tt_alwaysOnTop (itype its st i)" for i
    using sh by (auto simp: tile_shape_def itype_def)
  have miss: "tt_alwaysOnTop (itype its st i) \<Longrightarrow> find_at i ds = None" "\<not> tt_alwaysOnTop (itype its st i) \<Longrightarrow> find_at i us = None" for i
    by (rule find_at_None; use cls in auto)+
  note idx = getThingIndex_def things_def Let_def find_at_append things_find ground_list_def P(1,2)
  show ?thesis
  proof (cases th)
    case (TItem i)
    consider "tt_alwaysOnTop (itype its st i)" "find_at i ds = None" | "\<not> tt_alwaysOnTop (itype its st i)" "find_at i us = None"
      using miss[of i] by (cases "tt_alwaysOnTop (itype its st i)") simp_all
    then show ?thesis
      by cases (cases "ground (tile_of st)"; cases "find_at i us"; cases "find_at i ds"; simp add: TItem idx)+
  next
    case (TCreature c)
    then show ?thesis by (cases "ground (tile_of st)"; cases "find_at c (tile_creatures (tile_of st))"; simp add: idx)
  qed
qed

lemma getThing_nth:
  assumes "tile_inv its st"
  shows "getThing n (tile_of st) = (if n < length (things (tile_of st)) then Some (things (tile_of st) ! n) else None)"
proof -
  obtain ds us where sh: "tile_shape its (item_of st) (tile_of st) ds us" using assms by (rule tile_invE)
  note P = shape_parts[OF sh]
  show ?thesis by (cases "ground (tile_of st)") (auto simp: getThing_def things_def ground_list_def Let_def nth_append P nth_Cons' not_less)
qed

lemma replace_in_vector_shape:
  assumes sh: "tile_shape its ob (tile_of st) ds us"
  shows "replace_in_vector k i st =
     (let n = length us; m = n + length (tile_creatures (tile_of st)) in
      if k < n then Some (set_items (ds @ us[k := i]) (downItemCount (tile_of st)) st, us ! k)
      else if m \<le> k \<and> k < m + length ds then Some (set_items (ds[k - m := i] @ us) (downItemCount (tile_of st)) st, ds ! (k - m)) else None)"
proof -
  note P = shape_parts[OF sh]
  show ?thesis by (auto simp: replace_in_vector_def Let_def P list_update_append nth_append not_less)
qed

lemma replace_shape:
  assumes sh: "tile_shape its ob t ds us" and i: "i \<notin> set (stack t)" "item_ok its (ob i)"
  shows "k < length us \<Longrightarrow> same_place (ityp its ob i) (ityp its ob (us ! k)) \<Longrightarrow> tile_shape its ob (t\<lparr>item_vec := ds @ us[k := i]\<rparr>) ds (us[k := i])"
    "k < length ds \<Longrightarrow> same_place (ityp its ob i) (ityp its ob (ds ! k)) \<Longrightarrow> tile_shape its ob (t\<lparr>item_vec := ds[k := i] @ us\<rparr>) (ds[k := i]) us"
    "ground t = Some old \<Longrightarrow> same_place (ityp its ob i) (ityp its ob old) \<Longrightarrow> tile_shape its ob (t\<lparr>ground := Some i\<rparr>) ds us"
proof -
  have d: "distinct ds" "distinct us" "i \<notin> set ds" "i \<notin> set us" "set ds \<inter> set us = {}" using sh i(1) by (auto simp: tile_shape_def stack_def)
  show "tile_shape its ob (t\<lparr>item_vec := ds @ us[k := i]\<rparr>) ds (us[k := i])" if k: "k < length us" "same_place (ityp its ob i) (ityp its ob (us ! k))"
  proof -
    have "map (\<lambda>j. tt_alwaysOnTopOrder (ityp its ob j)) (us[k := i]) = map (\<lambda>j. tt_alwaysOnTopOrder (ityp its ob j)) us"
      using k by (simp add: map_update same_place_def list_update_same_conv)
    then show ?thesis using sh i k d set_update_distinct[OF d(2) k(1)] unfolding tile_shape_def same_place_def
      by (auto simp: stack_def ground_list_def set_update_distinct distinct_list_update)
  qed
  show "tile_shape its ob (t\<lparr>item_vec := ds[k := i] @ us\<rparr>) (ds[k := i]) us" if k: "k < length ds" "same_place (ityp its ob i) (ityp its ob (ds ! k))"
    using sh i k d set_update_distinct[OF d(1) k(1)] unfolding tile_shape_def same_place_def
    by (auto simp: stack_def ground_list_def set_update_distinct distinct_list_update)
  show "tile_shape its ob (t\<lparr>ground := Some i\<rparr>) ds us" if "ground t = Some old" "same_place (ityp its ob i) (ityp its ob old)"
    using sh i that unfolding tile_shape_def same_place_def by (auto simp: stack_def ground_list_def)
qed

lemma tile_replaceThing_inv:
  assumes inv: "tile_inv its st" and i: "i \<notin> set (stack (tile_of st))" "item_ok its (item_of st i)"
    and place: "\<And>old. getThing index (tile_of st) = Some (TItem old) \<Longrightarrow> same_place (itype its st i) (itype its st old)"
  shows "tile_inv its (replaceThing its index i st)"
proof -
  obtain ds us where sh: "tile_shape its (item_of st) (tile_of st) ds us" using inv by (rule tile_invE)
  note P = shape_parts[OF sh] and vec = replace_in_vector_shape[OF sh] and R = replace_shape[OF sh i] and G = getThing_nth[OF inv]
  have d: "distinct (ground_list (tile_of st) @ ds @ us)" using sh P(5) by (simp add: tile_shape_def)
  define n where "n = length (ground_list (tile_of st))"
  let ?m = "n + length us + length (tile_creatures (tile_of st))"
  have out: "tile_inv its (set_parent old None (mark_flags its i (resetTileFlags its old (set_parent i (Some (tilePos (tile_of st))) (st\<lparr>tile_of := t'\<rparr>)))))"
    if "tile_shape its (item_of st) t' xs ys" "tilePos t' = tilePos (tile_of st)" "tile_flags t' = tile_flags (tile_of st)" "old \<in> set (stack (tile_of st))"
      "set (stack t') = insert i (set (stack (tile_of st)) - {old})" for old t' xs ys
  proof -
    have "set_parent i q (st\<lparr>tile_of := t'\<rparr>) = (set_parent i q st)\<lparr>tile_of := t'\<rparr>" for q by (simp add: set_parent_def)
    then show ?thesis using replaced_inv[OF inv i that] by simp
  qed
  consider (g) old where "ground (tile_of st) = Some old" "index = 0" | (us) k where "index = n + k" "k < length us" | (ds) k where "index = ?m + k" "k < length ds"
    | (none) "n \<le> index" "\<not> index < n + length us" "\<not> (?m \<le> index \<and> index < ?m + length ds)"
  proof (cases "index < n")
    case True
    then show ?thesis using g by (auto simp: n_def ground_list_def split: option.splits)
  next
    case False
    then show ?thesis using us[of "index - n"] ds[of "index - ?m"] none by force
  qed
  then show ?thesis
  proof cases
    case g
    then have "getThing index (tile_of st) = Some (TItem old)" by (simp add: getThing_def)
    then have "tile_shape its (item_of st) ((tile_of st)\<lparr>ground := Some i\<rparr>) ds us" using R(3) g place by (simp add: itype_def)
    from out[OF this, of old] show ?thesis using g d P by (auto simp: replaceThing_def set_ground_def ground_list_def)
  next
    case us
    then have "getThing index (tile_of st) = Some (TItem (us ! k))" by (simp add: G things_def nth_append n_def ground_list_def P split: option.split)
    then have "tile_shape its (item_of st) ((tile_of st)\<lparr>item_vec := ds @ us[k := i]\<rparr>) ds (us[k := i])" using R(1) us place by (simp add: itype_def)
    moreover have m: "us ! k \<in> set us" using us by simp
    moreover have "set (stack ((tile_of st)\<lparr>item_vec := ds @ us[k := i]\<rparr>)) = insert i (set (stack (tile_of st)) - {us ! k})"
      using m d us P(5) by (auto simp: set_update_distinct)
    ultimately have "tile_inv its (set_parent (us ! k) None (mark_flags its i (resetTileFlags its (us ! k) (set_parent i (Some (tilePos (tile_of st))) (st\<lparr>tile_of := (tile_of st)\<lparr>item_vec := ds @ us[k := i]\<rparr>\<rparr>)))))"
      using P(5) by (intro out) auto
    then show ?thesis using us by (simp add: replaceThing_def set_items_def ground_list_def vec Let_def n_def split: option.split)
  next
    case ds
    then have "getThing index (tile_of st) = Some (TItem (ds ! k))" by (simp add: G things_def nth_append n_def ground_list_def P split: option.split)
    then have "tile_shape its (item_of st) ((tile_of st)\<lparr>item_vec := ds[k := i] @ us\<rparr>) (ds[k := i]) us" using R(2) ds place by (simp add: itype_def)
    moreover have m: "ds ! k \<in> set ds" using ds by simp
    moreover have "set (stack ((tile_of st)\<lparr>item_vec := ds[k := i] @ us\<rparr>)) = insert i (set (stack (tile_of st)) - {ds ! k})"
    proof -
      have "set ds \<inter> set us = {}" "set (ground_list (tile_of st)) \<inter> set ds = {}" using d by auto
      then have "ds ! k \<notin> set us" "ds ! k \<notin> set (ground_list (tile_of st))" using m by blast+
      then show ?thesis using d ds P(5) by (auto simp: set_update_distinct)
    qed
    ultimately have "tile_inv its (set_parent (ds ! k) None (mark_flags its i (resetTileFlags its (ds ! k) (set_parent i (Some (tilePos (tile_of st))) (st\<lparr>tile_of := (tile_of st)\<lparr>item_vec := ds[k := i] @ us\<rparr>\<rparr>)))))"
      using P(5) by (intro out) auto
    then show ?thesis using ds by (simp add: replaceThing_def set_items_def ground_list_def vec Let_def n_def split: option.split)
  next
    case none
    then have "replaceThing its index i st = st" by (auto simp: replaceThing_def vec Let_def n_def ground_list_def split: option.split)
    then show ?thesis using inv by simp
  qed
qed

section \<open>Histories of a tile\<close>

datatype tile_call = Call_addThing nat | Call_internalAddThing nat | Call_removeThing nat u32 | Call_updateThing nat u16 u32
  | Call_replaceThing nat nat | Call_addCreature u32 | Call_removeCreature u32

text \<open>What the game sees to before it calls: an item is put only on a tile that does not hold it, a changed item keeps
  its place in the stack, and a magic field is not stackable.\<close>

fun tile_call_ok :: "tile_types \<Rightarrow> tile_call \<Rightarrow> tile_state \<Rightarrow> bool" where
  "tile_call_ok its (Call_addThing i) st \<longleftrightarrow> i \<notin> set (stack (tile_of st)) \<and> item_ok its (item_of st i)"
| "tile_call_ok its (Call_internalAddThing i) st \<longleftrightarrow> i \<notin> set (stack (tile_of st)) \<and> item_ok its (item_of st i)"
| "tile_call_ok its (Call_removeThing i n) st \<longleftrightarrow> True"
| "tile_call_ok its (Call_updateThing i itemId n) st \<longleftrightarrow>
     same_place (its itemId) (itype its st i) \<and> item_ok its ((item_of st i)\<lparr>ti_id := itemId\<rparr>)"
| "tile_call_ok its (Call_replaceThing index i) st \<longleftrightarrow> i \<notin> set (stack (tile_of st)) \<and> item_ok its (item_of st i) \<and>
     (case getThing index (tile_of st) of Some (TItem old) \<Rightarrow> same_place (itype its st i) (itype its st old) | _ \<Rightarrow> True)"
| "tile_call_ok its (Call_addCreature c) st \<longleftrightarrow> c \<notin> set (tile_creatures (tile_of st))"
| "tile_call_ok its (Call_removeCreature c) st \<longleftrightarrow> True"

fun do_call :: "tile_types \<Rightarrow> tile_call \<Rightarrow> tile_state \<Rightarrow> tile_state" where
  "do_call its (Call_addThing i) st = addThing its i st"
| "do_call its (Call_internalAddThing i) st = internalAddThing its i st"
| "do_call its (Call_removeThing i n) st = removeThing its i n st"
| "do_call its (Call_updateThing i itemId n) st = updateThing its i itemId n st"
| "do_call its (Call_replaceThing index i) st = replaceThing its index i st"
| "do_call its (Call_addCreature c) st = addThing_creature c st"
| "do_call its (Call_removeCreature c) st = removeThing_creature c st"

fun tile_calls :: "tile_types \<Rightarrow> tile_call list \<Rightarrow> tile_state \<Rightarrow> tile_state" where
  "tile_calls its [] st = st"
| "tile_calls its (c # cs) st = tile_calls its cs (do_call its c st)"

fun tile_calls_ok :: "tile_types \<Rightarrow> tile_call list \<Rightarrow> tile_state \<Rightarrow> bool" where
  "tile_calls_ok its [] st = True"
| "tile_calls_ok its (c # cs) st = (tile_call_ok its c st \<and> tile_calls_ok its cs (do_call its c st))"

definition new_tile :: "position \<Rightarrow> tile" where
  "new_tile p = \<lparr>ground = None, item_vec = [], downItemCount = 0, tile_creatures = [], tile_flags = 0, tilePos = p\<rparr>"

lemma creature_call_inv:
  "tile_inv its st \<Longrightarrow> tile_inv its (addThing_creature c st)" "tile_inv its st \<Longrightarrow> tile_inv its (removeThing_creature c st)"
  by (simp_all add: tile_inv_def tile_shape_def stack_def ground_list_def addThing_creature_def removeThing_creature_def)

lemma tile_call_inv: "tile_inv its st \<Longrightarrow> tile_call_ok its c st \<Longrightarrow> tile_inv its (do_call its c st)"
  by (cases c) (auto simp: item_ok_def intro: tile_addThing_inv internalAddThing_inv tile_removeThing_inv tile_updateThing_inv tile_replaceThing_inv creature_call_inv)

lemma tile_calls_inv: "tile_inv its st \<Longrightarrow> tile_calls_ok its cs st \<Longrightarrow> tile_inv its (tile_calls its cs st)"
  by (induction cs arbitrary: st) (auto intro: tile_call_inv)

lemma new_tile_inv: "tile_inv its \<lparr>tile_of = new_tile p, item_of = ob, released = rs\<rparr>"
  by (simp add: tile_inv_def tile_shape_def new_tile_def stack_def ground_list_def agree_flags_def solid_flags_def)

lemma hasFlag_bit: "hasFlag (2 ^ k) t \<longleftrightarrow> bit (tile_flags t) k"
  by (simp add: hasFlag_def hasBitSet_def and_exp_eq_0_iff_not_bit)

lemma tile_inv_flags:
  assumes "tile_inv its st"
  shows "hasFlag TILESTATE_BLOCKSOLID (tile_of st) = hasProperty its st PROP_BLOCKSOLID"
    "hasFlag TILESTATE_BLOCKPATH (tile_of st) = hasProperty its st PROP_BLOCKPATH"
    "hasFlag TILESTATE_IMMOVABLEBLOCKSOLID (tile_of st) = hasProperty its st PROP_IMMOVABLEBLOCKSOLID"
    "hasFlag TILESTATE_IMMOVABLENOFIELDBLOCKPATH (tile_of st) = hasProperty its st PROP_IMMOVABLENOFIELDBLOCKPATH"
    "hasFlag TILESTATE_NOFIELDBLOCKPATH (tile_of st) = hasProperty its st PROP_NOFIELDBLOCKPATH"
proof -
  have "hasProperty its st p \<longleftrightarrow> (\<exists>i \<in> set (stack (tile_of st)). item_hasProperty its (item_of st i) p)" for p
    by (auto simp: hasProperty_def list_ex_iff stack_def)
  then show "hasFlag TILESTATE_BLOCKSOLID (tile_of st) = hasProperty its st PROP_BLOCKSOLID"
    "hasFlag TILESTATE_BLOCKPATH (tile_of st) = hasProperty its st PROP_BLOCKPATH"
    "hasFlag TILESTATE_IMMOVABLEBLOCKSOLID (tile_of st) = hasProperty its st PROP_IMMOVABLEBLOCKSOLID"
    "hasFlag TILESTATE_IMMOVABLENOFIELDBLOCKPATH (tile_of st) = hasProperty its st PROP_IMMOVABLENOFIELDBLOCKPATH"
    "hasFlag TILESTATE_NOFIELDBLOCKPATH (tile_of st) = hasProperty its st PROP_NOFIELDBLOCKPATH"
    using assms unfolding tilestate_defs hasFlag_bit by (simp_all add: tile_inv_def agree_flags_def solid_flags_def del: item_hasProperty.simps)
qed

lemma creatures_kept:
  "tile_creatures (tile_of (addThing its i st)) = tile_creatures (tile_of st)" "tile_creatures (tile_of (internalAddThing its i st)) = tile_creatures (tile_of st)"
  "tile_creatures (tile_of (removeThing its i n st)) = tile_creatures (tile_of st)" "tile_creatures (tile_of (updateThing its i d n st)) = tile_creatures (tile_of st)"
  "tile_creatures (tile_of (replaceThing its k i st)) = tile_creatures (tile_of st)"
proof -
  have r: "tile_creatures (tile_of (removeThing its i n st)) = tile_creatures (tile_of st)" for i n st by (simp add: removeThing_def split: option.split)
  then have d: "tile_creatures (tile_of (drop_item its i st)) = tile_creatures (tile_of st)" for i st by (simp add: drop_item_def)
  show "tile_creatures (tile_of (addThing its i st)) = tile_creatures (tile_of st)"
    by (simp add: addThing_def Let_def insert_top_def insert_down_def d split: option.split)
  show "tile_creatures (tile_of (removeThing its i n st)) = tile_creatures (tile_of st)" by (rule r)
  show "tile_creatures (tile_of (internalAddThing its i st)) = tile_creatures (tile_of st)" by (simp add: internalAddThing_def Let_def insert_top_def insert_down_def)
  show "tile_creatures (tile_of (updateThing its i d n st)) = tile_creatures (tile_of st)" by (simp add: updateThing_def Let_def)
  show "tile_creatures (tile_of (replaceThing its k i st)) = tile_creatures (tile_of st)"
    by (simp add: replaceThing_def replace_in_vector_def Let_def split: option.split)
qed

lemma creatures_distinct: "distinct (tile_creatures (tile_of st)) \<Longrightarrow> tile_calls_ok its cs st \<Longrightarrow> distinct (tile_creatures (tile_of (tile_calls its cs st)))"
proof (induction cs arbitrary: st)
  case (Cons c cs)
  have "distinct (tile_creatures (tile_of (do_call its c st)))"
    using Cons.prems by (cases c) (auto simp: creatures_kept addThing_creature_def removeThing_creature_def)
  then show ?case using Cons by simp
qed simp

lemma tile_calls_pos: "tilePos (tile_of (tile_calls its cs st)) = tilePos (tile_of st)"
proof (induction cs arbitrary: st)
  case (Cons c cs)
  have d: "tilePos (tile_of (drop_item its i s)) = tilePos (tile_of s)" for i s by (simp add: drop_item_def removeThing_fields)
  have "tilePos (tile_of (do_call its c st)) = tilePos (tile_of st)"
    by (cases c) (simp_all add: addThing_def internalAddThing_def updateThing_def replaceThing_def replace_in_vector_def removeThing_fields
        addThing_creature_def removeThing_creature_def Let_def insert_top_def insert_down_def d split: option.split)
  then show ?case using Cons by simp
qed simp

lemma things_distinct: "tile_inv its st \<Longrightarrow> distinct (tile_creatures (tile_of st)) \<Longrightarrow> distinct (things (tile_of st))"
proof -
  assume inv: "tile_inv its st" and d: "distinct (tile_creatures (tile_of st))"
  obtain ds us where sh: "tile_shape its (item_of st) (tile_of st) ds us" using inv by (rule tile_invE)
  note P = shape_parts[OF sh]
  have "distinct (ground_list (tile_of st) @ ds @ us)" using sh P(5) by (simp add: tile_shape_def)
  then show ?thesis using d P by (auto simp: things_def distinct_map inj_on_def)
qed

lemma find_at_nth: "distinct xs \<Longrightarrow> n < length xs \<Longrightarrow> find_at (xs ! n) xs = Some n"
proof (induction xs arbitrary: n)
  case (Cons y ys)
  then show ?case by (cases n) auto
qed simp

text \<open>C8: After any history of calls on a new tile, the five solid flags say exactly whether an item on the tile
  has the property, every item on the tile has the tile as its parent, and the items on top are in order.\<close>

theorem tile_history_flags:
  assumes "tile_calls_ok its cs \<lparr>tile_of = new_tile p, item_of = ob, released = []\<rparr>"
  defines "st \<equiv> tile_calls its cs \<lparr>tile_of = new_tile p, item_of = ob, released = []\<rparr>"
  shows "hasFlag TILESTATE_BLOCKSOLID (tile_of st) = hasProperty its st PROP_BLOCKSOLID \<and>
    hasFlag TILESTATE_BLOCKPATH (tile_of st) = hasProperty its st PROP_BLOCKPATH \<and>
    hasFlag TILESTATE_IMMOVABLEBLOCKSOLID (tile_of st) = hasProperty its st PROP_IMMOVABLEBLOCKSOLID \<and>
    hasFlag TILESTATE_IMMOVABLENOFIELDBLOCKPATH (tile_of st) = hasProperty its st PROP_IMMOVABLENOFIELDBLOCKPATH \<and>
    hasFlag TILESTATE_NOFIELDBLOCKPATH (tile_of st) = hasProperty its st PROP_NOFIELDBLOCKPATH \<and>
    list_all (\<lambda>i. ti_parent (item_of st i) = Some (tilePos (tile_of st))) (ground_list (tile_of st) @ item_vec (tile_of st)) \<and>
    sorted (map (\<lambda>i. tt_alwaysOnTopOrder (itype its st i)) (top_items (tile_of st)))"
proof -
  have inv: "tile_inv its st" unfolding st_def by (rule tile_calls_inv[OF new_tile_inv assms(1)])
  obtain ds us where sh: "tile_shape its (item_of st) (tile_of st) ds us" using inv by (rule tile_invE)
  have "list_all (\<lambda>i. ti_parent (item_of st i) = Some (tilePos (tile_of st))) (stack (tile_of st))" using inv by (simp add: tile_inv_def list_all_iff)
  moreover have "sorted (map (\<lambda>i. tt_alwaysOnTopOrder (itype its st i)) (top_items (tile_of st)))"
    using sh shape_parts(2)[OF sh] by (simp add: tile_shape_def itype_def)
  ultimately show ?thesis using tile_inv_flags[OF inv] by (simp add: stack_def)
qed

text \<open>C11: After any history of calls, the index that \<open>getThingIndex\<close> gives a thing is the one at which \<open>getThing\<close>
  finds it, and every index is found again.\<close>

theorem tile_index_roundtrip:
  assumes "tile_calls_ok its cs \<lparr>tile_of = new_tile p, item_of = ob, released = []\<rparr>"
  defines "st \<equiv> tile_calls its cs \<lparr>tile_of = new_tile p, item_of = ob, released = []\<rparr>"
  shows "getThing n (tile_of st) = Some th \<longleftrightarrow> getThingIndex its th st = int n"
proof -
  have inv: "tile_inv its st" unfolding st_def by (rule tile_calls_inv[OF new_tile_inv assms(1)])
  have "distinct (tile_creatures (tile_of st))" unfolding st_def by (rule creatures_distinct[OF _ assms(1)]) (simp add: new_tile_def)
  then have d: "distinct (things (tile_of st))" by (rule things_distinct[OF inv])
  have "find_at th (things (tile_of st)) = Some n \<longleftrightarrow> n < length (things (tile_of st)) \<and> things (tile_of st) ! n = th"
    using find_at_nth[OF d, of n] find_at_Some[of th "things (tile_of st)" n] by blast
  moreover have "getThing n (tile_of st) = Some th \<longleftrightarrow> n < length (things (tile_of st)) \<and> things (tile_of st) ! n = th"
    by (simp add: getThing_nth[OF inv])
  moreover have "getThingIndex its th st = int n \<longleftrightarrow> find_at th (things (tile_of st)) = Some n"
    by (simp add: getThingIndex_find[OF inv] split: option.split)
  ultimately show ?thesis by blast
qed


definition example_types :: tile_types where
  "example_types n = \<lparr>tt_ground = (n = 1), tt_alwaysOnTop = (n = 2), tt_alwaysOnTopOrder = 1, tt_splash = False, tt_magicField = False,
     tt_floorChange = 0, tt_blockSolid = (n = 3), tt_moveable = (n = 4), tt_hasHeight = False, tt_blockProjectile = False, tt_blockPathFind = (n = 3),
     tt_isVertical = False, tt_isHorizontal = False, tt_stackable = (n = 4), tt_fluid = False, tt_charges = False, tt_allowPickupable = False, tt_pickupable = (n = 4),
     tt_bed = False, tt_lookThrough = False, tt_isHangable = False, tt_replaceable = True\<rparr>"

definition example_item :: "nat \<Rightarrow> tile_item" where
  "example_item i = \<lparr>ti_id = of_nat i, ti_count = 1, ti_uniqueId = False, ti_storeItem = False, ti_teleport = False, ti_magicField = False,
     ti_mailbox = False, ti_trashHolder = False, ti_bed = False, ti_depotLocker = False, ti_parent = None\<rparr>"

abbreviation example_calls :: "tile_call list" where
  "example_calls \<equiv> [Call_addThing 1, Call_addThing 3, Call_addCreature 7, Call_addThing 4, Call_internalAddThing 2, Call_removeThing 3 1]"

lemma example_calls_ok: "tile_calls_ok example_types example_calls \<lparr>tile_of = new_tile (Position 1 2 3), item_of = example_item, released = []\<rparr>"
  by (simp add: addThing_def Let_def itype_def example_types_def example_item_def stack_def ground_list_def new_tile_def item_ok_def insert_down_def
      addThing_creature_def set_ground_def set_items_def set_parent_def mark_flags_def)

theorem tile_history_flags_witness:
  "hasFlag TILESTATE_BLOCKSOLID (tile_of (tile_calls example_types example_calls \<lparr>tile_of = new_tile (Position 1 2 3), item_of = example_item, released = []\<rparr>)) =
   hasProperty example_types (tile_calls example_types example_calls \<lparr>tile_of = new_tile (Position 1 2 3), item_of = example_item, released = []\<rparr>) PROP_BLOCKSOLID"
  using tile_history_flags[OF example_calls_ok] by blast

theorem tile_index_roundtrip_witness:
  "getThing 0 (tile_of (tile_calls example_types example_calls \<lparr>tile_of = new_tile (Position 1 2 3), item_of = example_item, released = []\<rparr>)) = Some (TItem 1) \<longleftrightarrow>
   getThingIndex example_types (TItem 1) (tile_calls example_types example_calls \<lparr>tile_of = new_tile (Position 1 2 3), item_of = example_item, released = []\<rparr>) = int 0"
  using tile_index_roundtrip[OF example_calls_ok] by blast

end
