(* ===== verification/Tile_Queries.thy ===== *)
theory Tile_Queries
  imports Tile_Stack
begin

text \<open>
  What the game asks a tile (\<open>src/src/tile.cpp\<close>): the getters of its creatures and items, the positions a client
  counts, and the queries of the cylinder interface that decide whether a creature may enter or an item may be
  put down. What the queries ask of a creature is a record of answers; the item table gives a magic field its
  damage and its combat type.
\<close>

section \<open>Getters\<close>

record tile_creature =
  tq_player :: bool
  tq_monster :: bool
  tq_pushable :: bool
  tq_playerSummon :: bool
  tq_ghost :: bool
  tq_invisible :: bool

text \<open>An item of a class: the ground first, then the items from the end.\<close>

definition last_item :: "(tile_item \<Rightarrow> bool) \<Rightarrow> tile_state \<Rightarrow> nat option" where
  "last_item P st = find (\<lambda>i. P (item_of st i)) (rev (item_vec (tile_of st)))"

definition special_item :: "u32 \<Rightarrow> (tile_item \<Rightarrow> bool) \<Rightarrow> tile_state \<Rightarrow> nat option" where
  "special_item flag P st =
     (if \<not> hasFlag flag (tile_of st) then None
      else case ground (tile_of st) of
        Some g \<Rightarrow> if P (item_of st g) then Some g else last_item P st
      | None \<Rightarrow> last_item P st)"

definition getTeleportItem :: "tile_state \<Rightarrow> nat option" where
  "getTeleportItem st = (if \<not> hasFlag TILESTATE_TELEPORT (tile_of st) then None else last_item ti_teleport st)"

definition getFieldItem :: "tile_state \<Rightarrow> nat option" where
  "getFieldItem = special_item TILESTATE_MAGICFIELD ti_magicField"

definition getTrashHolder :: "tile_state \<Rightarrow> nat option" where
  "getTrashHolder = special_item TILESTATE_TRASHHOLDER ti_trashHolder"

definition getMailbox :: "tile_state \<Rightarrow> nat option" where
  "getMailbox = special_item TILESTATE_MAILBOX ti_mailbox"

definition getBedItem :: "tile_state \<Rightarrow> nat option" where
  "getBedItem = special_item TILESTATE_BED ti_bed"

definition getTopCreature :: "tile \<Rightarrow> u32 option" where
  "getTopCreature t = (case tile_creatures t of [] \<Rightarrow> None | c # cs \<Rightarrow> Some c)"

definition getBottomCreature :: "tile \<Rightarrow> u32 option" where
  "getBottomCreature t = (case rev (tile_creatures t) of [] \<Rightarrow> None | c # cs \<Rightarrow> Some c)"

text \<open>The viewer: nobody, a player with full access, or a creature with what it can see.\<close>

datatype viewer = Nobody | AccessPlayer | Viewer "u32 \<Rightarrow> bool"

definition openly_visible :: "tile_creature \<Rightarrow> bool" where
  "openly_visible c \<longleftrightarrow> \<not> tq_invisible c \<and> (\<not> tq_player c \<or> \<not> tq_ghost c)"

definition getTopVisibleCreature :: "(u32 \<Rightarrow> tile_creature) \<Rightarrow> viewer \<Rightarrow> tile \<Rightarrow> u32 option" where
  "getTopVisibleCreature cr v t =
     (case v of
        Nobody \<Rightarrow> find (\<lambda>c. openly_visible (cr c)) (tile_creatures t)
      | AccessPlayer \<Rightarrow> getTopCreature t
      | Viewer see \<Rightarrow> find see (tile_creatures t))"

definition getBottomVisibleCreature :: "(u32 \<Rightarrow> tile_creature) \<Rightarrow> viewer \<Rightarrow> tile \<Rightarrow> u32 option" where
  "getBottomVisibleCreature cr v t =
     (case v of
        Nobody \<Rightarrow> find (\<lambda>c. openly_visible (cr c)) (rev (tile_creatures t))
      | AccessPlayer \<Rightarrow> getBottomCreature t
      | Viewer see \<Rightarrow> find see (rev (tile_creatures t)))"

definition getTopDownItem :: "tile \<Rightarrow> nat option" where
  "getTopDownItem t = (if downItemCount t = 0 then None else Some (item_vec t ! 0))"

definition getTopTopItem :: "tile \<Rightarrow> nat option" where
  "getTopTopItem t = (if top_items t = [] then None else Some (last (item_vec t)))"

definition getItemByTopOrder :: "tile_types \<Rightarrow> int \<Rightarrow> tile_state \<Rightarrow> nat option" where
  "getItemByTopOrder its topOrder st = find (\<lambda>i. uint (tt_alwaysOnTopOrder (itype its st i)) = topOrder) (rev (top_items (tile_of st)))"

definition getTopVisibleThing :: "tile_types \<Rightarrow> (u32 \<Rightarrow> tile_creature) \<Rightarrow> viewer \<Rightarrow> tile_state \<Rightarrow> thing option" where
  "getTopVisibleThing its cr v st =
     (case getTopVisibleCreature cr v (tile_of st) of
        Some c \<Rightarrow> Some (TCreature c)
      | None \<Rightarrow>
          (case find (\<lambda>i. \<not> tt_lookThrough (itype its st i)) (down_items (tile_of st)) of
             Some i \<Rightarrow> Some (TItem i)
           | None \<Rightarrow>
               (case find (\<lambda>i. \<not> tt_lookThrough (itype its st i)) (rev (top_items (tile_of st))) of
                  Some i \<Rightarrow> Some (TItem i)
                | None \<Rightarrow> map_option TItem (ground (tile_of st)))))"

definition getThingCount :: "tile \<Rightarrow> nat" where
  "getThingCount t = length (tile_creatures t) + length (item_vec t) + (if ground t = None then 0 else 1)"

definition tile_isMoveableBlocking :: "tile \<Rightarrow> bool" where
  "tile_isMoveableBlocking t \<longleftrightarrow> ground t = None \<or> hasFlag TILESTATE_BLOCKSOLID t"

definition getUseItem :: "nat \<Rightarrow> tile \<Rightarrow> nat option" where
  "getUseItem index t =
     (if item_vec t = [] then ground t
      else case getThing index t of Some (TItem i) \<Rightarrow> Some i | _ \<Rightarrow> None)"

section \<open>Positions that the client counts\<close>

definition first_slot :: "tile \<Rightarrow> int" where
  "first_slot t = (if ground t = None then 0 else 1)"

fun client_index :: "(u32 \<Rightarrow> bool) \<Rightarrow> u32 \<Rightarrow> int \<Rightarrow> u32 list \<Rightarrow> int" where
  "client_index see c n [] = - 1"
| "client_index see c n (d # ds) = (if d = c then n else client_index see c (if see d then n + 1 else n) ds)"

definition getClientIndexOfCreature :: "(u32 \<Rightarrow> bool) \<Rightarrow> u32 \<Rightarrow> tile \<Rightarrow> int" where
  "getClientIndexOfCreature see c t = client_index see c (first_slot t + int (length (top_items t))) (rev (tile_creatures t))"

fun creature_stackpos :: "(u32 \<Rightarrow> bool) \<Rightarrow> u32 \<Rightarrow> int \<Rightarrow> u32 list \<Rightarrow> int" where
  "creature_stackpos see c n [] = - 1"
| "creature_stackpos see c n (d # ds) =
     (if d = c then n
      else if see d then if n + 1 \<ge> 10 then - 1 else creature_stackpos see c (n + 1) ds
      else creature_stackpos see c n ds)"

text \<open>The bound on the items on top is checked only when the tile has a vector of items; \<open>n\<close> is at most one when
  it has none.\<close>

definition getStackposOfCreature :: "(u32 \<Rightarrow> bool) \<Rightarrow> u32 \<Rightarrow> tile \<Rightarrow> int" where
  "getStackposOfCreature see c t =
     (let n = first_slot t + int (length (top_items t)) in
      if n \<ge> 10 then - 1 else creature_stackpos see c n (rev (tile_creatures t)))"

text \<open>A scan that returns a position, or the count reached.\<close>

fun scan_top :: "nat \<Rightarrow> int \<Rightarrow> nat list \<Rightarrow> int + int" where
  "scan_top i n [] = Inr n"
| "scan_top i n (x # xs) = (if x = i then Inl n else if n + 1 = 10 then Inl (- 1) else scan_top i (n + 1) xs)"

fun scan_creatures :: "(u32 \<Rightarrow> bool) \<Rightarrow> int \<Rightarrow> u32 list \<Rightarrow> int option" where
  "scan_creatures see n [] = Some n"
| "scan_creatures see n (c # cs) = (if see c then if n + 1 \<ge> 10 then None else scan_creatures see (n + 1) cs else scan_creatures see n cs)"

fun scan_down :: "nat \<Rightarrow> int \<Rightarrow> nat list \<Rightarrow> int" where
  "scan_down i n [] = - 1"
| "scan_down i n (x # xs) = (if x = i then n else if n + 1 \<ge> 10 then - 1 else scan_down i (n + 1) xs)"

definition getStackposOfItem :: "tile_types \<Rightarrow> (u32 \<Rightarrow> bool) \<Rightarrow> nat \<Rightarrow> tile_state \<Rightarrow> int" where
  "getStackposOfItem its see i st =
     (let t = tile_of st; onTop = tt_alwaysOnTop (itype its st i) in
      if ground t = Some i then 0
      else case (if onTop then scan_top i (first_slot t) (top_items t)
                 else let n = first_slot t + int (length (top_items t)) in if n \<ge> 10 then Inl (- 1) else Inr n) of
        Inl r \<Rightarrow> r
      | Inr n \<Rightarrow>
          (case scan_creatures see n (tile_creatures t) of
             None \<Rightarrow> - 1
           | Some n \<Rightarrow> if onTop then - 1 else scan_down i n (down_items t)))"

text \<open>What a client shows of the tile, from the bottom.\<close>

definition client_things :: "(u32 \<Rightarrow> bool) \<Rightarrow> tile \<Rightarrow> thing list" where
  "client_things see t = map TItem (ground_list t) @ map TItem (top_items t) @ map TCreature (filter see (rev (tile_creatures t))) @ map TItem (down_items t)"

definition client_pos :: "nat option \<Rightarrow> int" where
  "client_pos k = (case k of Some n \<Rightarrow> if n < 10 then int n else - 1 | None \<Rightarrow> - 1)"

lemma client_index_ge: "n \<ge> 0 \<Longrightarrow> client_index see c n ds = - 1 \<or> client_index see c n ds \<ge> n"
  by (induction ds arbitrary: n) (auto, smt (verit, best))

lemma creature_stackpos_client: "0 \<le> n \<Longrightarrow> n < 10 \<Longrightarrow> creature_stackpos see c n ds = (if client_index see c n ds < 10 then client_index see c n ds else - 1)"
proof (induction ds arbitrary: n)
  case (Cons d ds)
  show ?case using Cons client_index_ge[of "n + 1" see c ds] by (auto simp: not_less)
qed simp

lemma stackpos_is_client_index:
  "getStackposOfCreature see c t = (if getClientIndexOfCreature see c t < 10 then getClientIndexOfCreature see c t else - 1)"
  using client_index_ge[of "first_slot t + int (length (top_items t))" see c "rev (tile_creatures t)"]
  by (auto simp: getStackposOfCreature_def getClientIndexOfCreature_def Let_def first_slot_def creature_stackpos_client)

lemma client_index_find: "see c \<Longrightarrow> client_index see c n ds = (case find_at c (filter see ds) of Some k \<Rightarrow> n + int k | None \<Rightarrow> - 1)"
  by (induction ds arbitrary: n) (auto split: option.split)

lemma scan_top_find:
  "0 \<le> n \<Longrightarrow> n < 10 \<Longrightarrow> scan_top i n xs =
     (case find_at i xs of Some k \<Rightarrow> Inl (if n + int k < 10 then n + int k else - 1)
      | None \<Rightarrow> if n + int (length xs) < 10 then Inr (n + int (length xs)) else Inl (- 1))"
proof (induction xs arbitrary: n)
  case (Cons x xs)
  show ?case
  proof (cases "x \<noteq> i \<and> n + 1 < 10")
    case True
    then show ?thesis using Cons.IH[of "n + 1"] Cons.prems by (auto split: option.split)
  qed (use Cons.prems in \<open>auto split: option.split\<close>)
qed simp

lemma scan_creatures_count:
  "0 \<le> n \<Longrightarrow> n < 10 \<Longrightarrow> scan_creatures see n cs = (if n + int (length (filter see cs)) < 10 then Some (n + int (length (filter see cs))) else None)"
  by (induction cs arbitrary: n) auto

lemma scan_down_find:
  "0 \<le> n \<Longrightarrow> n < 10 \<Longrightarrow> scan_down i n xs = (case find_at i xs of Some k \<Rightarrow> if n + int k < 10 then n + int k else - 1 | None \<Rightarrow> - 1)"
proof (induction xs arbitrary: n)
  case (Cons x xs)
  show ?case
  proof (cases "x \<noteq> i \<and> n + 1 < 10")
    case True
    then show ?thesis using Cons.IH[of "n + 1"] Cons.prems by (auto split: option.split)
  qed (use Cons.prems in \<open>auto split: option.split\<close>)
qed simp

lemma first_slot_length: "first_slot t = int (length (ground_list t))"
  by (simp add: first_slot_def ground_list_def split: option.split)

lemma stackpos_creature_find:
  assumes "see c"
  shows "getStackposOfCreature see c t = client_pos (find_at (TCreature c) (client_things see t))"
proof -
  have "getClientIndexOfCreature see c t = (case find_at c (filter see (rev (tile_creatures t))) of Some k \<Rightarrow> first_slot t + int (length (top_items t)) + int k | None \<Rightarrow> - 1)"
    by (simp add: getClientIndexOfCreature_def client_index_find[of see c, OF assms])
  moreover have "find_at (TCreature c) (client_things see t) = map_option (\<lambda>k. length (ground_list t) + length (top_items t) + k) (find_at c (filter see (rev (tile_creatures t))))"
    by (cases "find_at c (filter see (rev (tile_creatures t)))") (simp_all add: client_things_def find_at_append things_find)
  ultimately show ?thesis by (auto simp: stackpos_is_client_index client_pos_def first_slot_length split: option.split)
qed

lemma stackpos_item_find:
  assumes "tile_inv its st"
  shows "getStackposOfItem its see i st = client_pos (find_at (TItem i) (client_things see (tile_of st)))"
proof -
  obtain ds us where sh: "tile_shape its (item_of st) (tile_of st) ds us" using assms by (rule tile_invE)
  note P = shape_parts[OF sh]
  let ?t = "tile_of st"
  define n where "n = first_slot ?t"
  have n: "0 \<le> n" "n < 10" "n = int (length (ground_list ?t))" by (simp_all add: n_def first_slot_length) (simp_all add: ground_list_def split: option.split)
  have fc: "length (filter see (rev (tile_creatures ?t))) = length (filter see (tile_creatures ?t))" by (simp add: rev_filter[symmetric])
  have cl: "find_at (TItem i) (client_things see ?t) =
      (if ground ?t = Some i then Some 0 else case find_at i us of Some k \<Rightarrow> Some (nat n + k)
       | None \<Rightarrow> map_option (\<lambda>k. nat n + length us + length (filter see (tile_creatures ?t)) + k) (find_at i ds))"
    using n by (cases "find_at i ds"; cases "find_at i us"; cases "ground ?t") (auto simp: client_things_def find_at_append things_find P fc ground_list_def)
  show ?thesis
  proof (cases "ground ?t = Some i")
    case True
    then show ?thesis by (simp add: getStackposOfItem_def cl client_pos_def Let_def)
  next
    case g: False
    show ?thesis
    proof (cases "tt_alwaysOnTop (itype its st i)")
      case True
      then have "find_at i ds = None" using sh by (intro find_at_None) (auto simp: tile_shape_def itype_def)
      then show ?thesis using True g scan_top_find[OF n(1,2), of i us] n
        by (auto simp: getStackposOfItem_def cl client_pos_def Let_def P(1,2) n_def[symmetric] nat_add_distrib split: option.split)
    next
      case False
      then have "find_at i us = None" using sh by (intro find_at_None) (auto simp: tile_shape_def itype_def)
      then show ?thesis using False g scan_creatures_count[of "n + int (length us)" see "tile_creatures ?t"]
        scan_down_find[of "n + int (length us) + int (length (filter see (tile_creatures ?t)))" i ds] n
        by (auto simp: getStackposOfItem_def cl client_pos_def Let_def P(1,2) n_def[symmetric] split: option.split)
    qed
  qed
qed

text \<open>C10: After any history of a tile, the stack position that is sent for an item, or for a creature the player
  sees, is its index in what the client shows of the tile, and \<open>-1\<close> when that index is not below ten.\<close>

theorem client_stackpos:
  assumes "tile_calls_ok its cs \<lparr>tile_of = new_tile p, item_of = ob, released = []\<rparr>" "see c"
  defines "st \<equiv> tile_calls its cs \<lparr>tile_of = new_tile p, item_of = ob, released = []\<rparr>"
  shows "getStackposOfItem its see i st = client_pos (find_at (TItem i) (client_things see (tile_of st))) \<and>
    getStackposOfCreature see c (tile_of st) = client_pos (find_at (TCreature c) (client_things see (tile_of st)))"
proof -
  have "tile_inv its st" unfolding st_def by (rule tile_calls_inv[OF new_tile_inv assms(1)])
  then show ?thesis by (intro conjI stackpos_item_find stackpos_creature_find[of see, OF assms(2)])
qed

theorem client_stackpos_witness:
  "getStackposOfCreature (\<lambda>c. c = 7) 7 (tile_of (tile_calls example_types example_calls \<lparr>tile_of = new_tile (Position 1 2 3), item_of = example_item, released = []\<rparr>)) =
   client_pos (find_at (TCreature 7) (client_things (\<lambda>c. c = 7) (tile_of (tile_calls example_types example_calls \<lparr>tile_of = new_tile (Position 1 2 3), item_of = example_item, released = []\<rparr>))))"
  using client_stackpos[OF example_calls_ok, of "\<lambda>c. c = 7" 7] by simp

section \<open>Queries\<close>

datatype mover_kind = Mover_monster | Mover_player | Mover_other

record mover =
  mv_kind :: mover_kind
  mv_canPushCreatures :: bool
  mv_isSummon :: bool
  mv_canPushItems :: bool
  mv_isImmune :: "u16 \<Rightarrow> bool"
  mv_canWalkOnFieldType :: "u16 \<Rightarrow> bool"
  mv_isIgnoringFieldDamage :: bool
  mv_isAccessPlayer :: bool
  mv_canWalkthrough :: "u32 \<Rightarrow> bool"
  mv_hasParent :: bool
  mv_tile_flags :: "u32 option"
  mv_isPzLocked :: bool

record tile_env =
  env_creature :: "u32 \<Rightarrow> tile_creature"
  env_fieldDamage :: "u16 \<Rightarrow> int"
  env_fieldCombat :: "u16 \<Rightarrow> u16"

text \<open>The creature a pushing monster cannot move aside.\<close>

definition not_pushable :: "tile_creature \<Rightarrow> bool" where
  "not_pushable c \<longleftrightarrow> \<not> (tq_player c \<and> tq_ghost c) \<and> (\<not> tq_monster c \<or> \<not> tq_pushable c \<or> tq_playerSummon c)"

definition queryAdd_field :: "tile_types \<Rightarrow> tile_env \<Rightarrow> mover \<Rightarrow> u32 \<Rightarrow> tile_state \<Rightarrow> ReturnValue" where
  "queryAdd_field its env m flags st =
     (case getFieldItem st of
        None \<Rightarrow> RETURNVALUE_NOERROR
      | Some f \<Rightarrow>
          (let fid = ti_id (item_of st f) in
           if tt_blockSolid (its fid) \<or> env_fieldDamage env fid = 0 then RETURNVALUE_NOERROR
           else let combatType = env_fieldCombat env fid in
             if \<not> mv_isImmune m combatType then
               if hasBitSet FLAG_IGNOREFIELDDAMAGE flags then
                 if \<not> (mv_canWalkOnFieldType m combatType \<or> mv_isIgnoringFieldDamage m) then RETURNVALUE_NOTPOSSIBLE
                 else RETURNVALUE_NOERROR
               else RETURNVALUE_NOTPOSSIBLE
             else RETURNVALUE_NOERROR))"

definition queryAdd_monster :: "tile_types \<Rightarrow> tile_env \<Rightarrow> mover \<Rightarrow> u32 \<Rightarrow> tile_state \<Rightarrow> ReturnValue" where
  "queryAdd_monster its env m flags st =
     (let t = tile_of st in
      if hasFlag (TILESTATE_PROTECTIONZONE OR TILESTATE_FLOORCHANGE OR TILESTATE_TELEPORT) t then RETURNVALUE_NOTPOSSIBLE
      else if mv_canPushCreatures m \<and> \<not> mv_isSummon m \<and> list_ex (\<lambda>c. not_pushable (env_creature env c)) (tile_creatures t) then RETURNVALUE_NOTPOSSIBLE
      else if \<not> (mv_canPushCreatures m \<and> \<not> mv_isSummon m) \<and> list_ex (\<lambda>c. \<not> tq_ghost (env_creature env c)) (tile_creatures t) then RETURNVALUE_NOTENOUGHROOM
      else if hasFlag TILESTATE_IMMOVABLEBLOCKSOLID t then RETURNVALUE_NOTPOSSIBLE
      else if hasBitSet FLAG_PATHFINDING flags \<and> hasFlag TILESTATE_IMMOVABLENOFIELDBLOCKPATH t then RETURNVALUE_NOTPOSSIBLE
      else if (hasFlag TILESTATE_BLOCKSOLID t \<or> hasBitSet FLAG_PATHFINDING flags \<and> hasFlag TILESTATE_NOFIELDBLOCKPATH t) \<and>
              \<not> (mv_canPushItems m \<or> hasBitSet FLAG_IGNOREBLOCKITEM flags) then RETURNVALUE_NOTPOSSIBLE
      else queryAdd_field its env m flags st)"

text \<open>A player who is locked out of protection zones: \<open>from\<close> are the flags of the tile he stands on.\<close>

definition queryAdd_zones :: "u32 \<Rightarrow> tile \<Rightarrow> ReturnValue" where
  "queryAdd_zones from t =
     (if \<not> hasBitSet TILESTATE_PVPZONE from \<and> hasFlag TILESTATE_PVPZONE t then RETURNVALUE_PLAYERISPZLOCKEDENTERPVPZONE
      else if hasBitSet TILESTATE_PVPZONE from \<and> \<not> hasFlag TILESTATE_PVPZONE t then RETURNVALUE_PLAYERISPZLOCKEDLEAVEPVPZONE
      else if \<not> hasBitSet TILESTATE_NOPVPZONE from \<and> hasFlag TILESTATE_NOPVPZONE t \<or>
              \<not> hasBitSet TILESTATE_PROTECTIONZONE from \<and> hasFlag TILESTATE_PROTECTIONZONE t then RETURNVALUE_PLAYERISPZLOCKED
      else RETURNVALUE_NOERROR)"

definition queryAdd_player :: "mover \<Rightarrow> u32 \<Rightarrow> tile \<Rightarrow> ReturnValue" where
  "queryAdd_player m flags t =
     (if \<not> hasBitSet FLAG_IGNOREBLOCKCREATURE flags \<and> \<not> mv_isAccessPlayer m \<and> list_ex (\<lambda>c. \<not> mv_canWalkthrough m c) (tile_creatures t) then RETURNVALUE_NOTPOSSIBLE
      else if \<not> mv_hasParent m \<and> hasFlag TILESTATE_NOLOGOUT t then RETURNVALUE_NOTPOSSIBLE
      else case mv_tile_flags m of
        Some from \<Rightarrow> if mv_isPzLocked m then queryAdd_zones from t else RETURNVALUE_NOERROR
      | None \<Rightarrow> RETURNVALUE_NOERROR)"

definition solid_fixed :: "tile_types \<Rightarrow> tile_item \<Rightarrow> bool" where
  "solid_fixed its i \<longleftrightarrow> tt_blockSolid (its (ti_id i)) \<and> (\<not> tt_moveable (its (ti_id i)) \<or> ti_uniqueId i)"

definition queryAdd_blocked :: "tile_types \<Rightarrow> u32 \<Rightarrow> tile_state \<Rightarrow> ReturnValue" where
  "queryAdd_blocked its flags st =
     (if \<not> hasBitSet FLAG_IGNOREBLOCKITEM flags then
        if hasFlag TILESTATE_BLOCKSOLID (tile_of st) then RETURNVALUE_NOTENOUGHROOM else RETURNVALUE_NOERROR
      else if list_ex (\<lambda>i. solid_fixed its (item_of st i)) (ground_list (tile_of st) @ item_vec (tile_of st)) then RETURNVALUE_NOTPOSSIBLE
      else RETURNVALUE_NOERROR)"

definition queryAdd_creature :: "tile_types \<Rightarrow> tile_env \<Rightarrow> mover \<Rightarrow> u32 \<Rightarrow> tile_state \<Rightarrow> ReturnValue" where
  "queryAdd_creature its env m flags st =
     (let t = tile_of st in
      if hasBitSet FLAG_NOLIMIT flags then RETURNVALUE_NOERROR
      else if hasBitSet FLAG_PATHFINDING flags \<and> hasFlag (TILESTATE_FLOORCHANGE OR TILESTATE_TELEPORT) t then RETURNVALUE_NOTPOSSIBLE
      else if ground t = None then RETURNVALUE_NOTPOSSIBLE
      else case mv_kind m of
        Mover_monster \<Rightarrow> queryAdd_monster its env m flags st
      | Mover_player \<Rightarrow>
          (let r = queryAdd_player m flags t in if r \<noteq> RETURNVALUE_NOERROR then r else queryAdd_blocked its flags st)
      | Mover_other \<Rightarrow>
          if \<not> hasBitSet FLAG_IGNOREBLOCKCREATURE flags \<and> list_ex (\<lambda>c. \<not> tq_ghost (env_creature env c)) (tile_creatures t) then RETURNVALUE_NOTENOUGHROOM
          else queryAdd_blocked its flags st)"

text \<open>Whether an item of the tile leaves no room for the new one.\<close>

definition no_room :: "tile_item_type \<Rightarrow> tile_item_type \<Rightarrow> bool" where
  "no_room old new \<longleftrightarrow> tt_blockSolid old \<and> \<not> (tt_allowPickupable old \<and> \<not> tt_magicField new \<and> \<not> tt_blockSolid new) \<and>
     (\<not> tt_pickupable new \<or> \<not> tt_hasHeight old \<or> tt_pickupable old \<or> tt_bed old)"

definition queryAdd_item :: "tile_types \<Rightarrow> tile_env \<Rightarrow> nat \<Rightarrow> u32 \<Rightarrow> tile_state \<Rightarrow> ReturnValue" where
  "queryAdd_item its env i flags st =
     (let t = tile_of st; ty = itype its st i in
      if length (item_vec t) \<ge> 0xFFFF then RETURNVALUE_NOTPOSSIBLE
      else if hasBitSet FLAG_NOLIMIT flags then RETURNVALUE_NOERROR
      else if ti_storeItem (item_of st i) then RETURNVALUE_ITEMCANNOTBEMOVEDTHERE
      else if ground t = None \<and> \<not> tt_isHangable ty then RETURNVALUE_NOTPOSSIBLE
      else if tt_blockSolid ty \<and> \<not> hasBitSet FLAG_IGNOREBLOCKCREATURE flags \<and> list_ex (\<lambda>c. \<not> tq_ghost (env_creature env c)) (tile_creatures t) then RETURNVALUE_NOTENOUGHROOM
      else if tt_isHangable ty \<and> hasFlag TILESTATE_SUPPORTS_HANGABLE t then
        if list_ex (\<lambda>j. tt_isHangable (itype its st j)) (item_vec t) then RETURNVALUE_NEEDEXCHANGE else RETURNVALUE_NOERROR
      else if list_ex (\<lambda>j. no_room (itype its st j) ty) (ground_list t @ item_vec t) then RETURNVALUE_NOTENOUGHROOM
      else RETURNVALUE_NOERROR)"

definition tile_queryMaxCount :: "u32 \<Rightarrow> ReturnValue \<times> u32" where
  "tile_queryMaxCount count = (RETURNVALUE_NOERROR, max 1 count)"

definition tile_queryRemove :: "tile_types \<Rightarrow> thing \<Rightarrow> u32 \<Rightarrow> u32 \<Rightarrow> tile_state \<Rightarrow> ReturnValue" where
  "tile_queryRemove its th count flags st =
     (if getThingIndex its th st = - 1 then RETURNVALUE_NOTPOSSIBLE
      else case th of
        TCreature c \<Rightarrow> RETURNVALUE_NOTPOSSIBLE
      | TItem i \<Rightarrow>
          if count = 0 \<or> tt_stackable (itype its st i) \<and> count > ucast (ti_count (item_of st i)) then RETURNVALUE_NOTPOSSIBLE
          else if \<not> tt_moveable (itype its st i) \<and> \<not> hasBitSet FLAG_IGNORENOTMOVEABLE flags then RETURNVALUE_NOTMOVEABLE
          else RETURNVALUE_NOERROR)"

text \<open>Stairs and holes: where something that is put on this tile goes. The coordinates wrap as the code's do.\<close>

definition shift_if :: "u32 \<Rightarrow> tile \<Rightarrow> 'a::len word \<Rightarrow> 'a word \<Rightarrow> 'a word" where
  "shift_if flag t d x = (if hasFlag flag t then x + d else x)"

definition queryDestination :: "tile world_map \<Rightarrow> tile \<Rightarrow> u32 \<Rightarrow> tile \<times> nat option \<times> u32" where
  "queryDestination w t flags =
     (let x = pos_x (tilePos t); y = pos_y (tilePos t); z = pos_z (tilePos t);
          dest =
            (if hasFlag TILESTATE_FLOORCHANGE_DOWN t then
               (let dz = z + 1 in
                if (case getTile x (y - 1) dz w of Some d \<Rightarrow> hasFlag TILESTATE_FLOORCHANGE_SOUTH_ALT d | None \<Rightarrow> False) then getTile x (y - 2) dz w
                else if (case getTile (x - 1) y dz w of Some d \<Rightarrow> hasFlag TILESTATE_FLOORCHANGE_EAST_ALT d | None \<Rightarrow> False) then getTile (x - 2) y dz w
                else case getTile x y dz w of
                  None \<Rightarrow> None
                | Some d \<Rightarrow>
                    getTile (shift_if TILESTATE_FLOORCHANGE_WEST d 1 (shift_if TILESTATE_FLOORCHANGE_EAST_ALT d (- 2) (shift_if TILESTATE_FLOORCHANGE_EAST d (- 1) x)))
                      (shift_if TILESTATE_FLOORCHANGE_SOUTH_ALT d (- 2) (shift_if TILESTATE_FLOORCHANGE_SOUTH d (- 1) (shift_if TILESTATE_FLOORCHANGE_NORTH d 1 y))) dz w)
             else if hasFlag TILESTATE_FLOORCHANGE t then
               getTile (shift_if TILESTATE_FLOORCHANGE_EAST_ALT t 2 (shift_if TILESTATE_FLOORCHANGE_WEST t (- 1) (shift_if TILESTATE_FLOORCHANGE_EAST t 1 x)))
                 (shift_if TILESTATE_FLOORCHANGE_SOUTH_ALT t 2 (shift_if TILESTATE_FLOORCHANGE_SOUTH t 1 (shift_if TILESTATE_FLOORCHANGE_NORTH t (- 1) y))) (z - 1) w
             else None)
      in case dest of
           None \<Rightarrow> (t, getTopDownItem t, flags)
         | Some d \<Rightarrow> (d, getTopDownItem d, flags OR FLAG_NOLIMIT))"

section \<open>What the queries promise\<close>

lemma hasBitSet_zero [simp]: "\<not> hasBitSet f 0"
  by (simp add: hasBitSet_def)

text \<open>What a lock out of protection zones lets a player do: stay in or out of the zones for fights, and enter no other
  protected zone than he is in. \<open>from\<close> are the flags of the tile he stands on.\<close>

definition zones_kept :: "u32 \<Rightarrow> tile \<Rightarrow> bool" where
  "zones_kept from t \<longleftrightarrow>
     (hasBitSet TILESTATE_PVPZONE from \<longleftrightarrow> hasFlag TILESTATE_PVPZONE t) \<and>
     (hasFlag TILESTATE_NOPVPZONE t \<longrightarrow> hasBitSet TILESTATE_NOPVPZONE from) \<and>
     (hasFlag TILESTATE_PROTECTIONZONE t \<longrightarrow> hasBitSet TILESTATE_PROTECTIONZONE from)"

lemma queryAdd_zones_ok: "queryAdd_zones from t = RETURNVALUE_NOERROR \<longleftrightarrow> zones_kept from t"
  by (auto simp: queryAdd_zones_def zones_kept_def)

lemma queryAdd_player_ok:
  "queryAdd_player m flags t = RETURNVALUE_NOERROR \<longleftrightarrow>
     (hasBitSet FLAG_IGNOREBLOCKCREATURE flags \<or> mv_isAccessPlayer m \<or> list_all (mv_canWalkthrough m) (tile_creatures t)) \<and>
     (mv_hasParent m \<or> \<not> hasFlag TILESTATE_NOLOGOUT t) \<and>
     (\<forall>from. mv_isPzLocked m \<and> mv_tile_flags m = Some from \<longrightarrow> zones_kept from t)"
proof -
  have "list_ex (\<lambda>c. \<not> mv_canWalkthrough m c) cs \<longleftrightarrow> \<not> list_all (mv_canWalkthrough m) cs" for cs by (simp add: list_ex_iff list_all_iff)
  then show ?thesis by (auto simp: queryAdd_player_def queryAdd_zones_ok split: option.split)
qed

text \<open>C11: After any history of a tile, the query lets a player enter it, for any flags of the query, exactly when limits
  are ignored, or all of this holds: a path search is not led to a staircase or teleport; the tile has ground; every
  creature there can be walked through, unless creatures are ignored or he has full access; a player who logs in is not
  put on a tile without logout; a player locked out of protection zones does not change zones in a forbidden way; and no
  item on the tile is solid or, when movable obstacles are ignored, none is solid and fixed.\<close>

theorem player_may_enter:
  assumes "tile_calls_ok its cs \<lparr>tile_of = new_tile p, item_of = ob, released = []\<rparr>" "mv_kind m = Mover_player"
  defines "st \<equiv> tile_calls its cs \<lparr>tile_of = new_tile p, item_of = ob, released = []\<rparr>"
  shows "queryAdd_creature its env m flags st = RETURNVALUE_NOERROR \<longleftrightarrow>
    hasBitSet FLAG_NOLIMIT flags \<or>
    \<not> (hasBitSet FLAG_PATHFINDING flags \<and> hasFlag (TILESTATE_FLOORCHANGE OR TILESTATE_TELEPORT) (tile_of st)) \<and>
    ground (tile_of st) \<noteq> None \<and>
    (hasBitSet FLAG_IGNOREBLOCKCREATURE flags \<or> mv_isAccessPlayer m \<or> list_all (mv_canWalkthrough m) (tile_creatures (tile_of st))) \<and>
    (mv_hasParent m \<or> \<not> hasFlag TILESTATE_NOLOGOUT (tile_of st)) \<and>
    (\<forall>from. mv_isPzLocked m \<and> mv_tile_flags m = Some from \<longrightarrow> zones_kept from (tile_of st)) \<and>
    (if hasBitSet FLAG_IGNOREBLOCKITEM flags
     then list_all (\<lambda>i. \<not> solid_fixed its (item_of st i)) (stack (tile_of st))
     else \<not> hasProperty its st PROP_BLOCKSOLID)"
proof -
  have inv: "tile_inv its st" unfolding st_def by (rule tile_calls_inv[OF new_tile_inv assms(1)])
  have "queryAdd_blocked its flags st = RETURNVALUE_NOERROR \<longleftrightarrow>
      (if hasBitSet FLAG_IGNOREBLOCKITEM flags then list_all (\<lambda>i. \<not> solid_fixed its (item_of st i)) (stack (tile_of st))
       else \<not> hasProperty its st PROP_BLOCKSOLID)"
    using tile_inv_flags(1)[OF inv] by (auto simp: queryAdd_blocked_def stack_def list_ex_iff list_all_iff)
  then show ?thesis using assms(2) queryAdd_player_ok[of m flags "tile_of st"]
    by (simp add: queryAdd_creature_def Let_def) blast
qed

definition example_env :: tile_env where
  "example_env = \<lparr>env_creature = (\<lambda>_. \<lparr>tq_player = True, tq_monster = False, tq_pushable = False, tq_playerSummon = False, tq_ghost = False, tq_invisible = False\<rparr>),
     env_fieldDamage = (\<lambda>_. 0), env_fieldCombat = (\<lambda>_. 0)\<rparr>"

definition example_mover :: "u32 option \<Rightarrow> mover" where
  "example_mover from = \<lparr>mv_kind = Mover_player, mv_canPushCreatures = False, mv_isSummon = False, mv_canPushItems = False,
      mv_isImmune = (\<lambda>_. False), mv_canWalkOnFieldType = (\<lambda>_. False), mv_isIgnoringFieldDamage = False, mv_isAccessPlayer = False,
      mv_canWalkthrough = (\<lambda>_. False), mv_hasParent = True, mv_tile_flags = from, mv_isPzLocked = True\<rparr>"

theorem player_may_enter_witness:
  "let st = tile_calls example_types [Call_addThing 1] \<lparr>tile_of = new_tile (Position 1 2 3), item_of = example_item, released = []\<rparr> in
   queryAdd_creature example_types example_env (example_mover (Some 0)) 0 st = RETURNVALUE_NOERROR \<and>
   queryAdd_creature example_types example_env (example_mover (Some TILESTATE_PVPZONE)) 0 st \<noteq> RETURNVALUE_NOERROR"
proof -
  let ?st = "tile_calls example_types [Call_addThing 1] \<lparr>tile_of = new_tile (Position 1 2 3), item_of = example_item, released = []\<rparr>"
  have ok: "tile_calls_ok example_types [Call_addThing 1] \<lparr>tile_of = new_tile (Position 1 2 3), item_of = example_item, released = []\<rparr>"
    by (simp add: addThing_def Let_def itype_def example_types_def example_item_def stack_def ground_list_def new_tile_def item_ok_def)
  have kind: "mv_kind (example_mover fl) = Mover_player" for fl by (simp add: example_mover_def)
  note enter = player_may_enter[OF ok kind, of example_env]
  note defs = addThing_def Let_def itype_def example_types_def example_item_def ground_list_def new_tile_def set_ground_def set_parent_def mark_flags_def
  have flags: "tile_flags (tile_of ?st) = 0" by (simp add: defs setTileFlags_def flag_if_def)
  have f: "ground (tile_of ?st) \<noteq> None" "tile_creatures (tile_of ?st) = []" "\<not> hasProperty example_types ?st PROP_BLOCKSOLID"
    by (simp_all add: defs hasProperty_def)
  have no: "\<not> hasFlag k (tile_of ?st)" for k unfolding hasFlag_def flags by simp
  have "hasBitSet TILESTATE_PVPZONE TILESTATE_PVPZONE" by code_simp
  then show ?thesis unfolding Let_def enter using f no by (simp add: example_mover_def zones_kept_def)
qed

text \<open>The field that keeps a new one off the tile.\<close>

definition fixed_field :: "tile_types \<Rightarrow> nat \<Rightarrow> tile_state \<Rightarrow> bool" where
  "fixed_field its i st \<longleftrightarrow> \<not> tt_ground (itype its st i) \<and> \<not> tt_alwaysOnTop (itype its st i) \<and> tt_magicField (itype its st i) \<and>
     (case find (\<lambda>j. ti_magicField (item_of st j)) (down_items (tile_of st)) of Some old \<Rightarrow> \<not> tt_replaceable (itype its st old) | None \<Rightarrow> False)"

lemma inserted_on_stack: "i \<in> set (stack (tile_of (insert_top b i st)))" "i \<in> set (stack (tile_of (insert_down i st)))" "i \<in> set (stack (tile_of (set_ground (Some i) st)))"
  by (simp_all add: insert_top_def insert_down_def insert_at_set)

lemma stack_marked [simp]: "stack (tile_of (mark_flags its i st)) = stack (tile_of st)" "stack (tile_of (resetTileFlags its i st)) = stack (tile_of st)"
  by simp_all

lemma addThing_puts:
  assumes "length (item_vec (tile_of st)) < 0xFFFF"
  shows "if fixed_field its i st then addThing its i st = ReleaseItem i (set_parent i None (set_parent i (Some (tilePos (tile_of st))) st))
    else i \<in> set (stack (tile_of (addThing its i st)))"
proof -
  let ?s = "set_parent i (Some (tilePos (tile_of st))) st"
  have ty: "itype its ?s = itype its st" "(\<lambda>j. ti_magicField (item_of ?s j)) = (\<lambda>j. ti_magicField (item_of st j))" by (simp_all add: itype_def fun_eq_iff)
  show ?thesis using assms inserted_on_stack
    by (auto simp: addThing_def Let_def fixed_field_def ty simp del: small_simps split: option.splits)
qed

text \<open>C9: When the query lets an item onto a tile, putting it there puts it on the stack and makes the tile its
  parent; only a magic field under which a field lies that cannot be replaced is released instead, and then the
  tile is unchanged.\<close>

theorem allowed_item_is_put:
  assumes calls: "tile_calls_ok its (cs @ [Call_addThing i]) \<lparr>tile_of = new_tile p, item_of = ob, released = []\<rparr>"
  defines "st \<equiv> tile_calls its cs \<lparr>tile_of = new_tile p, item_of = ob, released = []\<rparr>"
  assumes query: "queryAdd_item its env i flags st = RETURNVALUE_NOERROR"
  shows "if fixed_field its i st then tile_of (addThing its i st) = tile_of st \<and> i \<in> set (released (addThing its i st))
    else i \<in> set (stack (tile_of (addThing its i st))) \<and> ti_parent (item_of (addThing its i st) i) = Some (tilePos (tile_of (addThing its i st)))"
proof -
  have ok: "tile_calls_ok its (xs @ ys) s \<longleftrightarrow> tile_calls_ok its xs s \<and> tile_calls_ok its ys (tile_calls its xs s)" for xs ys s
    by (induction xs arbitrary: s) auto
  have inv: "tile_inv its st" using calls unfolding st_def ok by (auto intro: tile_calls_inv[OF new_tile_inv])
  have "tile_call_ok its (Call_addThing i) st" using calls unfolding st_def ok by simp
  from tile_call_inv[OF inv this] have inv': "tile_inv its (addThing its i st)" by simp
  have len: "length (item_vec (tile_of st)) < 0xFFFF" using query by (auto simp: queryAdd_item_def Let_def split: if_splits)
  show ?thesis using addThing_puts[OF len, of its i] inv' by (auto simp: tile_inv_def ReleaseItem_def)
qed

theorem allowed_item_is_put_witness:
  "4 \<in> set (stack (tile_of (addThing example_types 4 (tile_calls example_types [Call_addThing 1] \<lparr>tile_of = new_tile (Position 1 2 3), item_of = example_item, released = []\<rparr>))))"
proof -
  let ?st = "tile_calls example_types [Call_addThing 1] \<lparr>tile_of = new_tile (Position 1 2 3), item_of = example_item, released = []\<rparr>"
  note defs = addThing_def Let_def itype_def example_types_def example_item_def stack_def ground_list_def new_tile_def item_ok_def insert_down_def
    set_ground_def set_items_def set_parent_def mark_flags_def
  have "tile_calls_ok example_types ([Call_addThing 1] @ [Call_addThing 4]) \<lparr>tile_of = new_tile (Position 1 2 3), item_of = example_item, released = []\<rparr>"
    by (simp add: defs)
  moreover have "queryAdd_item example_types example_env 4 0 ?st = RETURNVALUE_NOERROR"
    by (simp add: queryAdd_item_def no_room_def defs)
  moreover have "\<not> fixed_field example_types 4 ?st" by (simp add: fixed_field_def defs)
  ultimately show ?thesis using allowed_item_is_put[of example_types "[Call_addThing 1]" 4 "Position 1 2 3" example_item example_env 0] by simp
qed

lemma unat_ucast_widen: "unat (ucast (c :: u8) :: u32) = unat c"
proof -
  have c: "unat c < 256" using unsigned_less[of c] by simp
  show ?thesis by (subst unsigned_ucast_eq, rule take_bit_nat_eq_self, rule less_trans[OF c]) simp
qed

lemma sub_count:
  fixes c :: u8 and n :: u32
  assumes "n \<le> ucast c"
  shows "unat (new_item_count c n) + unat n = unat c"
proof -
  have c: "unat c < 256" using unsigned_less[of c] by simp
  have "unat n \<le> unat c" using assms by (simp add: word_le_nat_alt unat_ucast_widen)
  moreover have "unat n < 2147483648" using calculation c by linarith
  ultimately show ?thesis using new_item_count_unat[of n c] by simp
qed

lemma removeThing_leaves:
  "tile_creatures (tile_of (removeThing its i n st)) = tile_creatures (tile_of st)" "released (removeThing its i n st) = released st"
  "j \<noteq> i \<Longrightarrow> item_of (removeThing its i n st) j = item_of st j"
  by (auto simp: removeThing_def set_parent_def set_ground_def set_items_def resetTileFlags_def split: option.split)

text \<open>What a well-formed tile keeps in its two sections.\<close>

lemma shape_sections:
  assumes "tile_inv its st"
  shows "down_items (tile_of st) = filter (\<lambda>i. \<not> tt_alwaysOnTop (itype its st i)) (item_vec (tile_of st))"
    "top_items (tile_of st) = filter (\<lambda>i. tt_alwaysOnTop (itype its st i)) (item_vec (tile_of st))"
proof -
  obtain ds us where sh: "tile_shape its (item_of st) (tile_of st) ds us" using assms by (rule tile_invE)
  then show "down_items (tile_of st) = filter (\<lambda>i. \<not> tt_alwaysOnTop (itype its st i)) (item_vec (tile_of st))"
    "top_items (tile_of st) = filter (\<lambda>i. tt_alwaysOnTop (itype its st i)) (item_vec (tile_of st))"
    using shape_parts[OF sh] by (auto simp: tile_shape_def itype_def filter_empty_conv)
qed

lemma removeThing_whole:
  assumes inv: "tile_inv its st" and i: "getThingIndex its (TItem i) st \<noteq> - 1"
    and whole: "\<not> (i \<in> set (down_items (tile_of st)) \<and> tt_stackable (itype its st i) \<and> n \<noteq> ucast (ti_count (item_of st i)))"
  shows "item_vec (tile_of (removeThing its i n st)) = remove1 i (item_vec (tile_of st))"
    "item_of (removeThing its i n st) i = (item_of st i)\<lparr>ti_parent := None\<rparr>"
proof -
  obtain ds us where sh: "tile_shape its (item_of st) (tile_of st) ds us" using inv by (rule tile_invE)
  note P = shape_parts[OF sh]
  have d: "distinct (ground_list (tile_of st) @ ds @ us)" using sh P(5) by (simp add: tile_shape_def)
  have cls: "i \<in> set us \<Longrightarrow> tt_alwaysOnTop (itype its st i)" "i \<in> set ds \<Longrightarrow> \<not> tt_alwaysOnTop (itype its st i)"
    using sh by (auto simp: tile_shape_def itype_def)
  consider (g) "ground (tile_of st) = Some i" | (us) k where "ground (tile_of st) \<noteq> Some i" "i \<in> set us" "i \<notin> set ds" "find_at i us = Some k"
    | (ds) k where "ground (tile_of st) \<noteq> Some i" "i \<in> set ds" "find_at i ds = Some k"
    using index_on_stack[OF i] P(5) d find_at_in[of i ds] find_at_in[of i us] by (auto simp: ground_list_def split: option.splits)
  then have "item_vec (tile_of (removeThing its i n st)) = remove1 i (item_vec (tile_of st)) \<and>
    item_of (removeThing its i n st) i = (item_of st i)\<lparr>ti_parent := None\<rparr>"
  proof cases
    case g
    then show ?thesis using i d P by (auto simp: removeThing_def ground_list_def set_parent_def remove1_idem)
  next
    case us
    then show ?thesis using i cls P find_at_Some[OF us(4)] erase_at_remove1[OF us(4)]
      by (auto simp: removeThing_def erase_at_split remove1_append set_parent_def)
  next
    case ds
    then show ?thesis using i whole cls P find_at_Some[OF ds(3)] erase_at_remove1[OF ds(3)]
      by (auto simp: removeThing_def erase_at_split remove1_append set_parent_def)
  qed
  then show "item_vec (tile_of (removeThing its i n st)) = remove1 i (item_vec (tile_of st))"
    "item_of (removeThing its i n st) i = (item_of st i)\<lparr>ti_parent := None\<rparr>" by simp_all
qed

lemma removeThing_part:
  assumes i: "getThingIndex its (TItem i) st \<noteq> - 1" "tile_inv its st" "i \<in> set (down_items (tile_of st))"
    and part: "tt_stackable (itype its st i)" "n \<noteq> ucast (ti_count (item_of st i))"
  shows "removeThing its i n st = st\<lparr>item_of := (item_of st)(i := (item_of st i)\<lparr>ti_count := new_item_count (ti_count (item_of st i)) n\<rparr>)\<rparr>"
proof -
  obtain ds us where sh: "tile_shape its (item_of st) (tile_of st) ds us" using i(2) by (rule tile_invE)
  note P = shape_parts[OF sh]
  have "ground (tile_of st) \<noteq> Some i" "\<not> tt_alwaysOnTop (itype its st i)"
    using sh i(3) P by (auto simp: tile_shape_def itype_def ground_list_def)
  then show ?thesis using assms find_at_in[of i "down_items (tile_of st)"] by (auto simp: removeThing_def)
qed

text \<open>C12: When the query lets \<open>n\<close> of an item be taken off a tile, \<open>removeThing\<close> does one of two things. For part of a pile
  among the down items the count of that pile drops by exactly \<open>n\<close>, stays above zero, and nothing else of the tile, of its
  flags or of any item changes. Otherwise, so for the whole pile and, whatever \<open>n\<close> is, for an item that is not
  stackable, the ground and a top item, the whole item leaves: it is gone from its section, keeps its own data and has no
  parent. Then the other items and their order in ground, top items and down items, their data and parents, the
  creatures and the place of the tile are the same, and the flags of solidity agree with the items that are left.\<close>

theorem allowed_item_is_taken:
  assumes calls: "tile_calls_ok its cs \<lparr>tile_of = new_tile p, item_of = ob, released = []\<rparr>"
  defines "st \<equiv> tile_calls its cs \<lparr>tile_of = new_tile p, item_of = ob, released = []\<rparr>"
  assumes query: "tile_queryRemove its (TItem i) n flags st = RETURNVALUE_NOERROR"
  defines "st' \<equiv> removeThing its i n st"
  shows "if i \<in> set (down_items (tile_of st)) \<and> tt_stackable (itype its st i) \<and> n \<noteq> ucast (ti_count (item_of st i))
    then \<exists>c. st' = st\<lparr>item_of := (item_of st)(i := (item_of st i)\<lparr>ti_count := c\<rparr>)\<rparr> \<and> 0 < c \<and> unat c + unat n = unat (ti_count (item_of st i))
    else ground_list (tile_of st') = remove1 i (ground_list (tile_of st)) \<and> down_items (tile_of st') = remove1 i (down_items (tile_of st)) \<and>
      top_items (tile_of st') = remove1 i (top_items (tile_of st)) \<and> i \<in> set (stack (tile_of st)) \<and> i \<notin> set (stack (tile_of st')) \<and>
      item_of st' = (item_of st)(i := (item_of st i)\<lparr>ti_parent := None\<rparr>) \<and> tile_creatures (tile_of st') = tile_creatures (tile_of st) \<and>
      tilePos (tile_of st') = tilePos (tile_of st) \<and> released st' = released st \<and>
      agree_flags its (item_of st') (set (stack (tile_of st'))) (tile_flags (tile_of st'))"
proof -
  have inv: "tile_inv its st" unfolding st_def by (rule tile_calls_inv[OF new_tile_inv calls])
  then have inv': "tile_inv its st'" unfolding st'_def by (rule tile_removeThing_inv)
  have q: "getThingIndex its (TItem i) st \<noteq> - 1" "tt_stackable (itype its st i) \<Longrightarrow> n \<le> ucast (ti_count (item_of st i))"
    using query by (auto simp: tile_queryRemove_def not_le split: if_splits)
  show ?thesis
  proof (cases "i \<in> set (down_items (tile_of st)) \<and> tt_stackable (itype its st i) \<and> n \<noteq> ucast (ti_count (item_of st i))")
    case True
    let ?c = "new_item_count (ti_count (item_of st i)) n"
    have s: "unat ?c + unat n = unat (ti_count (item_of st i))" using sub_count q(2) True by blast
    moreover have "?c \<noteq> 0" using s True by (auto simp: unat_ucast_widen word_unat_eq_iff)
    ultimately show ?thesis using True removeThing_part[OF q(1) inv] unfolding st'_def word_gt_0 by auto
  next
    case False
    note w = removeThing_whole[OF inv q(1) False, folded st'_def]
    have it: "itype its st' = itype its st" by (simp add: fun_eq_iff itype_def st'_def removeThing_fields)
    have g: "ground_list (tile_of st') = remove1 i (ground_list (tile_of st))" by (auto simp: ground_list_def st'_def removeThing_fields split: option.split)
    have d: "distinct (stack (tile_of st))" using inv by (auto simp: tile_inv_def tile_shape_def)
    have "item_of st' = (item_of st)(i := (item_of st i)\<lparr>ti_parent := None\<rparr>)" using w(2) by (auto simp: fun_eq_iff st'_def removeThing_leaves)
    moreover have "down_items (tile_of st') = remove1 i (down_items (tile_of st))" "top_items (tile_of st') = remove1 i (top_items (tile_of st))"
      by (simp_all add: shape_sections[OF inv] shape_sections[OF inv'] w it filter_remove1)
    moreover have "i \<notin> set (stack (tile_of st'))" using d by (auto simp: stack_def g w)
    ultimately show ?thesis unfolding if_not_P[OF False] using g index_on_stack[OF q(1)] inv'
      by (simp add: st'_def removeThing_fields removeThing_leaves tile_inv_def)
  qed
qed

theorem allowed_item_is_taken_witness:
  "let st = removeThing example_types 4 1 (tile_calls example_types [Call_addThing 1, Call_addThing 4] \<lparr>tile_of = new_tile (Position 1 2 3), item_of = example_item, released = []\<rparr>)
   in 4 \<notin> set (stack (tile_of st)) \<and> ti_parent (item_of st 4) = None"
proof -
  let ?st = "tile_calls example_types [Call_addThing 1, Call_addThing 4] \<lparr>tile_of = new_tile (Position 1 2 3), item_of = example_item, released = []\<rparr>"
  note defs = addThing_def Let_def itype_def example_types_def example_item_def stack_def ground_list_def new_tile_def item_ok_def insert_down_def
    set_ground_def set_items_def set_parent_def mark_flags_def
  have "tile_calls_ok example_types [Call_addThing 1, Call_addThing 4] \<lparr>tile_of = new_tile (Position 1 2 3), item_of = example_item, released = []\<rparr>"
    by (simp add: defs)
  moreover have "tile_queryRemove example_types (TItem 4) 1 0 ?st = RETURNVALUE_NOERROR"
    by (simp add: tile_queryRemove_def getThingIndex_def down_items_def top_items_def defs)
  moreover have "ti_count (item_of ?st 4) = 1" "stack (tile_of ?st) = [1, 4]" by (simp_all add: defs)
  ultimately show ?thesis using allowed_item_is_taken[of example_types "[Call_addThing 1, Call_addThing 4]" "Position 1 2 3" example_item 4 1 0] by (simp add: Let_def)
qed

end
