(* ===== verification/Map_Description.thy ===== *)
theory Map_Description
  imports Tile_Queries "HOL-Library.Multiset"
begin

text \<open>
  How \<open>ProtocolGame\<close> shows the map to a client (\<open>src/src/protocolgame.cpp\<close>): the description of one tile, the run-length
  code in which floors are sent, the parts of the map that are sent when the player moves, the positions it can
  see, and the set of creatures the client knows. The writer of a creature (\<open>AddCreature\<close>) and of an item appear as
  the thing they write.
\<close>

section \<open>One tile\<close>

text \<open>The loops of \<open>GetTileDescription\<close>: what they add, the count they reach, and whether they return.\<close>

fun describe_top :: "bool \<Rightarrow> nat \<Rightarrow> nat list \<Rightarrow> thing list \<times> nat \<times> bool" where
  "describe_top own n [] = ([], n, False)"
| "describe_top own n (i # is) =
     (let n = n + 1 in
      if n = 9 \<and> own then ([TItem i], n, False)
      else if n = 10 then ([TItem i], n, True)
      else let (ts, k, r) = describe_top own n is in (TItem i # ts, k, r))"

fun describe_creatures :: "(u32 \<Rightarrow> bool) \<Rightarrow> u32 \<Rightarrow> bool \<Rightarrow> nat \<Rightarrow> bool \<Rightarrow> u32 list \<Rightarrow> thing list \<times> nat \<times> bool" where
  "describe_creatures see me own n playerAdded [] = ([], n, False)"
| "describe_creatures see me own n playerAdded (c # cs) =
     (if \<not> see c then describe_creatures see me own n playerAdded cs
      else let c = (if own \<and> n = 9 \<and> \<not> playerAdded then me else c); playerAdded = (playerAdded \<or> c = me); n = n + 1 in
        if n = 10 then ([TCreature c], n, True)
        else let (ts, k, r) = describe_creatures see me own n playerAdded cs in (TCreature c # ts, k, r))"

fun describe_down :: "nat \<Rightarrow> nat list \<Rightarrow> thing list" where
  "describe_down n [] = []"
| "describe_down n (i # is) = (let n = n + 1 in if n = 10 then [TItem i] else TItem i # describe_down n is)"

definition GetTileDescription :: "(u32 \<Rightarrow> bool) \<Rightarrow> u32 \<Rightarrow> position \<Rightarrow> tile \<Rightarrow> thing list" where
  "GetTileDescription see me myPos t =
     (let own = (tilePos t = myPos);
          (g, n) = (case ground t of Some i \<Rightarrow> ([TItem i], 1) | None \<Rightarrow> ([], 0));
          (tops, n, stop) = describe_top own n (top_items t)
      in if stop then g @ tops
         else let (crs, n, stop) = describe_creatures see me own n False (rev (tile_creatures t))
              in if stop then g @ tops @ crs else g @ tops @ crs @ describe_down n (down_items t))"

lemma describe_top_other:
  "n < 10 \<Longrightarrow> describe_top False n is = (map TItem (take (10 - n) is), min 10 (n + length is), 10 \<le> n + length is)"
  by (induction "is" arbitrary: n) (auto simp: Let_def min_def take_Cons' split: prod.split)

lemma describe_creatures_other:
  "n < 10 \<Longrightarrow> describe_creatures see me False n a cs =
     (map TCreature (take (10 - n) (filter see cs)), min 10 (n + length (filter see cs)), 10 \<le> n + length (filter see cs))"
  by (induction cs arbitrary: n a) (auto simp: Let_def min_def take_Cons' split: prod.split)

lemma describe_down_take: "n < 10 \<Longrightarrow> describe_down n is = map TItem (take (10 - n) is)"
  by (induction "is" arbitrary: n) (auto simp: Let_def take_Cons')

lemma describe_other_tile:
  assumes "tilePos t \<noteq> myPos"
  shows "GetTileDescription see me myPos t = take 10 (client_things see t)"
proof -
  define n where "n = length (ground_list t)"
  have n: "n \<le> 1" by (simp add: n_def ground_list_def split: option.split)
  have g: "(case ground t of Some i \<Rightarrow> ([TItem i], 1) | None \<Rightarrow> ([], 0)) = (map TItem (ground_list t), n)"
    by (simp add: n_def ground_list_def split: option.split)
  let ?us = "top_items t" and ?cs = "filter see (rev (tile_creatures t))" and ?ds = "down_items t"
  have "GetTileDescription see me myPos t = map TItem (ground_list t) @ take (10 - n) (map TItem ?us @ map TCreature ?cs @ map TItem ?ds)"
    using assms n by (auto simp: GetTileDescription_def g describe_top_other describe_creatures_other describe_down_take min_def take_map Let_def)
  then show ?thesis using n by (simp add: client_things_def n_def)
qed

text \<open>On the player's own tile the ground and the top items leave room for him: they end at nine things.\<close>

lemma describe_top_own:
  "n \<le> 8 \<Longrightarrow> describe_top True n is = (map TItem (take (9 - n) is), min 9 (n + length is), False)"
proof (induction "is" arbitrary: n)
  case (Cons i "is")
  then show ?case by (cases "n = 8") (auto simp: Let_def min_def take_Cons')
qed simp

text \<open>The creatures that are shown: when the last slot comes up and the player is not yet among them, it is his.\<close>

definition with_player :: "u32 \<Rightarrow> bool \<Rightarrow> nat \<Rightarrow> u32 list \<Rightarrow> u32 list" where
  "with_player me added m vs = (if added \<or> length vs < m \<or> me \<in> set (take m vs) then take m vs else take (m - 1) vs @ [me])"

lemma with_player_Cons: "1 < m \<Longrightarrow> with_player me added m (c # vs) = c # with_player me (added \<or> c = me) (m - 1) vs"
  by (cases m) (auto simp: with_player_def take_Cons')

lemma describe_creatures_own:
  "n < 10 \<Longrightarrow> describe_creatures see me True n added cs =
     (map TCreature (with_player me added (10 - n) (filter see cs)), min 10 (n + length (filter see cs)), 10 \<le> n + length (filter see cs))"
proof (induction cs arbitrary: n added)
  case Nil
  then show ?case by (simp add: with_player_def)
next
  case (Cons c cs)
  show ?case
  proof (cases "see c \<and> n \<noteq> 9")
    case True
    then have "with_player me added (10 - n) (c # filter see cs) = c # with_player me (added \<or> c = me) (10 - (n + 1)) (filter see cs)"
      using Cons.prems by (subst with_player_Cons) auto
    then show ?thesis using True Cons.IH[of "n + 1" "added \<or> c = me"] Cons.prems by (auto simp: Let_def)
  next
    case False
    then show ?thesis using Cons.IH[of n added] Cons.prems by (auto simp: Let_def with_player_def)
  qed
qed

text \<open>What there is to show on the player's own tile.\<close>

definition own_things :: "(u32 \<Rightarrow> bool) \<Rightarrow> tile \<Rightarrow> thing list" where
  "own_things see t = map TItem (ground_list t) @ map TItem (take (9 - length (ground_list t)) (top_items t)) @
     map TCreature (filter see (rev (tile_creatures t))) @ map TItem (down_items t)"

lemma describe_own_tile:
  assumes "tilePos t = myPos" "see me" "me \<in> set (tile_creatures t)"
  shows "GetTileDescription see me myPos t =
    (if TCreature me \<in> set (take 10 (own_things see t)) then take 10 (own_things see t) else take 9 (own_things see t) @ [TCreature me])"
proof -
  define n where "n = length (ground_list t)"
  have n: "n \<le> 1" by (simp add: n_def ground_list_def split: option.split)
  have g: "(case ground t of Some i \<Rightarrow> ([TItem i], 1) | None \<Rightarrow> ([], 0)) = (map TItem (ground_list t), n)"
    by (simp add: n_def ground_list_def split: option.split)
  define us where "us = ground_list t @ take (9 - n) (top_items t)"
  define vs where "vs = filter see (rev (tile_creatures t))"
  let ?ds = "down_items t"
  have k: "min 9 (n + length (top_items t)) = length us" "length us \<le> 9" using n by (auto simp: us_def n_def min_def)
  have own: "own_things see t = map TItem us @ map TCreature vs @ map TItem ?ds" by (simp add: own_things_def us_def vs_def n_def)
  have me: "me \<in> set vs" using assms by (simp add: vs_def)
  then have "vs \<noteq> []" by auto
  have "GetTileDescription see me myPos t = map TItem us @ map TCreature (with_player me False (10 - length us) vs) @
      (if 10 \<le> length us + length vs then [] else map TItem (take (10 - (length us + length vs)) ?ds))"
    using assms n k by (simp add: GetTileDescription_def g describe_top_own describe_creatures_own describe_down_take vs_def[symmetric] us_def min_def Let_def)
  moreover have "TCreature me \<in> set (take 10 (own_things see t)) \<longleftrightarrow> me \<in> set (take (10 - length us) vs)"
    using k(2) by (auto simp: own take_map)
  moreover have "length vs < 10 - length us \<Longrightarrow> me \<in> set (take (10 - length us) vs)" using me by simp
  ultimately show ?thesis using k(2) by (auto simp: own with_player_def take_map)
qed

text \<open>C17: The description of a tile holds at most ten things. On another tile it is the first ten of what the client
  shows, in its order: the ground, the top items, the visible creatures from the one that came first, the down
  items; so every stack position that is sent for an item or a visible creature names that thing. On his own tile the order is the
  same, but of the ground and the top items at most nine are sent, and when the player is not among the first ten he
  takes the tenth place. In particular, on his own tile too it is the first ten that the client shows, when the ground and
  the top items are at most nine and he is among these ten.\<close>

theorem tile_description_matches:
  fixes myPos :: position
  assumes "tile_calls_ok its cs \<lparr>tile_of = new_tile p, item_of = ob, released = []\<rparr>" "see me" "see c"
    "myPos = p \<longrightarrow> me \<in> set (tile_creatures (tile_of (tile_calls its cs \<lparr>tile_of = new_tile p, item_of = ob, released = []\<rparr>)))"
  defines "st \<equiv> tile_calls its cs \<lparr>tile_of = new_tile p, item_of = ob, released = []\<rparr>"
  defines "d \<equiv> GetTileDescription see me myPos (tile_of st)"
  defines "shown \<equiv> client_things see (tile_of st)"
  shows "length d \<le> 10 \<and>
    (myPos = p \<longrightarrow> d = (if TCreature me \<in> set (take 10 (own_things see (tile_of st))) then take 10 (own_things see (tile_of st))
      else take 9 (own_things see (tile_of st)) @ [TCreature me])) \<and>
    (myPos \<noteq> p \<or> length (ground_list (tile_of st)) + length (top_items (tile_of st)) \<le> 9 \<and> TCreature me \<in> set (take 10 shown) \<longrightarrow> d = take 10 shown \<and>
      (let k = getStackposOfItem its see i st in k \<noteq> - 1 \<longrightarrow> nat k < length d \<and> d ! nat k = TItem i) \<and>
      (let k = getStackposOfCreature see c (tile_of st) in k \<noteq> - 1 \<longrightarrow> nat k < length d \<and> d ! nat k = TCreature c))"
proof -
  have inv: "tile_inv its st" unfolding st_def by (rule tile_calls_inv[OF new_tile_inv assms(1)])
  have p: "tilePos (tile_of st) = p" unfolding st_def by (simp add: tile_calls_pos new_tile_def)
  have own: "d = (if TCreature me \<in> set (take 10 (own_things see (tile_of st))) then take 10 (own_things see (tile_of st))
      else take 9 (own_things see (tile_of st)) @ [TCreature me])" if "myPos = p"
    unfolding d_def by (rule describe_own_tile) (use that p assms(2,4) in \<open>auto simp: st_def\<close>)
  have other: "d = take 10 shown" if "myPos \<noteq> p" unfolding d_def shown_def by (rule describe_other_tile) (use that p in simp)
  have same: "own_things see (tile_of st) = shown" if "length (ground_list (tile_of st)) + length (top_items (tile_of st)) \<le> 9"
    using that by (simp add: own_things_def shown_def client_things_def)
  have first: "d = take 10 shown" if "myPos \<noteq> p \<or> length (ground_list (tile_of st)) + length (top_items (tile_of st)) \<le> 9 \<and> TCreature me \<in> set (take 10 shown)"
    using that other own same by (cases "myPos = p") auto
  have pos: "let k = client_pos (find_at th shown) in k \<noteq> - 1 \<longrightarrow> nat k < length (take 10 shown) \<and> take 10 shown ! nat k = th" for th
    using find_at_Some[of th shown] by (auto simp: client_pos_def Let_def split: option.splits if_splits)
  show ?thesis using own other first pos[of "TItem i"] pos[of "TCreature c"]
    unfolding stackpos_item_find[OF inv] stackpos_creature_find[of see, OF assms(3)] shown_def[symmetric]
    by (cases "myPos = p") (auto simp: Let_def)
qed

theorem tile_description_matches_witness:
  "GetTileDescription (\<lambda>c. c = 7) 7 (Position 5 5 5) (tile_of (tile_calls example_types example_calls \<lparr>tile_of = new_tile (Position 1 2 3), item_of = example_item, released = []\<rparr>)) =
     take 10 (client_things (\<lambda>c. c = 7) (tile_of (tile_calls example_types example_calls \<lparr>tile_of = new_tile (Position 1 2 3), item_of = example_item, released = []\<rparr>)))"
  using tile_description_matches[OF example_calls_ok, of "\<lambda>c. c = 7" 7 7 "Position 5 5 5" 4] by simp

section \<open>Floors in run-length code\<close>

datatype 'a token = Tile_token 'a | Skip u8

text \<open>\<open>skip\<close> counts the empty places since the last tile; \<open>-1\<close> says that no place is open. The two bytes of a skip are
  the count and \<open>0xFF\<close>.\<close>

fun describe_places :: "'a option list \<Rightarrow> int \<Rightarrow> 'a token list \<times> int" where
  "describe_places [] skip = ([], skip)"
| "describe_places (Some t # ps) skip =
     (let (ts, s) = describe_places ps 0 in ((if skip \<ge> 0 then [Skip (of_int skip)] else []) @ Tile_token t # ts, s))"
| "describe_places (None # ps) skip =
     (if skip = 0xFE then let (ts, s) = describe_places ps (- 1) in (Skip 0xFF # ts, s)
      else describe_places ps (skip + 1))"

definition close_skip :: "'a token list \<times> int \<Rightarrow> 'a token list" where
  "close_skip d = fst d @ (if snd d \<ge> 0 then [Skip (of_int (snd d))] else [])"

type_synonym place = "int \<times> int \<times> int"

definition floor_places :: "int \<Rightarrow> int \<Rightarrow> int \<Rightarrow> nat \<Rightarrow> nat \<Rightarrow> int \<Rightarrow> place list" where
  "floor_places x y z width height offset = [(x + int nx + offset, y + int ny + offset, z). nx \<leftarrow> [0..<width], ny \<leftarrow> [0..<height]]"

definition GetFloorDescription :: "(place \<Rightarrow> 'a option) \<Rightarrow> int \<Rightarrow> int \<Rightarrow> int \<Rightarrow> nat \<Rightarrow> nat \<Rightarrow> int \<Rightarrow> int \<Rightarrow> 'a token list \<times> int" where
  "GetFloorDescription look x y z width height offset skip = describe_places (map look (floor_places x y z width height offset)) skip"

text \<open>The floors of a view from floor \<open>z\<close>, which is below \<open>MAP_MAX_LAYERS\<close>. From 19 on the loop of the code, whose end test is
  an inequality, would run past its last floor; positions of the map never have such a floor.\<close>

definition view_floors :: "int \<Rightarrow> int list" where
  "view_floors z = (if z > 7 then [z - 2..min (int MAP_MAX_LAYERS - 1) (z + 2)] else rev [0..7])"

fun describe_floors :: "(place \<Rightarrow> 'a option) \<Rightarrow> int \<Rightarrow> int \<Rightarrow> int \<Rightarrow> nat \<Rightarrow> nat \<Rightarrow> int list \<Rightarrow> int \<Rightarrow> 'a token list \<times> int" where
  "describe_floors look x y z width height [] skip = ([], skip)"
| "describe_floors look x y z width height (nz # nzs) skip =
     (let (ts, s) = GetFloorDescription look x y nz width height (z - nz) skip;
          (ts', s') = describe_floors look x y z width height nzs s
      in (ts @ ts', s'))"

definition GetMapDescription :: "(place \<Rightarrow> 'a option) \<Rightarrow> int \<Rightarrow> int \<Rightarrow> int \<Rightarrow> nat \<Rightarrow> nat \<Rightarrow> 'a token list" where
  "GetMapDescription look x y z width height = close_skip (describe_floors look x y z width height (view_floors z) (- 1))"

text \<open>What a client reads: a tile, or an empty place, and the number of empty places that follow it.\<close>

fun read_places :: "'a token list \<Rightarrow> 'a option list" where
  "read_places [] = []"
| "read_places (Skip n # ts) = None # replicate (unat n) None @ read_places ts"
| "read_places (Tile_token t # Skip n # ts) = Some t # replicate (unat n) None @ read_places ts"
| "read_places (Tile_token t # ts) = Some t # read_places ts"

lemma unat_skip: "0 \<le> k \<Longrightarrow> k \<le> 255 \<Longrightarrow> unat (of_int k :: u8) = nat k"
  by (simp add: unat_eq_nat_uint uint_word_of_int_eq take_bit_int_eq_self)

definition encode :: "'a option list \<Rightarrow> int \<Rightarrow> 'a token list" where
  "encode ps skip = close_skip (describe_places ps skip)"

lemma encode_simps [simp]:
  "encode [] k = (if k \<ge> 0 then [Skip (of_int k)] else [])"
  "encode (Some t # ps) k = (if k \<ge> 0 then [Skip (of_int k)] else []) @ Tile_token t # encode ps 0"
  "encode (None # ps) k = (if k = 254 then Skip 0xFF # encode ps (- 1) else encode ps (k + 1))"
  by (simp_all add: encode_def close_skip_def split: prod.split)

lemma read_encode:
  "(\<forall>k t. 0 \<le> k \<and> k \<le> 254 \<longrightarrow> read_places (encode ps k) = None # replicate (nat k) None @ ps \<and>
      read_places (Tile_token t # encode ps k) = Some t # replicate (nat k) None @ ps) \<and> read_places (encode ps (- 1)) = ps"
proof (induction ps)
  case Nil
  show ?case by (auto simp: unat_skip)
next
  case (Cons p ps)
  show ?case
  proof (cases p)
    case None
    have r: "replicate (nat (k + 1)) None @ ps = replicate (nat k) None @ None # ps" if "0 \<le> k" for k
      using that by (simp add: nat_add_distrib replicate_app_Cons_same)
    have full: "replicate 255 None @ ps = replicate 254 None @ None # ps" using r[of 254] by simp
    have "read_places (encode (None # ps) k) = None # replicate (nat k) None @ None # ps \<and>
        read_places (Tile_token t # encode (None # ps) k) = Some t # replicate (nat k) None @ None # ps" if "0 \<le> k" "k \<le> 254" for k t
      using Cons that r[of k] full by (cases "k = 254") simp_all
    moreover have "read_places (encode (None # ps) (- 1)) = None # ps" using Cons by simp
    ultimately show ?thesis unfolding None by blast
  next
    case (Some t)
    then show ?thesis using Cons by (simp add: unat_skip)
  qed
qed

lemma describe_places_append:
  "describe_places (ps @ qs) k = (let (ts, s) = describe_places ps k; (ts', s') = describe_places qs s in (ts @ ts', s'))"
  by (induction ps k rule: describe_places.induct) (auto simp: Let_def split: prod.split)

definition map_places :: "int \<Rightarrow> int \<Rightarrow> int \<Rightarrow> nat \<Rightarrow> nat \<Rightarrow> place list" where
  "map_places x y z width height = concat (map (\<lambda>nz. floor_places x y nz width height (z - nz)) (view_floors z))"

lemma describe_floors_places:
  "describe_floors look x y z width height nzs k = describe_places (map look (concat (map (\<lambda>nz. floor_places x y nz width height (z - nz)) nzs))) k"
  by (induction nzs arbitrary: k) (simp_all add: GetFloorDescription_def describe_places_append split: prod.split)

lemma GetMapDescription_encode: "GetMapDescription look x y z width height = encode (map look (map_places x y z width height)) (- 1)"
  by (simp add: GetMapDescription_def describe_floors_places encode_def map_places_def)

text \<open>C16: A client that reads the run-length code of a part of the map gets back exactly the tiles and the empty
  places of that part, in order.\<close>

theorem map_description_roundtrip:
  "read_places (GetMapDescription look x y z width height) = map look (map_places x y z width height)"
  by (simp add: GetMapDescription_encode read_encode)

section \<open>What the player sees\<close>

definition canSee :: "position \<Rightarrow> int \<Rightarrow> int \<Rightarrow> int \<Rightarrow> bool" where
  "canSee myPos x y z \<longleftrightarrow>
     (let mx = uint (pos_x myPos); my = uint (pos_y myPos); mz = uint (pos_z myPos); offsetz = mz - z in
      (if mz \<le> 7 then \<not> z > 7 else \<not> \<bar>mz - z\<bar> > 2) \<and>
      x \<ge> mx - 8 + offsetz \<and> x \<le> mx + 9 + offsetz \<and> y \<ge> my - 6 + offsetz \<and> y \<le> my + 7 + offsetz)"

definition sendMapDescription :: "(place \<Rightarrow> 'a option) \<Rightarrow> position \<Rightarrow> 'a token list" where
  "sendMapDescription look pos = GetMapDescription look (uint (pos_x pos) - 8) (uint (pos_y pos) - 6) (uint (pos_z pos)) 18 14"

lemma floor_places_iff:
  "(px, py, pz) \<in> set (floor_places x y z w h off) \<longleftrightarrow> pz = z \<and> x + off \<le> px \<and> px < x + off + int w \<and> y + off \<le> py \<and> py < y + off + int h"
proof
  assume a: "pz = z \<and> x + off \<le> px \<and> px < x + off + int w \<and> y + off \<le> py \<and> py < y + off + int h"
  obtain i where i: "i < w" "px = x + int i + off" by (rule that[of "nat (px - x - off)"]) (use a in auto)
  obtain j where j: "j < h" "py = y + int j + off" by (rule that[of "nat (py - y - off)"]) (use a in auto)
  show "(px, py, pz) \<in> set (floor_places x y z w h off)" using a i j by (auto simp: floor_places_def intro!: bexI[of _ i])
qed (auto simp: floor_places_def)

lemma view_floors_set: "0 \<le> z \<Longrightarrow> z \<le> 15 \<Longrightarrow> set (view_floors z) = {nz. 0 \<le> nz \<and> nz \<le> 15 \<and> (if z \<le> 7 then nz \<le> 7 else \<bar>z - nz\<bar> \<le> 2)}"
  by (auto simp: view_floors_def MAP_MAX_LAYERS_def)

lemma map_places_iff:
  assumes "0 \<le> z" "z \<le> 15"
  shows "(px, py, pz) \<in> set (map_places x y z w h) \<longleftrightarrow>
    0 \<le> pz \<and> pz \<le> 15 \<and> (if z \<le> 7 then pz \<le> 7 else \<bar>z - pz\<bar> \<le> 2) \<and>
    x + (z - pz) \<le> px \<and> px < x + (z - pz) + int w \<and> y + (z - pz) \<le> py \<and> py < y + (z - pz) + int h"
  using view_floors_set[OF assms] by (auto simp: map_places_def floor_places_iff)

lemma floor_places_distinct: "distinct (floor_places x y z w h off)"
proof -
  have "floor_places x y z w h off = map (\<lambda>(nx, ny). (x + int nx + off, y + int ny + off, z)) (List.product [0..<w] [0..<h])"
    by (simp add: floor_places_def product_concat_map map_concat comp_def)
  then show ?thesis by (auto simp: distinct_map distinct_product inj_on_def)
qed

lemma map_places_distinct: "distinct (map_places x y z w h)"
proof -
  have "distinct nzs \<Longrightarrow> distinct (concat (map (\<lambda>nz. floor_places x y nz w h (z - nz)) nzs))" for nzs
    by (induction nzs) (auto simp: floor_places_distinct floor_places_iff)
  moreover have "distinct (view_floors z)" by (simp add: view_floors_def)
  ultimately show ?thesis by (simp add: map_places_def)
qed

text \<open>C19: Whatever the map holds, the description that \<open>sendMapDescription\<close> sends for a position tells the client, in a fixed order
  of the places, what is at each place the player can see from there, each once, and says nothing of any other place.\<close>

theorem description_covers_view:
  assumes "uint (pos_z pos) \<le> 15"
  shows "\<exists>places. distinct places \<and> set places = {(x, y, z). 0 \<le> z \<and> z \<le> 15 \<and> canSee pos x y z} \<and>
    (\<forall>look. read_places (sendMapDescription look pos) = map look places)"
proof (intro exI conjI allI)
  let ?places = "map_places (uint (pos_x pos) - 8) (uint (pos_y pos) - 6) (uint (pos_z pos)) 18 14"
  have "(x, y, z) \<in> set ?places \<longleftrightarrow> 0 \<le> z \<and> z \<le> 15 \<and> canSee pos x y z" for x y z
    using assms by (auto simp: map_places_iff canSee_def Let_def)
  then show "set ?places = {(x, y, z). 0 \<le> z \<and> z \<le> 15 \<and> canSee pos x y z}" by auto
  show "distinct ?places" by (rule map_places_distinct)
  show "read_places (sendMapDescription look pos) = map look ?places" for look
    by (simp add: sendMapDescription_def GetMapDescription_encode read_encode)
qed

theorem description_covers_view_witness:
  "\<exists>places. set places = {(x, y, z). 0 \<le> z \<and> z \<le> 15 \<and> canSee (Position 100 100 7) x y z} \<and>
    read_places (sendMapDescription Some (Position 100 100 7)) = map Some places"
  using description_covers_view[of "Position 100 100 7", where ?'a = place] by auto

section \<open>A step of the player\<close>

text \<open>The parts of the map that are sent with a step: an opcode and the places that follow it in run-length code.
  Several floors that share one \<open>skip\<close> are one part.\<close>

type_synonym part = "u8 \<times> place list"

definition MoveUpCreature :: "position \<Rightarrow> position \<Rightarrow> part list" where
  "MoveUpCreature newPos oldPos =
     (let x = uint (pos_x oldPos); y = uint (pos_y oldPos); z = uint (pos_z oldPos); nz = uint (pos_z newPos);
          floors = (\<lambda>fs. concat (map (\<lambda>(f, offset). floor_places (x - 8) (y - 6) f 18 14 offset) fs))
      in [(0xBE, floors (if nz = 7 then [(5, 3), (4, 4), (3, 5), (2, 6), (1, 7), (0, 8)] else if nz > 7 then [(z - 3, 3)] else [])),
          (0x68, map_places (x - 8) (y - 5) nz 1 14),
          (0x65, map_places (x - 8) (y - 6) nz 18 1)])"

definition MoveDownCreature :: "position \<Rightarrow> position \<Rightarrow> part list" where
  "MoveDownCreature newPos oldPos =
     (let x = uint (pos_x oldPos); y = uint (pos_y oldPos); z = uint (pos_z oldPos); nz = uint (pos_z newPos);
          floors = (\<lambda>fs. concat (map (\<lambda>(f, offset). floor_places (x - 8) (y - 6) f 18 14 offset) fs))
      in [(0xBF, floors (if nz = 8 then [(nz, - 1), (nz + 1, - 2), (nz + 2, - 3)] else if nz > z \<and> nz > 8 \<and> nz < 14 then [(nz + 2, - 3)] else [])),
          (0x66, map_places (x + 9) (y - 7) nz 1 14),
          (0x67, map_places (x - 8) (y + 7) nz 18 1)])"

definition sendMoveCreature_parts :: "position \<Rightarrow> position \<Rightarrow> part list" where
  "sendMoveCreature_parts newPos oldPos =
     (let ox = uint (pos_x oldPos); oy = uint (pos_y oldPos); oz = uint (pos_z oldPos);
          nx = uint (pos_x newPos); ny = uint (pos_y newPos); nz = uint (pos_z newPos)
      in (if nz > oz then MoveDownCreature newPos oldPos else if nz < oz then MoveUpCreature newPos oldPos else []) @
         (if oy > ny then [(0x65, map_places (ox - 8) (ny - 6) nz 18 1)] else if oy < ny then [(0x67, map_places (ox - 8) (ny + 7) nz 18 1)] else []) @
         (if ox < nx then [(0x66, map_places (nx + 9) (ny - 6) nz 1 14)] else if ox > nx then [(0x68, map_places (nx - 8) (ny - 6) nz 1 14)] else []))"

definition part_tokens :: "(place \<Rightarrow> 'a option) \<Rightarrow> part \<Rightarrow> u8 \<times> 'a token list" where
  "part_tokens look p = (fst p, encode (map look (snd p)) (- 1))"

definition sent_places :: "part list \<Rightarrow> place set" where
  "sent_places ps = (\<Union>p \<in> set ps. set (snd p))"

definition visible :: "position \<Rightarrow> place \<Rightarrow> bool" where
  "visible pos p \<longleftrightarrow> (case p of (x, y, z) \<Rightarrow> 0 \<le> z \<and> z \<le> 15 \<and> canSee pos x y z)"

definition one_step :: "position \<Rightarrow> position \<Rightarrow> bool" where
  "one_step a b \<longleftrightarrow> \<bar>uint (pos_x a) - uint (pos_x b)\<bar> \<le> 1 \<and> \<bar>uint (pos_y a) - uint (pos_y b)\<bar> \<le> 1 \<and> \<bar>uint (pos_z a) - uint (pos_z b)\<bar> \<le> 1"

lemma step_same_floor:
  assumes "one_step old new" "uint (pos_z new) = uint (pos_z old)" "uint (pos_z old) \<le> 15" "visible new (x, y, z)" "\<not> visible old (x, y, z)"
  shows "(x, y, z) \<in> sent_places (sendMoveCreature_parts new old)"
  using assms unfolding sent_places_def sendMoveCreature_parts_def Let_def visible_def canSee_def one_step_def
  by (auto simp: map_places_iff split: if_splits)

text \<open>A change of floor is the change of floor on the spot and then a step on the new floor.\<close>

lemma visible_iff:
  "visible p (x, y, z) \<longleftrightarrow> 0 \<le> z \<and> z \<le> 15 \<and> (if uint (pos_z p) \<le> 7 then z \<le> 7 else \<bar>uint (pos_z p) - z\<bar> \<le> 2) \<and>
     uint (pos_x p) - 8 + (uint (pos_z p) - z) \<le> x \<and> x \<le> uint (pos_x p) + 9 + (uint (pos_z p) - z) \<and>
     uint (pos_y p) - 6 + (uint (pos_z p) - z) \<le> y \<and> y \<le> uint (pos_y p) + 7 + (uint (pos_z p) - z)"
  by (auto simp: visible_def canSee_def Let_def)

lemma sent_simps: "sent_places [] = {}" "sent_places ((b, ps) # rest) = set ps \<union> sent_places rest"
  by (simp_all add: sent_places_def)

lemma floor_up:
  assumes z: "nz = oz - 1" "0 \<le> nz" "oz \<le> 15" and mid: "pos_z mid = pos_z new" "uint (pos_z new) = nz" "pos_x mid = pos_x old" "pos_y mid = pos_y old" "uint (pos_z old) = oz"
    and v: "visible mid (x, y, z)" "\<not> visible old (x, y, z)"
  shows "(x, y, z) \<in> sent_places (MoveUpCreature new old)"
proof -
  define ox oy where "ox = uint (pos_x old)" and "oy = uint (pos_y old)"
  note pos = mid ox_def[symmetric] oy_def[symmetric]
  have m: "0 \<le> z" "z \<le> 15" "if nz \<le> 7 then z \<le> 7 else \<bar>nz - z\<bar> \<le> 2" "ox - 8 + (nz - z) \<le> x" "x \<le> ox + 9 + (nz - z)" "oy - 6 + (nz - z) \<le> y" "y \<le> oy + 7 + (nz - z)"
    using v(1) unfolding visible_iff pos by simp_all
  have parts: "set (snd (0x68 :: u8, map_places (ox - 8) (oy - 5) nz 1 14)) \<subseteq> sent_places (MoveUpCreature new old)"
    "set (snd (0x65 :: u8, map_places (ox - 8) (oy - 6) nz 18 1)) \<subseteq> sent_places (MoveUpCreature new old)"
    "set (concat (map (\<lambda>(f, offset). floor_places (ox - 8) (oy - 6) f 18 14 offset)
       (if nz = 7 then [(5, 3), (4, 4), (3, 5), (2, 6), (1, 7), (0, 8)] else if nz > 7 then [(oz - 3, 3)] else []))) \<subseteq> sent_places (MoveUpCreature new old)"
    unfolding MoveUpCreature_def Let_def pos sent_simps by simp_all blast+
  consider (north) "y = oy - 6 + (nz - z)" | (west) "y > oy - 6 + (nz - z)" "x = ox - 8 + (nz - z)" | (floor) "y > oy - 6 + (nz - z)" "x > ox - 8 + (nz - z)" using m by linarith
  then show ?thesis
  proof cases
    case north
    then show ?thesis using m z by (intro subsetD[OF parts(2)]) (auto simp: map_places_iff split: if_splits)
  next
    case west
    then show ?thesis using m z by (intro subsetD[OF parts(1)]) (auto simp: map_places_iff split: if_splits)
  next
    case floor
    then have hidden: "\<not> (if oz \<le> 7 then z \<le> 7 else \<bar>oz - z\<bar> \<le> 2)" using v(2) m z unfolding visible_iff by (auto simp: pos)
    have "(x, y, z) \<in> set (floor_places (ox - 8) (oy - 6) z 18 14 (nz - z + 1))" using m floor by (simp add: floor_places_iff)
    moreover have "nz = 7 \<and> z \<in> {0, 1, 2, 3, 4, 5} \<or> nz > 7 \<and> z = oz - 3" using hidden m z by (auto split: if_splits)
    ultimately show ?thesis using z by (intro subsetD[OF parts(3)]) auto
  qed
qed

lemma floor_down:
  assumes z: "nz = oz + 1" "0 \<le> oz" "nz \<le> 15" and mid: "pos_z mid = pos_z new" "uint (pos_z new) = nz" "pos_x mid = pos_x old" "pos_y mid = pos_y old" "uint (pos_z old) = oz"
    and v: "visible mid (x, y, z)" "\<not> visible old (x, y, z)"
  shows "(x, y, z) \<in> sent_places (MoveDownCreature new old)"
proof -
  define ox oy where "ox = uint (pos_x old)" and "oy = uint (pos_y old)"
  note pos = mid ox_def[symmetric] oy_def[symmetric]
  have m: "0 \<le> z" "z \<le> 15" "if nz \<le> 7 then z \<le> 7 else \<bar>nz - z\<bar> \<le> 2" "ox - 8 + (nz - z) \<le> x" "x \<le> ox + 9 + (nz - z)" "oy - 6 + (nz - z) \<le> y" "y \<le> oy + 7 + (nz - z)"
    using v(1) unfolding visible_iff pos by simp_all
  have parts: "set (snd (0x66 :: u8, map_places (ox + 9) (oy - 7) nz 1 14)) \<subseteq> sent_places (MoveDownCreature new old)"
    "set (snd (0x67 :: u8, map_places (ox - 8) (oy + 7) nz 18 1)) \<subseteq> sent_places (MoveDownCreature new old)"
    "set (concat (map (\<lambda>(f, offset). floor_places (ox - 8) (oy - 6) f 18 14 offset)
       (if nz = 8 then [(nz, - 1), (nz + 1, - 2), (nz + 2, - 3)] else if nz > oz \<and> nz > 8 \<and> nz < 14 then [(nz + 2, - 3)] else []))) \<subseteq> sent_places (MoveDownCreature new old)"
    unfolding MoveDownCreature_def Let_def pos sent_simps by simp_all blast+
  consider (south) "y = oy + 7 + (nz - z)" | (east) "y < oy + 7 + (nz - z)" "x = ox + 9 + (nz - z)" | (floor) "y < oy + 7 + (nz - z)" "x < ox + 9 + (nz - z)" using m by linarith
  then show ?thesis
  proof cases
    case south
    then show ?thesis using m z by (intro subsetD[OF parts(2)]) (auto simp: map_places_iff split: if_splits)
  next
    case east
    then show ?thesis using m z by (intro subsetD[OF parts(1)]) (auto simp: map_places_iff split: if_splits)
  next
    case floor
    then have hidden: "\<not> (if oz \<le> 7 then z \<le> 7 else \<bar>oz - z\<bar> \<le> 2)" using v(2) m z unfolding visible_iff by (auto simp: pos)
    have "(x, y, z) \<in> set (floor_places (ox - 8) (oy - 6) z 18 14 (nz - z - 1))" using m floor by (simp add: floor_places_iff)
    moreover have "nz = 8 \<and> z \<in> {8, 9, 10} \<or> nz > 8 \<and> nz < 14 \<and> z = nz + 2" using hidden m z by (auto split: if_splits)
    ultimately show ?thesis using z by (intro subsetD[OF parts(3)]) auto
  qed
qed

text \<open>C15: When the player takes a step, also one that changes the floor, every place that he sees after it was
  visible before it or is in a part of the map that is sent with the step.\<close>

theorem step_keeps_view_complete:
  assumes "one_step old new" "uint (pos_z old) \<le> 15" "uint (pos_z new) \<le> 15"
  shows "{p. visible new p} \<subseteq> {p. visible old p} \<union> sent_places (sendMoveCreature_parts new old)"
proof
  fix p assume p: "p \<in> {p. visible new p}"
  obtain x y z where xyz: "p = (x, y, z)" by (cases p)
  define mid where "mid = Position (pos_x old) (pos_y old) (pos_z new)"
  let ?change = "if uint (pos_z new) > uint (pos_z old) then MoveDownCreature new old else if uint (pos_z new) < uint (pos_z old) then MoveUpCreature new old else []"
  have parts: "sendMoveCreature_parts new old = ?change @ sendMoveCreature_parts new mid"
    by (simp add: sendMoveCreature_parts_def mid_def Let_def)
  have step: "one_step mid new" using assms(1) by (simp add: one_step_def mid_def)
  have on_floor: "p \<in> sent_places (sendMoveCreature_parts new mid)" if "\<not> visible mid p"
    using step_same_floor[OF step, of x y z] that p assms(3) unfolding xyz by (simp add: mid_def)
  have change: "visible old p \<or> p \<in> sent_places ?change" if v: "visible mid p"
  proof -
    have z: "0 \<le> uint (pos_z old)" "0 \<le> uint (pos_z new)" by simp_all
    consider "uint (pos_z new) = uint (pos_z old)" | "uint (pos_z new) = uint (pos_z old) - 1" | "uint (pos_z new) = uint (pos_z old) + 1"
      using assms(1) unfolding one_step_def by linarith
    then show ?thesis
    proof cases
      case 1
      then show ?thesis using v by (simp add: visible_def canSee_def mid_def xyz Let_def)
    next
      case 2
      then show ?thesis using floor_up[OF 2 z(2) assms(2), of mid new old x y z] v unfolding xyz by (auto simp: mid_def)
    next
      case 3
      then show ?thesis using floor_down[OF 3 z(1) assms(3), of mid new old x y z] v unfolding xyz by (auto simp: mid_def)
    qed
  qed
  have "sent_places (sendMoveCreature_parts new old) = sent_places ?change \<union> sent_places (sendMoveCreature_parts new mid)"
    unfolding parts by (simp add: sent_places_def)
  then show "p \<in> {p. visible old p} \<union> sent_places (sendMoveCreature_parts new old)"
    using on_floor change by (cases "visible mid p") blast+
qed

theorem step_keeps_view_complete_witness:
  "{p. visible (Position 101 99 8) p} \<subseteq> {p. visible (Position 100 100 7) p} \<union> sent_places (sendMoveCreature_parts (Position 101 99 8) (Position 100 100 7))"
  using step_keeps_view_complete[of "Position 100 100 7" "Position 101 99 8"] by (simp add: one_step_def)

section \<open>Creatures that the client knows\<close>

text \<open>The unordered set is a list in the order of iteration; where the library inserts an element is the parameter
  \<open>ins\<close>. \<open>canSee\<close> of the creature with an id is the parameter \<open>see\<close>. The removed creature is not written when the creature is known.\<close>

definition checkCreatureAsKnown :: "(u32 \<Rightarrow> u32 list \<Rightarrow> u32 list) \<Rightarrow> (u32 \<Rightarrow> bool) \<Rightarrow> u32 \<Rightarrow> u32 list \<Rightarrow> bool \<times> u32 option \<times> u32 list" where
  "checkCreatureAsKnown ins see ident known =
     (if ident \<in> set known then (True, None, known)
      else let known = ins ident known in
        if length known > 1300 then
          (case find (\<lambda>c. \<not> see c) known of
             Some c \<Rightarrow> (False, Some c, remove1 c known)
           | None \<Rightarrow> (let c = (if known ! 0 = ident then known ! 1 else known ! 0) in (False, Some c, remove1 c known)))
        else (False, Some 0, known))"

text \<open>The client forgets the removed creature and remembers the new one.\<close>

definition client_knows :: "bool \<Rightarrow> u32 option \<Rightarrow> u32 \<Rightarrow> u32 set \<Rightarrow> u32 set" where
  "client_knows isKnown removed ident C = (if isKnown then C else insert ident (C - set_option removed))"

fun show_creatures :: "(u32 \<Rightarrow> u32 list \<Rightarrow> u32 list) \<Rightarrow> (u32 \<times> (u32 \<Rightarrow> bool)) list \<Rightarrow> u32 list \<Rightarrow> u32 set \<Rightarrow> u32 list \<times> u32 set \<times> bool" where
  "show_creatures ins [] known C = (known, C, True)"
| "show_creatures ins ((ident, see) # cs) known C =
     (let (isKnown, removed, known') = checkCreatureAsKnown ins see ident known;
          (k, c, ok) = show_creatures ins cs known' (client_knows isKnown removed ident C)
      in (k, c, ok \<and> (isKnown \<longrightarrow> ident \<in> C)))"

lemma known_step:
  assumes ins: "mset (ins i ks) = add_mset i (mset ks)" and i: "i \<noteq> 0" "see i" and ks: "distinct ks" "0 \<notin> set ks" "length ks \<le> 1300"
    and c: "checkCreatureAsKnown ins see i ks = (isKnown, removed, ks')"
  shows "distinct ks' \<and> 0 \<notin> set ks' \<and> length ks' \<le> 1300 \<and> (isKnown \<longleftrightarrow> i \<in> set ks) \<and> set ks' = client_knows isKnown removed i (set ks)"
proof (cases "i \<in> set ks")
  case False
  let ?k = "ins i ks"
  have k: "set ?k = insert i (set ks)" "length ?k = Suc (length ks)" using ins by (metis set_mset_add_mset_insert set_mset_mset, metis size_add_mset size_mset)
  then have dk: "distinct ?k" using ks(1) False by (metis card_insert_disjoint distinct_card card_distinct List.finite_set)
  have forget: "distinct (remove1 x ?k) \<and> 0 \<notin> set (remove1 x ?k) \<and> length (remove1 x ?k) \<le> 1300 \<and> set (remove1 x ?k) = insert i (set ks - {x})" if "x \<in> set ?k" "x \<noteq> i" for x
    using that k dk ks i(1) by (auto simp: length_remove1)
  have forgot: ?thesis if "checkCreatureAsKnown ins see i ks = (False, Some x, remove1 x ?k)" "x \<in> set ?k" "x \<noteq> i" for x
    using forget[OF that(2,3)] that(1) c False i(1) ks(2) by (simp add: client_knows_def)
  show ?thesis
  proof (cases "length ?k > 1300")
    case True
    show ?thesis
    proof (cases "find (\<lambda>c. \<not> see c) ?k")
      case None
      let ?x = "if ?k ! 0 = i then ?k ! 1 else ?k ! 0"
      have "?k ! 1 \<noteq> ?k ! 0" using nth_eq_iff_index_eq[OF dk, of 1 0] True by force
      moreover have "?k ! 0 \<in> set ?k" "?k ! 1 \<in> set ?k" using True by (auto intro!: nth_mem)
      ultimately have "?x \<in> set ?k \<and> ?x \<noteq> i" by auto
      moreover have "checkCreatureAsKnown ins see i ks = (False, Some ?x, remove1 ?x ?k)" using False True None by (simp add: checkCreatureAsKnown_def Let_def)
      ultimately show ?thesis using forgot[of ?x] by blast
    next
      case (Some x)
      then have "x \<in> set ?k" "x \<noteq> i" using i(2) by (auto simp: find_Some_iff)
      moreover have "checkCreatureAsKnown ins see i ks = (False, Some x, remove1 x ?k)" using False True Some by (simp add: checkCreatureAsKnown_def)
      ultimately show ?thesis using forgot[of x] by blast
    qed
  next
    case short: False
    then show ?thesis using c False k dk ks i(1) by (auto simp: checkCreatureAsKnown_def client_knows_def)
  qed
qed (use c ks in \<open>auto simp: checkCreatureAsKnown_def client_knows_def\<close>)

lemma known_run:
  assumes "\<And>i ks. mset (ins i ks) = add_mset i (mset ks)"
  shows "list_all (\<lambda>(i, see). i \<noteq> 0 \<and> see i) cs \<Longrightarrow> distinct ks \<Longrightarrow> 0 \<notin> set ks \<Longrightarrow> length ks \<le> 1300 \<Longrightarrow>
    (case show_creatures ins cs ks (set ks) of (k, C, ok) \<Rightarrow> set k = C \<and> length k \<le> 1300 \<and> ok)"
proof (induction cs arbitrary: ks)
  case (Cons c cs)
  obtain i see where c: "c = (i, see)" by (cases c)
  obtain isKnown removed ks' where s: "checkCreatureAsKnown ins see i ks = (isKnown, removed, ks')" by (cases "checkCreatureAsKnown ins see i ks")
  have k: "distinct ks'" "0 \<notin> set ks'" "length ks' \<le> 1300" "isKnown \<longleftrightarrow> i \<in> set ks" "client_knows isKnown removed i (set ks) = set ks'"
    using known_step[OF assms _ _ Cons.prems(2-4) s] Cons.prems(1) c by auto
  then show ?case using Cons.IH[OF _ k(1-3)] Cons.prems(1) s c by (auto split: prod.splits)
qed simp

text \<open>C18: However many creatures a client is shown, as long as each is visible when it is shown, the set that the
  server keeps is the set that the client keeps, it never exceeds 1300, and a creature is sent as known only when
  the client knows it.\<close>

theorem known_creatures_agree:
  assumes "\<And>i ks. mset (ins i ks) = add_mset i (mset ks)" and "list_all (\<lambda>(i, see). i \<noteq> 0 \<and> see i) cs"
  shows "case show_creatures ins cs [] {} of (known, C, ok) \<Rightarrow> set known = C \<and> length known \<le> 1300 \<and> ok"
  using known_run[OF assms, of "[]"] by simp

theorem known_creatures_agree_witness:
  "case show_creatures (#) [(7, \<lambda>c. True), (9, \<lambda>c. True), (7, \<lambda>c. c = 7)] [] {} of (known, C, ok) \<Rightarrow> set known = C \<and> length known \<le> 1300 \<and> ok"
  by (rule known_creatures_agree) simp_all

section \<open>Other creatures that move\<close>

text \<open>The messages about a creature other than the player: it leaves a place, it moves, or it appears.\<close>

datatype thing_message = Msg_remove position u8 | Msg_move position u8 position | Msg_add position u8

abbreviation sees :: "position \<Rightarrow> position \<Rightarrow> bool" where
  "sees myPos pos \<equiv> canSee myPos (uint (pos_x pos)) (uint (pos_y pos)) (uint (pos_z pos))"

definition RemoveTileThing :: "position \<Rightarrow> u32 \<Rightarrow> thing_message list" where
  "RemoveTileThing pos stackpos = (if stackpos \<ge> 10 then [] else [Msg_remove pos (ucast stackpos)])"

definition sendRemoveTileThing :: "position \<Rightarrow> position \<Rightarrow> u32 \<Rightarrow> thing_message list" where
  "sendRemoveTileThing myPos pos stackpos = (if \<not> sees myPos pos then [] else RemoveTileThing pos stackpos)"

definition sendAddCreature_other :: "position \<Rightarrow> position \<Rightarrow> int \<Rightarrow> thing_message list" where
  "sendAddCreature_other myPos pos stackpos =
     (if \<not> sees myPos pos then [] else if stackpos \<noteq> - 1 then [Msg_add pos (of_int stackpos)] else [])"

definition sendMoveCreature_other :: "position \<Rightarrow> position \<Rightarrow> int \<Rightarrow> position \<Rightarrow> int \<Rightarrow> bool \<Rightarrow> thing_message list" where
  "sendMoveCreature_other myPos newPos newStackPos oldPos oldStackPos teleport =
     (if sees myPos oldPos \<and> sees myPos newPos then
        if teleport \<or> (pos_z oldPos = 7 \<and> pos_z newPos \<ge> 8) \<or> oldStackPos \<ge> 10
        then sendRemoveTileThing myPos oldPos (of_int oldStackPos) @ sendAddCreature_other myPos newPos newStackPos
        else [Msg_move oldPos (of_int oldStackPos) newPos]
      else if sees myPos oldPos then sendRemoveTileThing myPos oldPos (of_int oldStackPos)
      else if sees myPos newPos then sendAddCreature_other myPos newPos newStackPos
      else [])"

text \<open>Where a client shows the creature.\<close>

fun client_tracks :: "thing_message list \<Rightarrow> position option \<Rightarrow> position option" where
  "client_tracks [] shown = shown"
| "client_tracks (Msg_remove p k # ms) shown = client_tracks ms (if shown = Some p then None else shown)"
| "client_tracks (Msg_move p k q # ms) shown = client_tracks ms (if shown = Some p then Some q else shown)"
| "client_tracks (Msg_add p k # ms) shown = client_tracks ms (Some p)"

lemma stackpos_word: "0 \<le> k \<Longrightarrow> k < 2 ^ 31 \<Longrightarrow> (of_int k :: u32) \<ge> 10 \<longleftrightarrow> k \<ge> 10"
proof -
  assume k: "0 \<le> k" "k < 2 ^ 31"
  then have "uint (of_int k :: u32) = k" by (simp add: uint_word_of_int_eq take_bit_int_eq_self)
  then show ?thesis by (simp add: word_le_def)
qed

text \<open>A client that shows another creature where it can see it shows it at its new position after a move when it
  can see that one, and no longer otherwise; a creature that was beyond the ten things of its tile was not shown.\<close>

theorem creature_move_tracked:
  assumes "0 \<le> oldStackPos" "oldStackPos < 2 ^ 31" "0 \<le> newStackPos"
  shows "client_tracks (sendMoveCreature_other myPos newPos newStackPos oldPos oldStackPos teleport)
      (if sees myPos oldPos \<and> oldStackPos < 10 then Some oldPos else None) =
    (if sees myPos newPos then Some newPos else None)"
  using assms stackpos_word[OF assms(1,2)]
  by (auto simp: sendMoveCreature_other_def sendRemoveTileThing_def sendAddCreature_other_def RemoveTileThing_def)

theorem creature_move_tracked_witness:
  "client_tracks (sendMoveCreature_other (Position 100 100 7) (Position 101 100 7) 1 (Position 200 100 7) 1 False) None = Some (Position 101 100 7)"
proof -
  have "\<not> sees (Position 100 100 7) (Position 200 100 7)" "sees (Position 100 100 7) (Position 101 100 7)" by (simp_all add: canSee_def)
  then show ?thesis using creature_move_tracked[of 1 1 "Position 100 100 7" "Position 101 100 7" "Position 200 100 7" False] by simp
qed

end
