(* ===== verification/Map_Spectators.thy ===== *)
theory Map_Spectators
  imports World_Map
begin

text \<open>
  The spectators of a position (\<open>Map::getSpectators\<close> and \<open>getSpectatorsInternal\<close> of \<open>src/src/map.cpp\<close>): the walk
  over the leaves that a view can touch, which follows the links of the leaves and searches the tree where a
  leaf is missing, the two caches, and the lists of creatures the leaves keep. Where a creature stands and
  whether it is a player are given by functions. The coordinates are computed in integers: the ranges are view
  ports, far from the limits of 32 bits.
\<close>

section \<open>The lists of a leaf\<close>

definition addCreature :: "(u32 \<Rightarrow> bool) \<Rightarrow> u32 \<Rightarrow> 't map_leaf \<Rightarrow> 't map_leaf" where
  "addCreature isPlayer c leaf =
     (let leaf = leaf\<lparr>creature_list := creature_list leaf @ [c]\<rparr>
      in if isPlayer c then leaf\<lparr>player_list := player_list leaf @ [c]\<rparr> else leaf)"

fun find_index :: "u32 \<Rightarrow> u32 list \<Rightarrow> nat option" where
  "find_index c [] = None"
| "find_index c (x # xs) = (if x = c then Some 0 else map_option Suc (find_index c xs))"

text \<open>\<open>*iter = list.back(); list.pop_back()\<close>; \<open>None\<close> when the assertion fails.\<close>

definition swap_remove :: "u32 \<Rightarrow> u32 list \<Rightarrow> u32 list option" where
  "swap_remove c xs = (case find_index c xs of None \<Rightarrow> None | Some i \<Rightarrow> Some (butlast (xs[i := last xs])))"

definition removeCreature :: "(u32 \<Rightarrow> bool) \<Rightarrow> u32 \<Rightarrow> 't map_leaf \<Rightarrow> 't map_leaf option" where
  "removeCreature isPlayer c leaf =
     Option.bind (swap_remove c (creature_list leaf)) (\<lambda>cs.
       let leaf = leaf\<lparr>creature_list := cs\<rparr>
       in if isPlayer c then Option.bind (swap_remove c (player_list leaf)) (\<lambda>ps. Some (leaf\<lparr>player_list := ps\<rparr>)) else Some leaf)"

text \<open>The part of \<open>Map::moveCreature\<close> that hands the creature over between leaves; a null leaf is an error.\<close>

definition switch_leaf :: "(u32 \<Rightarrow> bool) \<Rightarrow> u32 \<Rightarrow> position \<Rightarrow> position \<Rightarrow> 't world_map \<Rightarrow> 't world_map option" where
  "switch_leaf isPlayer c oldPos newPos m =
     (let leaf = getQTNode (pos_x oldPos) (pos_y oldPos) m; new_leaf = getQTNode (pos_x newPos) (pos_y newPos) m
      in if leaf \<noteq> new_leaf
         then Option.bind leaf (\<lambda>i. Option.bind new_leaf (\<lambda>j.
                Option.bind (removeCreature isPlayer c (leaves m i)) (\<lambda>l.
                  Some (upd_leaf j (addCreature isPlayer c) (upd_leaf i (\<lambda>_. l) m)))))
         else Some m)"

definition clearSpectatorCache :: "'t world_map \<Rightarrow> 't world_map" where
  "clearSpectatorCache m = m\<lparr>spectatorCache := Map.empty\<rparr>"

definition clearPlayersSpectatorCache :: "'t world_map \<Rightarrow> 't world_map" where
  "clearPlayersSpectatorCache m = m\<lparr>playersSpectatorCache := Map.empty\<rparr>"

text \<open>\<open>Tile::addThing\<close>, \<open>removeThing\<close> and \<open>internalAddThing\<close> empty the caches for a creature.\<close>

definition clear_caches_for :: "(u32 \<Rightarrow> bool) \<Rightarrow> u32 \<Rightarrow> 't world_map \<Rightarrow> 't world_map" where
  "clear_caches_for isPlayer c m =
     (let m = clearSpectatorCache m in if isPlayer c then clearPlayersSpectatorCache m else m)"

section \<open>Walking the leaves\<close>

record view_range =
  minRangeX :: int
  maxRangeX :: int
  minRangeY :: int
  maxRangeY :: int
  minRangeZ :: int
  maxRangeZ :: int

definition clamp16 :: "int \<Rightarrow> int" where
  "clamp16 v = min 0xFFFF (max 0 v)"

definition in_view :: "position \<Rightarrow> view_range \<Rightarrow> position \<Rightarrow> bool" where
  "in_view centerPos r cpos \<longleftrightarrow>
     (let min_y = uint (pos_y centerPos) + minRangeY r; min_x = uint (pos_x centerPos) + minRangeX r;
          max_y = uint (pos_y centerPos) + maxRangeY r; max_x = uint (pos_x centerPos) + maxRangeX r;
          offsetZ = getOffsetZ centerPos cpos
      in \<not> (minRangeZ r > uint (pos_z cpos) \<or> maxRangeZ r < uint (pos_z cpos)) \<and>
         \<not> (min_y + offsetZ > uint (pos_y cpos) \<or> max_y + offsetZ < uint (pos_y cpos) \<or>
            min_x + offsetZ > uint (pos_x cpos) \<or> max_x + offsetZ < uint (pos_x cpos)))"

definition node_list :: "bool \<Rightarrow> 't map_leaf \<Rightarrow> u32 list" where
  "node_list onlyPlayers leaf = (if onlyPlayers then player_list leaf else creature_list leaf)"

function spectator_row :: "'t world_map \<Rightarrow> bool \<Rightarrow> (u32 \<Rightarrow> bool) \<Rightarrow> int \<Rightarrow> int \<Rightarrow> int \<Rightarrow> nat option \<Rightarrow> u32 list \<Rightarrow> u32 list" where
  "spectator_row m onlyPlayers seen endx2 ny nx leaf spectators =
     (if nx \<le> endx2 then
        (case leaf of
           Some i \<Rightarrow> spectator_row m onlyPlayers seen endx2 ny (nx + 8) (leafE (leaves m i))
                       (spectators @ filter seen (node_list onlyPlayers (leaves m i)))
         | None \<Rightarrow> spectator_row m onlyPlayers seen endx2 ny (nx + 8)
                     (getLeafStatic (root m) (word_of_int (nx + 8)) (word_of_int ny)) spectators)
      else spectators)"
  by pat_completeness auto
termination by (relation "measure (\<lambda>(m, op, s, e, ny, nx, l, a). nat (e + 8 - nx))") auto

function spectator_rows :: "'t world_map \<Rightarrow> bool \<Rightarrow> (u32 \<Rightarrow> bool) \<Rightarrow> int \<Rightarrow> int \<Rightarrow> int \<Rightarrow> int \<Rightarrow> nat option \<Rightarrow> u32 list \<Rightarrow> u32 list" where
  "spectator_rows m onlyPlayers seen startx1 endx2 endy2 ny leaf spectators =
     (if ny \<le> endy2 then
        (let spectators = spectator_row m onlyPlayers seen endx2 ny startx1 leaf spectators
         in case leaf of
              Some i \<Rightarrow> spectator_rows m onlyPlayers seen startx1 endx2 endy2 (ny + 8) (leafS (leaves m i)) spectators
            | None \<Rightarrow> spectator_rows m onlyPlayers seen startx1 endx2 endy2 (ny + 8)
                        (getLeafStatic (root m) (word_of_int startx1) (word_of_int (ny + 8))) spectators)
      else spectators)"
  by pat_completeness auto
termination by (relation "measure (\<lambda>(m, op, s, x, e, ey, ny, l, a). nat (ey + 8 - ny))") auto

declare spectator_row.simps [simp del] spectator_rows.simps [simp del]

definition getSpectatorsInternal :: "(u32 \<Rightarrow> position) \<Rightarrow> position \<Rightarrow> view_range \<Rightarrow> bool \<Rightarrow> 't world_map \<Rightarrow> u32 list \<Rightarrow> u32 list" where
  "getSpectatorsInternal pos centerPos r onlyPlayers m spectators =
     (let minoffset = uint (pos_z centerPos) - maxRangeZ r;
          x1 = clamp16 (uint (pos_x centerPos) + minRangeX r + minoffset);
          y1 = clamp16 (uint (pos_y centerPos) + minRangeY r + minoffset);
          maxoffset = uint (pos_z centerPos) - minRangeZ r;
          x2 = clamp16 (uint (pos_x centerPos) + maxRangeX r + maxoffset);
          y2 = clamp16 (uint (pos_y centerPos) + maxRangeY r + maxoffset);
          startx1 = x1 - x1 mod 8; starty1 = y1 - y1 mod 8; endx2 = x2 - x2 mod 8; endy2 = y2 - y2 mod 8
      in spectator_rows m onlyPlayers (\<lambda>c. in_view centerPos r (pos c)) startx1 endx2 endy2 starty1
           (getLeafStatic (root m) (word_of_int startx1) (word_of_int starty1)) spectators)"

section \<open>Ranges and caches\<close>

definition maxViewportX :: int where "maxViewportX = 11"
definition maxViewportY :: int where "maxViewportY = 11"

definition floor_range :: "position \<Rightarrow> bool \<Rightarrow> int \<times> int" where
  "floor_range centerPos multifloor =
     (let z = uint (pos_z centerPos)
      in if multifloor
         then if z > 7 then (max (z - 2) 0, min (z + 2) (int MAP_MAX_LAYERS - 1))
              else if z = 6 then (0, 8) else if z = 7 then (0, 9) else (0, 7)
         else (z, z))"

definition view_of :: "position \<Rightarrow> bool \<Rightarrow> int \<Rightarrow> int \<Rightarrow> int \<Rightarrow> int \<Rightarrow> view_range" where
  "view_of centerPos multifloor minX maxX minY maxY =
     \<lparr>minRangeX = (if minX = 0 then - maxViewportX else - minX), maxRangeX = (if maxX = 0 then maxViewportX else maxX),
      minRangeY = (if minY = 0 then - maxViewportY else - minY), maxRangeY = (if maxY = 0 then maxViewportY else maxY),
      minRangeZ = fst (floor_range centerPos multifloor), maxRangeZ = snd (floor_range centerPos multifloor)\<rparr>"

definition cacheable :: "view_range \<Rightarrow> bool \<Rightarrow> bool" where
  "cacheable r multifloor \<longleftrightarrow> minRangeX r = - maxViewportX \<and> maxRangeX r = maxViewportX \<and>
     minRangeY r = - maxViewportY \<and> maxRangeY r = maxViewportY \<and> multifloor"

definition cached_spectators :: "(u32 \<Rightarrow> bool) \<Rightarrow> bool \<Rightarrow> position \<Rightarrow> 't world_map \<Rightarrow> u32 list option" where
  "cached_spectators isPlayer onlyPlayers centerPos m =
     (case (if onlyPlayers then playersSpectatorCache m centerPos else None) of
        Some cached \<Rightarrow> Some cached
      | None \<Rightarrow> map_option (\<lambda>cached. if onlyPlayers then filter isPlayer cached else cached) (spectatorCache m centerPos))"

text \<open>Ranges are integers; the code has 32 bits for them, and its callers pass ranges of at most a few viewports.\<close>

definition getSpectators ::
    "(u32 \<Rightarrow> bool) \<Rightarrow> (u32 \<Rightarrow> position) \<Rightarrow> u32 list \<Rightarrow> position \<Rightarrow> bool \<Rightarrow> bool \<Rightarrow> int \<Rightarrow> int \<Rightarrow> int \<Rightarrow> int \<Rightarrow> 't world_map
      \<Rightarrow> u32 list \<times> 't world_map" where
  "getSpectators isPlayer pos spectators centerPos multifloor onlyPlayers minX maxX minY maxY m =
     (if unat (pos_z centerPos) \<ge> MAP_MAX_LAYERS then (spectators, m)
      else let r = view_of centerPos multifloor minX maxX minY maxY in
        case (if cacheable r multifloor then cached_spectators isPlayer onlyPlayers centerPos m else None) of
          Some cached \<Rightarrow> (spectators @ cached, m)
        | None \<Rightarrow>
            (let spectators = getSpectatorsInternal pos centerPos r onlyPlayers m spectators
             in (spectators,
                 if cacheable r multifloor
                 then if onlyPlayers then m\<lparr>playersSpectatorCache := (playersSpectatorCache m)(centerPos \<mapsto> spectators)\<rparr>
                      else m\<lparr>spectatorCache := (spectatorCache m)(centerPos \<mapsto> spectators)\<rparr>
                 else m)))"

definition addSpectators :: "u32 list \<Rightarrow> u32 list \<Rightarrow> u32 list" where
  "addSpectators vec spectators = vec @ filter (\<lambda>s. s \<notin> set vec) spectators"

text \<open>\<open>Map::moveCreature\<close> on the map: who is notified, and the creature in the leaves. The tiles and the
  notifications are not part of this model.\<close>

definition moveCreature ::
    "(u32 \<Rightarrow> bool) \<Rightarrow> (u32 \<Rightarrow> position) \<Rightarrow> u32 \<Rightarrow> position \<Rightarrow> 't world_map \<Rightarrow> (u32 list \<times> 't world_map) option" where
  "moveCreature isPlayer pos creature newPos m =
     (let oldPos = pos creature;
          (spectators, m) = getSpectators isPlayer pos [] oldPos True False 0 0 0 0 m;
          (newPosSpectators, m) = getSpectators isPlayer pos [] newPos True False 0 0 0 0 m;
          spectators = addSpectators spectators newPosSpectators;
          m = clear_caches_for isPlayer creature m
      in Option.bind (switch_leaf isPlayer creature oldPos newPos m)
           (\<lambda>m. Some (spectators, clear_caches_for isPlayer creature m)))"

text \<open>The end of \<open>Map::placeCreature\<close>, with the destination found, and \<open>Tile::removeCreature\<close>.\<close>

definition enter_map :: "(u32 \<Rightarrow> bool) \<Rightarrow> u32 \<Rightarrow> position \<Rightarrow> 't world_map \<Rightarrow> 't world_map option" where
  "enter_map isPlayer creature dest m =
     (let m = clear_caches_for isPlayer creature m
      in Option.bind (getQTNode (pos_x dest) (pos_y dest) m) (\<lambda>i. Some (upd_leaf i (addCreature isPlayer creature) m)))"

definition leave_map :: "(u32 \<Rightarrow> bool) \<Rightarrow> (u32 \<Rightarrow> position) \<Rightarrow> u32 \<Rightarrow> 't world_map \<Rightarrow> 't world_map option" where
  "leave_map isPlayer pos creature m =
     Option.bind (getQTNode (pos_x (pos creature)) (pos_y (pos creature)) m) (\<lambda>i.
       Option.bind (removeCreature isPlayer creature (leaves m i)) (\<lambda>l.
         Some (clear_caches_for isPlayer creature (upd_leaf i (\<lambda>_. l) m))))"

section \<open>The walk visits every block of the rectangle\<close>

function steps :: "int \<Rightarrow> int \<Rightarrow> int list" where
  "steps a e = (if a \<le> e then a # steps (a + 8) e else [])"
  by pat_completeness auto
termination by (relation "measure (\<lambda>(a, e). nat (e + 8 - a))") auto

declare steps.simps [simp del]

lemma steps_set: "k \<in> set (steps a e) \<longleftrightarrow> a \<le> k \<and> k \<le> e \<and> 8 dvd k - a"
proof (induction a e rule: steps.induct)
  case (1 a e)
  have "8 dvd k - (a + 8) \<longleftrightarrow> 8 dvd k - a" by presburger
  moreover have "k = a \<or> a + 8 \<le> k" if "8 dvd k - a" "a \<le> k" using that by presburger
  ultimately show ?case using 1 by (subst steps.simps) auto
qed

lemma steps_distinct: "distinct (steps a e)"
  by (induction a e rule: steps.induct) (subst steps.simps, auto simp: steps_set)

definition block_seen :: "'t world_map \<Rightarrow> bool \<Rightarrow> (u32 \<Rightarrow> bool) \<Rightarrow> int \<Rightarrow> int \<Rightarrow> u32 list" where
  "block_seen m onlyPlayers seen ny nx =
     (case getLeaf (root m) (word_of_int nx) (word_of_int ny) of
        Some i \<Rightarrow> filter seen (node_list onlyPlayers (leaves m i)) | None \<Rightarrow> [])"

lemma spectator_row_blocks:
  assumes inv: "map_inv m"
  shows "leaf = getLeaf (root m) (word_of_int nx) (word_of_int ny) \<Longrightarrow>
    spectator_row m op seen endx2 ny nx leaf acc = acc @ concat (map (block_seen m op seen ny) (steps nx endx2))"
proof (induction "nat (endx2 + 8 - nx)" arbitrary: nx leaf acc rule: less_induct)
  case less
  show ?case
  proof (cases "nx \<le> endx2")
    case True
    have IH: "spectator_row m op seen endx2 ny (nx + 8) (getLeaf (root m) (word_of_int (nx + 8)) (word_of_int ny)) acc' =
        acc' @ concat (map (block_seen m op seen ny) (steps (nx + 8) endx2))" for acc'
      using less(1)[of "nx + 8"] True by simp
    show ?thesis
    proof (cases leaf)
      case None
      then show ?thesis using True IH less.prems by (simp add: spectator_row.simps[of m op seen endx2 ny nx] steps.simps[of nx] block_seen_def map_invD(3)[OF inv])
    next
      case (Some i)
      then have leaf: "getLeaf (root m) (word_of_int nx) (word_of_int ny) = Some i" using less.prems by simp
      then have "leafE (leaves m i) = getLeaf (root m) (word_of_int (nx + 8)) (word_of_int ny)"
        using map_invD(6)[OF inv, of "word_of_int nx" "word_of_int ny" i] by simp
      then show ?thesis using True IH leaf Some by (simp add: spectator_row.simps[of m op seen endx2 ny nx] steps.simps[of nx] block_seen_def)
    qed
  qed (simp add: spectator_row.simps[of m op seen endx2 ny nx] steps.simps[of nx])
qed

lemma spectator_rows_blocks:
  assumes inv: "map_inv m"
  shows "leaf = getLeaf (root m) (word_of_int startx1) (word_of_int ny) \<Longrightarrow>
    spectator_rows m op seen startx1 endx2 endy2 ny leaf acc =
      acc @ concat (map (\<lambda>ny. concat (map (block_seen m op seen ny) (steps startx1 endx2))) (steps ny endy2))"
proof (induction "nat (endy2 + 8 - ny)" arbitrary: ny leaf acc rule: less_induct)
  case less
  show ?case
  proof (cases "ny \<le> endy2")
    case True
    note unf = spectator_rows.simps[of m op seen startx1 endx2 endy2 ny] steps.simps[of ny]
    have IH: "spectator_rows m op seen startx1 endx2 endy2 (ny + 8) (getLeaf (root m) (word_of_int startx1) (word_of_int (ny + 8))) acc' =
        acc' @ concat (map (\<lambda>ny. concat (map (block_seen m op seen ny) (steps startx1 endx2))) (steps (ny + 8) endy2))" for acc'
      using less(1)[of "ny + 8"] True by simp
    show ?thesis
    proof (cases leaf)
      case None
      then show ?thesis using True IH less.prems by (simp add: unf spectator_row_blocks[OF inv] map_invD(3)[OF inv])
    next
      case (Some i)
      then have leaf: "getLeaf (root m) (word_of_int startx1) (word_of_int ny) = Some i" using less.prems by simp
      then have "leafS (leaves m i) = getLeaf (root m) (word_of_int startx1) (word_of_int (ny + 8))"
        using map_invD(7)[OF inv, of "word_of_int startx1" "word_of_int ny" i] by simp
      then show ?thesis using True IH leaf Some by (simp add: unf spectator_row_blocks[OF inv])
    qed
  qed (simp add: spectator_rows.simps[of m op seen startx1 endx2 endy2 ny] steps.simps[of ny])
qed

section \<open>The creatures on the map\<close>

text \<open>The creatures of a leaf stand in its block, no leaf lists one twice, and the players of a leaf are those of
  its creatures that are players.\<close>

definition on_map :: "'t world_map \<Rightarrow> u32 \<Rightarrow> bool" where
  "on_map m c \<longleftrightarrow> (\<exists>x y i. getLeaf (root m) x y = Some i \<and> c \<in> set (creature_list (leaves m i)))"

definition placed :: "(u32 \<Rightarrow> bool) \<Rightarrow> (u32 \<Rightarrow> position) \<Rightarrow> 't world_map \<Rightarrow> bool" where
  "placed isPlayer pos m \<longleftrightarrow> (\<forall>x y i. getLeaf (root m) x y = Some i \<longrightarrow>
     distinct (creature_list (leaves m i)) \<and> distinct (player_list (leaves m i)) \<and>
     set (player_list (leaves m i)) = {c \<in> set (creature_list (leaves m i)). isPlayer c} \<and>
     (\<forall>c \<in> set (creature_list (leaves m i)). block (ucast (pos_x (pos c))) = block x \<and> block (ucast (pos_y (pos c))) = block y))"

lemma placedD:
  assumes "placed isPlayer pos m" "getLeaf (root m) x y = Some i"
  shows "distinct (creature_list (leaves m i))" "distinct (player_list (leaves m i))"
    "c \<in> set (player_list (leaves m i)) \<longleftrightarrow> c \<in> set (creature_list (leaves m i)) \<and> isPlayer c"
    "c \<in> set (creature_list (leaves m i)) \<Longrightarrow> block (ucast (pos_x (pos c))) = block x \<and> block (ucast (pos_y (pos c))) = block y"
  using assms unfolding placed_def by (metis, metis, metis (mono_tags, lifting) mem_Collect_eq, metis)

lemma node_list_placed:
  assumes "placed isPlayer pos m" "getLeaf (root m) x y = Some i"
  shows "distinct (node_list op (leaves m i))"
    "c \<in> set (node_list op (leaves m i)) \<longleftrightarrow> c \<in> set (creature_list (leaves m i)) \<and> (op \<longrightarrow> isPlayer c)"
  using placedD[OF assms] by (auto simp: node_list_def)

definition aligned16 :: "int \<Rightarrow> bool" where
  "aligned16 k \<longleftrightarrow> 0 \<le> k \<and> k < 65536 \<and> 8 dvd k"

lemma block_aligned: "aligned16 k \<Longrightarrow> block (word_of_int k) = k div 8"
proof -
  assume "aligned16 k"
  then have "0 \<le> k div 8 \<and> k div 8 < 8192" by (auto simp: aligned16_def dvd_def)
  then show ?thesis unfolding block_of_int by simp
qed

text \<open>The block that a creature stands in is met exactly once.\<close>

lemma block_seen_iff:
  assumes inv: "map_inv m" and pl: "placed isPlayer pos m" and al: "aligned16 ny" "aligned16 nx"
  shows "c \<in> set (block_seen m op seen ny nx) \<longleftrightarrow> on_map m c \<and> (op \<longrightarrow> isPlayer c) \<and> seen c \<and>
    nx = uint (pos_x (pos c)) div 8 * 8 \<and> ny = uint (pos_y (pos c)) div 8 * 8"
proof -
  let ?here = "nx = uint (pos_x (pos c)) div 8 * 8 \<and> ny = uint (pos_y (pos c)) div 8 * 8"
  have nums: "nx = nx div 8 * 8" "ny = ny div 8 * 8" using al by (simp_all add: aligned16_def)
  have here: "?here \<longleftrightarrow> block (ucast (pos_x (pos c))) = block (word_of_int nx) \<and> block (ucast (pos_y (pos c))) = block (word_of_int ny)"
    unfolding block_aligned[OF al(1)] block_aligned[OF al(2)] block_tile using nums by auto
  show ?thesis
  proof (cases "getLeaf (root m) (word_of_int nx) (word_of_int ny)")
    case None
    have "\<not> (on_map m c \<and> ?here)"
    proof
      assume "on_map m c \<and> ?here"
      then obtain x y i where i: "getLeaf (root m) x y = Some i" "c \<in> set (creature_list (leaves m i))" by (auto simp: on_map_def)
      then have "block x = block (word_of_int nx) \<and> block y = block (word_of_int ny)"
        using \<open>on_map m c \<and> ?here\<close> here placedD(4)[OF pl i(1) i(2)] by simp
      then show False using map_invD(8)[OF inv, of x "word_of_int nx" y "word_of_int ny"] i(1) None by simp
    qed
    then show ?thesis using None by (auto simp: block_seen_def)
  next
    case (Some i)
    have "c \<in> set (creature_list (leaves m i)) \<longleftrightarrow> on_map m c \<and> ?here"
    proof
      assume "c \<in> set (creature_list (leaves m i))"
      then show "on_map m c \<and> ?here" using placedD(4)[OF pl Some] Some here by (auto simp: on_map_def)
    next
      assume a: "on_map m c \<and> ?here"
      then obtain x y j where j: "getLeaf (root m) x y = Some j" "c \<in> set (creature_list (leaves m j))" by (auto simp: on_map_def)
      then have "getLeaf (root m) x y = getLeaf (root m) (word_of_int nx) (word_of_int ny)"
        using a here placedD(4)[OF pl j(1) j(2)] map_invD(8)[OF inv, of x "word_of_int nx" y "word_of_int ny"] by simp
      then show "c \<in> set (creature_list (leaves m i))" using j Some by simp
    qed
    then show ?thesis using node_list_placed(2)[OF pl Some, of c op] Some by (auto simp: block_seen_def)
  qed
qed

lemma block_seen_distinct: "placed isPlayer pos m \<Longrightarrow> distinct (block_seen m op seen ny nx)"
  by (auto simp: block_seen_def node_list_placed(1) split: option.split)

lemma distinct_concat_map:
  "distinct xs \<Longrightarrow> (\<And>x. x \<in> set xs \<Longrightarrow> distinct (f x)) \<Longrightarrow>
   (\<And>x y c. x \<in> set xs \<Longrightarrow> y \<in> set xs \<Longrightarrow> c \<in> set (f x) \<Longrightarrow> c \<in> set (f y) \<Longrightarrow> x = y) \<Longrightarrow> distinct (concat (map f xs))"
proof (induction xs)
  case (Cons x xs)
  have "distinct (concat (map f xs))" using Cons.IH Cons.prems by (simp add: Ball_def)
  moreover have "set (f x) \<inter> set (f y) = {}" if "y \<in> set xs" for y
    using Cons.prems(3)[of x y] Cons.prems(1) that by (metis disjoint_iff distinct.simps(2) list.set_intros)
  ultimately show ?case using Cons.prems(2)[of x] by auto
qed simp


lemma clamp16_bounds: "0 \<le> clamp16 v" "clamp16 v < 65536"
  by (simp_all add: clamp16_def)

definition block_steps :: "int \<Rightarrow> int \<Rightarrow> int list" where
  "block_steps a e = steps (clamp16 a - clamp16 a mod 8) (clamp16 e - clamp16 e mod 8)"

lemma block_steps_set: "k \<in> set (block_steps a e) \<longleftrightarrow> (\<exists>j. k = 8 * j \<and> clamp16 a div 8 \<le> j \<and> j \<le> clamp16 e div 8)"
proof -
  have "8 dvd k - 8 * p \<longleftrightarrow> 8 dvd k" for p :: int by presburger
  then show ?thesis unfolding block_steps_def steps_set minus_mod_eq_mult_div by (auto simp: dvd_def)
qed

lemma block_steps_aligned: "k \<in> set (block_steps a e) \<Longrightarrow> aligned16 k"
proof -
  assume "k \<in> set (block_steps a e)"
  then obtain j where j: "k = 8 * j" "clamp16 a div 8 \<le> j" "j \<le> clamp16 e div 8" by (auto simp: block_steps_set)
  moreover have "0 \<le> clamp16 a div 8" using clamp16_bounds[of a] by (simp add: pos_imp_zdiv_nonneg_iff)
  moreover have "8 * (clamp16 e div 8) < 65536" using clamp16_bounds[of e] by linarith
  ultimately show ?thesis by (simp add: aligned16_def)
qed

lemma block_steps_covers: "a \<le> v \<Longrightarrow> v \<le> e \<Longrightarrow> 0 \<le> v \<Longrightarrow> v < 65536 \<Longrightarrow> v div 8 * 8 \<in> set (block_steps a e)"
proof -
  assume "a \<le> v" "v \<le> e" "0 \<le> v" "v < 65536"
  then have "clamp16 a \<le> v" "v \<le> clamp16 e" by (auto simp: clamp16_def)
  then have "clamp16 a div 8 \<le> v div 8" "v div 8 \<le> clamp16 e div 8" by (auto intro: zdiv_mono1)
  then show ?thesis by (auto simp: block_steps_set)
qed

text \<open>The walk finds every creature in view once and no other.\<close>

definition view_columns :: "position \<Rightarrow> view_range \<Rightarrow> int list" where
  "view_columns p r = block_steps (uint (pos_x p) + minRangeX r + (uint (pos_z p) - maxRangeZ r)) (uint (pos_x p) + maxRangeX r + (uint (pos_z p) - minRangeZ r))"

definition view_rows :: "position \<Rightarrow> view_range \<Rightarrow> int list" where
  "view_rows p r = block_steps (uint (pos_y p) + minRangeY r + (uint (pos_z p) - maxRangeZ r)) (uint (pos_y p) + maxRangeY r + (uint (pos_z p) - minRangeZ r))"

lemma in_view_covered:
  assumes "in_view centerPos r p"
  shows "uint (pos_x p) div 8 * 8 \<in> set (view_columns centerPos r)" "uint (pos_y p) div 8 * 8 \<in> set (view_rows centerPos r)"
  unfolding view_columns_def view_rows_def
  by (rule block_steps_covers; use assms uint_bounded[of "pos_x p"] uint_bounded[of "pos_y p"] in \<open>simp add: in_view_def Let_def getOffsetZ_def\<close>)+

lemma getSpectatorsInternal_blocks:
  "map_inv m \<Longrightarrow> getSpectatorsInternal pos centerPos r op m acc =
     acc @ concat (map (\<lambda>ny. concat (map (block_seen m op (\<lambda>c. in_view centerPos r (pos c)) ny) (view_columns centerPos r))) (view_rows centerPos r))"
  by (simp only: getSpectatorsInternal_def Let_def spectator_rows_blocks map_invD(3) view_columns_def view_rows_def block_steps_def)

lemma getSpectatorsInternal_spec:
  assumes inv: "map_inv m" and pl: "placed isPlayer pos m"
  shows "\<exists>found. getSpectatorsInternal pos centerPos r op m acc = acc @ found \<and> distinct found \<and>
    set found = {c. on_map m c \<and> (op \<longrightarrow> isPlayer c) \<and> in_view centerPos r (pos c)}"
proof -
  let ?seen = "\<lambda>c. in_view centerPos r (pos c)"
  let ?f = "\<lambda>ny. concat (map (block_seen m op ?seen ny) (view_columns centerPos r))"
  have iff: "c \<in> set (block_seen m op ?seen ny nx) \<longleftrightarrow> on_map m c \<and> (op \<longrightarrow> isPlayer c) \<and> ?seen c \<and>
      nx = uint (pos_x (pos c)) div 8 * 8 \<and> ny = uint (pos_y (pos c)) div 8 * 8"
    if "nx \<in> set (view_columns centerPos r)" "ny \<in> set (view_rows centerPos r)" for c nx ny
    by (rule block_seen_iff[OF inv pl]) (use that in \<open>auto simp: view_columns_def view_rows_def intro: block_steps_aligned\<close>)
  have d: "distinct (view_columns centerPos r)" "distinct (view_rows centerPos r)"
    by (simp_all add: view_columns_def view_rows_def block_steps_def steps_distinct)
  have "distinct (?f y)" if "y \<in> set (view_rows centerPos r)" for y
  proof (rule distinct_concat_map[OF d(1)])
    show "x = x'" if "x \<in> set (view_columns centerPos r)" "x' \<in> set (view_columns centerPos r)"
      "c \<in> set (block_seen m op ?seen y x)" "c \<in> set (block_seen m op ?seen y x')" for x x' c
      using iff[OF that(1) \<open>y \<in> _\<close>] iff[OF that(2) \<open>y \<in> _\<close>] that(3,4) by simp
  qed (rule block_seen_distinct[OF pl])
  then have "distinct (concat (map ?f (view_rows centerPos r)))"
    by (rule distinct_concat_map[OF d(2)]) (auto simp: iff)
  moreover have "c \<in> set (concat (map ?f (view_rows centerPos r))) \<longleftrightarrow> on_map m c \<and> (op \<longrightarrow> isPlayer c) \<and> ?seen c" for c
  proof -
    have "c \<in> set (concat (map ?f (view_rows centerPos r))) \<longleftrightarrow>
        (\<exists>ny \<in> set (view_rows centerPos r). \<exists>nx \<in> set (view_columns centerPos r). c \<in> set (block_seen m op ?seen ny nx))" by auto
    also have "\<dots> \<longleftrightarrow> on_map m c \<and> (op \<longrightarrow> isPlayer c) \<and> ?seen c"
      using in_view_covered[of centerPos r "pos c"] by (simp add: iff cong: bex_cong) blast
    finally show ?thesis .
  qed
  ultimately show ?thesis unfolding getSpectatorsInternal_blocks[OF inv] by (intro exI conjI) (rule refl, auto)
qed

section \<open>The caches\<close>

text \<open>What the caches hold is what a fresh walk would find; order apart, since the two lists of a leaf are kept in
  different orders by \<open>removeCreature\<close>.\<close>

definition spectators_of :: "(u32 \<Rightarrow> bool) \<Rightarrow> (u32 \<Rightarrow> position) \<Rightarrow> 't world_map \<Rightarrow> bool \<Rightarrow> position \<Rightarrow> view_range \<Rightarrow> u32 set" where
  "spectators_of isPlayer pos m op centerPos r = {c. on_map m c \<and> (op \<longrightarrow> isPlayer c) \<and> in_view centerPos r (pos c)}"

definition default_view :: "position \<Rightarrow> view_range" where
  "default_view centerPos = view_of centerPos True 0 0 0 0"

definition cache_inv :: "(u32 \<Rightarrow> bool) \<Rightarrow> (u32 \<Rightarrow> position) \<Rightarrow> 't world_map \<Rightarrow> bool" where
  "cache_inv isPlayer pos m \<longleftrightarrow>
     (\<forall>p s. spectatorCache m p = Some s \<longrightarrow> distinct s \<and> set s = spectators_of isPlayer pos m False p (default_view p)) \<and>
     (\<forall>p s. playersSpectatorCache m p = Some s \<longrightarrow> distinct s \<and> set s = spectators_of isPlayer pos m True p (default_view p))"

lemma cached_spectators_spec:
  assumes "cache_inv isPlayer pos m" "cached_spectators isPlayer op p m = Some s"
  shows "distinct s \<and> set s = spectators_of isPlayer pos m op p (default_view p)"
  using assms by (auto simp: cached_spectators_def cache_inv_def spectators_of_def split: if_splits option.splits)

lemma cacheable_view: "cacheable (view_of p mf a b c d) mf \<Longrightarrow> view_of p mf a b c d = default_view p"
  by (simp add: cacheable_def view_of_def default_view_def)

lemma on_map_cache: "on_map (m\<lparr>spectatorCache := a\<rparr>) = on_map m" "on_map (m\<lparr>playersSpectatorCache := a\<rparr>) = on_map m"
  by (simp_all add: on_map_def fun_eq_iff)

text \<open>With caches that agree with the map, \<open>getSpectators\<close> started with an empty list returns each creature on
  the map that stands in the view, and with \<open>onlyPlayers\<close> each player, exactly once, whether the answer comes
  from a cache, from the other cache by filtering, or from the walk over the leaves; and the caches it leaves
  agree with the map again. The view is the rectangle shifted by one for every floor between.\<close>

lemma getSpectators_exact:
  assumes inv: "map_inv m" and pl: "placed isPlayer pos m" and cache: "cache_inv isPlayer pos m" and z: "unat (pos_z centerPos) < 16"
  shows "case getSpectators isPlayer pos [] centerPos multifloor onlyPlayers minX maxX minY maxY m of (found, m') \<Rightarrow>
    distinct found \<and> set found = spectators_of isPlayer pos m onlyPlayers centerPos (view_of centerPos multifloor minX maxX minY maxY) \<and>
    cache_inv isPlayer pos m'"
proof -
  let ?r = "view_of centerPos multifloor minX maxX minY maxY"
  define found where "found = getSpectatorsInternal pos centerPos ?r onlyPlayers m []"
  have walk: "distinct found" "set found = spectators_of isPlayer pos m onlyPlayers centerPos ?r"
    using getSpectatorsInternal_spec[OF inv pl, of centerPos ?r onlyPlayers "[]"] by (auto simp: spectators_of_def found_def)
  show ?thesis
  proof (cases "if cacheable ?r multifloor then cached_spectators isPlayer onlyPlayers centerPos m else None")
    case None
    then show ?thesis using walk cacheable_view[of centerPos multifloor minX maxX minY maxY] cache z
      by (auto simp: getSpectators_def Let_def MAP_MAX_LAYERS_def cache_inv_def spectators_of_def on_map_cache simp flip: found_def)
  next
    case (Some s)
    then show ?thesis using cached_spectators_spec[OF cache, of onlyPlayers centerPos s]
        cacheable_view[of centerPos multifloor minX maxX minY maxY] cache z
      by (auto simp: getSpectators_def Let_def MAP_MAX_LAYERS_def split: if_splits)
  qed
qed

section \<open>Handing creatures over\<close>

lemma find_index_Some: "find_index c xs = Some i \<Longrightarrow> i < length xs \<and> xs ! i = c"
  by (induction xs arbitrary: i) (auto split: if_splits)

lemma find_index_iff: "find_index c xs \<noteq> None \<longleftrightarrow> c \<in> set xs"
  by (induction xs) auto

lemma swap_remove_spec:
  assumes "c \<in> set xs" "distinct xs"
  obtains ys where "swap_remove c xs = Some ys" "distinct ys" "set ys = set xs - {c}"
proof -
  obtain i where i: "find_index c xs = Some i" using find_index_iff[of c xs] assms(1) by auto
  then have lt: "i < length xs" "xs ! i = c" using find_index_Some by auto
  obtain zs z where xs: "xs = zs @ [z]" using assms(1) by (cases xs rule: rev_cases) auto
  have "distinct (butlast (xs[i := last xs])) \<and> set (butlast (xs[i := last xs])) = set xs - {c}"
  proof (cases "i < length zs")
    case True
    then obtain us vs where "zs = us @ c # vs" "length us = i"
      using lt id_take_nth_drop[of i zs] by (metis xs length_take min.absorb4 nth_append)
    then show ?thesis using assms(2) by (auto simp: xs list_update_append butlast_append)
  next
    case False
    then have "i = length zs" "c = z" using lt by (auto simp: xs nth_append)
    then show ?thesis using assms(2) by (auto simp: xs)
  qed
  then show thesis using that i by (simp add: swap_remove_def)
qed

text \<open>Giving a creature to the leaf of its position.\<close>

definition leaf_ok :: "(u32 \<Rightarrow> bool) \<Rightarrow> 't map_leaf \<Rightarrow> bool" where
  "leaf_ok isPlayer l \<longleftrightarrow> distinct (creature_list l) \<and> distinct (player_list l) \<and>
     set (player_list l) = {c \<in> set (creature_list l). isPlayer c}"

lemma placed_iff:
  "placed isPlayer pos m \<longleftrightarrow> (\<forall>x y i. getLeaf (root m) x y = Some i \<longrightarrow> leaf_ok isPlayer (leaves m i) \<and>
     (\<forall>c \<in> set (creature_list (leaves m i)). block (ucast (pos_x (pos c))) = block x \<and> block (ucast (pos_y (pos c))) = block y))"
  by (auto simp: placed_def leaf_ok_def)

lemma addCreature_leaf:
  assumes "leaf_ok isPlayer l" "c \<notin> set (creature_list l)"
  shows "leaf_ok isPlayer (addCreature isPlayer c l)" "set (creature_list (addCreature isPlayer c l)) = insert c (set (creature_list l))"
  using assms by (auto simp: leaf_ok_def addCreature_def Let_def)

lemma removeCreature_leaf:
  assumes "leaf_ok isPlayer l" "c \<in> set (creature_list l)"
  obtains l' where "removeCreature isPlayer c l = Some l'" "leaf_ok isPlayer l'" "set (creature_list l') = set (creature_list l) - {c}"
    "leafE l' = leafE l" "leafS l' = leafS l" "floors l' = floors l"
proof -
  have ok: "distinct (creature_list l)" "distinct (player_list l)" "set (player_list l) = {c \<in> set (creature_list l). isPlayer c}"
    using assms(1) by (auto simp: leaf_ok_def)
  obtain cs where cs: "swap_remove c (creature_list l) = Some cs" "distinct cs" "set cs = set (creature_list l) - {c}"
    using swap_remove_spec[OF assms(2) ok(1)] .
  show thesis
  proof (cases "isPlayer c")
    case True
    then obtain ps where "swap_remove c (player_list l) = Some ps" "distinct ps" "set ps = set (player_list l) - {c}"
      using swap_remove_spec[of c "player_list l"] ok assms(2) by auto
    then show thesis using that[of "l\<lparr>creature_list := cs, player_list := ps\<rparr>"] True cs ok(3)
      by (auto simp: removeCreature_def leaf_ok_def)
  next
    case False
    then show thesis using that[of "l\<lparr>creature_list := cs\<rparr>"] cs ok by (auto simp: removeCreature_def leaf_ok_def)
  qed
qed


definition switched :: "u32 \<Rightarrow> nat \<Rightarrow> nat \<Rightarrow> 't map_leaf \<Rightarrow> (u32 \<Rightarrow> bool) \<Rightarrow> 't world_map \<Rightarrow> 't world_map" where
  "switched c i j l isPlayer m = upd_leaf j (addCreature isPlayer c) (upd_leaf i (\<lambda>_. l) m)"

lemma switched_inv:
  assumes inv: "map_inv m" and l: "leafE l = leafE (leaves m i)" "leafS l = leafS (leaves m i)"
  shows "map_inv (switched c i j l isPlayer m)"
  unfolding switched_def
  using map_inv_cong[OF inv, of "upd_leaf j (addCreature isPlayer c) (upd_leaf i (\<lambda>_. l) m)"] map_invD(1)[OF inv] map_inv_shape[OF inv] l
  by (simp add: upd_leaf_def addCreature_def Let_def)

lemma home_leaf:
  assumes "map_inv m" "placed isPlayer pos m" "getLeaf (root m) x y = Some k" "c \<in> set (creature_list (leaves m k))"
  shows "getLeaf (root m) (ucast (pos_x (pos c))) (ucast (pos_y (pos c))) = Some k"
  using placedD(4)[OF assms(2-4)] map_invD(8)[OF assms(1), of "ucast (pos_x (pos c))" x "ucast (pos_y (pos c))" y] assms(3) by simp

lemma placed_blocks:
  assumes inv: "map_inv m" and ok: "\<And>x y k. getLeaf (root m) x y = Some k \<Longrightarrow> leaf_ok isPlayer (leaves m k)"
    and home: "\<And>x y k d. getLeaf (root m) x y = Some k \<Longrightarrow> d \<in> set (creature_list (leaves m k)) \<Longrightarrow>
      getLeaf (root m) (ucast (pos_x (pos d))) (ucast (pos_y (pos d))) = Some k"
  shows "placed isPlayer pos m"
  unfolding placed_iff using ok home map_invD(5)[OF inv] by blast

lemma switched_leaves:
  "root (switched c i j l isPlayer m) = root m"
  "i \<noteq> j \<Longrightarrow> leaves (switched c i j l isPlayer m) k = (if k = j then addCreature isPlayer c (leaves m j) else if k = i then l else leaves m k)"
  by (simp_all add: switched_def upd_leaf_def)

lemma switched_placed:
  assumes inv: "map_inv m" and pl: "placed isPlayer pos m" and i: "getLeaf (root m) (ucast (pos_x (pos c))) (ucast (pos_y (pos c))) = Some i"
    and c: "c \<in> set (creature_list (leaves m i))" and j: "getLeaf (root m) (ucast (pos_x newPos)) (ucast (pos_y newPos)) = Some j" "i \<noteq> j"
    and l: "leaf_ok isPlayer l" "set (creature_list l) = set (creature_list (leaves m i)) - {c}" "leafE l = leafE (leaves m i)" "leafS l = leafS (leaves m i)"
  shows "placed isPlayer (pos(c := newPos)) (switched c i j l isPlayer m)" "on_map (switched c i j l isPlayer m) d = on_map m d"
proof -
  let ?m = "switched c i j l isPlayer m"
  note lv = switched_leaves(2)[OF j(2), of c l isPlayer m]
  have home: "getLeaf (root m) x y = Some k \<Longrightarrow> d \<in> set (creature_list (leaves m k)) \<Longrightarrow>
      getLeaf (root m) (ucast (pos_x (pos d))) (ucast (pos_y (pos d))) = Some k" for x y k d by (rule home_leaf[OF inv pl])
  have ok: "leaf_ok isPlayer (leaves m k)" if "getLeaf (root m) x y = Some k" for x y k
    using pl that unfolding placed_iff by blast
  have notj: "c \<notin> set (creature_list (leaves m k))" if "getLeaf (root m) x y = Some k" "k \<noteq> i" for x y k using home[OF that(1)] i that(2) by auto
  have lists: "set (creature_list (leaves ?m k)) =
      (if k = j then insert c (set (creature_list (leaves m j))) else if k = i then set (creature_list (leaves m i)) - {c} else set (creature_list (leaves m k)))" for k
    using addCreature_leaf(2)[OF ok[OF j(1)] notj[OF j(1)]] j(2) by (simp add: lv l(2))
  show "placed isPlayer (pos(c := newPos)) ?m"
  proof (rule placed_blocks[OF switched_inv[OF inv l(3,4)]])
    fix x y k assume k: "getLeaf (root ?m) x y = Some k"
    then show "leaf_ok isPlayer (leaves ?m k)" using ok addCreature_leaf(1)[OF ok[OF j(1)] notj[OF j(1)]] j(2) l(1) by (auto simp: lv switched_leaves(1))
    fix d assume "d \<in> set (creature_list (leaves ?m k))"
    then show "getLeaf (root ?m) (ucast (pos_x ((pos(c := newPos)) d))) (ucast (pos_y ((pos(c := newPos)) d))) = Some k"
      using home[of x y k d] notj[of x y k] k j(1) unfolding lists switched_leaves(1) by (auto split: if_splits)
  qed
  show "on_map ?m d = on_map m d"
  proof (cases "d = c")
    case True
    have "on_map m c" "on_map ?m c" unfolding on_map_def lists switched_leaves(1) using i c j(1) by (blast, force)
    then show ?thesis using True by simp
  next
    case False
    then have "d \<in> set (creature_list (leaves ?m k)) \<longleftrightarrow> d \<in> set (creature_list (leaves m k))" for k by (simp add: lists)
    then show ?thesis by (simp add: on_map_def switched_leaves(1))
  qed
qed

text \<open>When a creature of the map moves between tiles of different blocks, \<open>removeCreature\<close> finds it in the old
  leaf (its assertions hold), and afterwards each leaf lists the creatures of its block again, with the mover
  at its new position, players included; nobody appears on the map or gets lost.\<close>

lemma switch_leaf_placed:
  assumes inv: "map_inv m" and pl: "placed isPlayer pos m" and c: "on_map m c"
    and new: "getQTNode (pos_x newPos) (pos_y newPos) m \<noteq> None"
  shows "\<exists>m'. switch_leaf isPlayer c (pos c) newPos m = Some m' \<and> map_inv m' \<and> placed isPlayer (pos(c := newPos)) m' \<and>
    (\<forall>d. on_map m' d = on_map m d) \<and> grid m' = grid m \<and>
    spectatorCache m' = spectatorCache m \<and> playersSpectatorCache m' = playersSpectatorCache m"
proof -
  obtain x y i where xyi: "getLeaf (root m) x y = Some i" and ci: "c \<in> set (creature_list (leaves m i))" using c by (auto simp: on_map_def)
  have i: "getLeaf (root m) (ucast (pos_x (pos c))) (ucast (pos_y (pos c))) = Some i" using home_leaf[OF inv pl xyi ci] .
  obtain j where j: "getLeaf (root m) (ucast (pos_x newPos)) (ucast (pos_y newPos)) = Some j"
    using new by (auto simp: getQTNode_def map_invD(3)[OF inv])
  have qt: "getQTNode (pos_x (pos c)) (pos_y (pos c)) m = Some i" "getQTNode (pos_x newPos) (pos_y newPos) m = Some j"
    using i j by (simp_all add: getQTNode_def map_invD(3)[OF inv])
  show ?thesis
  proof (cases "i = j")
    case True
    have "placed isPlayer (pos(c := newPos)) m"
    proof (rule placed_blocks[OF inv])
      show "leaf_ok isPlayer (leaves m k)" if "getLeaf (root m) x y = Some k" for x y k using pl that unfolding placed_iff by blast
      show "getLeaf (root m) (ucast (pos_x ((pos(c := newPos)) d))) (ucast (pos_y ((pos(c := newPos)) d))) = Some k"
        if "getLeaf (root m) x y = Some k" "d \<in> set (creature_list (leaves m k))" for x y k d
        using home_leaf[OF inv pl that] i j True by (cases "d = c") simp_all
    qed
    then show ?thesis using True inv qt by (simp add: switch_leaf_def)
  next
    case False
    have "leaf_ok isPlayer (leaves m i)" using pl xyi unfolding placed_iff by blast
    then obtain l where l: "removeCreature isPlayer c (leaves m i) = Some l" "leaf_ok isPlayer l" "set (creature_list l) = set (creature_list (leaves m i)) - {c}"
      "leafE l = leafE (leaves m i)" "leafS l = leafS (leaves m i)" "floors l = floors (leaves m i)" using removeCreature_leaf[OF _ ci] by metis
    have "grid (switched c i j l isPlayer m) = grid m"
      using l(6) by (auto simp: grid_def fun_eq_iff getTile_def switched_leaves(1) switched_def upd_leaf_def addCreature_def Let_def split: option.split)
    then show ?thesis using qt False l(1) switched_inv[OF inv l(4,5)] switched_placed[OF inv pl i ci j False l(2-5)]
      by (simp add: switch_leaf_def switched_def) (simp add: upd_leaf_def)
  qed
qed


section \<open>A move\<close>

definition map_state_inv :: "(u32 \<Rightarrow> bool) \<Rightarrow> (u32 \<Rightarrow> position) \<Rightarrow> 't world_map \<Rightarrow> bool" where
  "map_state_inv isPlayer pos m \<longleftrightarrow> map_inv m \<and> placed isPlayer pos m \<and> cache_inv isPlayer pos m"

lemma caches_irrelevant:
  assumes "root m' = root m" "leaves m' = leaves m" "next_leaf m' = next_leaf m"
  shows "map_inv m' = map_inv m" "placed isPlayer pos m' = placed isPlayer pos m" "on_map m' c = on_map m c" "grid m' = grid m"
    "getQTNode x y m' = getQTNode x y m"
  unfolding map_inv_def placed_def on_map_def grid_def getTile_def getQTNode_def assms by (rule refl)+

lemma getSpectators_frame:
  assumes "getSpectators isPlayer pos acc p mf op a b c d m = (found, m')"
  shows "root m' = root m" "leaves m' = leaves m" "next_leaf m' = next_leaf m"
  using assms by (auto simp: getSpectators_def Let_def split: if_splits option.splits)

lemma clear_caches_frame:
  "root (clear_caches_for isPlayer c m) = root m" "leaves (clear_caches_for isPlayer c m) = leaves m"
  "next_leaf (clear_caches_for isPlayer c m) = next_leaf m"
  by (simp_all add: clear_caches_for_def clearSpectatorCache_def clearPlayersSpectatorCache_def Let_def)

lemma getSpectators_keeps:
  assumes inv: "map_state_inv isPlayer pos m" and z: "unat (pos_z p) < 16"
  obtains found m' where "getSpectators isPlayer pos [] p mf op a b c d m = (found, m')" "map_state_inv isPlayer pos m'"
    "set found = spectators_of isPlayer pos m op p (view_of p mf a b c d)" "distinct found"
    "root m' = root m" "leaves m' = leaves m" "next_leaf m' = next_leaf m"
proof -
  obtain found m' where f: "getSpectators isPlayer pos [] p mf op a b c d m = (found, m')" by fastforce
  note frame = getSpectators_frame[OF f]
  show thesis using that[OF f _ _ _ frame] getSpectators_exact[of m isPlayer pos p op mf a b c d] inv z caches_irrelevant[OF frame] f
    by (simp add: map_state_inv_def)
qed

text \<open>Emptying the cache of the players only for players is enough: the players' cache does not know the others.\<close>

lemma clear_caches_inv:
  assumes cache: "cache_inv isPlayer pos m" and same: "\<And>d. d \<noteq> c \<Longrightarrow> on_map m' d = on_map m d"
    and pc: "playersSpectatorCache m' = playersSpectatorCache m \<or> playersSpectatorCache m' = Map.empty"
  shows "cache_inv isPlayer (pos(c := newPos)) (clear_caches_for isPlayer c m')"
proof (cases "isPlayer c")
  case False
  have "spectators_of isPlayer (pos(c := newPos)) (clearSpectatorCache m') True p r = spectators_of isPlayer pos m True p r" for p r
    using False by (auto simp: spectators_of_def clearSpectatorCache_def on_map_cache same)
  then show ?thesis using False cache pc
    by (auto simp: cache_inv_def clear_caches_for_def clearSpectatorCache_def)
qed (simp add: cache_inv_def clear_caches_for_def clearSpectatorCache_def clearPlayersSpectatorCache_def Let_def)


text \<open>From a map whose tree, leaf lists and caches are consistent, moving a creature to a position whose block
  exists succeeds: those notified are exactly the creatures that have the old or the new position in their view,
  each once; and the map it leaves is consistent again for the creatures' positions after the move, with the
  same creatures and the same tiles, although the players' cache is kept when the mover is not a player.\<close>

lemma moveCreature_consistent:
  assumes inv: "map_state_inv isPlayer pos m" and c: "on_map m c" and new: "getQTNode (pos_x newPos) (pos_y newPos) m \<noteq> None"
    and z: "unat (pos_z (pos c)) < 16" "unat (pos_z newPos) < 16"
  shows "\<exists>spectators m'. moveCreature isPlayer pos c newPos m = Some (spectators, m') \<and> distinct spectators \<and>
    set spectators = spectators_of isPlayer pos m False (pos c) (default_view (pos c)) \<union> spectators_of isPlayer pos m False newPos (default_view newPos) \<and>
    map_state_inv isPlayer (pos(c := newPos)) m' \<and> (\<forall>d. on_map m' d = on_map m d) \<and> grid m' = grid m"
proof -
  obtain f1 m1 where 1: "getSpectators isPlayer pos [] (pos c) True False 0 0 0 0 m = (f1, m1)" "map_state_inv isPlayer pos m1"
    "set f1 = spectators_of isPlayer pos m False (pos c) (default_view (pos c))" "distinct f1" and fr1: "root m1 = root m" "leaves m1 = leaves m" "next_leaf m1 = next_leaf m"
    using getSpectators_keeps[OF inv z(1)] unfolding default_view_def by metis
  obtain f2 m2 where 2: "getSpectators isPlayer pos [] newPos True False 0 0 0 0 m1 = (f2, m2)" "map_state_inv isPlayer pos m2"
    "set f2 = spectators_of isPlayer pos m1 False newPos (default_view newPos)" "distinct f2" and fr2: "root m2 = root m1" "leaves m2 = leaves m1" "next_leaf m2 = next_leaf m1"
    using getSpectators_keeps[OF 1(2) z(2)] unfolding default_view_def by metis
  let ?m3 = "clear_caches_for isPlayer c m2"
  have fr3: "root ?m3 = root m" "leaves ?m3 = leaves m" "next_leaf ?m3 = next_leaf m" using fr1 fr2 by (simp_all add: clear_caches_frame)
  note same = caches_irrelevant[OF fr3] caches_irrelevant[OF fr1]
  obtain m4 where 4: "switch_leaf isPlayer c (pos c) newPos ?m3 = Some m4" "map_inv m4" "placed isPlayer (pos(c := newPos)) m4"
    "\<And>d. on_map m4 d = on_map m d" "grid m4 = grid m" "playersSpectatorCache m4 = playersSpectatorCache ?m3"
    using switch_leaf_placed[of ?m3 isPlayer pos c newPos] inv c new by (auto simp: same map_state_inv_def)
  let ?m5 = "clear_caches_for isPlayer c m4"
  note same5 = caches_irrelevant[of ?m5 m4, OF clear_caches_frame]
  have "cache_inv isPlayer (pos(c := newPos)) ?m5"
  proof (rule clear_caches_inv)
    show "cache_inv isPlayer pos m2" using 2(2) by (simp add: map_state_inv_def)
    show "on_map m4 d = on_map m2 d" for d using 4(4) caches_irrelevant(3)[OF fr2] caches_irrelevant(3)[OF fr1] by simp
    show "playersSpectatorCache m4 = playersSpectatorCache m2 \<or> playersSpectatorCache m4 = Map.empty"
      using 4(6) by (simp add: clear_caches_for_def clearSpectatorCache_def clearPlayersSpectatorCache_def Let_def)
  qed
  then have "map_state_inv isPlayer (pos(c := newPos)) ?m5" using 4(2,3) by (simp add: map_state_inv_def same5)
  moreover have "moveCreature isPlayer pos c newPos m = Some (addSpectators f1 f2, ?m5)" using 1(1) 2(1) 4(1) by (simp add: moveCreature_def Let_def)
  moreover have "distinct (addSpectators f1 f2)" "set (addSpectators f1 f2) = set f1 \<union> set f2"
    using 1(4) 2(4) by (auto simp: addSpectators_def)
  ultimately show ?thesis using 1(3) 2(3) 4(4,5) by (simp add: same5 same(8) spectators_of_def)
qed

section \<open>Histories\<close>

text \<open>What the server does to the map: tiles are set, creatures enter at, move to and leave existing tiles, and
  spectators are asked for. A command whose precondition its callers do not meet is skipped; a null leaf or a
  failed assertion would be \<open>None\<close>.\<close>

datatype 't map_command =
  Set_Tile u16 u16 u8 't
| Enter u32 position
| Move u32 position
| Leave u32
| Query position bool bool int int int int

definition tile_at :: "position \<Rightarrow> 't world_map \<Rightarrow> bool" where
  "tile_at p m \<longleftrightarrow> getTile (pos_x p) (pos_y p) (pos_z p) m \<noteq> None"

fun map_exec1 :: "('t \<Rightarrow> 't \<Rightarrow> 't) \<Rightarrow> (u32 \<Rightarrow> bool) \<Rightarrow> 't map_command \<Rightarrow> (u32 \<Rightarrow> position) \<times> 't world_map \<Rightarrow> ((u32 \<Rightarrow> position) \<times> 't world_map) option" where
  "map_exec1 absorb isPlayer (Set_Tile x y z t) (pos, m) = Option.bind (setTile absorb x y z t m) (\<lambda>m. Some (pos, m))"
| "map_exec1 absorb isPlayer (Enter c p) (pos, m) =
     (if \<not> on_map m c \<and> tile_at p m then Option.bind (enter_map isPlayer c p m) (\<lambda>m. Some (pos(c := p), m)) else Some (pos, m))"
| "map_exec1 absorb isPlayer (Move c p) (pos, m) =
     (if on_map m c \<and> tile_at p m then Option.bind (moveCreature isPlayer pos c p m) (\<lambda>(_, m). Some (pos(c := p), m)) else Some (pos, m))"
| "map_exec1 absorb isPlayer (Leave c) (pos, m) =
     (if on_map m c then Option.bind (leave_map isPlayer pos c m) (\<lambda>m. Some (pos, m)) else Some (pos, m))"
| "map_exec1 absorb isPlayer (Query p mf op a b c d) (pos, m) = Some (pos, snd (getSpectators isPlayer pos [] p mf op a b c d m))"

definition map_exec :: "('t \<Rightarrow> 't \<Rightarrow> 't) \<Rightarrow> (u32 \<Rightarrow> bool) \<Rightarrow> 't map_command list \<Rightarrow> (u32 \<Rightarrow> position) \<times> 't world_map \<Rightarrow> ((u32 \<Rightarrow> position) \<times> 't world_map) option" where
  "map_exec absorb isPlayer = bind_all (map_exec1 absorb isPlayer)"

definition history_inv :: "(u32 \<Rightarrow> bool) \<Rightarrow> (u32 \<Rightarrow> position) \<Rightarrow> 't world_map \<Rightarrow> bool" where
  "history_inv isPlayer pos m \<longleftrightarrow> map_state_inv isPlayer pos m \<and> (\<forall>c. on_map m c \<longrightarrow> unat (pos_z (pos c)) < 16)"

lemma tile_at_leaf:
  assumes "map_inv m" "tile_at p m"
  obtains i where "unat (pos_z p) < 16" "getQTNode (pos_x p) (pos_y p) m = Some i" "getLeaf (root m) (ucast (pos_x p)) (ucast (pos_y p)) = Some i"
  using assms that
  by (auto simp: tile_at_def getTile_leaf getQTNode_def map_invD(3) MAP_MAX_LAYERS_def split: if_splits bind_splits)

text \<open>A change of one leaf's lists, with the caches emptied for the creature.\<close>

lemma one_leaf_inv:
  assumes inv: "map_inv m" and l: "leafE l = leafE (leaves m i)" "leafS l = leafS (leaves m i)"
  shows "map_inv (upd_leaf i (\<lambda>_. l) m)"
  using map_inv_cong[OF inv, of "upd_leaf i (\<lambda>_. l) m"] map_invD(1)[OF inv] map_inv_shape[OF inv] l by (simp add: upd_leaf_def)

lemma one_leaf_placed:
  assumes inv: "map_inv m" and pl: "placed isPlayer pos m" and l: "leafE l = leafE (leaves m i)" "leafS l = leafS (leaves m i)"
    and ok: "leaf_ok isPlayer l" and home: "\<And>d. d \<in> set (creature_list l) \<Longrightarrow> getLeaf (root m) (ucast (pos_x (pos' d))) (ucast (pos_y (pos' d))) = Some i"
    and others: "\<And>d k x y. getLeaf (root m) x y = Some k \<Longrightarrow> k \<noteq> i \<Longrightarrow> d \<in> set (creature_list (leaves m k)) \<Longrightarrow> pos' d = pos d"
  shows "placed isPlayer pos' (upd_leaf i (\<lambda>_. l) m)"
proof (rule placed_blocks[OF one_leaf_inv[OF inv l]])
  fix x y k assume k: "getLeaf (root (upd_leaf i (\<lambda>_. l) m)) x y = Some k"
  then show "leaf_ok isPlayer (leaves (upd_leaf i (\<lambda>_. l) m) k)" using ok pl unfolding placed_iff by (auto simp: upd_leaf_def)
  fix d assume "d \<in> set (creature_list (leaves (upd_leaf i (\<lambda>_. l) m) k))"
  then show "getLeaf (root (upd_leaf i (\<lambda>_. l) m)) (ucast (pos_x (pos' d))) (ucast (pos_y (pos' d))) = Some k"
    using home[of d] others[of x y k d] home_leaf[OF inv pl, of x y k d] k by (auto simp: upd_leaf_def split: if_splits)
qed


lemma clear_upd_leaf: "upd_leaf i F (clear_caches_for isPlayer c m) = clear_caches_for isPlayer c (upd_leaf i F m)"
  by (simp add: upd_leaf_def clear_caches_for_def clearSpectatorCache_def clearPlayersSpectatorCache_def Let_def)

lemma one_leaf_state:
  assumes st: "history_inv isPlayer pos m" and i: "getLeaf (root m) x y = Some i"
    and l: "leafE l = leafE (leaves m i)" "leafS l = leafS (leaves m i)" "leaf_ok isPlayer l"
    and home: "\<And>d. d \<in> set (creature_list l) \<Longrightarrow> getLeaf (root m) (ucast (pos_x ((pos(c := p)) d))) (ucast (pos_y ((pos(c := p)) d))) = Some i"
    and others: "\<And>k x y. getLeaf (root m) x y = Some k \<Longrightarrow> k \<noteq> i \<Longrightarrow> c \<notin> set (creature_list (leaves m k))"
    and set_l: "set (creature_list l) - {c} = set (creature_list (leaves m i)) - {c}"
    and z: "c \<in> set (creature_list l) \<Longrightarrow> unat (pos_z p) < 16"
  shows "history_inv isPlayer (pos(c := p)) (clear_caches_for isPlayer c (upd_leaf i (\<lambda>_. l) m))"
proof -
  let ?m = "upd_leaf i (\<lambda>_. l) m" and ?pos = "pos(c := p)"
  have inv: "map_inv m" "placed isPlayer pos m" "cache_inv isPlayer pos m" "\<And>c. on_map m c \<Longrightarrow> unat (pos_z (pos c)) < 16"
    using st by (auto simp: history_inv_def map_state_inv_def)
  have "placed isPlayer ?pos ?m" by (rule one_leaf_placed[OF inv(1,2) l(1,2,3) home]) (use others in auto)
  moreover have on: "on_map ?m d = on_map m d" if "d \<noteq> c" for d
  proof -
    have "d \<in> set (creature_list l) \<longleftrightarrow> d \<in> set (creature_list (leaves m i))" using set_l that by blast
    then have "d \<in> set (creature_list (leaves ?m k)) \<longleftrightarrow> d \<in> set (creature_list (leaves m k))" for k by (simp add: upd_leaf_def)
    moreover have "root ?m = root m" by (simp add: upd_leaf_def)
    ultimately show ?thesis by (simp add: on_map_def)
  qed
  moreover have "cache_inv isPlayer ?pos (clear_caches_for isPlayer c ?m)" by (rule clear_caches_inv[OF inv(3) on]) (simp_all add: upd_leaf_def)
  moreover have "unat (pos_z (?pos d)) < 16" if "on_map ?m d" for d
  proof (cases "d = c")
    case True
    then have "c \<in> set (creature_list l)" using that others by (auto simp: on_map_def upd_leaf_def split: if_splits)
    then show ?thesis using z True by simp
  qed (use that on inv(4) in simp)
  ultimately show ?thesis unfolding history_inv_def map_state_inv_def
    using one_leaf_inv[OF inv(1) l(1,2)] by (simp add: caches_irrelevant[of "clear_caches_for isPlayer c ?m" ?m, OF clear_caches_frame])
qed

lemma enter_map_inv:
  assumes st: "history_inv isPlayer pos m" and c: "\<not> on_map m c" and t: "tile_at p m"
  shows "\<exists>m'. enter_map isPlayer c p m = Some m' \<and> history_inv isPlayer (pos(c := p)) m'"
proof -
  have inv: "map_inv m" "placed isPlayer pos m" using st by (auto simp: history_inv_def map_state_inv_def)
  obtain i where i: "unat (pos_z p) < 16" "getQTNode (pos_x p) (pos_y p) m = Some i" "getLeaf (root m) (ucast (pos_x p)) (ucast (pos_y p)) = Some i"
    using tile_at_leaf[OF inv(1) t] .
  let ?l = "addCreature isPlayer c (leaves m i)"
  have ok: "leaf_ok isPlayer (leaves m i)" using inv(2) i(3) unfolding placed_iff by blast
  have "c \<notin> set (creature_list (leaves m i))" using c i(3) by (auto simp: on_map_def)
  note l = addCreature_leaf[OF ok this]
  have "history_inv isPlayer (pos(c := p)) (clear_caches_for isPlayer c (upd_leaf i (\<lambda>_. ?l) m))"
  proof (rule one_leaf_state[OF st i(3)])
    show "leafE ?l = leafE (leaves m i)" "leafS ?l = leafS (leaves m i)" by (simp_all add: addCreature_def Let_def)
    show "getLeaf (root m) (ucast (pos_x ((pos(c := p)) d))) (ucast (pos_y ((pos(c := p)) d))) = Some i" if "d \<in> set (creature_list ?l)" for d
      using that home_leaf[OF inv i(3), of d] i(3) unfolding l(2) by (cases "d = c") auto
    show "c \<notin> set (creature_list (leaves m k))" if "getLeaf (root m) x y = Some k" for k x y using c that by (auto simp: on_map_def)
  qed (use l i(1) in auto)
  then show ?thesis using i(2) caches_irrelevant(5)[OF clear_caches_frame, of "pos_x p" "pos_y p" isPlayer c m]
    by (simp add: enter_map_def clear_upd_leaf) (simp add: upd_leaf_def)
qed

lemma leave_map_inv:
  assumes st: "history_inv isPlayer pos m" and c: "on_map m c"
  shows "\<exists>m'. leave_map isPlayer pos c m = Some m' \<and> history_inv isPlayer pos m'"
proof -
  have inv: "map_inv m" "placed isPlayer pos m" using st by (auto simp: history_inv_def map_state_inv_def)
  obtain x y i where xyi: "getLeaf (root m) x y = Some i" and ci: "c \<in> set (creature_list (leaves m i))" using c by (auto simp: on_map_def)
  have i: "getLeaf (root m) (ucast (pos_x (pos c))) (ucast (pos_y (pos c))) = Some i" using home_leaf[OF inv xyi ci] .
  have "leaf_ok isPlayer (leaves m i)" using inv(2) i unfolding placed_iff by blast
  then obtain l where l: "removeCreature isPlayer c (leaves m i) = Some l" "leaf_ok isPlayer l" "set (creature_list l) = set (creature_list (leaves m i)) - {c}"
      "leafE l = leafE (leaves m i)" "leafS l = leafS (leaves m i)" using removeCreature_leaf[OF _ ci] by metis
  have "history_inv isPlayer (pos(c := pos c)) (clear_caches_for isPlayer c (upd_leaf i (\<lambda>_. l) m))"
  proof (rule one_leaf_state[OF st i l(4,5,2)])
    show "getLeaf (root m) (ucast (pos_x ((pos(c := pos c)) d))) (ucast (pos_y ((pos(c := pos c)) d))) = Some i" if "d \<in> set (creature_list l)" for d
      using that home_leaf[OF inv i, of d] unfolding l(3) by simp
    show "c \<notin> set (creature_list (leaves m k))" if "getLeaf (root m) x y = Some k" "k \<noteq> i" for k x y using home_leaf[OF inv that(1)] i that(2) by auto
  qed (use l(3) in auto)
  then show ?thesis using i l(1) by (simp add: leave_map_def getQTNode_def map_invD(3)[OF inv(1)])
qed


lemma same_creatures_on_map: "same_creatures m m' \<Longrightarrow> on_map m' c \<longleftrightarrow> on_map m c"
proof
  assume s: "same_creatures m m'"
  show "on_map m' c" if "on_map m c" using that s unfolding on_map_def same_creatures_def by metis
  assume "on_map m' c"
  then obtain x y k where k: "getLeaf (root m') x y = Some k" "c \<in> set (creature_list (leaves m' k))" by (auto simp: on_map_def)
  then obtain k' where "getLeaf (root m) x y = Some k'" using s unfolding same_creatures_def by (cases "getLeaf (root m) x y") auto
  then show "on_map m c" using s k unfolding same_creatures_def on_map_def by (metis option.inject)
qed

lemma same_creatures_placed:
  assumes s: "same_creatures m m'" and pl: "placed isPlayer pos m"
  shows "placed isPlayer pos m'"
  unfolding placed_iff
proof (intro allI impI)
  fix x y k assume k: "getLeaf (root m') x y = Some k"
  show "leaf_ok isPlayer (leaves m' k) \<and> (\<forall>c \<in> set (creature_list (leaves m' k)). block (ucast (pos_x (pos c))) = block x \<and> block (ucast (pos_y (pos c))) = block y)"
  proof (cases "getLeaf (root m) x y")
    case None
    then have "creature_list (leaves m' k) = []" "player_list (leaves m' k) = []" using s k unfolding same_creatures_def by blast+
    then show ?thesis by (simp add: leaf_ok_def)
  next
    case (Some j)
    then have "j = k" "creature_list (leaves m' k) = creature_list (leaves m k)" "player_list (leaves m' k) = player_list (leaves m k)"
      using s k unfolding same_creatures_def by (metis option.inject)+
    then show ?thesis using pl Some unfolding placed_iff leaf_ok_def by simp
  qed
qed

lemma setTile_inv:
  assumes "history_inv isPlayer pos m"
  shows "\<exists>m'. setTile absorb x y z t m = Some m' \<and> history_inv isPlayer pos m'"
proof -
  have inv: "map_inv m" "placed isPlayer pos m" "cache_inv isPlayer pos m" using assms by (auto simp: history_inv_def map_state_inv_def)
  obtain m' where m': "setTile absorb x y z t m = Some m'" "map_inv m'" "same_creatures m m'" using setTile_grid[OF inv(1)] by metis
  note on = same_creatures_on_map[OF m'(3)]
  have "cache_inv isPlayer pos m'" using inv(3) m'(3) by (simp add: cache_inv_def same_creatures_def spectators_of_def on)
  then show ?thesis using assms m' same_creatures_placed[OF m'(3) inv(2)] by (simp add: history_inv_def map_state_inv_def on)
qed

lemma move_inv:
  assumes st: "history_inv isPlayer pos m" and c: "on_map m c" and t: "tile_at p m"
  shows "\<exists>s m'. moveCreature isPlayer pos c p m = Some (s, m') \<and> history_inv isPlayer (pos(c := p)) m'"
proof -
  have inv: "map_state_inv isPlayer pos m" "unat (pos_z (pos c)) < 16" using st c by (auto simp: history_inv_def)
  obtain i where i: "unat (pos_z p) < 16" "getQTNode (pos_x p) (pos_y p) m = Some i" using tile_at_leaf[OF _ t] inv(1) by (auto simp: map_state_inv_def)
  then obtain s m' where "moveCreature isPlayer pos c p m = Some (s, m')" "map_state_inv isPlayer (pos(c := p)) m'" "\<And>d. on_map m' d = on_map m d"
    using moveCreature_consistent[OF inv(1) c _ inv(2) i(1)] by auto
  then show ?thesis using st i(1) by (auto simp: history_inv_def)
qed

lemma query_inv:
  assumes st: "history_inv isPlayer pos m"
  shows "history_inv isPlayer pos (snd (getSpectators isPlayer pos [] p mf op a b c d m))"
proof (cases "unat (pos_z p) < 16")
  case True
  then obtain found m' where f: "getSpectators isPlayer pos [] p mf op a b c d m = (found, m')" "map_state_inv isPlayer pos m'"
    "root m' = root m" "leaves m' = leaves m" "next_leaf m' = next_leaf m"
    using getSpectators_keeps[of isPlayer pos m p] st unfolding history_inv_def by metis
  then show ?thesis using st caches_irrelevant(3)[OF f(3-5)] by (simp add: history_inv_def)
qed (use st in \<open>simp add: getSpectators_def MAP_MAX_LAYERS_def\<close>)

interpretation history: refined_store "\<lambda>(pos, m). history_inv isPlayer pos m" "\<lambda>_. ()" "map_exec1 absorb isPlayer" "\<lambda>_ _. ()" for absorb isPlayer
proof unfold_locales
  fix s :: "(u32 \<Rightarrow> position) \<times> 'a world_map" and cmd :: "'a map_command"
  assume inv: "case s of (pos, m) \<Rightarrow> history_inv isPlayer pos m"
  obtain pos m where s: "s = (pos, m)" by (cases s) auto
  then have st: "history_inv isPlayer pos m" using inv by simp
  have "\<exists>pos' m'. map_exec1 absorb isPlayer cmd (pos, m) = Some (pos', m') \<and> history_inv isPlayer pos' m'"
  proof (cases cmd)
    case (Set_Tile x y z t)
    then show ?thesis using setTile_inv[OF st, of absorb x y z t] by auto
  next
    case (Enter c p)
    then show ?thesis using enter_map_inv[OF st, of c p] st by auto
  next
    case (Move c p)
    then show ?thesis using move_inv[OF st, of c p] st by auto
  next
    case (Leave c)
    then show ?thesis using leave_map_inv[OF st, of c] st by auto
  next
    case (Query p mf op a b c d)
    then show ?thesis using query_inv[OF st] by simp
  qed
  then show "\<exists>s'. map_exec1 absorb isPlayer cmd s = Some s' \<and> (case s' of (pos, m) \<Rightarrow> history_inv isPlayer pos m) \<and> () = ()"
    unfolding s by auto
qed

lemma map_exec_inv:
  "history_inv isPlayer pos m \<Longrightarrow> \<exists>pos' m'. map_exec absorb isPlayer cs (pos, m) = Some (pos', m') \<and> history_inv isPlayer pos' m'"
  using history.puts_ok[of isPlayer "(pos, m)" absorb cs] by (simp add: map_exec_def)

lemma empty_history: "history_inv isPlayer pos empty_map"
proof -
  have "getLeaf (root empty_map) x y = None" for x y by (simp add: empty_map_def getLeaf_QNode get_child_def)
  then show ?thesis by (simp add: history_inv_def map_state_inv_def empty_map_inv placed_def on_map_def cache_inv_def)
    (simp add: empty_map_def)
qed

text \<open>C20: After any sequence of setting tiles, creatures entering, moving and leaving, and queries, from the empty
  map on, no leaf pointer was null and no assertion of \<open>removeCreature\<close> failed, and the map is consistent: the
  quad tree has its invariant, each leaf lists exactly the creatures standing in its block, players apart, and
  both caches agree with the map.\<close>

theorem map_history_consistent:
  "\<exists>pos m. map_exec absorb isPlayer commands (start, empty_map) = Some (pos, m) \<and> map_inv m \<and> placed isPlayer pos m \<and> cache_inv isPlayer pos m"
  using map_exec_inv[OF empty_history, of absorb isPlayer commands start] by (auto simp: history_inv_def map_state_inv_def)

text \<open>C3: After any such sequence \<open>getSpectators\<close> returns each creature of the map that stands in the view of the
  centre, and with \<open>onlyPlayers\<close> each such player, exactly once, whether it answers from a cache, from the other
  cache by filtering, or by walking over the leaves; for a centre above the sixteenth layer it returns nobody.\<close>

theorem spectators_exact:
  "\<exists>pos m found m'. map_exec absorb isPlayer commands (start, empty_map) = Some (pos, m) \<and>
     getSpectators isPlayer pos [] centerPos multifloor onlyPlayers minX maxX minY maxY m = (found, m') \<and> distinct found \<and>
     set found = (if unat (pos_z centerPos) < 16
       then {c. on_map m c \<and> (if onlyPlayers then isPlayer c else True) \<and> in_view centerPos (view_of centerPos multifloor minX maxX minY maxY) (pos c)} else {})"
proof -
  obtain pos m where m: "map_exec absorb isPlayer commands (start, empty_map) = Some (pos, m)" "history_inv isPlayer pos m"
    using map_exec_inv[OF empty_history] by metis
  have "map_state_inv isPlayer pos m" using m(2) by (simp add: history_inv_def)
  show ?thesis
  proof (cases "unat (pos_z centerPos) < 16")
    case True
    obtain found m' where "getSpectators isPlayer pos [] centerPos multifloor onlyPlayers minX maxX minY maxY m = (found, m')" "distinct found"
      "set found = spectators_of isPlayer pos m onlyPlayers centerPos (view_of centerPos multifloor minX maxX minY maxY)"
      using getSpectators_keeps[OF \<open>map_state_inv isPlayer pos m\<close> True] by metis
    then show ?thesis using m(1) True by (auto simp: spectators_of_def)
  next
    case False
    then show ?thesis using m(1) by (auto simp: getSpectators_def MAP_MAX_LAYERS_def)
  qed
qed

end
