(* ===== verification/Sight_Lines.thy ===== *)
theory Sight_Lines
  imports World_Map
begin

text \<open>
  Lines of sight (\<open>Map::checkSightLine\<close>, \<open>isSightClear\<close> and \<open>canThrowObjectTo\<close> of \<open>src/src/map.cpp\<close>): a walk from
  tile to tile that compares the distances of three candidate steps from the straight line, then a descent
  through the floors. Two predicates on tiles stand for \<open>hasProperty(CONST_PROP_BLOCKPROJECTILE)\<close> and
  \<open>getThingCount() > 0\<close>. The walk is a partial function, and that it ends is proved. The products are integers:
  callers pass positions that are close together, for which 32 bits are enough.
\<close>

section \<open>The walk\<close>

partial_function (option) sight_walk ::
    "(int \<Rightarrow> int \<Rightarrow> bool) \<Rightarrow> int \<Rightarrow> int \<Rightarrow> int \<Rightarrow> int \<Rightarrow> int \<Rightarrow> int \<Rightarrow> int \<Rightarrow> int \<Rightarrow> int \<Rightarrow> bool option" where
  "sight_walk blocked A B C mx my destx desty x y =
     (if x \<noteq> destx \<or> y \<noteq> desty then
        (let move_hor = \<bar>A * (x + mx) + B * y + C\<bar>;
             move_ver = \<bar>A * x + B * (y + my) + C\<bar>;
             move_cross = \<bar>A * (x + mx) + B * (y + my) + C\<bar>;
             y' = (if y \<noteq> desty \<and> (x = destx \<or> move_hor > move_ver \<or> move_hor > move_cross) then y + my else y);
             x' = (if x \<noteq> destx \<and> (y' = desty \<or> move_ver > move_hor \<or> move_ver > move_cross) then x + mx else x)
         in if blocked x' y' then Some False else sight_walk blocked A B C mx my destx desty x' y')
      else Some True)"

function floors_clear :: "(int \<Rightarrow> bool) \<Rightarrow> int \<Rightarrow> int \<Rightarrow> bool" where
  "floors_clear occupied z destz = (if z < destz then if occupied z then False else floors_clear occupied (z + 1) destz else True)"
  by pat_completeness auto
termination by (relation "measure (\<lambda>(f, z, d). nat (d - z))") auto

declare floors_clear.simps [simp del]

definition tile_test :: "('t \<Rightarrow> bool) \<Rightarrow> 't world_map \<Rightarrow> int \<Rightarrow> int \<Rightarrow> int \<Rightarrow> bool" where
  "tile_test P m x y z = (case getTile (word_of_int x) (word_of_int y) (word_of_int z) m of Some t \<Rightarrow> P t | None \<Rightarrow> False)"

definition sign :: "int \<Rightarrow> int \<Rightarrow> int" where
  "sign s d = (if s < d then 1 else if s = d then 0 else - 1)"

text \<open>Coordinates and products are integers without bound. They are those of the 32-bit code as long as the products stay in
  its range, beyond which the signed arithmetic of the code is undefined.\<close>

definition checkSightLine :: "('t \<Rightarrow> bool) \<Rightarrow> ('t \<Rightarrow> bool) \<Rightarrow> 't world_map \<Rightarrow> position \<Rightarrow> position \<Rightarrow> bool option" where
  "checkSightLine blocks occupied m fromPos toPos =
     (if fromPos = toPos then Some True
      else let start = (if pos_z fromPos > pos_z toPos then toPos else fromPos);
               destination = (if pos_z fromPos > pos_z toPos then fromPos else toPos);
               x = uint (pos_x start); y = uint (pos_y start); z = uint (pos_z start);
               destx = uint (pos_x destination); desty = uint (pos_y destination);
               A = getOffsetY destination start; B = getOffsetX start destination;
               C = - (A * destx + B * desty)
           in Option.bind (sight_walk (\<lambda>x y. tile_test blocks m x y z) A B C (sign x destx) (sign y desty) destx desty x y)
                (\<lambda>clear. Some (clear \<and> floors_clear (tile_test occupied m destx desty) z (uint (pos_z destination)))))"

text \<open>\<open>a || b\<close> does not evaluate \<open>b\<close> when \<open>a\<close> is true.\<close>

definition isSightClear :: "('t \<Rightarrow> bool) \<Rightarrow> ('t \<Rightarrow> bool) \<Rightarrow> 't world_map \<Rightarrow> position \<Rightarrow> position \<Rightarrow> bool \<Rightarrow> bool option" where
  "isSightClear blocks occupied m fromPos toPos floorCheck =
     (if floorCheck \<and> pos_z fromPos \<noteq> pos_z toPos then Some False
      else Option.bind (checkSightLine blocks occupied m fromPos toPos)
             (\<lambda>b. if b then Some True else checkSightLine blocks occupied m toPos fromPos))"

definition canThrowObjectTo ::
    "('t \<Rightarrow> bool) \<Rightarrow> ('t \<Rightarrow> bool) \<Rightarrow> 't world_map \<Rightarrow> position \<Rightarrow> position \<Rightarrow> bool \<Rightarrow> int \<Rightarrow> int \<Rightarrow> bool option" where
  "canThrowObjectTo blocks occupied m fromPos toPos checkLineOfSight rangex rangey =
     (if (pos_z fromPos \<ge> 8 \<and> pos_z toPos < 8) \<or> (pos_z toPos \<ge> 8 \<and> pos_z fromPos < 8) then Some False
      else let deltaz = getDistanceZ fromPos toPos in
        if deltaz > 2 then Some False
        else if getDistanceX fromPos toPos - deltaz > rangex then Some False
        else if getDistanceY fromPos toPos - deltaz > rangey then Some False
        else if \<not> checkLineOfSight then Some True
        else isSightClear blocks occupied m fromPos toPos False)"

section \<open>The walk in steps along the line\<close>

text \<open>With \<open>p\<close> and \<open>q\<close> the numbers of steps taken in both directions out of \<open>a\<close> and \<open>b\<close>, the distance from the
  line is \<open>b p - a q\<close>, up to the sign and the length of the line.\<close>

definition sight_step :: "int \<Rightarrow> int \<Rightarrow> int \<times> int \<Rightarrow> int \<times> int" where
  "sight_step a b = (\<lambda>(p, q).
     let d = b * p - a * q; h = \<bar>d + b\<bar>; v = \<bar>d - a\<bar>; c = \<bar>d + b - a\<bar>;
         q' = (if q \<noteq> b \<and> (p = a \<or> h > v \<or> h > c) then q + 1 else q);
         p' = (if p \<noteq> a \<and> (q' = b \<or> v > h \<or> v > c) then p + 1 else p)
     in (p', q'))"

definition near :: "int \<Rightarrow> int \<Rightarrow> int \<times> int \<Rightarrow> bool" where
  "near a b = (\<lambda>(p, q). 0 \<le> p \<and> p \<le> a \<and> 0 \<le> q \<and> q \<le> b \<and> 2 * \<bar>b * p - a * q\<bar> \<le> max a b \<and> (a = b \<longrightarrow> p = q))"

lemma near_corner:
  assumes "near a b (p, q)" "(p, q) \<noteq> (a, b)"
  shows "b \<le> a \<Longrightarrow> p < a" "a \<le> b \<Longrightarrow> q < b"
proof -
  have n: "0 \<le> p" "p \<le> a" "0 \<le> q" "q \<le> b" "2 * \<bar>b * p - a * q\<bar> \<le> max a b" "a = b \<longrightarrow> p = q" using assms(1) by (auto simp: near_def)
  show "p < a" if "b \<le> a"
  proof (rule ccontr)
    assume "\<not> p < a"
    then have p: "p = a" "q < b" using n assms(2) by auto
    then have "a * 1 \<le> a * (b - q)" using n(1) by (intro mult_left_mono) auto
    then have "2 * a \<le> 2 * \<bar>b * p - a * q\<bar>" using p by (simp add: algebra_simps)
    then show False using n(5) that p n(3) by auto
  qed
  show "q < b" if "a \<le> b"
  proof (rule ccontr)
    assume "\<not> q < b"
    then have p: "q = b" "p < a" using n assms(2) by auto
    then have "b * 1 \<le> b * (a - p)" using n(3) by (intro mult_left_mono) auto
    then have "2 * b \<le> 2 * \<bar>b * p - a * q\<bar>" using p by (simp add: algebra_simps)
    then show False using n(5) that p n(1) by auto
  qed
qed

text \<open>The candidate that is taken is the one that ends nearest to the line.\<close>

lemma best_step:
  fixes a b d :: int
  assumes "0 \<le> b" "b \<le> a" "2 * \<bar>d\<bar> \<le> a"
  shows "\<bar>d + b\<bar> \<le> \<bar>d + b - a\<bar> \<Longrightarrow> 2 * \<bar>d + b\<bar> \<le> a" "d + b \<le> 0 \<Longrightarrow> 2 * \<bar>d + b\<bar> \<le> a"
    "\<bar>d + b\<bar> > \<bar>d - a\<bar> \<or> \<bar>d + b\<bar> > \<bar>d + b - a\<bar> \<Longrightarrow> 2 * \<bar>d + b - a\<bar> \<le> a"
  using assms by (auto simp: abs_if split: if_splits)

lemma best_step_sym:
  fixes a b d :: int
  assumes "0 \<le> a" "a \<le> b" "2 * \<bar>d\<bar> \<le> b"
  shows "\<bar>d - a\<bar> \<le> \<bar>d + b - a\<bar> \<Longrightarrow> 2 * \<bar>d - a\<bar> \<le> b" "d - a \<ge> 0 \<Longrightarrow> 2 * \<bar>d - a\<bar> \<le> b"
    "\<bar>d - a\<bar> > \<bar>d + b\<bar> \<or> \<bar>d - a\<bar> > \<bar>d + b - a\<bar> \<Longrightarrow> 2 * \<bar>d + b - a\<bar> \<le> b"
  using assms by (auto simp: abs_if split: if_splits)

text \<open>A step goes forward along the longer side and stays near the line.\<close>

lemma sight_step_near:
  assumes near: "near a b (p, q)" and ne: "(p, q) \<noteq> (a, b)" and s: "sight_step a b (p, q) = (p', q')"
  shows "near a b (p', q')" "p \<le> p' \<and> p' \<le> p + 1" "q \<le> q' \<and> q' \<le> q + 1" "b \<le> a \<Longrightarrow> p' = p + 1" "a \<le> b \<Longrightarrow> q' = q + 1"
proof -
  define d where "d = b * p - a * q"
  have n: "0 \<le> p" "p \<le> a" "0 \<le> q" "q \<le> b" "2 * \<bar>d\<bar> \<le> max a b" "a = b \<longrightarrow> p = q" using near by (auto simp: near_def d_def)
  have eqd: "a = b \<longrightarrow> d = 0" using n(6) by (simp add: d_def)
  have pa: "b \<le> a \<Longrightarrow> p < a" and qb: "a \<le> b \<Longrightarrow> q < b" using near_corner[OF near ne] by auto
  have q': "q' = (if q \<noteq> b \<and> (p = a \<or> \<bar>d + b\<bar> > \<bar>d - a\<bar> \<or> \<bar>d + b\<bar> > \<bar>d + b - a\<bar>) then q + 1 else q)"
    and p': "p' = (if p \<noteq> a \<and> (q' = b \<or> \<bar>d - a\<bar> > \<bar>d + b\<bar> \<or> \<bar>d - a\<bar> > \<bar>d + b - a\<bar>) then p + 1 else p)"
    using s by (auto simp: sight_step_def d_def Let_def)
  show range: "p \<le> p' \<and> p' \<le> p + 1" "q \<le> q' \<and> q' \<le> q + 1" by (simp_all add: p' q')
  show fw: "p' = p + 1" if "b \<le> a" using pa[OF that] n eqd that unfolding p' q' by (auto split: if_splits)
  show fw2: "q' = q + 1" if "a \<le> b" using qb[OF that] n eqd that unfolding q' by (auto split: if_splits)
  have d': "b * p' - a * q' = d + b * (p' - p) - a * (q' - q)" by (simp add: d_def algebra_simps)
  have "2 * \<bar>b * p' - a * q'\<bar> \<le> max a b"
  proof (cases "b \<le> a")
    case True
    have "b * (a - p) \<ge> b * 1" using pa[OF True] n by (intro mult_left_mono) auto
    then have qb': "q = b \<Longrightarrow> d + b \<le> 0" by (simp add: d_def algebra_simps)
    have d'': "b * p' - a * q' = d + b - (if q' = q then 0 else a)" using d' range fw[OF True] by (auto simp: algebra_simps q')
    have "2 * \<bar>d\<bar> \<le> a" "0 \<le> b" using n(3-5) True by auto
    note best = best_step[OF this(2) True this(1)]
    show ?thesis
    proof (cases "q < b \<and> (\<bar>d + b\<bar> > \<bar>d - a\<bar> \<or> \<bar>d + b\<bar> > \<bar>d + b - a\<bar>)")
      case both: True
      then have "q' \<noteq> q" using q' by auto
      then have "b * p' - a * q' = d + b - a" using d'' by simp
      moreover have "2 * \<bar>d + b - a\<bar> \<le> a" using best(3) both by blast
      ultimately show ?thesis using True by simp
    next
      case stay: False
      then have "q' = q" using q' pa[OF True] n(4) by auto
      then have "b * p' - a * q' = d + b" using d'' by simp
      moreover have "2 * \<bar>d + b\<bar> \<le> a" using best(1,2) qb' stay n(4) by (cases "q = b") auto
      ultimately show ?thesis using True by simp
    qed
  next
    case False
    then have ab: "a \<le> b" by simp
    have "a * (b - q) \<ge> a * 1" using qb[OF ab] n by (intro mult_left_mono) auto
    then have pa': "p = a \<Longrightarrow> d - a \<ge> 0" by (simp add: d_def algebra_simps)
    have last: "p + 1 = a" if "q + 1 = b" "p < a"
    proof (rule ccontr)
      assume "p + 1 \<noteq> a"
      then have "b * 2 \<le> b * (a - p)" using that(2) n by (intro mult_left_mono) auto
      moreover have "d = a - b * (a - p)" using that(1) by (simp add: d_def algebra_simps flip: that(1))
      ultimately have "d < - b" using False by linarith
      then show False using n(1,2,5) False by linarith
    qed
    have "d + b - a = 0" if "q + 1 = b" "p < a"
    proof -
      have "a = p + 1" "b = q + 1" using last[OF that] that by simp_all
      then show ?thesis unfolding d_def by (simp add: algebra_simps)
    qed
    moreover have d'': "b * p' - a * q' = d - a + (if p' = p then 0 else b)" using d' range fw2[OF ab] by (auto simp: algebra_simps p')
    have "2 * \<bar>d\<bar> \<le> b" "0 \<le> a" using n(1,2,5) False by auto
    note best = best_step_sym[OF this(2) ab this(1)]
    show ?thesis
    proof (cases "p < a \<and> (q + 1 = b \<or> \<bar>d - a\<bar> > \<bar>d + b\<bar> \<or> \<bar>d - a\<bar> > \<bar>d + b - a\<bar>)")
      case True
      then have "2 * \<bar>d + b - a\<bar> \<le> b" using best(3) calculation ab n(1,2) by fastforce
      moreover have "p' \<noteq> p" using True p' fw2[OF ab] by auto
      then have "b * p' - a * q' = d + b - a" using d'' by simp
      ultimately show ?thesis using False by (simp only: max_absorb2 linear not_le less_imp_le)
    next
      case stay: False
      then have "2 * \<bar>d - a\<bar> \<le> b" using best(1,2) pa' n(2) by (cases "p = a") auto
      moreover have "p' = p" using stay p' fw2[OF ab] n(2) by auto
      ultimately show ?thesis using d'' False by simp
    qed
  qed
  moreover have "p' \<le> a" "q' \<le> b" using n(2,4) p' q' by (simp_all split: if_splits)
  moreover have "p' = q'" if "a = b" using fw fw2 n(6) that by simp
  ultimately show "near a b (p', q')" using n(1,3) range by (simp add: near_def)
qed


text \<open>The walk of the code follows \<open>sight_step\<close>.\<close>

definition ray :: "int \<times> int \<Rightarrow> int \<times> int \<Rightarrow> int \<times> int \<Rightarrow> int \<times> int" where
  "ray = (\<lambda>(x0, y0) (mx, my) (p, q). (x0 + mx * p, y0 + my * q))"

definition direction_ok :: "int \<Rightarrow> int \<Rightarrow> bool" where
  "direction_ok m a \<longleftrightarrow> m = 1 \<or> m = - 1 \<or> m = 0 \<and> a = 0"

lemma sight_walk_step:
  assumes m: "direction_ok mx a" "direction_ok my b" and near: "near a b (p, q)"
    and line: "A = my * b" "B = - (mx * a)" "C = - (A * (x0 + mx * a) + B * (y0 + my * b))"
  shows "sight_walk blocked A B C mx my (x0 + mx * a) (y0 + my * b) (x0 + mx * p) (y0 + my * q) =
    (if (p, q) = (a, b) then Some True
     else case sight_step a b (p, q) of (p', q') \<Rightarrow>
       if blocked (x0 + mx * p') (y0 + my * q') then Some False
       else sight_walk blocked A B C mx my (x0 + mx * a) (y0 + my * b) (x0 + mx * p') (y0 + my * q'))"
proof -
  have e: "A * (x0 + mx * p + mx) + B * (y0 + my * q) + C = mx * my * (b * p - a * q + b)"
    "A * (x0 + mx * p) + B * (y0 + my * q + my) + C = mx * my * (b * p - a * q - a)"
    "A * (x0 + mx * p + mx) + B * (y0 + my * q + my) + C = mx * my * (b * p - a * q + b - a)"
    unfolding line by (simp_all add: algebra_simps)
  have pq: "0 \<le> p" "p \<le> a" "0 \<le> q" "q \<le> b" using near by (auto simp: near_def)
  obtain p' q' where s: "sight_step a b (p, q) = (p', q')" by fastforce
  define d where "d = b * p - a * q"
  have q': "q' = (if q \<noteq> b \<and> (p = a \<or> \<bar>d + b\<bar> > \<bar>d - a\<bar> \<or> \<bar>d + b\<bar> > \<bar>d + b - a\<bar>) then q + 1 else q)"
    and p': "p' = (if p \<noteq> a \<and> (q' = b \<or> \<bar>d - a\<bar> > \<bar>d + b\<bar> \<or> \<bar>d - a\<bar> > \<bar>d + b - a\<bar>) then p + 1 else p)"
    using s by (auto simp: sight_step_def d_def Let_def)
  have mm: "mx = 0 \<Longrightarrow> a = 0 \<and> p = 0" "my = 0 \<Longrightarrow> b = 0 \<and> q = 0" using m pq by (auto simp: direction_ok_def)
  then have ne: "x0 + mx * p = x0 + mx * a \<longleftrightarrow> p = a" "y0 + my * q = y0 + my * b \<longleftrightarrow> q = b" "y0 + my * q' = y0 + my * b \<longleftrightarrow> q' = b"
    by (auto simp: q')
  have unit: "\<bar>mx * my * z\<bar> = \<bar>z\<bar>" if "mx \<noteq> 0" "my \<noteq> 0" for z using m that by (auto simp: direction_ok_def abs_mult)
  have lin: "my * (q + 1) = my * q + my" "mx * (p + 1) = mx * p + mx" by (simp_all add: algebra_simps)
  have Y: "(if y0 + my * q \<noteq> y0 + my * b \<and> (x0 + mx * p = x0 + mx * a \<or> \<bar>mx * my * (d + b)\<bar> > \<bar>mx * my * (d - a)\<bar> \<or>
      \<bar>mx * my * (d + b)\<bar> > \<bar>mx * my * (d + b - a)\<bar>) then y0 + my * q + my else y0 + my * q) = y0 + my * q'"
    unfolding ne using mm by (cases "mx = 0 \<or> my = 0") (auto simp: q' unit lin)
  have X: "(if x0 + mx * p \<noteq> x0 + mx * a \<and> (y0 + my * q' = y0 + my * b \<or> \<bar>mx * my * (d - a)\<bar> > \<bar>mx * my * (d + b)\<bar> \<or>
      \<bar>mx * my * (d - a)\<bar> > \<bar>mx * my * (d + b - a)\<bar>) then x0 + mx * p + mx else x0 + mx * p) = x0 + mx * p'"
  proof (cases "mx = 0 \<or> my = 0")
    case True
    then have "p = a \<or> q' = b" using mm by (auto simp: q')
    then show ?thesis unfolding ne p' by (auto simp: lin)
  next
    case False
    then show ?thesis unfolding ne p' unit[OF conjunct1 conjunct2, OF False[simplified] False[simplified]] by (simp add: lin)
  qed
  show ?thesis unfolding s prod.case
    by (subst sight_walk.simps, unfold e Let_def, fold d_def, unfold Y, unfold X, unfold ne) auto
qed


section \<open>The tiles a ray inspects\<close>

definition major :: "int \<Rightarrow> int \<Rightarrow> int \<times> int \<Rightarrow> int" where
  "major a b = (\<lambda>(p, q). if b \<le> a then p else q)"

lemma sight_walk_path:
  assumes m: "direction_ok mx a" "direction_ok my b"
    and line: "A = my * b" "B = - (mx * a)" "C = - (A * (x0 + mx * a) + B * (y0 + my * b))"
  shows "near a b (p, q) \<Longrightarrow> \<exists>path. int (length path) = max a b - major a b (p, q) \<and>
    last ((p, q) # path) = (a, b) \<and> (\<forall>k < length path. near a b (path ! k) \<and> major a b (path ! k) = major a b (p, q) + int k + 1) \<and>
    sight_walk blocked A B C mx my (x0 + mx * a) (y0 + my * b) (x0 + mx * p) (y0 + my * q) =
      Some (\<forall>(p, q) \<in> set path. \<not> blocked (x0 + mx * p) (y0 + my * q))"
proof (induction "nat (max a b - major a b (p, q))" arbitrary: p q)
  case 0
  then have "(p, q) = (a, b)" using near_corner[OF 0(2)] by (auto simp: major_def split: if_splits)
  then show ?case using sight_walk_step[OF m 0(2) line] by (intro exI[of _ "[]"]) (auto simp: major_def)
next
  case (Suc n)
  then have ne: "(p, q) \<noteq> (a, b)" by (auto simp: major_def)
  obtain p' q' where s: "sight_step a b (p, q) = (p', q')" by fastforce
  note st = sight_step_near[OF Suc(3) ne s]
  have maj: "major a b (p', q') = major a b (p, q) + 1" using st(4,5) by (auto simp: major_def)
  then have "n = nat (max a b - major a b (p', q'))" using Suc(2) by linarith
  then obtain path where path: "int (length path) = max a b - major a b (p', q')" "last ((p', q') # path) = (a, b)"
    "\<And>k. k < length path \<Longrightarrow> near a b (path ! k) \<and> major a b (path ! k) = major a b (p', q') + int k + 1"
    "sight_walk blocked A B C mx my (x0 + mx * a) (y0 + my * b) (x0 + mx * p') (y0 + my * q') =
      Some (\<forall>(p, q) \<in> set path. \<not> blocked (x0 + mx * p) (y0 + my * q))"
    using Suc(1)[OF _ st(1)] by blast
  have "near a b (((p', q') # path) ! k) \<and> major a b (((p', q') # path) ! k) = major a b (p, q) + int k + 1"
    if "k < length ((p', q') # path)" for k using path(3) st(1) maj that by (cases k) auto
  then show ?case using path(1,2,4) maj ne sight_walk_step[OF m Suc(3) line, of blocked] s
    by (intro exI[of _ "(p', q') # path"]) auto
qed

lemma floors_clear_iff: "floors_clear occupied z destz \<longleftrightarrow> (\<forall>k. z \<le> k \<and> k < destz \<longrightarrow> \<not> occupied k)"
proof (induction occupied z destz rule: floors_clear.induct)
  case (1 occupied z destz)
  have "(\<forall>k. z \<le> k \<and> k < destz \<longrightarrow> \<not> occupied k) \<longleftrightarrow> \<not> occupied z \<and> (\<forall>k. z + 1 \<le> k \<and> k < destz \<longrightarrow> \<not> occupied k)" if "z < destz"
    using that by (metis less_le linorder_not_less zless_add1_eq order_refl)
  then show ?case using 1 by (subst floors_clear.simps) auto
qed


lemma half_bound: "a \<le> x \<Longrightarrow> 2 * y \<le> a \<Longrightarrow> x \<le> y \<Longrightarrow> a \<le> 0" for a x y :: int
  by linarith

lemma near_major: "near a b (p, q) \<Longrightarrow> major a b (p, q) = max p q"
proof -
  assume "near a b (p, q)"
  then have n: "0 \<le> p" "p \<le> a" "0 \<le> q" "q \<le> b" "2 * \<bar>b * p - a * q\<bar> \<le> max a b" by (auto simp: near_def)
  have "q \<le> p" if "b \<le> a"
  proof (rule ccontr)
    assume "\<not> q \<le> p"
    then have "a * (p + 1) \<le> a * q" "b * p \<le> a * p" using n that by (intro mult_left_mono mult_right_mono; simp)+
    then have "a \<le> a * q - b * p" by (simp add: algebra_simps)
    moreover have "2 * \<bar>b * p - a * q\<bar> \<le> a" "a * q - b * p \<le> \<bar>b * p - a * q\<bar>" using n(5) that by simp_all
    ultimately have "a \<le> 0" by (rule half_bound)
    then show False using n(1) that \<open>\<not> q \<le> p\<close> n(4) by linarith
  qed
  moreover have "p \<le> q" if "a \<le> b"
  proof (rule ccontr)
    assume "\<not> p \<le> q"
    then have "b * (q + 1) \<le> b * p" "a * q \<le> b * q" using n that by (intro mult_left_mono mult_right_mono; simp)+
    then have "b \<le> b * p - a * q" by (simp add: algebra_simps)
    moreover have "2 * \<bar>b * p - a * q\<bar> \<le> b" "b * p - a * q \<le> \<bar>b * p - a * q\<bar>" using n(5) that by simp_all
    ultimately have "b \<le> 0" by (rule half_bound)
    then show False using n(3) that \<open>\<not> p \<le> q\<close> n(2) by linarith
  qed
  ultimately show ?thesis by (auto simp: major_def)
qed

definition sight_ends :: "position \<Rightarrow> position \<Rightarrow> position \<times> position" where
  "sight_ends fromPos toPos = (if pos_z fromPos > pos_z toPos then (toPos, fromPos) else (fromPos, toPos))"

lemma direction_sign: "direction_ok (sign s d) \<bar>d - s\<bar>" "s + sign s d * \<bar>d - s\<bar> = d" "sign s d * \<bar>d - s\<bar> = d - s"
  by (auto simp: direction_ok_def sign_def)

lemma ray_distance:
  assumes "direction_ok mx a" "direction_ok my b" "near a b (p, q)"
  shows "max \<bar>mx * p\<bar> \<bar>my * q\<bar> = major a b (p, q)" "\<bar>my * b * (mx * p) - mx * a * (my * q)\<bar> = \<bar>b * p - a * q\<bar>"
proof -
  have n: "0 \<le> p" "p \<le> a" "0 \<le> q" "q \<le> b" using assms(3) by (auto simp: near_def)
  then show "max \<bar>mx * p\<bar> \<bar>my * q\<bar> = major a b (p, q)"
    using assms(1,2) unfolding near_major[OF assms(3)] by (auto simp: direction_ok_def abs_mult)
  have "my * b * (mx * p) - mx * a * (my * q) = mx * my * (b * p - a * q)" by (simp add: algebra_simps)
  then show "\<bar>my * b * (mx * p) - mx * a * (my * q)\<bar> = \<bar>b * p - a * q\<bar>"
    using assms(1,2) n by (auto simp: direction_ok_def abs_mult)
qed

text \<open>A list of tiles that draws the line from \<open>s\<close> to \<open>d\<close>: one tile for each step along the longer side, in
  order, the last one at \<open>d\<close>, and none more than half a tile off the line.\<close>

definition raster :: "position \<Rightarrow> position \<Rightarrow> (int \<times> int) list \<Rightarrow> bool" where
  "raster s d path \<longleftrightarrow> int (length path) = max (getDistanceX s d) (getDistanceY s d) \<and>
    last ((uint (pos_x s), uint (pos_y s)) # path) = (uint (pos_x d), uint (pos_y d)) \<and>
    (\<forall>k < length path. case path ! k of (x, y) \<Rightarrow> max \<bar>x - uint (pos_x s)\<bar> \<bar>y - uint (pos_y s)\<bar> = int k + 1 \<and>
       2 * \<bar>getOffsetY d s * (x - uint (pos_x s)) - getOffsetX d s * (y - uint (pos_y s))\<bar> \<le> max (getDistanceX s d) (getDistanceY s d))"

lemma sight_line_path:
  assumes ends: "sight_ends fromPos toPos = (s, d)"
  shows "\<exists>path. raster s d path \<and> checkSightLine blocks occupied m fromPos toPos =
      Some ((\<forall>(x, y) \<in> set path. \<not> tile_test blocks m x y (uint (pos_z s))) \<and>
            (\<forall>z. uint (pos_z s) \<le> z \<and> z < uint (pos_z d) \<longrightarrow> \<not> tile_test occupied m (uint (pos_x d)) (uint (pos_y d)) z))"
proof -
  let ?x = "uint (pos_x s)" and ?y = "uint (pos_y s)" and ?X = "uint (pos_x d)" and ?Y = "uint (pos_y d)"
  let ?mx = "sign ?x ?X" and ?my = "sign ?y ?Y" and ?a = "\<bar>?X - ?x\<bar>" and ?b = "\<bar>?Y - ?y\<bar>"
  let ?A = "getOffsetY d s" and ?B = "getOffsetX s d" and ?blocked = "\<lambda>x y. tile_test blocks m x y (uint (pos_z s))"
  let ?C = "- (?A * (?x + ?mx * ?a) + ?B * (?y + ?my * ?b))"
  have line: "?A = ?my * ?b" "?B = - (?mx * ?a)" by (simp_all add: getOffsetX_def getOffsetY_def direction_sign(3))
  have dist: "getDistanceX s d = ?a" "getDistanceY s d = ?b" by (auto simp: distance_defs)
  have start: "near ?a ?b (0, 0)" "major ?a ?b (0, 0) = 0" by (auto simp: near_def major_def)
  note ok = direction_sign(1)[of ?x ?X] direction_sign(1)[of ?y ?Y]
  obtain path where path: "int (length path) = max ?a ?b" "last ((0, 0) # path) = (?a, ?b)"
    "\<And>k. k < length path \<Longrightarrow> near ?a ?b (path ! k) \<and> major ?a ?b (path ! k) = int k + 1"
    "sight_walk ?blocked ?A ?B ?C ?mx ?my ?X ?Y ?x ?y = Some (\<forall>(p, q) \<in> set path. \<not> ?blocked (?x + ?mx * p) (?y + ?my * q))"
    using sight_walk_path[OF ok line refl start(1), where ?x0.0 = ?x and ?y0.0 = ?y and blocked = ?blocked] unfolding start(2) direction_sign(2) by auto
  let ?tiles = "map (ray (?x, ?y) (?mx, ?my)) path"
  have check: "checkSightLine blocks occupied m fromPos toPos =
      Some ((\<forall>(x, y) \<in> set ?tiles. \<not> ?blocked x y) \<and> floors_clear (tile_test occupied m ?X ?Y) (uint (pos_z s)) (uint (pos_z d)))"
  proof (cases "fromPos = toPos")
    case True
    then have "s = d" using ends by (auto simp: sight_ends_def)
    then show ?thesis using True path(1) by (simp add: checkSightLine_def floors_clear.simps)
  next
    case False
    then have "checkSightLine blocks occupied m fromPos toPos =
        Option.bind (sight_walk ?blocked ?A ?B ?C ?mx ?my ?X ?Y ?x ?y)
          (\<lambda>clear. Some (clear \<and> floors_clear (tile_test occupied m ?X ?Y) (uint (pos_z s)) (uint (pos_z d))))"
      using ends unfolding direction_sign(2) by (auto simp: checkSightLine_def sight_ends_def Let_def split: if_splits)
    then show ?thesis unfolding path(4) by (auto simp: ray_def split_beta)
  qed
  have each: "case ?tiles ! k of (x, y) \<Rightarrow> max \<bar>x - ?x\<bar> \<bar>y - ?y\<bar> = int k + 1 \<and> 2 * \<bar>getOffsetY d s * (x - ?x) - getOffsetX d s * (y - ?y)\<bar> \<le> max ?a ?b"
    if k: "k < length ?tiles" for k
  proof -
    obtain p q where pq: "path ! k = (p, q)" by fastforce
    have n: "near ?a ?b (p, q)" "major ?a ?b (p, q) = int k + 1" using path(3)[of k] k pq by auto
    have off: "getOffsetX d s = ?mx * ?a" by (simp add: getOffsetX_def direction_sign(3))
    have tile: "?tiles ! k = (?x + ?mx * p, ?y + ?my * q)" using k pq by (simp add: ray_def)
    have "2 * \<bar>?b * p - ?a * q\<bar> \<le> max ?a ?b" using n(1) by (simp only: near_def prod.case)
    then show ?thesis unfolding tile prod.case off line add_diff_cancel_left' ray_distance[OF ok n(1)] n(2) by simp
  qed
  have "last ((?x, ?y) # ?tiles) = (?X, ?Y)"
    using path(2) by (cases path rule: rev_cases) (auto simp: ray_def direction_sign(2))
  then show ?thesis using path(1) each check unfolding raster_def dist floors_clear_iff by (intro exI[of _ ?tiles]) simp
qed


lemma checkSightLine_returns: "\<exists>clear. checkSightLine blocks occupied m fromPos toPos = Some clear"
  using sight_line_path[of fromPos toPos] by (cases "sight_ends fromPos toPos") blast

text \<open>C21: \<open>checkSightLine\<close> returns for any two positions, and it is true exactly when no tile of a drawn line from the
  upper position to the lower one, its end included and its start not, blocks projectiles, and no floor from the
  upper position down to the one above the lower position has anything on its tile at the end of the line. The
  drawn line has one tile for each step along its longer side and no tile more than half a tile off.\<close>

theorem sight_line_raster:
  assumes "sight_ends fromPos toPos = (s, d)"
  shows "\<exists>path clear. checkSightLine blocks occupied m fromPos toPos = Some clear \<and> raster s d path \<and>
    (clear \<longleftrightarrow> (\<forall>(x, y) \<in> set path. \<not> tile_test blocks m x y (uint (pos_z s))) \<and>
      (\<forall>z. uint (pos_z s) \<le> z \<and> z < uint (pos_z d) \<longrightarrow> \<not> tile_test occupied m (uint (pos_x d)) (uint (pos_y d)) z))"
  using sight_line_path[OF assms, of blocks occupied m] by blast

theorem sight_line_raster_witness:
  "\<exists>path clear. checkSightLine (\<lambda>t. t) (\<lambda>t. \<not> t) empty_map (Position 103 101 8) (Position 100 100 7) = Some clear \<and>
    raster (Position 100 100 7) (Position 103 101 8) path \<and>
    (clear \<longleftrightarrow> (\<forall>(x, y) \<in> set path. \<not> tile_test (\<lambda>t. t) empty_map x y 7) \<and>
      (\<forall>z. 7 \<le> z \<and> z < 8 \<longrightarrow> \<not> tile_test (\<lambda>t. \<not> t) empty_map 103 101 z))"
  using sight_line_raster[of "Position 103 101 8" "Position 100 100 7" "Position 100 100 7" "Position 103 101 8"
    "\<lambda>t. t" "\<lambda>t. \<not> t" empty_map] by (simp add: sight_ends_def)

text \<open>C38: Whether an object can be thrown does not depend on the direction: \<open>canThrowObjectTo\<close> returns for any two
  positions, with the same answer when they are exchanged, although \<open>checkSightLine\<close> draws a different line each
  way on one floor.\<close>

theorem canThrowObjectTo_symmetric:
  "\<exists>answer. canThrowObjectTo blocks occupied m fromPos toPos checkLineOfSight rangex rangey = Some answer \<and>
     canThrowObjectTo blocks occupied m toPos fromPos checkLineOfSight rangex rangey = Some answer"
proof -
  obtain a b where ab: "checkSightLine blocks occupied m fromPos toPos = Some a" "checkSightLine blocks occupied m toPos fromPos = Some b"
    using checkSightLine_returns by metis
  have "isSightClear blocks occupied m fromPos toPos False = Some (a \<or> b)" "isSightClear blocks occupied m toPos fromPos False = Some (a \<or> b)"
    using ab by (simp_all add: isSightClear_def)
  moreover have "getDistanceX toPos fromPos = getDistanceX fromPos toPos" "getDistanceY toPos fromPos = getDistanceY fromPos toPos"
    "getDistanceZ toPos fromPos = getDistanceZ fromPos toPos" by (simp_all add: distance_defs)
  ultimately show ?thesis by (auto simp: canThrowObjectTo_def Let_def)
qed

end
