(* ===== verification/Path_Finding.thy ===== *)
theory Path_Finding
  imports World_Position
begin

text \<open>
  Path finding (\<open>Map::getPathMatching\<close>, \<open>Map::canWalkTo\<close> and the class \<open>AStarNodes\<close> of \<open>src/src/map.cpp\<close>, and
  \<open>FrozenPathingConditionCall\<close> of \<open>creature.cpp\<close>). Nodes are indices into the array of 512, so that a parent
  pointer is an optional index. What the search asks of the creature and of the tiles is a record of functions.
  A dereference of a null tile is \<open>None\<close>, and both loops are partial functions; that they end, and that no null
  tile is met, is proved.
\<close>

section \<open>The node table\<close>

record astar_node =
  node_parent :: "nat option"
  node_f :: int
  node_x :: u16
  node_y :: u16

record astar_nodes =
  nodes :: "nat \<Rightarrow> astar_node"
  openNodes :: "nat \<Rightarrow> bool"
  nodeTable :: "u32 \<rightharpoonup> nat"
  curNode :: nat
  closedNodes :: int

definition MAX_NODES :: nat where "MAX_NODES = 512"
definition MAP_NORMALWALKCOST :: int where "MAP_NORMALWALKCOST = 10"
definition MAP_DIAGONALWALKCOST :: int where "MAP_DIAGONALWALKCOST = 25"

definition node_key :: "u16 \<Rightarrow> u16 \<Rightarrow> u32" where
  "node_key x y = push_bit 16 (ucast x) OR ucast y"

definition astar_init :: "u16 \<Rightarrow> u16 \<Rightarrow> astar_nodes" where
  "astar_init x y =
     \<lparr>nodes = (\<lambda>_. \<lparr>node_parent = None, node_f = 0, node_x = 0, node_y = 0\<rparr>)(0 := \<lparr>node_parent = None, node_f = 0, node_x = x, node_y = y\<rparr>),
      openNodes = (\<lambda>_. False)(0 := True), nodeTable = [node_key x y \<mapsto> 0], curNode = 1, closedNodes = 0\<rparr>"

definition createOpenNode :: "nat \<Rightarrow> u16 \<Rightarrow> u16 \<Rightarrow> int \<Rightarrow> astar_nodes \<Rightarrow> astar_nodes option" where
  "createOpenNode parent x y f ns =
     (if curNode ns \<ge> MAX_NODES then None
      else let retNode = curNode ns
           in Some (ns\<lparr>curNode := curNode ns + 1, openNodes := (openNodes ns)(retNode := True),
                       nodeTable := (nodeTable ns)(node_key x y \<mapsto> retNode),
                       nodes := (nodes ns)(retNode := \<lparr>node_parent = Some parent, node_f = f, node_x = x, node_y = y\<rparr>)\<rparr>))"

fun best_node :: "astar_nodes \<Rightarrow> nat list \<Rightarrow> int \<Rightarrow> nat option \<Rightarrow> nat option" where
  "best_node ns [] best_node_f best = best"
| "best_node ns (i # is) best_node_f best =
     (if openNodes ns i \<and> node_f (nodes ns i) < best_node_f then best_node ns is (node_f (nodes ns i)) (Some i)
      else best_node ns is best_node_f best)"

definition getBestNode :: "astar_nodes \<Rightarrow> nat option" where
  "getBestNode ns = best_node ns [0..<curNode ns] 2147483647 None"

definition closeNode :: "nat \<Rightarrow> astar_nodes \<Rightarrow> astar_nodes" where
  "closeNode i ns = ns\<lparr>openNodes := (openNodes ns)(i := False), closedNodes := closedNodes ns + 1\<rparr>"

definition openNode :: "nat \<Rightarrow> astar_nodes \<Rightarrow> astar_nodes" where
  "openNode i ns =
     (if \<not> openNodes ns i then ns\<lparr>openNodes := (openNodes ns)(i := True), closedNodes := closedNodes ns - 1\<rparr> else ns)"

definition getNodeByPosition :: "u16 \<Rightarrow> u16 \<Rightarrow> astar_nodes \<Rightarrow> nat option" where
  "getNodeByPosition x y ns = nodeTable ns (node_key x y)"

definition getMapWalkCost :: "astar_node \<Rightarrow> position \<Rightarrow> int" where
  "getMapWalkCost n p =
     (if \<bar>uint (node_x n) - uint (pos_x p)\<bar> = \<bar>uint (node_y n) - uint (pos_y p)\<bar> then MAP_DIAGONALWALKCOST else MAP_NORMALWALKCOST)"

section \<open>What the search asks\<close>

text \<open>\<open>tileAt\<close> is \<open>Map::getTile\<close>, \<open>walkCache\<close> \<open>Creature::getWalkCache\<close>, \<open>ownTile\<close> whether the creature stands on the
  tile, \<open>queryAdd_ok\<close> that \<open>Tile::queryAdd\<close> with the path finding flags returns no error. \<open>avoidedField\<close> is
  the condition of \<open>getTileWalkCost\<close> on a field that the creature neither resists nor is willing to cross.\<close>

record 't path_env =
  tileAt :: "position \<Rightarrow> 't option"
  walkCache :: "position \<Rightarrow> int"
  ownTile :: "'t \<Rightarrow> bool"
  queryAdd_ok :: "'t \<Rightarrow> bool"
  visibleCreature :: "'t \<Rightarrow> bool"
  avoidedField :: "'t \<Rightarrow> bool"
  sightClear :: "position \<Rightarrow> position \<Rightarrow> bool"

record find_path_params =
  fullPathSearch :: bool
  clearSight :: bool
  allowDiagonal :: bool
  keepDistance :: bool
  maxSearchDist :: int
  minTargetDist :: int
  maxTargetDist :: int

definition canWalkTo :: "'t path_env \<Rightarrow> position \<Rightarrow> 't option" where
  "canWalkTo env p =
     (if walkCache env p = 0 then None
      else if walkCache env p = 1 then tileAt env p
      else case tileAt env p of
             None \<Rightarrow> None
           | Some tile \<Rightarrow> if \<not> ownTile env tile \<and> \<not> queryAdd_ok env tile then None else Some tile)"

definition getTileWalkCost :: "'t path_env \<Rightarrow> 't \<Rightarrow> int" where
  "getTileWalkCost env tile =
     (if visibleCreature env tile then MAP_NORMALWALKCOST * 3 else 0) + (if avoidedField env tile then MAP_NORMALWALKCOST * 18 else 0)"

definition isInRange :: "position \<Rightarrow> position \<Rightarrow> position \<Rightarrow> find_path_params \<Rightarrow> bool" where
  "isInRange targetPos startPos testPos fpp =
     (let tx = uint (pos_x testPos); ty = uint (pos_y testPos); gx = uint (pos_x targetPos); gy = uint (pos_y targetPos);
          M = maxTargetDist fpp
      in if fullPathSearch fpp
         then \<not> tx > gx + M \<and> \<not> tx < gx - M \<and> \<not> ty > gy + M \<and> \<not> ty < gy - M
         else let dx = getOffsetX startPos targetPos; dy = getOffsetY startPos targetPos
              in \<not> tx > gx + (if dx \<ge> 0 then M else 0) \<and> \<not> tx < gx - (if dx \<le> 0 then M else 0) \<and>
                 \<not> ty > gy + (if dy \<ge> 0 then M else 0) \<and> \<not> ty < gy - (if dy \<le> 0 then M else 0))"

text \<open>\<open>operator()\<close>: the answer and the new \<open>bestMatchDist\<close>.\<close>

definition pathCondition :: "'t path_env \<Rightarrow> position \<Rightarrow> position \<Rightarrow> position \<Rightarrow> find_path_params \<Rightarrow> int \<Rightarrow> bool \<times> int" where
  "pathCondition env targetPos startPos testPos fpp bestMatchDist =
     (if \<not> isInRange targetPos startPos testPos fpp then (False, bestMatchDist)
      else if clearSight fpp \<and> \<not> sightClear env testPos targetPos then (False, bestMatchDist)
      else let testDist = max (getDistanceX targetPos testPos) (getDistanceY targetPos testPos) in
        if maxTargetDist fpp = 1
        then (if testDist < minTargetDist fpp \<or> testDist > maxTargetDist fpp then (False, bestMatchDist) else (True, bestMatchDist))
        else if testDist \<le> maxTargetDist fpp
        then (if testDist < minTargetDist fpp then (False, bestMatchDist)
              else if testDist = maxTargetDist fpp then (True, 0)
              else if testDist > bestMatchDist then (True, testDist) else (False, bestMatchDist))
        else (False, bestMatchDist))"

section \<open>The search\<close>

fun dirNeighbors :: "direction \<Rightarrow> (int \<times> int) list" where
  "dirNeighbors DIRECTION_NORTH = [(-1, 0), (0, 1), (1, 0), (1, 1), (-1, 1)]"
| "dirNeighbors DIRECTION_EAST = [(-1, 0), (0, 1), (0, -1), (-1, -1), (-1, 1)]"
| "dirNeighbors DIRECTION_SOUTH = [(-1, 0), (1, 0), (0, -1), (-1, -1), (1, -1)]"
| "dirNeighbors DIRECTION_WEST = [(0, 1), (1, 0), (0, -1), (1, -1), (1, 1)]"
| "dirNeighbors DIRECTION_SOUTHWEST = [(1, 0), (0, -1), (-1, -1), (1, -1), (1, 1)]"
| "dirNeighbors DIRECTION_SOUTHEAST = [(-1, 0), (0, -1), (-1, -1), (1, -1), (-1, 1)]"
| "dirNeighbors DIRECTION_NORTHWEST = [(0, 1), (1, 0), (1, -1), (1, 1), (-1, 1)]"
| "dirNeighbors DIRECTION_NORTHEAST = [(-1, 0), (0, 1), (-1, -1), (1, 1), (-1, 1)]"
| "dirNeighbors DIRECTION_NONE = []"

definition allNeighbors :: "(int \<times> int) list" where
  "allNeighbors = [(-1, 0), (0, 1), (1, 0), (0, -1), (-1, -1), (1, -1), (1, 1), (-1, 1)]"

definition neighbors_of :: "find_path_params \<Rightarrow> nat \<Rightarrow> astar_nodes \<Rightarrow> (int \<times> int) list" where
  "neighbors_of fpp n ns =
     (case node_parent (nodes ns n) of
        Some p \<Rightarrow>
          (let offset_x = uint (node_x (nodes ns p)) - uint (node_x (nodes ns n));
               offset_y = uint (node_y (nodes ns p)) - uint (node_y (nodes ns n))
           in take (if allowDiagonal fpp then 5 else 3) (dirNeighbors
                (if offset_y = 0 then if offset_x = - 1 then DIRECTION_WEST else DIRECTION_EAST
                 else if \<not> allowDiagonal fpp \<or> offset_x = 0 then if offset_y = - 1 then DIRECTION_NORTH else DIRECTION_SOUTH
                 else if offset_y = - 1 then if offset_x = - 1 then DIRECTION_NORTHWEST else DIRECTION_NORTHEAST
                 else if offset_x = - 1 then DIRECTION_SOUTHWEST else DIRECTION_SOUTHEAST)))
      | None \<Rightarrow> allNeighbors)"

definition node_pos :: "astar_nodes \<Rightarrow> u8 \<Rightarrow> nat \<Rightarrow> position" where
  "node_pos ns z i = Position (node_x (nodes ns i)) (node_y (nodes ns i)) z"

text \<open>The loop over the neighbours of node \<open>n\<close>: \<open>None\<close> for a null tile, \<open>Some (False, ns)\<close> where the code
  returns false.\<close>

fun visit_neighbors ::
    "'t path_env \<Rightarrow> find_path_params \<Rightarrow> position \<Rightarrow> position \<Rightarrow> bool \<Rightarrow> nat \<Rightarrow> (int \<times> int) list \<Rightarrow> astar_nodes \<Rightarrow> (bool \<times> astar_nodes) option" where
  "visit_neighbors env fpp targetPos startPos found n [] ns = Some (True, ns)"
| "visit_neighbors env fpp targetPos startPos found n ((ox, oy) # rest) ns =
     (let p = Position (node_x (nodes ns n) + word_of_int ox) (node_y (nodes ns n) + word_of_int oy) (pos_z startPos) in
      if maxSearchDist fpp \<noteq> 0 \<and> (getDistanceX startPos p > maxSearchDist fpp \<or> getDistanceY startPos p > maxSearchDist fpp)
      then visit_neighbors env fpp targetPos startPos found n rest ns
      else if keepDistance fpp \<and> \<not> isInRange targetPos startPos p fpp
      then visit_neighbors env fpp targetPos startPos found n rest ns
      else case getNodeByPosition (pos_x p) (pos_y p) ns of
        Some i \<Rightarrow>
          (case tileAt env p of
             None \<Rightarrow> None
           | Some tile \<Rightarrow>
               (let newf = node_f (nodes ns n) + getMapWalkCost (nodes ns n) p + getTileWalkCost env tile
                in if node_f (nodes ns i) \<le> newf then visit_neighbors env fpp targetPos startPos found n rest ns
                   else visit_neighbors env fpp targetPos startPos found n rest
                          (openNode i (ns\<lparr>nodes := (nodes ns)(i := (nodes ns i)\<lparr>node_f := newf, node_parent := Some n\<rparr>)\<rparr>))))
      | None \<Rightarrow>
          (case canWalkTo env p of
             None \<Rightarrow> visit_neighbors env fpp targetPos startPos found n rest ns
           | Some tile \<Rightarrow>
               (case createOpenNode n (pos_x p) (pos_y p) (node_f (nodes ns n) + getMapWalkCost (nodes ns n) p + getTileWalkCost env tile) ns of
                  Some ns \<Rightarrow> visit_neighbors env fpp targetPos startPos found n rest ns
                | None \<Rightarrow> Some (found, ns))))"

partial_function (option) astar_loop ::
    "'t path_env \<Rightarrow> find_path_params \<Rightarrow> position \<Rightarrow> position \<Rightarrow> int \<Rightarrow> (nat \<times> position) option \<Rightarrow> astar_nodes
      \<Rightarrow> ((nat \<times> position) option \<times> astar_nodes) option" where
  "astar_loop env fpp targetPos startPos bestMatch found ns =
     (if maxSearchDist fpp \<noteq> 0 \<or> closedNodes ns < 100 then
        (case getBestNode ns of
           None \<Rightarrow> Some (found, ns)
         | Some n \<Rightarrow>
             (let pos = node_pos ns (pos_z startPos) n;
                  hit = fst (pathCondition env targetPos startPos pos fpp bestMatch);
                  bestMatch = snd (pathCondition env targetPos startPos pos fpp bestMatch);
                  found = (if hit then Some (n, pos) else found)
              in if hit \<and> bestMatch = 0 then Some (found, ns)
                 else Option.bind (visit_neighbors env fpp targetPos startPos (found \<noteq> None) n (neighbors_of fpp n ns) ns)
                        (\<lambda>(go_on, ns). if \<not> go_on then Some (None, ns)
                           else astar_loop env fpp targetPos startPos bestMatch found (closeNode n ns))))
      else Some (found, ns))"

definition step_back :: "int \<Rightarrow> int \<Rightarrow> direction option" where
  "step_back dx dy =
     (if dx = 1 \<and> dy = 1 then Some DIRECTION_NORTHWEST
      else if dx = - 1 \<and> dy = 1 then Some DIRECTION_NORTHEAST
      else if dx = 1 \<and> dy = - 1 then Some DIRECTION_SOUTHWEST
      else if dx = - 1 \<and> dy = - 1 then Some DIRECTION_SOUTHEAST
      else if dx = 1 then Some DIRECTION_WEST
      else if dx = - 1 then Some DIRECTION_EAST
      else if dy = 1 then Some DIRECTION_NORTH
      else if dy = - 1 then Some DIRECTION_SOUTH
      else None)"

partial_function (option) walk_back :: "astar_nodes \<Rightarrow> int \<Rightarrow> int \<Rightarrow> nat option \<Rightarrow> direction list \<Rightarrow> direction list option" where
  "walk_back ns prevx prevy found dirList =
     (case found of
        None \<Rightarrow> Some dirList
      | Some n \<Rightarrow>
          (let x = uint (node_x (nodes ns n)); y = uint (node_y (nodes ns n))
           in walk_back ns x y (node_parent (nodes ns n))
                (dirList @ (case step_back (x - prevx) (y - prevy) of Some d \<Rightarrow> [d] | None \<Rightarrow> []))))"

definition getPathMatching :: "'t path_env \<Rightarrow> find_path_params \<Rightarrow> position \<Rightarrow> position \<Rightarrow> direction list \<Rightarrow> (bool \<times> direction list) option" where
  "getPathMatching env fpp targetPos startPos dirList =
     Option.bind (astar_loop env fpp targetPos startPos 0 None (astar_init (pos_x startPos) (pos_y startPos)))
       (\<lambda>(found, ns). case found of
          None \<Rightarrow> Some (False, dirList)
        | Some (n, endPos) \<Rightarrow>
            Option.bind (walk_back ns (uint (pos_x endPos)) (uint (pos_y endPos)) (node_parent (nodes ns n)) dirList)
              (\<lambda>dirList. Some (True, dirList)))"


section \<open>The table of nodes\<close>

lemma bit_node_key: "bit (node_key x y) n \<longleftrightarrow> (16 \<le> n \<and> bit x (n - 16)) \<or> bit y n"
proof -
  have "bit x (n - 16) \<Longrightarrow> n < 32" using bit_imp_le_length[of x "n - 16"] by auto
  moreover have "bit y n \<Longrightarrow> n < 32" using bit_imp_le_length[of y n] by auto
  ultimately show ?thesis by (auto simp: node_key_def bit_or_iff bit_push_bit_iff bit_ucast_iff)
qed

lemma node_key_inj: "node_key x y = node_key x' y' \<Longrightarrow> x = x' \<and> y = y'"
proof
  assume k: "node_key x y = node_key x' y'"
  have high: "\<not> bit w n" if "16 \<le> n" for w :: u16 and n using bit_imp_le_length[of w n] that by auto
  show "x = x'"
  proof (rule bit_word_eqI)
    fix n show "bit x n = bit x' n" using bit_node_key[of x y "n + 16"] bit_node_key[of x' y' "n + 16"] k by (simp add: high)
  qed
  show "y = y'"
  proof (rule bit_word_eqI)
    fix n :: nat assume "n < LENGTH(16)"
    then show "bit y n = bit y' n" using bit_node_key[of x y n] bit_node_key[of x' y' n] k by simp
  qed
qed

lemma best_node_Some: "best_node ns is b best = Some n \<Longrightarrow> best = Some n \<or> n \<in> set is \<and> openNodes ns n"
  by (induction "is" arbitrary: b best) (auto split: if_splits)

lemma getBestNode_open: "getBestNode ns = Some n \<Longrightarrow> n < curNode ns \<and> openNodes ns n"
  unfolding getBestNode_def by (drule best_node_Some) simp

text \<open>Parents are cheaper than their children, which excludes cycles; nodes other than the first were walkable and
  lie next to their parents; and the table leads to the node of a position.\<close>

definition next_to :: "astar_node \<Rightarrow> astar_node \<Rightarrow> bool" where
  "next_to a b \<longleftrightarrow> (\<exists>(ox, oy) \<in> set allNeighbors. node_x b = node_x a + word_of_int ox \<and> node_y b = node_y a + word_of_int oy)"

definition child_ok :: "'t path_env \<Rightarrow> u8 \<Rightarrow> astar_nodes \<Rightarrow> nat \<Rightarrow> bool" where
  "child_ok env z ns i \<longleftrightarrow> canWalkTo env (node_pos ns z i) \<noteq> None \<and>
     (\<exists>p < curNode ns. node_parent (nodes ns i) = Some p \<and> node_f (nodes ns p) + 10 \<le> node_f (nodes ns i) \<and> next_to (nodes ns p) (nodes ns i))"

definition astar_inv :: "'t path_env \<Rightarrow> position \<Rightarrow> astar_nodes \<Rightarrow> bool" where
  "astar_inv env startPos ns \<longleftrightarrow> 0 < curNode ns \<and> curNode ns \<le> MAX_NODES \<and>
     node_pos ns (pos_z startPos) 0 = startPos \<and> node_parent (nodes ns 0) = None \<and> node_f (nodes ns 0) = 0 \<and>
     (\<forall>i < curNode ns. 0 \<le> node_f (nodes ns i) \<and> tileAt env (node_pos ns (pos_z startPos) i) \<noteq> None) \<and>
     (\<forall>i < curNode ns. i \<noteq> 0 \<longrightarrow> child_ok env (pos_z startPos) ns i) \<and>
     (\<forall>x y i. nodeTable ns (node_key x y) = Some i \<longrightarrow> i < curNode ns \<and> node_x (nodes ns i) = x \<and> node_y (nodes ns i) = y)"

lemma astar_invD:
  assumes "astar_inv env startPos ns"
  shows "0 < curNode ns" "curNode ns \<le> 512" "node_pos ns (pos_z startPos) 0 = startPos" "node_parent (nodes ns 0) = None" "node_f (nodes ns 0) = 0"
    "i < curNode ns \<Longrightarrow> 0 \<le> node_f (nodes ns i)" "i < curNode ns \<Longrightarrow> tileAt env (node_pos ns (pos_z startPos) i) \<noteq> None"
    "i < curNode ns \<Longrightarrow> i \<noteq> 0 \<Longrightarrow> child_ok env (pos_z startPos) ns i"
    "nodeTable ns (node_key x y) = Some i \<Longrightarrow> i < curNode ns \<and> node_x (nodes ns i) = x \<and> node_y (nodes ns i) = y"
  using assms unfolding astar_inv_def MAX_NODES_def by blast+

lemma astar_init_inv:
  assumes "tileAt env startPos \<noteq> None"
  shows "astar_inv env startPos (astar_init (pos_x startPos) (pos_y startPos))"
  using assms node_key_inj by (auto simp: astar_inv_def astar_init_def node_pos_def MAX_NODES_def split: if_splits)

definition sum_f :: "astar_nodes \<Rightarrow> int" where
  "sum_f ns = (\<Sum>i < curNode ns. node_f (nodes ns i))"

text \<open>What visiting neighbours does to the table: nodes keep their positions and stay open; when none is added,
  the sum of the costs falls or nothing was opened.\<close>

definition progress :: "astar_nodes \<Rightarrow> astar_nodes \<Rightarrow> bool" where
  "progress ns ns' \<longleftrightarrow> curNode ns \<le> curNode ns' \<and>
     (\<forall>i < curNode ns. node_x (nodes ns' i) = node_x (nodes ns i) \<and> node_y (nodes ns' i) = node_y (nodes ns i) \<and> (openNodes ns i \<longrightarrow> openNodes ns' i)) \<and>
     (curNode ns' = curNode ns \<longrightarrow> sum_f ns' < sum_f ns \<or> sum_f ns' = sum_f ns \<and> openNodes ns' = openNodes ns)"

lemma progress_refl: "progress ns ns"
  by (simp add: progress_def)

lemma progress_trans: "progress a b \<Longrightarrow> progress b c \<Longrightarrow> progress a c"
  by (auto simp: progress_def)

definition relax :: "nat \<Rightarrow> int \<Rightarrow> nat \<Rightarrow> astar_nodes \<Rightarrow> astar_nodes" where
  "relax n newf i ns = openNode i (ns\<lparr>nodes := (nodes ns)(i := (nodes ns i)\<lparr>node_f := newf, node_parent := Some n\<rparr>)\<rparr>)"

lemma relax_fields:
  "nodes (relax n newf i ns) = (nodes ns)(i := (nodes ns i)\<lparr>node_f := newf, node_parent := Some n\<rparr>)"
  "openNodes (relax n newf i ns) = (openNodes ns)(i := True)" "nodeTable (relax n newf i ns) = nodeTable ns" "curNode (relax n newf i ns) = curNode ns"
  by (auto simp: relax_def openNode_def fun_upd_idem)


lemma walk_cost: "10 \<le> getMapWalkCost a p" "0 \<le> getTileWalkCost env tile"
  by (simp_all add: getMapWalkCost_def getTileWalkCost_def MAP_DIAGONALWALKCOST_def MAP_NORMALWALKCOST_def)

lemma relax_inv:
  assumes inv: "astar_inv env startPos ns" and n: "n < curNode ns" and i: "i < curNode ns"
    and adj: "next_to (nodes ns n) (nodes ns i)" and newf: "node_f (nodes ns n) + 10 \<le> newf" "newf < node_f (nodes ns i)"
  shows "astar_inv env startPos (relax n newf i ns)" "progress ns (relax n newf i ns)"
proof -
  note D = astar_invD[OF inv]
  let ?ns = "relax n newf i ns"
  have "i \<noteq> 0" using D(5) D(6)[OF n] newf by (intro notI) simp
  have "i \<noteq> n" using newf by auto
  have pos: "node_pos ?ns z k = node_pos ns z k" for z k by (simp add: node_pos_def relax_fields)
  have adj': "next_to (nodes ?ns a) (nodes ?ns b) = next_to (nodes ns a) (nodes ns b)" for a b by (simp add: next_to_def relax_fields)
  have child: "child_ok env (pos_z startPos) ?ns k" if k: "k < curNode ns" "k \<noteq> 0" for k
  proof (cases "k = i")
    case True
    then show ?thesis using D(8)[OF i \<open>i \<noteq> 0\<close>] n adj newf(1) \<open>i \<noteq> n\<close> unfolding child_ok_def pos adj' by (auto simp: relax_fields)
  next
    case False
    then obtain p where p: "p < curNode ns" "node_parent (nodes ns k) = Some p" "node_f (nodes ns p) + 10 \<le> node_f (nodes ns k)"
      "next_to (nodes ns p) (nodes ns k)" "canWalkTo env (node_pos ns (pos_z startPos) k) \<noteq> None" using D(8)[OF k] by (auto simp: child_ok_def)
    moreover have "node_f (nodes ?ns p) \<le> node_f (nodes ns p)" using newf(2) by (simp add: relax_fields)
    ultimately show ?thesis using False unfolding child_ok_def pos adj' by (intro conjI exI[of _ p]) (auto simp: relax_fields)
  qed
  have tab: "i < curNode ns \<and> node_x (nodes ?ns i) = x \<and> node_y (nodes ?ns i) = y" if "nodeTable ns (node_key x y) = Some i" for x y i
    using D(9)[OF that] by (auto simp: relax_fields)
  show "astar_inv env startPos ?ns" unfolding astar_inv_def pos MAX_NODES_def
    using D(1-7) child tab \<open>i \<noteq> 0\<close> newf(1) D(6)[OF n] by (auto simp: relax_fields)
  have "sum_f ?ns < sum_f ns" unfolding sum_f_def relax_fields using i newf(2) by (intro sum_strict_mono_ex1) auto
  then show "progress ns ?ns" by (simp add: progress_def relax_fields)
qed

lemma create_inv:
  assumes inv: "astar_inv env startPos ns" and n: "n < curNode ns" and none: "nodeTable ns (node_key x y) = None"
    and walk: "canWalkTo env (Position x y (pos_z startPos)) \<noteq> None" and adj: "next_to (nodes ns n) \<lparr>node_parent = Some n, node_f = newf, node_x = x, node_y = y\<rparr>"
    and newf: "node_f (nodes ns n) + 10 \<le> newf" and c: "createOpenNode n x y newf ns = Some ns'"
  shows "astar_inv env startPos ns'" "progress ns ns'"
proof -
  note D = astar_invD[OF inv]
  have cur: "curNode ns < 512" and ns': "ns' = ns\<lparr>curNode := curNode ns + 1, openNodes := (openNodes ns)(curNode ns := True),
      nodeTable := (nodeTable ns)(node_key x y \<mapsto> curNode ns),
      nodes := (nodes ns)(curNode ns := \<lparr>node_parent = Some n, node_f = newf, node_x = x, node_y = y\<rparr>)\<rparr>"
    using c by (auto simp: createOpenNode_def MAX_NODES_def Let_def split: if_splits)
  have old: "nodes ns' k = nodes ns k" "node_pos ns' z k = node_pos ns z k" if "k < curNode ns" for k z using that by (simp_all add: ns' node_pos_def)
  have new: "nodes ns' (curNode ns) = \<lparr>node_parent = Some n, node_f = newf, node_x = x, node_y = y\<rparr>"
    "node_pos ns' (pos_z startPos) (curNode ns) = Position x y (pos_z startPos)" "curNode ns' = Suc (curNode ns)" by (simp_all add: ns' node_pos_def)
  have tile: "tileAt env (Position x y (pos_z startPos)) \<noteq> None" using walk by (auto simp: canWalkTo_def split: if_splits option.splits)
  have child: "child_ok env (pos_z startPos) ns' k" if k: "k < curNode ns'" "k \<noteq> 0" for k
  proof (cases "k = curNode ns")
    case True
    then show ?thesis using walk n adj newf unfolding child_ok_def True new by (intro conjI exI[of _ n]) (auto simp: old new)
  next
    case False
    then have k': "k < curNode ns" using k(1) new(3) by simp
    then show ?thesis using D(8)[OF k' k(2)] unfolding child_ok_def old[OF k'] new(3) by (auto simp: old intro: less_SucI)
  qed
  have tab: "i < curNode ns' \<and> node_x (nodes ns' i) = x' \<and> node_y (nodes ns' i) = y'" if "nodeTable ns' (node_key x' y') = Some i" for x' y' i
  proof (cases "node_key x' y' = node_key x y")
    case True
    then show ?thesis using that node_key_inj[OF True] new by (simp add: ns')
  next
    case False
    then show ?thesis using that D(9)[of x' y' i] old(1)[of i] new(3) by (simp add: ns')
  qed
  have "0 \<le> newf" using newf D(6)[OF n] by simp
  then have each: "0 \<le> node_f (nodes ns' k) \<and> tileAt env (node_pos ns' (pos_z startPos) k) \<noteq> None" if "k < curNode ns'" for k
    using that D(6,7)[of k] old[of k] new tile by (cases "k = curNode ns") auto
  show "astar_inv env startPos ns'" unfolding astar_inv_def MAX_NODES_def
    using D(1-5) old[OF D(1)] new(3) cur child tab each by auto
  show "progress ns ns'" unfolding progress_def using old(1) new(3) by (auto simp: ns')
qed


lemma visit_inv:
  "astar_inv env startPos ns \<Longrightarrow> n < curNode ns \<Longrightarrow> set dirs \<subseteq> set allNeighbors \<Longrightarrow>
   \<exists>go_on ns'. visit_neighbors env fpp targetPos startPos found n dirs ns = Some (go_on, ns') \<and>
     astar_inv env startPos ns' \<and> progress ns ns' \<and> (go_on \<or> \<not> found)"
proof (induction dirs arbitrary: ns)
  case Nil
  then show ?case by (auto simp: progress_refl)
next
  case (Cons d dirs)
  obtain ox oy where d: "d = (ox, oy)" by (cases d) auto
  let ?x = "node_x (nodes ns n) + word_of_int ox" and ?y = "node_y (nodes ns n) + word_of_int oy"
  let ?p = "Position ?x ?y (pos_z startPos)"
  have rest: "\<exists>go_on ns''. visit_neighbors env fpp targetPos startPos found n dirs ns' = Some (go_on, ns'') \<and>
      astar_inv env startPos ns'' \<and> progress ns ns'' \<and> (go_on \<or> \<not> found)" if "astar_inv env startPos ns'" "progress ns ns'" for ns'
  proof -
    have "n < curNode ns'" using that(2) Cons.prems(2) by (simp add: progress_def)
    then show ?thesis using Cons.IH[OF that(1)] Cons.prems(3) progress_trans[OF that(2)] by fastforce
  qed
  have adj: "next_to (nodes ns n) b" if "node_x b = ?x" "node_y b = ?y" for b using Cons.prems(3) d that by (auto simp: next_to_def)
  show ?case
  proof (cases "nodeTable ns (node_key ?x ?y)")
    case (Some i)
    then have i: "i < curNode ns" "node_x (nodes ns i) = ?x" "node_y (nodes ns i) = ?y" using astar_invD(9)[OF Cons.prems(1)] by blast+
    obtain tile where tile: "tileAt env ?p = Some tile" using astar_invD(7)[OF Cons.prems(1) i(1)] i by (auto simp: node_pos_def)
    let ?f = "node_f (nodes ns n) + getMapWalkCost (nodes ns n) ?p + getTileWalkCost env tile"
    have f: "node_f (nodes ns n) + 10 \<le> ?f" using walk_cost(1)[of "nodes ns n" ?p] walk_cost(2)[of env tile] by linarith
    have relaxed: "astar_inv env startPos (relax n ?f i ns)" "progress ns (relax n ?f i ns)" if "\<not> node_f (nodes ns i) \<le> ?f"
      using relax_inv[OF Cons.prems(1,2) i(1) adj[OF i(2,3)] f] that by auto
    show ?thesis using rest[OF Cons.prems(1) progress_refl] rest[OF relaxed] Some tile
      by (simp add: d Let_def getNodeByPosition_def relax_def)
  next
    case None
    show ?thesis
    proof (cases "canWalkTo env ?p")
      case None
      then show ?thesis using rest[OF Cons.prems(1) progress_refl] \<open>nodeTable ns (node_key ?x ?y) = None\<close> by (simp add: d Let_def getNodeByPosition_def)
    next
      case (Some tile)
      let ?f = "node_f (nodes ns n) + getMapWalkCost (nodes ns n) ?p + getTileWalkCost env tile"
      have f: "node_f (nodes ns n) + 10 \<le> ?f" using walk_cost(1)[of "nodes ns n" ?p] walk_cost(2)[of env tile] by linarith
      have walk: "canWalkTo env ?p \<noteq> None" using Some by simp
      show ?thesis
      proof (cases "createOpenNode n ?x ?y ?f ns")
        case (Some ns')
        have "astar_inv env startPos ns'" "progress ns ns'" by (rule create_inv[OF Cons.prems(1,2) None walk adj f Some]; simp)+
        note rest[OF this]
        then show ?thesis using rest[OF Cons.prems(1) progress_refl] None Some \<open>canWalkTo env ?p = Some tile\<close>
          by (simp add: d Let_def getNodeByPosition_def)
      next
        case full: None
        then show ?thesis using rest[OF Cons.prems(1) progress_refl] None Some Cons.prems(1) progress_refl[of ns]
          by (simp add: d Let_def getNodeByPosition_def)
      qed
    qed
  qed
qed

lemma neighbors_of_subset: "set (neighbors_of fpp n ns) \<subseteq> set allNeighbors"
proof -
  have "set (dirNeighbors d) \<subseteq> set allNeighbors" for d by (cases d) (auto simp: allNeighbors_def)
  then have "set (take k (dirNeighbors d)) \<subseteq> set allNeighbors" for k d using set_take_subset[of k "dirNeighbors d"] by blast
  then show ?thesis unfolding neighbors_of_def Let_def by (cases "node_parent (nodes ns n)") (simp_all only: option.case order_refl)
qed

text \<open>An iteration of the search that does not end it brings a lexicographic measure down: free nodes, the sum of
  the costs, open nodes.\<close>

definition astar_measure :: "(astar_nodes \<times> astar_nodes) set" where
  "astar_measure = measures [\<lambda>ns. 512 - curNode ns, \<lambda>ns. nat (sum_f ns), \<lambda>ns. card {i. i < curNode ns \<and> openNodes ns i}]"

lemma sum_f_nonneg: "astar_inv env startPos ns \<Longrightarrow> 0 \<le> sum_f ns"
  unfolding sum_f_def by (intro sum_nonneg) (simp add: astar_invD(6))

lemma closeNode_inv: "astar_inv env startPos (closeNode n ns) = astar_inv env startPos ns"
  by (simp add: closeNode_def astar_inv_def child_ok_def node_pos_def)

lemma progress_measure:
  assumes inv: "astar_inv env startPos ns" "astar_inv env startPos ns'" and pr: "progress ns ns'" and n: "n < curNode ns" "openNodes ns n"
  shows "(closeNode n ns', ns) \<in> astar_measure"
proof -
  have close: "curNode (closeNode n ns') = curNode ns'" "sum_f (closeNode n ns') = sum_f ns'" "openNodes (closeNode n ns') = (openNodes ns')(n := False)"
    by (simp_all add: closeNode_def sum_f_def)
  consider "curNode ns < curNode ns'" | "curNode ns' = curNode ns" "sum_f ns' < sum_f ns"
    | "curNode ns' = curNode ns" "sum_f ns' = sum_f ns" "openNodes ns' = openNodes ns"
    using pr unfolding progress_def by (metis le_neq_implies_less)
  then show ?thesis
  proof cases
    case 1
    then have "512 - curNode ns' < 512 - curNode ns" using astar_invD(2)[OF inv(2)] by linarith
    then show ?thesis by (simp add: astar_measure_def close)
  next
    case 2
    then show ?thesis using sum_f_nonneg[OF inv(2)] by (simp add: astar_measure_def close)
  next
    case 3
    have "{i. i < curNode ns \<and> ((openNodes ns)(n := False)) i} \<subset> {i. i < curNode ns \<and> openNodes ns i}" using n by auto
    then have "card {i. i < curNode ns \<and> ((openNodes ns)(n := False)) i} < card {i. i < curNode ns \<and> openNodes ns i}"
      by (intro psubset_card_mono) auto
    then show ?thesis using 3 by (simp add: astar_measure_def close)
  qed
qed


section \<open>The search ends\<close>

definition goal_ok :: "'t path_env \<Rightarrow> position \<Rightarrow> position \<Rightarrow> find_path_params \<Rightarrow> position \<Rightarrow> bool" where
  "goal_ok env targetPos startPos fpp p \<longleftrightarrow> isInRange targetPos startPos p fpp \<and> (clearSight fpp \<longrightarrow> sightClear env p targetPos) \<and>
     minTargetDist fpp \<le> max (getDistanceX targetPos p) (getDistanceY targetPos p) \<and>
     max (getDistanceX targetPos p) (getDistanceY targetPos p) \<le> maxTargetDist fpp"

lemma pathCondition_goal: "fst (pathCondition env targetPos startPos p fpp b) \<Longrightarrow> goal_ok env targetPos startPos fpp p"
  by (auto simp: pathCondition_def goal_ok_def Let_def split: if_splits)

definition found_ok :: "'t path_env \<Rightarrow> position \<Rightarrow> position \<Rightarrow> find_path_params \<Rightarrow> (nat \<times> position) option \<Rightarrow> astar_nodes \<Rightarrow> bool" where
  "found_ok env targetPos startPos fpp found ns \<longleftrightarrow>
     (case found of None \<Rightarrow> True | Some (n, p) \<Rightarrow> n < curNode ns \<and> node_pos ns (pos_z startPos) n = p \<and> goal_ok env targetPos startPos fpp p)"

lemma found_progress: "found_ok env targetPos startPos fpp found ns \<Longrightarrow> progress ns ns' \<Longrightarrow> found_ok env targetPos startPos fpp found ns'"
  by (auto simp: found_ok_def progress_def node_pos_def split: option.splits)

lemma astar_loop_ends:
  "astar_inv env startPos ns \<Longrightarrow> found_ok env targetPos startPos fpp found ns \<Longrightarrow>
   \<exists>found' ns'. astar_loop env fpp targetPos startPos bestMatch found ns = Some (found', ns') \<and>
     astar_inv env startPos ns' \<and> found_ok env targetPos startPos fpp found' ns'"
proof (induction ns arbitrary: bestMatch found rule: wf_induct_rule[OF wf_measures, of "[\<lambda>ns. 512 - curNode ns, \<lambda>ns. nat (sum_f ns), \<lambda>ns. card {i. i < curNode ns \<and> openNodes ns i}]"])
  case (1 ns)
  note IH = 1(1)[folded astar_measure_def]
  show ?case
  proof (cases "(maxSearchDist fpp \<noteq> 0 \<or> closedNodes ns < 100) \<and> getBestNode ns \<noteq> None")
    case False
    then show ?thesis using 1(2,3) by (subst astar_loop.simps) (auto split: option.splits)
  next
    case True
    then obtain n where best: "getBestNode ns = Some n" by blast
    then have n: "n < curNode ns" "openNodes ns n" using getBestNode_open by auto
    let ?p = "node_pos ns (pos_z startPos) n"
    define hit where "hit = fst (pathCondition env targetPos startPos ?p fpp bestMatch)"
    define bm where "bm = snd (pathCondition env targetPos startPos ?p fpp bestMatch)"
    define found1 where "found1 = (if hit then Some (n, ?p) else found)"
    have ok1: "found_ok env targetPos startPos fpp found1 ns"
      using 1(3) n pathCondition_goal[of env targetPos startPos ?p fpp bestMatch] by (simp add: found1_def hit_def found_ok_def)
    obtain go_on ns1 where v: "visit_neighbors env fpp targetPos startPos (found1 \<noteq> None) n (neighbors_of fpp n ns) ns = Some (go_on, ns1)"
      "astar_inv env startPos ns1" "progress ns ns1" using visit_inv[OF 1(2) n(1) neighbors_of_subset] by metis
    have loop: "astar_loop env fpp targetPos startPos bestMatch found ns =
        (if hit \<and> bm = 0 then Some (found1, ns) else if \<not> go_on then Some (None, ns1)
         else astar_loop env fpp targetPos startPos bm found1 (closeNode n ns1))"
    proof -
      have "hit \<Longrightarrow> Some (n, ?p) = found1" by (simp add: found1_def)
      then show ?thesis using True best v(1)
        by (subst astar_loop.simps) (auto simp: Let_def hit_def[symmetric] bm_def[symmetric] found1_def[symmetric])
    qed
    have "found_ok env targetPos startPos fpp found1 (closeNode n ns1)"
      using found_progress[OF ok1 v(3)] by (auto simp: found_ok_def closeNode_def node_pos_def split: option.splits)
    then have "\<exists>found' ns'. astar_loop env fpp targetPos startPos bm found1 (closeNode n ns1) = Some (found', ns') \<and>
        astar_inv env startPos ns' \<and> found_ok env targetPos startPos fpp found' ns'"
      using IH[OF progress_measure[OF 1(2) v(2,3) n]] v(2) by (simp add: closeNode_inv)
    then show ?thesis unfolding loop using 1(2) ok1 v(2) by (auto simp: found_ok_def)
  qed
qed


section \<open>The path that is returned\<close>

fun route :: "position \<Rightarrow> direction list \<Rightarrow> position list" where
  "route p [] = []"
| "route p (d # ds) = getNextPosition d p # route (getNextPosition d p) ds"

lemma route_snoc: "route p (ds @ [d]) = route p ds @ [getNextPosition d (last (p # route p ds))]"
  by (induction ds arbitrary: p) auto

lemma step_back_next:
  assumes i: "interior p" and o: "(ox, oy) \<in> set allNeighbors" and q: "q = Position (pos_x p + word_of_int ox) (pos_y p + word_of_int oy) (pos_z p)"
  shows "\<exists>d. step_back (uint (pos_x p) - uint (pos_x q)) (uint (pos_y p) - uint (pos_y q)) = Some d \<and> getNextPosition d p = q"
  using o interior_offsets[OF i] by (cases p) (auto simp: allNeighbors_def q step_back_def)

lemma walk_back_route:
  assumes inv: "astar_inv env startPos ns" and int: "interior startPos" "\<And>p. canWalkTo env p \<noteq> None \<Longrightarrow> interior p"
  shows "c < curNode ns \<Longrightarrow> \<exists>dirs. walk_back ns (uint (node_x (nodes ns c))) (uint (node_y (nodes ns c))) (node_parent (nodes ns c)) acc = Some (acc @ dirs) \<and>
    last (startPos # route startPos (rev dirs)) = node_pos ns (pos_z startPos) c \<and> (\<forall>p \<in> set (route startPos (rev dirs)). canWalkTo env p \<noteq> None)"
proof (induction "nat (node_f (nodes ns c))" arbitrary: c acc rule: less_induct)
  case less
  show ?case
  proof (cases "c = 0")
    case True
    then show ?thesis using astar_invD(3,4)[OF inv] by (intro exI[of _ "[]"]) (simp add: walk_back.simps)
  next
    case False
    then have c: "child_ok env (pos_z startPos) ns c" using astar_invD(8)[OF inv less.prems] by simp
    then obtain p where p: "p < curNode ns" "node_parent (nodes ns c) = Some p" "node_f (nodes ns p) + 10 \<le> node_f (nodes ns c)"
      "next_to (nodes ns p) (nodes ns c)" by (auto simp: child_ok_def)
    let ?p = "node_pos ns (pos_z startPos) p" and ?c = "node_pos ns (pos_z startPos) c"
    have "interior ?p"
    proof (cases "p = 0")
      case True
      then show ?thesis using int(1) astar_invD(3)[OF inv] by simp
    next
      case False
      then show ?thesis using int(2) astar_invD(8)[OF inv p(1)] by (auto simp: child_ok_def)
    qed
    moreover obtain ox oy where "(ox, oy) \<in> set allNeighbors" "?c = Position (pos_x ?p + word_of_int ox) (pos_y ?p + word_of_int oy) (pos_z ?p)"
      using p(4) by (auto simp: next_to_def node_pos_def)
    ultimately obtain d where d: "step_back (uint (pos_x ?p) - uint (pos_x ?c)) (uint (pos_y ?p) - uint (pos_y ?c)) = Some d" "getNextPosition d ?p = ?c"
      using step_back_next by blast
    have "nat (node_f (nodes ns p)) < nat (node_f (nodes ns c))" using p(3) astar_invD(6)[OF inv p(1)] by simp
    from less.hyps[OF this p(1), of "acc @ [d]"] obtain dirs where dirs:
      "walk_back ns (uint (node_x (nodes ns p))) (uint (node_y (nodes ns p))) (node_parent (nodes ns p)) (acc @ [d]) = Some (acc @ [d] @ dirs)"
      "last (startPos # route startPos (rev dirs)) = ?p" "\<And>q. q \<in> set (route startPos (rev dirs)) \<Longrightarrow> canWalkTo env q \<noteq> None" by auto
    have "walk_back ns (uint (node_x (nodes ns c))) (uint (node_y (nodes ns c))) (node_parent (nodes ns c)) acc = Some (acc @ [d] @ dirs)"
      using dirs(1) d(1) p(2) by (subst walk_back.simps) (simp add: node_pos_def Let_def)
    then show ?thesis using dirs(2,3) d(2) c
      by (intro exI[of _ "d # dirs"]) (auto simp: route_snoc child_ok_def simp del: route.simps)
  qed
qed

text \<open>C4: The search ends on every map, whatever its parameters, and never dereferences a null tile. When it
  returns false the list of directions is unchanged. When it returns true, taking the directions it appended,
  last one first, leads from the creature's position over tiles that it can walk to, one step at a time, to a
  position that meets the condition: in range of the target, within the minimal and the maximal distance, and
  with a clear sight where one was asked for. The edge of the map, where coordinates would wrap around, must not
  be walkable.\<close>

theorem getPathMatching_correct:
  assumes tile: "tileAt env startPos \<noteq> None" and int: "interior startPos" "\<And>p. canWalkTo env p \<noteq> None \<Longrightarrow> interior p"
  shows "getPathMatching env fpp targetPos startPos dirList = Some (False, dirList) \<or>
    (\<exists>dirs. getPathMatching env fpp targetPos startPos dirList = Some (True, dirList @ dirs) \<and>
      goal_ok env targetPos startPos fpp (last (startPos # route startPos (rev dirs))) \<and>
      (\<forall>p \<in> set (route startPos (rev dirs)). canWalkTo env p \<noteq> None))"
proof -
  let ?ns = "astar_init (pos_x startPos) (pos_y startPos)"
  obtain found ns where loop: "astar_loop env fpp targetPos startPos 0 None ?ns = Some (found, ns)" "astar_inv env startPos ns"
    "found_ok env targetPos startPos fpp found ns"
    using astar_loop_ends[OF astar_init_inv[OF tile], of targetPos fpp None 0] by (auto simp: found_ok_def)
  show ?thesis
  proof (cases found)
    case None
    then show ?thesis using loop(1) by (simp add: getPathMatching_def)
  next
    case (Some g)
    then obtain n where n: "found = Some (n, node_pos ns (pos_z startPos) n)" "n < curNode ns" "goal_ok env targetPos startPos fpp (node_pos ns (pos_z startPos) n)"
      using loop(3) by (cases g) (auto simp: found_ok_def)
    obtain dirs where "walk_back ns (uint (node_x (nodes ns n))) (uint (node_y (nodes ns n))) (node_parent (nodes ns n)) dirList = Some (dirList @ dirs)"
      "last (startPos # route startPos (rev dirs)) = node_pos ns (pos_z startPos) n" "\<forall>p \<in> set (route startPos (rev dirs)). canWalkTo env p \<noteq> None"
      using walk_back_route[OF loop(2) int n(2)] by blast
    then show ?thesis using loop(1) n(1,3) by (intro disjI2 exI[of _ dirs]) (simp add: getPathMatching_def node_pos_def)
  qed
qed


text \<open>Two tiles side by side, and a target two tiles away that is to be reached up to a distance of one.\<close>

definition sample_env :: "unit path_env" where
  "sample_env = \<lparr>tileAt = (\<lambda>p. if p = Position 100 100 7 \<or> p = Position 101 100 7 then Some () else None), walkCache = (\<lambda>_. 2),
     ownTile = (\<lambda>_. False), queryAdd_ok = (\<lambda>_. True), visibleCreature = (\<lambda>_. False), avoidedField = (\<lambda>_. False), sightClear = (\<lambda>_ _. True)\<rparr>"

definition sample_params :: find_path_params where
  "sample_params = \<lparr>fullPathSearch = True, clearSight = True, allowDiagonal = True, keepDistance = False, maxSearchDist = 0,
     minTargetDist = 1, maxTargetDist = 1\<rparr>"

declare astar_loop.simps [code] walk_back.simps [code]

lemma sample_path: "getPathMatching sample_env sample_params (Position 102 100 7) (Position 100 100 7) [] = Some (True, [DIRECTION_EAST])"
  by code_simp


theorem getPathMatching_correct_witness:
  "\<exists>dirs. getPathMatching sample_env sample_params (Position 102 100 7) (Position 100 100 7) [] = Some (True, dirs) \<and>
     goal_ok sample_env (Position 102 100 7) (Position 100 100 7) sample_params (last (Position 100 100 7 # route (Position 100 100 7) (rev dirs))) \<and>
     (\<forall>p \<in> set (route (Position 100 100 7) (rev dirs)). canWalkTo sample_env p \<noteq> None)"
proof -
  have "canWalkTo sample_env p \<noteq> None \<Longrightarrow> interior p" for p by (auto simp: canWalkTo_def sample_env_def interior_def split: if_splits)
  moreover have "tileAt sample_env (Position 100 100 7) \<noteq> None" by (simp add: sample_env_def)
  moreover have "interior (Position 100 100 7)" by (simp add: interior_def)
  ultimately show ?thesis
    using getPathMatching_correct[of sample_env "Position 100 100 7" sample_params "Position 102 100 7" "[]"] sample_path by auto
qed

end
