(* ===== verification/Checksum.thy ===== *)
theory Checksum
  imports Server_Prelude
begin

text \<open>
  \<open>adlerChecksum\<close> of \<open>src/src/tools.cpp\<close>: the two 32-bit accumulators, the inner loop over
  chunks of 5552 bytes and the reductions modulo 65521 between chunks. The lemmas show that the
  accumulators never wrap inside a chunk, so the delayed reduction computes the Adler-32 checksum
  of the reference definition, which reduces after every byte.
\<close>

section \<open>The code\<close>

fun adler_chunk :: "u8 list \<Rightarrow> u32 \<times> u32 \<Rightarrow> u32 \<times> u32" where
  "adler_chunk [] (a, b) = (a, b)"
| "adler_chunk (x # xs) (a, b) = (let a' = a + ucast x; b' = b + a' in adler_chunk xs (a', b'))"

function adler_loop :: "u8 list \<Rightarrow> u32 \<times> u32 \<Rightarrow> u32 \<times> u32" where
  "adler_loop data ab =
     (if data = [] then ab
      else let tmp = (if length data > 5552 then 5552 else length data);
               (a, b) = adler_chunk (take tmp data) ab
           in adler_loop (drop tmp data) (a mod 65521, b mod 65521))"
  by pat_completeness auto
termination
  by (relation "measure (\<lambda>(data, ab). length data)") auto

declare adler_loop.simps [simp del]

definition adlerChecksum :: "u8 list \<Rightarrow> u32" where
  "adlerChecksum data =
     (if length data > 24590 then 0
      else case adler_loop data (1, 0) of (a, b) \<Rightarrow> push_bit 16 b OR a)"

section \<open>The reference: reduce after every byte\<close>

fun adler_step :: "nat \<times> nat \<Rightarrow> u8 \<Rightarrow> nat \<times> nat" where
  "adler_step (a, b) x = (let a' = (a + unat x) mod 65521 in (a', (b + a') mod 65521))"

definition adler_ref :: "u8 list \<Rightarrow> nat \<times> nat" where
  "adler_ref data = foldl adler_step (1, 0) data"

section \<open>No wrap-around inside a chunk\<close>

text \<open>Bounds on the accumulators after \<open>k\<close> bytes of a chunk, doubled to stay in the naturals.\<close>

definition chunk_bound :: "nat \<Rightarrow> nat \<Rightarrow> nat \<Rightarrow> bool" where
  "chunk_bound k a b \<longleftrightarrow> a \<le> 65520 + 255 * k \<and> 2 * b \<le> 131040 + 131040 * k + 255 * (k * (k + 1))"

lemma chunk_bound_step:
  assumes "chunk_bound k a b" "x \<le> 255"
  shows "chunk_bound (Suc k) (a + x) (b + (a + x))"
proof -
  have "2 * (a + x) \<le> 131040 + 510 * Suc k" using assms by (simp add: chunk_bound_def)
  then show ?thesis using assms by (simp add: chunk_bound_def algebra_simps)
qed

lemma chunk_bound_fits:
  assumes "chunk_bound k a b" "k \<le> 5552"
  shows "a < 2 ^ 32" "b < 2 ^ 32"
proof -
  have "k * (k + 1) \<le> 5552 * 5553" using assms(2) by (intro mult_le_mono) auto
  then have "2 * b \<le> 131040 + 131040 * 5552 + 255 * (5552 * 5553)"
    using assms by (auto simp: chunk_bound_def)
  then show "b < 2 ^ 32" by simp
  show "a < 2 ^ 32" using assms by (simp add: chunk_bound_def)
qed

fun chunk_nat :: "u8 list \<Rightarrow> nat \<times> nat \<Rightarrow> nat \<times> nat" where
  "chunk_nat [] ab = ab"
| "chunk_nat (x # xs) (a, b) = chunk_nat xs (a + unat x, b + (a + unat x))"

lemma unat_add32: "unat (v :: u32) + unat w < 2 ^ 32 \<Longrightarrow> unat (v + w) = unat v + unat w"
  by (simp add: unat_word_ariths)

lemma unat_ucast_byte: "unat (ucast (x :: u8) :: u32) = unat x"
  by (simp add: unsigned_ucast_eq take_bit_nat_eq_self_iff order_less_trans[OF unat8_lt])

lemma adler_chunk_nat:
  "chunk_bound k (unat a) (unat b) \<Longrightarrow> k + length xs \<le> 5552 \<Longrightarrow>
   map_prod unat unat (adler_chunk xs (a, b)) = chunk_nat xs (unat a, unat b)"
proof (induction xs arbitrary: k a b)
  case Nil
  then show ?case by simp
next
  case (Cons x xs)
  have x: "unat x \<le> 255" using unat8_lt[of x] by linarith
  have step: "chunk_bound (Suc k) (unat a + unat x) (unat b + (unat a + unat x))"
    using chunk_bound_step[OF Cons.prems(1) x] .
  have fits: "unat a + unat x < 2 ^ 32" "unat b + (unat a + unat x) < 2 ^ 32"
    using chunk_bound_fits[OF step] Cons.prems(2) by auto
  have a': "unat (a + ucast x) = unat a + unat x"
    using unat_add32[of a "ucast x"] fits(1) by (simp add: unat_ucast_byte)
  have b': "unat (b + (a + ucast x)) = unat b + (unat a + unat x)"
    using unat_add32[of b "a + ucast x"] fits(2) by (simp add: a')
  show ?case
    using Cons.IH[of "Suc k" "a + ucast x" "b + (a + ucast x)"] step Cons.prems(2)
    by (simp add: a' b' Let_def)
qed

section \<open>Delayed reduction\<close>

lemma chunk_nat_mod:
  "map_prod (\<lambda>n. n mod 65521) (\<lambda>n. n mod 65521) (chunk_nat xs (a, b))
   = foldl adler_step (a mod 65521, b mod 65521) xs"
proof (induction xs arbitrary: a b)
  case Nil
  then show ?case by simp
next
  case (Cons x xs)
  have "(a mod 65521 + unat x) mod 65521 = (a + unat x) mod 65521"
    "(b mod 65521 + (a + unat x) mod 65521) mod 65521 = (b + (a + unat x)) mod 65521"
    by (simp_all add: mod_simps)
  then show ?case using Cons.IH by (simp add: Let_def)
qed

lemma adler_step_bounds: "foldl adler_step (a, b) xs = (a', b') \<Longrightarrow> a < 65521 \<Longrightarrow> b < 65521 \<Longrightarrow> a' < 65521 \<and> b' < 65521"
  by (induction xs arbitrary: a b) (auto simp: Let_def)

lemma adler_loop_correct:
  "unat (fst ab) < 65521 \<Longrightarrow> unat (snd ab) < 65521 \<Longrightarrow>
   map_prod unat unat (adler_loop data ab) = foldl adler_step (map_prod unat unat ab) data"
proof (induction data ab rule: adler_loop.induct)
  case (1 data ab)
  obtain a b where ab: "ab = (a, b)" by (cases ab)
  show ?case
  proof (cases "data = []")
    case True
    then show ?thesis by (simp add: adler_loop.simps)
  next
    case False
    define tmp where "tmp = (if length data > 5552 then 5552 else length data)"
    obtain a1 b1 where c: "adler_chunk (take tmp data) (a, b) = (a1, b1)" by fastforce
    have "chunk_bound 0 (unat a) (unat b)" using "1.prems" by (simp add: chunk_bound_def ab)
    moreover have "0 + length (take tmp data) \<le> 5552" by (auto simp: tmp_def)
    ultimately have "chunk_nat (take tmp data) (unat a, unat b) = (unat a1, unat b1)"
      using adler_chunk_nat[of 0 a b "take tmp data"] c by simp
    then have "(unat a1 mod 65521, unat b1 mod 65521) = foldl adler_step (unat a, unat b) (take tmp data)"
      using chunk_nat_mod[of "take tmp data" "unat a" "unat b"] "1.prems" by (simp add: ab split: prod.splits)
    moreover have red: "unat (a1 mod 65521) = unat a1 mod 65521" "unat (b1 mod 65521) = unat b1 mod 65521"
      by (simp_all add: unat_mod)
    moreover have "map_prod unat unat (adler_loop (drop tmp data) (a1 mod 65521, b1 mod 65521))
        = foldl adler_step (map_prod unat unat (a1 mod 65521, b1 mod 65521)) (drop tmp data)"
      using "1.IH"[OF False tmp_def] c ab by (simp add: red)
    moreover have "adler_loop data ab = adler_loop (drop tmp data) (a1 mod 65521, b1 mod 65521)"
      using False c by (subst adler_loop.simps) (simp add: ab tmp_def Let_def)
    ultimately show ?thesis
      by (metis (no_types, lifting) ab append_take_drop_id foldl_append map_prod_simp)
  qed
qed

lemma pack_halves:
  assumes "unat (a :: u32) < 65536"
  shows "push_bit 16 b OR a = of_nat (65536 * unat b + unat a)"
proof -
  have "take_bit 16 (unat a) = unat a"
    using assms by (simp add: take_bit_nat_eq_self_iff)
  then have "\<not> bit (unat a) n" if "16 \<le> n" for n
    using that by (metis bit_take_bit_iff not_le)
  then have "\<not> bit a n" if "16 \<le> n" for n
    using that by (simp add: bit_unsigned_iff)
  then have "push_bit 16 b OR a = push_bit 16 b + a"
    by (intro disjunctive_add[symmetric]) (auto simp: bit_push_bit_iff)
  also have "\<dots> = of_nat (65536 * unat b + unat a)"
    by (simp add: push_bit_eq_mult mult.commute)
  finally show ?thesis .
qed

text \<open>C32: the checksum with its reductions delayed to the end of each 5552-byte chunk equals the
  Adler-32 checksum that reduces after every byte: no 32-bit accumulator wraps. Inputs longer than a
  network message give 0.\<close>

theorem adlerChecksum_correct:
  "adlerChecksum data =
     (if length data > 24590 then 0
      else case adler_ref data of (a, b) \<Rightarrow> of_nat (65536 * b + a))"
proof -
  obtain a b where ab: "adler_loop data (1, 0) = (a, b)" by fastforce
  have ref: "adler_ref data = (unat a, unat b)"
    using adler_loop_correct[of "(1, 0)" data] ab by (simp add: adler_ref_def)
  then have "unat a < 65521"
    using adler_step_bounds[of 1 0 data "unat a" "unat b"] by (simp add: adler_ref_def)
  then show ?thesis
    using ref ab by (simp add: adlerChecksum_def pack_halves)
qed

end
