(* ===== verification/Xtea.thy ===== *)
theory Xtea
  imports Server_Prelude
begin

text \<open>
  The XTEA cipher of \<open>src/src/xtea.cpp\<close>: the block loop \<open>apply_rounds\<close>, the 32 rounds of
  \<open>encrypt\<close> and of \<open>decrypt\<close> with their running sums, over a byte array with a length argument.
  A block that would be read past the end of the array makes the result \<open>None\<close>.
  The theorems: on a length that is a multiple of eight and inside the array both functions
  return, they change nothing behind the length, and decryption undoes encryption.
\<close>

section \<open>Keys, packing and the round functions\<close>

type_synonym xtea_key = "u32 \<times> u32 \<times> u32 \<times> u32"

fun key_at :: "xtea_key \<Rightarrow> u32 \<Rightarrow> u32" where
  "key_at (k0, k1, k2, k3) i = (if i = 0 then k0 else if i = 1 then k1 else if i = 2 then k2 else k3)"

definition xtea_delta :: u32 where
  "xtea_delta = 0x9E3779B9"

fun load32 :: "u8 \<Rightarrow> u8 \<Rightarrow> u8 \<Rightarrow> u8 \<Rightarrow> u32" where
  "load32 b0 b1 b2 b3 =
     ucast b0 OR push_bit 8 (ucast b1) OR push_bit 16 (ucast b2) OR push_bit 24 (ucast b3)"

fun store32 :: "u32 \<Rightarrow> u8 list" where
  "store32 w = [ucast w, ucast (drop_bit 8 w), ucast (drop_bit 16 w), ucast (drop_bit 24 w)]"

definition xtea_mix :: "u32 \<Rightarrow> u32" where
  "xtea_mix w = (push_bit 4 w XOR drop_bit 5 w) + w"

fun encrypt_round :: "xtea_key \<Rightarrow> u32 \<times> u32 \<Rightarrow> u32 \<times> u32 \<Rightarrow> u32 \<times> u32" where
  "encrypt_round k (sm, next_sum) (left, right) =
     (let left' = left + (xtea_mix right XOR (sm + key_at k (sm AND 3)));
          right' = right + (xtea_mix left' XOR (next_sum + key_at k (drop_bit 11 next_sum AND 3)))
      in (left', right'))"

fun decrypt_round :: "xtea_key \<Rightarrow> u32 \<times> u32 \<Rightarrow> u32 \<times> u32 \<Rightarrow> u32 \<times> u32" where
  "decrypt_round k (sm, next_sum) (left, right) =
     (let right' = right - (xtea_mix left XOR (sm + key_at k (drop_bit 11 sm AND 3)));
          left' = left - (xtea_mix right' XOR (next_sum + key_at k (next_sum AND 3)))
      in (left', right'))"

section \<open>The block loop and the two ciphers\<close>

fun round_block :: "(u32 \<times> u32 \<Rightarrow> u32 \<times> u32) \<Rightarrow> u8 list \<Rightarrow> u8 list" where
  "round_block r [b0, b1, b2, b3, b4, b5, b6, b7] =
     (case r (load32 b0 b1 b2 b3, load32 b4 b5 b6 b7) of (l, rt) \<Rightarrow> store32 l @ store32 rt)"
| "round_block r bs = bs"

text \<open>The offset of the block is a natural number. The 32-bit counter \<open>j\<close> of the code holds the same values for every length
  below \<open>2^32\<close>; the callers pass the length of a message, which has 16 bits.\<close>

function apply_rounds_from ::
  "(u32 \<times> u32 \<Rightarrow> u32 \<times> u32) \<Rightarrow> nat \<Rightarrow> nat \<Rightarrow> u8 list \<Rightarrow> u8 list option" where
  "apply_rounds_from r j len data =
     (if j < len
      then do { blk \<leftarrow> mem_read data j 8;
                data' \<leftarrow> mem_write data j (round_block r blk);
                apply_rounds_from r (j + 8) len data' }
      else Some data)"
  by pat_completeness auto
termination
  by (relation "measure (\<lambda>(r, j, len, data). len - j)") auto

declare apply_rounds_from.simps [simp del]

definition apply_rounds :: "(u32 \<times> u32 \<Rightarrow> u32 \<times> u32) \<Rightarrow> nat \<Rightarrow> u8 list \<Rightarrow> u8 list option" where
  "apply_rounds r len data = apply_rounds_from r 0 len data"

fun encrypt_loop :: "nat \<Rightarrow> u32 \<Rightarrow> u32 \<Rightarrow> xtea_key \<Rightarrow> nat \<Rightarrow> u8 list \<Rightarrow> u8 list option" where
  "encrypt_loop 0 sm next_sum k len data = Some data"
| "encrypt_loop (Suc n) sm next_sum k len data =
     do { data' \<leftarrow> apply_rounds (encrypt_round k (sm, next_sum)) len data;
          encrypt_loop n next_sum (next_sum + xtea_delta) k len data' }"

fun decrypt_loop :: "nat \<Rightarrow> u32 \<Rightarrow> u32 \<Rightarrow> xtea_key \<Rightarrow> nat \<Rightarrow> u8 list \<Rightarrow> u8 list option" where
  "decrypt_loop 0 sm next_sum k len data = Some data"
| "decrypt_loop (Suc n) sm next_sum k len data =
     do { data' \<leftarrow> apply_rounds (decrypt_round k (sm, next_sum)) len data;
          decrypt_loop n next_sum (next_sum - xtea_delta) k len data' }"

definition xtea_encrypt :: "u8 list \<Rightarrow> nat \<Rightarrow> xtea_key \<Rightarrow> u8 list option" where
  "xtea_encrypt data len k = encrypt_loop 32 0 xtea_delta k len data"

definition xtea_decrypt :: "u8 list \<Rightarrow> nat \<Rightarrow> xtea_key \<Rightarrow> u8 list option" where
  "xtea_decrypt data len k =
     (let sm = push_bit 5 xtea_delta in decrypt_loop 32 sm (sm - xtea_delta) k len data)"

section \<open>Packing is a bijection\<close>

lemma load32_store32:
  "load32 (ucast w) (ucast (drop_bit 8 w)) (ucast (drop_bit 16 w)) (ucast (drop_bit 24 w)) = w"
proof (rule bit_word_eqI)
  fix n
  assume "n < LENGTH(32)"
  then consider "n < 8" | "8 \<le> n \<and> n < 16" | "16 \<le> n \<and> n < 24" | "24 \<le> n \<and> n < 32" by force
  then show "bit (load32 (ucast w) (ucast (drop_bit 8 w)) (ucast (drop_bit 16 w))
                         (ucast (drop_bit 24 w))) n = bit w n"
    by cases (auto simp: bit_simps)
qed

lemma store32_load32: "store32 (load32 b0 b1 b2 b3) = [b0, b1, b2, b3]"
  by (auto simp: bit_eq_iff bit_simps dest: bit_imp_le_length)

declare load32.simps [simp del] store32.simps [simp del]

section \<open>Rounds and blocks\<close>

lemma decrypt_encrypt_round: "decrypt_round k (n, m) (encrypt_round k (m, n) b) = b"
  by (cases b) (simp add: Let_def)

lemma length_8_cases:
  assumes "length bs = 8"
  obtains b0 b1 b2 b3 b4 b5 b6 b7 where "bs = [b0, b1, b2, b3, b4, b5, b6, b7]"
  using assms by (auto simp: numeral_eq_Suc length_Suc_conv)

lemma length_store32 [simp]: "length (store32 w) = 4"
  by (simp add: store32.simps)

lemma length_round_block [simp]: "length (round_block r bs) = length bs"
proof (cases "length bs = 8")
  case True
  then show ?thesis by (elim length_8_cases) (simp split: prod.split)
next
  case False
  then show ?thesis by (cases "(r, bs)" rule: round_block.cases) auto
qed

lemma round_block_comp:
  assumes "length bs = 8"
  shows "round_block r' (round_block r bs) = round_block (\<lambda>b. r' (r b)) bs"
proof -
  obtain b0 b1 b2 b3 b4 b5 b6 b7 where bs: "bs = [b0, b1, b2, b3, b4, b5, b6, b7]"
    using assms by (rule length_8_cases)
  obtain l rt where r: "r (load32 b0 b1 b2 b3, load32 b4 b5 b6 b7) = (l, rt)" by fastforce
  show ?thesis by (simp add: bs r store32.simps load32_store32)
qed

lemma round_block_id:
  assumes "length bs = 8"
  shows "round_block (\<lambda>b. b) bs = bs"
  using assms by (elim length_8_cases) (simp add: store32_load32)

section \<open>The block loop maps its round over the blocks\<close>

fun map_blocks :: "(u8 list \<Rightarrow> u8 list) \<Rightarrow> nat \<Rightarrow> u8 list \<Rightarrow> u8 list" where
  "map_blocks f 0 xs = xs"
| "map_blocks f (Suc n) xs = f (take 8 xs) @ map_blocks f n (drop 8 xs)"

lemma length_map_blocks:
  "(\<And>b. length (f b) = length b) \<Longrightarrow> 8 * n \<le> length xs \<Longrightarrow> length (map_blocks f n xs) = length xs"
  by (induction n arbitrary: xs) auto

lemma drop_map_blocks:
  "(\<And>b. length (f b) = length b) \<Longrightarrow> 8 * n \<le> length xs \<Longrightarrow> drop (8 * n) (map_blocks f n xs) = drop (8 * n) xs"
proof (induction n arbitrary: xs)
  case (Suc n)
  then have "drop (8 * n) (map_blocks f n (drop 8 xs)) = drop (8 * n) (drop 8 xs)" by simp
  moreover have "min (length xs) 8 = 8" using Suc.prems by simp
  ultimately show ?case using Suc.prems by (simp add: add.commute)
qed simp

lemma map_blocks_round_comp:
  "8 * n \<le> length xs \<Longrightarrow>
   map_blocks (round_block r') n (map_blocks (round_block r) n xs)
   = map_blocks (round_block (\<lambda>b. r' (r b))) n xs"
proof (induction n arbitrary: xs)
  case (Suc n)
  then show ?case by (simp add: round_block_comp min_def)
qed simp

lemma map_blocks_round_id: "8 * n \<le> length xs \<Longrightarrow> map_blocks (round_block (\<lambda>b. b)) n xs = xs"
proof (induction n arbitrary: xs)
  case (Suc n)
  then show ?case by (simp add: round_block_id min_def)
qed simp

lemma apply_rounds_from_blocks:
  "j + 8 * n \<le> length data \<Longrightarrow>
   apply_rounds_from r j (j + 8 * n) data
   = Some (take j data @ map_blocks (round_block r) n (drop j data))"
proof (induction n arbitrary: j data)
  case 0
  then show ?case by (simp add: apply_rounds_from.simps)
next
  case (Suc n)
  let ?blk = "take 8 (drop j data)"
  let ?data' = "take j data @ round_block r ?blk @ drop (j + 8) data"
  have blk: "mem_read data j 8 = Some ?blk" using Suc.prems by (simp add: mem_read_def)
  have wr: "mem_write data j (round_block r ?blk) = Some ?data'"
    using Suc.prems by (simp add: mem_write_def min_def)
  have "apply_rounds_from r j (j + 8 * Suc n) data = apply_rounds_from r (j + 8) ((j + 8) + 8 * n) ?data'"
    by (subst apply_rounds_from.simps) (simp add: blk wr add.assoc)
  also have "\<dots> = Some (take (j + 8) ?data' @ map_blocks (round_block r) n (drop (j + 8) ?data'))"
    using Suc.prems by (intro Suc.IH) (auto simp: min_def)
  also have "\<dots> = Some (take j data @ map_blocks (round_block r) (Suc n) (drop j data))"
    using Suc.prems by (simp add: min_def add.commute)
  finally show ?case .
qed

lemma apply_rounds_blocks:
  "8 * n \<le> length data \<Longrightarrow> apply_rounds r (8 * n) data = Some (map_blocks (round_block r) n data)"
  using apply_rounds_from_blocks[of 0 n data r] by (simp add: apply_rounds_def)

section \<open>The ciphers as folds over their schedules\<close>

text \<open>The running sums of the two loops, as the list of the pairs they hand to the round.\<close>

fun sum_schedule :: "u32 \<Rightarrow> nat \<Rightarrow> u32 \<Rightarrow> u32 \<Rightarrow> (u32 \<times> u32) list" where
  "sum_schedule d 0 sm next_sum = []"
| "sum_schedule d (Suc n) sm next_sum = (sm, next_sum) # sum_schedule d n next_sum (next_sum + d)"

lemma encrypt_loop_fold:
  "8 * n \<le> length data \<Longrightarrow>
   encrypt_loop i sm next_sum k (8 * n) data
   = Some (map_blocks (round_block (fold (encrypt_round k) (sum_schedule xtea_delta i sm next_sum))) n data)"
proof (induction i arbitrary: sm next_sum data)
  case 0
  then show ?case by (simp add: map_blocks_round_id id_def)
next
  case (Suc i)
  then show ?case
    by (simp add: apply_rounds_blocks length_map_blocks map_blocks_round_comp comp_def)
qed

lemma decrypt_loop_fold:
  "8 * n \<le> length data \<Longrightarrow>
   decrypt_loop i sm next_sum k (8 * n) data
   = Some (map_blocks (round_block (fold (decrypt_round k) (sum_schedule (- xtea_delta) i sm next_sum))) n data)"
proof (induction i arbitrary: sm next_sum data)
  case 0
  then show ?case by (simp add: map_blocks_round_id id_def)
next
  case (Suc i)
  then show ?case
    by (simp add: apply_rounds_blocks length_map_blocks map_blocks_round_comp comp_def)
qed

text \<open>Decryption runs through the same sums backwards.\<close>

lemma decrypt_schedule:
  "sum_schedule (- xtea_delta) 32 (push_bit 5 xtea_delta) (push_bit 5 xtea_delta - xtea_delta)
   = rev (map prod.swap (sum_schedule xtea_delta 32 0 xtea_delta))"
  by (simp add: numeral_eq_Suc xtea_delta_def)

interpretation round_pair: invertible_step "encrypt_round k"
  "\<lambda>(m, n). decrypt_round k (n, m)" for k
  by unfold_locales (auto simp: decrypt_encrypt_round split: prod.splits)

lemma fold_swapped:
  "fold (\<lambda>(m, n). decrypt_round k (n, m)) ps = fold (decrypt_round k) (map prod.swap ps)"
  by (rule ext, induction ps) auto

lemma fold_decrypt_encrypt:
  "fold (decrypt_round k)
     (sum_schedule (- xtea_delta) 32 (push_bit 5 xtea_delta) (push_bit 5 xtea_delta - xtea_delta))
     (fold (encrypt_round k) (sum_schedule xtea_delta 32 0 xtea_delta) b) = b"
  using round_pair.fold_unstp_stp [of k "sum_schedule xtea_delta 32 0 xtea_delta" b]
  by (simp add: decrypt_schedule fold_swapped rev_map)

lemma xtea_encrypt_blocks:
  "8 * n \<le> length data \<Longrightarrow>
   xtea_encrypt data (8 * n) k
   = Some (map_blocks (round_block (fold (encrypt_round k) (sum_schedule xtea_delta 32 0 xtea_delta))) n data)"
  unfolding xtea_encrypt_def by (rule encrypt_loop_fold)

lemma xtea_encrypt_total:
  assumes "8 dvd len" and "len \<le> length data"
  shows "\<exists>out. xtea_encrypt data len k = Some out \<and> length out = length data \<and> drop len out = drop len data"
  using assms by (auto simp: dvd_def xtea_encrypt_blocks length_map_blocks drop_map_blocks)

lemma xtea_decrypt_total:
  assumes "8 dvd len" and "len \<le> length data"
  shows "\<exists>out. xtea_decrypt data len k = Some out \<and> length out = length data \<and> drop len out = drop len data"
  using assms by (auto simp: dvd_def xtea_decrypt_def Let_def decrypt_loop_fold length_map_blocks drop_map_blocks)

lemma xtea_decrypt_encrypt:
  assumes "8 dvd len" and "len \<le> length data"
  shows "Option.bind (xtea_encrypt data len k) (\<lambda>out. xtea_decrypt out len k) = Some data"
proof -
  obtain n where n: "len = 8 * n" using assms(1) by (auto simp: dvd_def)
  show ?thesis
    using assms(2)
    by (simp add: n xtea_encrypt_blocks xtea_decrypt_def Let_def decrypt_loop_fold length_map_blocks
        map_blocks_round_comp fold_decrypt_encrypt map_blocks_round_id)
qed

text \<open>The bytes behind the length argument take no part.\<close>

lemma map_blocks_append: "length xs = 8 * n \<Longrightarrow> map_blocks f n (xs @ ys) = map_blocks f n xs @ ys"
  by (induction n arbitrary: xs) auto

lemma xtea_encrypt_append:
  assumes "8 dvd length xs"
  shows "xtea_encrypt (xs @ ys) (length xs) k = map_option (\<lambda>out. out @ ys) (xtea_encrypt xs (length xs) k)"
proof -
  obtain n where n: "length xs = 8 * n" using assms by (auto simp: dvd_def)
  show ?thesis
    using xtea_encrypt_blocks[of n "xs @ ys" k] xtea_encrypt_blocks[of n xs k]
    by (simp add: n map_blocks_append)
qed

lemma xtea_decrypt_append:
  assumes "8 dvd length xs"
  shows "xtea_decrypt (xs @ ys) (length xs) k = map_option (\<lambda>out. out @ ys) (xtea_decrypt xs (length xs) k)"
proof -
  obtain n where n: "length xs = 8 * n" using assms by (auto simp: dvd_def)
  show ?thesis
    by (simp add: n xtea_decrypt_def Let_def decrypt_loop_fold map_blocks_append)
qed

text \<open>C31: the cipher round trip. On every length that is a multiple of the block size and inside the
  array, \<open>encrypt\<close> returns, leaves the bytes behind the length alone, and \<open>decrypt\<close> with the same key
  restores the whole array.\<close>

theorem xtea_roundtrip:
  assumes "8 dvd len" and "len \<le> length data"
  shows "\<exists>out. xtea_encrypt data len k = Some out \<and> length out = length data
           \<and> drop len out = drop len data \<and> xtea_decrypt out len k = Some data"
  using xtea_encrypt_total[OF assms, of k] xtea_decrypt_encrypt[OF assms, of k] by auto

theorem xtea_roundtrip_witness:
  "\<exists>out. xtea_encrypt [1, 2, 3, 4, 5, 6, 7, 8, 9] 8 (1, 2, 3, 4) = Some out
     \<and> length out = length [1, 2, 3, 4, 5, 6, 7, 8, 9 :: u8] \<and> drop 8 out = drop 8 [1, 2, 3, 4, 5, 6, 7, 8, 9]
     \<and> xtea_decrypt out 8 (1, 2, 3, 4) = Some [1, 2, 3, 4, 5, 6, 7, 8, 9]"
  by (rule xtea_roundtrip) simp_all

end
