(* ===== verification/Protocol_Layer.thy ===== *)
theory Protocol_Layer
  imports Network_Message Checksum Xtea
begin

text \<open>
  \<open>OutputMessage\<close> (\<open>src/src/outputmessage.h\<close>) and the framing half of \<open>Protocol\<close>
  (\<open>src/src/protocol.h\<close>, \<open>protocol.cpp\<close>): headers are written backwards from the body into the
  eight reserved bytes, the body is padded to whole XTEA blocks and encrypted, the receiver checks
  the block length, decrypts and recovers the inner length. The RSA decryption is OpenSSL's and is
  a parameter. The last section proves that what \<open>onSendMessage\<close> puts on the wire is accepted by
  the receiving code and yields the body that was written.
\<close>

section \<open>Output messages\<close>

datatype checksumMode_t = CHECKSUM_DISABLED | CHECKSUM_ADLER

record output_message =
  om_msg :: network_message
  om_start :: u16

definition new_output :: "u8 list \<Rightarrow> output_message" where
  "new_output buf = \<lparr>om_msg = new_message buf, om_start = INITIAL_BUFFER_POSITION\<rparr>"

text \<open>\<open>getOutputBuffer\<close> with the length \<open>Connection::internalSend\<close> writes: the bytes on the wire.\<close>

definition output_bytes :: "output_message \<Rightarrow> u8 list option" where
  "output_bytes om =
     mem_read (nm_buffer (om_msg om)) (unat (om_start om)) (unat (nm_length (om_msg om)))"

definition add_header :: "u8 list \<Rightarrow> output_message \<Rightarrow> output_message option" where
  "add_header hdr om =
     (if unat (om_start om) < length hdr then None
      else let st = om_start om - of_nat (length hdr); m = om_msg om
           in map_option (\<lambda>buf. om\<lparr>om_start := st,
                  om_msg := m\<lparr>nm_buffer := buf, nm_length := nm_length m + of_nat (length hdr)\<rparr>\<rparr>)
                (mem_write (nm_buffer m) (unat st) hdr))"

definition writeMessageLength :: "output_message \<Rightarrow> output_message option" where
  "writeMessageLength om = add_header (le_enc16 (nm_length (om_msg om))) om"

definition addCryptoHeader :: "checksumMode_t \<Rightarrow> output_message \<Rightarrow> output_message option" where
  "addCryptoHeader mode om =
     do { om1 \<leftarrow> (if mode = CHECKSUM_ADLER
                   then do { bs \<leftarrow> output_bytes om; add_header (le_enc32 (adlerChecksum bs)) om }
                   else Some om);
          writeMessageLength om1 }"

definition om_append :: "network_message \<Rightarrow> output_message \<Rightarrow> output_message option" where
  "om_append msg om =
     do { bs \<leftarrow> mem_read (nm_buffer msg) 8 (unat (nm_length msg));
          m' \<leftarrow> put_bytes bs (om_msg om);
          Some (om\<lparr>om_msg := m'\<rparr>) }"

section \<open>The protocol's cipher\<close>

record protocol =
  p_key :: xtea_key
  encryptionEnabled :: bool
  checksumMode :: checksumMode_t
  rawMessages :: bool

definition XTEA_encrypt :: "protocol \<Rightarrow> output_message \<Rightarrow> output_message option" where
  "XTEA_encrypt p om =
     (let paddingBytes = unat (nm_length (om_msg om)) mod 8 in
      do { m1 \<leftarrow> (if paddingBytes \<noteq> 0 then addPaddingBytes (8 - paddingBytes) (om_msg om)
                   else Some (om_msg om));
           let st = unat (om_start om);
           out \<leftarrow> xtea_encrypt (drop st (nm_buffer m1)) (unat (nm_length m1)) (p_key p);
           Some (om\<lparr>om_msg := m1\<lparr>nm_buffer := take st (nm_buffer m1) @ out\<rparr>\<rparr>) })"

definition onSendMessage :: "protocol \<Rightarrow> output_message \<Rightarrow> output_message option" where
  "onSendMessage p om =
     (if \<not> rawMessages p
      then do { om1 \<leftarrow> writeMessageLength om;
                if encryptionEnabled p
                then do { om2 \<leftarrow> XTEA_encrypt p om1; addCryptoHeader (checksumMode p) om2 }
                else Some om1 }
      else Some om)"

definition XTEA_decrypt :: "protocol \<Rightarrow> network_message \<Rightarrow> (bool \<times> network_message) option" where
  "XTEA_decrypt p m =
     (if (uint (nm_length m) - 6) AND 7 \<noteq> 0 then Some (False, m)
      else do { let st = unat (nm_position m);
                out \<leftarrow> xtea_decrypt (drop st (nm_buffer m)) (nat (uint (nm_length m) - 6)) (p_key p);
                (innerLength, m1) \<leftarrow> get16 (m\<lparr>nm_buffer := take st (nm_buffer m) @ out\<rparr>);
                if uint innerLength + 8 > uint (nm_length m1) then Some (False, m1)
                else Some (True, setLength innerLength m1) })"

text \<open>\<open>onRecvMessage\<close> either drops the message or hands it to the virtual \<open>parsePacket\<close>.\<close>

datatype recv_result = Dropped network_message | ParsePacket network_message

definition onRecvMessage :: "protocol \<Rightarrow> network_message \<Rightarrow> recv_result option" where
  "onRecvMessage p m =
     (if encryptionEnabled p
      then do { (ok, m') \<leftarrow> XTEA_decrypt p m; Some (if ok then ParsePacket m' else Dropped m') }
      else Some (ParsePacket m))"

definition RSA_decrypt ::
  "(u8 list \<Rightarrow> u8 list) \<Rightarrow> network_message \<Rightarrow> (bool \<times> network_message) option" where
  "RSA_decrypt rsa m =
     (if uint (nm_length m) - uint (nm_position m) < 128 then Some (False, m)
      else do { blk \<leftarrow> mem_read (nm_buffer m) (unat (nm_position m)) 128;
                buf \<leftarrow> mem_write (nm_buffer m) (unat (nm_position m)) (rsa blk);
                (b, m') \<leftarrow> getByte (m\<lparr>nm_buffer := buf\<rparr>);
                Some (b = 0, m') })"

definition getOutputBuffer_flushes :: "output_message option \<Rightarrow> int \<Rightarrow> bool" where
  "getOutputBuffer_flushes cur sz =
     (case cur of None \<Rightarrow> False
      | Some om \<Rightarrow> uint (nm_length (om_msg om)) + sz > MAX_PROTOCOL_BODY_LENGTH)"

section \<open>The packet check of the receiving connection\<close>

text \<open>The buffer work of \<open>Connection::parseHeader\<close> and \<open>Connection::parsePacket\<close>: after the two
  header bytes a body of \<open>size\<close> bytes is read behind them; the checksum is compared and, when it does
  not match, the four bytes are given back.\<close>

definition header_accepts :: "u16 \<Rightarrow> bool" where
  "header_accepts sz \<longleftrightarrow> \<not> (sz = 0 \<or> uint sz \<ge> NETWORKMESSAGE_MAXSIZE - 16)"

definition check_packet :: "network_message \<Rightarrow> (bool \<times> network_message) option" where
  "check_packet m =
     (let len = uint (nm_length m) - uint (nm_position m) - CHECKSUM_LENGTH in
      do { checksum \<leftarrow> (if len > 0
                        then map_option adlerChecksum
                               (mem_read (nm_buffer m) (unat (nm_position m) + 4) (nat len))
                        else Some 0);
           (recvChecksum, m1) \<leftarrow> get32 m;
           if recvChecksum \<noteq> checksum then Some (False, skipBytes (- CHECKSUM_LENGTH) m1)
           else Some (True, m1) })"

definition receive_packet :: "protocol \<Rightarrow> u8 list \<Rightarrow> recv_result option" where
  "receive_packet p buf =
     (let m = new_message buf in
      do { sz \<leftarrow> getLengthHeader m;
           if header_accepts sz
           then do { (ok, m1) \<leftarrow> check_packet (getBodyBuffer (setLength (sz + 2) m));
                     onRecvMessage p m1 }
           else None })"

section \<open>Sending, on explicit byte lists\<close>

lemma of_nat_mod_ucast: "(of_nat (unat (w :: u16) mod 256) :: u8) = ucast w"
  by (simp add: word_unat_eq_iff unsigned_ucast_eq unat_of_nat take_bit_eq_mod)

lemma le_enc16_bytes: "le_enc16 w = [ucast w, ucast (drop_bit 8 w)]"
proof -
  have "unat w div 256 = unat (drop_bit 8 w)"
    by (simp add: drop_bit_eq_div unat_div)
  then have "(of_nat (unat w div 256 mod 256) :: u8) = ucast (drop_bit 8 w)"
    by (simp only: of_nat_mod_ucast)
  then show ?thesis by (simp add: le_enc16_def numeral_2_eq_2 of_nat_mod_ucast)
qed

lemma length_header_dec: "ucast (le_enc16 w ! 0) OR push_bit 8 (ucast (le_enc16 w ! 1)) = (w :: u16)"
proof (rule bit_word_eqI)
  fix n
  assume "n < LENGTH(16)"
  then consider "n < 8" | "8 \<le> n \<and> n < 16" by force
  then show "bit (ucast (le_enc16 w ! 0) OR push_bit 8 (ucast (le_enc16 w ! 1)) :: u16) n = bit w n"
    by cases (auto simp: le_enc16_bytes bit_simps)
qed

lemma getLengthHeader_wire:
  "nm_buffer m = le_enc16 w @ rest \<Longrightarrow> getLengthHeader m = Some w"
  by (simp add: getLengthHeader_def mem_read_def length_header_dec del: One_nat_def)

text \<open>The output buffer as three stretches: the free part of the header space, the message, the rest
  of the array.\<close>

definition om_view :: "output_message \<Rightarrow> u8 list \<Rightarrow> u8 list \<Rightarrow> u8 list \<Rightarrow> bool" where
  "om_view om free msg rest \<longleftrightarrow>
     nm_buffer (om_msg om) = free @ msg @ rest \<and> length (free @ msg @ rest) = 24590
     \<and> unat (om_start om) = length free \<and> unat (nm_length (om_msg om)) = length msg"

lemma om_view_output_bytes: "om_view om free msg rest \<Longrightarrow> output_bytes om = Some msg"
  by (auto simp: om_view_def output_bytes_def mem_read_def)

lemma add_header_view:
  assumes "om_view om (free @ slot) msg rest" and "length slot = length hdr"
    and "length hdr + length msg < 65536"
  shows "\<exists>om'. add_header hdr om = Some om' \<and> om_view om' free (hdr @ msg) rest
           \<and> nm_position (om_msg om') = nm_position (om_msg om)"
proof -
  have st: "unat (om_start om) = length free + length hdr" using assms by (simp add: om_view_def)
  then have st': "unat (om_start om - of_nat (length hdr)) = length free"
    using unat_sub[of "of_nat (length hdr)" "om_start om"] assms(3)
    by (simp add: unat_of_nat word_le_nat_alt)
  have len: "unat (nm_length (om_msg om) + of_nat (length hdr)) = length hdr + length msg"
    using unat16_add[of "nm_length (om_msg om)" "length hdr"] assms(1,3)
    by (simp add: om_view_def add.commute)
  show ?thesis
    using assms(1,2) st st' len by (auto simp: add_header_def Let_def mem_write_def om_view_def)
qed

lemma writeMessageLength_view:
  assumes "om_view om (free @ slot) msg rest" "length slot = 2" "2 + length msg < 65536"
  shows "\<exists>om'. writeMessageLength om = Some om' \<and> om_view om' free (le_enc16 (of_nat (length msg)) @ msg) rest
           \<and> nm_position (om_msg om') = nm_position (om_msg om)"
proof -
  have "unat (nm_length (om_msg om)) = length msg" using assms(1) by (simp add: om_view_def)
  then have "nm_length (om_msg om) = of_nat (length msg)" by (metis of_nat_unat ucast_id)
  then show ?thesis
    using add_header_view[OF assms(1), of "le_enc16 (of_nat (length msg))"] assms(2,3)
    by (simp add: writeMessageLength_def)
qed

text \<open>Encryption pads with \<open>0x33\<close> to whole blocks and replaces the message by its cipher text.\<close>

definition pad_length :: "nat \<Rightarrow> nat" where
  "pad_length n = (if n mod 8 \<noteq> 0 then 8 - n mod 8 else 0)"

definition pad_blocks :: "u8 list \<Rightarrow> u8 list" where
  "pad_blocks msg = msg @ replicate (pad_length (length msg)) 0x33"

lemma pad_length_dvd: "8 dvd n + pad_length n"
  by (auto simp: pad_length_def) presburger

lemma pad_length_le: "pad_length n \<le> 7"
  by (auto simp: pad_length_def)

lemma length_pad_blocks: "length (pad_blocks msg) = length msg + pad_length (length msg)"
  by (simp add: pad_blocks_def)

lemma addPadding_view:
  assumes "om_view om free msg rest" and "unat (nm_position (om_msg om)) = length free + length msg"
    and "length free + length msg + 8 < 24576" and "pad_length (length msg) \<noteq> 0"
  shows "\<exists>m'. addPaddingBytes (8 - unat (nm_length (om_msg om)) mod 8) (om_msg om) = Some m'
     \<and> om_view (om\<lparr>om_msg := m'\<rparr>) free (pad_blocks msg) (drop (pad_length (length msg)) rest)"
proof -
  let ?k = "pad_length (length msg)"
  have len: "unat (nm_length (om_msg om)) = length msg"
    and buf: "nm_buffer (om_msg om) = free @ msg @ rest"
    and tot: "length free + (length msg + length rest) = 24590"
    using assms(1) by (auto simp: om_view_def)
  have k: "8 - unat (nm_length (om_msg om)) mod 8 = ?k" and k7: "?k \<le> 7"
    using assms(4) len pad_length_le by (auto simp: pad_length_def split: if_splits)
  have can: "canAdd (om_msg om) ?k"
    using assms(2,3) k7 by (subst canAdd_iff) auto
  have "unat (nm_length (om_msg om) + of_nat ?k) = length msg + ?k"
    using unat16_add[of "nm_length (om_msg om)" ?k] len assms(3) k7 by simp
  then show ?thesis
    using can k len buf tot assms(2,3) k7
    by (auto simp: addPaddingBytes_def put_bytes_def mem_write_def om_view_def length_pad_blocks pad_blocks_def
        om_view_def assms(1)[unfolded om_view_def])
qed

lemma XTEA_encrypt_view:
  assumes "om_view om free msg rest" and "unat (nm_position (om_msg om)) = length free + length msg"
    and "length free + length msg + 8 < 24576"
  shows "\<exists>om' c. XTEA_encrypt p om = Some om'
     \<and> xtea_encrypt (pad_blocks msg) (length (pad_blocks msg)) (p_key p) = Some c
     \<and> length c = length (pad_blocks msg)
     \<and> om_view om' free c (drop (pad_length (length msg)) rest)"
proof -
  let ?k = "pad_length (length msg)"
  have len: "unat (nm_length (om_msg om)) = length msg" using assms(1) by (simp add: om_view_def)
  obtain m1 where m1: "(if unat (nm_length (om_msg om)) mod 8 \<noteq> 0
        then addPaddingBytes (8 - unat (nm_length (om_msg om)) mod 8) (om_msg om) else Some (om_msg om)) = Some m1"
    and v: "om_view (om\<lparr>om_msg := m1\<rparr>) free (pad_blocks msg) (drop ?k rest)"
  proof (cases "length msg mod 8 = 0")
    case True
    then show ?thesis using that[of "om_msg om"] len assms(1) by (simp add: pad_blocks_def pad_length_def)
  next
    case False
    then have "?k \<noteq> 0" by (auto simp: pad_length_def)
    then show ?thesis using addPadding_view[OF assms] that False len by auto
  qed
  have dvd: "8 dvd length (pad_blocks msg)" by (simp add: length_pad_blocks pad_length_dvd)
  obtain c where c: "xtea_encrypt (pad_blocks msg) (length (pad_blocks msg)) (p_key p) = Some c"
      "length c = length (pad_blocks msg)"
    using xtea_encrypt_total[OF dvd, of "pad_blocks msg" "p_key p"] by auto
  have st: "drop (unat (om_start om)) (nm_buffer m1) = pad_blocks msg @ drop ?k rest"
    and free: "take (unat (om_start om)) (nm_buffer m1) = free"
    and len1: "unat (nm_length m1) = length (pad_blocks msg)"
    using v by (auto simp: om_view_def)
  have "XTEA_encrypt p om = Some (om\<lparr>om_msg := m1\<lparr>nm_buffer := free @ c @ drop ?k rest\<rparr>\<rparr>)"
    using m1 by (simp add: XTEA_encrypt_def Let_def st free len1 xtea_encrypt_append[OF dvd] c(1))
  moreover have "om_view (om\<lparr>om_msg := m1\<lparr>nm_buffer := free @ c @ drop ?k rest\<rparr>\<rparr>) free c (drop ?k rest)"
    using v c(2) by (auto simp: om_view_def)
  ultimately show ?thesis using c by blast
qed

text \<open>What \<open>onSendMessage\<close> puts on the wire for an encrypted, checksummed message with body \<open>b\<close>.\<close>

definition wire_plain :: "u8 list \<Rightarrow> u8 list" where
  "wire_plain b = pad_blocks (le_enc16 (of_nat (length b)) @ b)"

definition wire_format :: "u8 list \<Rightarrow> u8 list" where
  "wire_format c = le_enc16 (of_nat (4 + length c)) @ le_enc32 (adlerChecksum c) @ c"

lemma onSendMessage_wire:
  assumes "wr_view (om_msg om) b" and "om_start om = INITIAL_BUFFER_POSITION"
    and "encryptionEnabled p" "\<not> rawMessages p" "checksumMode p = CHECKSUM_ADLER"
    and "length b + 16 < 24576"
  shows "\<exists>om' c. onSendMessage p om = Some om' \<and> output_bytes om' = Some (wire_format c)
     \<and> xtea_encrypt (wire_plain b) (length (wire_plain b)) (p_key p) = Some c
     \<and> length c = length (wire_plain b)"
proof -
  let ?B = "nm_buffer (om_msg om)"
  have inv: "length ?B = 24590" and pos: "unat (nm_position (om_msg om)) = 8 + length b"
    and len: "unat (nm_length (om_msg om)) = length b" and body: "take (length b) (drop 8 ?B) = b"
    using assms(1) by (auto simp: wr_view_def nm_inv_iff mem_read_Some_iff)
  have split: "?B = take 8 ?B @ b @ drop (8 + length b) ?B"
    using body by (metis append_take_drop_id drop_drop add.commute)
  obtain f0 f1 f2 where f: "take 8 ?B = f0 @ f1 @ f2" "length f0 = 2" "length f1 = 4" "length f2 = 2"
    using take_drop_split[of 2 8 0 ?B, simplified] take_drop_split[of 4 6 2 ?B, simplified] inv
    by (intro that[of "take 2 ?B" "take 4 (drop 2 ?B)" "take 2 (drop 6 ?B)"])
       (simp_all add: numeral_2_eq_2)
  let ?rest = "drop (8 + length b) ?B"
  have v0: "om_view om (f0 @ f1 @ f2) b ?rest"
    using split f inv len assms(2) by (auto simp: om_view_def INITIAL_BUFFER_POSITION_def)
  obtain om1 where om1: "writeMessageLength om = Some om1"
      "om_view om1 (f0 @ f1) (le_enc16 (of_nat (length b)) @ b) ?rest"
      "nm_position (om_msg om1) = nm_position (om_msg om)"
    using writeMessageLength_view[of om "f0 @ f1" f2 b ?rest] v0 f(4) assms(6) by auto
  obtain om2 c where om2: "XTEA_encrypt p om1 = Some om2"
      and c: "xtea_encrypt (wire_plain b) (length (wire_plain b)) (p_key p) = Some c"
        "length c = length (wire_plain b)"
      and v2: "om_view om2 (f0 @ f1) c (drop (pad_length (2 + length b)) ?rest)"
    using XTEA_encrypt_view[OF om1(2), of p] om1(3) pos f assms(6) by (auto simp: wire_plain_def)
  have lc: "length c < 24576"
    using c(2) assms(6) pad_length_le[of "Suc (Suc (length b))"]
    by (simp add: wire_plain_def length_pad_blocks)
  obtain om3 where om3: "add_header (le_enc32 (adlerChecksum c)) om2 = Some om3"
      and v3: "om_view om3 f0 (le_enc32 (adlerChecksum c) @ c) (drop (pad_length (2 + length b)) ?rest)"
    using add_header_view[of om2 f0 f1 c _ "le_enc32 (adlerChecksum c)"] v2 f lc by auto
  obtain om4 where om4: "writeMessageLength om3 = Some om4"
      and v4: "om_view om4 [] (wire_format c) (drop (pad_length (2 + length b)) ?rest)"
    using writeMessageLength_view[of om3 "[]" f0 "le_enc32 (adlerChecksum c) @ c"] v3 f lc
    by (auto simp: wire_format_def)
  have "onSendMessage p om = Some om4"
    using assms(3-5) om1(1) om2 om3 om4 om_view_output_bytes[OF v2]
    by (simp add: onSendMessage_def addCryptoHeader_def)
  then show ?thesis using om_view_output_bytes[OF v4] c by blast
qed

section \<open>Receiving what was sent\<close>

lemma int_and_7: "(i :: int) AND 7 = i mod 8"
  using take_bit_eq_mask[of 3 i] by (simp add: take_bit_eq_mod mask_eq_exp_minus_1)

text \<open>A received message of \<open>n\<close> bytes, read up to byte \<open>k\<close> of its buffer.\<close>

lemma rd_viewI:
  assumes "nm_buffer m = pre @ bs @ rest" "length (pre @ bs @ rest) = 24590"
    and "unat (nm_position m) = length pre" "unat (nm_length m) + 8 = length pre + length bs"
    and "length pre + length bs < 24590"
  shows "rd_view m bs"
  using assms by (auto simp: rd_view_def nm_inv_iff mem_read_def)

lemma check_packet_accepts:
  assumes "nm_buffer m = hdr @ le_enc32 (adlerChecksum c) @ c @ rest" "length hdr = 2"
    and "length (nm_buffer m) = 24590" "nm_position m = 2" "unat (nm_length m) = 6 + length c"
    and "0 < length c" "length c < 24570"
  shows "check_packet m = Some (True, m\<lparr>nm_position := 6\<rparr>)"
proof -
  have ul: "uint (nm_length m) = int (6 + length c)" using assms(5) by (simp add: uint_nat)
  have "mem_read (nm_buffer m) 6 (length c) = Some c"
    using assms(1-3) by (simp add: mem_read_def)
  moreover have "get_bytes 4 m = Some (le_enc32 (adlerChecksum c), m\<lparr>nm_position := nm_position m + of_nat 4\<rparr>)"
    using assms by (intro get_bytes_hit) (auto simp: mem_read_def)
  ultimately show ?thesis
    using ul assms(4,6) by (simp add: check_packet_def CHECKSUM_LENGTH_def get32_def c32.dec_enc)
qed

lemma XTEA_decrypt_accepts:
  assumes "xtea_encrypt plain (length plain) (p_key p) = Some c" "length c = length plain"
    and plain: "plain = le_enc16 (of_nat (length b)) @ b @ pad" and dvd: "8 dvd length plain"
    and "nm_buffer m = hdr @ c @ rest" "length hdr = 6" "length (nm_buffer m) = 24590"
    and "nm_position m = 6" "unat (nm_length m) = 6 + length c" "length c < 24570"
  shows "\<exists>m'. XTEA_decrypt p m = Some (True, m') \<and> rd_view m' b"
proof -
  let ?m1 = "m\<lparr>nm_buffer := hdr @ plain @ rest\<rparr>"
  have ul: "uint (nm_length m) = int (6 + length c)" using assms(9) by (simp add: uint_nat)
  then have blk: "(uint (nm_length m) - 6) AND 7 = 0"
    using dvd assms(2) by (simp add: int_and_7 flip: of_nat_mod) presburger
  have dec: "xtea_decrypt c (length c) (p_key p) = Some plain"
    using xtea_decrypt_encrypt[of "length plain" plain "p_key p"] dvd assms(1,2) by simp
  have "xtea_decrypt (drop 6 (nm_buffer m)) (length c) (p_key p) = Some (plain @ rest)"
    using assms(2,5,6) dvd xtea_decrypt_append[of c rest "p_key p"]
    by (simp add: dec[unfolded assms(2)])
  moreover have g: "get16 ?m1 = Some (of_nat (length b), ?m1\<lparr>nm_position := 8\<rparr>)"
  proof -
    have "get_bytes 2 ?m1 = Some (le_enc16 (of_nat (length b)), ?m1\<lparr>nm_position := nm_position ?m1 + of_nat 2\<rparr>)"
      using assms by (intro get_bytes_hit) (auto simp: mem_read_def plain)
    then show ?thesis using assms(8) by (simp add: get16_def c16.dec_enc)
  qed
  moreover have lb: "unat (of_nat (length b) :: u16) = length b" "length b + 2 \<le> length c"
    using assms(2,10) plain by (simp_all add: unat_of_nat)
  moreover have "uint (of_nat (length b) :: u16) = int (length b)" by (simp only: uint_nat lb)
  ultimately have "XTEA_decrypt p m = Some (True, setLength (of_nat (length b)) (?m1\<lparr>nm_position := 8\<rparr>))"
    using blk ul assms(5,6,8) by (simp add: XTEA_decrypt_def Let_def)
  moreover have "rd_view (setLength (of_nat (length b)) (?m1\<lparr>nm_position := 8\<rparr>)) b"
    using assms lb
    by (intro rd_viewI[where pre = "hdr @ le_enc16 (of_nat (length b))" and rest = "pad @ rest"])
       (auto simp: setLength_def plain)
  ultimately show ?thesis by blast
qed

lemma receive_wire:
  assumes "xtea_encrypt (wire_plain b) (length (wire_plain b)) (p_key p) = Some c"
    and "length c = length (wire_plain b)" and "encryptionEnabled p" and "length b + 16 < 24576"
    and "length (wire_format c @ rest) = 24590"
  shows "\<exists>m'. receive_packet p (wire_format c @ rest) = Some (ParsePacket m') \<and> rd_view m' b"
proof -
  let ?sz = "of_nat (4 + length c) :: u16"
  let ?m = "getBodyBuffer (setLength (?sz + 2) (new_message (wire_format c @ rest)))"
  have lc: "length c < 24570" "2 \<le> length c"
    using assms(2,4) pad_length_le[of "Suc (Suc (length b))"]
    by (simp_all add: wire_plain_def length_pad_blocks)
  have ne: "c \<noteq> []" using lc(2) by auto
  have sz: "unat ?sz = 4 + length c" using lc by (subst unat_of_nat) simp
  have sz2: "unat (?sz + 2) = 6 + length c" using unat16_add[of ?sz 2] sz lc by simp
  have usz: "uint ?sz = int (4 + length c)" using sz by (simp only: uint_nat)
  have hdr: "getLengthHeader (new_message (wire_format c @ rest)) = Some ?sz"
    by (rule getLengthHeader_wire[where rest = "le_enc32 (adlerChecksum c) @ c @ rest"])
       (simp add: new_message_def wire_format_def)
  have "?sz \<noteq> 0" using sz by (metis add_is_0 unat_0 zero_neq_numeral)
  then have acc: "header_accepts ?sz" using usz lc by (simp add: header_accepts_def nm_consts)
  have "check_packet ?m = Some (True, ?m\<lparr>nm_position := 6\<rparr>)"
    using lc ne assms(5) sz2
    by (intro check_packet_accepts[where hdr = "le_enc16 ?sz" and rest = rest])
       (simp_all add: getBodyBuffer_def setLength_def new_message_def wire_format_def)
  moreover have "\<exists>m'. XTEA_decrypt p (?m\<lparr>nm_position := 6\<rparr>) = Some (True, m') \<and> rd_view m' b"
    using assms lc sz2 pad_length_dvd[of "Suc (Suc (length b))"]
    by (intro XTEA_decrypt_accepts[where plain = "wire_plain b" and c = c and rest = rest
          and hdr = "le_enc16 ?sz @ le_enc32 (adlerChecksum c)"
          and pad = "replicate (pad_length (2 + length b)) 0x33"])
       (simp_all add: getBodyBuffer_def setLength_def new_message_def wire_format_def wire_plain_def
          pad_blocks_def pad_length_dvd)
  ultimately show ?thesis
    using hdr acc assms(3) by (auto simp: receive_packet_def Let_def onRecvMessage_def)
qed

section \<open>Properties\<close>

text \<open>a message the receiver hands on has passed the block check: decryption refuses, without
  touching the buffer, every message whose cipher text is not a whole number of blocks, in particular
  every message shorter than six bytes.\<close>

theorem XTEA_decrypt_refuses:
  assumes "unat (nm_length m) < 6 \<or> (unat (nm_length m) - 6) mod 8 \<noteq> 0"
  shows "XTEA_decrypt p m = Some (False, m)"
proof -
  have "(uint (nm_length m) - 6) mod 8 \<noteq> 0"
    using assms unat16_lt[of "nm_length m"] unfolding uint_nat by presburger
  then show ?thesis by (simp add: XTEA_decrypt_def int_and_7)
qed

theorem XTEA_decrypt_refuses_witness:
  "XTEA_decrypt \<lparr>p_key = (1, 2, 3, 4), encryptionEnabled = True, checksumMode = CHECKSUM_ADLER, rawMessages = False\<rparr>
     (new_message (replicate 24590 0)\<lparr>nm_length := 3\<rparr>)
   = Some (False, new_message (replicate 24590 0)\<lparr>nm_length := 3\<rparr>)"
  by (rule XTEA_decrypt_refuses) (simp add: new_message_def)

end
