(* ===== verification/Wildcard_Tree.thy ===== *)
theory Wildcard_Tree
  imports Return_Values "HOL-Library.Sublist" "HOL-Library.AList"
begin

text \<open>
  \<open>WildcardTreeNode\<close> of \<open>src/src/wildcardtree.h\<close> and \<open>wildcardtree.cpp\<close>: the prefix tree over the
  names of the players online, with insertion, removal with pruning, and the search for the one name
  that a query abbreviates. The children map is an association list: the code only looks keys up,
  counts them and takes the single entry of a one-element map, so the order of the entries is free.
  The tree is proved to refine a set of strings; the locale \<open>name_index\<close> is that contract.
\<close>

section \<open>The tree and its operations\<close>

datatype wtree = WNode (breakpoint: bool) (wchildren: "(char \<times> wtree) list")

definition getChild :: "char \<Rightarrow> wtree \<Rightarrow> wtree option" where
  "getChild ch t = map_of (wchildren t) ch"

text \<open>\<open>addChild\<close> yields the child a node has for \<open>ch\<close> afterwards; \<open>put_child\<close> is the state of the map
  that then holds it, \<open>erase_child\<close> that of \<open>children.erase\<close>.\<close>

definition addChild :: "char \<Rightarrow> bool \<Rightarrow> wtree \<Rightarrow> wtree" where
  "addChild ch bp t =
     (case getChild ch t of
        Some child \<Rightarrow> (if bp \<and> \<not> breakpoint child then WNode True (wchildren child) else child)
      | None \<Rightarrow> WNode bp [])"

definition put_child :: "char \<Rightarrow> wtree \<Rightarrow> wtree \<Rightarrow> wtree" where
  "put_child ch child t = WNode (breakpoint t) (AList.update ch child (wchildren t))"

definition erase_child :: "char \<Rightarrow> wtree \<Rightarrow> wtree" where
  "erase_child ch t = WNode (breakpoint t) (AList.delete ch (wchildren t))"

text \<open>Insertion of the empty string reads before the start of the string: it has no value.\<close>

fun wt_insert :: "string \<Rightarrow> wtree \<Rightarrow> wtree option" where
  "wt_insert [] t = None"
| "wt_insert [c] t = Some (put_child c (addChild c True t) t)"
| "wt_insert (c # cs) t =
     map_option (\<lambda>child. put_child c child t) (wt_insert cs (addChild c False t))"

text \<open>Removal walks down the whole name first and gives up when a character is missing; on the way
  back it erases the nodes that are left without children and without a name.\<close>

definition prunable :: "wtree \<Rightarrow> bool" where
  "prunable t \<longleftrightarrow> wchildren t = [] \<and> \<not> breakpoint t"

fun remove_path :: "string \<Rightarrow> wtree \<Rightarrow> wtree option" where
  "remove_path [] t = Some (WNode False (wchildren t))"
| "remove_path (c # cs) t =
     (case getChild c t of
        None \<Rightarrow> None
      | Some child \<Rightarrow>
          map_option (\<lambda>child'. if prunable child' then erase_child c t else put_child c child' t)
            (remove_path cs child))"

definition wt_remove :: "string \<Rightarrow> wtree \<Rightarrow> wtree" where
  "wt_remove str t = (case remove_path str t of None \<Rightarrow> t | Some t' \<Rightarrow> t')"

fun walk :: "string \<Rightarrow> wtree \<Rightarrow> wtree option" where
  "walk [] t = Some t"
| "walk (c # cs) t = (case getChild c t of None \<Rightarrow> None | Some child \<Rightarrow> walk cs child)"

fun find_down :: "wtree \<Rightarrow> string \<Rightarrow> ReturnValue \<times> string" where
  "find_down (WNode b []) res = (RETURNVALUE_NOERROR, res)"
| "find_down (WNode b [(c, t)]) res =
     (if b then (RETURNVALUE_NAMEISTOOAMBIGUOUS, res) else find_down t (res @ [c]))"
| "find_down (WNode b (e1 # e2 # es)) res = (RETURNVALUE_NAMEISTOOAMBIGUOUS, res)"

text \<open>The second component is the string left in the out-parameter \<open>result\<close>.\<close>

definition findOne :: "string \<Rightarrow> string \<Rightarrow> wtree \<Rightarrow> ReturnValue \<times> string" where
  "findOne query result t =
     (case walk query t of
        None \<Rightarrow> (RETURNVALUE_PLAYERWITHTHISNAMEISNOTONLINE, result)
      | Some cur \<Rightarrow> find_down cur query)"

section \<open>Abstraction and invariant\<close>

fun contains :: "string \<Rightarrow> wtree \<Rightarrow> bool" where
  "contains [] t \<longleftrightarrow> breakpoint t"
| "contains (c # cs) t \<longleftrightarrow> (case getChild c t of None \<Rightarrow> False | Some child \<Rightarrow> contains cs child)"

definition wt_names :: "wtree \<Rightarrow> string set" where
  "wt_names t = {s. contains s t}"

text \<open>Every node has distinct keys, and every node below the root is alive: it ends a name or leads
  to one.\<close>

fun wt_inv :: "wtree \<Rightarrow> bool" where
  "wt_inv (WNode b cs) \<longleftrightarrow>
     distinct (map fst cs) \<and> list_all (\<lambda>e. \<not> prunable (snd e) \<and> wt_inv (snd e)) cs"

lemma list_all_update: "list_all P xs \<Longrightarrow> P (k, v) \<Longrightarrow> list_all P (AList.update k v xs)"
  by (induction xs) auto

lemma list_all_delete: "list_all P xs \<Longrightarrow> list_all P (AList.delete k xs)"
  by (auto simp: list_all_iff AList.delete_eq)

lemma update_nonempty [simp]: "AList.update k v xs \<noteq> []"
  by (cases xs) auto

lemma getChild_put [simp]: "getChild ch (put_child c child t) = (if ch = c then Some child else getChild ch t)"
  by (simp add: getChild_def put_child_def AList.update_conv')

lemma getChild_erase [simp]: "getChild ch (erase_child c t) = (if ch = c then None else getChild ch t)"
  by (simp add: getChild_def erase_child_def AList.delete_conv')

lemma breakpoint_simps [simp]:
  "breakpoint (put_child c child t) = breakpoint t" "breakpoint (erase_child c t) = breakpoint t"
  by (simp_all add: put_child_def erase_child_def)

lemma getChild_WNode [simp]: "getChild c (WNode b cs) = map_of cs c"
  by (simp add: getChild_def)

lemma wt_inv_alt:
  "wt_inv t \<longleftrightarrow> distinct (map fst (wchildren t)) \<and>
     list_all (\<lambda>e. \<not> prunable (snd e) \<and> wt_inv (snd e)) (wchildren t)"
  by (cases t) simp

lemma wt_inv_put [inv_intros]: "wt_inv t \<Longrightarrow> wt_inv child \<Longrightarrow> \<not> prunable child \<Longrightarrow> wt_inv (put_child c child t)"
  by (auto simp: wt_inv_alt[of t] wt_inv_alt[of "put_child c child t"] put_child_def AList.distinct_update
      intro: list_all_update)

lemma wt_inv_erase [inv_intros]: "wt_inv t \<Longrightarrow> wt_inv (erase_child c t)"
  by (auto simp: wt_inv_alt[of t] wt_inv_alt[of "erase_child c t"] erase_child_def AList.distinct_delete
      intro: list_all_delete)

lemma wt_inv_child: "wt_inv t \<Longrightarrow> getChild c t = Some child \<Longrightarrow> wt_inv child \<and> \<not> prunable child"
  by (auto simp: wt_inv_alt[of t] getChild_def list_all_iff dest!: map_of_SomeD)

section \<open>Insertion\<close>

lemma contains_addChild:
  "contains s (addChild c bp t) \<longleftrightarrow>
     (case getChild c t of None \<Rightarrow> False | Some child \<Rightarrow> contains s child) \<or> bp \<and> s = []"
  by (cases s) (auto simp: addChild_def getChild_def split: option.splits)

lemma wt_inv_addChild: "wt_inv t \<Longrightarrow> wt_inv (addChild c bp t)"
proof (cases "getChild c t")
  case None
  then show ?thesis by (simp add: addChild_def)
next
  case (Some child)
  moreover assume "wt_inv t"
  ultimately have "wt_inv child" using wt_inv_child by blast
  then show ?thesis using Some by (cases child) (simp add: addChild_def)
qed

lemma contains_put_cons:
  "contains (d # ds) (put_child c child t) \<longleftrightarrow> (if d = c then contains ds child else contains (d # ds) t)"
  by simp

lemma wt_insert_spec:
  assumes "s \<noteq> []"
  shows "\<exists>t'. wt_insert s t = Some t' \<and> (\<forall>x. contains x t' \<longleftrightarrow> contains x t \<or> x = s)"
  using assms
proof (induction s t rule: wt_insert.induct)
  case (2 c t)
  have "contains x (put_child c (addChild c True t) t) \<longleftrightarrow> contains x t \<or> x = [c]" for x
    by (cases x) (auto simp: contains_addChild)
  then show ?case by simp
next
  case (3 c d ds t)
  then obtain t1 where t1: "wt_insert (d # ds) (addChild c False t) = Some t1"
    and ct: "\<And>x. contains x t1 \<longleftrightarrow> contains x (addChild c False t) \<or> x = d # ds" by auto
  have "contains x (put_child c t1 t) \<longleftrightarrow> contains x t \<or> x = c # d # ds" for x
    by (cases x) (auto simp: ct contains_addChild)
  then show ?case using t1 by simp
qed simp

lemma wt_insert_inv:
  "wt_insert s t = Some t' \<Longrightarrow> wt_inv t \<Longrightarrow> wt_inv t' \<and> wchildren t' \<noteq> []"
proof (induction s t arbitrary: t' rule: wt_insert.induct)
  case (2 c t)
  have "\<not> prunable (addChild c True t)" by (auto simp: addChild_def prunable_def split: option.splits)
  then show ?case using 2 wt_inv_put[OF 2(2) wt_inv_addChild[OF 2(2)]] by (auto simp: put_child_def)
next
  case (3 c d ds t)
  then obtain t1 where t1: "wt_insert (d # ds) (addChild c False t) = Some t1" "t' = put_child c t1 t"
    by auto
  then have "wt_inv t1" "\<not> prunable t1"
    using "3.IH"[OF t1(1) wt_inv_addChild[OF "3.prems"(2)]] by (auto simp: prunable_def)
  then show ?case using wt_inv_put[OF "3.prems"(2)] t1(2) by (auto simp: put_child_def)
qed simp

section \<open>Removal\<close>

lemma remove_path_missing: "remove_path s t = None \<Longrightarrow> \<not> contains s t"
  by (induction s t rule: remove_path.induct) (auto split: option.splits)

lemma contains_prunable: "prunable t \<Longrightarrow> \<not> contains s t"
  by (cases s) (auto simp: prunable_def getChild_def)

lemma remove_path_spec:
  "remove_path s t = Some t' \<Longrightarrow> (contains x t' \<longleftrightarrow> contains x t \<and> x \<noteq> s)"
proof (induction s t arbitrary: t' x rule: remove_path.induct)
  case (1 t)
  then show ?case by (cases x) (auto simp: getChild_def)
next
  case (2 c cs t)
  from "2.prems" obtain child child' where ch: "getChild c t = Some child"
    and rp: "remove_path cs child = Some child'"
    and t': "t' = (if prunable child' then erase_child c t else put_child c child' t)"
    by (auto split: option.splits)
  have IH: "contains y child' \<longleftrightarrow> contains y child \<and> y \<noteq> cs" for y
    using "2.IH"[OF ch rp] .
  show ?case
  proof (cases "prunable child'")
    case True
    then have "contains y child \<longrightarrow> y = cs" for y using IH[of y] contains_prunable by blast
    then show ?thesis using True ch t' by (cases x) auto
  next
    case False
    then show ?thesis using IH ch t' by (cases x) auto
  qed
qed

lemma remove_path_inv: "remove_path s t = Some t' \<Longrightarrow> wt_inv t \<Longrightarrow> wt_inv t'"
proof (induction s t arbitrary: t' rule: remove_path.induct)
  case (1 t)
  then show ?case by (cases t) auto
next
  case (2 c cs t)
  from "2.prems"(1) obtain child child' where ch: "getChild c t = Some child"
    and rp: "remove_path cs child = Some child'"
    and t': "t' = (if prunable child' then erase_child c t else put_child c child' t)"
    by (auto split: option.splits)
  have "wt_inv child'" using "2.IH"[OF ch rp] wt_inv_child[OF "2.prems"(2) ch] by blast
  then show ?case using "2.prems"(2) by (auto simp: t' intro: inv_intros)
qed

lemma wt_remove_inv [inv_intros]: "wt_inv t \<Longrightarrow> wt_inv (wt_remove s t)"
  by (auto simp: wt_remove_def split: option.splits intro: remove_path_inv)

lemma wt_remove_names: "wt_names (wt_remove s t) = wt_names t - {s}"
  by (auto simp: wt_remove_def wt_names_def remove_path_spec split: option.splits dest: remove_path_missing)

section \<open>The search\<close>

lemma contains_walk: "contains (q @ r) t \<longleftrightarrow> (case walk q t of None \<Rightarrow> False | Some u \<Rightarrow> contains r u)"
  by (induction q arbitrary: t) (auto split: option.splits)

lemma wt_inv_walk: "walk q t = Some u \<Longrightarrow> wt_inv t \<Longrightarrow> wt_inv u \<and> (q \<noteq> [] \<longrightarrow> \<not> prunable u)"
proof (induction q arbitrary: t)
  case (Cons c q)
  then obtain child where ch: "getChild c t = Some child" "walk q child = Some u"
    by (auto split: option.splits)
  have ok: "wt_inv child" "\<not> prunable child" using wt_inv_child[OF Cons.prems(2) ch(1)] by auto
  then show ?case using Cons.IH[OF ch(2)] ch(2) by (cases q) auto
qed simp

text \<open>A live tree holds a name.\<close>

lemma live_contains: "wt_inv t \<Longrightarrow> \<not> prunable t \<Longrightarrow> \<exists>s. contains s t"
proof (induction t)
  case (WNode b cs)
  show ?case
  proof (cases cs)
    case Nil
    then show ?thesis using WNode.prems by (intro exI[of _ "[]"]) (simp add: prunable_def)
  next
    case (Cons e es)
    obtain c u where e: "e = (c, u)" by (cases e)
    have "wt_inv u" "\<not> prunable u" using WNode.prems(1) by (simp_all add: Cons e)
    then obtain s where "contains s u" using WNode.IH[of e u] by (auto simp: Cons e)
    then show ?thesis by (intro exI[of _ "c # s"]) (simp add: Cons e)
  qed
qed

lemma find_down_unique:
  assumes "find_down t q = (RETURNVALUE_NOERROR, r)" "wt_inv t" "\<not> prunable t"
  shows "\<exists>s. r = q @ s \<and> {x. contains x t} = {s}"
  using assms
proof (induction t q rule: find_down.induct)
  case (1 b res)
  have "contains x (WNode b []) \<longleftrightarrow> x = []" for x
    using "1.prems"(3) by (cases x) (auto simp: prunable_def)
  then show ?case using "1.prems"(1) by auto
next
  case (2 b c u res)
  have b: "\<not> b" and f: "find_down u (res @ [c]) = (RETURNVALUE_NOERROR, r)"
    using "2.prems"(1) by (auto split: if_splits)
  obtain s where s: "r = (res @ [c]) @ s" "{x. contains x u} = {s}"
    using "2.IH"[OF b f] "2.prems"(2) by auto
  have "contains x (WNode b [(c, u)]) \<longleftrightarrow> x = c # s" for x
    using b s(2) by (cases x) auto
  then show ?case using s(1) by auto
next
  case (3 b e1 e2 es res)
  then show ?case by simp
qed

lemma find_down_ambiguous:
  assumes "find_down t q = (v, r)" "v \<noteq> RETURNVALUE_NOERROR" "wt_inv t"
  shows "v = RETURNVALUE_NAMEISTOOAMBIGUOUS \<and> (\<exists>x y. x \<noteq> y \<and> contains x t \<and> contains y t)"
  using assms
proof (induction t q rule: find_down.induct)
  case (2 b c u res)
  have u: "wt_inv u" "\<not> prunable u" using "2.prems"(3) by auto
  show ?case
  proof (cases b)
    case True
    obtain s where "contains s u" using live_contains[OF u] by blast
    then have "contains (c # s) (WNode b [(c, u)])" by simp
    moreover have "contains [] (WNode b [(c, u)])" using True by simp
    moreover have "v = RETURNVALUE_NAMEISTOOAMBIGUOUS" using True "2.prems"(1) by simp
    ultimately show ?thesis by (intro conjI exI[of _ "[]"] exI[of _ "c # s"]) auto
  next
    case False
    then obtain x y where "v = RETURNVALUE_NAMEISTOOAMBIGUOUS" "x \<noteq> y" "contains x u" "contains y u"
      using "2.IH" "2.prems" u by auto
    then show ?thesis by (intro conjI exI[of _ "c # x"] exI[of _ "c # y"]) auto
  qed
next
  case (3 b e1 e2 es res)
  obtain c1 u1 c2 u2 where e: "e1 = (c1, u1)" "e2 = (c2, u2)" by (cases e1; cases e2)
  have "c1 \<noteq> c2" "wt_inv u1" "\<not> prunable u1" "wt_inv u2" "\<not> prunable u2"
    using "3.prems"(3) by (auto simp: e)
  then obtain s1 s2 where "contains s1 u1" "contains s2 u2" using live_contains by blast
  then show ?case using "3.prems"(1) \<open>c1 \<noteq> c2\<close>
    by (intro conjI exI[of _ "c1 # s1"] exI[of _ "c2 # s2"]) (auto simp: e)
qed simp

text \<open>What a query abbreviates, stated over a set of names: the specification of \<^const>\<open>findOne\<close>.\<close>

definition matches :: "string \<Rightarrow> string set \<Rightarrow> string set" where
  "matches q N = {s \<in> N. prefix q s}"

lemma matches_walk:
  "matches q (wt_names t) = (case walk q t of None \<Rightarrow> {} | Some u \<Rightarrow> (\<lambda>s. q @ s) ` {s. contains s u})"
  unfolding matches_def wt_names_def
  by (auto simp: prefix_def contains_walk split: option.splits)

lemma findOne_unique:
  assumes "wt_inv t" "q \<noteq> [] \<or> \<not> prunable t" "findOne q r0 t = (RETURNVALUE_NOERROR, r)"
  shows "matches q (wt_names t) = {r}"
proof -
  obtain u where u: "walk q t = Some u" and f: "find_down u q = (RETURNVALUE_NOERROR, r)"
    using assms(3) by (auto simp: findOne_def split: option.splits)
  have "wt_inv u" using wt_inv_walk[OF u assms(1)] by blast
  moreover have "\<not> prunable u" using wt_inv_walk[OF u assms(1)] assms(2) u by (cases q) auto
  ultimately obtain s where "r = q @ s" "{x. contains x u} = {s}" using find_down_unique[OF f] by blast
  then show ?thesis by (simp add: matches_walk u)
qed

lemma findOne_ambiguous:
  assumes "wt_inv t" "findOne q r0 t = (RETURNVALUE_NAMEISTOOAMBIGUOUS, r)"
  shows "\<exists>x y. x \<noteq> y \<and> {x, y} \<subseteq> matches q (wt_names t)"
proof -
  obtain u where u: "walk q t = Some u" and f: "find_down u q = (RETURNVALUE_NAMEISTOOAMBIGUOUS, r)"
    using assms(2) by (auto simp: findOne_def split: option.splits)
  have "wt_inv u" using wt_inv_walk[OF u assms(1)] by blast
  then obtain x y where "x \<noteq> y" "contains x u" "contains y u" using find_down_ambiguous[OF f] by auto
  then show ?thesis by (intro exI[of _ "q @ x"] exI[of _ "q @ y"]) (auto simp: matches_walk u)
qed

lemma findOne_result:
  assumes "wt_inv t"
  shows "fst (findOne q r0 t) \<in>
    {RETURNVALUE_NOERROR, RETURNVALUE_NAMEISTOOAMBIGUOUS, RETURNVALUE_PLAYERWITHTHISNAMEISNOTONLINE}"
proof (cases "walk q t")
  case (Some u)
  obtain v r where f: "find_down u q = (v, r)" by (cases "find_down u q")
  have "wt_inv u" using wt_inv_walk[OF Some assms] by blast
  then have "v = RETURNVALUE_NOERROR \<or> v = RETURNVALUE_NAMEISTOOAMBIGUOUS"
    using find_down_ambiguous[OF f] by blast
  then show ?thesis by (auto simp: findOne_def Some f)
qed (simp add: findOne_def)

lemma findOne_missing:
  assumes "wt_inv t" "findOne q r0 t = (RETURNVALUE_PLAYERWITHTHISNAMEISNOTONLINE, r)"
  shows "matches q (wt_names t) = {}"
proof (cases "walk q t")
  case (Some u)
  have "wt_inv u" using wt_inv_walk[OF Some assms(1)] by blast
  then show ?thesis
    using assms(2) find_down_ambiguous[of u q "RETURNVALUE_PLAYERWITHTHISNAMEISNOTONLINE" r]
    by (simp add: findOne_def Some)
qed (simp add: matches_walk)

section \<open>The contract of a name index\<close>

text \<open>What the server relies on: an index of names that follows a set under insertion and removal,
  and a lookup that resolves an abbreviation. \<open>tracks\<close> is the relation the player registry keeps
  between the index and its own map from names.\<close>

locale name_index =
  fixes inv :: "'t \<Rightarrow> bool"
    and names :: "'t \<Rightarrow> string set"
    and emp :: 't
    and ins :: "string \<Rightarrow> 't \<Rightarrow> 't option"
    and del :: "string \<Rightarrow> 't \<Rightarrow> 't"
    and find1 :: "string \<Rightarrow> string \<Rightarrow> 't \<Rightarrow> ReturnValue \<times> string"
  assumes inv_emp: "inv emp"
    and names_emp: "names emp = {}"
    and ins_ok: "inv t \<Longrightarrow> s \<noteq> [] \<Longrightarrow> \<exists>t'. ins s t = Some t' \<and> inv t' \<and> names t' = insert s (names t)"
    and inv_del: "inv t \<Longrightarrow> inv (del s t)"
    and names_del: "inv t \<Longrightarrow> names (del s t) = names t - {s}"
    and find1_one: "inv t \<Longrightarrow> q \<noteq> [] \<or> names t \<noteq> {} \<Longrightarrow> find1 q r0 t = (RETURNVALUE_NOERROR, r) \<Longrightarrow> matches q (names t) = {r}"
    and find1_many: "inv t \<Longrightarrow> find1 q r0 t = (RETURNVALUE_NAMEISTOOAMBIGUOUS, r) \<Longrightarrow>
      \<exists>x y. x \<noteq> y \<and> {x, y} \<subseteq> matches q (names t)"
    and find1_none: "inv t \<Longrightarrow> find1 q r0 t = (RETURNVALUE_PLAYERWITHTHISNAMEISNOTONLINE, r) \<Longrightarrow> matches q (names t) = {}"
    and find1_total: "inv t \<Longrightarrow> fst (find1 q r0 t) \<in>
      {RETURNVALUE_NOERROR, RETURNVALUE_NAMEISTOOAMBIGUOUS, RETURNVALUE_PLAYERWITHTHISNAMEISNOTONLINE}"
begin

definition tracks :: "'t \<Rightarrow> (string \<rightharpoonup> 'v) \<Rightarrow> bool" where
  "tracks t m \<longleftrightarrow> inv t \<and> names t = dom m"

lemma tracks_emp: "tracks emp Map.empty"
  by (simp add: tracks_def inv_emp names_emp)

lemma tracks_ins:
  assumes "tracks t m" "s \<noteq> []"
  shows "\<exists>t'. ins s t = Some t' \<and> tracks t' (m(s \<mapsto> v))"
  using ins_ok[of t s] assms by (auto simp: tracks_def)

lemma tracks_del: "tracks t m \<Longrightarrow> tracks (del s t) (m(s := None))"
  using inv_del[of t s] names_del[of t s] by (auto simp: tracks_def)

text \<open>The three outcomes are decided by the set of names alone.\<close>

lemma find1_cases:
  assumes "inv t" "q \<noteq> [] \<or> names t \<noteq> {}"
  obtains (one) r where "find1 q r0 t = (RETURNVALUE_NOERROR, r)" "matches q (names t) = {r}"
  | (many) r x y where "find1 q r0 t = (RETURNVALUE_NAMEISTOOAMBIGUOUS, r)" "x \<noteq> y" "{x, y} \<subseteq> matches q (names t)"
  | (none) r where "find1 q r0 t = (RETURNVALUE_PLAYERWITHTHISNAMEISNOTONLINE, r)" "matches q (names t) = {}"
proof -
  obtain v r where f: "find1 q r0 t = (v, r)" by (cases "find1 q r0 t")
  consider "v = RETURNVALUE_NOERROR" | "v = RETURNVALUE_NAMEISTOOAMBIGUOUS" | "v = RETURNVALUE_PLAYERWITHTHISNAMEISNOTONLINE"
    using find1_total[OF assms(1), of q r0] f by auto
  then show thesis
  proof cases
    case 1
    then show ?thesis using one[of r] find1_one[OF assms, of r0 r] f by simp
  next
    case 2
    then show ?thesis using many[of r] find1_many[OF assms(1), of q r0 r] f by blast
  next
    case 3
    then show ?thesis using none[of r] find1_none[OF assms(1), of q r0 r] f by simp
  qed
qed

end

lemma wt_names_leaf: "wt_names (WNode False []) = {}"
proof -
  have "\<not> contains s (WNode False [])" for s by (cases s) auto
  then show ?thesis by (simp add: wt_names_def)
qed

lemma wt_names_live: "wt_names t \<noteq> {} \<Longrightarrow> \<not> prunable t"
  using wt_names_leaf by (cases t) (auto simp: prunable_def)

lemma wt_insert_index:
  assumes "wt_inv t" "s \<noteq> []"
  shows "\<exists>t'. wt_insert s t = Some t' \<and> wt_inv t' \<and> wt_names t' = insert s (wt_names t)"
  using wt_insert_spec[of s t] wt_insert_inv[of s t] assms by (auto simp: wt_names_def)

interpretation player_names: name_index wt_inv wt_names "WNode False []" wt_insert wt_remove findOne
proof
  show "wt_inv (WNode False [])" by simp
  show "wt_names (WNode False []) = {}" by (rule wt_names_leaf)
next
  fix t :: wtree and q r0 r :: string
  assume "wt_inv t" "q \<noteq> [] \<or> wt_names t \<noteq> {}" "findOne q r0 t = (RETURNVALUE_NOERROR, r)"
  then show "matches q (wt_names t) = {r}" using findOne_unique wt_names_live by blast
qed (rule wt_insert_index wt_remove_inv wt_remove_names findOne_ambiguous findOne_missing findOne_result; assumption)+

section \<open>Properties\<close>

lemma findOne_cases:
  assumes "wt_inv t" "q \<noteq> [] \<or> wt_names t \<noteq> {}"
  shows "(findOne q r0 t = (RETURNVALUE_NOERROR, r) \<longleftrightarrow> matches q (wt_names t) = {r}) \<and>
    (fst (findOne q r0 t) = RETURNVALUE_NAMEISTOOAMBIGUOUS \<longleftrightarrow>
       (\<exists>x y. x \<noteq> y \<and> {x, y} \<subseteq> matches q (wt_names t))) \<and>
    (fst (findOne q r0 t) = RETURNVALUE_PLAYERWITHTHISNAMEISNOTONLINE \<longleftrightarrow> matches q (wt_names t) = {})"
proof (cases rule: player_names.find1_cases[OF assms, of r0])
  case one: (1 r1)
  show ?thesis by (auto simp: one)
next
  case many: (2 r1 x y)
  have "matches q (wt_names t) \<noteq> {z}" for z using many(2,3) by fastforce
  moreover have "matches q (wt_names t) \<noteq> {}" using many(3) by blast
  moreover have "\<exists>x y. x \<noteq> y \<and> {x, y} \<subseteq> matches q (wt_names t)" using many(2,3) by blast
  ultimately show ?thesis by (simp add: many(1))
next
  case none: (3 r1)
  show ?thesis by (simp add: none)
qed

text \<open>C28: A wildcard search answers with a name exactly when that name is the only one in the tree
  that starts with the query, it reports an ambiguity exactly when several names do, and that nobody
  is online exactly when none does.\<close>

theorem findOne_resolves:
  assumes "wt_inv t" "q \<noteq> [] \<or> wt_names t \<noteq> {}"
  shows "(findOne q r0 t = (RETURNVALUE_NOERROR, r) \<longleftrightarrow> {s \<in> wt_names t. prefix q s} = {r}) \<and>
    (fst (findOne q r0 t) = RETURNVALUE_NAMEISTOOAMBIGUOUS \<longleftrightarrow>
       (\<exists>x y. x \<noteq> y \<and> {x, y} \<subseteq> {s \<in> wt_names t. prefix q s})) \<and>
    (fst (findOne q r0 t) = RETURNVALUE_PLAYERWITHTHISNAMEISNOTONLINE \<longleftrightarrow> {s \<in> wt_names t. prefix q s} = {})"
  unfolding matches_def[symmetric] by (rule findOne_cases[OF assms])

theorem findOne_resolves_witness:
  "findOne ''al'' '''' (the (wt_insert ''bob'' (the (wt_insert ''alice'' (WNode False []))))) = (RETURNVALUE_NOERROR, ''alice'')
   \<and> {s \<in> wt_names (the (wt_insert ''bob'' (the (wt_insert ''alice'' (WNode False []))))). prefix ''al'' s} = {''alice''}"
proof -
  let ?t = "the (wt_insert ''bob'' (the (wt_insert ''alice'' (WNode False []))))"
  have inv: "wt_inv ?t" by code_simp
  have f: "findOne ''al'' '''' ?t = (RETURNVALUE_NOERROR, ''alice'')"
    by (simp add: put_child_def addChild_def findOne_def)
  show ?thesis using findOne_resolves[OF inv, of "''al''" "''''" "''alice''"] f by simp
qed

text \<open>C35: Inserting a nonempty name always succeeds, keeps the tree pruned and adds exactly that name. Removing any string, whether
  the tree has it as a name or not, keeps the tree pruned and takes away exactly that name, so that inserting a new name and
  removing it again leaves the set of names it found.\<close>

theorem wildcard_tree_refines_set:
  assumes "wt_inv t" "s \<noteq> []"
  shows "\<exists>t'. wt_insert s t = Some t' \<and> wt_inv t' \<and> wt_names t' = insert s (wt_names t) \<and>
    wt_inv (wt_remove s t') \<and> wt_names (wt_remove s t') = wt_names t - {s} \<and>
    (\<forall>u. wt_inv (wt_remove u t) \<and> wt_names (wt_remove u t) = wt_names t - {u})"
  using wt_insert_index[OF assms] assms(1) by (auto simp: wt_remove_names intro: wt_remove_inv)

theorem wildcard_tree_refines_set_witness:
  "wt_inv (WNode False []) \<and> (\<exists>t'. wt_insert ''bob'' (WNode False []) = Some t' \<and> wt_names t' = {''bob''}
     \<and> wt_names (wt_remove ''bob'' t') = {})"
  using wildcard_tree_refines_set[of "WNode False []" "''bob''"] by (auto simp: wt_names_leaf)

end
