(* ===== verification/Text_Tools.thy ===== *)
theory Text_Tools
  imports Server_Prelude "HOL-Library.Sublist"
begin

text \<open>
  The string helpers of \<open>src/src/tools.cpp\<close>: replacement, trimming, case mapping, splitting, the one-time
  password token and the dotted IP address. \<open>std::string::find\<close> is \<open>str_find\<close>, \<open>npos\<close> is \<open>None\<close>.
  The loops of \<open>replaceString\<close> and \<open>explodeString\<close> do not end on an empty search string, so they are
  partial functions into \<open>option\<close>: \<open>None\<close> is a run that never returns.
\<close>

section \<open>Searching\<close>

fun find_sub :: "string \<Rightarrow> string \<Rightarrow> nat option" where
  "find_sub p [] = (if p = [] then Some 0 else None)"
| "find_sub p (c # cs) = (if prefix p (c # cs) then Some 0 else map_option Suc (find_sub p cs))"

definition str_find :: "string \<Rightarrow> string \<Rightarrow> nat \<Rightarrow> nat option" where
  "str_find s sought start =
     (if start \<le> length s then map_option (\<lambda>i. start + i) (find_sub sought (drop start s)) else None)"

fun find_first_not_of :: "char \<Rightarrow> string \<Rightarrow> nat option" where
  "find_first_not_of t [] = None"
| "find_first_not_of t (c # cs) = (if c \<noteq> t then Some 0 else map_option Suc (find_first_not_of t cs))"

definition find_last_not_of :: "char \<Rightarrow> string \<Rightarrow> nat option" where
  "find_last_not_of t s = map_option (\<lambda>i. length s - 1 - i) (find_first_not_of t (rev s))"

lemma find_sub_Some:
  "find_sub p s = Some i \<Longrightarrow> i + length p \<le> length s \<and> take (length p) (drop i s) = p"
proof (induction s arbitrary: i)
  case (Cons c cs)
  then show ?case by (auto simp: prefix_def split: if_splits dest: arg_cong[where f = length])
qed (simp split: if_splits)

lemma find_sub_None_iff: "find_sub p s = None \<longleftrightarrow> (\<forall>u v. s \<noteq> u @ p @ v)"
proof (induction s)
  case (Cons c cs)
  show ?case
  proof
    assume none: "find_sub p (c # cs) = None"
    show "\<forall>u v. c # cs \<noteq> u @ p @ v"
    proof (intro allI notI)
      fix u v assume "c # cs = u @ p @ v"
      moreover have "\<not> prefix p (c # cs)" "find_sub p cs = None" using none by (auto split: if_splits)
      ultimately show False using Cons by (cases u) (auto simp del: find_sub.simps)
    qed
  next
    assume no: "\<forall>u v. c # cs \<noteq> u @ p @ v"
    have "\<not> prefix p (c # cs)" using no by (metis append_Nil prefix_def)
    moreover have "find_sub p cs = None" unfolding Cons
    proof (intro allI notI)
      fix u v assume "cs = u @ p @ v"
      then show False using no by (metis append_Cons)
    qed
    ultimately show "find_sub p (c # cs) = None" by simp
  qed
qed auto

lemma find_sub_before:
  assumes "find_sub p s = Some i" "p \<noteq> []"
  shows "find_sub p (take i s) = None"
  using assms
proof (induction s arbitrary: i)
  case (Cons c cs)
  show ?case
  proof (cases "prefix p (c # cs)")
    case True
    then show ?thesis using Cons.prems by simp
  next
    case False
    then obtain j where j: "i = Suc j" "find_sub p cs = Some j" using Cons.prems by auto
    have "\<not> prefix p (c # take j cs)"
      using False by (metis append_take_drop_id prefix_append append_Cons)
    then show ?thesis using Cons.IH[OF j(2) Cons.prems(2)] j(1) by simp
  qed
qed simp

lemma find_sub_empty [simp]: "find_sub [] s = Some 0"
  by (cases s) auto

section \<open>Replacing and splitting\<close>

partial_function (option) replace_loop :: "string \<Rightarrow> string \<Rightarrow> string \<Rightarrow> nat \<Rightarrow> string option" where
  "replace_loop sought replacement str start =
     (case str_find str sought start of
        None \<Rightarrow> Some str
      | Some pos \<Rightarrow>
          replace_loop sought replacement
            (take pos str @ replacement @ drop (pos + length sought) str) (pos + length replacement))"

definition replaceString :: "string \<Rightarrow> string \<Rightarrow> string \<Rightarrow> string option" where
  "replaceString str sought replacement = replace_loop sought replacement str 0"

partial_function (option) explode_loop :: "string \<Rightarrow> string \<Rightarrow> int \<Rightarrow> nat \<Rightarrow> string list \<Rightarrow> string list option" where
  "explode_loop inString separator limit start returnVector =
     (let limit = limit - 1 in
      if limit \<noteq> - 1 then
        (case str_find inString separator start of
           Some end \<Rightarrow>
             explode_loop inString separator limit (end + length separator)
               (returnVector @ [take (end - start) (drop start inString)])
         | None \<Rightarrow> Some (returnVector @ [drop start inString]))
      else Some (returnVector @ [drop start inString]))"

definition explodeString :: "string \<Rightarrow> string \<Rightarrow> int \<Rightarrow> string list option" where
  "explodeString inString separator limit = explode_loop inString separator limit 0 []"

text \<open>The specifications: one left-to-right pass that replaces, and the concatenation that a split
  inverts.\<close>

function replace_all :: "string \<Rightarrow> string \<Rightarrow> string \<Rightarrow> string" where
  "replace_all p r s =
     (if p = [] then s else
      case find_sub p s of
        None \<Rightarrow> s
      | Some i \<Rightarrow> take i s @ r @ replace_all p r (drop (i + length p) s))"
  by pat_completeness auto
termination
  by (relation "measure (\<lambda>(p, r, s). length s)") (auto dest!: find_sub_Some simp: diff_less_mono2 neq_Nil_conv)

declare replace_all.simps [simp del]

fun join_with :: "string \<Rightarrow> string list \<Rightarrow> string" where
  "join_with sep [] = []"
| "join_with sep [x] = x"
| "join_with sep (x # y # ys) = x @ sep @ join_with sep (y # ys)"

lemma join_with_Cons: "ys \<noteq> [] \<Longrightarrow> join_with sep (x # ys) = x @ sep @ join_with sep ys"
  by (cases ys) auto

lemma replace_loop_all:
  assumes "sought \<noteq> []" "start \<le> length str"
  shows "replace_loop sought replacement str start =
    Some (take start str @ replace_all sought replacement (drop start str))"
  using assms(2)
proof (induction "length str - start" arbitrary: str start rule: less_induct)
  case less
  show ?case
  proof (cases "find_sub sought (drop start str)")
    case None
    then show ?thesis using assms(1)
      by (subst replace_loop.simps) (simp add: str_find_def less.prems replace_all.simps)
  next
    case (Some i)
    have len: "i + length sought \<le> length str - start"
      using find_sub_Some[OF Some] less.prems by simp
    have pos: "length sought > 0" using assms(1) by simp
    let ?pos = "start + i"
    let ?str = "take ?pos str @ replacement @ drop (?pos + length sought) str"
    have cut: "take (?pos + length replacement) ?str = take ?pos str @ replacement"
      "drop (?pos + length replacement) ?str = drop (?pos + length sought) str"
      using len less.prems by (simp_all add: min_def)
    have "replace_loop sought replacement str start =
        replace_loop sought replacement ?str (?pos + length replacement)"
      using Some less.prems by (subst replace_loop.simps) (simp add: str_find_def)
    also have "\<dots> = Some (take (?pos + length replacement) ?str @
        replace_all sought replacement (drop (?pos + length replacement) ?str))"
      by (rule less.hyps) (use len pos less.prems in \<open>simp_all, linarith\<close>)
    also have "\<dots> = Some (take start str @ replace_all sought replacement (drop start str))"
      unfolding cut using assms(1) Some len
      by (subst (2) replace_all.simps) (simp add: take_add, simp add: ac_simps)
    finally show ?thesis .
  qed
qed

lemma replace_loop_empty:
  assumes "replace_loop sought replacement str start = Some res"
  shows "start \<le> length str \<longrightarrow> sought \<noteq> []"
  using assms
proof (induction rule: replace_loop.raw_induct[rotated, consumes 1, case_names step])
  case (step loop sought replacement str start res)
  show ?case
  proof (intro impI notI)
    assume le: "start \<le> length str" and e: "sought = []"
    then have "loop [] replacement (take start str @ replacement @ drop start str) (start + length replacement) = Some res"
      using step.hyps by (simp add: str_find_def)
    from step.IH[OF this] show False using le by simp
  qed
qed

lemma explode_loop_parts:
  assumes "separator \<noteq> []" "start \<le> length s"
  shows "\<exists>parts. explode_loop s separator limit start acc = Some (acc @ parts) \<and> parts \<noteq> [] \<and>
     join_with separator parts = drop start s \<and>
     (\<forall>p \<in> set (butlast parts). find_sub separator p = None) \<and>
     (limit < 0 \<longrightarrow> find_sub separator (last parts) = None) \<and>
     (0 \<le> limit \<longrightarrow> length parts \<le> Suc (nat limit))"
  using assms(2)
proof (induction "length s - start" arbitrary: start acc limit rule: less_induct)
  case less
  show ?case
  proof (cases "limit = 0")
    case True
    then show ?thesis
      by (intro exI[of _ "[drop start s]"]) (subst explode_loop.simps, simp)
  next
    case nz: False
    show ?thesis
    proof (cases "find_sub separator (drop start s)")
      case None
      then show ?thesis using nz less.prems
        by (intro exI[of _ "[drop start s]"]) (subst explode_loop.simps, simp add: str_find_def Let_def)
    next
      case (Some i)
      have len: "i + length separator \<le> length s - start" and at: "take (length separator) (drop i (drop start s)) = separator"
        using find_sub_Some[OF Some] less.prems by simp_all
      have pos: "length separator > 0" using assms(1) by simp
      let ?next = "start + i + length separator"
      let ?piece = "take i (drop start s)"
      have smaller: "length s - ?next < length s - start" "?next \<le> length s" using len pos less.prems by linarith+
      obtain parts where parts:
        "explode_loop s separator (limit - 1) ?next (acc @ [?piece]) = Some ((acc @ [?piece]) @ parts)" "parts \<noteq> []"
        "join_with separator parts = drop ?next s"
        "\<forall>p \<in> set (butlast parts). find_sub separator p = None"
        "limit - 1 < 0 \<longrightarrow> find_sub separator (last parts) = None"
        "0 \<le> limit - 1 \<longrightarrow> length parts \<le> Suc (nat (limit - 1))"
        using less.hyps[OF smaller, of "limit - 1" "acc @ [?piece]"] by blast
      have "explode_loop s separator limit start acc = Some (acc @ ?piece # parts)"
        using parts(1) Some nz less.prems by (subst explode_loop.simps) (simp add: str_find_def Let_def)
      moreover have "join_with separator (?piece # parts) = drop start s"
      proof -
        have "drop start s = ?piece @ take (length separator) (drop i (drop start s)) @ drop (i + length separator) (drop start s)"
          by (metis append_take_drop_id drop_drop add.commute)
        then show ?thesis using parts(2,3) at by (simp add: join_with_Cons add.commute add.left_commute)
      qed
      moreover have "find_sub separator ?piece = None" by (rule find_sub_before[OF Some assms(1)])
      ultimately show ?thesis using parts(2,4-6) nz
        by (intro exI[of _ "?piece # parts"]) (auto simp: nat_diff_distrib)
    qed
  qed
qed

section \<open>Trimming and case\<close>

definition trim_right :: "string \<Rightarrow> char \<Rightarrow> string" where
  "trim_right source t = (case find_last_not_of t source of None \<Rightarrow> [] | Some i \<Rightarrow> take (i + 1) source)"

definition trim_left :: "string \<Rightarrow> char \<Rightarrow> string" where
  "trim_left source t = (case find_first_not_of t source of None \<Rightarrow> [] | Some i \<Rightarrow> drop i source)"

definition trimString :: "string \<Rightarrow> string" where
  "trimString str =
     (let str = (case find_last_not_of CHR '' '' str of None \<Rightarrow> [] | Some i \<Rightarrow> take (i + 1) str)
      in case find_first_not_of CHR '' '' str of None \<Rightarrow> [] | Some i \<Rightarrow> drop i str)"

text \<open>\<open>tolower\<close> and \<open>toupper\<close> of the C locale.\<close>

definition tolower :: "char \<Rightarrow> char" where
  "tolower c = (if 65 \<le> (of_char c :: nat) \<and> (of_char c :: nat) \<le> 90 then char_of ((of_char c :: nat) + 32) else c)"

definition toupper :: "char \<Rightarrow> char" where
  "toupper c = (if 97 \<le> (of_char c :: nat) \<and> (of_char c :: nat) \<le> 122 then char_of ((of_char c :: nat) - 32) else c)"

definition asLowerCaseString :: "string \<Rightarrow> string" where
  "asLowerCaseString source = map tolower source"

definition asUpperCaseString :: "string \<Rightarrow> string" where
  "asUpperCaseString source = map toupper source"

fun ucfirst :: "string \<Rightarrow> string" where
  "ucfirst [] = []"
| "ucfirst (i # str) = (if i \<noteq> CHR '' '' then toupper i # str else i # ucfirst str)"

fun ucwords_loop :: "char \<Rightarrow> string \<Rightarrow> string" where
  "ucwords_loop prev [] = []"
| "ucwords_loop prev (c # cs) = (let c' = (if prev = CHR '' '' then toupper c else c) in c' # ucwords_loop c' cs)"

fun ucwords :: "string \<Rightarrow> string" where
  "ucwords [] = []"
| "ucwords (c # cs) = toupper c # ucwords_loop (toupper c) cs"

definition booleanString :: "string \<Rightarrow> bool" where
  "booleanString str \<longleftrightarrow>
     (case str of [] \<Rightarrow> False
      | c # _ \<Rightarrow> (let ch = tolower c in ch \<noteq> CHR ''f'' \<and> ch \<noteq> CHR ''n'' \<and> ch \<noteq> CHR ''0''))"

definition getFirstLine :: "string \<Rightarrow> string" where
  "getFirstLine str =
     (case str_find str [CHR 0x0A] 0 of Some pos \<Rightarrow> take pos str | None \<Rightarrow> str)"

lemma find_first_not_of_dropWhile:
  "(case find_first_not_of t s of None \<Rightarrow> [] | Some i \<Rightarrow> drop i s) = dropWhile (\<lambda>c. c = t) s"
  by (induction s) (auto split: option.splits)

lemma find_first_not_of_less: "find_first_not_of t s = Some i \<Longrightarrow> i < length s"
  by (induction s arbitrary: i) (auto split: if_splits)

lemma find_last_not_of_dropWhile:
  "(case find_last_not_of t s of None \<Rightarrow> [] | Some i \<Rightarrow> take (i + 1) s) = rev (dropWhile (\<lambda>c. c = t) (rev s))"
proof (cases "find_first_not_of t (rev s)")
  case None
  then show ?thesis using find_first_not_of_dropWhile[where t = t and s = "rev s"] by (simp add: find_last_not_of_def)
next
  case (Some i)
  have "i < length s" using find_first_not_of_less[OF Some] by simp
  then have "take (Suc (length s - Suc i)) s = rev (drop i (rev s))" by (simp add: rev_drop Suc_diff_Suc)
  then show ?thesis using find_first_not_of_dropWhile[where t = t and s = "rev s"] Some by (simp add: find_last_not_of_def)
qed

lemma tolower_idem [simp]: "tolower (tolower c) = tolower c"
  by (auto simp: tolower_def of_char_of)

lemma asLowerCaseString_idem [simp]: "asLowerCaseString (asLowerCaseString s) = asLowerCaseString s"
  by (simp add: asLowerCaseString_def)

lemma asLowerCaseString_Nil [simp]: "asLowerCaseString s = [] \<longleftrightarrow> s = []"
  by (simp add: asLowerCaseString_def)

section \<open>Decimal numbers, addresses and tokens\<close>

text \<open>\<open>std::to_string\<close> and \<open>%u\<close> of an unsigned value.\<close>

definition digit_char :: "nat \<Rightarrow> char" where
  "digit_char d = char_of (48 + d)"

fun to_decimal :: "nat \<Rightarrow> string" where
  "to_decimal n = (if n < 10 then [digit_char n] else to_decimal (n div 10) @ [digit_char (n mod 10)])"

declare to_decimal.simps [simp del]

definition convertIPToString :: "u32 \<Rightarrow> string" where
  "convertIPToString ip =
     to_decimal (unat (ip AND 0xFF)) @ ''.'' @ to_decimal (unat (drop_bit 8 ip AND 0xFF)) @ ''.'' @
     to_decimal (unat (drop_bit 16 ip AND 0xFF)) @ ''.'' @ to_decimal (unat (drop_bit 24 ip))"

text \<open>\<open>generateToken\<close> with the message authentication code as a parameter; \<open>None\<close> is the exception
  \<open>std::out_of_range\<close> of \<open>substr\<close>. Byte 0 of the counter block is never written.\<close>

definition counter_block :: "u64 \<Rightarrow> u8 list" where
  "counter_block counter = 0 # map (\<lambda>i. ucast (drop_bit (8 * (7 - i)) counter)) [1..<8]"

definition truncated_hash :: "u8 list \<Rightarrow> u32" where
  "truncated_hash mac =
     (let offset = unat (last mac) mod 16 in
      (push_bit 24 (ucast (mac ! offset)) OR push_bit 16 (ucast (mac ! (offset + 1))) OR
       push_bit 8 (ucast (mac ! (offset + 2))) OR ucast (mac ! (offset + 3))) AND 0x7fffffff)"

definition generateToken :: "(string \<Rightarrow> u8 list \<Rightarrow> u8 list \<Rightarrow> u8 list) \<Rightarrow> u8 list \<Rightarrow> u64 \<Rightarrow> nat \<Rightarrow> string option" where
  "generateToken hmac key counter length' =
     (let mac = hmac ''SHA1'' key (counter_block counter);
          token = to_decimal (unat (truncated_hash mac))
      in if length' \<le> length token then Some (drop (length token - length') token) else None)"

lemma to_decimal_length: "length (to_decimal n) = (if n < 10 then 1 else Suc (length (to_decimal (n div 10))))"
  by (subst to_decimal.simps) simp

lemma to_decimal_length_iff: "0 < k \<Longrightarrow> length (to_decimal n) \<le> k \<longleftrightarrow> n < 10 ^ k"
proof (induction k arbitrary: n)
  case (Suc k)
  show ?case
  proof (cases "n < 10")
    case True
    have "(10::nat) \<le> 10 ^ Suc k" by simp
    then have "n < 10 ^ Suc k" using True by linarith
    then show ?thesis using True by (simp add: to_decimal_length[of n])
  next
    case False
    have "length (to_decimal m) > 0" for m by (simp add: to_decimal_length[of m])
    then have "k = 0 \<Longrightarrow> \<not> length (to_decimal (n div 10)) \<le> k" by (metis not_le)
    moreover have "k > 0 \<Longrightarrow> length (to_decimal (n div 10)) \<le> k \<longleftrightarrow> n div 10 < 10 ^ k" using Suc.IH by blast
    moreover have "n div 10 < 10 ^ k \<longleftrightarrow> n < 10 ^ Suc k" by (simp add: div_less_iff_less_mult mult.commute)
    ultimately show ?thesis using False by (cases "k = 0") (auto simp: to_decimal_length[of n])
  qed
qed simp

section \<open>Properties\<close>

text \<open>C34: \<open>replaceString\<close> returns for every nonempty search string, with every non-overlapping occurrence
  replaced in one pass from left to right (an inserted replacement is never searched again); for an
  empty search string it never returns.\<close>

theorem replaceString_total:
  "replaceString str sought replacement =
     (if sought = [] then None else Some (replace_all sought replacement str))"
proof (cases "sought = []")
  case True
  then show ?thesis
    using replace_loop_empty[of sought replacement str 0] unfolding replaceString_def by (cases "replace_loop sought replacement str 0") auto
next
  case False
  then show ?thesis using replace_loop_all[of sought 0 str replacement] by (simp add: replaceString_def)
qed

text \<open>C29: With a nonempty separator \<open>explodeString\<close> returns; joining the pieces with the separator gives the
  input back, no piece but the last contains the separator, a negative limit splits everything, and a
  limit \<open>n\<close> of at least zero yields at most \<open>n + 1\<close> pieces.\<close>

theorem explodeString_correct:
  assumes "separator \<noteq> []"
  shows "\<exists>parts. explodeString s separator limit = Some parts \<and> parts \<noteq> [] \<and> join_with separator parts = s \<and>
     (\<forall>p \<in> set (butlast parts). find_sub separator p = None) \<and>
     (limit < 0 \<longrightarrow> find_sub separator (last parts) = None) \<and>
     (0 \<le> limit \<longrightarrow> length parts \<le> Suc (nat limit))"
  using explode_loop_parts[OF assms, of 0 s limit "[]"] by (simp add: explodeString_def)

theorem explodeString_correct_witness:
  "'','' \<noteq> [] \<and> (\<exists>parts. explodeString ''a,b,c'' '','' 1 = Some parts \<and> join_with '','' parts = ''a,b,c'' \<and> length parts \<le> 2)"
  using explodeString_correct[of "'',''" "''a,b,c''" 1] by auto

text \<open>C5: \<open>trimString\<close> removes exactly the spaces at both ends.\<close>

theorem trimString_correct:
  "trimString str = dropWhile (\<lambda>c. c = CHR '' '') (rev (dropWhile (\<lambda>c. c = CHR '' '') (rev str)))"
  by (simp add: trimString_def find_first_not_of_dropWhile find_last_not_of_dropWhile Let_def del: One_nat_def)

text \<open>C35: A one-time password token exists, and then has the requested number of digits, exactly when the
  truncated hash has at least that many decimal digits; for every smaller hash \<open>generateToken\<close> raises
  \<open>out_of_range\<close>, whatever message authentication code it is run with.\<close>

theorem generateToken_short:
  assumes "1 < n"
  shows "(generateToken hmac key counter n = None \<longleftrightarrow>
      unat (truncated_hash (hmac ''SHA1'' key (counter_block counter))) < 10 ^ (n - 1)) \<and>
    (\<forall>token. generateToken hmac key counter n = Some token \<longrightarrow> length token = n)"
proof -
  let ?p = "unat (truncated_hash (hmac ''SHA1'' key (counter_block counter)))"
  have digits: "?p < 10 ^ (n - 1) \<longleftrightarrow> \<not> n \<le> length (to_decimal ?p)"
    using to_decimal_length_iff[of "n - 1" ?p] assms by linarith
  show ?thesis unfolding digits by (simp add: generateToken_def Let_def)
qed

theorem generateToken_short_witness:
  "generateToken (\<lambda>_ _ _. replicate 20 0) [] 0 6 = None"
proof -
  have "truncated_hash (replicate 20 0) = 0" by code_simp
  then show ?thesis using generateToken_short[of 6 "\<lambda>_ _ _. replicate 20 0" "[]" 0] by simp
qed

text \<open>A dotted IP address never fills the 17-byte buffer it is printed into: it has at most 15
  characters, so that no octet is cut off.\<close>

theorem convertIPToString_fits: "length (convertIPToString ip) \<le> 15"
proof -
  have small: "length (to_decimal n) \<le> 3" if "n < 256" for n
    using to_decimal_length_iff[of 3 n] that by simp
  have "unat (w AND 0xFF) < 256" for w :: u32
    using word_and_le1[of w "0xFF"] by (simp add: word_le_nat_alt)
  moreover have "unat (drop_bit 24 ip) < 256"
    using unat_lt2p[of ip] by (simp add: drop_bit_eq_div unat_div less_mult_imp_div_less)
  ultimately have "length (to_decimal (unat (ip AND 0xFF))) \<le> 3" "length (to_decimal (unat (drop_bit 8 ip AND 0xFF))) \<le> 3"
    "length (to_decimal (unat (drop_bit 16 ip AND 0xFF))) \<le> 3" "length (to_decimal (unat (drop_bit 24 ip))) \<le> 3"
    by (blast intro: small)+
  then show ?thesis by (simp add: convertIPToString_def)
qed

end
