(* ===== verification/Game_Registry.thy ===== *)
theory Game_Registry
  imports Wildcard_Tree Text_Tools
begin

text \<open>
  The registries of \<open>Game\<close> (\<open>src/src/game.h\<close>, \<open>game.cpp\<close>): the creatures that are in the world, by id, by name and by
  account data, the identifiers that \<open>setID\<close> of \<open>Player\<close>, \<open>Monster\<close> and \<open>Npc\<close> deal out, the unique items and the
  bed sleepers. A creature is represented by the data its registry reads, which do not change while
  it is registered. The hash map of players is an association list in an arbitrary order, the ordered
  maps of monsters and npcs are in key order.
\<close>

section \<open>State\<close>

record player_entry =
  pl_name :: string
  pl_guid :: u32
  pl_id :: u32
  pl_account :: u32

record creature_entry =
  cr_name :: string
  cr_id :: u32

datatype creature_ref = Player_ref player_entry | Npc_ref creature_entry | Monster_ref creature_entry

record registry =
  players :: "(u32 \<times> player_entry) list"
  mappedPlayerNames :: "string \<rightharpoonup> player_entry"
  mappedPlayerGuids :: "u32 \<rightharpoonup> player_entry"
  wildcardTree :: wtree
  npcs :: "(u32 \<times> creature_entry) list"
  monsters :: "(u32 \<times> creature_entry) list"
  playerAutoID :: u32
  monsterAutoID :: u32
  npcAutoID :: u32

definition initial_registry :: registry where
  "initial_registry =
     \<lparr>players = [], mappedPlayerNames = Map.empty, mappedPlayerGuids = Map.empty,
      wildcardTree = WNode False [], npcs = [], monsters = [],
      playerAutoID = 0x10000000, monsterAutoID = 0x40000000, npcAutoID = 0x80000000\<rparr>"

section \<open>Identifiers\<close>

definition player_setID :: "player_entry \<Rightarrow> registry \<Rightarrow> player_entry \<times> registry" where
  "player_setID p g =
     (if pl_id p = 0 then
        if playerAutoID g = 0xFFFFFFFF then (p, g)
        else (p\<lparr>pl_id := playerAutoID g\<rparr>, g\<lparr>playerAutoID := playerAutoID g + 1\<rparr>)
      else (p, g))"

definition monster_setID :: "creature_entry \<Rightarrow> registry \<Rightarrow> creature_entry \<times> registry" where
  "monster_setID c g =
     (if cr_id c = 0 then (c\<lparr>cr_id := monsterAutoID g\<rparr>, g\<lparr>monsterAutoID := monsterAutoID g + 1\<rparr>) else (c, g))"

definition npc_setID :: "creature_entry \<Rightarrow> registry \<Rightarrow> creature_entry \<times> registry" where
  "npc_setID c g =
     (if cr_id c = 0 then (c\<lparr>cr_id := npcAutoID g\<rparr>, g\<lparr>npcAutoID := npcAutoID g + 1\<rparr>) else (c, g))"

section \<open>Registration\<close>

definition addPlayer :: "player_entry \<Rightarrow> registry \<Rightarrow> registry option" where
  "addPlayer player g =
     (let lowercase_name = asLowerCaseString (pl_name player) in
      map_option (\<lambda>tree.
        g\<lparr>mappedPlayerNames := (mappedPlayerNames g)(lowercase_name \<mapsto> player),
          mappedPlayerGuids := (mappedPlayerGuids g)(pl_guid player \<mapsto> player),
          wildcardTree := tree,
          players := AList.update (pl_id player) player (players g)\<rparr>)
        (wt_insert lowercase_name (wildcardTree g)))"

definition removePlayer :: "player_entry \<Rightarrow> registry \<Rightarrow> registry" where
  "removePlayer player g =
     (let lowercase_name = asLowerCaseString (pl_name player) in
        g\<lparr>mappedPlayerNames := (mappedPlayerNames g)(lowercase_name := None),
          mappedPlayerGuids := (mappedPlayerGuids g)(pl_guid player := None),
          wildcardTree := wt_remove lowercase_name (wildcardTree g),
          players := AList.delete (pl_id player) (players g)\<rparr>)"

definition addNpc :: "creature_entry \<Rightarrow> registry \<Rightarrow> registry" where
  "addNpc npc g = g\<lparr>npcs := omap_put (cr_id npc) npc (npcs g)\<rparr>"

definition removeNpc :: "creature_entry \<Rightarrow> registry \<Rightarrow> registry" where
  "removeNpc npc g = g\<lparr>npcs := omap_del (cr_id npc) (npcs g)\<rparr>"

definition addMonster :: "creature_entry \<Rightarrow> registry \<Rightarrow> registry" where
  "addMonster monster g = g\<lparr>monsters := omap_put (cr_id monster) monster (monsters g)\<rparr>"

definition removeMonster :: "creature_entry \<Rightarrow> registry \<Rightarrow> registry" where
  "removeMonster monster g = g\<lparr>monsters := omap_del (cr_id monster) (monsters g)\<rparr>"

section \<open>Lookup\<close>

definition getMonsterByID :: "u32 \<Rightarrow> registry \<Rightarrow> creature_entry option" where
  "getMonsterByID cid g = (if cid = 0 then None else map_of (monsters g) cid)"

definition getNpcByID :: "u32 \<Rightarrow> registry \<Rightarrow> creature_entry option" where
  "getNpcByID cid g = (if cid = 0 then None else map_of (npcs g) cid)"

definition getPlayerByID :: "u32 \<Rightarrow> registry \<Rightarrow> player_entry option" where
  "getPlayerByID cid g = (if cid = 0 then None else map_of (players g) cid)"

definition getCreatureByID :: "u32 \<Rightarrow> registry \<Rightarrow> creature_ref option" where
  "getCreatureByID cid g =
     (if cid \<le> playerAutoID g then map_option Player_ref (getPlayerByID cid g)
      else if cid \<le> monsterAutoID g then map_option Monster_ref (getMonsterByID cid g)
      else if cid \<le> npcAutoID g then map_option Npc_ref (getNpcByID cid g)
      else None)"

definition getCreatureByName :: "string \<Rightarrow> registry \<Rightarrow> creature_ref option" where
  "getCreatureByName s g =
     (if s = [] then None else
      let lowerCaseName = asLowerCaseString s in
      case mappedPlayerNames g lowerCaseName of
        Some p \<Rightarrow> Some (Player_ref p)
      | None \<Rightarrow>
          (case List.find (\<lambda>c. lowerCaseName = asLowerCaseString (cr_name c)) (map snd (npcs g)) of
             Some npc \<Rightarrow> Some (Npc_ref npc)
           | None \<Rightarrow>
               map_option Monster_ref
                 (List.find (\<lambda>c. lowerCaseName = asLowerCaseString (cr_name c)) (map snd (monsters g)))))"

text \<open>\<open>strcasecmp\<close> compares up to the first NUL of either string, without regard to case.\<close>

definition c_str :: "string \<Rightarrow> string" where
  "c_str s = takeWhile (\<lambda>c. c \<noteq> CHR 0x00) s"

definition getNpcByName :: "string \<Rightarrow> registry \<Rightarrow> creature_entry option" where
  "getNpcByName s g =
     (if s = [] then None
      else List.find (\<lambda>npc. asLowerCaseString (c_str s) = asLowerCaseString (c_str (cr_name npc))) (map snd (npcs g)))"

definition getPlayerByName :: "string \<Rightarrow> registry \<Rightarrow> player_entry option" where
  "getPlayerByName s g = (if s = [] then None else mappedPlayerNames g (asLowerCaseString s))"

definition getPlayerByGUID :: "u32 \<Rightarrow> registry \<Rightarrow> player_entry option" where
  "getPlayerByGUID guid g = (if guid = 0 then None else mappedPlayerGuids g guid)"

text \<open>The second component is the pointer left in the out-parameter \<open>player\<close>.\<close>

definition getPlayerByNameWildcard ::
    "string \<Rightarrow> player_entry option \<Rightarrow> registry \<Rightarrow> ReturnValue \<times> player_entry option" where
  "getPlayerByNameWildcard s player g =
     (let found = (\<lambda>player. if player = None then (RETURNVALUE_PLAYERWITHTHISNAMEISNOTONLINE, player)
                            else (RETURNVALUE_NOERROR, player)) in
      if length s = 0 \<or> length s > 20 then (RETURNVALUE_PLAYERWITHTHISNAMEISNOTONLINE, player)
      else if last s = CHR ''~'' then
        (case findOne (asLowerCaseString (take (length s - 1) s)) [] (wildcardTree g) of
           (ret, result) \<Rightarrow>
             if ret \<noteq> RETURNVALUE_NOERROR then (ret, player) else found (getPlayerByName result g))
      else found (getPlayerByName s g))"

definition getPlayerByAccount :: "u32 \<Rightarrow> registry \<Rightarrow> player_entry option" where
  "getPlayerByAccount acc g = List.find (\<lambda>p. pl_account p = acc) (map snd (players g))"

section \<open>Unique items and bed sleepers\<close>

text \<open>Two maps from identifiers to objects, an object being its address. \<open>emplace\<close> keeps an entry that is
  there and reports it.\<close>

record object_registry =
  uniqueItems :: "u16 \<rightharpoonup> nat"
  bedSleepersMap :: "u32 \<rightharpoonup> nat"

definition getUniqueItem :: "u16 \<Rightarrow> object_registry \<Rightarrow> nat option" where
  "getUniqueItem uniqueId g = uniqueItems g uniqueId"

definition addUniqueItem :: "u16 \<Rightarrow> nat \<Rightarrow> object_registry \<Rightarrow> bool \<times> object_registry" where
  "addUniqueItem uniqueId item g =
     (case uniqueItems g uniqueId of
        Some _ \<Rightarrow> (False, g)
      | None \<Rightarrow> (True, g\<lparr>uniqueItems := (uniqueItems g)(uniqueId \<mapsto> item)\<rparr>))"

definition removeUniqueItem :: "u16 \<Rightarrow> object_registry \<Rightarrow> object_registry" where
  "removeUniqueItem uniqueId g =
     (case uniqueItems g uniqueId of
        Some _ \<Rightarrow> g\<lparr>uniqueItems := (uniqueItems g)(uniqueId := None)\<rparr>
      | None \<Rightarrow> g)"

definition getBedBySleeper :: "u32 \<Rightarrow> object_registry \<Rightarrow> nat option" where
  "getBedBySleeper guid g = bedSleepersMap g guid"

definition setBedSleeper :: "nat \<Rightarrow> u32 \<Rightarrow> object_registry \<Rightarrow> object_registry" where
  "setBedSleeper bed guid g = g\<lparr>bedSleepersMap := (bedSleepersMap g)(guid \<mapsto> bed)\<rparr>"

definition removeBedSleeper :: "u32 \<Rightarrow> object_registry \<Rightarrow> object_registry" where
  "removeBedSleeper guid g =
     (case bedSleepersMap g guid of
        Some _ \<Rightarrow> g\<lparr>bedSleepersMap := (bedSleepersMap g)(guid := None)\<rparr>
      | None \<Rightarrow> g)"

section \<open>The registry invariant\<close>

text \<open>The three indexes of the players and the name tree describe the same set of players: each index
  maps a key to a player that has this key, and a player found in one is found in the others.\<close>

definition online :: "registry \<Rightarrow> player_entry set" where
  "online g = {p. map_of (players g) (pl_id p) = Some p}"

definition players_inv :: "registry \<Rightarrow> bool" where
  "players_inv g \<longleftrightarrow>
     wt_inv (wildcardTree g) \<and> wt_names (wildcardTree g) = dom (mappedPlayerNames g) \<and>
     (\<forall>k p. map_of (players g) k = Some p \<longrightarrow> k = pl_id p) \<and>
     (\<forall>k p. mappedPlayerNames g k = Some p \<longleftrightarrow> p \<in> online g \<and> k = asLowerCaseString (pl_name p)) \<and>
     (\<forall>k p. mappedPlayerGuids g k = Some p \<longleftrightarrow> p \<in> online g \<and> k = pl_guid p)"

text \<open>A player may be added when nobody online has the same name, guid or id: the login protocol
  disconnects or replaces the character that is online before it places a new one.\<close>

definition fresh_player :: "player_entry \<Rightarrow> registry \<Rightarrow> bool" where
  "fresh_player p g \<longleftrightarrow>
     pl_name p \<noteq> [] \<and>
     (\<forall>q \<in> online g. pl_id q \<noteq> pl_id p \<and> pl_guid q \<noteq> pl_guid p \<and>
        asLowerCaseString (pl_name q) \<noteq> asLowerCaseString (pl_name p))"

lemma players_invD:
  assumes "players_inv g"
  shows "player_names.tracks (wildcardTree g) (mappedPlayerNames g)"
    "map_of (players g) k = Some p \<Longrightarrow> k = pl_id p"
    "mappedPlayerNames g n = Some p \<longleftrightarrow> p \<in> online g \<and> n = asLowerCaseString (pl_name p)"
    "mappedPlayerGuids g u = Some p \<longleftrightarrow> p \<in> online g \<and> u = pl_guid p"
  using assms by (auto simp: players_inv_def player_names.tracks_def)

lemma players_invI:
  assumes "player_names.tracks (wildcardTree g) (mappedPlayerNames g)"
    "\<And>k p. map_of (players g) k = Some p \<Longrightarrow> k = pl_id p"
    "\<And>n p. mappedPlayerNames g n = Some p \<longleftrightarrow> p \<in> online g \<and> n = asLowerCaseString (pl_name p)"
    "\<And>u p. mappedPlayerGuids g u = Some p \<longleftrightarrow> p \<in> online g \<and> u = pl_guid p"
  shows "players_inv g"
  using assms by (auto simp: players_inv_def player_names.tracks_def)

lemma online_AList [simp]:
  "map_of (AList.update k v xs) = (map_of xs)(k \<mapsto> v)" "map_of (AList.delete k xs) = (map_of xs)(k := None)"
  by (simp_all add: AList.update_conv' AList.delete_conv')

lemma addPlayer_online:
  assumes inv: "players_inv g" and fresh: "fresh_player p g"
  shows "\<exists>g'. addPlayer p g = Some g' \<and> players_inv g' \<and> online g' = insert p (online g)"
proof -
  let ?n = "asLowerCaseString (pl_name p)"
  obtain t where t: "wt_insert ?n (wildcardTree g) = Some t"
    "player_names.tracks t ((mappedPlayerNames g)(?n \<mapsto> p))"
    using player_names.tracks_ins[OF players_invD(1)[OF inv], of ?n p] fresh by (auto simp: fresh_player_def)
  let ?g = "g\<lparr>mappedPlayerNames := (mappedPlayerNames g)(?n \<mapsto> p), mappedPlayerGuids := (mappedPlayerGuids g)(pl_guid p \<mapsto> p),
    wildcardTree := t, players := AList.update (pl_id p) p (players g)\<rparr>"
  have add: "addPlayer p g = Some ?g" by (simp add: addPlayer_def t(1) Let_def)
  have on: "online ?g = insert p (online g)"
    using fresh by (auto simp: online_def fresh_player_def split: if_splits)
  have "players_inv ?g"
  proof (rule players_invI)
    show "player_names.tracks (wildcardTree ?g) (mappedPlayerNames ?g)" using t(2) by simp
    show "k = pl_id q" if "map_of (players ?g) k = Some q" for k q
      using that players_invD(2)[OF inv] by (auto split: if_splits)
    show "mappedPlayerNames ?g n = Some q \<longleftrightarrow> q \<in> online ?g \<and> n = asLowerCaseString (pl_name q)" for n q
      using players_invD(3)[OF inv, of n q] fresh by (auto simp: on fresh_player_def)
    show "mappedPlayerGuids ?g u = Some q \<longleftrightarrow> q \<in> online ?g \<and> u = pl_guid q" for u q
      using players_invD(4)[OF inv, of u q] fresh by (auto simp: on fresh_player_def)
  qed
  then show ?thesis using add on by blast
qed

lemma removePlayer_online:
  assumes inv: "players_inv g" and on: "p \<in> online g"
  shows "players_inv (removePlayer p g) \<and> online (removePlayer p g) = online g - {p}"
proof -
  let ?g = "removePlayer p g"
  have others: "pl_id q \<noteq> pl_id p" if "q \<in> online g" "q \<noteq> p" for q
    using that on by (auto simp: online_def)
  have on': "online ?g = online g - {p}"
    using others by (auto simp: online_def removePlayer_def Let_def split: if_splits)
  have names: "asLowerCaseString (pl_name q) \<noteq> asLowerCaseString (pl_name p)" if "q \<in> online g" "q \<noteq> p" for q
  proof
    assume "asLowerCaseString (pl_name q) = asLowerCaseString (pl_name p)"
    then show False
      using that on players_invD(3)[OF inv, of "asLowerCaseString (pl_name p)" p]
        players_invD(3)[OF inv, of "asLowerCaseString (pl_name p)" q] by simp
  qed
  have guids: "pl_guid q \<noteq> pl_guid p" if "q \<in> online g" "q \<noteq> p" for q
  proof
    assume e: "pl_guid q = pl_guid p"
    have "mappedPlayerGuids g (pl_guid p) = Some p" using players_invD(4)[OF inv, of "pl_guid p" p] on by blast
    moreover have "mappedPlayerGuids g (pl_guid p) = Some q"
      using players_invD(4)[OF inv, of "pl_guid q" q] that(1) unfolding e by blast
    ultimately show False using that(2) by simp
  qed
  have "players_inv ?g"
  proof (rule players_invI)
    show "player_names.tracks (wildcardTree ?g) (mappedPlayerNames ?g)"
      using player_names.tracks_del[OF players_invD(1)[OF inv]] by (simp add: removePlayer_def Let_def)
    show "k = pl_id q" if "map_of (players ?g) k = Some q" for k q
      using that players_invD(2)[OF inv] by (auto simp: removePlayer_def Let_def split: if_splits)
    show "mappedPlayerNames ?g n = Some q \<longleftrightarrow> q \<in> online ?g \<and> n = asLowerCaseString (pl_name q)" for n q
    proof (cases "n = asLowerCaseString (pl_name p)")
      case True
      then show ?thesis using names[of q] unfolding on' by (simp add: removePlayer_def Let_def) metis
    next
      case False
      then show ?thesis using players_invD(3)[OF inv, of n q] unfolding on' by (simp add: removePlayer_def Let_def) blast
    qed
    show "mappedPlayerGuids ?g u = Some q \<longleftrightarrow> q \<in> online ?g \<and> u = pl_guid q" for u q
    proof (cases "u = pl_guid p")
      case True
      then show ?thesis using guids[of q] unfolding on' by (simp add: removePlayer_def Let_def) metis
    next
      case False
      then show ?thesis using players_invD(4)[OF inv, of u q] unfolding on' by (simp add: removePlayer_def Let_def) blast
    qed
  qed
  then show ?thesis using on' by blast
qed

lemma initial_registry_inv: "players_inv initial_registry" "online initial_registry = {}"
  using player_names.tracks_emp by (auto simp: players_inv_def initial_registry_def online_def player_names.tracks_def)

text \<open>Login and logout in any order: a sequence of additions of fresh players and removals of players
  that are online.\<close>

inductive registry_run :: "registry \<Rightarrow> player_entry set \<Rightarrow> bool" where
  start: "registry_run initial_registry {}"
| login: "registry_run g P \<Longrightarrow> fresh_player p g \<Longrightarrow> addPlayer p g = Some g' \<Longrightarrow> registry_run g' (insert p P)"
| logout: "registry_run g P \<Longrightarrow> p \<in> P \<Longrightarrow> registry_run (removePlayer p g) (P - {p})"

lemma registry_run_inv: "registry_run g P \<Longrightarrow> players_inv g \<and> online g = P"
proof (induction rule: registry_run.induct)
  case start
  then show ?case by (simp add: initial_registry_inv)
next
  case (login g P p g')
  then show ?case using addPlayer_online[of g p] by auto
next
  case (logout g P p)
  then show ?case using removePlayer_online[of g p] by auto
qed

section \<open>Identifier ranges\<close>

text \<open>Players, monsters and npcs draw their ids from three disjoint ranges as long as no counter runs
  into the next range; \<open>getCreatureByID\<close> tells the kinds apart by these ranges only.\<close>

definition ids_inv :: "registry \<Rightarrow> bool" where
  "ids_inv g \<longleftrightarrow>
     0x10000000 \<le> playerAutoID g \<and> playerAutoID g < 0x40000000 \<and>
     0x40000000 \<le> monsterAutoID g \<and> monsterAutoID g < 0x80000000 \<and> 0x80000000 \<le> npcAutoID g \<and>
     (\<forall>k p. map_of (players g) k = Some p \<longrightarrow> 0x10000000 \<le> k \<and> k < playerAutoID g) \<and>
     (\<forall>k c. map_of (monsters g) k = Some c \<longrightarrow> 0x40000000 \<le> k \<and> k < monsterAutoID g) \<and>
     (\<forall>k c. map_of (npcs g) k = Some c \<longrightarrow> 0x80000000 \<le> k \<and> k < npcAutoID g)"

lemma ids_invD:
  assumes "ids_inv g"
  shows "playerAutoID g < 0x40000000" "0x40000000 \<le> monsterAutoID g" "monsterAutoID g < 0x80000000" "0x80000000 \<le> npcAutoID g"
    "map_of (players g) k = Some p \<Longrightarrow> 0x10000000 \<le> k \<and> k < playerAutoID g"
    "map_of (monsters g) k = Some c \<Longrightarrow> 0x40000000 \<le> k \<and> k < monsterAutoID g"
    "map_of (npcs g) k = Some c \<Longrightarrow> 0x80000000 \<le> k \<and> k < npcAutoID g"
  using assms by (auto simp: ids_inv_def)

lemma getCreatureByID_iff:
  assumes "ids_inv g"
  shows "getCreatureByID k g = Some (Player_ref p) \<longleftrightarrow> map_of (players g) k = Some p"
    "getCreatureByID k g = Some (Monster_ref c) \<longleftrightarrow> map_of (monsters g) k = Some c"
    "getCreatureByID k g = Some (Npc_ref c) \<longleftrightarrow> map_of (npcs g) k = Some c"
proof -
  note bounds = ids_invD(1-4)[OF assms]
  show "getCreatureByID k g = Some (Player_ref p) \<longleftrightarrow> map_of (players g) k = Some p"
  proof
    assume found: "map_of (players g) k = Some p"
    then have "k \<noteq> 0" "k \<le> playerAutoID g" using ids_invD(5)[OF assms found] by (auto simp: word_gt_0)
    then show "getCreatureByID k g = Some (Player_ref p)" using found by (simp add: getCreatureByID_def getPlayerByID_def)
  qed (auto simp: getCreatureByID_def getPlayerByID_def split: if_splits)
  show "getCreatureByID k g = Some (Monster_ref c) \<longleftrightarrow> map_of (monsters g) k = Some c"
  proof
    assume found: "map_of (monsters g) k = Some c"
    have "k \<noteq> 0" using ids_invD(6)[OF assms found] by auto
    moreover have "\<not> k \<le> playerAutoID g" using ids_invD(6)[OF assms found] bounds(1) by (metis leD order.strict_trans2)
    moreover have "k \<le> monsterAutoID g" using ids_invD(6)[OF assms found] by (metis order.strict_implies_order)
    ultimately show "getCreatureByID k g = Some (Monster_ref c)" using found by (simp add: getCreatureByID_def getMonsterByID_def)
  qed (auto simp: getCreatureByID_def getMonsterByID_def split: if_splits)
  show "getCreatureByID k g = Some (Npc_ref c) \<longleftrightarrow> map_of (npcs g) k = Some c"
  proof
    assume found: "map_of (npcs g) k = Some c"
    have k: "0x80000000 \<le> k" "k \<le> npcAutoID g" "k \<noteq> 0" using ids_invD(7)[OF assms found] by auto
    moreover have "\<not> k \<le> monsterAutoID g" using k(1) bounds(3) by (metis leD order.strict_trans2)
    moreover have "\<not> k \<le> playerAutoID g"
      using less_trans[OF less_le_trans[OF bounds(1,2)] less_le_trans[OF bounds(3) k(1)]] by simp
    ultimately show "getCreatureByID k g = Some (Npc_ref c)" using found by (simp add: getCreatureByID_def getNpcByID_def)
  qed (auto simp: getCreatureByID_def getNpcByID_def split: if_splits)
qed

section \<open>Properties\<close>

text \<open>C24: In every state that logins and logouts reach, the indexes by id, name and guid return exactly the
  players online: each player is found by each of its keys, and whoever is found is online and has the
  key that was asked for.\<close>

theorem registry_indexes_agree:
  assumes "registry_run g P"
  shows "(getPlayerByName s g = Some p \<longleftrightarrow> s \<noteq> [] \<and> p \<in> P \<and> asLowerCaseString s = asLowerCaseString (pl_name p)) \<and>
    (getPlayerByGUID u g = Some p \<longleftrightarrow> u \<noteq> 0 \<and> p \<in> P \<and> u = pl_guid p) \<and>
    (getPlayerByID k g = Some p \<longleftrightarrow> k \<noteq> 0 \<and> p \<in> P \<and> k = pl_id p)"
proof -
  have inv: "players_inv g" and P: "online g = P" using registry_run_inv[OF assms] by auto
  have "map_of (players g) k = Some p \<longleftrightarrow> p \<in> P \<and> k = pl_id p"
    using players_invD(2)[OF inv, of k p] P by (auto simp: online_def)
  then show ?thesis
    using players_invD(3)[OF inv, of "asLowerCaseString s" p] players_invD(4)[OF inv, of u p] P
    by (simp add: getPlayerByName_def getPlayerByGUID_def getPlayerByID_def)
qed

definition sample_player :: player_entry where
  "sample_player = \<lparr>pl_name = ''Bob'', pl_guid = 7, pl_id = 0x10000000, pl_account = 1\<rparr>"

lemma sample_run: "registry_run (the (addPlayer sample_player initial_registry)) {sample_player}"
proof -
  have f: "fresh_player sample_player initial_registry"
    by (simp add: fresh_player_def initial_registry_inv sample_player_def)
  obtain g where "addPlayer sample_player initial_registry = Some g"
    using addPlayer_online[OF initial_registry_inv(1) f] by blast
  then show ?thesis using registry_run.login[OF registry_run.start f] by simp
qed

theorem registry_indexes_agree_witness:
  "getPlayerByName ''bOB'' (the (addPlayer sample_player initial_registry)) = Some sample_player"
proof -
  have "asLowerCaseString ''bOB'' = asLowerCaseString (pl_name sample_player)" by code_simp
  then show ?thesis using registry_indexes_agree[OF sample_run, of "''bOB''" sample_player] by blast
qed

text \<open>C29: A lookup with a trailing tilde finds a player exactly when it is the only one online whose name
  starts with the text before the tilde, whatever the case of the letters.\<close>

theorem wildcard_lookup_unique:
  assumes "registry_run g P" "q \<noteq> []" "length q \<le> 19"
  shows "getPlayerByNameWildcard (q @ ''~'') x g = (RETURNVALUE_NOERROR, Some p) \<longleftrightarrow>
    {r \<in> P. prefix (asLowerCaseString q) (asLowerCaseString (pl_name r))} = {p}"
proof -
  let ?l = "asLowerCaseString" and ?t = "wildcardTree g"
  let ?S = "{r \<in> P. prefix (?l q) (?l (pl_name r))}"
  have inv: "players_inv g" and P: "online g = P" using registry_run_inv[OF assms(1)] by auto
  have tree: "wt_inv ?t" "wt_names ?t = dom (mappedPlayerNames g)" using inv by (auto simp: players_inv_def)
  have name: "mappedPlayerNames g n = Some r \<longleftrightarrow> r \<in> P \<and> n = ?l (pl_name r)" for n r
    using players_invD(3)[OF inv] P by blast
  have M: "matches (?l q) (wt_names ?t) = (\<lambda>r. ?l (pl_name r)) ` ?S"
    unfolding tree(2) matches_def by (auto simp: name dom_def)
  have inj: "inj_on (\<lambda>r. ?l (pl_name r)) ?S" by (rule inj_onI) (metis (mono_tags, lifting) mem_Collect_eq name option.inject)
  have lookup: "getPlayerByName n g = Some p \<longleftrightarrow> p \<in> P \<and> n = ?l (pl_name p)" if mem: "n \<in> wt_names ?t" and ne: "n \<noteq> []" for n
  proof -
    obtain r where "r \<in> P" "n = ?l (pl_name r)" using domD[OF mem[unfolded tree(2)]] unfolding name by blast
    then show ?thesis using ne name[of n p] by (simp add: getPlayerByName_def)
  qed
  obtain v n where f: "findOne (?l q) [] ?t = (v, n)" by (cases "findOne (?l q) [] ?t")
  have spec: "v = RETURNVALUE_NOERROR \<longleftrightarrow> matches (?l q) (wt_names ?t) = {n}"
    using findOne_cases[of ?t "?l q" "[]" n] tree(1) assms(2) f by simp
  have run: "getPlayerByNameWildcard (q @ ''~'') x g = (RETURNVALUE_NOERROR, Some p) \<longleftrightarrow>
      v = RETURNVALUE_NOERROR \<and> getPlayerByName n g = Some p"
    using assms(3) f by (auto simp: getPlayerByNameWildcard_def Let_def)
  show ?thesis
  proof
    assume "getPlayerByNameWildcard (q @ ''~'') x g = (RETURNVALUE_NOERROR, Some p)"
    then have v: "matches (?l q) (wt_names ?t) = {n}" and n: "getPlayerByName n g = Some p" using run spec by auto
    have "n \<in> wt_names ?t" "n \<noteq> []" using v n by (auto simp: matches_def getPlayerByName_def split: if_splits)
    then have p: "p \<in> P" "n = ?l (pl_name p)" using lookup n by auto
    then have "p \<in> ?S" using v by (auto simp: matches_def)
    moreover have "r = p" if "r \<in> ?S" for r
      using that p \<open>p \<in> ?S\<close> inj v M by (metis (mono_tags, lifting) imageI inj_on_def singletonD)
    ultimately show "?S = {p}" by blast
  next
    assume S: "?S = {p}"
    then have m: "matches (?l q) (wt_names ?t) = {?l (pl_name p)}" using M by simp
    have p: "p \<in> P" "prefix (?l q) (?l (pl_name p))" using S by auto
    have v: "v = RETURNVALUE_NOERROR" "n = ?l (pl_name p)"
      using findOne_cases[of ?t "?l q" "[]" "?l (pl_name p)"] tree(1) assms(2) f m by simp_all
    have "?l (pl_name p) \<noteq> []" using p(2) assms(2) by (auto simp del: asLowerCaseString_Nil) (simp add: asLowerCaseString_def)
    moreover have "?l (pl_name p) \<in> wt_names ?t" using m by (auto simp: matches_def)
    ultimately show "getPlayerByNameWildcard (q @ ''~'') x g = (RETURNVALUE_NOERROR, Some p)"
      using run v lookup[of n] p(1) by simp
  qed
qed

theorem wildcard_lookup_unique_witness:
  "getPlayerByNameWildcard (''B'' @ ''~'') None (the (addPlayer sample_player initial_registry)) = (RETURNVALUE_NOERROR, Some sample_player)"
proof -
  have "prefix (asLowerCaseString ''B'') (asLowerCaseString (pl_name sample_player))" by code_simp
  then have "{r \<in> {sample_player}. prefix (asLowerCaseString ''B'') (asLowerCaseString (pl_name r))} = {sample_player}" by auto
  then show ?thesis using wildcard_lookup_unique[OF sample_run, of "''B''" None sample_player] by simp
qed

text \<open>C32: While no id counter leaves its range, \<open>getCreatureByID\<close> returns exactly the creature registered
  under the id, of the right kind; and a monster that is given an id and registered keeps the ranges
  and is found by that id.\<close>

theorem creature_ids_resolve:
  assumes "ids_inv g" "cr_id c = 0" "monsterAutoID g < 0x7FFFFFFF" "monster_setID c g = (c', g1)"
  shows "(getCreatureByID k g = Some (Player_ref p) \<longleftrightarrow> map_of (players g) k = Some p) \<and>
    (getCreatureByID k g = Some (Monster_ref m) \<longleftrightarrow> map_of (monsters g) k = Some m) \<and>
    (getCreatureByID k g = Some (Npc_ref m) \<longleftrightarrow> map_of (npcs g) k = Some m) \<and>
    ids_inv (addMonster c' g1) \<and> getCreatureByID (cr_id c') (addMonster c' g1) = Some (Monster_ref c')"
proof -
  let ?g = "addMonster c' g1"
  have c': "cr_id c' = monsterAutoID g" and g1: "g1 = g\<lparr>monsterAutoID := monsterAutoID g + 1\<rparr>"
    using assms(2,4) by (auto simp: monster_setID_def)
  have step: "monsterAutoID g < monsterAutoID g + 1" "monsterAutoID g + 1 < 0x80000000"
    using assms(3) by (auto simp: word_less_nat_alt unat_word_ariths)
  have "ids_inv ?g"
    using assms(1) step unfolding ids_inv_def g1 addMonster_def
    by (auto simp: c' split: if_splits)
  moreover have "map_of (monsters ?g) (cr_id c') = Some c'" by (simp add: addMonster_def)
  ultimately show ?thesis using getCreatureByID_iff[OF assms(1)] getCreatureByID_iff(2)[of ?g] by simp
qed

theorem creature_ids_resolve_witness:
  "monster_setID \<lparr>cr_name = ''Rat'', cr_id = 0\<rparr> initial_registry =
     (\<lparr>cr_name = ''Rat'', cr_id = 0x40000000\<rparr>, initial_registry\<lparr>monsterAutoID := 0x40000001\<rparr>) \<and>
   getCreatureByID 0x40000000 (addMonster \<lparr>cr_name = ''Rat'', cr_id = 0x40000000\<rparr> (initial_registry\<lparr>monsterAutoID := 0x40000001\<rparr>))
     = Some (Monster_ref \<lparr>cr_name = ''Rat'', cr_id = 0x40000000\<rparr>)"
proof -
  have "ids_inv initial_registry" by (simp add: ids_inv_def initial_registry_def)
  moreover have "monster_setID \<lparr>cr_name = ''Rat'', cr_id = 0\<rparr> initial_registry =
     (\<lparr>cr_name = ''Rat'', cr_id = 0x40000000\<rparr>, initial_registry\<lparr>monsterAutoID := 0x40000001\<rparr>)"
    by (simp add: monster_setID_def initial_registry_def)
  moreover have "monsterAutoID initial_registry < 0x7FFFFFFF" by (simp add: initial_registry_def)
  ultimately show ?thesis
    using creature_ids_resolve[of initial_registry "\<lparr>cr_name = ''Rat'', cr_id = 0\<rparr>" "\<lparr>cr_name = ''Rat'', cr_id = 0x40000000\<rparr>"
        "initial_registry\<lparr>monsterAutoID := 0x40000001\<rparr>"] by simp
qed

end
