(* ===== verification/Party_System.thy ===== *)
theory Party_System
  imports World_Position
begin

text \<open>
  Parties: \<open>Party\<close> of \<open>src/src/party.h\<close> and \<open>party.cpp\<close>, the part of \<open>Player\<close> that points to parties
  (\<open>player.cpp\<close>: \<open>isInviting\<close>, \<open>isPartner\<close>, the list of invitations, the logout) and the request handlers of
  \<open>Game\<close> (\<open>game.cpp\<close>). Parties are heap objects: \<open>parties\<close> maps the addresses of the live ones to their contents,
  so that \<open>delete this\<close> removes an entry, and a call on an address that is not in the map, an access to
  freed memory, has no value. The scripts behind \<open>eventPartyOnJoin\<close>, \<open>eventPartyOnLeave\<close> and
  \<open>eventPartyOnDisband\<close> are the parameter \<open>events\<close>. Messages to clients are not modelled.
  The shared-experience threshold uses exact arithmetic where the code divides floats, which agrees
  for every level below \<open>2\<^sup>2\<^sup>3\<close>.
\<close>

section \<open>State\<close>

record party =
  leader :: u32
  memberList :: "u32 list"
  inviteList :: "u32 list"
  ticksMap :: "u32 \<rightharpoonup> int"
  sharedExpActive :: bool
  sharedExpEnabled :: bool

record party_world =
  online :: "u32 \<Rightarrow> bool"
  playerLevel :: "u32 \<Rightarrow> nat"
  playerPosition :: "u32 \<Rightarrow> position"
  notGainInFight :: "u32 \<Rightarrow> bool"
  inFight :: "u32 \<Rightarrow> bool"
  inProtectionZone :: "u32 \<Rightarrow> bool"
  playerParty :: "u32 \<Rightarrow> nat option"
  invitePartyList :: "u32 \<Rightarrow> nat list"
  parties :: "nat \<rightharpoonup> party"
  nextParty :: nat
  now :: int
  pzLocked :: u64

record party_events =
  onJoin :: "nat \<Rightarrow> u32 \<Rightarrow> bool"
  onLeave :: "nat \<Rightarrow> u32 \<Rightarrow> bool"
  onDisband :: "nat \<Rightarrow> bool"

definition setParty :: "u32 \<Rightarrow> nat option \<Rightarrow> party_world \<Rightarrow> party_world" where
  "setParty p a w = w\<lparr>playerParty := (playerParty w)(p := a)\<rparr>"

definition put_party :: "nat \<Rightarrow> party \<Rightarrow> party_world \<Rightarrow> party_world" where
  "put_party a pt w = w\<lparr>parties := (parties w)(a \<mapsto> pt)\<rparr>"

definition addPartyInvitation :: "u32 \<Rightarrow> nat \<Rightarrow> party_world \<Rightarrow> party_world" where
  "addPartyInvitation p a w =
     (if a \<in> set (invitePartyList w p) then w
      else w\<lparr>invitePartyList := (invitePartyList w)(p := a # invitePartyList w p)\<rparr>)"

definition removePartyInvitation :: "u32 \<Rightarrow> nat \<Rightarrow> party_world \<Rightarrow> party_world" where
  "removePartyInvitation p a w = w\<lparr>invitePartyList := (invitePartyList w)(p := removeAll a (invitePartyList w p))\<rparr>"

definition party_empty :: "party \<Rightarrow> bool" where
  "party_empty pt \<longleftrightarrow> memberList pt = [] \<and> inviteList pt = []"

definition isPlayerInvited :: "u32 \<Rightarrow> party \<Rightarrow> bool" where
  "isPlayerInvited p pt \<longleftrightarrow> p \<in> set (inviteList pt)"

section \<open>Shared experience\<close>

definition highestLevel :: "party_world \<Rightarrow> party \<Rightarrow> nat" where
  "highestLevel w pt =
     fold (\<lambda>m h. if playerLevel w m > h then playerLevel w m else h) (memberList pt) (playerLevel w (leader pt))"

text \<open>The source rounds up a single-precision quotient; the quotient is exact whenever it is an integer, and
  for levels below \<open>2^21\<close> rounding moves no other quotient to an integer, so that the integer ceiling is meant.\<close>

definition minSharedLevel :: "nat \<Rightarrow> nat" where
  "minSharedLevel h = (h * 2 + 2) div 3"

definition canUseSharedExperience :: "party_world \<Rightarrow> party \<Rightarrow> u32 \<Rightarrow> bool" where
  "canUseSharedExperience w pt p \<longleftrightarrow>
     memberList pt \<noteq> [] \<and>
     minSharedLevel (highestLevel w pt) \<le> playerLevel w p \<and>
     areInRange3 30 30 1 (playerPosition w (leader pt)) (playerPosition w p) \<and>
     (notGainInFight w p \<or>
      (case ticksMap pt p of None \<Rightarrow> False | Some t \<Rightarrow> (word_of_int (now w - t) :: u64) \<le> pzLocked w))"

definition canEnableSharedExperience :: "party_world \<Rightarrow> party \<Rightarrow> bool" where
  "canEnableSharedExperience w pt \<longleftrightarrow>
     canUseSharedExperience w pt (leader pt) \<and> list_all (canUseSharedExperience w pt) (memberList pt)"

definition updateSharedExperience :: "party_world \<Rightarrow> party \<Rightarrow> party" where
  "updateSharedExperience w pt =
     (if sharedExpActive pt then
        let result = canEnableSharedExperience w pt in
        if result \<noteq> sharedExpEnabled pt then pt\<lparr>sharedExpEnabled := result\<rparr> else pt
      else pt)"

definition setSharedExperience :: "party_world \<Rightarrow> u32 \<Rightarrow> bool \<Rightarrow> party \<Rightarrow> bool \<times> party" where
  "setSharedExperience w p active pt =
     (if leader pt \<noteq> p then (False, pt)
      else if sharedExpActive pt = active then (True, pt)
      else
        let pt = pt\<lparr>sharedExpActive := active\<rparr> in
        (True, if active then pt\<lparr>sharedExpEnabled := canEnableSharedExperience w pt\<rparr> else pt))"

definition updatePlayerTicks :: "party_world \<Rightarrow> u32 \<Rightarrow> u32 \<Rightarrow> party \<Rightarrow> party" where
  "updatePlayerTicks w p points pt =
     (if points \<noteq> 0 \<and> \<not> notGainInFight w p then
        updateSharedExperience w (pt\<lparr>ticksMap := (ticksMap pt)(p \<mapsto> now w)\<rparr>)
      else pt)"

definition clearPlayerPoints :: "party_world \<Rightarrow> u32 \<Rightarrow> party \<Rightarrow> party" where
  "clearPlayerPoints w p pt =
     (case ticksMap pt p of
        None \<Rightarrow> pt
      | Some _ \<Rightarrow> updateSharedExperience w (pt\<lparr>ticksMap := (ticksMap pt)(p := None)\<rparr>))"

text \<open>\<open>shareExperience\<close>: the players that receive the share the script computed, in order.\<close>

definition shareExperience :: "(u64 \<Rightarrow> u64) \<Rightarrow> u64 \<Rightarrow> party \<Rightarrow> (u32 \<times> u64) list" where
  "shareExperience onShare experience pt =
     map (\<lambda>m. (m, onShare experience)) (memberList pt @ [leader pt])"

definition canOpenCorpse :: "u32 \<Rightarrow> nat \<Rightarrow> party_world \<Rightarrow> bool option" where
  "canOpenCorpse ownerId a w =
     map_option (\<lambda>pt. online w ownerId \<and> (leader pt = ownerId \<or> playerParty w ownerId = Some a)) (parties w a)"

section \<open>The party operations\<close>

definition new_party :: "u32 \<Rightarrow> party_world \<Rightarrow> nat \<times> party_world" where
  "new_party l w =
     (let a = nextParty w;
          pt = \<lparr>leader = l, memberList = [], inviteList = [], ticksMap = Map.empty, sharedExpActive = False, sharedExpEnabled = False\<rparr>
      in (a, setParty l (Some a) (put_party a pt w\<lparr>nextParty := a + 1\<rparr>)))"

definition disband :: "party_events \<Rightarrow> nat \<Rightarrow> party_world \<Rightarrow> party_world option" where
  "disband ev a w =
     (case parties w a of
        None \<Rightarrow> None
      | Some pt \<Rightarrow>
          if \<not> onDisband ev a then Some w
          else
            let w = setParty (leader pt) None w;
                w = fold (\<lambda>invitee. removePartyInvitation invitee a) (inviteList pt) w;
                w = fold (\<lambda>member. setParty member None) (memberList pt) w
            in Some (w\<lparr>parties := (parties w)(a := None)\<rparr>))"

definition passPartyLeadership :: "nat \<Rightarrow> u32 \<Rightarrow> party_world \<Rightarrow> (bool \<times> party_world) option" where
  "passPartyLeadership a p w =
     (case parties w a of
        None \<Rightarrow> None
      | Some pt \<Rightarrow>
          if leader pt = p \<or> playerParty w p \<noteq> Some a then Some (False, w)
          else
            let pt' = pt\<lparr>memberList := leader pt # remove1 p (memberList pt), leader := p\<rparr>
            in Some (True, put_party a (updateSharedExperience w pt') w))"

text \<open>The second half of \<open>leaveParty\<close>, after the leadership was passed on.\<close>

definition finish_leave :: "party_events \<Rightarrow> nat \<Rightarrow> u32 \<Rightarrow> bool \<Rightarrow> party_world \<Rightarrow> (bool \<times> party_world) option" where
  "finish_leave ev a p missingLeader w =
     (case parties w a of
        None \<Rightarrow> None
      | Some pt \<Rightarrow>
          let pt = pt\<lparr>memberList := remove1 p (memberList pt)\<rparr>;
              w = setParty p None w;
              pt = clearPlayerPoints w p (updateSharedExperience w pt);
              w = put_party a pt w
          in if missingLeader \<or> party_empty pt then map_option (\<lambda>w'. (True, w')) (disband ev a w)
             else Some (True, w))"

definition leaveParty :: "party_events \<Rightarrow> nat \<Rightarrow> u32 \<Rightarrow> party_world \<Rightarrow> (bool \<times> party_world) option" where
  "leaveParty ev a p w =
     (case parties w a of
        None \<Rightarrow> None
      | Some pt \<Rightarrow>
          if playerParty w p \<noteq> Some a \<and> leader pt \<noteq> p then Some (False, w)
          else if \<not> onLeave ev a p then Some (False, w)
          else if leader pt = p then
            if memberList pt \<noteq> [] then
              if length (memberList pt) = 1 \<and> inviteList pt = [] then finish_leave ev a p True w
              else Option.bind (passPartyLeadership a (hd (memberList pt)) w) (\<lambda>(_, w1). finish_leave ev a p False w1)
            else finish_leave ev a p True w
          else finish_leave ev a p False w)"

definition joinParty :: "party_events \<Rightarrow> nat \<Rightarrow> u32 \<Rightarrow> party_world \<Rightarrow> (bool \<times> party_world) option" where
  "joinParty ev a p w =
     (case parties w a of
        None \<Rightarrow> None
      | Some pt \<Rightarrow>
          if \<not> onJoin ev a p then Some (False, w)
          else if p \<notin> set (inviteList pt) then Some (False, w)
          else
            let pt' = pt\<lparr>inviteList := remove1 p (inviteList pt), memberList := memberList pt @ [p]\<rparr>;
                w1 = removePartyInvitation p a (setParty p (Some a) w)
            in Some (True, put_party a (updateSharedExperience w1 pt') w1))"

definition removeInvite :: "party_events \<Rightarrow> nat \<Rightarrow> u32 \<Rightarrow> bool \<Rightarrow> party_world \<Rightarrow> (bool \<times> party_world) option" where
  "removeInvite ev a p removeFromPlayer w =
     (case parties w a of
        None \<Rightarrow> None
      | Some pt \<Rightarrow>
          if p \<notin> set (inviteList pt) then Some (False, w)
          else
            let pt' = pt\<lparr>inviteList := remove1 p (inviteList pt)\<rparr>;
                w1 = put_party a pt' w;
                w2 = (if removeFromPlayer then removePartyInvitation p a w1 else w1)
            in if party_empty pt' then map_option (\<lambda>w'. (True, w')) (disband ev a w2)
               else Some (True, w2))"

definition revokeInvitation :: "party_events \<Rightarrow> nat \<Rightarrow> u32 \<Rightarrow> party_world \<Rightarrow> party_world option" where
  "revokeInvitation ev a p w = map_option snd (removeInvite ev a p True w)"

definition invitePlayer :: "nat \<Rightarrow> u32 \<Rightarrow> party_world \<Rightarrow> (bool \<times> party_world) option" where
  "invitePlayer a p w =
     (case parties w a of
        None \<Rightarrow> None
      | Some pt \<Rightarrow>
          if isPlayerInvited p pt then Some (False, w)
          else Some (True, addPartyInvitation p a (put_party a (pt\<lparr>inviteList := inviteList pt @ [p]\<rparr>) w)))"

section \<open>Players and requests\<close>

definition isInviting :: "u32 \<Rightarrow> u32 \<Rightarrow> party_world \<Rightarrow> bool option" where
  "isInviting this p w =
     (case playerParty w this of
        None \<Rightarrow> Some False
      | Some a \<Rightarrow> map_option (\<lambda>pt. leader pt = this \<and> isPlayerInvited p pt) (parties w a))"

definition isPartner :: "u32 \<Rightarrow> u32 \<Rightarrow> party_world \<Rightarrow> bool" where
  "isPartner this p w \<longleftrightarrow> playerParty w this \<noteq> None \<and> p \<noteq> this \<and> playerParty w this = playerParty w p"

fun clear_invitations :: "party_events \<Rightarrow> u32 \<Rightarrow> nat list \<Rightarrow> party_world \<Rightarrow> party_world option" where
  "clear_invitations ev p [] w = Some w"
| "clear_invitations ev p (a # as) w =
     Option.bind (removeInvite ev a p False w) (\<lambda>(_, w'). clear_invitations ev p as w')"

definition clearPartyInvitations :: "party_events \<Rightarrow> u32 \<Rightarrow> party_world \<Rightarrow> party_world option" where
  "clearPartyInvitations ev p w =
     map_option (\<lambda>w'. w'\<lparr>invitePartyList := (invitePartyList w')(p := [])\<rparr>)
       (clear_invitations ev p (invitePartyList w p) w)"

text \<open>The party part of \<open>Player::onRemoveCreature\<close>, after which the player is no longer registered.\<close>

definition player_logout :: "party_events \<Rightarrow> u32 \<Rightarrow> party_world \<Rightarrow> party_world option" where
  "player_logout ev p w =
     map_option (\<lambda>w. w\<lparr>online := (online w)(p := False)\<rparr>)
       (Option.bind (clearPartyInvitations ev p w)
          (\<lambda>w. case playerParty w p of None \<Rightarrow> Some w | Some a \<Rightarrow> map_option snd (leaveParty ev a p w)))"

definition playerInviteToParty :: "u32 \<Rightarrow> u32 \<Rightarrow> party_world \<Rightarrow> party_world option" where
  "playerInviteToParty p invited w =
     (if p = invited \<or> \<not> online w p \<or> \<not> online w invited then Some w
      else
        Option.bind (isInviting invited p w) (\<lambda>inviting.
          if inviting \<or> playerParty w invited \<noteq> None then Some w
          else case playerParty w p of
                 None \<Rightarrow> (case new_party p w of (a, w1) \<Rightarrow> map_option snd (invitePlayer a invited w1))
               | Some a \<Rightarrow>
                   Option.bind (parties w a) (\<lambda>pt.
                     if leader pt \<noteq> p then Some w else map_option snd (invitePlayer a invited w))))"

definition playerJoinParty :: "party_events \<Rightarrow> u32 \<Rightarrow> u32 \<Rightarrow> party_world \<Rightarrow> party_world option" where
  "playerJoinParty ev p l w =
     (if \<not> online w p \<or> \<not> online w l then Some w
      else
        Option.bind (isInviting l p w) (\<lambda>inviting.
          if \<not> inviting then Some w
          else case playerParty w l of
                 None \<Rightarrow> Some w
               | Some a \<Rightarrow>
                   Option.bind (parties w a) (\<lambda>pt.
                     if leader pt \<noteq> l \<or> playerParty w p \<noteq> None then Some w
                     else map_option snd (joinParty ev a p w))))"

definition playerRevokePartyInvitation :: "party_events \<Rightarrow> u32 \<Rightarrow> u32 \<Rightarrow> party_world \<Rightarrow> party_world option" where
  "playerRevokePartyInvitation ev p invited w =
     (if \<not> online w p then Some w
      else case playerParty w p of
             None \<Rightarrow> Some w
           | Some a \<Rightarrow>
               Option.bind (parties w a) (\<lambda>pt.
                 if leader pt \<noteq> p \<or> \<not> online w invited then Some w
                 else Option.bind (isInviting p invited w) (\<lambda>inviting.
                   if \<not> inviting then Some w else revokeInvitation ev a invited w)))"

definition playerPassPartyLeadership :: "u32 \<Rightarrow> u32 \<Rightarrow> party_world \<Rightarrow> party_world option" where
  "playerPassPartyLeadership p newLeader w =
     (if \<not> online w p then Some w
      else case playerParty w p of
             None \<Rightarrow> Some w
           | Some a \<Rightarrow>
               Option.bind (parties w a) (\<lambda>pt.
                 if leader pt \<noteq> p \<or> \<not> online w newLeader \<or> \<not> isPartner p newLeader w then Some w
                 else map_option snd (passPartyLeadership a newLeader w)))"

definition playerLeaveParty :: "party_events \<Rightarrow> u32 \<Rightarrow> party_world \<Rightarrow> party_world option" where
  "playerLeaveParty ev p w =
     (if \<not> online w p then Some w
      else case playerParty w p of
             None \<Rightarrow> Some w
           | Some a \<Rightarrow> if inFight w p then Some w else map_option snd (leaveParty ev a p w))"

definition playerEnableSharedPartyExperience :: "u32 \<Rightarrow> bool \<Rightarrow> party_world \<Rightarrow> party_world option" where
  "playerEnableSharedPartyExperience p active w =
     (if \<not> online w p then Some w
      else case playerParty w p of
             None \<Rightarrow> Some w
           | Some a \<Rightarrow>
               if inFight w p \<and> \<not> inProtectionZone w p then Some w
               else map_option (\<lambda>pt. put_party a (snd (setSharedExperience w p active pt)) w) (parties w a))"

section \<open>The invariant\<close>

text \<open>A player points to a party exactly when the party lists it, and holds an invitation exactly when
  the party lists it as invited; so no player ever points to a party that was deleted.\<close>

definition roster :: "party \<Rightarrow> u32 list" where
  "roster pt = leader pt # memberList pt"

definition party_shape :: "party \<Rightarrow> bool" where
  "party_shape pt \<longleftrightarrow>
     distinct (roster pt) \<and> distinct (inviteList pt) \<and> set (roster pt) \<inter> set (inviteList pt) = {} \<and> \<not> party_empty pt"

definition party_inv :: "party_world \<Rightarrow> bool" where
  "party_inv w \<longleftrightarrow>
     (\<forall>p a. playerParty w p = Some a \<longleftrightarrow> (\<exists>pt. parties w a = Some pt \<and> p \<in> set (roster pt))) \<and>
     (\<forall>p a. a \<in> set (invitePartyList w p) \<longleftrightarrow> (\<exists>pt. parties w a = Some pt \<and> p \<in> set (inviteList pt))) \<and>
     (\<forall>a pt. parties w a = Some pt \<longrightarrow> party_shape pt \<and> a < nextParty w) \<and>
     (\<forall>p. distinct (invitePartyList w p)) \<and>
     (\<forall>p. playerParty w p \<noteq> None \<or> invitePartyList w p \<noteq> [] \<longrightarrow> online w p)"

lemma party_invD:
  assumes "party_inv w"
  shows "playerParty w p = Some a \<longleftrightarrow> (\<exists>pt. parties w a = Some pt \<and> p \<in> set (roster pt))"
    "a \<in> set (invitePartyList w p) \<longleftrightarrow> (\<exists>pt. parties w a = Some pt \<and> p \<in> set (inviteList pt))"
    "parties w a = Some pt \<Longrightarrow> party_shape pt" "parties w a = Some pt \<Longrightarrow> a < nextParty w"
    "distinct (invitePartyList w p)"
    "playerParty w p \<noteq> None \<Longrightarrow> online w p" "invitePartyList w p \<noteq> [] \<Longrightarrow> online w p"
  using assms by (auto simp: party_inv_def)

text \<open>Every operation changes one party; this is the rule that all preservation proofs apply.\<close>

lemma party_inv_local:
  assumes inv: "party_inv w"
    and parties': "parties w' = (parties w)(a := x)"
    and member: "\<And>p b. playerParty w' p = Some b \<longleftrightarrow>
      (if b = a then \<exists>pt. x = Some pt \<and> p \<in> set (roster pt) else playerParty w p = Some b)"
    and invited: "\<And>p b. b \<in> set (invitePartyList w' p) \<longleftrightarrow>
      (if b = a then \<exists>pt. x = Some pt \<and> p \<in> set (inviteList pt) else b \<in> set (invitePartyList w p))"
    and dist: "\<And>p. distinct (invitePartyList w' p)"
    and shape: "\<And>pt. x = Some pt \<Longrightarrow> party_shape pt \<and> a < nextParty w'"
    and fresh: "nextParty w \<le> nextParty w'"
    and on: "\<And>p. playerParty w' p \<noteq> None \<or> invitePartyList w' p \<noteq> [] \<Longrightarrow> online w' p"
  shows "party_inv w'"
  unfolding party_inv_def
proof (intro conjI allI impI)
  show "playerParty w' p = Some b \<longleftrightarrow> (\<exists>pt. parties w' b = Some pt \<and> p \<in> set (roster pt))" for p b
    using member[of p b] party_invD(1)[OF inv, of p b] by (simp add: parties')
  show "b \<in> set (invitePartyList w' p) \<longleftrightarrow> (\<exists>pt. parties w' b = Some pt \<and> p \<in> set (inviteList pt))" for p b
    using invited[of b p] party_invD(2)[OF inv, of b p] by (simp add: parties')
  show "party_shape pt" "b < nextParty w'" if "parties w' b = Some pt" for b pt
    using that shape[of pt] party_invD(3,4)[OF inv, of b pt] fresh by (auto simp: parties' split: if_splits)
  show "distinct (invitePartyList w' p)" for p by (rule dist)
  show "online w' p" if "playerParty w' p \<noteq> None \<or> invitePartyList w' p \<noteq> []" for p by (rule on[OF that])
qed

lemma shared_fields [simp]:
  "leader (updateSharedExperience w pt) = leader pt" "memberList (updateSharedExperience w pt) = memberList pt"
  "inviteList (updateSharedExperience w pt) = inviteList pt"
  "leader (clearPlayerPoints w p pt) = leader pt" "memberList (clearPlayerPoints w p pt) = memberList pt"
  "inviteList (clearPlayerPoints w p pt) = inviteList pt"
  "leader (updatePlayerTicks w p n pt) = leader pt" "memberList (updatePlayerTicks w p n pt) = memberList pt"
  "inviteList (updatePlayerTicks w p n pt) = inviteList pt"
  "leader (snd (setSharedExperience w p b pt)) = leader pt" "memberList (snd (setSharedExperience w p b pt)) = memberList pt"
  "inviteList (snd (setSharedExperience w p b pt)) = inviteList pt"
  by (auto simp: updateSharedExperience_def clearPlayerPoints_def updatePlayerTicks_def setSharedExperience_def Let_def split: option.splits)

lemma shared_roster [simp]:
  "roster (updateSharedExperience w pt) = roster pt" "roster (clearPlayerPoints w p pt) = roster pt"
  "roster (updatePlayerTicks w p n pt) = roster pt" "roster (snd (setSharedExperience w p b pt)) = roster pt"
  by (simp_all add: roster_def)

lemma shared_shape [simp]:
  "party_shape (updateSharedExperience w pt) = party_shape pt" "party_shape (clearPlayerPoints w p pt) = party_shape pt"
  "party_shape (updatePlayerTicks w p n pt) = party_shape pt" "party_shape (snd (setSharedExperience w p b pt)) = party_shape pt"
  by (simp_all add: party_shape_def party_empty_def)

lemma fold_setParty:
  "fold (\<lambda>m. setParty m None) ms w = w\<lparr>playerParty := \<lambda>p. if p \<in> set ms then None else playerParty w p\<rparr>"
  by (induction ms arbitrary: w) (auto simp: setParty_def fun_eq_iff)

lemma fold_removePartyInvitation:
  "fold (\<lambda>i. removePartyInvitation i a) is w =
     w\<lparr>invitePartyList := \<lambda>p. if p \<in> set is then removeAll a (invitePartyList w p) else invitePartyList w p\<rparr>"
  by (induction "is" arbitrary: w) (auto simp: removePartyInvitation_def fun_eq_iff)

lemma disband_eq:
  assumes "parties w a = Some pt" "onDisband ev a"
  shows "disband ev a w = Some (w\<lparr>
     playerParty := \<lambda>p. if p \<in> set (roster pt) then None else playerParty w p,
     invitePartyList := \<lambda>p. if p \<in> set (inviteList pt) then removeAll a (invitePartyList w p) else invitePartyList w p,
     parties := (parties w)(a := None)\<rparr>)"
proof -
  have "(\<lambda>p. if p \<in> set (memberList pt) then None else ((playerParty w)(leader pt := None)) p) =
      (\<lambda>p. if p \<in> set (roster pt) then None else playerParty w p)"
    by (auto simp: roster_def fun_eq_iff)
  then show ?thesis
    using assms by (simp add: disband_def Let_def fold_setParty fold_removePartyInvitation setParty_def cong: if_cong)
qed

section \<open>Preservation\<close>

lemma invitePlayer_inv:
  assumes inv: "party_inv w" and a: "parties w a = Some pt" and p: "playerParty w p = None" "online w p"
  shows "\<exists>b w'. invitePlayer a p w = Some (b, w') \<and> party_inv w'"
proof (cases "isPlayerInvited p pt")
  case True
  then show ?thesis using inv a by (auto simp: invitePlayer_def)
next
  case False
  let ?pt = "pt\<lparr>inviteList := inviteList pt @ [p]\<rparr>"
  let ?w = "addPartyInvitation p a (put_party a ?pt w)"
  have notin: "a \<notin> set (invitePartyList w p)" using False party_invD(2)[OF inv, of a p] a by (simp add: isPlayerInvited_def)
  have notmem: "p \<notin> set (roster pt)" using party_invD(1)[OF inv, of p a] a p(1) by simp
  have r: "roster ?pt = roster pt" by (simp add: roster_def)
  have shape: "party_shape ?pt"
    using party_invD(3)[OF inv a] notmem False
    by (auto simp: party_shape_def party_empty_def isPlayerInvited_def r)
  have "party_inv ?w"
  proof (rule party_inv_local[OF inv, where a = a and x = "Some ?pt"])
    show "parties ?w = (parties w)(a := Some ?pt)" by (simp add: addPartyInvitation_def put_party_def)
    show "playerParty ?w q = Some b \<longleftrightarrow> (if b = a then \<exists>pt'. Some ?pt = Some pt' \<and> q \<in> set (roster pt') else playerParty w q = Some b)" for q b
      using party_invD(1)[OF inv, of q b] a by (auto simp: addPartyInvitation_def put_party_def r)
    show "b \<in> set (invitePartyList ?w q) \<longleftrightarrow> (if b = a then \<exists>pt'. Some ?pt = Some pt' \<and> q \<in> set (inviteList pt') else b \<in> set (invitePartyList w q))" for q b
      using party_invD(2)[OF inv, of b q] a notin by (auto simp: addPartyInvitation_def put_party_def)
    show "distinct (invitePartyList ?w q)" for q
      using party_invD(5)[OF inv] notin by (simp add: addPartyInvitation_def put_party_def)
    show "party_shape pt' \<and> a < nextParty ?w" if "Some ?pt = Some pt'" for pt'
      using that shape party_invD(4)[OF inv a] by (simp add: addPartyInvitation_def put_party_def)
    show "nextParty w \<le> nextParty ?w" by (simp add: addPartyInvitation_def put_party_def)
    show "online ?w q" if "playerParty ?w q \<noteq> None \<or> invitePartyList ?w q \<noteq> []" for q
      using that party_invD(6,7)[OF inv, of q] p(2) by (auto simp: addPartyInvitation_def put_party_def split: if_splits)
  qed
  then show ?thesis using False a by (auto simp: invitePlayer_def)
qed

lemma new_party_invite_inv:
  assumes inv: "party_inv w" and l: "playerParty w l = None" "online w l" and p: "playerParty w p = None" "online w p" "p \<noteq> l"
    and new: "new_party l w = (a, w1)"
  shows "\<exists>b w'. invitePlayer a p w1 = Some (b, w') \<and> party_inv w'"
proof -
  let ?pt = "\<lparr>leader = l, memberList = [], inviteList = [p], ticksMap = Map.empty, sharedExpActive = False, sharedExpEnabled = False\<rparr>"
  have a: "a = nextParty w" and w1: "w1 = setParty l (Some a) (put_party a (?pt\<lparr>inviteList := []\<rparr>) w\<lparr>nextParty := a + 1\<rparr>)"
    using new by (auto simp: new_party_def Let_def)
  have none: "parties w a = None" using party_invD(4)[OF inv, of a] a by (cases "parties w a") auto
  have notin: "a \<notin> set (invitePartyList w q)" "playerParty w q \<noteq> Some a" for q
    using party_invD(1)[OF inv, of q a] party_invD(2)[OF inv, of a q] none by auto
  let ?w = "w\<lparr>playerParty := (playerParty w)(l := Some a), invitePartyList := (invitePartyList w)(p := a # invitePartyList w p),
     parties := (parties w)(a \<mapsto> ?pt), nextParty := a + 1\<rparr>"
  have run: "invitePlayer a p w1 = Some (True, ?w)"
    using notin by (simp add: invitePlayer_def w1 setParty_def put_party_def addPartyInvitation_def isPlayerInvited_def)
  have "party_inv ?w"
  proof (rule party_inv_local[OF inv, where a = a and x = "Some ?pt"])
    show "playerParty ?w q = Some b \<longleftrightarrow> (if b = a then \<exists>pt'. Some ?pt = Some pt' \<and> q \<in> set (roster pt') else playerParty w q = Some b)" for q b
      using notin l(1) by (auto simp: roster_def)
    show "b \<in> set (invitePartyList ?w q) \<longleftrightarrow> (if b = a then \<exists>pt'. Some ?pt = Some pt' \<and> q \<in> set (inviteList pt') else b \<in> set (invitePartyList w q))" for q b
      using notin by auto
    show "distinct (invitePartyList ?w q)" for q using party_invD(5)[OF inv] notin by simp
    show "party_shape pt' \<and> a < nextParty ?w" if "Some ?pt = Some pt'" for pt'
      using that p(3) by (auto simp: party_shape_def party_empty_def roster_def)
    show "nextParty w \<le> nextParty ?w" using a by simp
    show "online ?w q" if "playerParty ?w q \<noteq> None \<or> invitePartyList ?w q \<noteq> []" for q
      using that party_invD(6,7)[OF inv, of q] l(2) p(2) by (auto split: if_splits)
  qed simp
  then show ?thesis using run by blast
qed

lemma joinParty_inv:
  assumes inv: "party_inv w" and a: "parties w a = Some pt" and p: "playerParty w p = None"
  shows "\<exists>b w'. joinParty ev a p w = Some (b, w') \<and> party_inv w'"
proof (cases "onJoin ev a p \<and> p \<in> set (inviteList pt)")
  case False
  then show ?thesis using inv a by (auto simp: joinParty_def)
next
  case True
  let ?pt = "pt\<lparr>inviteList := remove1 p (inviteList pt), memberList := memberList pt @ [p]\<rparr>"
  let ?w1 = "removePartyInvitation p a (setParty p (Some a) w)"
  let ?pt' = "updateSharedExperience ?w1 ?pt"
  let ?w = "put_party a ?pt' ?w1"
  have sh: "party_shape pt" by (rule party_invD(3)[OF inv a])
  have inv_list: "set (remove1 p (inviteList pt)) = set (inviteList pt) - {p}"
    using sh by (simp add: party_shape_def)
  have r: "set (roster ?pt) = insert p (set (roster pt))" by (auto simp: roster_def)
  have on: "online w p" using party_invD(2)[OF inv, of a p] party_invD(7)[OF inv, of p] a True by force
  have shape: "party_shape ?pt"
    using sh True inv_list p party_invD(1)[OF inv, of p a] a by (auto simp: party_shape_def party_empty_def roster_def)
  have "party_inv ?w"
  proof (rule party_inv_local[OF inv, where a = a and x = "Some ?pt'"])
    show "parties ?w = (parties w)(a := Some ?pt')"
      by (simp add: put_party_def removePartyInvitation_def setParty_def)
    show "playerParty ?w q = Some b \<longleftrightarrow> (if b = a then \<exists>pt'. Some ?pt' = Some pt' \<and> q \<in> set (roster pt') else playerParty w q = Some b)" for q b
      using party_invD(1)[OF inv, of q b] a p by (auto simp: put_party_def removePartyInvitation_def setParty_def r)
    show "b \<in> set (invitePartyList ?w q) \<longleftrightarrow> (if b = a then \<exists>pt'. Some ?pt' = Some pt' \<and> q \<in> set (inviteList pt') else b \<in> set (invitePartyList w q))" for q b
      using party_invD(2)[OF inv, of b q] a by (auto simp: put_party_def removePartyInvitation_def setParty_def inv_list)
    show "distinct (invitePartyList ?w q)" for q
      using party_invD(5)[OF inv] by (simp add: put_party_def removePartyInvitation_def setParty_def distinct_removeAll)
    show "party_shape pt' \<and> a < nextParty ?w" if "Some ?pt' = Some pt'" for pt'
      using that shape party_invD(4)[OF inv a] by (auto simp: put_party_def removePartyInvitation_def setParty_def)
    show "nextParty w \<le> nextParty ?w" by (simp add: put_party_def removePartyInvitation_def setParty_def)
    show "online ?w q" if "playerParty ?w q \<noteq> None \<or> invitePartyList ?w q \<noteq> []" for q
      using that party_invD(6,7)[OF inv, of q] on
      by (cases "q = p") (auto simp: put_party_def removePartyInvitation_def setParty_def)
  qed
  then show ?thesis using True a by (auto simp: joinParty_def Let_def)
qed

lemma passPartyLeadership_inv:
  assumes inv: "party_inv w" and a: "parties w a = Some pt"
  shows "\<exists>b w'. passPartyLeadership a p w = Some (b, w') \<and> party_inv w'"
proof (cases "leader pt = p \<or> playerParty w p \<noteq> Some a")
  case True
  then show ?thesis using inv a by (auto simp: passPartyLeadership_def)
next
  case False
  let ?pt' = "updateSharedExperience w (pt\<lparr>memberList := leader pt # remove1 p (memberList pt), leader := p\<rparr>)"
  let ?w = "put_party a ?pt' w"
  have sh: "party_shape pt" by (rule party_invD(3)[OF inv a])
  have mem: "p \<in> set (memberList pt)" using False party_invD(1)[OF inv, of p a] a by (auto simp: roster_def)
  have rem: "set (remove1 p (memberList pt)) = set (memberList pt) - {p}"
    using sh by (simp add: party_shape_def roster_def)
  let ?pt = "pt\<lparr>memberList := leader pt # remove1 p (memberList pt), leader := p\<rparr>"
  have r: "set (roster ?pt) = set (roster pt)" using mem by (auto simp: roster_def rem)
  have "distinct (roster ?pt)" using sh False by (auto simp: party_shape_def roster_def rem)
  then have shape: "party_shape ?pt" using sh r by (simp add: party_shape_def party_empty_def)
  have "party_inv ?w"
  proof (rule party_inv_local[OF inv, where a = a and x = "Some ?pt'"])
    show "playerParty ?w q = Some b \<longleftrightarrow> (if b = a then \<exists>pt'. Some ?pt' = Some pt' \<and> q \<in> set (roster pt') else playerParty w q = Some b)" for q b
      using party_invD(1)[OF inv, of q b] a r by (auto simp: put_party_def)
    show "b \<in> set (invitePartyList ?w q) \<longleftrightarrow> (if b = a then \<exists>pt'. Some ?pt' = Some pt' \<and> q \<in> set (inviteList pt') else b \<in> set (invitePartyList w q))" for q b
      using party_invD(2)[OF inv, of b q] a by (simp add: put_party_def)
    show "party_shape pt' \<and> a < nextParty ?w" if "Some ?pt' = Some pt'" for pt'
      using that shape party_invD(4)[OF inv a] by (auto simp: put_party_def)
    show "online ?w q" if "playerParty ?w q \<noteq> None \<or> invitePartyList ?w q \<noteq> []" for q
      using that party_invD(6,7)[OF inv, of q] by (auto simp: put_party_def)
  qed (simp_all add: put_party_def party_invD(5)[OF inv])
  then show ?thesis using False a by (auto simp: passPartyLeadership_def Let_def)
qed

lemma disband_inv:
  assumes inv: "party_inv w" and a: "parties w a = Some pt" and ev: "onDisband ev a"
  shows "\<exists>w'. disband ev a w = Some w' \<and> party_inv w'"
proof -
  let ?w = "w\<lparr>playerParty := \<lambda>p. if p \<in> set (roster pt) then None else playerParty w p,
     invitePartyList := \<lambda>p. if p \<in> set (inviteList pt) then removeAll a (invitePartyList w p) else invitePartyList w p,
     parties := (parties w)(a := None)\<rparr>"
  have only: "playerParty w q = Some b \<Longrightarrow> q \<in> set (roster pt) \<Longrightarrow> b = a" for q b
    using party_invD(1)[OF inv, of q a] a by auto
  have "party_inv ?w"
  proof (rule party_inv_local[OF inv, where a = a and x = None])
    show "playerParty ?w q = Some b \<longleftrightarrow> (if b = a then \<exists>pt'. None = Some pt' \<and> q \<in> set (roster pt') else playerParty w q = Some b)" for q b
      using party_invD(1)[OF inv, of q a] a only[of q b] by (cases "b = a") (auto split: if_splits)
    show "b \<in> set (invitePartyList ?w q) \<longleftrightarrow> (if b = a then \<exists>pt'. None = Some pt' \<and> q \<in> set (inviteList pt') else b \<in> set (invitePartyList w q))" for q b
      using party_invD(2)[OF inv, of b q] a by auto
    show "distinct (invitePartyList ?w q)" for q
      using party_invD(5)[OF inv] by (simp add: distinct_removeAll)
    show "online ?w q" if "playerParty ?w q \<noteq> None \<or> invitePartyList ?w q \<noteq> []" for q
      using that party_invD(6,7)[OF inv, of q] by (cases "invitePartyList w q = []") (auto split: if_splits)
  qed simp_all
  then show ?thesis using disband_eq[OF a ev] by blast
qed

text \<open>The state in which a player has left party \<open>a\<close> and, when nothing is left, the party was deleted.\<close>

lemma finish_leave_inv:
  assumes inv: "party_inv w" and a: "parties w a = Some pt" and p: "p \<in> set (roster pt)"
    and missing: "missing \<longleftrightarrow> leader pt = p" and ev: "onDisband ev a"
  shows "\<exists>w'. finish_leave ev a p missing w = Some (True, w') \<and> party_inv w' \<and> playerParty w' p = None"
proof -
  let ?pt = "pt\<lparr>memberList := remove1 p (memberList pt)\<rparr>"
  let ?w1 = "setParty p None w"
  let ?pt' = "clearPlayerPoints ?w1 p (updateSharedExperience ?w1 ?pt)"
  let ?w2 = "put_party a ?pt' ?w1"
  have sh: "party_shape pt" by (rule party_invD(3)[OF inv a])
  have rem: "set (remove1 p (memberList pt)) = set (memberList pt) - {p}" using sh by (simp add: party_shape_def roster_def)
  have here: "playerParty w q = Some a \<longleftrightarrow> q \<in> set (roster pt)" for q
    using party_invD(1)[OF inv, of q a] a by simp
  have invited: "a \<in> set (invitePartyList w q) \<longleftrightarrow> q \<in> set (inviteList pt)" for q
    using party_invD(2)[OF inv, of a q] a by simp
  show ?thesis
  proof (cases "missing \<or> party_empty ?pt")
    case gone: True
    have rest: "set (roster ?pt) \<union> {p} = set (roster pt)" using p by (auto simp: roster_def rem)
    obtain w' where w': "w' = ?w2\<lparr>playerParty := \<lambda>q. if q \<in> set (roster ?pt') then None else playerParty ?w2 q,
       invitePartyList := \<lambda>q. if q \<in> set (inviteList ?pt') then removeAll a (invitePartyList ?w2 q) else invitePartyList ?w2 q,
       parties := (parties ?w2)(a := None)\<rparr>" by blast
    have run: "finish_leave ev a p missing w = Some (True, w')"
    proof -
      have "parties ?w2 a = Some ?pt'" by (simp add: put_party_def)
      then have "disband ev a ?w2 = Some w'" unfolding w' by (rule disband_eq[OF _ ev])
      then show ?thesis using gone a by (simp add: finish_leave_def Let_def party_empty_def)
    qed
    have party': "playerParty w' q = (if q \<in> set (roster pt) then None else playerParty w q)" for q
      using rest by (auto simp: w' put_party_def setParty_def)
    have invites': "invitePartyList w' q = (if q \<in> set (inviteList pt) then removeAll a (invitePartyList w q) else invitePartyList w q)" for q
      by (simp add: w' put_party_def setParty_def)
    have "party_inv w'"
    proof (rule party_inv_local[OF inv, where a = a and x = None])
      show "parties w' = (parties w)(a := None)" by (simp add: w' put_party_def setParty_def)
      show "playerParty w' q = Some b \<longleftrightarrow> (if b = a then \<exists>pt'. None = Some pt' \<and> q \<in> set (roster pt') else playerParty w q = Some b)" for q b
        using here[of q] by (auto simp: party')
      show "b \<in> set (invitePartyList w' q) \<longleftrightarrow> (if b = a then \<exists>pt'. None = Some pt' \<and> q \<in> set (inviteList pt') else b \<in> set (invitePartyList w q))" for q b
        using invited[of q] by (auto simp: invites')
      show "distinct (invitePartyList w' q)" for q using party_invD(5)[OF inv] by (simp add: invites' distinct_removeAll)
      show "nextParty w \<le> nextParty w'" by (simp add: w' put_party_def setParty_def)
      show "online w' q" if "playerParty w' q \<noteq> None \<or> invitePartyList w' q \<noteq> []" for q
        using that party_invD(6,7)[OF inv, of q] by (cases "invitePartyList w q = []") (auto simp: party' invites' w' put_party_def setParty_def split: if_splits)
    qed simp
    then show ?thesis using run party'[of p] p by simp
  next
    case stays: False
    then have mem: "p \<in> set (memberList pt)" "leader pt \<noteq> p" using p missing by (auto simp: roster_def)
    have r: "set (roster ?pt) = set (roster pt) - {p}" using mem by (auto simp: roster_def rem)
    have shape: "party_shape ?pt"
      using sh stays r by (auto simp: party_shape_def roster_def rem)
    have "party_inv ?w2"
    proof (rule party_inv_local[OF inv, where a = a and x = "Some ?pt'"])
      show "parties ?w2 = (parties w)(a := Some ?pt')" by (simp add: put_party_def setParty_def)
      show "playerParty ?w2 q = Some b \<longleftrightarrow> (if b = a then \<exists>pt'. Some ?pt' = Some pt' \<and> q \<in> set (roster pt') else playerParty w q = Some b)" for q b
        using here[of q] here[of p] p by (cases "q = p") (auto simp: put_party_def setParty_def r)
      show "b \<in> set (invitePartyList ?w2 q) \<longleftrightarrow> (if b = a then \<exists>pt'. Some ?pt' = Some pt' \<and> q \<in> set (inviteList pt') else b \<in> set (invitePartyList w q))" for q b
        using invited[of q] by (simp add: put_party_def setParty_def)
      show "distinct (invitePartyList ?w2 q)" for q using party_invD(5)[OF inv] by (simp add: put_party_def setParty_def)
      show "party_shape pt' \<and> a < nextParty ?w2" if "Some ?pt' = Some pt'" for pt'
        using that shape party_invD(4)[OF inv a] by (auto simp: put_party_def setParty_def)
      show "nextParty w \<le> nextParty ?w2" by (simp add: put_party_def setParty_def)
      show "online ?w2 q" if "playerParty ?w2 q \<noteq> None \<or> invitePartyList ?w2 q \<noteq> []" for q
        using that party_invD(6,7)[OF inv, of q] by (auto simp: put_party_def setParty_def split: if_splits)
    qed
    moreover have "playerParty ?w2 p = None" by (simp add: put_party_def setParty_def)
    moreover have "finish_leave ev a p missing w = Some (True, ?w2)"
      using stays a by (auto simp: finish_leave_def Let_def party_empty_def)
    ultimately show ?thesis by blast
  qed
qed

lemma leaveParty_inv:
  assumes inv: "party_inv w" and a: "parties w a = Some pt" and ev: "onDisband ev a"
  shows "\<exists>b w'. leaveParty ev a p w = Some (b, w') \<and> party_inv w' \<and>
    (onLeave ev a p \<longrightarrow> playerParty w p = Some a \<longrightarrow> playerParty w' p = None)"
proof -
  have sh: "party_shape pt" by (rule party_invD(3)[OF inv a])
  have here: "playerParty w q = Some a \<longleftrightarrow> q \<in> set (roster pt)" for q
    using party_invD(1)[OF inv, of q a] a by simp
  consider "p \<notin> set (roster pt) \<or> \<not> onLeave ev a p"
    | "onLeave ev a p" "leader pt = p" "memberList pt \<noteq> []" "\<not> (length (memberList pt) = 1 \<and> inviteList pt = [])"
    | "onLeave ev a p" "leader pt = p" "memberList pt = [] \<or> length (memberList pt) = 1 \<and> inviteList pt = []"
    | "onLeave ev a p" "leader pt \<noteq> p" "p \<in> set (roster pt)" by blast
  then show ?thesis
  proof cases
    case 1
    then show ?thesis using inv a here[of p] by (auto simp: leaveParty_def roster_def)
  next
    case 2
    obtain m ms where ms: "memberList pt = m # ms" using 2(3) by (cases "memberList pt") auto
    have m: "playerParty w m = Some a" "leader pt \<noteq> m" using here[of m] sh by (auto simp: roster_def ms party_shape_def)
    let ?pt1 = "updateSharedExperience w (pt\<lparr>memberList := leader pt # remove1 m (memberList pt), leader := m\<rparr>)"
    have pass: "passPartyLeadership a m w = Some (True, put_party a ?pt1 w)"
      using m a by (simp add: passPartyLeadership_def Let_def)
    have "party_inv (put_party a ?pt1 w)" using passPartyLeadership_inv[OF inv a, of m] pass by simp
    moreover have "parties (put_party a ?pt1 w) a = Some ?pt1" by (simp add: put_party_def)
    moreover have "p \<in> set (roster ?pt1)" using 2(2) by (simp add: roster_def)
    moreover have "False \<longleftrightarrow> leader ?pt1 = p" using m(2) 2(2) by simp
    ultimately obtain w' where "finish_leave ev a p False (put_party a ?pt1 w) = Some (True, w')" "party_inv w'" "playerParty w' p = None"
      using finish_leave_inv[of "put_party a ?pt1 w" a ?pt1 p False ev] ev by blast
    then show ?thesis using 2 a pass by (auto simp: leaveParty_def ms)
  next
    case 3
    obtain w' where "finish_leave ev a p True w = Some (True, w')" "party_inv w'" "playerParty w' p = None"
      using finish_leave_inv[OF inv a, of p True ev] 3(2) ev by (auto simp: roster_def)
    then show ?thesis using 3 a by (auto simp: leaveParty_def)
  next
    case 4
    obtain w' where "finish_leave ev a p False w = Some (True, w')" "party_inv w'" "playerParty w' p = None"
      using finish_leave_inv[OF inv a 4(3), of False ev] 4(2) ev by auto
    then show ?thesis using 4 a here[of p] by (auto simp: leaveParty_def)
  qed
qed

lemma removeInvite_inv:
  assumes inv: "party_inv w" and a: "parties w a = Some pt" and ev: "onDisband ev a"
  shows "\<exists>b w'. removeInvite ev a p True w = Some (b, w') \<and> party_inv w'"
proof (cases "p \<in> set (inviteList pt)")
  case False
  then show ?thesis using inv a by (auto simp: removeInvite_def)
next
  case True
  let ?pt = "pt\<lparr>inviteList := remove1 p (inviteList pt)\<rparr>"
  let ?w = "removePartyInvitation p a (put_party a ?pt w)"
  have sh: "party_shape pt" by (rule party_invD(3)[OF inv a])
  have rem: "set (remove1 p (inviteList pt)) = set (inviteList pt) - {p}" using sh by (simp add: party_shape_def)
  have r: "roster ?pt = roster pt" by (simp add: roster_def)
  have here: "playerParty w q = Some a \<longleftrightarrow> q \<in> set (roster pt)" for q
    using party_invD(1)[OF inv, of q a] a by simp
  have invited: "a \<in> set (invitePartyList w q) \<longleftrightarrow> q \<in> set (inviteList pt)" for q
    using party_invD(2)[OF inv, of a q] a by simp
  have on: "online w q" if "playerParty w q \<noteq> None \<or> removeAll a (invitePartyList w q) \<noteq> [] \<or> invitePartyList w q \<noteq> []" for q
    using that party_invD(6,7)[OF inv, of q] by (cases "invitePartyList w q = []") auto
  show ?thesis
  proof (cases "party_empty ?pt")
    case gone: True
    have single: "roster pt = [leader pt]" "inviteList ?pt = []" "set (inviteList pt) = {p}"
      using gone rem True by (auto simp: party_empty_def roster_def)
    obtain w' where w': "w' = ?w\<lparr>playerParty := \<lambda>q. if q \<in> set (roster ?pt) then None else playerParty ?w q,
       invitePartyList := \<lambda>q. if q \<in> set (inviteList ?pt) then removeAll a (invitePartyList ?w q) else invitePartyList ?w q,
       parties := (parties ?w)(a := None)\<rparr>" by blast
    have "parties ?w a = Some ?pt" by (simp add: put_party_def removePartyInvitation_def)
    then have "disband ev a ?w = Some w'" unfolding w' by (rule disband_eq[OF _ ev])
    then have run: "removeInvite ev a p True w = Some (True, w')" using gone a True by (simp add: removeInvite_def Let_def)
    have party': "playerParty w' q = (if q \<in> set (roster pt) then None else playerParty w q)" for q
      unfolding w' r by (simp add: put_party_def removePartyInvitation_def)
    have invites': "invitePartyList w' q = (if q = p then removeAll a (invitePartyList w p) else invitePartyList w q)" for q
      unfolding w' single(2) by (simp add: put_party_def removePartyInvitation_def)
    have "party_inv w'"
    proof (rule party_inv_local[OF inv, where a = a and x = None])
      show "parties w' = (parties w)(a := None)" by (simp add: w' put_party_def removePartyInvitation_def)
      show "playerParty w' q = Some b \<longleftrightarrow> (if b = a then \<exists>pt'. None = Some pt' \<and> q \<in> set (roster pt') else playerParty w q = Some b)" for q b
        using here[of q] by (auto simp: party')
      show "b \<in> set (invitePartyList w' q) \<longleftrightarrow> (if b = a then \<exists>pt'. None = Some pt' \<and> q \<in> set (inviteList pt') else b \<in> set (invitePartyList w q))" for q b
        using invited[of q] single(3) by (auto simp: invites')
      show "distinct (invitePartyList w' q)" for q using party_invD(5)[OF inv] by (simp add: invites' distinct_removeAll)
      show "nextParty w \<le> nextParty w'" by (simp add: w' put_party_def removePartyInvitation_def)
      show "online w' q" if "playerParty w' q \<noteq> None \<or> invitePartyList w' q \<noteq> []" for q
        using that on[of q] by (auto simp: party' invites' w' put_party_def removePartyInvitation_def split: if_splits)
    qed simp
    then show ?thesis using run by blast
  next
    case stays: False
    have shape: "party_shape ?pt" using sh stays r rem by (auto simp: party_shape_def)
    have "party_inv ?w"
    proof (rule party_inv_local[OF inv, where a = a and x = "Some ?pt"])
      show "parties ?w = (parties w)(a := Some ?pt)" by (simp add: put_party_def removePartyInvitation_def)
      show "playerParty ?w q = Some b \<longleftrightarrow> (if b = a then \<exists>pt'. Some ?pt = Some pt' \<and> q \<in> set (roster pt') else playerParty w q = Some b)" for q b
        using here[of q] by (simp add: put_party_def removePartyInvitation_def r)
      show "b \<in> set (invitePartyList ?w q) \<longleftrightarrow> (if b = a then \<exists>pt'. Some ?pt = Some pt' \<and> q \<in> set (inviteList pt') else b \<in> set (invitePartyList w q))" for q b
        using invited[of q] rem by (auto simp: put_party_def removePartyInvitation_def)
      show "distinct (invitePartyList ?w q)" for q
        using party_invD(5)[OF inv] by (simp add: put_party_def removePartyInvitation_def distinct_removeAll)
      show "party_shape pt' \<and> a < nextParty ?w" if "Some ?pt = Some pt'" for pt'
        using that shape party_invD(4)[OF inv a] by (auto simp: put_party_def removePartyInvitation_def)
      show "nextParty w \<le> nextParty ?w" by (simp add: put_party_def removePartyInvitation_def)
      show "online ?w q" if "playerParty ?w q \<noteq> None \<or> invitePartyList ?w q \<noteq> []" for q
        using that on[of q] by (auto simp: put_party_def removePartyInvitation_def split: if_splits)
    qed
    then show ?thesis using stays a True by (auto simp: removeInvite_def Let_def)
  qed
qed

text \<open>\<open>clearPartyInvitations\<close> leaves the player's own list as it is until the end; each step then corresponds to
  a step that also removes the invitation from the list.\<close>

definition with_invites :: "u32 \<Rightarrow> nat list \<Rightarrow> party_world \<Rightarrow> party_world" where
  "with_invites p as w = w\<lparr>invitePartyList := (invitePartyList w)(p := as)\<rparr>"

lemma removeInvite_keep_list:
  assumes "a \<notin> set as" "parties w a = Some pt" "p \<in> set (inviteList pt)" "onDisband ev a" "distinct (inviteList pt)"
  shows "removeInvite ev a p True (with_invites p (a # as) w) =
    map_option (\<lambda>(b, w'). (b, with_invites p as w')) (removeInvite ev a p False w)"
proof -
  let ?pt = "pt\<lparr>inviteList := remove1 p (inviteList pt)\<rparr>"
  let ?w = "put_party a ?pt w"
  have rm: "removeAll a as = as" using assms(1) by simp
  have swap: "removePartyInvitation p a (put_party a ?pt (with_invites p (a # as) w)) = with_invites p as ?w"
    by (simp add: removePartyInvitation_def put_party_def with_invites_def rm)
  have "disband ev a (with_invites p as ?w) = map_option (with_invites p as) (disband ev a ?w)" if "party_empty ?pt"
  proof -
    have none: "inviteList ?pt = []" using that by (simp add: party_empty_def)
    have "parties (with_invites p as ?w) a = Some ?pt" "parties ?w a = Some ?pt"
      by (simp_all add: with_invites_def put_party_def)
    then show ?thesis using disband_eq[of _ a ?pt ev] assms(4)
      by (simp add: none with_invites_def put_party_def cong: if_cong)
  qed
  then show ?thesis using assms(2,3) swap
    by (auto simp: removeInvite_def Let_def with_invites_def[of p "a # as"] option.map_comp comp_def)
qed

definition scripts_allow :: "party_events \<Rightarrow> bool" where
  "scripts_allow ev \<longleftrightarrow> (\<forall>a. onDisband ev a) \<and> (\<forall>a p. onLeave ev a p)"

lemma clear_invitations_inv:
  assumes "scripts_allow ev" "party_inv (with_invites p as w)"
  shows "\<exists>w'. clear_invitations ev p as w = Some w' \<and> party_inv (with_invites p [] w')"
  using assms(2)
proof (induction as arbitrary: w)
  case (Cons a as)
  let ?w = "with_invites p (a # as) w"
  have d: "a \<notin> set as" using party_invD(5)[OF Cons.prems, of p] by (simp add: with_invites_def)
  obtain pt where pt: "parties w a = Some pt" "p \<in> set (inviteList pt)"
    using party_invD(2)[OF Cons.prems, of a p] by (auto simp: with_invites_def)
  have ptw: "parties ?w a = Some pt" using pt(1) by (simp add: with_invites_def)
  have ev: "onDisband ev a" using assms(1) by (simp add: scripts_allow_def)
  have "distinct (inviteList pt)" using party_invD(3)[OF Cons.prems ptw] by (simp add: party_shape_def)
  note swap = removeInvite_keep_list[OF d pt ev this]
  obtain b w1 where "removeInvite ev a p True ?w = Some (b, w1)" "party_inv w1"
    using removeInvite_inv[OF Cons.prems ptw ev, of p] by blast
  then obtain w2 where w2: "removeInvite ev a p False w = Some (b, w2)" "party_inv (with_invites p as w2)"
    using swap by (auto split: prod.splits)
  then show ?case using Cons.IH[OF w2(2)] by simp
qed (simp add: with_invites_def)

lemma clearPartyInvitations_inv:
  assumes "scripts_allow ev" "party_inv w"
  shows "\<exists>w'. clearPartyInvitations ev p w = Some w' \<and> party_inv w' \<and> invitePartyList w' p = []"
proof -
  have "with_invites p (invitePartyList w p) w = w" by (simp add: with_invites_def)
  then obtain w' where "clear_invitations ev p (invitePartyList w p) w = Some w'" "party_inv (with_invites p [] w')"
    using clear_invitations_inv[OF assms(1), of p "invitePartyList w p" w] assms(2) by auto
  then show ?thesis by (simp add: clearPartyInvitations_def with_invites_def)
qed

lemma leaveParty_keeps_invites:
  assumes inv: "party_inv w" and a: "parties w a = Some pt" and ev: "onDisband ev a" and run: "leaveParty ev a p w = Some (b, w')"
    and none: "invitePartyList w p = []"
  shows "invitePartyList w' p = []"
proof -
  have fin: "invitePartyList v' r = []" if "finish_leave ev a q m v = Some (c, v')" "invitePartyList v r = []" for m v c v' q r
    using that by (auto simp: finish_leave_def disband_def Let_def fold_setParty fold_removePartyInvitation setParty_def put_party_def split: option.splits if_splits)
  have pass: "invitePartyList v' r = []" if "passPartyLeadership a m v = Some (c, v')" "invitePartyList v r = []" for m v c v' r
    using that by (auto simp: passPartyLeadership_def Let_def put_party_def split: option.splits if_splits)
  show ?thesis using run none a
    by (auto simp: leaveParty_def bind_eq_Some_conv split: if_splits dest: fin pass)
qed

lemma party_inv_offline:
  assumes "party_inv w" "playerParty w p = None" "invitePartyList w p = []"
  shows "party_inv (w\<lparr>online := (online w)(p := False)\<rparr>)"
  unfolding party_inv_def using party_invD[OF assms(1)] assms(2,3) by (simp del: not_None_eq) metis

lemma player_logout_inv:
  assumes allow: "scripts_allow ev" and inv: "party_inv w"
  shows "\<exists>w'. player_logout ev p w = Some w' \<and> party_inv w' \<and> playerParty w' p = None \<and> invitePartyList w' p = []"
proof -
  obtain w1 where w1: "clearPartyInvitations ev p w = Some w1" "party_inv w1" "invitePartyList w1 p = []"
    using clearPartyInvitations_inv[OF allow inv] by blast
  show ?thesis
  proof (cases "playerParty w1 p")
    case None
    then show ?thesis using w1 party_inv_offline[OF w1(2) None w1(3)] by (simp add: player_logout_def)
  next
    case (Some a)
    obtain pt where pt: "parties w1 a = Some pt" using party_invD(1)[OF w1(2), of p a] Some by blast
    have ev: "onDisband ev a" "onLeave ev a p" using allow by (auto simp: scripts_allow_def)
    obtain b w2 where w2: "leaveParty ev a p w1 = Some (b, w2)" "party_inv w2" "playerParty w2 p = None"
      using leaveParty_inv[OF w1(2) pt ev(1), of p] ev(2) Some by blast
    have "invitePartyList w2 p = []" by (rule leaveParty_keeps_invites[OF w1(2) pt ev(1) w2(1) w1(3)])
    then show ?thesis using w1(1) w2 Some party_inv_offline[OF w2(2,3)] by (simp add: player_logout_def)
  qed
qed

section \<open>Requests\<close>

text \<open>Everything that reaches the party system: the requests of clients, fight ticks, login and logout.\<close>

datatype party_request =
    Invite u32 u32 | Join u32 u32 | Revoke u32 u32 | PassLeadership u32 u32 | Leave u32
  | ShareExperience u32 bool | FightTick u32 u32 | Login u32 | Logout u32

definition fight_tick :: "u32 \<Rightarrow> u32 \<Rightarrow> party_world \<Rightarrow> party_world option" where
  "fight_tick p points w =
     (case playerParty w p of
        None \<Rightarrow> Some w
      | Some a \<Rightarrow> map_option (\<lambda>pt. put_party a (updatePlayerTicks w p points pt) w) (parties w a))"

fun handle_request :: "party_events \<Rightarrow> party_request \<Rightarrow> party_world \<Rightarrow> party_world option" where
  "handle_request ev (Invite p q) w = playerInviteToParty p q w"
| "handle_request ev (Join p l) w = playerJoinParty ev p l w"
| "handle_request ev (Revoke p q) w = playerRevokePartyInvitation ev p q w"
| "handle_request ev (PassLeadership p q) w = playerPassPartyLeadership p q w"
| "handle_request ev (Leave p) w = playerLeaveParty ev p w"
| "handle_request ev (ShareExperience p b) w = playerEnableSharedPartyExperience p b w"
| "handle_request ev (FightTick p n) w = fight_tick p n w"
| "handle_request ev (Login p) w = Some (w\<lparr>online := (online w)(p := True)\<rparr>)"
| "handle_request ev (Logout p) w = player_logout ev p w"

fun run_requests :: "party_events \<Rightarrow> party_request list \<Rightarrow> party_world \<Rightarrow> party_world option" where
  "run_requests ev [] w = Some w"
| "run_requests ev (r # rs) w = Option.bind (handle_request ev r w) (run_requests ev rs)"

lemma put_same_roster:
  assumes inv: "party_inv w" and a: "parties w a = Some pt"
    and same: "roster pt' = roster pt" "inviteList pt' = inviteList pt" "party_shape pt' = party_shape pt"
  shows "party_inv (put_party a pt' w)"
proof (rule party_inv_local[OF inv, where a = a and x = "Some pt'"])
  show "playerParty (put_party a pt' w) p = Some b \<longleftrightarrow>
    (if b = a then \<exists>q. Some pt' = Some q \<and> p \<in> set (roster q) else playerParty w p = Some b)" for p b
    using party_invD(1)[OF inv, of p b] a same by (auto simp: put_party_def)
  show "b \<in> set (invitePartyList (put_party a pt' w) p) \<longleftrightarrow>
    (if b = a then \<exists>q. Some pt' = Some q \<and> p \<in> set (inviteList q) else b \<in> set (invitePartyList w p))" for p b
    using party_invD(2)[OF inv, of b p] a same by (auto simp: put_party_def)
  show "online (put_party a pt' w) p" if "playerParty (put_party a pt' w) p \<noteq> None \<or> invitePartyList (put_party a pt' w) p \<noteq> []" for p
    using that party_invD(6,7)[OF inv, of p] by (auto simp: put_party_def)
qed (use party_invD(3-5)[OF inv] a same in \<open>auto simp: put_party_def\<close>)

lemma isInviting_total:
  assumes "party_inv w"
  shows "\<exists>b. isInviting p q w = Some b"
proof (cases "playerParty w p")
  case (Some a)
  then show ?thesis using party_invD(1)[OF assms, of p a] by (auto simp: isInviting_def)
qed (auto simp: isInviting_def)

lemma member_party:
  assumes "party_inv w" "playerParty w p = Some a"
  obtains pt where "parties w a = Some pt"
  using party_invD(1)[OF assms(1), of p a] assms(2) by blast

lemma playerInviteToParty_inv:
  assumes inv: "party_inv w"
  shows "\<exists>w'. playerInviteToParty p q w = Some w' \<and> party_inv w'"
proof -
  obtain b where b: "isInviting q p w = Some b" using isInviting_total[OF inv] by blast
  show ?thesis
  proof (cases "p = q \<or> \<not> online w p \<or> \<not> online w q \<or> b \<or> playerParty w q \<noteq> None")
    case True
    then show ?thesis using inv b by (auto simp: playerInviteToParty_def)
  next
    case False
    then have go: "p \<noteq> q" "online w p" "online w q" "\<not> b" "playerParty w q = None" by auto
    show ?thesis
    proof (cases "playerParty w p")
      case None
      obtain a w1 where "new_party p w = (a, w1)" by (cases "new_party p w")
      then show ?thesis using go b None new_party_invite_inv[OF inv None go(2) go(5,3), of a w1]
        by (auto simp: playerInviteToParty_def)
    next
      case (Some a)
      obtain pt where pt: "parties w a = Some pt" using member_party[OF inv Some] .
      then show ?thesis using go b Some inv invitePlayer_inv[OF inv pt go(5,3)]
        by (auto simp: playerInviteToParty_def)
    qed
  qed
qed

lemma handle_request_inv:
  assumes allow: "scripts_allow ev" and inv: "party_inv w"
  shows "\<exists>w'. handle_request ev r w = Some w' \<and> party_inv w'"
proof -
  have disb: "onDisband ev a" for a using allow by (simp add: scripts_allow_def)
  show ?thesis
  proof (cases r)
    case (Invite p q)
    then show ?thesis using playerInviteToParty_inv[OF inv] by simp
  next
    case (Join p l)
    obtain b where b: "isInviting l p w = Some b" using isInviting_total[OF inv] by blast
    show ?thesis
    proof (cases "playerParty w l")
      case None
      then show ?thesis using Join inv b by (auto simp: playerJoinParty_def)
    next
      case (Some a)
      obtain pt where "parties w a = Some pt" using member_party[OF inv Some] .
      then show ?thesis using Join inv b Some joinParty_inv[OF inv, of a pt p ev] by (auto simp: playerJoinParty_def)
    qed
  next
    case (Revoke p q)
    obtain b where b: "isInviting p q w = Some b" using isInviting_total[OF inv] by blast
    show ?thesis
    proof (cases "playerParty w p")
      case (Some a)
      obtain pt where "parties w a = Some pt" using member_party[OF inv Some] .
      then show ?thesis using Revoke inv b Some removeInvite_inv[OF inv _ disb, of a pt q]
        by (auto simp: playerRevokePartyInvitation_def revokeInvitation_def)
    qed (use Revoke inv in \<open>auto simp: playerRevokePartyInvitation_def\<close>)
  next
    case (PassLeadership p q)
    show ?thesis
    proof (cases "playerParty w p")
      case (Some a)
      obtain pt where "parties w a = Some pt" using member_party[OF inv Some] .
      then show ?thesis using PassLeadership inv Some passPartyLeadership_inv[OF inv, of a pt q]
        by (auto simp: playerPassPartyLeadership_def)
    qed (use PassLeadership inv in \<open>auto simp: playerPassPartyLeadership_def\<close>)
  next
    case (Leave p)
    show ?thesis
    proof (cases "playerParty w p")
      case (Some a)
      obtain pt where "parties w a = Some pt" using member_party[OF inv Some] .
      then show ?thesis using Leave inv Some leaveParty_inv[OF inv _ disb, of a pt p]
        by (auto simp: playerLeaveParty_def)
    qed (use Leave inv in \<open>auto simp: playerLeaveParty_def\<close>)
  next
    case (ShareExperience p c)
    show ?thesis
    proof (cases "playerParty w p")
      case (Some a)
      obtain pt where pt: "parties w a = Some pt" using member_party[OF inv Some] .
      then show ?thesis using ShareExperience inv Some put_same_roster[OF inv pt, of "snd (setSharedExperience w p c pt)"]
        by (auto simp: playerEnableSharedPartyExperience_def)
    qed (use ShareExperience inv in \<open>auto simp: playerEnableSharedPartyExperience_def\<close>)
  next
    case (FightTick p n)
    show ?thesis
    proof (cases "playerParty w p")
      case (Some a)
      obtain pt where pt: "parties w a = Some pt" using member_party[OF inv Some] .
      then show ?thesis using FightTick inv Some put_same_roster[OF inv pt, of "updatePlayerTicks w p n pt"]
        by (auto simp: fight_tick_def)
    qed (use FightTick inv in \<open>auto simp: fight_tick_def\<close>)
  next
    case (Login p)
    then show ?thesis using inv by (auto simp: party_inv_def)
  next
    case (Logout p)
    then show ?thesis using player_logout_inv[OF allow inv] by auto
  qed
qed

lemma run_requests_inv:
  assumes "scripts_allow ev" "party_inv w"
  shows "\<exists>w'. run_requests ev rs w = Some w' \<and> party_inv w'"
  using assms(2)
proof (induction rs arbitrary: w)
  case (Cons r rs)
  then show ?case using handle_request_inv[OF assms(1) Cons.prems, of r] by auto
qed simp

section \<open>Shared experience\<close>

lemma fold_max_level:
  "fold (\<lambda>m h. if f m > h then f m else h) ms (h::nat) = Max (insert h (f ` set ms))"
proof (induction ms arbitrary: h)
  case (Cons m ms)
  have "Max (insert h (f ` set (m # ms))) = max (f m) (Max (insert h (f ` set ms)))"
    by (simp add: insert_commute[of h])
  also have "\<dots> = Max (insert (max h (f m)) (f ` set ms))"
    by (cases "ms = []") (auto simp: max.left_commute max.commute)
  finally show ?case by (simp add: Cons.IH max_def)
qed simp

lemma minSharedLevel_le_iff: "minSharedLevel h \<le> n \<longleftrightarrow> 2 * h \<le> 3 * n"
  by (auto simp: minSharedLevel_def)

section \<open>Properties\<close>

definition empty_world :: "party_world \<Rightarrow> bool" where
  "empty_world w \<longleftrightarrow> parties w = Map.empty \<and> playerParty w = (\<lambda>_. None) \<and> invitePartyList w = (\<lambda>_. [])"

lemma empty_world_inv: "empty_world w \<Longrightarrow> party_inv w"
  by (simp add: empty_world_def party_inv_def)

text \<open>C2: Whatever sequence of party requests, fight ticks, logins and logouts arrives, when the scripts veto
  neither leaving nor disbanding, no operation touches a party that was deleted, and afterwards a player
  points to a party exactly when that party lists it, holds an invitation exactly when that party
  lists the invitation, no player is listed twice, and every party has a second member or an invitation.\<close>

theorem party_requests_consistent:
  assumes "empty_world w" "scripts_allow ev"
  shows "\<exists>w'. run_requests ev rs w = Some w' \<and>
    (\<forall>p a. playerParty w' p = Some a \<longleftrightarrow> (\<exists>pt. parties w' a = Some pt \<and> p \<in> set (leader pt # memberList pt))) \<and>
    (\<forall>p a. a \<in> set (invitePartyList w' p) \<longleftrightarrow> (\<exists>pt. parties w' a = Some pt \<and> p \<in> set (inviteList pt))) \<and>
    (\<forall>a pt. parties w' a = Some pt \<longrightarrow> distinct (leader pt # memberList pt @ inviteList pt) \<and> \<not> party_empty pt) \<and>
    (\<forall>p. playerParty w' p \<noteq> None \<longrightarrow> online w' p)"
proof -
  obtain w' where run: "run_requests ev rs w = Some w'" and inv: "party_inv w'"
    using run_requests_inv[OF assms(2) empty_world_inv[OF assms(1)]] by blast
  have "distinct (leader pt # memberList pt @ inviteList pt) \<and> \<not> party_empty pt" if "parties w' a = Some pt" for a pt
    using party_invD(3)[OF inv that] by (auto simp: party_shape_def roster_def)
  then show ?thesis using run party_invD(1,2,6)[OF inv] unfolding roster_def by blast
qed

definition sample_world :: party_world where
  "sample_world =
     \<lparr>online = (\<lambda>_. True), playerLevel = (\<lambda>_. 10), playerPosition = (\<lambda>_. origin), notGainInFight = (\<lambda>_. False),
      inFight = (\<lambda>_. False), inProtectionZone = (\<lambda>_. True), playerParty = (\<lambda>_. None), invitePartyList = (\<lambda>_. []),
      parties = Map.empty, nextParty = 0, now = 0, pzLocked = 60000\<rparr>"

definition default_events :: party_events where
  "default_events = \<lparr>onJoin = (\<lambda>_ _. True), onLeave = (\<lambda>_ _. True), onDisband = (\<lambda>_. True)\<rparr>"

theorem party_requests_consistent_witness:
  "empty_world sample_world \<and> scripts_allow default_events \<and>
   (\<exists>w'. run_requests default_events [Invite 1 2, Join 2 1, Leave 1] sample_world = Some w' \<and>
      (\<forall>p. playerParty w' p \<noteq> None \<longrightarrow> online w' p))"
proof -
  have "empty_world sample_world" "scripts_allow default_events"
    by (simp_all add: empty_world_def sample_world_def scripts_allow_def default_events_def)
  then show ?thesis using party_requests_consistent[of sample_world default_events "[Invite 1 2, Join 2 1, Leave 1]"] by blast
qed

text \<open>When the leader leaves a party with further members, the first member becomes the leader, the
  order of the others is kept, and the old leader belongs to no party, unless nobody but that member
  would be left and nobody is invited.\<close>

theorem leader_leaves_passes_on:
  assumes "party_inv w" "parties w a = Some pt" "memberList pt = m # ms" "ms \<noteq> [] \<or> inviteList pt \<noteq> []"
    "onLeave ev a (leader pt)"
  shows "\<exists>w' pt'. leaveParty ev a (leader pt) w = Some (True, w') \<and> parties w' a = Some pt' \<and>
    leader pt' = m \<and> memberList pt' = ms \<and> inviteList pt' = inviteList pt \<and> playerParty w' (leader pt) = None"
proof -
  have sh: "distinct (leader pt # m # ms)" using party_invD(3)[OF assms(1,2)] by (simp add: party_shape_def roster_def assms(3))
  have m: "playerParty w m = Some a" using party_invD(1)[OF assms(1), of m a] assms(2,3) by (simp add: roster_def)
  have l: "playerParty w (leader pt) = Some a" using party_invD(1)[OF assms(1), of "leader pt" a] assms(2) by (simp add: roster_def)
  have "\<not> (length (m # ms) = 1 \<and> inviteList pt = [])" using assms(4) by auto
  then show ?thesis using assms(2,3,5) sh m l assms(4)
    by (auto simp: leaveParty_def passPartyLeadership_def finish_leave_def Let_def put_party_def setParty_def party_empty_def remove1_idem)
qed

theorem leader_leaves_passes_on_witness:
  "\<exists>w pt w' pt'. run_requests default_events [Invite 1 2, Join 2 1, Invite 1 3] sample_world = Some w \<and>
     parties w 0 = Some pt \<and> leader pt = 1 \<and> leaveParty default_events 0 1 w = Some (True, w') \<and>
     parties w' 0 = Some pt' \<and> leader pt' = 2"
proof -
  obtain w where run: "run_requests default_events [Invite 1 2, Join 2 1, Invite 1 3] sample_world = Some w" and inv: "party_inv w"
    using run_requests_inv[of default_events sample_world "[Invite 1 2, Join 2 1, Invite 1 3]"] empty_world_inv[of sample_world]
    by (auto simp: empty_world_def sample_world_def scripts_allow_def default_events_def)
  have pt: "\<exists>pt. parties w 0 = Some pt \<and> leader pt = 1 \<and> memberList pt = [2] \<and> inviteList pt = [3]"
    using run
    by (auto simp: sample_world_def default_events_def playerInviteToParty_def playerJoinParty_def isInviting_def new_party_def
        invitePlayer_def joinParty_def setParty_def put_party_def addPartyInvitation_def removePartyInvitation_def isPlayerInvited_def Let_def)
  then obtain pt where pt: "parties w 0 = Some pt" "leader pt = 1" "memberList pt = [2]" "inviteList pt = [3]" by blast
  then show ?thesis using leader_leaves_passes_on[OF inv pt(1,3), of default_events] run by (auto simp: default_events_def)
qed

text \<open>Shared experience can be enabled exactly when the party has members and each of them, leader
  included, has at least two thirds of the level of every other, is in range of the leader and has fought
  recently enough.\<close>

theorem shared_experience_levels:
  "canEnableSharedExperience w pt \<longleftrightarrow>
     memberList pt \<noteq> [] \<and>
     (\<forall>p \<in> set (roster pt).
        (\<forall>q \<in> set (roster pt). 2 * playerLevel w q \<le> 3 * playerLevel w p) \<and>
        areInRange3 30 30 1 (playerPosition w (leader pt)) (playerPosition w p) \<and>
        (notGainInFight w p \<or> (\<exists>t. ticksMap pt p = Some t \<and> (word_of_int (now w - t) :: u64) \<le> pzLocked w)))"
proof -
  have top: "highestLevel w pt = Max (playerLevel w ` set (roster pt))"
    by (simp add: highestLevel_def fold_max_level roster_def)
  have "minSharedLevel (highestLevel w pt) \<le> n \<longleftrightarrow> (\<forall>q \<in> set (roster pt). 2 * playerLevel w q \<le> 3 * n)" for n
  proof -
    have "2 * Max (playerLevel w ` set (roster pt)) \<le> 3 * n \<longleftrightarrow> (\<forall>q \<in> set (roster pt). 2 * playerLevel w q \<le> 3 * n)"
    proof -
      have ne: "playerLevel w ` set (roster pt) \<noteq> {}" by (simp add: roster_def)
      have "2 * x \<le> 3 * n \<longleftrightarrow> x \<le> 3 * n div 2" for x by linarith
      then show ?thesis using ne by simp
    qed
    then show ?thesis by (simp add: minSharedLevel_le_iff top)
  qed
  then have "canUseSharedExperience w pt p \<longleftrightarrow> memberList pt \<noteq> [] \<and>
     (\<forall>q \<in> set (roster pt). 2 * playerLevel w q \<le> 3 * playerLevel w p) \<and>
     areInRange3 30 30 1 (playerPosition w (leader pt)) (playerPosition w p) \<and>
     (notGainInFight w p \<or> (\<exists>t. ticksMap pt p = Some t \<and> (word_of_int (now w - t) :: u64) \<le> pzLocked w))" for p
    by (auto simp: canUseSharedExperience_def split: option.splits)
  then show ?thesis by (auto simp: canEnableSharedExperience_def list_all_iff roster_def)
qed

definition sample_party :: party where
  "sample_party = \<lparr>leader = 1, memberList = [2], inviteList = [], ticksMap = [1 \<mapsto> 0, 2 \<mapsto> 0],
     sharedExpActive = True, sharedExpEnabled = False\<rparr>"

theorem shared_experience_levels_witness:
  "canEnableSharedExperience sample_world sample_party \<and>
   \<not> canEnableSharedExperience (sample_world\<lparr>playerLevel := (\<lambda>p. if p = 1 then 10 else 6)\<rparr>) sample_party"
proof -
  have "areInRange3 30 30 1 origin origin" by code_simp
  then show ?thesis unfolding shared_experience_levels
    by (simp add: sample_world_def sample_party_def roster_def)
qed

text \<open>C36: When a script vetoes the disbanding, a leader that leaves a party without members is left out of it
  by its own pointer while the party stays alive and still names it as leader, so that the party keeps
  a pointer to a player that may log out and be freed.\<close>

theorem disband_veto_orphans_leader:
  assumes "party_inv w" "parties w a = Some pt" "memberList pt = []" "onLeave ev a (leader pt)" "\<not> onDisband ev a"
  shows "\<exists>w' pt'. leaveParty ev a (leader pt) w = Some (True, w') \<and> parties w' a = Some pt' \<and>
    leader pt' = leader pt \<and> playerParty w' (leader pt) = None"
  using assms(2-5) by (simp add: leaveParty_def finish_leave_def disband_def Let_def put_party_def setParty_def)

theorem disband_veto_orphans_leader_witness:
  "\<exists>w w' pt'. run_requests default_events [Invite 1 2] sample_world = Some w \<and>
     leaveParty (default_events\<lparr>onDisband := \<lambda>_. False\<rparr>) 0 1 w = Some (True, w') \<and> parties w' 0 = Some pt' \<and>
     leader pt' = 1 \<and> playerParty w' 1 = None"
proof -
  obtain w where run: "run_requests default_events [Invite 1 2] sample_world = Some w" and inv: "party_inv w"
    using run_requests_inv[of default_events sample_world "[Invite 1 2]"] empty_world_inv[of sample_world]
    by (auto simp: empty_world_def sample_world_def scripts_allow_def default_events_def)
  have pt: "\<exists>pt. parties w 0 = Some pt \<and> leader pt = 1 \<and> memberList pt = []"
    using run
    by (auto simp: sample_world_def default_events_def playerInviteToParty_def isInviting_def new_party_def
        invitePlayer_def setParty_def put_party_def addPartyInvitation_def isPlayerInvited_def Let_def)
  then obtain pt where "parties w 0 = Some pt" "leader pt = 1" "memberList pt = []" by blast
  then show ?thesis using disband_veto_orphans_leader[OF inv, of 0 pt "default_events\<lparr>onDisband := \<lambda>_. False\<rparr>"] run
    by (auto simp: default_events_def)
qed

end
