(* ===== verification/Task_Dispatcher.thy ===== *)
theory Task_Dispatcher
  imports Server_Prelude
begin

text \<open>
  \<open>Task\<close> and \<open>Dispatcher\<close> (\<open>src/src/tasks.h\<close>, \<open>tasks.cpp\<close>) with the thread states of \<open>ThreadHolder\<close>
  (\<open>thread_holder_base.h\<close>, \<open>enums.h\<close>): the queue through which every request and every timer of the server reaches
  the one thread that owns the game state. Time points are milliseconds since the epoch as integers;
  a closure is a number, and running it appends the number to \<open>executed\<close>. The mutex makes each operation
  below one atomic step.
\<close>

datatype ThreadState = THREAD_STATE_RUNNING | THREAD_STATE_CLOSING | THREAD_STATE_TERMINATED

definition DISPATCHER_TASK_EXPIRATION :: int where
  "DISPATCHER_TASK_EXPIRATION = 2000"

definition SYSTEM_TIME_ZERO :: int where
  "SYSTEM_TIME_ZERO = 0"

text \<open>The closure of \<open>Dispatcher::shutdown\<close> is told apart from the closures of the game.\<close>

datatype task_func = Run nat | Terminate

record task =
  expiration :: int
  func :: task_func

definition createTask :: "task_func \<Rightarrow> task" where
  "createTask f = \<lparr>expiration = SYSTEM_TIME_ZERO, func = f\<rparr>"

definition createTask_expiring :: "u32 \<Rightarrow> task_func \<Rightarrow> int \<Rightarrow> task" where
  "createTask_expiring ms f now = \<lparr>expiration = now + int (unat ms), func = f\<rparr>"

definition setDontExpire :: "task \<Rightarrow> task" where
  "setDontExpire t = t\<lparr>expiration := SYSTEM_TIME_ZERO\<rparr>"

definition hasExpired :: "int \<Rightarrow> task \<Rightarrow> bool" where
  "hasExpired now t \<longleftrightarrow> expiration t \<noteq> SYSTEM_TIME_ZERO \<and> expiration t < now"

record dispatcher =
  threadState :: ThreadState
  taskList :: "task list"
  dispatcherCycle :: u64
  executed :: "nat list"

definition addTask :: "task \<Rightarrow> bool \<Rightarrow> dispatcher \<Rightarrow> dispatcher" where
  "addTask task push_front d =
     (if threadState d = THREAD_STATE_RUNNING then
        if push_front then d\<lparr>taskList := task # taskList d\<rparr> else d\<lparr>taskList := taskList d @ [task]\<rparr>
      else d)"

definition dispatcher_shutdown :: "dispatcher \<Rightarrow> dispatcher" where
  "dispatcher_shutdown d = d\<lparr>taskList := taskList d @ [createTask Terminate]\<rparr>"

fun execute :: "task_func \<Rightarrow> dispatcher \<Rightarrow> dispatcher" where
  "execute (Run f) d = d\<lparr>executed := executed d @ [f]\<rparr>"
| "execute Terminate d = d\<lparr>threadState := THREAD_STATE_TERMINATED\<rparr>"

text \<open>One round of \<open>Dispatcher::threadMain\<close> at time \<open>now\<close>; a round with an empty list waits.\<close>

definition dispatcher_round :: "int \<Rightarrow> dispatcher \<Rightarrow> dispatcher" where
  "dispatcher_round now d =
     (if threadState d = THREAD_STATE_TERMINATED then d
      else case taskList d of
             [] \<Rightarrow> d
           | task # rest \<Rightarrow>
               let d = d\<lparr>taskList := rest\<rparr>
               in if \<not> hasExpired now task
                  then execute (func task) (d\<lparr>dispatcherCycle := dispatcherCycle d + 1\<rparr>)
                  else d)"

text \<open>The rounds at a sequence of times.\<close>

fun dispatcher_rounds :: "int list \<Rightarrow> dispatcher \<Rightarrow> dispatcher" where
  "dispatcher_rounds [] d = d"
| "dispatcher_rounds (now # nows) d = dispatcher_rounds nows (dispatcher_round now d)"

section \<open>Lemmas\<close>

fun closures :: "(int \<times> task) list \<Rightarrow> nat list" where
  "closures [] = []"
| "closures ((now, t) # ts) =
     (if hasExpired now t then closures ts
      else case func t of Run f \<Rightarrow> f # closures ts | Terminate \<Rightarrow> [])"

lemma rounds_terminated: "threadState d = THREAD_STATE_TERMINATED \<Longrightarrow> dispatcher_rounds nows d = d"
  by (induction nows) (auto simp: dispatcher_round_def)

lemma rounds_executed:
  "threadState d \<noteq> THREAD_STATE_TERMINATED \<Longrightarrow> length nows = length (taskList d) \<Longrightarrow>
   executed (dispatcher_rounds nows d) = executed d @ closures (zip nows (taskList d))"
proof (induction nows arbitrary: d)
  case (Cons now nows)
  obtain t ts where ts: "taskList d = t # ts" using Cons.prems(2) by (cases "taskList d") auto
  have "length nows = length ts" using Cons.prems(2) ts by simp
  then show ?case using Cons.prems(1) Cons.IH ts
    by (cases "func t") (auto simp: dispatcher_round_def Let_def rounds_terminated)
qed simp

section \<open>The contract of a task sink\<close>

text \<open>What the timer thread relies on: a task that does not expire and is put in front is the next one run.\<close>

locale task_sink =
  fixes put_front :: "task \<Rightarrow> 'd \<Rightarrow> 'd"
    and round :: "int \<Rightarrow> 'd \<Rightarrow> 'd"
    and log :: "'d \<Rightarrow> nat list"
    and running :: "'d \<Rightarrow> bool"
  assumes front_next: "running d \<Longrightarrow> expiration t = SYSTEM_TIME_ZERO \<Longrightarrow> func t = Run f \<Longrightarrow>
      log (round now (put_front t d)) = log d @ [f]"
    and round_running: "running d \<Longrightarrow> expiration t = SYSTEM_TIME_ZERO \<Longrightarrow> func t = Run f \<Longrightarrow>
      running (round now (put_front t d))"
begin

text \<open>A sequence of timers that fire, each followed by a round of the dispatcher, runs in that order.\<close>

fun deliver :: "int \<Rightarrow> nat list \<Rightarrow> 'd \<Rightarrow> 'd" where
  "deliver now [] d = d"
| "deliver now (f # fs) d = deliver now fs (round now (put_front \<lparr>expiration = SYSTEM_TIME_ZERO, func = Run f\<rparr> d))"

lemma deliver_log: "running d \<Longrightarrow> log (deliver now fs d) = log d @ fs"
  by (induction fs arbitrary: d) (auto simp: front_next round_running)

end

interpretation dispatcher_sink: task_sink "\<lambda>t. addTask t True" dispatcher_round executed
    "\<lambda>d. threadState d = THREAD_STATE_RUNNING"
  by unfold_locales (auto simp: addTask_def dispatcher_round_def hasExpired_def Let_def)

section \<open>Properties\<close>

text \<open>C33: The dispatcher thread runs the queued tasks in the order of the queue, each exactly once, skipping
  those that have expired when their turn comes and stopping at the shutdown task.\<close>

theorem dispatcher_runs_in_order:
  assumes "threadState d = THREAD_STATE_RUNNING" "length nows = length (taskList d)"
  shows "executed (dispatcher_rounds nows d) = executed d @ closures (zip nows (taskList d))"
  using rounds_executed assms by simp

theorem dispatcher_runs_in_order_witness:
  "executed (dispatcher_rounds [0, 0, 0]
     (addTask (createTask (Run 7)) True (dispatcher_shutdown (addTask (createTask (Run 5)) False
        \<lparr>threadState = THREAD_STATE_RUNNING, taskList = [], dispatcherCycle = 0, executed = []\<rparr>)))) = [7, 5]"
  using dispatcher_runs_in_order[of "addTask (createTask (Run 7)) True (dispatcher_shutdown (addTask (createTask (Run 5)) False
        \<lparr>threadState = THREAD_STATE_RUNNING, taskList = [], dispatcherCycle = 0, executed = []\<rparr>))" "[0, 0, 0]"]
  by (simp add: addTask_def dispatcher_shutdown_def createTask_def hasExpired_def)

end
