(* ===== verification/Task_Scheduler.thy ===== *)
theory Task_Scheduler
  imports Task_Dispatcher
begin

text \<open>
  \<open>Scheduler\<close> of \<open>src/src/scheduler.h\<close> and \<open>scheduler.cpp\<close>: timers with identifiers that can be cancelled, and the
  thread that sleeps until the earliest one is due and hands it to the dispatcher. Each critical section of
  the mutex is one step of \<open>sched_step\<close>; the condition variable may also wake up spuriously. The priority
  queue is a list of which \<open>top()\<close> may be any element of least time, because the standard leaves the order
  of equal elements open.
\<close>

section \<open>State and operations\<close>

record sched_task =
  cycle :: int
  closure :: nat
  eventId :: u32

definition createSchedulerTask :: "u32 \<Rightarrow> nat \<Rightarrow> int \<Rightarrow> sched_task" where
  "createSchedulerTask delay f now = \<lparr>cycle = now + int (unat delay), closure = f, eventId = 0\<rparr>"

text \<open>Where the timer thread is: outside the lock, or blocked in \<open>wait\<close> or \<open>wait_until\<close>.\<close>

datatype wait_state = Awake | Waiting | Waiting_until int

record scheduler =
  schedState :: ThreadState
  lastEventId :: u32
  eventList :: "sched_task list"
  eventIds :: "u32 set"
  sleep :: wait_state
  clock :: int

definition is_top :: "sched_task \<Rightarrow> sched_task list \<Rightarrow> bool" where
  "is_top t ts \<longleftrightarrow> t \<in> set ts \<and> list_all (\<lambda>t'. cycle t \<le> cycle t') ts"

definition next_event_id :: "u32 \<Rightarrow> u32" where
  "next_event_id l = (if l + 1 = 0 then 1 else l + 1)"

text \<open>A task that comes before all others is the top of the queue and signals the timer thread.\<close>

definition addEvent :: "sched_task \<Rightarrow> scheduler \<Rightarrow> u32 \<times> scheduler" where
  "addEvent task s =
     (if schedState s \<noteq> THREAD_STATE_RUNNING then (0, s)
      else
        let (task, last) =
              (if eventId task = 0 then (task\<lparr>eventId := next_event_id (lastEventId s)\<rparr>, next_event_id (lastEventId s))
               else (task, lastEventId s));
            do_signal = list_all (\<lambda>t. cycle task < cycle t) (eventList s)
        in (eventId task,
            s\<lparr>lastEventId := last, eventIds := insert (eventId task) (eventIds s),
              eventList := eventList s @ [task],
              sleep := (if do_signal then Awake else sleep s)\<rparr>))"

definition stopEvent :: "u32 \<Rightarrow> scheduler \<Rightarrow> bool \<times> scheduler" where
  "stopEvent i s =
     (if i = 0 \<or> i \<notin> eventIds s then (False, s)
      else (True, s\<lparr>eventIds := eventIds s - {i}\<rparr>))"

definition scheduler_shutdown :: "scheduler \<Rightarrow> scheduler" where
  "scheduler_shutdown s =
     s\<lparr>schedState := THREAD_STATE_TERMINATED, eventList := [], eventIds := {}, sleep := Awake\<rparr>"

text \<open>\<open>threadMain\<close>: going to sleep, and what follows a timeout when \<open>t\<close> is the top of the queue. The task that is
  handed to the dispatcher, if it was not stopped, is the first component.\<close>

definition go_to_sleep :: "scheduler \<Rightarrow> scheduler" where
  "go_to_sleep s =
     s\<lparr>sleep := (if eventList s = [] then Waiting else Waiting_until (Min (cycle ` set (eventList s))))\<rparr>"

definition on_timeout :: "sched_task \<Rightarrow> scheduler \<Rightarrow> sched_task option \<times> scheduler" where
  "on_timeout t s =
     (let s = s\<lparr>eventList := remove1 t (eventList s), sleep := Awake\<rparr> in
      if eventId t \<notin> eventIds s then (None, s)
      else (Some t, s\<lparr>eventIds := eventIds s - {eventId t}\<rparr>))"

text \<open>\<open>task->setDontExpire(); g_dispatcher.addTask(task, true)\<close>.\<close>

definition hand_over :: "sched_task \<Rightarrow> dispatcher \<Rightarrow> dispatcher" where
  "hand_over t d = addTask (setDontExpire \<lparr>expiration = cycle t, func = Run (closure t)\<rparr>) True d"

datatype sched_event = Added u32 | Stopped u32 | Fired u32 | Halted | Silent

inductive sched_step :: "sched_event \<Rightarrow> scheduler \<Rightarrow> scheduler \<Rightarrow> bool" where
  time_passes: "clock s \<le> t \<Longrightarrow> sched_step Silent s (s\<lparr>clock := t\<rparr>)"
| add: "addEvent (createSchedulerTask delay f (clock s)) s = (i, s') \<Longrightarrow> i \<noteq> 0 \<Longrightarrow> sched_step (Added i) s s'"
| add_refused: "addEvent (createSchedulerTask delay f (clock s)) s = (0, s') \<Longrightarrow> sched_step Silent s s'"
| stop: "stopEvent i s = (True, s') \<Longrightarrow> sched_step (Stopped i) s s'"
| stop_unknown: "stopEvent i s = (False, s') \<Longrightarrow> sched_step Silent s s'"
| fall_asleep: "sleep s = Awake \<Longrightarrow> schedState s \<noteq> THREAD_STATE_TERMINATED \<Longrightarrow> sched_step Silent s (go_to_sleep s)"
| wake_up: "sched_step Silent s (s\<lparr>sleep := Awake\<rparr>)"
| fire: "sleep s = Waiting_until d \<Longrightarrow> d \<le> clock s \<Longrightarrow> is_top t (eventList s) \<Longrightarrow>
    on_timeout t s = (Some t, s') \<Longrightarrow> sched_step (Fired (eventId t)) s s'"
| skip: "sleep s = Waiting_until d \<Longrightarrow> d \<le> clock s \<Longrightarrow> is_top t (eventList s) \<Longrightarrow>
    on_timeout t s = (None, s') \<Longrightarrow> sched_step Silent s s'"
| close: "sched_step Silent s (s\<lparr>schedState := THREAD_STATE_CLOSING\<rparr>)"
| shutdown: "sched_step Halted s (scheduler_shutdown s)"

definition initial_scheduler :: "int \<Rightarrow> scheduler" where
  "initial_scheduler now =
     \<lparr>schedState = THREAD_STATE_RUNNING, lastEventId = 0, eventList = [], eventIds = {}, sleep = Awake, clock = now\<rparr>"

inductive sched_run :: "sched_event list \<Rightarrow> scheduler \<Rightarrow> bool" where
  start: "sched_run [] (initial_scheduler now)"
| step: "sched_run tr s \<Longrightarrow> sched_step e s s' \<Longrightarrow> sched_run (tr @ [e]) s'"

section \<open>The queue and the set of live events\<close>

definition additions :: "sched_event list \<Rightarrow> nat" where
  "additions tr = length (filter (\<lambda>e. \<exists>i. e = Added i) tr)"

text \<open>The bookkeeping invariant of a run in which the counter did not wrap: identifiers are dealt out in
  order, a live event was added and neither stopped nor fired, and every other event of the queue was stopped.\<close>

definition sched_inv :: "sched_event list \<Rightarrow> scheduler \<Rightarrow> bool" where
  "sched_inv tr s \<longleftrightarrow>
     unat (lastEventId s) = additions tr \<and>
     distinct (map eventId (eventList s)) \<and> eventIds s \<subseteq> eventId ` set (eventList s) \<and>
     (\<forall>i. count_list tr (Added i) = (if 0 < unat i \<and> unat i \<le> additions tr then 1 else 0)) \<and>
     (\<forall>i. count_list tr (Fired i) + count_list tr (Stopped i) \<le> count_list tr (Added i)) \<and>
     (\<forall>i \<in> eventId ` set (eventList s). 0 < unat i \<and> unat i \<le> additions tr) \<and>
     (\<forall>i \<in> eventIds s. count_list tr (Fired i) + count_list tr (Stopped i) = 0)"

text \<open>The timer thread sleeps exactly until the earliest event, so no wake-up is missed.\<close>

definition sleep_inv :: "scheduler \<Rightarrow> bool" where
  "sleep_inv s \<longleftrightarrow>
     (case sleep s of
        Awake \<Rightarrow> True
      | Waiting \<Rightarrow> eventList s = []
      | Waiting_until d \<Rightarrow> (\<exists>t \<in> set (eventList s). cycle t = d) \<and> (\<forall>t \<in> set (eventList s). d \<le> cycle t))"

lemma additions_simps [simp]:
  "additions [] = 0" "additions (tr @ [Added i]) = Suc (additions tr)" "additions (tr @ [Stopped i]) = additions tr"
  "additions (tr @ [Fired i]) = additions tr" "additions (tr @ [Silent]) = additions tr"
  "additions (tr @ [Halted]) = additions tr"
  by (simp_all add: additions_def)

lemma count_list_snoc [simp]: "count_list (tr @ [e]) x = count_list tr x + (if e = x then 1 else 0)"
  by simp

lemma next_event_id_unat:
  assumes "unat l < 2 ^ 32 - 1"
  shows "unat (next_event_id l) = Suc (unat l)"
proof -
  have "unat (l + 1) = Suc (unat l)" using assms by (simp add: unat_word_ariths)
  then show ?thesis by (auto simp: next_event_id_def)
qed

lemma addEvent_created:
  "addEvent (createSchedulerTask delay f (clock s)) s = (i, s') \<Longrightarrow> i \<noteq> 0 \<Longrightarrow>
   i = next_event_id (lastEventId s) \<and> schedState s = THREAD_STATE_RUNNING \<and>
   lastEventId s' = i \<and> eventIds s' = insert i (eventIds s) \<and> clock s' = clock s \<and>
   eventList s' = eventList s @ [\<lparr>cycle = clock s + int (unat delay), closure = f, eventId = i\<rparr>] \<and>
   sleep s' = (if list_all (\<lambda>t. clock s + int (unat delay) < cycle t) (eventList s) then Awake else sleep s)"
  by (auto simp: addEvent_def createSchedulerTask_def Let_def split: if_splits)

lemma addEvent_refused: "addEvent (createSchedulerTask delay f (clock s)) s = (0, s') \<Longrightarrow> s' = s"
  by (auto simp: addEvent_def createSchedulerTask_def Let_def next_event_id_def split: if_splits)

lemma on_timeout_Some:
  "on_timeout t s = (Some t, s') \<longleftrightarrow> eventId t \<in> eventIds s \<and>
     s' = s\<lparr>eventList := remove1 t (eventList s), sleep := Awake, eventIds := eventIds s - {eventId t}\<rparr>"
  by (auto simp: on_timeout_def Let_def split: if_splits)

lemma on_timeout_None:
  "on_timeout t s = (None, s') \<longleftrightarrow> eventId t \<notin> eventIds s \<and>
     s' = s\<lparr>eventList := remove1 t (eventList s), sleep := Awake\<rparr>"
  by (auto simp: on_timeout_def Let_def split: if_splits)

lemma remove1_ids:
  assumes "distinct (map eventId ts)" "t \<in> set ts"
  shows "eventId ` set (remove1 t ts) = eventId ` set ts - {eventId t}" "distinct (map eventId (remove1 t ts))"
proof -
  have d: "distinct ts" using assms(1) by (simp add: distinct_map)
  show "eventId ` set (remove1 t ts) = eventId ` set ts - {eventId t}"
    using assms d by (auto simp: distinct_map inj_on_def)
  show "distinct (map eventId (remove1 t ts))"
    using assms d by (auto simp: distinct_map inj_on_def)
qed

lemma sched_inv_add:
  assumes inv: "sched_inv tr s" and few: "additions tr < 2 ^ 32 - 1"
    and add: "addEvent (createSchedulerTask delay f (clock s)) s = (i, s')" "i \<noteq> 0"
  shows "sched_inv (tr @ [Added i]) s'"
proof -
  note eff = addEvent_created[OF add]
  have i: "unat i = Suc (additions tr)"
    using next_event_id_unat[of "lastEventId s"] inv few eff by (simp add: sched_inv_def)
  have new: "i \<notin> eventId ` set (eventList s)" using inv i by (fastforce simp: sched_inv_def)
  have eq: "j = i \<longleftrightarrow> unat j = Suc (additions tr)" for j using i by (metis word_unat_eq_iff)
  have zero: "count_list tr (Fired i) = 0" "count_list tr (Stopped i) = 0"
    using inv i by (metis (no_types, lifting) Suc_n_not_le_n add_is_0 le_zero_eq sched_inv_def)+
  note old = inv[unfolded sched_inv_def]
  have ids: "0 < unat j \<and> unat j \<le> additions tr" if "j \<in> eventId ` set (eventList s)" for j using old that by blast
  have unique: "Added i = Added j \<longleftrightarrow> unat j = Suc (additions tr)" for j using eq[of j] by auto
  show ?thesis unfolding sched_inv_def
  proof (intro conjI allI ballI)
    show "unat (lastEventId s') = additions (tr @ [Added i])" using eff i by simp
    show "distinct (map eventId (eventList s'))" using old new eff by simp
    show "eventIds s' \<subseteq> eventId ` set (eventList s')" using old eff by auto
    show added: "count_list (tr @ [Added i]) (Added j) = (if 0 < unat j \<and> unat j \<le> additions (tr @ [Added i]) then 1 else 0)" for j
      using old unique[of j] by (simp add: le_Suc_eq)
    show "count_list (tr @ [Added i]) (Fired j) + count_list (tr @ [Added i]) (Stopped j) \<le> count_list (tr @ [Added i]) (Added j)" for j
    proof -
      have "count_list tr (Fired j) + count_list tr (Stopped j) \<le> count_list tr (Added j)" using old by blast
      then show ?thesis by (simp only: count_list_snoc) simp
    qed
    show "0 < unat j" "unat j \<le> additions (tr @ [Added i])" if "j \<in> eventId ` set (eventList s')" for j
      using that ids[of j] i eff by auto
    show "count_list (tr @ [Added i]) (Fired j) + count_list (tr @ [Added i]) (Stopped j) = 0" if "j \<in> eventIds s'" for j
      using that old zero eff by (cases "j = i") auto
  qed
qed

text \<open>A step that only drops events, with or without a label for the one it drops.\<close>

lemma sched_inv_drop:
  assumes inv: "sched_inv tr s"
    and e: "e = Silent \<or> e = Halted \<or> (\<exists>i \<in> eventIds s. i \<notin> eventIds s' \<and> (e = Fired i \<or> e = Stopped i))"
    and same: "lastEventId s' = lastEventId s"
    and ids: "eventIds s' \<subseteq> eventIds s" "eventIds s' \<subseteq> eventId ` set (eventList s')"
    and queue: "distinct (map eventId (eventList s'))" "eventId ` set (eventList s') \<subseteq> eventId ` set (eventList s)"
  shows "sched_inv (tr @ [e]) s'"
proof -
  note old = inv[unfolded sched_inv_def]
  have added: "additions (tr @ [e]) = additions tr" using e by auto
  have cnt: "count_list tr (Added i) = 1" if "i \<in> eventIds s" for i using old that by auto
  have le: "count_list tr (Fired j) + count_list tr (Stopped j) \<le> count_list tr (Added j)" for j using old by blast
  have zero: "count_list tr (Fired j) = 0 \<and> count_list tr (Stopped j) = 0" if "j \<in> eventIds s" for j using old that by simp
  show ?thesis unfolding sched_inv_def added
  proof (intro conjI allI ballI)
    show "unat (lastEventId s') = additions tr" using old same by simp
    show "count_list (tr @ [e]) (Added j) = (if 0 < unat j \<and> unat j \<le> additions tr then 1 else 0)" for j
    proof -
      have "count_list (tr @ [e]) (Added j) = count_list tr (Added j)" using e by auto
      also have "\<dots> = (if 0 < unat j \<and> unat j \<le> additions tr then 1 else 0)"
        using old by (elim conjE) (erule spec)
      finally show ?thesis .
    qed
    show "count_list (tr @ [e]) (Fired j) + count_list (tr @ [e]) (Stopped j) \<le> count_list (tr @ [e]) (Added j)" for j
      using e le[of j] zero[of j] cnt[of j] by (auto simp del: count_list_append)
    show "0 < unat j" "unat j \<le> additions tr" if "j \<in> eventId ` set (eventList s')" for j
    proof -
      have "j \<in> eventId ` set (eventList s)" using queue(2) that by (rule subsetD)
      then have "0 < unat j \<and> unat j \<le> additions tr" using old by (elim conjE) (erule (1) bspec)
      then show "0 < unat j" "unat j \<le> additions tr" by simp_all
    qed
    show "count_list (tr @ [e]) (Fired j) + count_list (tr @ [e]) (Stopped j) = 0" if "j \<in> eventIds s'" for j
      using e zero[of j] that ids(1) by (auto simp del: count_list_append)
  qed (use ids queue in auto)
qed

lemma sched_invD:
  assumes "sched_inv tr s"
  shows "distinct (map eventId (eventList s))" "eventIds s \<subseteq> eventId ` set (eventList s)"
  using assms by (auto simp: sched_inv_def)

lemma sched_run_inv:
  assumes "sched_run tr s" "additions tr < 2 ^ 32"
  shows "sched_inv tr s"
  using assms
proof (induction rule: sched_run.induct)
  case (start now)
  then show ?case by (auto simp: sched_inv_def initial_scheduler_def)
next
  case (step tr s e s')
  have pre: "additions tr \<le> additions (tr @ [e])" by (simp add: additions_def)
  then have inv: "sched_inv tr s" using step by simp
  note queue = sched_invD[OF inv]
  from step.hyps(2) show ?case
  proof cases
    case (add delay f i)
    then show ?thesis using sched_inv_add[OF inv] step.prems by simp
  next
    case (add_refused delay f)
    then show ?thesis using sched_inv_drop[OF inv, of e s'] queue addEvent_refused[OF add_refused(2)] by auto
  next
    case (stop i)
    then have "i \<in> eventIds s" "s' = s\<lparr>eventIds := eventIds s - {i}\<rparr>" by (auto simp: stopEvent_def split: if_splits)
    then show ?thesis using sched_inv_drop[OF inv, of e s'] queue stop(1) by auto
  next
    case (fire d t)
    have t: "eventId t \<in> eventIds s" "t \<in> set (eventList s)"
      and s': "s' = s\<lparr>eventList := remove1 t (eventList s), sleep := Awake, eventIds := eventIds s - {eventId t}\<rparr>"
      using fire by (auto simp: on_timeout_Some is_top_def)
    show ?thesis by (rule sched_inv_drop[OF inv]) (use t fire(1) queue remove1_ids[OF queue(1) t(2)] in \<open>auto simp: s'\<close>)
  next
    case (skip d t)
    have t: "eventId t \<notin> eventIds s" "t \<in> set (eventList s)"
      and s': "s' = s\<lparr>eventList := remove1 t (eventList s), sleep := Awake\<rparr>"
      using skip by (auto simp: on_timeout_None is_top_def)
    have "eventIds s' \<subseteq> eventId ` set (eventList s')" using remove1_ids[OF queue(1) t(2)] t queue(2) by (auto simp: s')
    then show ?thesis by (intro sched_inv_drop[OF inv]) (use t skip(1) queue remove1_ids[OF queue(1) t(2)] in \<open>auto simp: s'\<close>)
  qed (rule sched_inv_drop[OF inv], use queue in \<open>auto simp: stopEvent_def go_to_sleep_def scheduler_shutdown_def split: if_splits\<close>)+
qed

lemma sched_run_sleep: "sched_run tr s \<Longrightarrow> sleep_inv s"
proof (induction rule: sched_run.induct)
  case (start now)
  then show ?case by (simp add: sleep_inv_def initial_scheduler_def)
next
  case (step tr s e s')
  note inv = step.IH
  from step.hyps(2) show ?case
  proof cases
    case (add delay f i)
    note eff = addEvent_created[OF add(2,3)]
    show ?thesis
    proof (cases "list_all (\<lambda>t. clock s + int (unat delay) < cycle t) (eventList s)")
      case False
      then obtain t where "t \<in> set (eventList s)" "cycle t \<le> clock s + int (unat delay)" by (auto simp: list_all_iff not_less)
      then show ?thesis using inv eff False by (force simp: sleep_inv_def split: wait_state.splits)
    qed (use eff in \<open>simp add: sleep_inv_def\<close>)
  next
    case (add_refused delay f)
    then show ?thesis using inv addEvent_refused by auto
  next
    case fall_asleep
    let ?C = "cycle ` set (eventList s)"
    show ?thesis
    proof (cases "eventList s = []")
      case False
      then have "Min ?C \<in> ?C" by (intro Min_in) auto
      then have "\<exists>t \<in> set (eventList s). cycle t = Min ?C" by force
      then show ?thesis using False fall_asleep(2) by (simp add: sleep_inv_def go_to_sleep_def)
    qed (use fall_asleep(2) in \<open>simp add: sleep_inv_def go_to_sleep_def\<close>)
  qed (use inv in \<open>auto simp: sleep_inv_def stopEvent_def scheduler_shutdown_def on_timeout_Some on_timeout_None
        split: wait_state.splits if_splits\<close>)
qed

inductive_cases sched_fireE: "sched_step (Fired i) s s'"

section \<open>Draining the queue\<close>

text \<open>A continuation of a run.\<close>

inductive sched_steps :: "sched_event list \<Rightarrow> scheduler \<Rightarrow> scheduler \<Rightarrow> bool" where
  none: "sched_steps [] s s"
| more: "sched_step e s s1 \<Longrightarrow> sched_steps tr s1 s2 \<Longrightarrow> sched_steps (e # tr) s s2"

lemma run_steps: "sched_steps tr' s s' \<Longrightarrow> sched_run tr s \<Longrightarrow> sched_run (tr @ tr') s'"
proof (induction arbitrary: tr rule: sched_steps.induct)
  case (more e s s1 tr' s2)
  then show ?case using more.IH[OF sched_run.step[OF more.prems more.hyps(1)]] by simp
qed simp

text \<open>An event leaves the set of live ones only when it is fired or stopped, as long as the scheduler is not shut down.\<close>

lemma run_pending:
  "sched_run tr s \<Longrightarrow> Halted \<notin> set tr \<Longrightarrow>
   schedState s \<noteq> THREAD_STATE_TERMINATED \<and>
   (\<forall>i. Added i \<in> set tr \<longrightarrow> Fired i \<in> set tr \<or> Stopped i \<in> set tr \<or> i \<in> eventIds s)"
proof (induction rule: sched_run.induct)
  case (step tr s e s')
  then have IH: "schedState s \<noteq> THREAD_STATE_TERMINATED"
      "\<forall>i. Added i \<in> set tr \<longrightarrow> Fired i \<in> set tr \<or> Stopped i \<in> set tr \<or> i \<in> eventIds s"
    by auto
  from step.hyps(2) show ?case
  proof cases
    case (add delay f i)
    then show ?thesis using IH addEvent_created[OF add(2,3)] by (auto simp: addEvent_def Let_def split: if_splits)
  next
    case (add_refused delay f)
    then show ?thesis using IH addEvent_refused[OF add_refused(2)] by auto
  next
    case (stop i)
    then show ?thesis using IH by (auto simp: stopEvent_def split: if_splits)
  next
    case (fire d t)
    then show ?thesis using IH by (auto simp: on_timeout_Some)
  next
    case (skip d t)
    then show ?thesis using IH by (auto simp: on_timeout_None)
  qed (use IH step.prems in \<open>auto simp: stopEvent_def go_to_sleep_def split: if_splits\<close>)
qed (simp add: initial_scheduler_def)

lemma is_top_exists: "ts \<noteq> [] \<Longrightarrow> \<exists>t. is_top t ts"
proof (induction ts)
  case (Cons t ts)
  show ?case
  proof (cases "ts = []")
    case False
    then obtain u where "is_top u ts" using Cons.IH by blast
    then have "is_top (if cycle t \<le> cycle u then t else u) (t # ts)" by (auto simp: is_top_def list_all_iff)
    then show ?thesis by blast
  qed (auto simp: is_top_def)
qed simp

text \<open>The timer thread alone, once enough time has passed, takes an earliest event from the queue.\<close>

lemma thread_takes_event:
  assumes "eventList s \<noteq> []" "schedState s \<noteq> THREAD_STATE_TERMINATED"
  shows "\<exists>tr s' t. sched_steps tr s s' \<and> set tr \<subseteq> insert Silent (range Fired) \<and> t \<in> set (eventList s) \<and>
    eventList s' = remove1 t (eventList s) \<and> schedState s' = schedState s"
proof -
  obtain t where t: "is_top t (eventList s)" using is_top_exists[OF assms(1)] by blast
  let ?d = "Min (cycle ` set (eventList s))"
  let ?s1 = "s\<lparr>sleep := Awake\<rparr>"
  let ?s2 = "?s1\<lparr>clock := max (clock s) ?d\<rparr>"
  let ?s3 = "go_to_sleep ?s2"
  obtain r s4 where out: "on_timeout t ?s3 = (r, s4)" by (cases "on_timeout t ?s3")
  have "sched_step Silent s ?s1" by (rule sched_step.wake_up)
  moreover have "sched_step Silent ?s1 ?s2" by (rule sched_step.time_passes) simp
  moreover have "sched_step Silent ?s2 ?s3" by (rule sched_step.fall_asleep) (use assms(2) in auto)
  moreover have "\<exists>e. sched_step e ?s3 s4 \<and> e \<in> insert Silent (range Fired)"
  proof (cases "eventId t \<in> eventIds ?s3")
    case True
    then have "on_timeout t ?s3 = (Some t, s4)" using out by (auto simp: on_timeout_def Let_def split: if_splits)
    then have "sched_step (Fired (eventId t)) ?s3 s4"
      using assms(1) t by (intro sched_step.fire[of _ ?d]) (simp_all add: go_to_sleep_def)
    then show ?thesis by blast
  next
    case False
    then have "on_timeout t ?s3 = (None, s4)" using out by (auto simp: on_timeout_def Let_def split: if_splits)
    then have "sched_step Silent ?s3 s4"
      using assms(1) t by (intro sched_step.skip[of _ ?d]) (simp_all add: go_to_sleep_def)
    then show ?thesis by blast
  qed
  ultimately obtain e where "sched_steps [Silent, Silent, Silent, e] s s4" "e \<in> insert Silent (range Fired)"
    by (meson sched_steps.intros)
  moreover have "eventList s4 = remove1 t (eventList s)" "schedState s4 = schedState s"
    using out by (auto simp: on_timeout_def go_to_sleep_def Let_def split: if_splits)
  ultimately show ?thesis using t by (intro exI[of _ "[Silent, Silent, Silent, e]"]) (auto simp: is_top_def)
qed

lemma sched_steps_append: "sched_steps tr s s1 \<Longrightarrow> sched_steps tr' s1 s2 \<Longrightarrow> sched_steps (tr @ tr') s s2"
  by (induction rule: sched_steps.induct) (auto intro: sched_steps.intros)

lemma thread_drains:
  "schedState s \<noteq> THREAD_STATE_TERMINATED \<Longrightarrow>
   \<exists>tr s'. sched_steps tr s s' \<and> set tr \<subseteq> insert Silent (range Fired) \<and> eventList s' = []"
proof (induction "length (eventList s)" arbitrary: s)
  case 0
  then show ?case using sched_steps.none by force
next
  case (Suc n)
  then have ne: "eventList s \<noteq> []" by auto
  obtain tr1 s1 t where 1: "sched_steps tr1 s s1" "set tr1 \<subseteq> insert Silent (range Fired)" "t \<in> set (eventList s)"
      "eventList s1 = remove1 t (eventList s)" "schedState s1 = schedState s"
    using thread_takes_event[OF ne Suc.prems] by blast
  have "n = length (eventList s1)" using 1(3,4) Suc.hyps(2) by (simp add: length_remove1)
  then obtain tr2 s2 where 2: "sched_steps tr2 s1 s2" "set tr2 \<subseteq> insert Silent (range Fired)" "eventList s2 = []"
    using Suc.hyps(1)[of s1] 1(5) Suc.prems by auto
  show ?case using sched_steps_append[OF 1(1) 2(1)] 1(2) 2(2,3) by (intro exI[of _ "tr1 @ tr2"] exI[of _ s2]) auto
qed

lemma drained_fired:
  assumes "sched_run tr s" "additions tr < 2 ^ 32" "eventList s = []" "Added i \<in> set tr" "Stopped i \<notin> set tr" "Halted \<notin> set tr"
  shows "Fired i \<in> set tr"
  using run_pending[OF assms(1,6)] sched_invD(2)[OF sched_run_inv[OF assms(1,2)]] assms(3-5) by auto

section \<open>Properties\<close>

text \<open>C26: In every run in which fewer than \<open>2^32\<close> events are added, each event is fired at most once, and never
  after it was successfully stopped: its firings and stops together are at most its additions, which
  are at most one.\<close>

theorem events_fire_at_most_once:
  assumes "sched_run tr s" "additions tr < 2 ^ 32"
  shows "count_list tr (Fired i) + count_list tr (Stopped i) \<le> count_list tr (Added i) \<and> count_list tr (Added i) \<le> 1"
proof -
  note inv = sched_run_inv[OF assms, unfolded sched_inv_def]
  have "count_list tr (Fired i) + count_list tr (Stopped i) \<le> count_list tr (Added i)" using inv by blast
  moreover have "count_list tr (Added i) = (if 0 < unat i \<and> unat i \<le> additions tr then 1 else 0)"
    using inv by (elim conjE) (erule spec)
  ultimately show ?thesis by simp
qed

lemma sample_schedule: "\<exists>s. sched_run [Added 1, Stopped 1] s"
proof -
  have a: "sched_step (Added 1) (initial_scheduler 0) (snd (addEvent (createSchedulerTask 100 7 0) (initial_scheduler 0)))"
    by (rule sched_step.add[where delay = 100 and f = 7])
      (simp_all add: initial_scheduler_def addEvent_def createSchedulerTask_def next_event_id_def)
  then have "sched_run [Added 1] (snd (addEvent (createSchedulerTask 100 7 0) (initial_scheduler 0)))"
    using sched_run.step[OF sched_run.start] by fastforce
  moreover have "sched_step (Stopped 1) (snd (addEvent (createSchedulerTask 100 7 0) (initial_scheduler 0)))
      (snd (stopEvent 1 (snd (addEvent (createSchedulerTask 100 7 0) (initial_scheduler 0)))))"
    by (rule sched_step.stop)
      (simp add: initial_scheduler_def addEvent_def createSchedulerTask_def next_event_id_def stopEvent_def)
  ultimately show ?thesis using sched_run.step by fastforce
qed

theorem events_fire_at_most_once_witness:
  "(\<exists>s. sched_run [Added 1, Stopped 1] s) \<and> count_list [Added 1, Stopped 1] (Fired 1) = 0"
proof -
  obtain s where s: "sched_run [Added 1, Stopped 1] s" using sample_schedule by blast
  have "additions [Added 1, Stopped 1] < 2 ^ 32" by (simp add: additions_def)
  then show ?thesis using events_fire_at_most_once[OF s, of 1] s by auto
qed

text \<open>The timer thread fires an event only when its time has come and no pending event is due earlier;
  and while it sleeps its deadline is the time of the earliest pending event, so it does not oversleep.\<close>

theorem events_fire_on_time:
  assumes "sched_run tr s"
  shows "(sched_step (Fired i) s s' \<longrightarrow> (\<exists>t \<in> set (eventList s). eventId t = i \<and> i \<in> eventIds s \<and>
      cycle t \<le> clock s \<and> (\<forall>u \<in> set (eventList s). cycle t \<le> cycle u))) \<and>
    (sleep s = Waiting \<longrightarrow> eventList s = []) \<and>
    (\<forall>d. sleep s = Waiting_until d \<longrightarrow> (\<exists>t \<in> set (eventList s). cycle t = d) \<and> (\<forall>t \<in> set (eventList s). d \<le> cycle t))"
proof -
  have slp: "sleep_inv s" by (rule sched_run_sleep[OF assms])
  have "\<exists>t \<in> set (eventList s). eventId t = i \<and> i \<in> eventIds s \<and> cycle t \<le> clock s \<and> (\<forall>u \<in> set (eventList s). cycle t \<le> cycle u)"
    if fired: "sched_step (Fired i) s s'"
  proof -
    obtain d t where f: "sleep s = Waiting_until d" "d \<le> clock s" "is_top t (eventList s)" "on_timeout t s = (Some t, s')" "eventId t = i"
      using fired by (auto elim: sched_fireE)
    obtain u where "u \<in> set (eventList s)" "cycle u = d" using slp f(1) by (auto simp: sleep_inv_def)
    then have "cycle t \<le> d" using f(3) by (auto simp: is_top_def list_all_iff)
    then show ?thesis using f by (intro bexI[of _ t]) (auto simp: is_top_def list_all_iff on_timeout_Some)
  qed
  then show ?thesis using slp by (auto simp: sleep_inv_def split: wait_state.splits)
qed

theorem events_fire_on_time_witness:
  "\<exists>s. sched_run [Added 1, Stopped 1] s \<and> (sleep s = Waiting \<longrightarrow> eventList s = [])"
  using events_fire_on_time sample_schedule by blast

text \<open>C30: An event that was added and never stopped is fired, unless the scheduler is shut down: whatever happened up to
  now, the timer thread can empty its queue by itself as time passes, and along every continuation that does not stop
  the event or shut the scheduler down, the event was fired by the time the queue is empty.\<close>

theorem live_events_fire:
  assumes "sched_run tr s" "Added i \<in> set tr" "Stopped i \<notin> set tr" "Halted \<notin> set tr"
  shows "(\<exists>tr' s'. sched_steps tr' s s' \<and> set tr' \<subseteq> insert Silent (range Fired) \<and> eventList s' = []) \<and>
    (\<forall>tr' s'. sched_steps tr' s s' \<longrightarrow> Stopped i \<notin> set tr' \<longrightarrow> Halted \<notin> set tr' \<longrightarrow> additions (tr @ tr') < 2 ^ 32 \<longrightarrow>
       eventList s' = [] \<longrightarrow> Fired i \<in> set (tr @ tr'))"
  using thread_drains[of s] run_pending[OF assms(1,4)] drained_fired[OF run_steps[OF _ assms(1)]] assms(2-4) by auto

theorem live_events_fire_witness:
  "\<exists>s tr' s'. sched_run [Added 1, Added 2, Stopped 2] s \<and> sched_steps tr' s s' \<and> Fired 1 \<in> set tr'"
proof -
  let ?s1 = "snd (addEvent (createSchedulerTask 100 7 0) (initial_scheduler 0))"
  let ?s2 = "snd (addEvent (createSchedulerTask 50 8 0) ?s1)"
  let ?s = "snd (stopEvent 2 ?s2)"
  note eval = initial_scheduler_def addEvent_def createSchedulerTask_def next_event_id_def stopEvent_def
  have "sched_step (Added 1) (initial_scheduler 0) ?s1"
    by (rule sched_step.add[where delay = 100 and f = 7]) (simp_all add: eval)
  moreover have "sched_step (Added 2) ?s1 ?s2" by (rule sched_step.add[where delay = 50 and f = 8]) (simp_all add: eval)
  moreover have "sched_step (Stopped 2) ?s2 ?s" by (rule sched_step.stop) (simp add: eval)
  ultimately have "sched_steps [Added 1, Added 2, Stopped 2] (initial_scheduler 0) ?s" by (meson sched_steps.intros)
  then have run: "sched_run [Added 1, Added 2, Stopped 2] ?s" using run_steps[OF _ sched_run.start] by fastforce
  then obtain tr' s' where t: "sched_steps tr' ?s s'" "set tr' \<subseteq> insert Silent (range Fired)" "eventList s' = []"
    using live_events_fire[OF run, of 1] by auto
  have "additions tr' = 0" using t(2) by (auto simp: additions_def filter_empty_conv)
  then have "additions ([Added 1, Added 2, Stopped 2] @ tr') < 2 ^ 32" by (simp add: additions_def)
  moreover have "Stopped 1 \<notin> set tr'" "Halted \<notin> set tr'" using t(2) by auto
  ultimately have "Fired 1 \<in> set ([Added 1, Added 2, Stopped 2] @ tr')" using live_events_fire[OF run, of 1] t(1,3) by simp
  then show ?thesis using run t(1) by auto
qed

text \<open>The events that timeouts fire one after the other are executed by the dispatcher in that order,
  each in the next round and none of them lost to expiry, however late the round comes.\<close>

theorem fired_events_execute:
  assumes "threadState d = THREAD_STATE_RUNNING"
  shows "executed (dispatcher_round now (hand_over t d)) = executed d @ [closure t] \<and>
    executed (dispatcher_sink.deliver now (map closure ts) d) = executed d @ map closure ts"
  using dispatcher_sink.front_next[OF assms, of _ "closure t" now] dispatcher_sink.deliver_log[OF assms]
  by (simp add: hand_over_def setDontExpire_def)

theorem fired_events_execute_witness:
  "executed (dispatcher_round 1000000 (hand_over \<lparr>cycle = 3, closure = 9, eventId = 1\<rparr>
     \<lparr>threadState = THREAD_STATE_RUNNING, taskList = [], dispatcherCycle = 0, executed = [4]\<rparr>)) = [4, 9]"
  using fired_events_execute[of "\<lparr>threadState = THREAD_STATE_RUNNING, taskList = [], dispatcherCycle = 0, executed = [4]\<rparr>"
      1000000 "\<lparr>cycle = 3, closure = 9, eventId = 1\<rparr>" "[]"] by simp

end
