(* ===== verification/Item_Container.thy ===== *)
theory Item_Container
  imports Return_Values Server_Prelude "HOL-Library.Multiset"
begin

text \<open>
  \<open>Container\<close> of \<open>src/src/container.h\<close> and \<open>container.cpp\<close>, with the overriding queries of \<open>DepotChest\<close>, \<open>Inbox\<close> and
  \<open>StoreInbox\<close> and the parts of \<open>Item\<close> they call (\<open>item.h\<close>, \<open>item.cpp\<close>). The objects live in a store, a function
  from addresses to objects, because containers share items by pointer and every item points back to its
  parent; tiles and creatures appear in it as the roots of the parent chains. The table of item types is the
  parameter \<open>its\<close>, and the queries of tiles and players, which belong to other classes, are the parameter
  \<open>outer\<close>. The loops that follow parent pointers have no value when the pointers form a cycle. Attributes of an
  item are a list of distinct keys with integer values; a string value is represented by its number.
  Weights are 32-bit words, so that the \<open>int32_t\<close> differences wrap as they do in the code. Messages to
  clients are not modelled.
\<close>

section \<open>Items and containers\<close>

datatype node_kind =
    Plain_item | Plain_container | DepotChest | DepotLocker | Inbox | StoreInbox
  | Tile_node | HouseTile_node | Creature_node | Virtual_cylinder

datatype attr_key = ATTR_WEIGHT | ATTR_STOREITEM | ATTR_FLUIDTYPE | ATTR_CHARGES
  | ATTR_DECAYSTATE | ATTR_DURATION | ATTR_CORPSEOWNER | ATTR_OTHER nat

record item_type =
  it_stackable :: bool
  it_pickupable :: bool
  it_moveable :: bool
  it_storeItem :: bool
  it_fluid :: bool
  it_charges :: u32
  it_weight :: u32
  it_decayTime :: u32
  it_stopTime :: bool
  it_decayTo :: int

record obj =
  kind :: node_kind
  ident :: u16
  icount :: u8
  attributes :: "(attr_key \<times> int) list"
  parent :: "nat option"
  itemlist :: "nat list"
  totalWeight :: u32
  maxSize :: u32
  maxDepotItems :: u32
  unlocked :: bool

type_synonym store = "nat \<Rightarrow> obj"
type_synonym item_table = "u16 \<Rightarrow> item_type"

fun is_container :: "node_kind \<Rightarrow> bool" where
  "is_container Plain_container = True"
| "is_container DepotChest = True"
| "is_container DepotLocker = True"
| "is_container Inbox = True"
| "is_container StoreInbox = True"
| "is_container _ = False"

definition is_item :: "node_kind \<Rightarrow> bool" where
  "is_item k \<longleftrightarrow> k = Plain_item \<or> is_container k"

definition setParent :: "nat \<Rightarrow> nat option \<Rightarrow> store \<Rightarrow> store" where
  "setParent x p w = w(x := (w x)\<lparr>parent := p\<rparr>)"

text \<open>Depot chests and inboxes skip the locker they lie in.\<close>

definition getParent :: "store \<Rightarrow> nat \<Rightarrow> nat option" where
  "getParent w x =
     (if kind (w x) = DepotChest \<or> kind (w x) = Inbox
      then Option.bind (parent (w x)) (\<lambda>p. parent (w p)) else parent (w x))"

definition getParentContainer :: "store \<Rightarrow> nat \<Rightarrow> nat option" where
  "getParentContainer w x =
     (case getParent w x of None \<Rightarrow> None | Some p \<Rightarrow> if is_container (kind (w p)) then Some p else None)"

definition isStackable :: "item_table \<Rightarrow> obj \<Rightarrow> bool" where
  "isStackable its ob \<longleftrightarrow> it_stackable (its (ident ob))"

definition isStoreItem :: "item_table \<Rightarrow> obj \<Rightarrow> bool" where
  "isStoreItem its ob =
     (case map_of (attributes ob) ATTR_STOREITEM of Some v \<Rightarrow> v = 1 | None \<Rightarrow> it_storeItem (its (ident ob)))"

definition getBaseWeight :: "item_table \<Rightarrow> obj \<Rightarrow> u32" where
  "getBaseWeight its ob =
     (case map_of (attributes ob) ATTR_WEIGHT of Some v \<Rightarrow> word_of_int v | None \<Rightarrow> it_weight (its (ident ob)))"

definition item_getWeight :: "item_table \<Rightarrow> obj \<Rightarrow> u32" where
  "item_getWeight its ob =
     (if isStackable its ob then getBaseWeight its ob * max 1 (ucast (icount ob)) else getBaseWeight its ob)"

definition getWeight :: "item_table \<Rightarrow> obj \<Rightarrow> u32" where
  "getWeight its ob = item_getWeight its ob + (if is_container (kind ob) then totalWeight ob else 0)"

definition item_equals :: "obj \<Rightarrow> obj \<Rightarrow> bool" where
  "item_equals a b \<longleftrightarrow> ident a = ident b \<and> set (attributes a) = set (attributes b)"

definition setItemCount :: "u8 \<Rightarrow> obj \<Rightarrow> obj" where
  "setItemCount n ob = ob\<lparr>icount := n\<rparr>"

definition setIntAttr :: "attr_key \<Rightarrow> int \<Rightarrow> obj \<Rightarrow> obj" where
  "setIntAttr k v ob = ob\<lparr>attributes := (k, v) # filter (\<lambda>e. fst e \<noteq> k) (attributes ob)\<rparr>"

definition getIntAttr :: "attr_key \<Rightarrow> obj \<Rightarrow> int" where
  "getIntAttr k ob = (case map_of (attributes ob) k of Some v \<Rightarrow> v | None \<Rightarrow> 0)"

definition removeAttribute :: "attr_key \<Rightarrow> obj \<Rightarrow> obj" where
  "removeAttribute k ob = ob\<lparr>attributes := filter (\<lambda>e. fst e \<noteq> k) (attributes ob)\<rparr>"

definition hasAttribute :: "attr_key \<Rightarrow> obj \<Rightarrow> bool" where
  "hasAttribute k ob \<longleftrightarrow> k \<in> fst ` set (attributes ob)"

definition setID :: "item_table \<Rightarrow> u16 \<Rightarrow> obj \<Rightarrow> obj" where
  "setID its newid ob =
     (let prevIt = its (ident ob); ob = ob\<lparr>ident := newid\<rparr>; it = its newid;
          newDuration = it_decayTime it * 1000;
          ob = (if newDuration = 0 \<and> \<not> it_stopTime it \<and> it_decayTo it < 0
                then removeAttribute ATTR_DURATION (removeAttribute ATTR_DECAYSTATE ob) else ob);
          ob = removeAttribute ATTR_CORPSEOWNER ob
      in if newDuration > 0 \<and> (\<not> it_stopTime prevIt \<or> \<not> hasAttribute ATTR_DURATION ob)
         then setIntAttr ATTR_DURATION (sint newDuration) (setIntAttr ATTR_DECAYSTATE 0 ob) else ob)"

definition setSubType :: "item_table \<Rightarrow> u16 \<Rightarrow> obj \<Rightarrow> obj" where
  "setSubType its n ob =
     (let it = its (ident ob) in
      if it_fluid it then setIntAttr ATTR_FLUIDTYPE (uint n) ob
      else if it_stackable it then setItemCount (ucast n) ob
      else if it_charges it \<noteq> 0 then setIntAttr ATTR_CHARGES (uint n) ob
      else setItemCount (ucast n) ob)"

definition getSubType :: "item_table \<Rightarrow> obj \<Rightarrow> u16" where
  "getSubType its ob =
     (let it = its (ident ob) in
      if it_fluid it then word_of_int (getIntAttr ATTR_FLUIDTYPE ob)
      else if it_stackable it then ucast (icount ob)
      else if it_charges it \<noteq> 0 then word_of_int (getIntAttr ATTR_CHARGES ob)
      else ucast (icount ob))"

definition countByType :: "item_table \<Rightarrow> obj \<Rightarrow> int \<Rightarrow> u32" where
  "countByType its ob subType = (if subType = - 1 \<or> subType = uint (getSubType its ob) then ucast (icount ob) else 0)"

section \<open>Container operations\<close>

definition capacity :: "obj \<Rightarrow> u32" where
  "capacity c = maxSize c"

definition getItemByIndex :: "obj \<Rightarrow> nat \<Rightarrow> nat option" where
  "getItemByIndex c index = (if index \<ge> length (itemlist c) then None else Some (itemlist c ! index))"

fun index_from :: "nat list \<Rightarrow> nat \<Rightarrow> int \<Rightarrow> int" where
  "index_from [] thing i = - 1"
| "index_from (x # xs) thing i = (if x = thing then i else index_from xs thing (i + 1))"

definition getThingIndex :: "obj \<Rightarrow> nat \<Rightarrow> int" where
  "getThingIndex c thing = index_from (itemlist c) thing 0"

definition addItem :: "nat \<Rightarrow> nat \<Rightarrow> store \<Rightarrow> store" where
  "addItem c item w = setParent item (Some c) (w(c := (w c)\<lparr>itemlist := itemlist (w c) @ [item]\<rparr>))"

partial_function (option) updateItemWeight :: "nat \<Rightarrow> u32 \<Rightarrow> store \<Rightarrow> store option" where
  "updateItemWeight c diff w =
     (let w = w(c := (w c)\<lparr>totalWeight := totalWeight (w c) + diff\<rparr>) in
      case getParentContainer w c of
        None \<Rightarrow> Some w
      | Some p \<Rightarrow> updateItemWeight p diff w)"

definition internalAddThing :: "item_table \<Rightarrow> nat \<Rightarrow> nat \<Rightarrow> store \<Rightarrow> store option" where
  "internalAddThing its c thing w =
     (if \<not> is_item (kind (w thing)) then Some w
      else
        let w = setParent thing (Some c) w;
            w = w(c := (w c)\<lparr>itemlist := thing # itemlist (w c)\<rparr>)
        in updateItemWeight c (getWeight its (w thing)) w)"

definition addThing :: "item_table \<Rightarrow> nat \<Rightarrow> int \<Rightarrow> nat \<Rightarrow> store \<Rightarrow> store option" where
  "addThing its c index thing w =
     (if index \<ge> sint (capacity (w c)) then Some w
      else if \<not> is_item (kind (w thing)) then Some w
      else
        let w = setParent thing (Some c) w;
            w = w(c := (w c)\<lparr>itemlist := thing # itemlist (w c)\<rparr>)
        in updateItemWeight c (getWeight its (w thing)) w)"

definition addItemBack :: "item_table \<Rightarrow> nat \<Rightarrow> nat \<Rightarrow> store \<Rightarrow> store option" where
  "addItemBack its c item w = (let w = addItem c item w in updateItemWeight c (getWeight its (w item)) w)"

definition updateThing :: "item_table \<Rightarrow> nat \<Rightarrow> nat \<Rightarrow> u16 \<Rightarrow> u32 \<Rightarrow> store \<Rightarrow> store option" where
  "updateThing its c thing itemId cnt w =
     (if getThingIndex (w c) thing = - 1 then Some w
      else if \<not> is_item (kind (w thing)) then Some w
      else
        let oldWeight = getWeight its (w thing);
            w = w(thing := setSubType its (ucast cnt) (setID its itemId (w thing)))
        in updateItemWeight c (- oldWeight + getWeight its (w thing)) w)"

definition replaceThing :: "item_table \<Rightarrow> nat \<Rightarrow> nat \<Rightarrow> nat \<Rightarrow> store \<Rightarrow> store option" where
  "replaceThing its c index thing w =
     (if \<not> is_item (kind (w thing)) then Some w
      else case getItemByIndex (w c) index of
             None \<Rightarrow> Some w
           | Some replacedItem \<Rightarrow>
               let w = w(c := (w c)\<lparr>itemlist := (itemlist (w c))[index := thing]\<rparr>);
                   w = setParent thing (Some c) w
               in map_option (setParent replacedItem None)
                    (updateItemWeight c (- getWeight its (w replacedItem) + getWeight its (w thing)) w))"

definition removeThing :: "item_table \<Rightarrow> nat \<Rightarrow> nat \<Rightarrow> u32 \<Rightarrow> store \<Rightarrow> store option" where
  "removeThing its c thing cnt w =
     (if \<not> is_item (kind (w thing)) then Some w
      else
        let index = getThingIndex (w c) thing in
        if index = - 1 then Some w
        else if isStackable its (w thing) \<and> cnt \<noteq> ucast (icount (w thing)) then
          let oldWeight = getWeight its (w thing);
              w = w(thing := setItemCount (new_item_count (icount (w thing)) cnt) (w thing))
          in updateItemWeight c (- oldWeight + getWeight its (w thing)) w
        else
          map_option (\<lambda>w. let w = setParent thing None w in
              w(c := (w c)\<lparr>itemlist := take (nat index) (itemlist (w c)) @ drop (Suc (nat index)) (itemlist (w c))\<rparr>))
            (updateItemWeight c (- getWeight its (w thing)) w))"

definition getItemTypeCount :: "item_table \<Rightarrow> store \<Rightarrow> nat \<Rightarrow> u16 \<Rightarrow> int \<Rightarrow> u32" where
  "getItemTypeCount its w c itemId subType =
     fold (\<lambda>x cnt. if ident (w x) = itemId then cnt + countByType its (w x) subType else cnt) (itemlist (w c)) 0"

definition getAllItemTypeCount :: "store \<Rightarrow> nat \<Rightarrow> (u32 \<times> u32) list \<Rightarrow> (u32 \<times> u32) list" where
  "getAllItemTypeCount w c countMap =
     fold (\<lambda>x m. let k = ucast (ident (w x)); old = (case map_of m k of Some v \<Rightarrow> v | None \<Rightarrow> 0)
                  in omap_put k (old + ucast (icount (w x))) m) (itemlist (w c)) countMap"

section \<open>Iteration\<close>

text \<open>\<open>ContainerIterator\<close>: the containers still to visit, of which the first is being read at \<open>cur\<close>.\<close>

record cont_iter =
  over :: "nat list"
  cur :: nat

definition iterator :: "store \<Rightarrow> nat \<Rightarrow> cont_iter" where
  "iterator w c = (if itemlist (w c) \<noteq> [] then \<lparr>over = [c], cur = 0\<rparr> else \<lparr>over = [], cur = 0\<rparr>)"

definition hasNext :: "cont_iter \<Rightarrow> bool" where
  "hasNext it \<longleftrightarrow> over it \<noteq> []"

definition iter_item :: "store \<Rightarrow> cont_iter \<Rightarrow> nat" where
  "iter_item w it = itemlist (w (hd (over it))) ! cur it"

definition advance :: "store \<Rightarrow> cont_iter \<Rightarrow> cont_iter" where
  "advance w it =
     (let i = iter_item w it;
          over' = (if is_container (kind (w i)) \<and> itemlist (w i) \<noteq> [] then over it @ [i] else over it);
          cur' = cur it + 1
      in if cur' = length (itemlist (w (hd (over it)))) then \<lparr>over = tl over', cur = 0\<rparr>
         else \<lparr>over = over', cur = cur'\<rparr>)"

partial_function (option) iterate_all :: "store \<Rightarrow> cont_iter \<Rightarrow> nat list \<Rightarrow> nat list option" where
  "iterate_all w it visited =
     (if hasNext it then iterate_all w (advance w it) (visited @ [iter_item w it]) else Some visited)"

definition getItemHoldingCount :: "store \<Rightarrow> nat \<Rightarrow> u32 option" where
  "getItemHoldingCount w c = map_option (\<lambda>xs. of_nat (length xs)) (iterate_all w (iterator w c) [])"

definition isHoldingItem :: "store \<Rightarrow> nat \<Rightarrow> nat \<Rightarrow> bool option" where
  "isHoldingItem w c item = map_option (\<lambda>xs. item \<in> set xs) (iterate_all w (iterator w c) [])"

definition getItems :: "store \<Rightarrow> nat \<Rightarrow> bool \<Rightarrow> nat list option" where
  "getItems w c recursive = (if recursive then iterate_all w (iterator w c) [] else Some (itemlist (w c)))"

section \<open>Queries\<close>

partial_function (option) top_loop :: "store \<Rightarrow> nat option \<Rightarrow> nat \<Rightarrow> nat option option" where
  "top_loop w prevaux aux =
     (case getParent w aux of
        Some p \<Rightarrow> top_loop w (Some aux) p
      | None \<Rightarrow> Some (case prevaux of Some q \<Rightarrow> Some q | None \<Rightarrow> Some aux))"

definition getTopParent :: "store \<Rightarrow> nat \<Rightarrow> nat option option" where
  "getTopParent w x =
     (let prevaux = (if is_container (kind (w x)) then Some x else None) in
      case getParent w x of
        None \<Rightarrow> Some prevaux
      | Some aux \<Rightarrow> top_loop w prevaux aux)"

definition inbox_queryAdd :: "item_table \<Rightarrow> store \<Rightarrow> nat \<Rightarrow> nat \<Rightarrow> u32 \<Rightarrow> ReturnValue" where
  "inbox_queryAdd its w this thing flags =
     (if \<not> hasBitSet FLAG_NOLIMIT flags then RETURNVALUE_CONTAINERNOTENOUGHROOM
      else if \<not> is_item (kind (w thing)) then RETURNVALUE_NOTPOSSIBLE
      else if thing = this then RETURNVALUE_THISISIMPOSSIBLE
      else if \<not> it_pickupable (its (ident (w thing))) then RETURNVALUE_CANNOTPICKUP
      else RETURNVALUE_NOERROR)"

definition storeInbox_queryAdd :: "item_table \<Rightarrow> store \<Rightarrow> nat \<Rightarrow> nat \<Rightarrow> ReturnValue" where
  "storeInbox_queryAdd its w this thing =
     (if \<not> is_item (kind (w thing)) then RETURNVALUE_NOTPOSSIBLE
      else if thing = this then RETURNVALUE_THISISIMPOSSIBLE
      else if \<not> it_pickupable (its (ident (w thing))) then RETURNVALUE_CANNOTPICKUP
      else if \<not> isStoreItem its (w thing) then RETURNVALUE_CANNOTMOVEITEMISNOTSTOREITEM
      else if is_container (kind (w thing)) \<and> itemlist (w thing) \<noteq> [] then RETURNVALUE_ITEMCANNOTBEMOVEDTHERE
      else RETURNVALUE_NOERROR)"

text \<open>The limit of a depot chest, which precedes the checks of a plain container.\<close>

definition depot_full :: "item_table \<Rightarrow> store \<Rightarrow> nat \<Rightarrow> nat \<Rightarrow> u32 \<Rightarrow> u32 \<Rightarrow> bool option" where
  "depot_full its w this item cnt flags =
     (if hasBitSet FLAG_NOLIMIT flags then Some False
      else
        Option.bind (getTopParent w item) (\<lambda>topParent.
        Option.bind (if is_container (kind (w item)) then getItemHoldingCount w item else Some 0) (\<lambda>inside.
        Option.bind (getItemHoldingCount w this) (\<lambda>held.
          let addCount = (if isStackable its (w item) \<and> ucast (icount (w item)) \<noteq> cnt then 1 else 0 :: u32);
              addCount = (if topParent \<noteq> Some this then
                            (if is_container (kind (w item)) then inside + 1 else 1) else addCount)
          in Some (held + addCount > maxDepotItems (w this))))))"

text \<open>The query at the top parent on behalf of a container inside it, with \<open>FLAG_CHILDISOWNER\<close>.\<close>

definition child_query ::
    "item_table \<Rightarrow> (nat \<Rightarrow> nat \<Rightarrow> u32 \<Rightarrow> u32 \<Rightarrow> ReturnValue) \<Rightarrow> store \<Rightarrow> nat \<Rightarrow> nat \<Rightarrow> u32 \<Rightarrow> u32 \<Rightarrow> ReturnValue option" where
  "child_query its outer w topParent item cnt flags =
     (case kind (w topParent) of
        Plain_container \<Rightarrow> Some RETURNVALUE_NOERROR
      | DepotChest \<Rightarrow>
          map_option (\<lambda>full. if full then RETURNVALUE_DEPOTISFULL else RETURNVALUE_NOERROR)
            (depot_full its w topParent item cnt flags)
      | DepotLocker \<Rightarrow> Some RETURNVALUE_NOTENOUGHROOM
      | Inbox \<Rightarrow> Some (inbox_queryAdd its w topParent item flags)
      | StoreInbox \<Rightarrow> Some (storeInbox_queryAdd its w topParent item)
      | _ \<Rightarrow> Some (outer topParent item cnt (flags OR FLAG_CHILDISOWNER)))"

partial_function (option) climb :: "bool \<Rightarrow> nat \<Rightarrow> store \<Rightarrow> nat option \<Rightarrow> ReturnValue option" where
  "climb limited thing w cylinder =
     (if cylinder = None then Some RETURNVALUE_NOERROR
      else if cylinder = Some thing then Some RETURNVALUE_THISISIMPOSSIBLE
      else if limited \<and> kind (w (the cylinder)) = Inbox then Some RETURNVALUE_CONTAINERNOTENOUGHROOM
      else climb limited thing w (getParent w (the cylinder)))"

definition container_queryAdd ::
    "item_table \<Rightarrow> (nat \<Rightarrow> nat \<Rightarrow> u32 \<Rightarrow> u32 \<Rightarrow> ReturnValue) \<Rightarrow> store \<Rightarrow> nat \<Rightarrow> int \<Rightarrow> nat \<Rightarrow> u32 \<Rightarrow> u32 \<Rightarrow> ReturnValue option" where
  "container_queryAdd its outer w this index thing cnt flags =
     (if hasBitSet FLAG_CHILDISOWNER flags then Some RETURNVALUE_NOERROR
      else if \<not> unlocked (w this) then Some RETURNVALUE_NOTPOSSIBLE
      else if \<not> is_item (kind (w thing)) then Some RETURNVALUE_NOTPOSSIBLE
      else if \<not> it_pickupable (its (ident (w thing))) then Some RETURNVALUE_CANNOTPICKUP
      else if thing = this then Some RETURNVALUE_THISISIMPOSSIBLE
      else if isStoreItem its (w thing) \<and> kind (w this) \<noteq> DepotChest then Some RETURNVALUE_ITEMCANNOTBEMOVEDTHERE
      else if isStoreItem its (w this) \<and>
          (case getParent w this of None \<Rightarrow> False | Some p \<Rightarrow> kind (w p) = StoreInbox) then
        Some (if \<not> isStoreItem its (w thing) then RETURNVALUE_CANNOTMOVEITEMISNOTSTOREITEM
              else RETURNVALUE_ITEMCANNOTBEMOVEDTHERE)
      else
        let limited = \<not> hasBitSet FLAG_NOLIMIT flags in
        Option.bind (climb limited thing w (getParent w this)) (\<lambda>ret.
          if ret \<noteq> RETURNVALUE_NOERROR then Some ret
          else if limited \<and> index = - 1 \<and> length (itemlist (w this)) \<ge> unat (capacity (w this))
          then Some RETURNVALUE_CONTAINERNOTENOUGHROOM
          else
            Option.bind (getTopParent w this) (\<lambda>topParent.
              if topParent \<noteq> Some this then
                (case topParent of None \<Rightarrow> None | Some t \<Rightarrow> child_query its outer w t thing cnt flags)
              else Some RETURNVALUE_NOERROR)))"

text \<open>\<open>queryMaxCount\<close> yields the return value and \<open>maxQueryCount\<close>.\<close>

definition freeSlots :: "obj \<Rightarrow> u32" where
  "freeSlots c = (let d = word_of_int (uint (capacity c) - int (length (itemlist c))) :: u32 in if sint d < 0 then 0 else d)"

fun stack_room ::
    "(nat \<Rightarrow> ReturnValue option) \<Rightarrow> store \<Rightarrow> nat \<Rightarrow> nat list \<Rightarrow> nat \<Rightarrow> u32 \<Rightarrow> u32 option" where
  "stack_room query w item [] slotIndex n = Some n"
| "stack_room query w item (x # xs) slotIndex n =
     (if x \<noteq> item \<and> item_equals (w x) (w item) \<and> icount (w x) < 100 then
        Option.bind (query slotIndex) (\<lambda>ret.
          stack_room query w item xs (slotIndex + 1)
            (if ret = RETURNVALUE_NOERROR then n + (100 - ucast (icount (w x))) else n))
      else stack_room query w item xs slotIndex n)"

definition queryMaxCount ::
    "(int \<Rightarrow> nat \<Rightarrow> u32 \<Rightarrow> u32 \<Rightarrow> ReturnValue option) \<Rightarrow> item_table \<Rightarrow> store \<Rightarrow> nat \<Rightarrow> int \<Rightarrow> nat \<Rightarrow> u32 \<Rightarrow> u32 \<Rightarrow>
     (ReturnValue \<times> u32) option" where
  "queryMaxCount queryAdd its w this index thing cnt flags =
     (if \<not> is_item (kind (w thing)) then Some (RETURNVALUE_NOTPOSSIBLE, 0)
      else if hasBitSet FLAG_NOLIMIT flags then Some (RETURNVALUE_NOERROR, max 1 cnt)
      else if isStackable its (w thing) then
        map_option (\<lambda>n. let maxQueryCount = freeSlots (w this) * 100 + n in
            (if maxQueryCount < cnt then RETURNVALUE_CONTAINERNOTENOUGHROOM else RETURNVALUE_NOERROR, maxQueryCount))
          (if index = - 1 then
             stack_room (\<lambda>slot. queryAdd (int slot) thing cnt flags) w thing (itemlist (w this)) 0 0
           else
             (case (if index < 0 then None else getItemByIndex (w this) (nat index)) of
                None \<Rightarrow> Some 0
              | Some destItem \<Rightarrow>
                  if item_equals (w thing) (w destItem) \<and> icount (w destItem) < 100 then
                    map_option (\<lambda>ret. if ret = RETURNVALUE_NOERROR then 100 - ucast (icount (w destItem)) else 0)
                      (queryAdd index thing cnt flags)
                  else Some 0))
      else
        Some (if freeSlots (w this) = 0 then RETURNVALUE_CONTAINERNOTENOUGHROOM else RETURNVALUE_NOERROR, freeSlots (w this)))"

definition queryRemove ::
    "item_table \<Rightarrow> (nat \<Rightarrow> nat \<Rightarrow> u32 \<Rightarrow> u32 \<Rightarrow> ReturnValue) \<Rightarrow> store \<Rightarrow> nat \<Rightarrow> nat \<Rightarrow> u32 \<Rightarrow> u32 \<Rightarrow> ReturnValue option" where
  "queryRemove its houseRemove w this thing cnt flags =
     (if getThingIndex (w this) thing = - 1 then Some RETURNVALUE_NOTPOSSIBLE
      else if \<not> is_item (kind (w thing)) then Some RETURNVALUE_NOTPOSSIBLE
      else if cnt = 0 \<or> isStackable its (w thing) \<and> cnt > ucast (icount (w thing)) then Some RETURNVALUE_NOTPOSSIBLE
      else if \<not> it_moveable (its (ident (w thing))) \<and> \<not> hasBitSet FLAG_IGNORENOTMOVEABLE flags then Some RETURNVALUE_NOTMOVEABLE
      else
        map_option (\<lambda>topParent. case topParent of
            Some t \<Rightarrow> if kind (w t) = HouseTile_node then houseRemove t thing cnt flags else RETURNVALUE_NOERROR
          | None \<Rightarrow> RETURNVALUE_NOERROR)
          (getTopParent w this))"

text \<open>\<open>queryDestination\<close> yields the cylinder, the index and the item to stack on.\<close>

fun find_stack :: "store \<Rightarrow> nat \<Rightarrow> nat list \<Rightarrow> int \<Rightarrow> (nat \<times> int) option" where
  "find_stack w item [] n = None"
| "find_stack w item (x # xs) n =
     (if x \<noteq> item \<and> item_equals (w x) (w item) \<and> icount (w x) < 100 then Some (x, n) else find_stack w item xs (n + 1))"

definition queryDestination ::
    "item_table \<Rightarrow> store \<Rightarrow> nat \<Rightarrow> int \<Rightarrow> nat \<Rightarrow> nat option \<Rightarrow> u32 \<Rightarrow> nat \<times> int \<times> nat option" where
  "queryDestination its w this index thing dest flags =
     (if \<not> unlocked (w this) then (this, index, None)
      else if index = 254 then
        ((case getParent w this of
            Some p \<Rightarrow> if is_container (kind (w p)) then p else this
          | None \<Rightarrow> this), - 1, None)
      else
        let (index, dest) = (if index = 255 \<or> index \<ge> sint (capacity (w this)) then (- 1, None) else (index, dest)) in
        if \<not> is_item (kind (w thing)) then (this, index, dest)
        else
          let dest = (if index \<noteq> - 1 \<and> index \<ge> 0 then
                        (case getItemByIndex (w this) (nat index) of Some x \<Rightarrow> Some x | None \<Rightarrow> dest)
                      else dest)
          in if index \<noteq> - 1 \<and> (case dest of Some d \<Rightarrow> is_container (kind (w d)) | None \<Rightarrow> False) then (the dest, - 1, None)
             else if \<not> hasBitSet FLAG_IGNOREAUTOSTACK flags \<and> isStackable its (w thing) \<and> getParent w thing \<noteq> Some this then
               if (case dest of Some d \<Rightarrow> item_equals (w d) (w thing) \<and> icount (w d) < 100 | None \<Rightarrow> False) then (this, index, dest)
               else (case find_stack w thing (itemlist (w this)) 0 of
                       Some (x, n) \<Rightarrow> (this, n, Some x)
                     | None \<Rightarrow> (this, index, dest))
             else (this, index, dest))"

section \<open>Structure and weight\<close>

text \<open>The shape of the store: a container lists exactly the objects that point to it, parent pointers lead
  strictly upwards, and depot chests and inboxes lie in lockers, which lie in no container.\<close>

definition upward :: "(nat \<Rightarrow> nat) \<Rightarrow> store \<Rightarrow> bool" where
  "upward dep w \<longleftrightarrow> (\<forall>x p. parent (w x) = Some p \<longrightarrow> dep p < dep x)"

definition cont_shape :: "store \<Rightarrow> bool" where
  "cont_shape w \<longleftrightarrow>
     (\<forall>c x. is_container (kind (w c)) \<longrightarrow> (x \<in> set (itemlist (w c)) \<longleftrightarrow> parent (w x) = Some c)) \<and>
     (\<forall>c. is_container (kind (w c)) \<longrightarrow> distinct (itemlist (w c))) \<and>
     (\<forall>x p. kind (w x) \<in> {DepotChest, Inbox} \<longrightarrow> parent (w x) = Some p \<longrightarrow> kind (w p) = DepotLocker) \<and>
     (\<forall>x p. kind (w x) = DepotLocker \<longrightarrow> parent (w x) = Some p \<longrightarrow> \<not> is_container (kind (w p))) \<and>
     (\<exists>dep. upward dep w)"

definition contents_weight :: "item_table \<Rightarrow> store \<Rightarrow> nat \<Rightarrow> u32" where
  "contents_weight its w c = sum_list (map (\<lambda>x. getWeight its (w x)) (itemlist (w c)))"

text \<open>A depot chest does not pass its weight on to the locker, so a locker is not weighed.\<close>

definition weighed :: "store \<Rightarrow> nat \<Rightarrow> bool" where
  "weighed w c \<longleftrightarrow> is_container (kind (w c)) \<and> kind (w c) \<noteq> DepotLocker"

definition weight_inv :: "item_table \<Rightarrow> store \<Rightarrow> bool" where
  "weight_inv its w \<longleftrightarrow> (\<forall>c. weighed w c \<longrightarrow> totalWeight (w c) = contents_weight its w c)"

lemma cont_shapeD:
  assumes "cont_shape w"
  shows "is_container (kind (w c)) \<Longrightarrow> x \<in> set (itemlist (w c)) \<longleftrightarrow> parent (w x) = Some c"
    "is_container (kind (w c)) \<Longrightarrow> distinct (itemlist (w c))"
    "kind (w x) = DepotChest \<or> kind (w x) = Inbox \<Longrightarrow> parent (w x) = Some p \<Longrightarrow> kind (w p) = DepotLocker"
    "kind (w x) = DepotLocker \<Longrightarrow> parent (w x) = Some p \<Longrightarrow> \<not> is_container (kind (w p))"
    "\<exists>dep. upward dep w"
  using assms unfolding cont_shape_def by blast+

lemma upwardD: "upward dep w \<Longrightarrow> parent (w x) = Some p \<Longrightarrow> dep p < dep x"
  by (simp add: upward_def)

text \<open>Two stores that differ in weights only.\<close>

definition same_shape :: "store \<Rightarrow> store \<Rightarrow> bool" where
  "same_shape w w' \<longleftrightarrow> (\<forall>x. w' x = (w x)\<lparr>totalWeight := totalWeight (w' x)\<rparr>)"

lemma same_shapeD:
  assumes "same_shape w w'"
  shows "kind (w' x) = kind (w x)" "parent (w' x) = parent (w x)" "itemlist (w' x) = itemlist (w x)"
    "ident (w' x) = ident (w x)" "icount (w' x) = icount (w x)" "attributes (w' x) = attributes (w x)"
  using assms unfolding same_shape_def
  by (metis obj.select_convs(1) obj.surjective obj.update_convs(7), metis obj.select_convs(5) obj.surjective obj.update_convs(7),
      metis obj.select_convs(6) obj.surjective obj.update_convs(7), metis obj.select_convs(2) obj.surjective obj.update_convs(7),
      metis obj.select_convs(3) obj.surjective obj.update_convs(7), metis obj.select_convs(4) obj.surjective obj.update_convs(7))

lemma same_shape_refl [simp]: "same_shape w w"
  by (simp add: same_shape_def)

lemma same_shape_trans: "same_shape w1 w2 \<Longrightarrow> same_shape w2 w3 \<Longrightarrow> same_shape w1 w3"
  unfolding same_shape_def by (metis obj.surjective obj.update_convs(7))

lemma same_shape_weight: "same_shape w (w(c := (w c)\<lparr>totalWeight := t\<rparr>))"
  by (simp add: same_shape_def)

lemma cont_shape_same: "same_shape w w' \<Longrightarrow> cont_shape w' \<longleftrightarrow> cont_shape w"
  by (simp add: cont_shape_def upward_def same_shapeD)

lemma getParent_same: "same_shape w w' \<Longrightarrow> getParent w' x = getParent w x"
  by (simp add: getParent_def same_shapeD)

lemma getParentContainer_same: "same_shape w w' \<Longrightarrow> getParentContainer w' x = getParentContainer w x"
  by (simp add: getParentContainer_def getParent_same same_shapeD split: option.splits)

lemma weighed_same: "same_shape w w' \<Longrightarrow> weighed w' x = weighed w x"
  by (simp add: weighed_def same_shapeD)

lemma sum_list_bump:
  fixes f :: "nat \<Rightarrow> 'a::comm_monoid_add"
  assumes "distinct xs" "\<And>x. x \<noteq> c \<Longrightarrow> g x = f x" "g c = f c + d"
  shows "sum_list (map g xs) = sum_list (map f xs) + (if c \<in> set xs then d else 0)"
  using assms(1)
proof (induction xs)
  case (Cons x xs)
  then show ?case using assms(2)[of x] assms(3) by (cases "x = c") (auto simp: ac_simps)
qed simp

lemma item_getWeight_simps [simp]:
  "item_getWeight its (ob\<lparr>totalWeight := t\<rparr>) = item_getWeight its ob"
  "item_getWeight its (ob\<lparr>parent := q\<rparr>) = item_getWeight its ob"
  "item_getWeight its (ob\<lparr>itemlist := xs\<rparr>) = item_getWeight its ob"
  by (simp_all add: item_getWeight_def getBaseWeight_def isStackable_def cong: option.case_cong)

lemma getWeight_simps [simp]:
  "getWeight its (ob\<lparr>parent := q\<rparr>) = getWeight its ob" "getWeight its (ob\<lparr>itemlist := xs\<rparr>) = getWeight its ob"
  by (simp_all add: getWeight_def)

lemma getWeight_bump:
  assumes "is_container (kind (w c))"
  shows "getWeight its ((w(c := (w c)\<lparr>totalWeight := totalWeight (w c) + d\<rparr>)) x) = getWeight its (w x) + (if x = c then d else 0)"
  using assms by (simp add: getWeight_def)

lemma contents_bump:
  assumes "cont_shape w" "is_container (kind (w c))" "is_container (kind (w p))"
  shows "contents_weight its (w(c := (w c)\<lparr>totalWeight := totalWeight (w c) + d\<rparr>)) p =
    contents_weight its w p + (if parent (w c) = Some p then d else 0)"
proof -
  let ?w = "w(c := (w c)\<lparr>totalWeight := totalWeight (w c) + d\<rparr>)"
  have "sum_list (map (\<lambda>x. getWeight its (?w x)) (itemlist (w p))) =
      sum_list (map (\<lambda>x. getWeight its (w x)) (itemlist (w p))) + (if c \<in> set (itemlist (w p)) then d else 0)"
    by (rule sum_list_bump[OF cont_shapeD(2)[OF assms(1,3)]]) (use assms(2) in \<open>auto simp: getWeight_def\<close>)
  moreover have "itemlist (?w p) = itemlist (w p)" by simp
  ultimately show ?thesis by (simp only: contents_weight_def cont_shapeD(1)[OF assms(1,3)])
qed

lemma parent_not_self: "cont_shape w \<Longrightarrow> parent (w c) \<noteq> Some c"
  using cont_shapeD(5) upwardD by blast

lemma parentContainer_cases:
  assumes "cont_shape w"
  shows "getParentContainer w c = Some p \<Longrightarrow> parent (w c) = Some p \<and> is_container (kind (w p))"
    "getParentContainer w c = None \<Longrightarrow> parent (w c) = Some p \<Longrightarrow> \<not> weighed w p"
proof -
  assume up: "getParentContainer w c = Some p"
  then have g: "getParent w c = Some p" "is_container (kind (w p))"
    by (auto simp: getParentContainer_def split: option.splits if_splits)
  show "parent (w c) = Some p \<and> is_container (kind (w p))"
  proof (cases "kind (w c) = DepotChest \<or> kind (w c) = Inbox")
    case True
    then obtain l where l: "parent (w c) = Some l" "parent (w l) = Some p" using g(1) by (auto simp: getParent_def bind_eq_Some_conv)
    then show ?thesis using cont_shapeD(3)[OF assms True l(1)] cont_shapeD(4)[OF assms _ l(2)] g(2) by blast
  qed (use g in \<open>auto simp: getParent_def\<close>)
next
  assume up: "getParentContainer w c = None" and p: "parent (w c) = Some p"
  show "\<not> weighed w p"
  proof (cases "kind (w c) = DepotChest \<or> kind (w c) = Inbox")
    case True
    then show ?thesis using cont_shapeD(3)[OF assms True p] by (simp add: weighed_def)
  qed (use up p in \<open>auto simp: getParent_def getParentContainer_def weighed_def split: if_splits\<close>)
qed

text \<open>The walk up the parents restores the weight of every container when the weight of one was off by
  the difference that is passed on.\<close>

lemma updateItemWeight_restores:
  assumes "cont_shape w" "upward dep w" "is_container (kind (w c))"
    "\<And>p. weighed w p \<Longrightarrow> p \<noteq> c \<Longrightarrow> totalWeight (w p) = contents_weight its w p"
    "weighed w c \<Longrightarrow> totalWeight (w c) + d = contents_weight its w c"
  shows "\<exists>w'. updateItemWeight c d w = Some w' \<and> same_shape w w' \<and> weight_inv its w'"
  using assms
proof (induction "dep c" arbitrary: c w rule: less_induct)
  case less
  let ?w = "w(c := (w c)\<lparr>totalWeight := totalWeight (w c) + d\<rparr>)"
  have same: "same_shape w ?w" by (rule same_shape_weight)
  note bump = contents_bump[OF less.prems(1,3), of _ its d]
  have c_ok: "weighed ?w c \<Longrightarrow> totalWeight (?w c) = contents_weight its ?w c"
    using less.prems(3,5) bump[of c] parent_not_self[OF less.prems(1), of c] by (simp add: weighed_def)
  have others: "weighed ?w p \<Longrightarrow> p \<noteq> c \<Longrightarrow> contents_weight its ?w p = totalWeight (?w p) + (if parent (w c) = Some p then d else 0)" for p
    using less.prems(4)[of p] bump[of p] by (simp add: weighed_def)
  show ?case
  proof (cases "getParentContainer w c")
    case None
    have "weight_inv its ?w" unfolding weight_inv_def
    proof (intro allI impI)
      fix p assume p: "weighed ?w p"
      then have "parent (w c) \<noteq> Some p"
        using parentContainer_cases(2)[OF less.prems(1) None, of p] weighed_same[OF same, of p] by auto
      then show "totalWeight (?w p) = contents_weight its ?w p" using c_ok p others[OF p] by (cases "p = c") auto
    qed
    moreover have "updateItemWeight c d w = Some ?w"
      using None getParentContainer_same[OF same, of c] by (subst updateItemWeight.simps) (simp add: Let_def)
    ultimately show ?thesis using same by blast
  next
    case (Some p)
    have p: "parent (w c) = Some p" "is_container (kind (w p))" using parentContainer_cases(1)[OF less.prems(1) Some] by auto
    have ne: "p \<noteq> c" using p(1) parent_not_self[OF less.prems(1), of c] by auto
    have "\<exists>w'. updateItemWeight p d ?w = Some w' \<and> same_shape ?w w' \<and> weight_inv its w'"
    proof (rule less.hyps)
      show "dep p < dep c" by (rule upwardD[OF less.prems(2) p(1)])
      show "cont_shape ?w" using less.prems(1) cont_shape_same[OF same] by simp
      show "upward dep ?w" using less.prems(2) by (simp add: upward_def)
      show "is_container (kind (?w p))" using p(2) ne by simp
      show "totalWeight (?w q) = contents_weight its ?w q" if "weighed ?w q" "q \<noteq> p" for q
        using c_ok that others[OF that(1)] p(1) by (cases "q = c") auto
      show "totalWeight (?w p) + d = contents_weight its ?w p" if "weighed ?w p"
        using others[OF that ne] p(1) by simp
    qed
    then obtain w' where "updateItemWeight p d ?w = Some w'" "same_shape ?w w'" "weight_inv its w'" by blast
    moreover have "updateItemWeight c d w = updateItemWeight p d ?w"
      using Some getParentContainer_same[OF same, of c] by (subst updateItemWeight.simps) (simp add: Let_def)
    ultimately show ?thesis using same_shape_trans[OF same] by auto
  qed
qed

lemma getParentContainer_dep:
  assumes "upward dep w" "getParentContainer w c = Some p"
  shows "dep p < dep c"
proof -
  have g: "getParent w c = Some p" using assms(2) by (auto simp: getParentContainer_def split: option.splits if_splits)
  show ?thesis
  proof (cases "parent (w c) = Some p")
    case False
    then obtain l where l: "parent (w c) = Some l" "parent (w l) = Some p"
      using g by (auto simp: getParent_def bind_eq_Some_conv split: if_splits)
    show ?thesis using upwardD[OF assms(1) l(1)] upwardD[OF assms(1) l(2)] by simp
  qed (rule upwardD[OF assms(1)])
qed

text \<open>The walk neither reads item lists nor the objects below the container it starts from.\<close>

lemma updateItemWeight_setParent:
  assumes "upward dep w" "dep c < dep z"
  shows "updateItemWeight c d (setParent z q w) = map_option (setParent z q) (updateItemWeight c d w)"
  using assms
proof (induction "dep c" arbitrary: c w rule: less_induct)
  case less
  let ?w = "w(c := (w c)\<lparr>totalWeight := totalWeight (w c) + d\<rparr>)"
  have ne: "c \<noteq> z" using less.prems(2) by auto
  have step: "(setParent z q w)(c := (setParent z q w c)\<lparr>totalWeight := totalWeight (setParent z q w c) + d\<rparr>) = setParent z q ?w"
    using ne by (auto simp: setParent_def fun_eq_iff)
  have low: "p \<noteq> z" if "parent (w c) = Some p" for p using upwardD[OF less.prems(1) that] less.prems(2) by auto
  have up: "getParent (setParent z q ?w) c = getParent ?w c"
    using ne low by (auto simp: getParent_def setParent_def bind_eq_Some_conv split: option.splits Option.bind_splits)
  have upc: "getParentContainer (setParent z q ?w) c = getParentContainer ?w c"
    using up by (auto simp: getParentContainer_def setParent_def split: option.splits)
  have dep: "upward dep ?w" using less.prems(1) by (simp add: upward_def)
  note above = getParentContainer_dep[OF dep]
  show ?case
  proof (cases "getParentContainer ?w c")
    case None
    then show ?thesis using step upc by (simp add: updateItemWeight.simps[of c d] Let_def)
  next
    case (Some p)
    have "dep p < dep z" using above[OF Some] less.prems(2) by simp
    then have "updateItemWeight p d (setParent z q ?w) = map_option (setParent z q) (updateItemWeight p d ?w)"
      using less.hyps[OF above[OF Some] dep] by blast
    then show ?thesis using Some step upc by (simp add: updateItemWeight.simps[of c d] Let_def)
  qed
qed

definition set_items :: "nat \<Rightarrow> nat list \<Rightarrow> store \<Rightarrow> store" where
  "set_items c xs w = w(c := (w c)\<lparr>itemlist := xs\<rparr>)"

lemma updateItemWeight_set_items:
  assumes "upward dep w"
  shows "updateItemWeight c d (set_items a xs w) = map_option (set_items a xs) (updateItemWeight c d w)"
  using assms
proof (induction "dep c" arbitrary: c w rule: less_induct)
  case less
  let ?w = "w(c := (w c)\<lparr>totalWeight := totalWeight (w c) + d\<rparr>)"
  have step: "(set_items a xs w)(c := (set_items a xs w c)\<lparr>totalWeight := totalWeight (set_items a xs w c) + d\<rparr>) = set_items a xs ?w"
    by (auto simp: set_items_def fun_eq_iff)
  have upc: "getParentContainer (set_items a xs ?w) c = getParentContainer ?w c"
    by (auto simp: getParentContainer_def getParent_def set_items_def split: option.splits Option.bind_splits)
  have dep: "upward dep ?w" using less.prems(1) by (simp add: upward_def)
  note above = getParentContainer_dep[OF dep]
  show ?case
  proof (cases "getParentContainer ?w c")
    case None
    then show ?thesis using step upc by (simp add: updateItemWeight.simps[of c d] Let_def)
  next
    case (Some p)
    have "updateItemWeight p d (set_items a xs ?w) = map_option (set_items a xs) (updateItemWeight p d ?w)"
      using less.hyps[OF above[OF Some] dep] by blast
    then show ?thesis using Some step upc by (simp add: updateItemWeight.simps[of c d] Let_def)
  qed
qed

section \<open>Preservation\<close>

text \<open>\<open>x\<close> lies somewhere inside \<open>a\<close>.\<close>

definition up :: "store \<Rightarrow> (nat \<times> nat) set" where
  "up w = {(x, p). parent (w x) = Some p}"

lemma up_step: "(x, a) \<in> (up w)\<^sup>* \<longleftrightarrow> x = a \<or> (\<exists>p. parent (w x) = Some p \<and> (p, a) \<in> (up w)\<^sup>*)"
proof
  assume "(x, a) \<in> (up w)\<^sup>*"
  then show "x = a \<or> (\<exists>p. parent (w x) = Some p \<and> (p, a) \<in> (up w)\<^sup>*)"
    by (cases rule: converse_rtranclE) (auto simp: up_def)
next
  assume "x = a \<or> (\<exists>p. parent (w x) = Some p \<and> (p, a) \<in> (up w)\<^sup>*)"
  then show "(x, a) \<in> (up w)\<^sup>*" by (auto simp: up_def intro: converse_rtrancl_into_rtrancl)
qed

definition put_in :: "nat \<Rightarrow> nat \<Rightarrow> nat list \<Rightarrow> store \<Rightarrow> store" where
  "put_in c x xs w = set_items c xs (setParent x (Some c) w)"

lemma upward_put_in:
  assumes "upward dep w" "parent (w x) = None" "(c, x) \<notin> (up w)\<^sup>*"
  shows "\<exists>dep'. upward dep' (put_in c x xs w)"
proof -
  let ?dep = "\<lambda>y. if (y, x) \<in> (up w)\<^sup>* then dep y + dep c + 1 else dep y"
  have "upward ?dep (put_in c x xs w)"
    unfolding upward_def
  proof (intro allI impI)
    fix y p assume e: "parent (put_in c x xs w y) = Some p"
    show "?dep p < ?dep y"
    proof (cases "y = x")
      case True
      then have "p = c" using e by (auto simp: put_in_def set_items_def setParent_def split: if_splits)
      then show ?thesis using assms(3) True by simp
    next
      case False
      then have old: "parent (w y) = Some p" using e by (auto simp: put_in_def set_items_def setParent_def split: if_splits)
      then have "(y, x) \<in> (up w)\<^sup>* \<longleftrightarrow> (p, x) \<in> (up w)\<^sup>*" using False up_step[of y x w] by auto
      then show ?thesis using upwardD[OF assms(1) old] by simp
    qed
  qed
  then show ?thesis by blast
qed

definition loose_item :: "store \<Rightarrow> nat \<Rightarrow> nat \<Rightarrow> bool" where
  "loose_item w c x \<longleftrightarrow>
     is_item (kind (w x)) \<and> kind (w x) \<notin> {DepotChest, Inbox, DepotLocker} \<and> parent (w x) = None \<and> (c, x) \<notin> (up w)\<^sup>*"

lemma cont_shape_put_in:
  assumes shape: "cont_shape w" and c: "is_container (kind (w c))" and x: "loose_item w c x"
    and xs: "set xs = insert x (set (itemlist (w c)))" "distinct xs"
  shows "cont_shape (put_in c x xs w)"
proof -
  let ?w = "put_in c x xs w"
  have kinds: "kind (?w y) = kind (w y)" for y by (simp add: put_in_def set_items_def setParent_def)
  have parents: "parent (?w y) = (if y = x then Some c else parent (w y))" for y by (simp add: put_in_def set_items_def setParent_def)
  have lists: "itemlist (?w y) = (if y = c then xs else itemlist (w y))" for y by (simp add: put_in_def set_items_def setParent_def)
  have none: "parent (w x) = None" using x by (simp add: loose_item_def)
  obtain dep where dep: "upward dep w" using cont_shapeD(5)[OF shape] by blast
  have "\<exists>dep. upward dep ?w" using upward_put_in[OF dep none, of c xs] x by (simp add: loose_item_def)
  moreover have "y \<in> set (itemlist (?w a)) \<longleftrightarrow> parent (?w y) = Some a" if "is_container (kind (?w a))" for a y
    using cont_shapeD(1)[OF shape, of a y] that none xs(1) by (auto simp: kinds lists parents)
  moreover have "distinct (itemlist (?w a))" if "is_container (kind (?w a))" for a
    using cont_shapeD(2)[OF shape, of a] that xs(2) by (simp add: kinds lists)
  moreover have "kind (?w p) = DepotLocker" if "kind (?w y) \<in> {DepotChest, Inbox}" "parent (?w y) = Some p" for y p
    using cont_shapeD(3)[OF shape, of y p] that x by (auto simp: kinds parents loose_item_def split: if_splits)
  moreover have "\<not> is_container (kind (?w p))" if "kind (?w y) = DepotLocker" "parent (?w y) = Some p" for y p
    using cont_shapeD(4)[OF shape, of y p] that x by (auto simp: kinds parents loose_item_def split: if_splits)
  ultimately show ?thesis unfolding cont_shape_def by blast
qed

lemma put_in_fields:
  "kind (put_in c x xs w y) = kind (w y)" "totalWeight (put_in c x xs w y) = totalWeight (w y)"
  "getWeight its (put_in c x xs w y) = getWeight its (w y)"
  "parent (put_in c x xs w y) = (if y = x then Some c else parent (w y))"
  "itemlist (put_in c x xs w y) = (if y = c then xs else itemlist (w y))"
  by (simp_all add: put_in_def set_items_def setParent_def)

lemma put_in_shape:
  assumes shape: "cont_shape w" and c: "is_container (kind (w c))" and x: "loose_item w c x"
    and xs: "mset xs = add_mset x (mset (itemlist (w c)))"
  shows "cont_shape (put_in c x xs w)"
proof -
  have notin: "x \<notin> set (itemlist (w c))" using cont_shapeD(1)[OF shape c, of x] x by (simp add: loose_item_def)
  have xs': "set xs = insert x (set (itemlist (w c)))" using xs by (metis set_mset_add_mset_insert set_mset_mset)
  have "distinct xs" using xs notin cont_shapeD(2)[OF shape c] by (metis distinct.simps(2) mset.simps(2) mset_eq_imp_distinct_iff)
  then show ?thesis using cont_shape_put_in[OF shape c x xs'] by simp
qed

lemma put_in_contents:
  assumes "mset xs = add_mset x (mset (itemlist (w c)))"
  shows "contents_weight its (put_in c x xs w) c = getWeight its (w x) + contents_weight its w c"
    "p \<noteq> c \<Longrightarrow> contents_weight its (put_in c x xs w) p = contents_weight its w p"
proof -
  have "sum_list (map (\<lambda>y. getWeight its (w y)) xs) = sum_mset (image_mset (\<lambda>y. getWeight its (w y)) (mset xs))"
    by (metis mset_map sum_mset_sum_list)
  also have "\<dots> = getWeight its (w x) + contents_weight its w c"
    by (simp add: assms contents_weight_def) (metis mset_map sum_mset_sum_list)
  finally show "contents_weight its (put_in c x xs w) c = getWeight its (w x) + contents_weight its w c"
    by (simp add: contents_weight_def put_in_fields)
  show "p \<noteq> c \<Longrightarrow> contents_weight its (put_in c x xs w) p = contents_weight its w p"
    by (simp add: contents_weight_def put_in_fields)
qed

lemma put_in_restores:
  assumes shape: "cont_shape w" and weight: "weight_inv its w" and c: "is_container (kind (w c))" and x: "loose_item w c x"
    and xs: "mset xs = add_mset x (mset (itemlist (w c)))"
  shows "\<exists>w'. updateItemWeight c (getWeight its (w x)) (put_in c x xs w) = Some w' \<and>
    same_shape (put_in c x xs w) w' \<and> cont_shape w' \<and> weight_inv its w'"
proof -
  let ?w = "put_in c x xs w"
  have shape': "cont_shape ?w" by (rule put_in_shape[OF shape c x xs])
  obtain dep where dep: "upward dep ?w" using cont_shapeD(5)[OF shape'] by blast
  have wc: "totalWeight (w p) = contents_weight its w p" if "weighed w p" for p using weight that by (simp add: weight_inv_def)
  have "\<exists>w'. updateItemWeight c (getWeight its (w x)) ?w = Some w' \<and> same_shape ?w w' \<and> weight_inv its w'"
    by (rule updateItemWeight_restores[OF shape' dep])
      (use c wc in \<open>auto simp: weighed_def put_in_fields put_in_contents[where w = w and c = c, OF xs]\<close>)
  then show ?thesis using cont_shape_same shape' by blast
qed

lemma index_from_missing: "0 \<le> i \<Longrightarrow> index_from xs x i = - 1 \<longleftrightarrow> x \<notin> set xs"
  by (induction xs arbitrary: i) auto

lemma index_from_remove:
  "x \<in> set xs \<Longrightarrow> \<exists>k. index_from xs x i = i + int k \<and> take k xs @ drop (Suc k) xs = remove1 x xs \<and> k < length xs \<and> xs ! k = x"
proof (induction xs arbitrary: i)
  case (Cons y ys)
  show ?case
  proof (cases "y = x")
    case False
    then obtain k where k: "index_from ys x (i + 1) = i + 1 + int k" "take k ys @ drop (Suc k) ys = remove1 x ys" "k < length ys" "ys ! k = x"
      using Cons.IH[of "i + 1"] Cons.prems by auto
    show ?thesis using False k by (intro exI[of _ "Suc k"]) auto
  qed (auto intro: exI[of _ 0])
qed simp

lemma getThingIndex_missing: "getThingIndex c x = - 1 \<longleftrightarrow> x \<notin> set (itemlist c)"
  by (simp add: getThingIndex_def index_from_missing)

lemma getThingIndex_remove:
  assumes "x \<in> set (itemlist c)"
  shows "take (nat (getThingIndex c x)) (itemlist c) @ drop (Suc (nat (getThingIndex c x))) (itemlist c) = remove1 x (itemlist c)"
  using index_from_remove[OF assms, of 0] by (auto simp: getThingIndex_def)

lemma updateItemWeight_total:
  assumes "upward dep w"
  shows "\<exists>w'. updateItemWeight c d w = Some w' \<and> same_shape w w'"
  using assms
proof (induction "dep c" arbitrary: c w rule: less_induct)
  case less
  let ?w = "w(c := (w c)\<lparr>totalWeight := totalWeight (w c) + d\<rparr>)"
  have dep: "upward dep ?w" using less.prems by (simp add: upward_def)
  have same: "same_shape w ?w" by (rule same_shape_weight)
  show ?case
  proof (cases "getParentContainer ?w c")
    case None
    then show ?thesis using same by (simp add: updateItemWeight.simps[of c d] Let_def)
  next
    case (Some p)
    obtain w' where "updateItemWeight p d ?w = Some w'" "same_shape ?w w'"
      using less.hyps[OF getParentContainer_dep[OF dep Some] dep] by blast
    then show ?thesis using Some same_shape_trans[OF same] by (auto simp: updateItemWeight.simps[of c d] Let_def)
  qed
qed

lemma addThing_inv:
  assumes shape: "cont_shape w" and weight: "weight_inv its w" and c: "is_container (kind (w c))" and x: "loose_item w c x"
    and index: "index < sint (capacity (w c))"
  shows "\<exists>w'. addThing its c index x w = Some w' \<and> cont_shape w' \<and> weight_inv its w' \<and>
    itemlist (w' c) = x # itemlist (w c) \<and> parent (w' x) = Some c \<and> (\<forall>y. kind (w' y) = kind (w y)) \<and>
    same_shape (put_in c x (x # itemlist (w c)) w) w'"
proof -
  have ne: "x \<noteq> c" using x by (auto simp: loose_item_def)
  let ?xs = "x # itemlist (w c)"
  obtain w' where w': "updateItemWeight c (getWeight its (w x)) (put_in c x ?xs w) = Some w'"
    "same_shape (put_in c x ?xs w) w'" "cont_shape w'" "weight_inv its w'"
    using put_in_restores[OF shape weight c x, of ?xs] by auto
  have "addThing its c index x w = Some w'"
    using w'(1) x index ne by (simp add: addThing_def Let_def loose_item_def put_in_def set_items_def setParent_def)
  then show ?thesis using w' ne same_shapeD(1-3)[OF w'(2)] by (simp add: put_in_fields)
qed

lemma addItemBack_inv:
  assumes shape: "cont_shape w" and weight: "weight_inv its w" and c: "is_container (kind (w c))" and x: "loose_item w c x"
  shows "\<exists>w'. addItemBack its c x w = Some w' \<and> cont_shape w' \<and> weight_inv its w' \<and> itemlist (w' c) = itemlist (w c) @ [x]"
proof -
  have ne: "x \<noteq> c" using x by (auto simp: loose_item_def)
  let ?xs = "itemlist (w c) @ [x]"
  obtain w' where w': "updateItemWeight c (getWeight its (w x)) (put_in c x ?xs w) = Some w'"
    "same_shape (put_in c x ?xs w) w'" "cont_shape w'" "weight_inv its w'"
    using put_in_restores[OF shape weight c x, of ?xs] by auto
  have eq: "addItem c x w = put_in c x ?xs w"
    using ne by (auto simp: addItem_def put_in_def set_items_def setParent_def fun_eq_iff)
  have gw: "getWeight its (put_in c x ?xs w x) = getWeight its (w x)"
    by (simp add: put_in_def set_items_def setParent_def)
  have "addItemBack its c x w = Some w'" unfolding addItemBack_def Let_def eq gw by (rule w'(1))
  then show ?thesis using w' same_shapeD(3)[OF w'(2)] by (simp add: put_in_def set_items_def)
qed

text \<open>Taking an item out of its container.\<close>

definition take_out :: "nat \<Rightarrow> nat \<Rightarrow> store \<Rightarrow> store" where
  "take_out c x w = set_items c (remove1 x (itemlist (w c))) (setParent x None w)"

lemma take_out_fields:
  "kind (take_out c x w y) = kind (w y)" "totalWeight (take_out c x w y) = totalWeight (w y)"
  "getWeight its (take_out c x w y) = getWeight its (w y)"
  "parent (take_out c x w y) = (if y = x then None else parent (w y))"
  "itemlist (take_out c x w y) = (if y = c then remove1 x (itemlist (w c)) else itemlist (w y))"
  by (simp_all add: take_out_def set_items_def setParent_def)

lemma take_out_shape:
  assumes shape: "cont_shape w" and c: "is_container (kind (w c))" and x: "x \<in> set (itemlist (w c))"
  shows "cont_shape (take_out c x w)"
proof -
  let ?w = "take_out c x w"
  have px: "parent (w x) = Some c" using cont_shapeD(1)[OF shape c] x by blast
  have d: "distinct (itemlist (w c))" by (rule cont_shapeD(2)[OF shape c])
  obtain dep where "upward dep w" using cont_shapeD(5)[OF shape] by blast
  then have dep: "upward dep ?w" by (simp add: upward_def take_out_fields)
  have "y \<in> set (itemlist (?w a)) \<longleftrightarrow> parent (?w y) = Some a" if "is_container (kind (?w a))" for a y
    using cont_shapeD(1)[OF shape, of a y] that px d by (auto simp: take_out_fields)
  moreover have "distinct (itemlist (?w a))" if "is_container (kind (?w a))" for a
    using cont_shapeD(2)[OF shape, of a] that d by (simp add: take_out_fields)
  moreover have "kind (?w p) = DepotLocker" if "kind (?w y) \<in> {DepotChest, Inbox}" "parent (?w y) = Some p" for y p
    using cont_shapeD(3)[OF shape, of y p] that by (auto simp: take_out_fields split: if_splits)
  moreover have "\<not> is_container (kind (?w p))" if "kind (?w y) = DepotLocker" "parent (?w y) = Some p" for y p
    using cont_shapeD(4)[OF shape, of y p] that by (auto simp: take_out_fields split: if_splits)
  ultimately show ?thesis using dep unfolding cont_shape_def by blast
qed

lemma take_out_contents:
  assumes "x \<in> set (itemlist (w c))"
  shows "contents_weight its (take_out c x w) c = contents_weight its w c - getWeight its (w x)"
    "p \<noteq> c \<Longrightarrow> contents_weight its (take_out c x w) p = contents_weight its w p"
proof -
  have "contents_weight its w c = getWeight its (w x) + sum_list (map (\<lambda>y. getWeight its (w y)) (remove1 x (itemlist (w c))))"
    using sum_list_map_remove1[OF assms, of "\<lambda>y. getWeight its (w y)"] by (simp add: contents_weight_def)
  then show "contents_weight its (take_out c x w) c = contents_weight its w c - getWeight its (w x)"
    by (simp add: contents_weight_def take_out_fields)
  show "p \<noteq> c \<Longrightarrow> contents_weight its (take_out c x w) p = contents_weight its w p"
    by (simp add: contents_weight_def take_out_fields)
qed

lemma take_out_restores:
  assumes shape: "cont_shape w" and weight: "weight_inv its w" and c: "is_container (kind (w c))" and x: "x \<in> set (itemlist (w c))"
  shows "\<exists>w'. updateItemWeight c (- getWeight its (w x)) (take_out c x w) = Some w' \<and>
    same_shape (take_out c x w) w' \<and> cont_shape w' \<and> weight_inv its w'"
proof -
  let ?w = "take_out c x w"
  have shape': "cont_shape ?w" by (rule take_out_shape[OF shape c x])
  obtain dep where dep: "upward dep ?w" using cont_shapeD(5)[OF shape'] by blast
  have wc: "totalWeight (w p) = contents_weight its w p" if "weighed w p" for p using weight that by (simp add: weight_inv_def)
  have "\<exists>w'. updateItemWeight c (- getWeight its (w x)) ?w = Some w' \<and> same_shape ?w w' \<and> weight_inv its w'"
    by (rule updateItemWeight_restores[OF shape' dep])
      (use c wc in \<open>auto simp: weighed_def take_out_fields take_out_contents[where w = w and c = c, OF x]\<close>)
  then show ?thesis using cont_shape_same shape' by blast
qed

text \<open>Changing the data of an item in place, as \<open>updateThing\<close> and the removal of part of a stack do.\<close>

lemma change_restores:
  assumes shape: "cont_shape w" and weight: "weight_inv its w" and c: "is_container (kind (w c))" and x: "x \<in> set (itemlist (w c))"
    and ob: "kind ob = kind (w x)" "parent ob = parent (w x)" "itemlist ob = itemlist (w x)" "totalWeight ob = totalWeight (w x)"
  shows "\<exists>w'. updateItemWeight c (- getWeight its (w x) + getWeight its ob) (w(x := ob)) = Some w' \<and>
    same_shape (w(x := ob)) w' \<and> cont_shape w' \<and> weight_inv its w'"
proof -
  let ?w = "w(x := ob)"
  have px: "parent (w x) = Some c" using cont_shapeD(1)[OF shape c] x by blast
  have fields: "kind (?w y) = kind (w y)" "parent (?w y) = parent (w y)" "itemlist (?w y) = itemlist (w y)" "totalWeight (?w y) = totalWeight (w y)" for y
    using ob by simp_all
  have "cont_shape ?w \<longleftrightarrow> cont_shape w" unfolding cont_shape_def upward_def fields by (rule refl)
  then have shape': "cont_shape ?w" using shape by simp
  obtain dep where dep: "upward dep ?w" using cont_shapeD(5)[OF shape'] by blast
  have contents: "contents_weight its ?w p = contents_weight its w p + (if p = c then - getWeight its (w x) + getWeight its ob else 0)"
    if "is_container (kind (w p))" for p
  proof -
    have "sum_list (map (\<lambda>y. getWeight its (?w y)) (itemlist (w p))) =
      sum_list (map (\<lambda>y. getWeight its (w y)) (itemlist (w p))) + (if x \<in> set (itemlist (w p)) then - getWeight its (w x) + getWeight its ob else 0)"
      by (rule sum_list_bump[OF cont_shapeD(2)[OF shape that]]) auto
    moreover have "x \<in> set (itemlist (w p)) \<longleftrightarrow> p = c" using cont_shapeD(1)[OF shape that, of x] px by auto
    ultimately show ?thesis by (simp only: contents_weight_def fields)
  qed
  have wc: "totalWeight (w p) = contents_weight its w p" if "weighed w p" for p using weight that by (simp add: weight_inv_def)
  have "\<exists>w'. updateItemWeight c (- getWeight its (w x) + getWeight its ob) ?w = Some w' \<and> same_shape ?w w' \<and> weight_inv its w'"
  proof (rule updateItemWeight_restores[OF shape' dep])
    show "is_container (kind (?w c))" using c by (simp only: fields)
    show "totalWeight (?w p) = contents_weight its ?w p" if "weighed ?w p" "p \<noteq> c" for p
      using that wc[of p] contents[of p] by (simp only: weighed_def fields) simp
    show "totalWeight (?w c) + (- getWeight its (w x) + getWeight its ob) = contents_weight its ?w c" if "weighed ?w c"
      using that wc[of c] contents[OF c] by (simp only: weighed_def fields) simp
  qed
  then show ?thesis using cont_shape_same shape' by blast
qed

lemma setID_fields [simp]:
  "kind (setID its i ob) = kind ob" "parent (setID its i ob) = parent ob" "itemlist (setID its i ob) = itemlist ob"
  "totalWeight (setID its i ob) = totalWeight ob"
  by (simp_all add: setID_def setIntAttr_def removeAttribute_def Let_def)

lemma setSubType_fields [simp]:
  "kind (setSubType its n ob) = kind ob" "parent (setSubType its n ob) = parent ob" "itemlist (setSubType its n ob) = itemlist ob"
  "totalWeight (setSubType its n ob) = totalWeight ob"
  by (simp_all add: setSubType_def setIntAttr_def setItemCount_def Let_def)

lemma removeThing_result:
  assumes shape: "cont_shape w" and weight: "weight_inv its w" and c: "is_container (kind (w c))"
    and item: "is_item (kind (w x))" and x: "x \<in> set (itemlist (w c))"
  shows "\<exists>w'. removeThing its c x n w = Some w' \<and> cont_shape w' \<and> weight_inv its w' \<and>
    same_shape (if isStackable its (w x) \<and> n \<noteq> ucast (icount (w x))
      then w(x := setItemCount (new_item_count (icount (w x)) n) (w x)) else take_out c x w) w'"
proof (cases "isStackable its (w x) \<and> n \<noteq> ucast (icount (w x))")
  case part: True
  let ?ob = "setItemCount (new_item_count (icount (w x)) n) (w x)"
  have "removeThing its c x n w = updateItemWeight c (- getWeight its (w x) + getWeight its ?ob) (w(x := ?ob))"
    using part item x by (simp add: removeThing_def Let_def getThingIndex_missing)
  then show ?thesis using part change_restores[OF shape weight c x, of ?ob] by (auto simp: setItemCount_def)
next
  case whole: False
  obtain dep where dep: "upward dep w" using cont_shapeD(5)[OF shape] by blast
  have px: "parent (w x) = Some c" using cont_shapeD(1)[OF shape c] x by blast
  have below: "dep c < dep x" by (rule upwardD[OF dep px])
  have ne: "x \<noteq> c" using below by auto
  let ?d = "- getWeight its (w x)" and ?xs = "remove1 x (itemlist (w c))"
  have dep': "upward dep (setParent x None w)" using dep by (simp add: upward_def setParent_def)
  have swap: "updateItemWeight c ?d (take_out c x w) = map_option (\<lambda>w. set_items c ?xs (setParent x None w)) (updateItemWeight c ?d w)"
    unfolding take_out_def updateItemWeight_set_items[OF dep'] updateItemWeight_setParent[OF dep below]
    by (simp add: option.map_comp comp_def)
  obtain v where v: "updateItemWeight c ?d w = Some v" "same_shape w v" using updateItemWeight_total[OF dep] by blast
  have list: "itemlist (v c) = itemlist (w c)" by (rule same_shapeD(3)[OF v(2)])
  have "removeThing its c x n w = Some (set_items c ?xs (setParent x None v))"
    using whole item x v(1) ne getThingIndex_remove[OF x]
    by (auto simp: removeThing_def Let_def getThingIndex_missing set_items_def setParent_def list)
  then have "removeThing its c x n w = updateItemWeight c ?d (take_out c x w)" using swap v(1) by simp
  then show ?thesis using whole take_out_restores[OF shape weight c x] by auto
qed

lemma removeThing_inv:
  assumes shape: "cont_shape w" and weight: "weight_inv its w" and c: "is_container (kind (w c))"
  shows "\<exists>w'. removeThing its c x n w = Some w' \<and> cont_shape w' \<and> weight_inv its w'"
proof (cases "is_item (kind (w x)) \<and> x \<in> set (itemlist (w c))")
  case False
  then show ?thesis using shape weight by (auto simp: removeThing_def Let_def getThingIndex_missing)
next
  case True
  then show ?thesis using removeThing_result[OF assms, of x n] by blast
qed

lemma updateThing_result:
  assumes shape: "cont_shape w" and weight: "weight_inv its w" and c: "is_container (kind (w c))"
    and item: "is_item (kind (w x))" and x: "x \<in> set (itemlist (w c))"
  shows "\<exists>w'. updateThing its c x itemId n w = Some w' \<and> cont_shape w' \<and> weight_inv its w' \<and>
    same_shape (w(x := setSubType its (ucast n) (setID its itemId (w x)))) w'"
proof -
  let ?ob = "setSubType its (ucast n) (setID its itemId (w x))"
  have "updateThing its c x itemId n w = updateItemWeight c (- getWeight its (w x) + getWeight its ?ob) (w(x := ?ob))"
    using item x by (simp add: updateThing_def Let_def getThingIndex_missing)
  then show ?thesis using change_restores[OF shape weight c x, of ?ob] by auto
qed

lemma updateThing_inv:
  assumes shape: "cont_shape w" and weight: "weight_inv its w" and c: "is_container (kind (w c))"
  shows "\<exists>w'. updateThing its c x itemId n w = Some w' \<and> cont_shape w' \<and> weight_inv its w'"
proof (cases "is_item (kind (w x)) \<and> x \<in> set (itemlist (w c))")
  case False
  then show ?thesis using shape weight by (auto simp: updateThing_def Let_def getThingIndex_missing)
next
  case True
  then show ?thesis using updateThing_result[OF assms, of x itemId n] by blast
qed

lemma loose_take_out:
  assumes "cont_shape w" "is_container (kind (w c))" "r \<in> set (itemlist (w c))" "loose_item w c x"
  shows "loose_item (take_out c r w) c x"
proof -
  have "(up (take_out c r w))\<^sup>* \<subseteq> (up w)\<^sup>*" by (rule rtrancl_mono) (auto simp: up_def take_out_fields split: if_splits)
  then show ?thesis using assms(4) by (auto simp: loose_item_def take_out_fields)
qed

lemma mset_replace:
  assumes "index < length xs"
  shows "mset (xs[index := x]) = add_mset x (mset (remove1 (xs ! index) xs))"
  using assms by (simp add: mset_update)

lemma replaceThing_inv:
  assumes shape: "cont_shape w" and weight: "weight_inv its w" and c: "is_container (kind (w c))" and x: "loose_item w c x"
  shows "\<exists>w'. replaceThing its c index x w = Some w' \<and> cont_shape w' \<and> weight_inv its w'"
proof (cases "index < length (itemlist (w c))")
  case False
  then show ?thesis using shape weight x by (auto simp: replaceThing_def getItemByIndex_def loose_item_def)
next
  case True
  define r where "r = itemlist (w c) ! index"
  have r: "r \<in> set (itemlist (w c))" using True by (simp add: r_def)
  have pr: "parent (w r) = Some c" using cont_shapeD(1)[OF shape c] r by blast
  have px: "parent (w x) = None" "is_item (kind (w x))" using x by (auto simp: loose_item_def)
  have ne: "x \<noteq> c" "r \<noteq> c" "x \<noteq> r" using x pr px parent_not_self[OF shape, of c] by (auto simp: loose_item_def)
  let ?xs = "(itemlist (w c))[index := x]" and ?v = "take_out c r w"
  let ?w = "put_in c x ?xs ?v"
  have shape_v: "cont_shape ?v" by (rule take_out_shape[OF shape c r])
  have xs: "mset ?xs = add_mset x (mset (itemlist (?v c)))" using mset_replace[OF True, of x] by (simp add: take_out_fields r_def)
  have cv: "is_container (kind (?v c))" using c by (simp add: take_out_fields)
  have shape': "cont_shape ?w" by (rule put_in_shape[OF shape_v cv loose_take_out[OF shape c r x] xs])
  obtain dep where dep: "upward dep ?w" using cont_shapeD(5)[OF shape'] by blast
  have wc: "totalWeight (w p) = contents_weight its w p" if "weighed w p" for p using weight that by (simp add: weight_inv_def)
  let ?d = "- getWeight its (w r) + getWeight its (w x)"
  have "\<exists>w'. updateItemWeight c ?d ?w = Some w' \<and> same_shape ?w w' \<and> weight_inv its w'"
    by (rule updateItemWeight_restores[OF shape' dep])
      (use c wc in \<open>auto simp: weighed_def put_in_fields take_out_fields
        put_in_contents[where w = "take_out c r w" and c = c, OF xs] take_out_contents[where w = w and c = c, OF r]\<close>)
  then obtain w' where w': "updateItemWeight c ?d ?w = Some w'" "same_shape ?w w'" "weight_inv its w'" by blast
  let ?u = "setParent x (Some c) (w(c := (w c)\<lparr>itemlist := ?xs\<rparr>))"
  have eq: "?w = setParent r None ?u"
    using ne by (auto simp: put_in_def take_out_def set_items_def setParent_def fun_eq_iff)
  have run: "replaceThing its c index x w = map_option (setParent r None) (updateItemWeight c ?d ?u)"
    using True px ne by (simp add: replaceThing_def getItemByIndex_def r_def[symmetric] Let_def setParent_def)
  obtain dep0 where dep0: "upward dep0 w" using cont_shapeD(5)[OF shape] by blast
  obtain dep1 where dep1: "upward dep1 (put_in c x ?xs w)"
    using upward_put_in[OF dep0 px(1), of c ?xs] x by (auto simp: loose_item_def)
  have u: "?u = put_in c x ?xs w" using ne by (auto simp: put_in_def set_items_def setParent_def fun_eq_iff)
  have "dep1 c < dep1 r" by (rule upwardD[OF dep1]) (use pr ne in \<open>simp add: put_in_fields\<close>)
  then have "updateItemWeight c ?d ?w = map_option (setParent r None) (updateItemWeight c ?d ?u)"
    unfolding eq by (rule updateItemWeight_setParent[OF dep1[folded u]])
  then have "replaceThing its c index x w = Some w'" using run w'(1) by (simp only:)
  then show ?thesis using w' cont_shape_same[OF w'(2)] shape' by blast
qed

section \<open>Queries keep the containers acyclic\<close>

lemma climb_not_above:
  assumes shape: "cont_shape w" and dep: "upward dep w" and t: "kind (w thing) \<noteq> DepotLocker"
    and run: "climb limited thing w (getParent w c) = Some RETURNVALUE_NOERROR" and ne: "c \<noteq> thing"
  shows "(c, thing) \<notin> (up w)\<^sup>*"
  using run ne
proof (induction "dep c" arbitrary: c rule: less_induct)
  case less
  show ?case
  proof (cases "getParent w c")
    case None
    show ?thesis
    proof (cases "parent (w c)")
      case None
      then show ?thesis using less.prems(2) up_step[of c thing w] by simp
    next
      case (Some l)
      then have chest: "kind (w c) = DepotChest \<or> kind (w c) = Inbox" and top: "parent (w l) = None"
        using None by (auto simp: getParent_def split: if_splits)
      then have "l \<noteq> thing" using cont_shapeD(3)[OF shape chest Some] t by auto
      then show ?thesis using less.prems(2) Some top up_step[of c thing w] up_step[of l thing w] by auto
    qed
  next
    case (Some p)
    have nt: "p \<noteq> thing" and next': "climb limited thing w (getParent w p) = Some RETURNVALUE_NOERROR"
      using less.prems(1) Some by (auto simp: climb.simps[of limited thing w "Some p"] split: if_splits)
    have lt: "dep p < dep c"
    proof (cases "parent (w c) = Some p")
      case False
      then obtain l where l: "parent (w c) = Some l" "parent (w l) = Some p"
        using Some by (auto simp: getParent_def bind_eq_Some_conv split: if_splits)
      show ?thesis using upwardD[OF dep l(1)] upwardD[OF dep l(2)] by simp
    qed (rule upwardD[OF dep])
    have IH: "(p, thing) \<notin> (up w)\<^sup>*" by (rule less.hyps[OF lt next' nt])
    show ?thesis
    proof (cases "kind (w c) = DepotChest \<or> kind (w c) = Inbox")
      case True
      then obtain l where l: "parent (w c) = Some l" "parent (w l) = Some p"
        using Some by (auto simp: getParent_def bind_eq_Some_conv)
      have "l \<noteq> thing" using cont_shapeD(3)[OF shape True l(1)] t by auto
      then show ?thesis using less.prems(2) IH l up_step[of c thing w] up_step[of l thing w] by auto
    next
      case False
      then show ?thesis using Some less.prems(2) IH up_step[of c thing w] by (auto simp: getParent_def)
    qed
  qed
qed

lemma queryAdd_acyclic:
  assumes shape: "cont_shape w" and t: "kind (w thing) \<noteq> DepotLocker" and flags: "\<not> hasBitSet FLAG_CHILDISOWNER flags"
    and ok: "container_queryAdd its outer w this index thing n flags = Some RETURNVALUE_NOERROR"
  shows "is_item (kind (w thing)) \<and> (this, thing) \<notin> (up w)\<^sup>*"
proof -
  obtain dep where dep: "upward dep w" using cont_shapeD(5)[OF shape] by blast
  have item: "is_item (kind (w thing))" and ne: "this \<noteq> thing"
    and cl: "climb (\<not> hasBitSet FLAG_NOLIMIT flags) thing w (getParent w this) = Some RETURNVALUE_NOERROR"
    using ok flags by (auto simp: container_queryAdd_def Let_def bind_eq_Some_conv split: if_splits)
  show ?thesis using item climb_not_above[OF shape dep t cl ne] by simp
qed

section \<open>The contract of a weighed store\<close>

text \<open>The operations the rest of the server performs on containers, with what the callers guarantee: an item
  is put only where it lies in no container yet and the target is not inside it.\<close>

datatype cont_op =
    Add_op nat int nat | AddBack_op nat nat | Update_op nat nat u16 u32 | Replace_op nat nat nat | Remove_op nat nat u32

fun apply_op :: "item_table \<Rightarrow> cont_op \<Rightarrow> store \<Rightarrow> store option" where
  "apply_op its (Add_op c index x) w = addThing its c index x w"
| "apply_op its (AddBack_op c x) w = addItemBack its c x w"
| "apply_op its (Update_op c x i n) w = updateThing its c x i n w"
| "apply_op its (Replace_op c index x) w = replaceThing its c index x w"
| "apply_op its (Remove_op c x n) w = removeThing its c x n w"

fun op_allowed :: "cont_op \<Rightarrow> store \<Rightarrow> bool" where
  "op_allowed (Add_op c index x) w \<longleftrightarrow> is_container (kind (w c)) \<and> loose_item w c x"
| "op_allowed (AddBack_op c x) w \<longleftrightarrow> is_container (kind (w c)) \<and> loose_item w c x"
| "op_allowed (Update_op c x i n) w \<longleftrightarrow> is_container (kind (w c))"
| "op_allowed (Replace_op c index x) w \<longleftrightarrow> is_container (kind (w c)) \<and> loose_item w c x"
| "op_allowed (Remove_op c x n) w \<longleftrightarrow> is_container (kind (w c))"

lemma apply_op_inv:
  assumes "cont_shape w \<and> weight_inv its w" "op_allowed x w"
  shows "\<exists>w'. apply_op its x w = Some w' \<and> cont_shape w' \<and> weight_inv its w'"
proof (cases x)
  case (Add_op c index y)
  show ?thesis
  proof (cases "index < sint (capacity (w c))")
    case True
    then show ?thesis using addThing_inv[of w its c y index] assms Add_op by auto
  next
    case False
    then show ?thesis using assms Add_op by (auto simp: addThing_def)
  qed
next
  case (AddBack_op c y)
  then show ?thesis using addItemBack_inv[of w its c y] assms by auto
next
  case (Update_op c y i n)
  then show ?thesis using updateThing_inv[of w its c y i n] assms by auto
next
  case (Replace_op c index y)
  then show ?thesis using replaceThing_inv[of w its c y index] assms by auto
next
  case (Remove_op c y n)
  then show ?thesis using removeThing_inv[of w its c y n] assms by auto
qed

interpretation containers: invariant_system "\<lambda>w. cont_shape w \<and> weight_inv its w" "apply_op its" op_allowed for its
  by unfold_locales (rule apply_op_inv)

section \<open>Properties\<close>

text \<open>C23: Every sequence of additions, updates, replacements and removals keeps the recorded weight of each
  container equal to the sum of the weights of the items in it, nested containers included, keeps
  parent pointers and item lists in agreement and the nesting free of cycles; and no operation after it
  runs forever while it passes the difference up the parents.\<close>

theorem container_weight_consistent:
  assumes "cont_shape w" "weight_inv its w" "containers.steps its w w'" "is_container (kind (w' c))" "kind (w' c) \<noteq> DepotLocker"
  shows "totalWeight (w' c) = sum_list (map (\<lambda>x. getWeight its (w' x)) (itemlist (w' c))) \<and>
    (\<forall>x. x \<in> set (itemlist (w' c)) \<longleftrightarrow> parent (w' x) = Some c) \<and> (c, c) \<notin> (up w')\<^sup>+ \<and>
    (\<forall>x. op_allowed x w' \<longrightarrow> (\<exists>w''. apply_op its x w' = Some w''))"
proof -
  have inv: "cont_shape w'" "weight_inv its w'" using containers.steps_inv[OF assms(3)] assms(1,2) by auto
  obtain dep where dep: "upward dep w'" using cont_shapeD(5)[OF inv(1)] by blast
  have "dep b < dep a" if "(a, b) \<in> (up w')\<^sup>+" for a b
    using that by (induction rule: trancl_induct) (auto simp: up_def dest: upwardD[OF dep])
  then have "(c, c) \<notin> (up w')\<^sup>+" by blast
  then show ?thesis
    using inv assms(4,5) cont_shapeD(1)[OF inv(1) assms(4)] containers.progress[OF assms(3)] assms(1,2)
    by (auto simp: weight_inv_def weighed_def contents_weight_def)
qed

definition sample_object :: obj where
  "sample_object = \<lparr>kind = Plain_item, ident = 1, icount = 1, attributes = [], parent = None, itemlist = [], totalWeight = 0,
     maxSize = 0, maxDepotItems = 0, unlocked = True\<rparr>"

definition sample_store :: store where
  "sample_store = (\<lambda>_. sample_object)(0 := sample_object\<lparr>kind := Plain_container, maxSize := 8\<rparr>)"

definition sample_types :: item_table where
  "sample_types = (\<lambda>_. \<lparr>it_stackable = False, it_pickupable = True, it_moveable = True, it_storeItem = False, it_fluid = False,
     it_charges = 0, it_weight = 10, it_decayTime = 0, it_stopTime = False, it_decayTo = - 1\<rparr>)"

lemma sample_store_facts:
  "cont_shape sample_store" "weight_inv sample_types sample_store" "loose_item sample_store 0 1" "is_container (kind (sample_store 0))"
proof -
  have none: "parent (sample_store y) = None" "itemlist (sample_store y) = []" for y by (simp_all add: sample_store_def sample_object_def)
  have kinds: "kind (sample_store y) = (if y = 0 then Plain_container else Plain_item)" for y by (simp add: sample_store_def sample_object_def)
  show "cont_shape sample_store" by (simp add: cont_shape_def upward_def none)
  show "weight_inv sample_types sample_store"
    by (simp add: weight_inv_def contents_weight_def none) (simp add: sample_store_def sample_object_def)
  show "loose_item sample_store 0 1"
    using up_step[of 0 1 sample_store] by (simp add: loose_item_def none kinds is_item_def)
  show "is_container (kind (sample_store 0))" by (simp add: kinds)
qed

theorem container_weight_consistent_witness:
  "\<exists>w'. containers.steps sample_types sample_store w' \<and> itemlist (w' 0) = [1] \<and>
     totalWeight (w' 0) = sum_list (map (\<lambda>x. getWeight sample_types (w' x)) (itemlist (w' 0)))"
proof -
  have cap: "(0::int) < sint (capacity (sample_store 0))" by (simp add: capacity_def sample_store_def sample_object_def)
  have empty: "itemlist (sample_store 0) = []" "kind (sample_store 0) = Plain_container" by (simp_all add: sample_store_def sample_object_def)
  obtain w' where w': "addThing sample_types 0 0 1 sample_store = Some w'" "itemlist (w' 0) = [1]" "kind (w' 0) = Plain_container"
    using addThing_inv[OF sample_store_facts(1,2,4,3) cap] empty by auto
  have steps: "containers.steps sample_types sample_store w'"
    by (rule containers.steps.more[of "Add_op 0 0 1"]) (use w'(1) sample_store_facts in \<open>auto intro: containers.steps.stop\<close>)
  then show ?thesis
    using container_weight_consistent[OF sample_store_facts(1,2) steps, of 0] w'(2,3) by auto
qed

text \<open>C31: When \<open>queryAdd\<close> admits an ordinary item that lies in no container, adding it never puts a container into
  itself: the addition returns, keeps the store consistent, and the item lies at the front.\<close>

theorem queryAdd_admits_safe_addition:
  assumes "cont_shape w" "weight_inv its w" "is_container (kind (w c))" "\<not> hasBitSet FLAG_CHILDISOWNER flags"
    "container_queryAdd its outer w c index x n flags = Some RETURNVALUE_NOERROR"
    "parent (w x) = None" "kind (w x) \<notin> {DepotChest, Inbox, DepotLocker}" "index' < sint (capacity (w c))"
  shows "\<exists>w'. addThing its c index' x w = Some w' \<and> cont_shape w' \<and> weight_inv its w' \<and> itemlist (w' c) = x # itemlist (w c)"
proof -
  have "is_item (kind (w x)) \<and> (c, x) \<notin> (up w)\<^sup>*"
    using queryAdd_acyclic[OF assms(1) _ assms(4,5)] assms(7) by simp
  then have "loose_item w c x" using assms(6,7) by (simp add: loose_item_def)
  then show ?thesis using addThing_inv[OF assms(1-3) _ assms(8)] by blast
qed

theorem queryAdd_admits_safe_addition_witness:
  "\<exists>w'. addThing sample_types 0 0 1 sample_store = Some w' \<and> itemlist (w' 0) = [1]"
proof -
  have q: "container_queryAdd sample_types (\<lambda>_ _ _ _. RETURNVALUE_NOERROR) sample_store 0 0 1 1 0 = Some RETURNVALUE_NOERROR"
    by (simp add: container_queryAdd_def climb.simps Let_def hasBitSet_def sample_types_def sample_store_def sample_object_def
        is_item_def isStoreItem_def getParent_def getTopParent_def FLAG_NOLIMIT_def)
  show ?thesis
    using queryAdd_admits_safe_addition[OF sample_store_facts(1,2,4) _ q, of 0]
    by (auto simp: hasBitSet_def sample_store_def sample_object_def capacity_def)
qed

end
