(* ===== verification/Guilds.thy ===== *)
theory Guilds
  imports Server_Prelude
begin

text \<open>
  \<open>Guild\<close> of \<open>src/src/guild.h\<close> and \<open>guild.cpp\<close>, the guild registry of \<open>Game\<close> (\<open>game.cpp\<close>) and \<open>Player::setGuild\<close>
  (\<open>player.cpp\<close>). The registry owns the guild objects through \<open>std::unique_ptr\<close>, so that erasing an entry
  frees the object; \<open>heap\<close> maps the addresses of the live objects to their contents, and freeing an address that
  is not in it is the error \<open>Double_free\<close>. The updates of the clients' helper counts are not modelled.
\<close>

record guild_rank =
  rank_id :: u32
  rank_name :: string
  rank_level :: u8

record guild =
  guild_id :: u32
  guild_name :: string
  motd :: string
  memberCount :: u32
  membersOnline :: "u32 list"
  ranks :: "guild_rank list"

record guild_world =
  heap :: "nat \<rightharpoonup> guild"
  guilds :: "u32 \<rightharpoonup> nat"
  playerGuild :: "u32 \<Rightarrow> nat option"
  playerRank :: "u32 \<Rightarrow> guild_rank option"
  guildNick :: "u32 \<Rightarrow> string"

datatype memory_error = Double_free | Use_after_free

type_synonym guild_result = "memory_error + guild_world"

definition new_guild :: "u32 \<Rightarrow> string \<Rightarrow> guild" where
  "new_guild i n = \<lparr>guild_id = i, guild_name = n, motd = [], memberCount = 0, membersOnline = [], ranks = []\<rparr>"

definition free :: "nat \<Rightarrow> guild_world \<Rightarrow> guild_result" where
  "free a w = (case heap w a of None \<Rightarrow> Inl Double_free | Some _ \<Rightarrow> Inr (w\<lparr>heap := (heap w)(a := None)\<rparr>))"

fun and_then :: "'e + 'a \<Rightarrow> ('a \<Rightarrow> 'e + 'b) \<Rightarrow> 'e + 'b" where
  "and_then (Inl e) f = Inl e"
| "and_then (Inr x) f = f x"

section \<open>The registry\<close>

definition getGuild :: "u32 \<Rightarrow> guild_world \<Rightarrow> nat option" where
  "getGuild i w = guilds w i"

definition addGuild :: "nat \<Rightarrow> guild_world \<Rightarrow> guild_result" where
  "addGuild a w =
     (case heap w a of
        None \<Rightarrow> Inl Use_after_free
      | Some g \<Rightarrow>
          let old = guilds w (guild_id g); w = w\<lparr>guilds := (guilds w)(guild_id g \<mapsto> a)\<rparr>
          in (case old of None \<Rightarrow> Inr w | Some b \<Rightarrow> free b w))"

definition removeGuild :: "u32 \<Rightarrow> guild_world \<Rightarrow> guild_result" where
  "removeGuild i w =
     (case guilds w i of
        None \<Rightarrow> Inr w
      | Some a \<Rightarrow> free a (w\<lparr>guilds := (guilds w)(i := None)\<rparr>))"

section \<open>Members\<close>

definition addMember :: "nat \<Rightarrow> u32 \<Rightarrow> guild_world \<Rightarrow> guild_result" where
  "addMember a p w =
     (case heap w a of
        None \<Rightarrow> Inl Use_after_free
      | Some g \<Rightarrow> Inr (w\<lparr>heap := (heap w)(a \<mapsto> g\<lparr>membersOnline := membersOnline g @ [p]\<rparr>)\<rparr>))"

definition removeMember :: "nat \<Rightarrow> u32 \<Rightarrow> guild_world \<Rightarrow> guild_result" where
  "removeMember a p w =
     (case heap w a of
        None \<Rightarrow> Inl Use_after_free
      | Some g \<Rightarrow>
          let g = g\<lparr>membersOnline := removeAll p (membersOnline g)\<rparr>;
              w = w\<lparr>heap := (heap w)(a \<mapsto> g)\<rparr>
          in if membersOnline g = [] then and_then (removeGuild (guild_id g) w) (free a)
             else Inr w)"

definition getRankById :: "guild \<Rightarrow> u32 \<Rightarrow> guild_rank option" where
  "getRankById g i = List.find (\<lambda>r. rank_id r = i) (ranks g)"

definition getRankByName :: "guild \<Rightarrow> string \<Rightarrow> guild_rank option" where
  "getRankByName g n = List.find (\<lambda>r. rank_name r = n) (ranks g)"

definition getRankByLevel :: "guild \<Rightarrow> u8 \<Rightarrow> guild_rank option" where
  "getRankByLevel g l = List.find (\<lambda>r. rank_level r = l) (ranks g)"

definition addRank :: "u32 \<Rightarrow> string \<Rightarrow> u8 \<Rightarrow> guild \<Rightarrow> guild" where
  "addRank i n l g = g\<lparr>ranks := ranks g @ [\<lparr>rank_id = i, rank_name = n, rank_level = l\<rparr>]\<rparr>"

definition setGuild :: "u32 \<Rightarrow> nat option \<Rightarrow> guild_world \<Rightarrow> guild_result" where
  "setGuild p new w =
     (if new = playerGuild w p then Inr w
      else
        let oldGuild = playerGuild w p;
            w = w\<lparr>guildNick := (guildNick w)(p := []), playerGuild := (playerGuild w)(p := None), playerRank := (playerRank w)(p := None)\<rparr>;
            leave = (\<lambda>w. case oldGuild of None \<Rightarrow> Inr w | Some b \<Rightarrow> removeMember b p w)
        in case new of
             None \<Rightarrow> leave w
           | Some a \<Rightarrow>
               (case heap w a of
                  None \<Rightarrow> Inl Use_after_free
                | Some g \<Rightarrow>
                    (case getRankByLevel g 1 of
                       None \<Rightarrow> Inr w
                     | Some rank \<Rightarrow>
                         and_then (addMember a p (w\<lparr>playerGuild := (playerGuild w)(p \<mapsto> a), playerRank := (playerRank w)(p \<mapsto> rank)\<rparr>)) leave)))"

section \<open>Properties\<close>

text \<open>C37: When the last online member leaves a registered guild, the guild object is freed twice: erasing the
  registry entry destroys it, and \<open>removeMember\<close> deletes it again.\<close>

theorem last_member_double_free:
  assumes "heap w a = Some g" "guilds w (guild_id g) = Some a" "set (membersOnline g) \<subseteq> {p}"
  shows "removeMember a p w = Inl Double_free"
proof -
  have "removeAll p (membersOnline g) = []" using assms(3) by (auto simp: removeAll_filter_not_eq filter_empty_conv)
  then show ?thesis using assms(1,2) by (simp add: removeMember_def removeGuild_def free_def Let_def)
qed

definition sample_guilds :: guild_world where
  "sample_guilds = \<lparr>heap = [0 \<mapsto> (new_guild 5 ''Knights'')\<lparr>membersOnline := [1]\<rparr>], guilds = [5 \<mapsto> 0], playerGuild = (\<lambda>_. None)(1 \<mapsto> 0),
     playerRank = (\<lambda>_. None), guildNick = (\<lambda>_. [])\<rparr>"

theorem last_member_double_free_witness: "removeMember 0 1 sample_guilds = Inl Double_free"
  using last_member_double_free[of sample_guilds 0 "(new_guild 5 ''Knights'')\<lparr>membersOnline := [1]\<rparr>" 1]
  by (simp add: sample_guilds_def new_guild_def)

text \<open>While another member stays online, removing a member takes exactly that player off the list, keeps
  the order of the others, frees nothing and leaves every other guild alone.\<close>

theorem removeMember_keeps_guild:
  assumes "heap w a = Some g" "q \<in> set (membersOnline g)" "q \<noteq> p"
  shows "\<exists>w'. removeMember a p w = Inr w' \<and> guilds w' = guilds w \<and> (\<forall>b. b \<noteq> a \<longrightarrow> heap w' b = heap w b) \<and>
    (\<exists>g'. heap w' a = Some g' \<and> membersOnline g' = removeAll p (membersOnline g) \<and> ranks g' = ranks g)"
proof -
  have "removeAll p (membersOnline g) \<noteq> []" using assms(2,3) by (auto simp: removeAll_filter_not_eq filter_empty_conv)
  then show ?thesis using assms(1) by (auto simp: removeMember_def Let_def)
qed

theorem removeMember_keeps_guild_witness:
  "\<exists>w'. removeMember 0 1 (sample_guilds\<lparr>heap := [0 \<mapsto> (new_guild 5 ''Knights'')\<lparr>membersOnline := [1, 2]\<rparr>]\<rparr>) = Inr w' \<and> guilds w' = [5 \<mapsto> 0]"
  using removeMember_keeps_guild[of "sample_guilds\<lparr>heap := [0 \<mapsto> (new_guild 5 ''Knights'')\<lparr>membersOnline := [1, 2]\<rparr>]\<rparr>" 0
      "(new_guild 5 ''Knights'')\<lparr>membersOnline := [1, 2]\<rparr>" 2 1]
  by (auto simp: sample_guilds_def)

text \<open>Moving a player to a guild that has no rank of level one leaves the player without a guild, but the
  old guild still lists it as an online member.\<close>

theorem setGuild_without_rank_keeps_member:
  assumes "playerGuild w p = Some b" "heap w b = Some old" "p \<in> set (membersOnline old)" "a \<noteq> b"
    "heap w a = Some g" "getRankByLevel g 1 = None"
  shows "\<exists>w'. setGuild p (Some a) w = Inr w' \<and> playerGuild w' p = None \<and>
    (\<exists>old'. heap w' b = Some old' \<and> p \<in> set (membersOnline old'))"
  using assms by (simp add: setGuild_def Let_def)

theorem setGuild_without_rank_keeps_member_witness:
  "\<exists>w'. setGuild 1 (Some 3) (sample_guilds\<lparr>heap := (heap sample_guilds)(3 \<mapsto> new_guild 6 ''Druids'')\<rparr>) = Inr w' \<and> playerGuild w' 1 = None"
  using setGuild_without_rank_keeps_member[of "sample_guilds\<lparr>heap := (heap sample_guilds)(3 \<mapsto> new_guild 6 ''Druids'')\<rparr>" 1 0
      "(new_guild 5 ''Knights'')\<lparr>membersOnline := [1]\<rparr>" 3 "new_guild 6 ''Druids''"]
  by (auto simp: sample_guilds_def new_guild_def getRankByLevel_def)

end
