(* ===== verification/Vocations.thy ===== *)
theory Vocations
  imports Text_Tools
begin

text \<open>
  \<open>Vocation\<close> and \<open>Vocations\<close> (\<open>src/src/vocation.h\<close>, \<open>vocation.cpp\<close>): the table of vocations with its lookups and the two caches
  of the training requirements. The requirements themselves are computed in floating point by the standard
  library; the computations are the parameters \<open>skill_tries\<close> and \<open>mana_for\<close> of the lookups. The skill cache stores
  32-bit values, the mana cache 64-bit ones. Loading from XML is not modelled.
\<close>

definition SKILL_LAST :: u8 where
  "SKILL_LAST = 6"

definition VOCATION_NONE :: u16 where
  "VOCATION_NONE = 0"

record vocation =
  voc_name :: string
  fromVocation :: u32
  cacheMana :: "u32 \<rightharpoonup> u64"
  cacheSkill :: "u8 \<Rightarrow> u32 \<rightharpoonup> u32"

type_synonym vocations_map = "(u16 \<times> vocation) list"

definition getVocation :: "u16 \<Rightarrow> vocations_map \<Rightarrow> vocation option" where
  "getVocation i m = map_of m i"

text \<open>\<open>strcasecmp\<close> on the names up to the first NUL.\<close>

definition c_string :: "string \<Rightarrow> string" where
  "c_string s = takeWhile (\<lambda>c. c \<noteq> CHR 0x00) s"

definition getVocationId :: "string \<Rightarrow> vocations_map \<Rightarrow> int" where
  "getVocationId name m =
     (case List.find (\<lambda>e. asLowerCaseString (c_string (voc_name (snd e))) = asLowerCaseString (c_string name)) m of
        Some e \<Rightarrow> uint (fst e)
      | None \<Rightarrow> - 1)"

definition getPromotedVocation :: "u16 \<Rightarrow> vocations_map \<Rightarrow> u16" where
  "getPromotedVocation vocationId m =
     (case List.find (\<lambda>e. fromVocation (snd e) = ucast vocationId \<and> fst e \<noteq> vocationId) m of
        Some e \<Rightarrow> fst e
      | None \<Rightarrow> VOCATION_NONE)"

definition getReqSkillTries :: "(u8 \<Rightarrow> u16 \<Rightarrow> u64) \<Rightarrow> u8 \<Rightarrow> u16 \<Rightarrow> vocation \<Rightarrow> u64 \<times> vocation" where
  "getReqSkillTries skill_tries skill level v =
     (if skill > SKILL_LAST then (0, v)
      else case cacheSkill v skill (ucast level) of
             Some t \<Rightarrow> (ucast t, v)
           | None \<Rightarrow>
               let tries = skill_tries skill level
               in (tries, v\<lparr>cacheSkill := (cacheSkill v)(skill := (cacheSkill v skill)(ucast level \<mapsto> ucast tries))\<rparr>))"

definition getReqMana :: "(u32 \<Rightarrow> u64) \<Rightarrow> u32 \<Rightarrow> vocation \<Rightarrow> u64 \<times> vocation" where
  "getReqMana mana_for magLevel v =
     (case cacheMana v magLevel of
        Some t \<Rightarrow> (t, v)
      | None \<Rightarrow> (mana_for magLevel, v\<lparr>cacheMana := (cacheMana v)(magLevel \<mapsto> mana_for magLevel)\<rparr>))"

section \<open>Caches\<close>

definition mana_cache_ok :: "(u32 \<Rightarrow> u64) \<Rightarrow> vocation \<Rightarrow> bool" where
  "mana_cache_ok f v \<longleftrightarrow> (\<forall>l t. cacheMana v l = Some t \<longrightarrow> t = f l)"

lemma getReqMana_ok:
  "mana_cache_ok f v \<Longrightarrow> getReqMana f l v = (t, v') \<Longrightarrow> t = f l \<and> mana_cache_ok f v'"
  by (auto simp: getReqMana_def mana_cache_ok_def split: option.splits if_splits)

fun mana_requests :: "(u32 \<Rightarrow> u64) \<Rightarrow> u32 list \<Rightarrow> vocation \<Rightarrow> u64 list" where
  "mana_requests f [] v = []"
| "mana_requests f (l # ls) v = (case getReqMana f l v of (t, v') \<Rightarrow> t # mana_requests f ls v')"

lemma mana_requests_ok: "mana_cache_ok f v \<Longrightarrow> mana_requests f ls v = map f ls"
proof (induction ls arbitrary: v)
  case (Cons l ls)
  obtain t v' where "getReqMana f l v = (t, v')" by (cases "getReqMana f l v")
  then show ?case using Cons getReqMana_ok by fastforce
qed simp

section \<open>Properties\<close>

text \<open>C36: With an empty cache the first request for a skill returns the computed number of tries and every
  later one returns it cut to 32 bits, so that the two agree only while the number is below \<open>2^32\<close>.\<close>

theorem skill_tries_truncated:
  assumes "skill \<le> SKILL_LAST" "cacheSkill v skill (ucast level) = None"
    "getReqSkillTries f skill level v = (t1, v1)" "getReqSkillTries f skill level v1 = (t2, v2)"
  shows "t1 = f skill level \<and> unat t2 = unat (f skill level) mod 2 ^ 32 \<and> (t1 = t2 \<longleftrightarrow> unat (f skill level) < 2 ^ 32)"
proof -
  have s: "\<not> SKILL_LAST < skill" using assms(1) by simp
  have t1: "t1 = f skill level" "v1 = v\<lparr>cacheSkill := (cacheSkill v)(skill := (cacheSkill v skill)(ucast level \<mapsto> ucast (f skill level)))\<rparr>"
    using assms(2,3) s by (auto simp: getReqSkillTries_def Let_def)
  have t2: "t2 = ucast (ucast (f skill level) :: u32)" using assms(4) s by (simp add: getReqSkillTries_def t1(2))
  have "unat t2 = unat (f skill level) mod 2 ^ 32"
    unfolding t2 by (simp add: unsigned_ucast_eq take_bit_take_bit take_bit_eq_mod unat_mod)
  moreover have "t1 = t2 \<longleftrightarrow> unat (f skill level) = unat t2" using t1(1) by (simp add: word_unat_eq_iff)
  ultimately show ?thesis using t1(1) by (metis mod_less mod_less_divisor zero_less_numeral zero_less_power)
qed

definition fresh_vocation :: vocation where
  "fresh_vocation = \<lparr>voc_name = ''none'', fromVocation = 0, cacheMana = Map.empty, cacheSkill = (\<lambda>_. Map.empty)\<rparr>"

theorem skill_tries_truncated_witness:
  "\<exists>t1 v1 t2 v2. getReqSkillTries (\<lambda>_ _. 0x100000005) 1 200 fresh_vocation = (t1, v1) \<and>
     getReqSkillTries (\<lambda>_ _. 0x100000005) 1 200 v1 = (t2, v2) \<and> unat t2 = 5 \<and> t1 \<noteq> t2"
proof -
  obtain t1 v1 where 1: "getReqSkillTries (\<lambda>_ _. 0x100000005) 1 200 fresh_vocation = (t1, v1)" by fastforce
  obtain t2 v2 where 2: "getReqSkillTries (\<lambda>_ _. 0x100000005) 1 200 v1 = (t2, v2)" by fastforce
  have "unat t2 = 5 \<and> t1 \<noteq> t2" using skill_tries_truncated[OF _ _ 1 2] by (auto simp: SKILL_LAST_def fresh_vocation_def)
  then show ?thesis using 1 2 by blast
qed

text \<open>The mana requirements are cached without loss: whatever levels are asked for, in whatever order
  and however often, every answer is the computed requirement.\<close>

theorem mana_requirements_cached:
  assumes "cacheMana v = Map.empty"
  shows "mana_requests f ls v = map f ls"
  using mana_requests_ok[of f v ls] assms by (simp add: mana_cache_ok_def)

theorem mana_requirements_cached_witness:
  "mana_requests (\<lambda>l. ucast l * 1600) [3, 3, 4] fresh_vocation = [4800, 4800, 6400]"
  using mana_requirements_cached[of fresh_vocation "\<lambda>l. ucast l * 1600" "[3, 3, 4]"] by (simp add: fresh_vocation_def)

end
