(* ===== verification/Connection_Bans.thy ===== *)
theory Connection_Bans
  imports Server_Prelude
begin

text \<open>
  \<open>Ban::acceptConnection\<close> (\<open>src/src/ban.h\<close>, \<open>ban.cpp\<close>): the limit on connection attempts per address that the
  listening ports consult before they create a connection. Times are milliseconds since the epoch as
  integers, far below the 64 bits the code uses. The lookups of bans in the database are not modelled.
\<close>

record connect_block =
  lastAttempt :: int
  blockTime :: int
  attempts :: u32

type_synonym ip_connect_map = "u32 \<rightharpoonup> connect_block"

definition acceptConnection :: "int \<Rightarrow> u32 \<Rightarrow> ip_connect_map \<Rightarrow> bool \<times> ip_connect_map" where
  "acceptConnection currentTime clientIP m =
     (case m clientIP of
        None \<Rightarrow> (True, m(clientIP \<mapsto> \<lparr>lastAttempt = currentTime, blockTime = 0, attempts = 1\<rparr>))
      | Some b \<Rightarrow>
          if blockTime b > currentTime then (False, m(clientIP \<mapsto> b\<lparr>blockTime := blockTime b + 250\<rparr>))
          else
            let timeDiff = currentTime - lastAttempt b; b = b\<lparr>lastAttempt := currentTime\<rparr> in
            if timeDiff \<le> 5000 then
              let b = b\<lparr>attempts := attempts b + 1\<rparr> in
              if attempts b > 5 then
                let b = b\<lparr>attempts := 0\<rparr> in
                if timeDiff \<le> 500 then (False, m(clientIP \<mapsto> b\<lparr>blockTime := currentTime + 3000\<rparr>))
                else (True, m(clientIP \<mapsto> b))
              else (True, m(clientIP \<mapsto> b))
            else (True, m(clientIP \<mapsto> b\<lparr>attempts := 1\<rparr>)))"

fun connections :: "(int \<times> u32) list \<Rightarrow> ip_connect_map \<Rightarrow> bool list \<times> ip_connect_map" where
  "connections [] m = ([], m)"
| "connections ((t, ip) # cs) m =
     (case acceptConnection t ip m of (ok, m1) \<Rightarrow> (case connections cs m1 of (oks, m2) \<Rightarrow> (ok # oks, m2)))"

section \<open>Lemmas\<close>

lemma acceptConnection_other:
  "acceptConnection t ip m = (ok, m') \<Longrightarrow> ip' \<noteq> ip \<Longrightarrow> m' ip' = m ip'"
  by (auto simp: acceptConnection_def Let_def split: option.splits if_splits)

text \<open>Attempts of one address in order, more than half a second apart.\<close>

fun slow_pace :: "int \<Rightarrow> (int \<times> u32) list \<Rightarrow> u32 \<Rightarrow> bool" where
  "slow_pace prev [] ip \<longleftrightarrow> True"
| "slow_pace prev ((t, ip') # cs) ip \<longleftrightarrow> (if ip' = ip then prev + 500 < t \<and> slow_pace t cs ip else slow_pace prev cs ip)"

fun answers_for :: "u32 \<Rightarrow> (int \<times> u32) list \<Rightarrow> bool list \<Rightarrow> bool list" where
  "answers_for ip ((t, ip') # cs) (ok # oks) = (if ip' = ip then ok # answers_for ip cs oks else answers_for ip cs oks)"
| "answers_for ip _ _ = []"

definition never_blocked :: "int \<Rightarrow> u32 \<Rightarrow> ip_connect_map \<Rightarrow> bool" where
  "never_blocked prev ip m \<longleftrightarrow> (case m ip of None \<Rightarrow> True | Some b \<Rightarrow> blockTime b = 0 \<and> lastAttempt b \<le> prev)"

lemma slow_accept:
  assumes "never_blocked prev ip m" "0 \<le> prev" "prev + 500 < t" "acceptConnection t ip m = (ok, m')"
  shows "ok \<and> never_blocked t ip m'"
  using assms by (auto simp: acceptConnection_def never_blocked_def Let_def split: option.splits if_splits)

lemma slow_connections:
  "never_blocked prev ip m \<Longrightarrow> 0 \<le> prev \<Longrightarrow> slow_pace prev cs ip \<Longrightarrow> connections cs m = (oks, m') \<Longrightarrow>
   list_all (\<lambda>ok. ok) (answers_for ip cs oks)"
proof (induction cs arbitrary: prev m oks)
  case (Cons c cs)
  obtain t ip' where c: "c = (t, ip')" by (cases c)
  obtain ok m1 where s: "acceptConnection t ip' m = (ok, m1)" by (cases "acceptConnection t ip' m")
  obtain oks' where r: "connections cs m1 = (oks', m')" "oks = ok # oks'"
    using Cons.prems(4) by (auto simp: c s split: prod.splits)
  show ?case
  proof (cases "ip' = ip")
    case True
    have "ok \<and> never_blocked t ip m1" using slow_accept[OF Cons.prems(1,2), of t ok m1] Cons.prems(3) s by (simp add: c True)
    then show ?thesis using Cons.IH[of t m1 oks'] Cons.prems(2,3) r by (simp add: c True)
  next
    case False
    have "never_blocked prev ip m1" using Cons.prems(1) acceptConnection_other[OF s, of ip] False by (simp add: never_blocked_def)
    then show ?thesis using Cons.IH[of prev m1 oks'] Cons.prems(2,3) r False by (simp add: c)
  qed
qed simp

text \<open>A burst of attempts of one address.\<close>

fun burst :: "int \<Rightarrow> int list \<Rightarrow> bool" where
  "burst prev [] \<longleftrightarrow> True"
| "burst prev (t # ts) \<longleftrightarrow> prev \<le> t \<and> t \<le> prev + 500 \<and> burst t ts"

lemma burst_step:
  assumes "m ip = Some \<lparr>lastAttempt = prev, blockTime = 0, attempts = n\<rparr>" "n < 5" "0 \<le> prev" "prev \<le> t" "t \<le> prev + 500"
  shows "acceptConnection t ip m = (True, m(ip \<mapsto> \<lparr>lastAttempt = t, blockTime = 0, attempts = n + 1\<rparr>))"
proof -
  have "\<not> 5 < n + 1" using assms(2) by (metis linorder_not_less word_le_less_eq inc_le)
  then show ?thesis using assms by (simp add: acceptConnection_def Let_def)
qed

section \<open>Properties\<close>

text \<open>A client that waits more than half a second between its attempts is never refused, whatever
  the other addresses do in between.\<close>

theorem patient_client_accepted:
  assumes "m ip = None" "slow_pace 0 cs ip" "connections cs m = (oks, m')"
  shows "list_all (\<lambda>ok. ok) (answers_for ip cs oks)"
  using slow_connections[of 0 ip m cs oks m'] assms by (simp add: never_blocked_def)

theorem patient_client_accepted_witness:
  "list_all (\<lambda>ok. ok) (answers_for 7 [(1000, 7), (1001, 8), (1600, 7)] (fst (connections [(1000, 7), (1001, 8), (1600, 7)] Map.empty)))"
  using patient_client_accepted[of Map.empty 7 "[(1000, 7), (1001, 8), (1600, 7)]" _ "snd (connections [(1000, 7), (1001, 8), (1600, 7)] Map.empty)"]
  by simp

text \<open>A burst of attempts at most half a second apart is stopped: the first five are accepted, the
  sixth is refused and blocks the address for three seconds, and an attempt during the block is
  refused and prolongs it by a quarter of a second.\<close>

theorem burst_blocked:
  assumes "m ip = None" "0 \<le> t1" "burst t1 [t2, t3, t4, t5, t6]"
  shows "\<exists>m' b. connections (map (\<lambda>t. (t, ip)) [t1, t2, t3, t4, t5, t6]) m = ([True, True, True, True, True, False], m') \<and>
    m' ip = Some b \<and> blockTime b = t6 + 3000 \<and>
    (\<forall>t. t < t6 + 3000 \<longrightarrow> (\<exists>m''. acceptConnection t ip m' = (False, m'') \<and> m'' ip = Some (b\<lparr>blockTime := t6 + 3250\<rparr>)))"
proof -
  let ?b = "\<lambda>t n. \<lparr>lastAttempt = t, blockTime = 0, attempts = n\<rparr>"
  have s1: "acceptConnection t1 ip m = (True, m(ip \<mapsto> ?b t1 1))" using assms(1) by (simp add: acceptConnection_def)
  have s2: "acceptConnection t2 ip (m(ip \<mapsto> ?b t1 1)) = (True, m(ip \<mapsto> ?b t2 2))"
    using burst_step[of "m(ip \<mapsto> ?b t1 1)" ip t1 1 t2] assms(2,3) by simp
  have s3: "acceptConnection t3 ip (m(ip \<mapsto> ?b t2 2)) = (True, m(ip \<mapsto> ?b t3 3))"
    using burst_step[of "m(ip \<mapsto> ?b t2 2)" ip t2 2 t3] assms(2,3) by simp
  have s4: "acceptConnection t4 ip (m(ip \<mapsto> ?b t3 3)) = (True, m(ip \<mapsto> ?b t4 4))"
    using burst_step[of "m(ip \<mapsto> ?b t3 3)" ip t3 3 t4] assms(2,3) by simp
  have s5: "acceptConnection t5 ip (m(ip \<mapsto> ?b t4 4)) = (True, m(ip \<mapsto> ?b t5 5))"
    using burst_step[of "m(ip \<mapsto> ?b t4 4)" ip t4 4 t5] assms(2,3) by simp
  let ?e = "\<lparr>lastAttempt = t6, blockTime = t6 + 3000, attempts = 0\<rparr>"
  have s6: "acceptConnection t6 ip (m(ip \<mapsto> ?b t5 5)) = (False, m(ip \<mapsto> ?e))"
    using assms(2,3) by (simp add: acceptConnection_def Let_def)
  have "connections (map (\<lambda>t. (t, ip)) [t1, t2, t3, t4, t5, t6]) m = ([True, True, True, True, True, False], m(ip \<mapsto> ?e))"
    by (simp add: s1 s2 s3 s4 s5 s6)
  then show ?thesis by (intro exI[of _ "m(ip \<mapsto> ?e)"] exI[of _ ?e]) (auto simp: acceptConnection_def)
qed

theorem burst_blocked_witness:
  "\<exists>m'. connections (map (\<lambda>t. (t, 9)) [1, 2, 3, 4, 5, 6]) Map.empty = ([True, True, True, True, True, False], m')"
  using burst_blocked[of Map.empty 9 1 2 3 4 5 6] by auto

end
