(* ===== verification/Item_Attributes.thy ===== *)
theory Item_Attributes
  imports File_Loader Game_Registry "HOL-Library.Multiset"
begin

text \<open>
  \<open>ItemAttributes\<close> and the attribute half of \<open>Item\<close> (\<open>src/src/item.h\<close>, \<open>item.cpp\<close>): the vector of typed attributes with
  its bit mask, the accessors, and the code that stores an item in a property stream and reads it back.
  An attribute's union is a value of \<open>attr_value\<close>; 64-bit integers are words, narrowed with \<open>ucast\<close> and sign-extended
  with \<open>scast\<close> where the source narrows and widens. A null \<open>attributes\<close> pointer is the empty vector, which all
  accessors treat alike. A double is its bit pattern. The entries of an unordered map come in an arbitrary
  order, here that of a list. \<open>ITEM_ATTRIBUTE_NONE\<close>, the tag of a moved-from attribute, is left out.
\<close>

section \<open>The attribute vector\<close>

datatype (plugins only: size) itemAttrTypes =
    ITEM_ATTRIBUTE_ACTIONID | ITEM_ATTRIBUTE_UNIQUEID | ITEM_ATTRIBUTE_DESCRIPTION | ITEM_ATTRIBUTE_TEXT
  | ITEM_ATTRIBUTE_DATE | ITEM_ATTRIBUTE_WRITER | ITEM_ATTRIBUTE_NAME | ITEM_ATTRIBUTE_ARTICLE
  | ITEM_ATTRIBUTE_PLURALNAME | ITEM_ATTRIBUTE_WEIGHT | ITEM_ATTRIBUTE_ATTACK | ITEM_ATTRIBUTE_DEFENSE
  | ITEM_ATTRIBUTE_EXTRADEFENSE | ITEM_ATTRIBUTE_ARMOR | ITEM_ATTRIBUTE_HITCHANCE | ITEM_ATTRIBUTE_SHOOTRANGE
  | ITEM_ATTRIBUTE_OWNER | ITEM_ATTRIBUTE_DURATION | ITEM_ATTRIBUTE_DECAYSTATE | ITEM_ATTRIBUTE_CORPSEOWNER
  | ITEM_ATTRIBUTE_CHARGES | ITEM_ATTRIBUTE_FLUIDTYPE | ITEM_ATTRIBUTE_DOORID | ITEM_ATTRIBUTE_DECAYTO
  | ITEM_ATTRIBUTE_WRAPID | ITEM_ATTRIBUTE_STOREITEM | ITEM_ATTRIBUTE_ATTACK_SPEED
  | ITEM_ATTRIBUTE_OPENCONTAINER | ITEM_ATTRIBUTE_CUSTOM

primrec attr_index :: "itemAttrTypes \<Rightarrow> nat" where
  "attr_index ITEM_ATTRIBUTE_ACTIONID = 0"
| "attr_index ITEM_ATTRIBUTE_UNIQUEID = 1"
| "attr_index ITEM_ATTRIBUTE_DESCRIPTION = 2"
| "attr_index ITEM_ATTRIBUTE_TEXT = 3"
| "attr_index ITEM_ATTRIBUTE_DATE = 4"
| "attr_index ITEM_ATTRIBUTE_WRITER = 5"
| "attr_index ITEM_ATTRIBUTE_NAME = 6"
| "attr_index ITEM_ATTRIBUTE_ARTICLE = 7"
| "attr_index ITEM_ATTRIBUTE_PLURALNAME = 8"
| "attr_index ITEM_ATTRIBUTE_WEIGHT = 9"
| "attr_index ITEM_ATTRIBUTE_ATTACK = 10"
| "attr_index ITEM_ATTRIBUTE_DEFENSE = 11"
| "attr_index ITEM_ATTRIBUTE_EXTRADEFENSE = 12"
| "attr_index ITEM_ATTRIBUTE_ARMOR = 13"
| "attr_index ITEM_ATTRIBUTE_HITCHANCE = 14"
| "attr_index ITEM_ATTRIBUTE_SHOOTRANGE = 15"
| "attr_index ITEM_ATTRIBUTE_OWNER = 16"
| "attr_index ITEM_ATTRIBUTE_DURATION = 17"
| "attr_index ITEM_ATTRIBUTE_DECAYSTATE = 18"
| "attr_index ITEM_ATTRIBUTE_CORPSEOWNER = 19"
| "attr_index ITEM_ATTRIBUTE_CHARGES = 20"
| "attr_index ITEM_ATTRIBUTE_FLUIDTYPE = 21"
| "attr_index ITEM_ATTRIBUTE_DOORID = 22"
| "attr_index ITEM_ATTRIBUTE_DECAYTO = 23"
| "attr_index ITEM_ATTRIBUTE_WRAPID = 24"
| "attr_index ITEM_ATTRIBUTE_STOREITEM = 25"
| "attr_index ITEM_ATTRIBUTE_ATTACK_SPEED = 26"
| "attr_index ITEM_ATTRIBUTE_OPENCONTAINER = 27"
| "attr_index ITEM_ATTRIBUTE_CUSTOM = 31"

definition attr_bit :: "itemAttrTypes \<Rightarrow> u32" where
  "attr_bit k = push_bit (attr_index k) 1"

datatype custom_attribute = Blank | CString "u8 list" | CInt u64 | CDouble u64 | CBool bool

datatype attr_value = VInt u64 | VString "u8 list" | VCustom "(u8 list \<times> custom_attribute) list"

record item_attributes =
  attr_list :: "(itemAttrTypes \<times> attr_value) list"
  attributeBits :: u32

definition no_attributes :: item_attributes where
  "no_attributes = \<lparr>attr_list = [], attributeBits = 0\<rparr>"

definition intAttributeTypes :: u32 where
  "intAttributeTypes = foldr (\<lambda>k m. attr_bit k OR m)
     [ITEM_ATTRIBUTE_ACTIONID, ITEM_ATTRIBUTE_UNIQUEID, ITEM_ATTRIBUTE_DATE, ITEM_ATTRIBUTE_WEIGHT, ITEM_ATTRIBUTE_ATTACK,
      ITEM_ATTRIBUTE_DEFENSE, ITEM_ATTRIBUTE_EXTRADEFENSE, ITEM_ATTRIBUTE_ARMOR, ITEM_ATTRIBUTE_HITCHANCE,
      ITEM_ATTRIBUTE_SHOOTRANGE, ITEM_ATTRIBUTE_OWNER, ITEM_ATTRIBUTE_DURATION, ITEM_ATTRIBUTE_DECAYSTATE,
      ITEM_ATTRIBUTE_CORPSEOWNER, ITEM_ATTRIBUTE_CHARGES, ITEM_ATTRIBUTE_FLUIDTYPE, ITEM_ATTRIBUTE_DOORID,
      ITEM_ATTRIBUTE_DECAYTO, ITEM_ATTRIBUTE_WRAPID, ITEM_ATTRIBUTE_STOREITEM, ITEM_ATTRIBUTE_ATTACK_SPEED,
      ITEM_ATTRIBUTE_OPENCONTAINER] 0"

definition stringAttributeTypes :: u32 where
  "stringAttributeTypes = foldr (\<lambda>k m. attr_bit k OR m)
     [ITEM_ATTRIBUTE_DESCRIPTION, ITEM_ATTRIBUTE_TEXT, ITEM_ATTRIBUTE_WRITER, ITEM_ATTRIBUTE_NAME,
      ITEM_ATTRIBUTE_ARTICLE, ITEM_ATTRIBUTE_PLURALNAME] 0"

definition isIntAttrType :: "itemAttrTypes \<Rightarrow> bool" where
  "isIntAttrType k \<longleftrightarrow> attr_bit k AND intAttributeTypes = attr_bit k"

definition isStrAttrType :: "itemAttrTypes \<Rightarrow> bool" where
  "isStrAttrType k \<longleftrightarrow> attr_bit k AND stringAttributeTypes = attr_bit k"

definition isCustomAttrType :: "itemAttrTypes \<Rightarrow> bool" where
  "isCustomAttrType k \<longleftrightarrow> attr_bit k AND attr_bit ITEM_ATTRIBUTE_CUSTOM = attr_bit k"

definition hasAttribute :: "itemAttrTypes \<Rightarrow> item_attributes \<Rightarrow> bool" where
  "hasAttribute k a \<longleftrightarrow> attr_bit k AND attributeBits a \<noteq> 0"

definition getExistingAttr :: "itemAttrTypes \<Rightarrow> item_attributes \<Rightarrow> attr_value option" where
  "getExistingAttr k a = (if hasAttribute k a then map_of (attr_list a) k else None)"

text \<open>\<open>getAttr\<close> returns a reference that its callers assign: the first attribute of the type is overwritten, and
  one is appended when there is none.\<close>

fun assign_first :: "itemAttrTypes \<Rightarrow> attr_value \<Rightarrow> (itemAttrTypes \<times> attr_value) list \<Rightarrow> (itemAttrTypes \<times> attr_value) list" where
  "assign_first k v [] = []"
| "assign_first k v ((k', v') # as) = (if k' = k then (k, v) # as else (k', v') # assign_first k v as)"

definition getAttr_assign :: "itemAttrTypes \<Rightarrow> attr_value \<Rightarrow> item_attributes \<Rightarrow> item_attributes" where
  "getAttr_assign k v a =
     (if hasAttribute k a \<and> k \<in> fst ` set (attr_list a) then a\<lparr>attr_list := assign_first k v (attr_list a)\<rparr>
      else \<lparr>attr_list = attr_list a @ [(k, v)], attributeBits = attributeBits a OR attr_bit k\<rparr>)"

definition getStrAttr :: "itemAttrTypes \<Rightarrow> item_attributes \<Rightarrow> u8 list" where
  "getStrAttr k a =
     (if \<not> isStrAttrType k then []
      else case getExistingAttr k a of Some (VString s) \<Rightarrow> s | _ \<Rightarrow> [])"

definition setStrAttr :: "itemAttrTypes \<Rightarrow> u8 list \<Rightarrow> item_attributes \<Rightarrow> item_attributes" where
  "setStrAttr k s a = (if \<not> isStrAttrType k \<or> s = [] then a else getAttr_assign k (VString s) a)"

definition getIntAttr :: "itemAttrTypes \<Rightarrow> item_attributes \<Rightarrow> u64" where
  "getIntAttr k a =
     (if \<not> isIntAttrType k then 0
      else case getExistingAttr k a of Some (VInt v) \<Rightarrow> v | _ \<Rightarrow> 0)"

definition setIntAttr :: "itemAttrTypes \<Rightarrow> u64 \<Rightarrow> item_attributes \<Rightarrow> item_attributes" where
  "setIntAttr k v a = (if \<not> isIntAttrType k then a else getAttr_assign k (VInt v) a)"

definition increaseIntAttr :: "itemAttrTypes \<Rightarrow> u64 \<Rightarrow> item_attributes \<Rightarrow> item_attributes" where
  "increaseIntAttr k v a = (if \<not> isIntAttrType k then a else getAttr_assign k (VInt (getIntAttr k a + v)) a)"

definition swap_out :: "itemAttrTypes \<Rightarrow> (itemAttrTypes \<times> attr_value) list \<Rightarrow> (itemAttrTypes \<times> attr_value) list" where
  "swap_out k as =
     (if fst (last as) = k then butlast as
      else case find (\<lambda>i. fst (as ! i) = k) (rev [0..<length as - 1]) of
             Some i \<Rightarrow> butlast (as[i := last as])
           | None \<Rightarrow> as)"

definition removeAttribute :: "itemAttrTypes \<Rightarrow> item_attributes \<Rightarrow> item_attributes" where
  "removeAttribute k a =
     (if \<not> hasAttribute k a then a
      else \<lparr>attr_list = swap_out k (attr_list a), attributeBits = attributeBits a AND NOT (attr_bit k)\<rparr>)"

definition lower_bytes :: "u8 list \<Rightarrow> u8 list" where
  "lower_bytes = map (\<lambda>b. if 0x41 \<le> b \<and> b \<le> 0x5A then b + 0x20 else b)"

definition getCustomAttributeMap :: "item_attributes \<Rightarrow> (u8 list \<times> custom_attribute) list option" where
  "getCustomAttributeMap a =
     (case getExistingAttr ITEM_ATTRIBUTE_CUSTOM a of Some (VCustom m) \<Rightarrow> Some m | _ \<Rightarrow> None)"

definition getCustomAttribute :: "u8 list \<Rightarrow> item_attributes \<Rightarrow> custom_attribute option" where
  "getCustomAttribute key a =
     (case getCustomAttributeMap a of None \<Rightarrow> None | Some m \<Rightarrow> map_of m (lower_bytes key))"

definition removeCustomAttribute :: "u8 list \<Rightarrow> item_attributes \<Rightarrow> bool \<times> item_attributes" where
  "removeCustomAttribute key a =
     (case getCustomAttributeMap a of
        None \<Rightarrow> (False, a)
      | Some m \<Rightarrow>
          if map_of m (lower_bytes key) = None then (False, a)
          else (True, getAttr_assign ITEM_ATTRIBUTE_CUSTOM (VCustom (filter (\<lambda>e. fst e \<noteq> lower_bytes key) m)) a))"

definition setCustomAttribute :: "u8 list \<Rightarrow> custom_attribute \<Rightarrow> item_attributes \<Rightarrow> item_attributes" where
  "setCustomAttribute key v a =
     (let key = lower_bytes key;
          a = (if hasAttribute ITEM_ATTRIBUTE_CUSTOM a then snd (removeCustomAttribute key a)
               else getAttr_assign ITEM_ATTRIBUTE_CUSTOM (VCustom []) a);
          m = (case getCustomAttributeMap a of Some m \<Rightarrow> m | None \<Rightarrow> [])
      in getAttr_assign ITEM_ATTRIBUTE_CUSTOM (VCustom (if map_of m key = None then m @ [(key, v)] else m)) a)"

section \<open>Items\<close>

text \<open>The fields of \<open>ItemType\<close> that decide what the subtype of an item is and what is stored. \<open>it_fluid\<close> stands for
  \<open>isFluidContainer() || isSplash()\<close>.\<close>

record item_traits =
  it_stackable :: bool
  it_fluid :: bool
  it_charges :: u32
  it_moveable :: bool

record item_state =
  item_this :: nat
  item_count :: u8
  item_attrs :: item_attributes
  item_game :: object_registry

definition upd :: "(item_attributes \<Rightarrow> item_attributes) \<Rightarrow> item_state \<Rightarrow> item_state" where
  "upd f ob = ob\<lparr>item_attrs := f (item_attrs ob)\<rparr>"

definition int_attr :: "itemAttrTypes \<Rightarrow> item_state \<Rightarrow> u64" where
  "int_attr k ob = getIntAttr k (item_attrs ob)"

definition str_attr :: "itemAttrTypes \<Rightarrow> item_state \<Rightarrow> u8 list" where
  "str_attr k ob = getStrAttr k (item_attrs ob)"

definition has_attr :: "itemAttrTypes \<Rightarrow> item_state \<Rightarrow> bool" where
  "has_attr k ob = hasAttribute k (item_attrs ob)"

definition setSubType :: "item_traits \<Rightarrow> u16 \<Rightarrow> item_state \<Rightarrow> item_state" where
  "setSubType it n ob =
     (if it_fluid it then upd (setIntAttr ITEM_ATTRIBUTE_FLUIDTYPE (ucast n)) ob
      else if it_stackable it then ob\<lparr>item_count := ucast n\<rparr>
      else if it_charges it \<noteq> 0 then upd (setIntAttr ITEM_ATTRIBUTE_CHARGES (ucast n)) ob
      else ob\<lparr>item_count := ucast n\<rparr>)"

definition getSubType :: "item_traits \<Rightarrow> item_state \<Rightarrow> u16" where
  "getSubType it ob =
     (if it_fluid it then ucast (int_attr ITEM_ATTRIBUTE_FLUIDTYPE ob)
      else if it_stackable it then ucast (item_count ob)
      else if it_charges it \<noteq> 0 then ucast (int_attr ITEM_ATTRIBUTE_CHARGES ob)
      else ucast (item_count ob))"

definition setDefaultSubtype :: "item_traits \<Rightarrow> item_state \<Rightarrow> item_state" where
  "setDefaultSubtype it ob =
     (let ob = ob\<lparr>item_count := 1\<rparr> in
      if it_charges it \<noteq> 0 then
        if it_stackable it then ob\<lparr>item_count := ucast (it_charges it)\<rparr>
        else upd (setIntAttr ITEM_ATTRIBUTE_CHARGES (ucast (ucast (it_charges it) :: u16))) ob
      else ob)"

definition setActionId :: "u16 \<Rightarrow> item_state \<Rightarrow> item_state" where
  "setActionId n ob = upd (setIntAttr ITEM_ATTRIBUTE_ACTIONID (ucast (if n < 100 then 100 else n))) ob"

definition setUniqueId :: "u16 \<Rightarrow> item_state \<Rightarrow> item_state" where
  "setUniqueId n ob =
     (if has_attr ITEM_ATTRIBUTE_UNIQUEID ob then ob
      else case addUniqueItem n (item_this ob) (item_game ob) of
             (added, g) \<Rightarrow>
               let ob = ob\<lparr>item_game := g\<rparr>
               in if added then upd (setIntAttr ITEM_ATTRIBUTE_UNIQUEID (ucast n)) ob else ob)"

definition DECAYING_FALSE :: u8 where "DECAYING_FALSE = 0"
definition DECAYING_TRUE :: u8 where "DECAYING_TRUE = 1"
definition DECAYING_PENDING :: u8 where "DECAYING_PENDING = 2"

definition setDecaying :: "u8 \<Rightarrow> item_state \<Rightarrow> item_state" where
  "setDecaying s ob = upd (setIntAttr ITEM_ATTRIBUTE_DECAYSTATE (ucast s)) ob"

definition getDecaying :: "item_state \<Rightarrow> u8" where
  "getDecaying ob = ucast (int_attr ITEM_ATTRIBUTE_DECAYSTATE ob)"


section \<open>Storing and loading\<close>

datatype (plugins only: size) AttrTypes_t =
    ATTR_TILE_FLAGS | ATTR_ACTION_ID | ATTR_UNIQUE_ID | ATTR_TEXT | ATTR_DESC | ATTR_TELE_DEST | ATTR_ITEM | ATTR_DEPOT_ID
  | ATTR_RUNE_CHARGES | ATTR_HOUSEDOORID | ATTR_COUNT | ATTR_DURATION | ATTR_DECAYING_STATE | ATTR_WRITTENDATE
  | ATTR_WRITTENBY | ATTR_SLEEPERGUID | ATTR_SLEEPSTART | ATTR_CHARGES | ATTR_CONTAINER_ITEMS | ATTR_NAME | ATTR_ARTICLE
  | ATTR_PLURALNAME | ATTR_WEIGHT | ATTR_ATTACK | ATTR_DEFENSE | ATTR_EXTRADEFENSE | ATTR_ARMOR | ATTR_HITCHANCE
  | ATTR_SHOOTRANGE | ATTR_CUSTOM_ATTRIBUTES | ATTR_DECAYTO | ATTR_WRAPID | ATTR_STOREITEM | ATTR_ATTACK_SPEED
  | ATTR_OPENCONTAINER

primrec attr_code :: "AttrTypes_t \<Rightarrow> u8" where
  "attr_code ATTR_TILE_FLAGS = 3"
| "attr_code ATTR_ACTION_ID = 4"
| "attr_code ATTR_UNIQUE_ID = 5"
| "attr_code ATTR_TEXT = 6"
| "attr_code ATTR_DESC = 7"
| "attr_code ATTR_TELE_DEST = 8"
| "attr_code ATTR_ITEM = 9"
| "attr_code ATTR_DEPOT_ID = 10"
| "attr_code ATTR_RUNE_CHARGES = 12"
| "attr_code ATTR_HOUSEDOORID = 14"
| "attr_code ATTR_COUNT = 15"
| "attr_code ATTR_DURATION = 16"
| "attr_code ATTR_DECAYING_STATE = 17"
| "attr_code ATTR_WRITTENDATE = 18"
| "attr_code ATTR_WRITTENBY = 19"
| "attr_code ATTR_SLEEPERGUID = 20"
| "attr_code ATTR_SLEEPSTART = 21"
| "attr_code ATTR_CHARGES = 22"
| "attr_code ATTR_CONTAINER_ITEMS = 23"
| "attr_code ATTR_NAME = 24"
| "attr_code ATTR_ARTICLE = 25"
| "attr_code ATTR_PLURALNAME = 26"
| "attr_code ATTR_WEIGHT = 27"
| "attr_code ATTR_ATTACK = 28"
| "attr_code ATTR_DEFENSE = 29"
| "attr_code ATTR_EXTRADEFENSE = 30"
| "attr_code ATTR_ARMOR = 31"
| "attr_code ATTR_HITCHANCE = 32"
| "attr_code ATTR_SHOOTRANGE = 33"
| "attr_code ATTR_CUSTOM_ATTRIBUTES = 34"
| "attr_code ATTR_DECAYTO = 35"
| "attr_code ATTR_WRAPID = 36"
| "attr_code ATTR_STOREITEM = 37"
| "attr_code ATTR_ATTACK_SPEED = 38"
| "attr_code ATTR_OPENCONTAINER = 39"

definition all_attrs :: "AttrTypes_t list" where
  "all_attrs =
     [ATTR_TILE_FLAGS, ATTR_ACTION_ID, ATTR_UNIQUE_ID, ATTR_TEXT, ATTR_DESC, ATTR_TELE_DEST, ATTR_ITEM, ATTR_DEPOT_ID,
      ATTR_RUNE_CHARGES, ATTR_HOUSEDOORID, ATTR_COUNT, ATTR_DURATION, ATTR_DECAYING_STATE, ATTR_WRITTENDATE,
      ATTR_WRITTENBY, ATTR_SLEEPERGUID, ATTR_SLEEPSTART, ATTR_CHARGES, ATTR_CONTAINER_ITEMS, ATTR_NAME, ATTR_ARTICLE,
      ATTR_PLURALNAME, ATTR_WEIGHT, ATTR_ATTACK, ATTR_DEFENSE, ATTR_EXTRADEFENSE, ATTR_ARMOR, ATTR_HITCHANCE,
      ATTR_SHOOTRANGE, ATTR_CUSTOM_ATTRIBUTES, ATTR_DECAYTO, ATTR_WRAPID, ATTR_STOREITEM, ATTR_ATTACK_SPEED,
      ATTR_OPENCONTAINER]"

definition attr_of :: "u8 \<Rightarrow> AttrTypes_t option" where
  "attr_of b = find (\<lambda>a. attr_code a = b) all_attrs"

definition custom_serialize :: "custom_attribute \<Rightarrow> u8 list \<Rightarrow> u8 list" where
  "custom_serialize v buf =
     (case v of
        Blank \<Rightarrow> write8 0 buf
      | CString s \<Rightarrow> writeString s (write8 1 buf)
      | CInt i \<Rightarrow> write64 i (write8 2 buf)
      | CDouble d \<Rightarrow> write64 d (write8 3 buf)
      | CBool b \<Rightarrow> write8 (if b then 1 else 0) (write8 4 buf))"

definition custom_unserialize :: "u8 list \<Rightarrow> (custom_attribute \<times> u8 list) option" where
  "custom_unserialize s =
     Option.bind (read8 s) (\<lambda>(pos, s).
       if pos = 1 then map_option (\<lambda>(v, s). (CString v, s)) (readString s)
       else if pos = 2 then map_option (\<lambda>(v, s). (CInt v, s)) (read64 s)
       else if pos = 3 then map_option (\<lambda>(v, s). (CDouble v, s)) (read64 s)
       else if pos = 4 then map_option (\<lambda>(v, s). (CBool (v \<noteq> 0), s)) (read8 s)
       else None)"

text \<open>The result of \<open>readAttr\<close>: \<open>ATTR_READ_ERROR\<close>, or \<open>ATTR_READ_CONTINUE\<close> with what is left of the stream.
  \<open>ATTR_READ_END\<close> is returned only by classes that derive from \<open>Item\<close>.\<close>

datatype attr_result = READ_ERROR item_state | READ_CONTINUE item_state "u8 list"

definition with_read :: "('a \<times> u8 list) option \<Rightarrow> ('a \<Rightarrow> item_state \<Rightarrow> item_state) \<Rightarrow> item_state \<Rightarrow> attr_result" where
  "with_read r f ob = (case r of None \<Rightarrow> READ_ERROR ob | Some (v, s) \<Rightarrow> READ_CONTINUE (f v ob) s)"

definition set_int :: "itemAttrTypes \<Rightarrow> u64 \<Rightarrow> item_state \<Rightarrow> item_state" where
  "set_int k v = upd (setIntAttr k v)"

definition set_str :: "itemAttrTypes \<Rightarrow> u8 list \<Rightarrow> item_state \<Rightarrow> item_state" where
  "set_str k s = upd (setStrAttr k s)"

definition skip_bytes :: "nat \<Rightarrow> u8 list \<Rightarrow> item_state \<Rightarrow> attr_result" where
  "skip_bytes n s ob = (case prop_skip n s of None \<Rightarrow> READ_ERROR ob | Some s' \<Rightarrow> READ_CONTINUE ob s')"

primrec custom_loop :: "nat \<Rightarrow> u8 list \<Rightarrow> item_state \<Rightarrow> attr_result" where
  "custom_loop 0 s ob = READ_CONTINUE ob s"
| "custom_loop (Suc n) s ob =
     (case readString s of
        None \<Rightarrow> READ_ERROR ob
      | Some (key, s) \<Rightarrow>
          (case custom_unserialize s of
             None \<Rightarrow> READ_ERROR ob
           | Some (val, s) \<Rightarrow> custom_loop n s (upd (setCustomAttribute key val) ob)))"

primrec readAttr :: "item_traits \<Rightarrow> AttrTypes_t \<Rightarrow> u8 list \<Rightarrow> item_state \<Rightarrow> attr_result" where
  "readAttr it ATTR_COUNT s = with_read (read8 s) (\<lambda>n. setSubType it (ucast n))"
| "readAttr it ATTR_RUNE_CHARGES s = with_read (read8 s) (\<lambda>n. setSubType it (ucast n))"
| "readAttr it ATTR_ACTION_ID s = with_read (read16 s) setActionId"
| "readAttr it ATTR_UNIQUE_ID s = with_read (read16 s) setUniqueId"
| "readAttr it ATTR_TEXT s = with_read (readString s) (set_str ITEM_ATTRIBUTE_TEXT)"
| "readAttr it ATTR_WRITTENDATE s = with_read (read32 s) (\<lambda>d. set_int ITEM_ATTRIBUTE_DATE (scast d))"
| "readAttr it ATTR_WRITTENBY s = with_read (readString s) (set_str ITEM_ATTRIBUTE_WRITER)"
| "readAttr it ATTR_DESC s = with_read (readString s) (set_str ITEM_ATTRIBUTE_DESCRIPTION)"
| "readAttr it ATTR_CHARGES s = with_read (read16 s) (setSubType it)"
| "readAttr it ATTR_DURATION s =
     with_read (read32 s) (\<lambda>d. set_int ITEM_ATTRIBUTE_DURATION (scast (if sint d < 0 then 0 else d)))"
| "readAttr it ATTR_DECAYING_STATE s =
     with_read (read8 s) (\<lambda>state ob. if state \<noteq> DECAYING_FALSE then setDecaying DECAYING_PENDING ob else ob)"
| "readAttr it ATTR_NAME s = with_read (readString s) (set_str ITEM_ATTRIBUTE_NAME)"
| "readAttr it ATTR_ARTICLE s = with_read (readString s) (set_str ITEM_ATTRIBUTE_ARTICLE)"
| "readAttr it ATTR_PLURALNAME s = with_read (readString s) (set_str ITEM_ATTRIBUTE_PLURALNAME)"
| "readAttr it ATTR_WEIGHT s = with_read (read32 s) (\<lambda>v. set_int ITEM_ATTRIBUTE_WEIGHT (ucast v))"
| "readAttr it ATTR_ATTACK s = with_read (read32 s) (\<lambda>v. set_int ITEM_ATTRIBUTE_ATTACK (scast v))"
| "readAttr it ATTR_ATTACK_SPEED s = with_read (read32 s) (\<lambda>v. set_int ITEM_ATTRIBUTE_ATTACK_SPEED (ucast v))"
| "readAttr it ATTR_DEFENSE s = with_read (read32 s) (\<lambda>v. set_int ITEM_ATTRIBUTE_DEFENSE (scast v))"
| "readAttr it ATTR_EXTRADEFENSE s = with_read (read32 s) (\<lambda>v. set_int ITEM_ATTRIBUTE_EXTRADEFENSE (scast v))"
| "readAttr it ATTR_ARMOR s = with_read (read32 s) (\<lambda>v. set_int ITEM_ATTRIBUTE_ARMOR (scast v))"
| "readAttr it ATTR_HITCHANCE s = with_read (read8 s) (\<lambda>v. set_int ITEM_ATTRIBUTE_HITCHANCE (scast v))"
| "readAttr it ATTR_SHOOTRANGE s = with_read (read8 s) (\<lambda>v. set_int ITEM_ATTRIBUTE_SHOOTRANGE (ucast v))"
| "readAttr it ATTR_DECAYTO s = with_read (read32 s) (\<lambda>v. set_int ITEM_ATTRIBUTE_DECAYTO (scast v))"
| "readAttr it ATTR_WRAPID s = with_read (read16 s) (\<lambda>v. set_int ITEM_ATTRIBUTE_WRAPID (ucast v))"
| "readAttr it ATTR_STOREITEM s = with_read (read8 s) (\<lambda>v. set_int ITEM_ATTRIBUTE_STOREITEM (ucast v))"
| "readAttr it ATTR_OPENCONTAINER s = with_read (read8 s) (\<lambda>v. set_int ITEM_ATTRIBUTE_OPENCONTAINER (ucast v))"
| "readAttr it ATTR_DEPOT_ID s = skip_bytes 2 s"
| "readAttr it ATTR_HOUSEDOORID s = skip_bytes 1 s"
| "readAttr it ATTR_SLEEPERGUID s = skip_bytes 4 s"
| "readAttr it ATTR_SLEEPSTART s = skip_bytes 4 s"
| "readAttr it ATTR_TELE_DEST s = skip_bytes 5 s"
| "readAttr it ATTR_CONTAINER_ITEMS s = READ_ERROR"
| "readAttr it ATTR_CUSTOM_ATTRIBUTES s =
     (\<lambda>ob. case read64 s of None \<Rightarrow> READ_ERROR ob | Some (n, s) \<Rightarrow> custom_loop (unat n) s ob)"
| "readAttr it ATTR_TILE_FLAGS s = READ_ERROR"
| "readAttr it ATTR_ITEM s = READ_ERROR"

lemma read_shrinks:
  "read8 s = Some (a, s') \<Longrightarrow> length s' < length s" "read16 s = Some (b, s') \<Longrightarrow> length s' < length s"
  "read32 s = Some (c, s') \<Longrightarrow> length s' < length s" "read64 s = Some (d, s') \<Longrightarrow> length s' < length s"
  by (auto simp: read8_def read16_def read32_def read64_def prop_read_def split: if_splits)

lemma readString_shrinks: "readString s = Some (v, s') \<Longrightarrow> length s' < length s"
  by (auto simp: readString_def bind_eq_Some_conv split: if_splits dest!: read_shrinks)

lemma custom_unserialize_shrinks: "custom_unserialize s = Some (v, s') \<Longrightarrow> length s' < length s"
  by (auto simp: custom_unserialize_def bind_eq_Some_conv split: if_splits dest!: read_shrinks readString_shrinks)

lemma custom_loop_shrinks: "custom_loop n s ob = READ_CONTINUE ob' s' \<Longrightarrow> length s' \<le> length s"
proof (induction n arbitrary: s ob)
  case (Suc n)
  then obtain key s1 v s2 where "readString s = Some (key, s1)" "custom_unserialize s1 = Some (v, s2)"
    and rest: "custom_loop n s2 (upd (setCustomAttribute key v) ob) = READ_CONTINUE ob' s'"
    by (auto split: option.splits)
  then show ?case using Suc.IH[OF rest] readString_shrinks custom_unserialize_shrinks by fastforce
qed simp

lemma readAttr_shrinks: "readAttr it a s ob = READ_CONTINUE ob' s' \<Longrightarrow> length s' < Suc (length s)"
proof (cases a)
  case ATTR_CUSTOM_ATTRIBUTES
  assume "readAttr it a s ob = READ_CONTINUE ob' s'"
  then show ?thesis using ATTR_CUSTOM_ATTRIBUTES by (auto split: option.splits dest!: custom_loop_shrinks read_shrinks)
qed (auto simp: with_read_def skip_bytes_def prop_skip_def split: option.splits if_splits dest!: read_shrinks readString_shrinks)

function unserializeAttr :: "item_traits \<Rightarrow> u8 list \<Rightarrow> item_state \<Rightarrow> bool \<times> item_state \<times> u8 list" where
  "unserializeAttr it s ob =
     (case read8 s of
        None \<Rightarrow> (True, ob, s)
      | Some (attr_type, s) \<Rightarrow>
          if attr_type = 0 then (True, ob, s)
          else case attr_of attr_type of
                 None \<Rightarrow> (False, ob, s)
               | Some a \<Rightarrow>
                   (case readAttr it a s ob of
                      READ_ERROR ob \<Rightarrow> (False, ob, s)
                    | READ_CONTINUE ob s \<Rightarrow> unserializeAttr it s ob))"
  by pat_completeness auto
termination
  by (relation "measure (\<lambda>(it, s, ob). length s)") (auto dest!: read_shrinks readAttr_shrinks)

declare unserializeAttr.simps [simp del]


text \<open>One attribute of the stream: its code and its value, written when the condition holds.\<close>

definition put_attr :: "bool \<Rightarrow> AttrTypes_t \<Rightarrow> (u8 list \<Rightarrow> u8 list) \<Rightarrow> u8 list \<Rightarrow> u8 list" where
  "put_attr c a wr buf = (if c then wr (write8 (attr_code a) buf) else buf)"

definition write_custom :: "(u8 list \<times> custom_attribute) list \<Rightarrow> u8 list \<Rightarrow> u8 list" where
  "write_custom m buf = fold (\<lambda>(key, v) buf. custom_serialize v (writeString key buf)) m (write64 (of_nat (length m)) buf)"

definition serializeAttr :: "item_traits \<Rightarrow> item_state \<Rightarrow> u8 list \<Rightarrow> u8 list" where
  "serializeAttr it ob buf =
     (let charges = ucast (int_attr ITEM_ATTRIBUTE_CHARGES ob) :: u16;
          actionId = ucast (int_attr ITEM_ATTRIBUTE_ACTIONID ob) :: u16;
          text = str_attr ITEM_ATTRIBUTE_TEXT ob;
          writtenDate = int_attr ITEM_ATTRIBUTE_DATE ob;
          writer = str_attr ITEM_ATTRIBUTE_WRITER ob;
          specialDesc = str_attr ITEM_ATTRIBUTE_DESCRIPTION ob;
          decayState = getDecaying ob;
          buf = put_attr (it_stackable it \<or> it_fluid it) ATTR_COUNT (write8 (ucast (getSubType it ob))) buf;
          buf = put_attr (charges \<noteq> 0) ATTR_CHARGES (write16 charges) buf;
          buf = put_attr (it_moveable it \<and> actionId \<noteq> 0) ATTR_ACTION_ID (write16 actionId) buf;
          buf = put_attr (text \<noteq> []) ATTR_TEXT (writeString text) buf;
          buf = put_attr (writtenDate \<noteq> 0) ATTR_WRITTENDATE (write32 (ucast writtenDate)) buf;
          buf = put_attr (writer \<noteq> []) ATTR_WRITTENBY (writeString writer) buf;
          buf = put_attr (specialDesc \<noteq> []) ATTR_DESC (writeString specialDesc) buf;
          buf = put_attr (has_attr ITEM_ATTRIBUTE_DURATION ob) ATTR_DURATION (write32 (ucast (int_attr ITEM_ATTRIBUTE_DURATION ob))) buf;
          buf = put_attr (decayState = DECAYING_TRUE \<or> decayState = DECAYING_PENDING) ATTR_DECAYING_STATE (write8 decayState) buf;
          buf = put_attr (has_attr ITEM_ATTRIBUTE_NAME ob) ATTR_NAME (writeString (str_attr ITEM_ATTRIBUTE_NAME ob)) buf;
          buf = put_attr (has_attr ITEM_ATTRIBUTE_ARTICLE ob) ATTR_ARTICLE (writeString (str_attr ITEM_ATTRIBUTE_ARTICLE ob)) buf;
          buf = put_attr (has_attr ITEM_ATTRIBUTE_PLURALNAME ob) ATTR_PLURALNAME (writeString (str_attr ITEM_ATTRIBUTE_PLURALNAME ob)) buf;
          buf = put_attr (has_attr ITEM_ATTRIBUTE_WEIGHT ob) ATTR_WEIGHT (write32 (ucast (int_attr ITEM_ATTRIBUTE_WEIGHT ob))) buf;
          buf = put_attr (has_attr ITEM_ATTRIBUTE_ATTACK ob) ATTR_ATTACK (write32 (ucast (int_attr ITEM_ATTRIBUTE_ATTACK ob))) buf;
          buf = put_attr (has_attr ITEM_ATTRIBUTE_ATTACK_SPEED ob) ATTR_ATTACK_SPEED (write32 (ucast (int_attr ITEM_ATTRIBUTE_ATTACK_SPEED ob))) buf;
          buf = put_attr (has_attr ITEM_ATTRIBUTE_DEFENSE ob) ATTR_DEFENSE (write32 (ucast (int_attr ITEM_ATTRIBUTE_DEFENSE ob))) buf;
          buf = put_attr (has_attr ITEM_ATTRIBUTE_EXTRADEFENSE ob) ATTR_EXTRADEFENSE (write32 (ucast (int_attr ITEM_ATTRIBUTE_EXTRADEFENSE ob))) buf;
          buf = put_attr (has_attr ITEM_ATTRIBUTE_ARMOR ob) ATTR_ARMOR (write32 (ucast (int_attr ITEM_ATTRIBUTE_ARMOR ob))) buf;
          buf = put_attr (has_attr ITEM_ATTRIBUTE_HITCHANCE ob) ATTR_HITCHANCE (write8 (ucast (int_attr ITEM_ATTRIBUTE_HITCHANCE ob))) buf;
          buf = put_attr (has_attr ITEM_ATTRIBUTE_SHOOTRANGE ob) ATTR_SHOOTRANGE (write8 (ucast (int_attr ITEM_ATTRIBUTE_SHOOTRANGE ob))) buf;
          buf = put_attr (has_attr ITEM_ATTRIBUTE_DECAYTO ob) ATTR_DECAYTO (write32 (ucast (int_attr ITEM_ATTRIBUTE_DECAYTO ob))) buf;
          buf = put_attr (has_attr ITEM_ATTRIBUTE_WRAPID ob) ATTR_WRAPID (write16 (ucast (int_attr ITEM_ATTRIBUTE_WRAPID ob))) buf;
          buf = put_attr (has_attr ITEM_ATTRIBUTE_STOREITEM ob) ATTR_STOREITEM (write8 (ucast (int_attr ITEM_ATTRIBUTE_STOREITEM ob))) buf;
          buf = put_attr (has_attr ITEM_ATTRIBUTE_OPENCONTAINER ob) ATTR_OPENCONTAINER (write8 (ucast (int_attr ITEM_ATTRIBUTE_OPENCONTAINER ob))) buf
      in put_attr (has_attr ITEM_ATTRIBUTE_CUSTOM ob) ATTR_CUSTOM_ATTRIBUTES
           (write_custom (the (getCustomAttributeMap (item_attrs ob)))) buf)"

section \<open>The vector and its mask\<close>

text \<open>A well-formed vector has each type at most once, with a value of the kind its type prescribes, and the mask
  has exactly the bits of the types present.\<close>

fun value_fits :: "itemAttrTypes \<Rightarrow> attr_value \<Rightarrow> bool" where
  "value_fits k (VInt _) = isIntAttrType k"
| "value_fits k (VString s) = isStrAttrType k"
| "value_fits k (VCustom m) = (k = ITEM_ATTRIBUTE_CUSTOM \<and> distinct (map fst m))"

definition attrs_inv :: "item_attributes \<Rightarrow> bool" where
  "attrs_inv a \<longleftrightarrow> distinct (map fst (attr_list a)) \<and> (\<forall>(k, v) \<in> set (attr_list a). value_fits k v) \<and>
     (\<forall>k. hasAttribute k a \<longleftrightarrow> k \<in> fst ` set (attr_list a))"

lemma attr_index_inject [simp]: "attr_index j = attr_index k \<longleftrightarrow> j = k"
  by (cases j; cases k; simp)

lemma attr_index_less: "attr_index k < 32"
  by (cases k) simp_all

lemma bit_attr_bit: "bit (attr_bit k) n \<longleftrightarrow> n = attr_index k"
  using attr_index_less[of k] by (auto simp: attr_bit_def bit_exp_iff)

lemma hasAttribute_bit: "hasAttribute k a \<longleftrightarrow> bit (attributeBits a) (attr_index k)"
  unfolding hasAttribute_def bit_eq_iff using attr_index_less[of k] by (auto simp: bit_and_iff bit_attr_bit)

lemma attr_bit_within: "attr_bit k AND m = attr_bit k \<longleftrightarrow> bit m (attr_index k)"
  unfolding bit_eq_iff using attr_index_less[of k] by (auto simp: bit_and_iff bit_attr_bit)

lemma bits_or_attr: "bit (w OR attr_bit k) (attr_index j) \<longleftrightarrow> bit w (attr_index j) \<or> j = k"
  by (simp add: bit_or_iff bit_attr_bit)

lemma bits_andnot_attr: "bit (w AND NOT (attr_bit k)) (attr_index j) \<longleftrightarrow> bit w (attr_index j) \<and> j \<noteq> k"
  using attr_index_less[of j] by (auto simp: bit_and_iff bit_not_iff bit_attr_bit)

lemma attr_kinds [simp]:
  "isIntAttrType k \<longleftrightarrow> k \<notin> {ITEM_ATTRIBUTE_DESCRIPTION, ITEM_ATTRIBUTE_TEXT, ITEM_ATTRIBUTE_WRITER, ITEM_ATTRIBUTE_NAME,
      ITEM_ATTRIBUTE_ARTICLE, ITEM_ATTRIBUTE_PLURALNAME, ITEM_ATTRIBUTE_CUSTOM}"
  "isStrAttrType k \<longleftrightarrow> k \<in> {ITEM_ATTRIBUTE_DESCRIPTION, ITEM_ATTRIBUTE_TEXT, ITEM_ATTRIBUTE_WRITER, ITEM_ATTRIBUTE_NAME,
      ITEM_ATTRIBUTE_ARTICLE, ITEM_ATTRIBUTE_PLURALNAME}"
  by (cases k; simp add: isIntAttrType_def isStrAttrType_def attr_bit_within intAttributeTypes_def stringAttributeTypes_def
      bit_or_iff bit_attr_bit)+


text \<open>The vector implements a finite map from types to values.\<close>

abbreviation attr_map :: "item_attributes \<Rightarrow> itemAttrTypes \<rightharpoonup> attr_value" where
  "attr_map a \<equiv> map_of (attr_list a)"

lemma assign_first_keys [simp]: "map fst (assign_first k v as) = map fst as"
  by (induction as) auto

lemma assign_first_map: "k \<in> fst ` set as \<Longrightarrow> map_of (assign_first k v as) = (map_of as)(k \<mapsto> v)"
proof (induction k v as rule: assign_first.induct)
  case (2 k v k' v' as)
  then show ?case by (cases "k' = k") (simp_all, auto simp: fun_eq_iff)
qed simp

lemma assign_first_set: "set (assign_first k v as) \<subseteq> insert (k, v) (set as)"
  by (induction k v as rule: assign_first.induct) (auto split: if_splits)

lemma attrs_invD:
  assumes "attrs_inv a"
  shows "distinct (map fst (attr_list a))" "hasAttribute k a \<longleftrightarrow> k \<in> fst ` set (attr_list a)"
    "(k, v) \<in> set (attr_list a) \<Longrightarrow> value_fits k v"
  using assms by (auto simp: attrs_inv_def)

lemma getExistingAttr_map [simp]: "attrs_inv a \<Longrightarrow> getExistingAttr k a = attr_map a k"
  by (auto simp: getExistingAttr_def attrs_invD(2) map_of_eq_None_iff eq_commute[of None])

lemma hasAttribute_map: "attrs_inv a \<Longrightarrow> hasAttribute k a \<longleftrightarrow> attr_map a k \<noteq> None"
  by (simp add: attrs_invD(2) map_of_eq_None_iff)

lemma no_attributes_inv [simp]: "attrs_inv no_attributes" "attr_map no_attributes = Map.empty"
  by (simp_all add: attrs_inv_def no_attributes_def hasAttribute_bit)

lemma getAttr_assign_map [simp]:
  assumes "attrs_inv a"
  shows "attr_map (getAttr_assign k v a) = (attr_map a)(k \<mapsto> v)"
proof (cases "k \<in> fst ` set (attr_list a)")
  case True
  then show ?thesis using assms by (simp add: getAttr_assign_def attrs_invD(2) assign_first_map)
next
  case False
  then have "attr_map a k = None" by (simp add: map_of_eq_None_iff)
  then show ?thesis using False by (auto simp: getAttr_assign_def map_add_def fun_eq_iff split: option.splits)
qed

lemma getAttr_assign_inv:
  assumes inv: "attrs_inv a" and fits: "value_fits k v"
  shows "attrs_inv (getAttr_assign k v a)"
proof (cases "k \<in> fst ` set (attr_list a)")
  case True
  then have eq: "getAttr_assign k v a = a\<lparr>attr_list := assign_first k v (attr_list a)\<rparr>"
    using inv by (simp add: getAttr_assign_def attrs_invD(2))
  have keys: "fst ` set (assign_first k v (attr_list a)) = fst ` set (attr_list a)"
    by (metis assign_first_keys set_map)
  show ?thesis unfolding eq attrs_inv_def
    using attrs_invD[OF inv] fits assign_first_set[of k v "attr_list a"] keys by (auto simp: hasAttribute_def)
next
  case False
  then show ?thesis
    using attrs_invD[OF inv] fits by (auto simp: attrs_inv_def getAttr_assign_def hasAttribute_bit bits_or_attr)
qed

lemma swap_out_split:
  assumes "as \<noteq> []" "k \<in> fst ` set as"
  obtains xs v ys where "as = xs @ (k, v) # ys" "mset (swap_out k as) = mset (xs @ ys)"
proof -
  obtain bs l where as: "as = bs @ [l]" using assms(1) by (metis append_butlast_last_id)
  show thesis
  proof (cases "fst l = k")
    case True
    then show ?thesis using that[of bs "snd l" "[]"] as by (simp add: swap_out_def) (metis prod.collapse)
  next
    case False
    then have "\<exists>i < length bs. fst (bs ! i) = k" using assms(2) as by (auto simp: in_set_conv_nth) (metis fst_conv)
    then have "find (\<lambda>i. fst (as ! i) = k) (rev [0..<length bs]) \<noteq> None"
      by (auto simp: find_None_iff as nth_append)
    then obtain i where i: "find (\<lambda>i. fst (as ! i) = k) (rev [0..<length bs]) = Some i" by auto
    then have "i < length bs \<and> fst (as ! i) = k" by (auto simp: find_Some_iff rev_nth)
    then have il: "i < length bs" "fst (bs ! i) = k" by (auto simp: as nth_append)
    have "swap_out k as = bs[i := l]" using False i il(1) by (simp add: swap_out_def as butlast_append list_update_append)
    moreover have "bs[i := l] = take i bs @ l # drop (Suc i) bs" using il(1) by (rule upd_conv_take_nth_drop)
    moreover have "as = take i bs @ (k, snd (bs ! i)) # drop (Suc i) bs @ [l]"
      using il id_take_nth_drop[OF il(1)] as by (metis append.assoc append_Cons prod.collapse)
    ultimately show ?thesis using that[of "take i bs" "snd (bs ! i)" "drop (Suc i) bs @ [l]"] by simp
  qed
qed

lemma map_of_mset:
  assumes "mset as = mset bs" "distinct (map fst bs)"
  shows "map_of as = map_of bs"
proof -
  have "distinct (map fst as)" using assms by (metis mset_eq_imp_distinct_iff mset_map)
  then show ?thesis using assms map_of_eqI mset_eq_setD by (metis map_of_inject_set)
qed


lemma removeAttribute_inv_map:
  assumes inv: "attrs_inv a"
  shows "attrs_inv (removeAttribute k a) \<and> attr_map (removeAttribute k a) = (attr_map a)(k := None)"
proof (cases "hasAttribute k a")
  case False
  then show ?thesis using inv hasAttribute_map[OF inv, of k] by (simp add: removeAttribute_def fun_upd_idem)
next
  case True
  then have k: "k \<in> fst ` set (attr_list a)" using attrs_invD(2)[OF inv] by simp
  then obtain xs v ys where xs: "attr_list a = xs @ (k, v) # ys" and ms: "mset (swap_out k (attr_list a)) = mset (xs @ ys)"
    using swap_out_split[of "attr_list a" k] by (metis empty_iff empty_set image_empty)
  have dist: "distinct (map fst (xs @ ys))" "k \<notin> fst ` set (xs @ ys)"
    using attrs_invD(1)[OF inv] xs by auto
  have sw: "set (swap_out k (attr_list a)) = set (xs @ ys)" using ms by (rule mset_eq_setD)
  have "distinct (map fst (swap_out k (attr_list a)))"
    using ms dist(1) by (metis mset_eq_imp_distinct_iff mset_map)
  moreover have "map_of (swap_out k (attr_list a)) = (attr_map a)(k := None)"
  proof -
    have "map_of xs k = None" "map_of ys k = None" using dist(2) by (auto simp: map_of_eq_None_iff)
    then have "map_of (xs @ ys) = (map_of (xs @ (k, v) # ys))(k := None)"
      by (auto simp: map_add_def fun_eq_iff split: option.splits)
    then show ?thesis using map_of_mset[OF ms dist(1)] xs by simp
  qed
  moreover have "hasAttribute j (removeAttribute k a) \<longleftrightarrow> j \<in> fst ` set (swap_out k (attr_list a))" for j
    using True attrs_invD(2)[OF inv, of j] dist(2) unfolding sw
    by (auto simp: removeAttribute_def hasAttribute_bit bits_andnot_attr xs)
  ultimately show ?thesis using True attrs_invD(3)[OF inv] sw xs
    by (auto simp: attrs_inv_def removeAttribute_def)
qed

lemmas removeAttribute_inv = removeAttribute_inv_map[THEN conjunct1]
lemmas removeAttribute_map [simp] = removeAttribute_inv_map[THEN conjunct2]

text \<open>The accessors over the map: what is set is read back, other types are left alone, and the type prescribes
  which setter takes effect.\<close>

definition int_of :: "attr_value option \<Rightarrow> u64" where
  "int_of v = (case v of Some (VInt i) \<Rightarrow> i | _ \<Rightarrow> 0)"

definition str_of :: "attr_value option \<Rightarrow> u8 list" where
  "str_of v = (case v of Some (VString s) \<Rightarrow> s | _ \<Rightarrow> [])"

definition custom_of :: "attr_value option \<Rightarrow> (u8 list \<times> custom_attribute) list option" where
  "custom_of v = (case v of Some (VCustom m) \<Rightarrow> Some m | _ \<Rightarrow> None)"

lemma value_of_simps [simp]:
  "int_of (Some (VInt i)) = i" "str_of (Some (VString s)) = s" "custom_of (Some (VCustom m)) = Some m"
  "int_of None = 0" "str_of None = []" "custom_of None = None"
  by (simp_all add: int_of_def str_of_def custom_of_def)

lemma getIntAttr_map: "attrs_inv a \<Longrightarrow> getIntAttr k a = (if isIntAttrType k then int_of (attr_map a k) else 0)"
  by (simp add: getIntAttr_def int_of_def del: attr_kinds)

lemma getStrAttr_map: "attrs_inv a \<Longrightarrow> getStrAttr k a = (if isStrAttrType k then str_of (attr_map a k) else [])"
  by (simp add: getStrAttr_def str_of_def del: attr_kinds)

lemma getCustomAttributeMap_map: "attrs_inv a \<Longrightarrow> getCustomAttributeMap a = custom_of (attr_map a ITEM_ATTRIBUTE_CUSTOM)"
  by (simp add: getCustomAttributeMap_def custom_of_def)

lemma setIntAttr_map:
  "attrs_inv a \<Longrightarrow> attr_map (setIntAttr k v a) = (if isIntAttrType k then (attr_map a)(k \<mapsto> VInt v) else attr_map a)"
  by (simp add: setIntAttr_def del: attr_kinds)

lemma setIntAttr_inv: "attrs_inv a \<Longrightarrow> attrs_inv (setIntAttr k v a)"
  by (simp add: setIntAttr_def getAttr_assign_inv del: attr_kinds)

lemma setStrAttr_map:
  "attrs_inv a \<Longrightarrow> attr_map (setStrAttr k s a) = (if isStrAttrType k \<and> s \<noteq> [] then (attr_map a)(k \<mapsto> VString s) else attr_map a)"
  by (simp add: setStrAttr_def del: attr_kinds)

lemma setStrAttr_inv: "attrs_inv a \<Longrightarrow> attrs_inv (setStrAttr k s a)"
  by (simp add: setStrAttr_def getAttr_assign_inv del: attr_kinds)

lemma increaseIntAttr_inv: "attrs_inv a \<Longrightarrow> attrs_inv (increaseIntAttr k v a)"
  by (simp add: increaseIntAttr_def getAttr_assign_inv del: attr_kinds)

lemma custom_value:
  assumes "attrs_inv a" "attr_map a ITEM_ATTRIBUTE_CUSTOM \<noteq> None"
  obtains m where "attr_map a ITEM_ATTRIBUTE_CUSTOM = Some (VCustom m)" "distinct (map fst m)"
proof -
  obtain v where v: "attr_map a ITEM_ATTRIBUTE_CUSTOM = Some v" using assms(2) by auto
  then have "value_fits ITEM_ATTRIBUTE_CUSTOM v" using attrs_invD(3)[OF assms(1)] by (auto dest: map_of_SomeD)
  then show thesis using that v by (cases v) auto
qed

lemma lower_bytes_idem [simp]: "lower_bytes (lower_bytes s) = lower_bytes s"
proof -
  have "\<not> (0x41 \<le> b + 0x20 \<and> b + 0x20 \<le> 0x5A)" if "0x41 \<le> b" "b \<le> 0x5A" for b :: u8
    using that by (auto simp: word_le_nat_alt unat_word_ariths)
  then show ?thesis by (auto simp: lower_bytes_def)
qed

lemma setCustomAttribute_spec:
  assumes inv: "attrs_inv a"
  defines "m \<equiv> (case custom_of (attr_map a ITEM_ATTRIBUTE_CUSTOM) of Some m \<Rightarrow> m | None \<Rightarrow> [])"
  shows "attrs_inv (setCustomAttribute key v a)"
    "attr_map (setCustomAttribute key v a) = (attr_map a)(ITEM_ATTRIBUTE_CUSTOM \<mapsto>
       VCustom (filter (\<lambda>e. fst e \<noteq> lower_bytes key) m @ [(lower_bytes key, v)]))"
proof -
  let ?K = "ITEM_ATTRIBUTE_CUSTOM" and ?k = "lower_bytes key"
  let ?m = "filter (\<lambda>e. fst e \<noteq> ?k) m"
  define b where "b = (if hasAttribute ?K a then snd (removeCustomAttribute ?k a) else getAttr_assign ?K (VCustom []) a)"
  have fits: "value_fits ?K (VCustom ?m)" "value_fits ?K (VCustom (?m @ [(?k, v)]))"
  proof -
    have "distinct (map fst m)"
    proof (cases "attr_map a ?K = None")
      case False
      then obtain n where "attr_map a ?K = Some (VCustom n)" "distinct (map fst n)" by (rule custom_value[OF inv])
      then show ?thesis by (simp add: m_def)
    qed (simp add: m_def)
    then show "value_fits ?K (VCustom ?m)" "value_fits ?K (VCustom (?m @ [(?k, v)]))" by (auto simp: distinct_map_filter)
  qed
  have b: "attrs_inv b \<and> attr_map b = (attr_map a)(?K \<mapsto> VCustom ?m)"
  proof (cases "hasAttribute ?K a")
    case True
    then obtain n where n: "attr_map a ?K = Some (VCustom n)" using custom_value[OF inv] hasAttribute_map[OF inv] by metis
    then have mn: "m = n" by (simp add: m_def)
    show ?thesis
    proof (cases "map_of n ?k = None")
      case out: True
      then have "?m = m" unfolding mn by (force simp: map_of_eq_None_iff filter_id_conv)
      then show ?thesis using True out n inv mn
        by (simp add: b_def removeCustomAttribute_def getCustomAttributeMap_map fun_upd_idem)
    next
      case False
      then show ?thesis using True n inv mn fits(1)
        by (auto simp: b_def removeCustomAttribute_def getCustomAttributeMap_map getAttr_assign_inv)
    qed
  next
    case False
    then have "attr_map a ?K = None" using hasAttribute_map[OF inv] by simp
    then show ?thesis using False inv by (simp add: b_def m_def getAttr_assign_inv)
  qed
  have "map_of ?m ?k = None" by (auto simp: map_of_eq_None_iff)
  then have eq: "setCustomAttribute key v a = getAttr_assign ?K (VCustom (?m @ [(?k, v)])) b"
    using b by (simp add: setCustomAttribute_def Let_def b_def[symmetric] getCustomAttributeMap_map)
  show "attrs_inv (setCustomAttribute key v a)"
    "attr_map (setCustomAttribute key v a) = (attr_map a)(?K \<mapsto> VCustom (?m @ [(?k, v)]))"
    unfolding eq using b fits(2) by (simp_all add: getAttr_assign_inv)
qed


section \<open>Reading back what was written\<close>

text \<open>\<open>stores it w f\<close>: the writer \<open>w\<close> appends bytes to the stream whose reading has the effect \<open>f\<close> on the item.\<close>

definition stores :: "item_traits \<Rightarrow> (u8 list \<Rightarrow> u8 list) \<Rightarrow> (item_state \<Rightarrow> item_state) \<Rightarrow> bool" where
  "stores it w f \<longleftrightarrow> (\<exists>bs. (\<forall>buf. w buf = buf @ bs) \<and>
     (\<forall>rest ob. unserializeAttr it (bs @ rest) ob = unserializeAttr it rest (f ob)))"

definition keep :: "bool \<Rightarrow> (item_state \<Rightarrow> item_state) \<Rightarrow> item_state \<Rightarrow> item_state" where
  "keep c f ob = (if c then f ob else ob)"

lemma attr_of_code [simp]: "attr_of (attr_code a) = Some a"
  by (cases a) (simp_all add: attr_of_def all_attrs_def)

lemma attr_code_nonzero [simp]: "attr_code a \<noteq> 0"
  by (cases a) simp_all

lemma stores_nothing: "stores it (\<lambda>buf. buf) (\<lambda>ob. ob)"
  unfolding stores_def by (intro exI[of _ "[]"]) simp

lemma stores_put:
  assumes W: "stores it W F" and wr: "\<And>buf. c \<Longrightarrow> wr buf = buf @ bs"
    and rd: "\<And>rest ob. c \<Longrightarrow> readAttr it a (bs @ rest) ob = READ_CONTINUE (f ob) rest"
  shows "stores it (\<lambda>buf. put_attr c a wr (W buf)) (\<lambda>ob. keep c f (F ob))"
proof (cases c)
  case True
  obtain ws where ws: "\<And>buf. W buf = buf @ ws" "\<And>rest ob. unserializeAttr it (ws @ rest) ob = unserializeAttr it rest (F ob)"
    using W by (auto simp: stores_def)
  have "unserializeAttr it (le_enc8 (attr_code a) @ bs @ rest) ob = unserializeAttr it rest (f ob)" for rest ob
    by (subst unserializeAttr.simps) (simp add: codec_simps rd[OF True])
  then show ?thesis unfolding stores_def using True ws wr[OF True]
    by (intro exI[of _ "ws @ le_enc8 (attr_code a) @ bs"]) (simp add: put_attr_def keep_def write8_def)
qed (use W in \<open>simp add: put_attr_def keep_def\<close>)

lemma stores_u8:
  "(\<And>s. readAttr it a s = with_read (read8 s) g) \<Longrightarrow> stores it W F \<Longrightarrow>
   stores it (\<lambda>buf. put_attr c a (write8 v) (W buf)) (\<lambda>ob. keep c (g v) (F ob))"
  by (rule stores_put[where bs = "le_enc8 v"]) (simp_all add: write8_def with_read_def codec_simps)

lemma stores_u16:
  "(\<And>s. readAttr it a s = with_read (read16 s) g) \<Longrightarrow> stores it W F \<Longrightarrow>
   stores it (\<lambda>buf. put_attr c a (write16 v) (W buf)) (\<lambda>ob. keep c (g v) (F ob))"
  by (rule stores_put[where bs = "le_enc16 v"]) (simp_all add: write16_def with_read_def codec_simps)

lemma stores_u32:
  "(\<And>s. readAttr it a s = with_read (read32 s) g) \<Longrightarrow> stores it W F \<Longrightarrow>
   stores it (\<lambda>buf. put_attr c a (write32 v) (W buf)) (\<lambda>ob. keep c (g v) (F ob))"
  by (rule stores_put[where bs = "le_enc32 v"]) (simp_all add: write32_def with_read_def codec_simps)

lemma writeString_append: "writeString v buf = buf @ writeString v []"
  using write_prop_append[of "PString v" buf] by (simp only: write_prop.simps)

lemma readString_writeString: "length v \<le> 65535 \<Longrightarrow> readString (writeString v [] @ s) = Some (v, s)"
  using read_write_prop[of "PString v" s] by (auto simp: not_less)

lemma stores_string:
  "(\<And>s. readAttr it a s = with_read (readString s) g) \<Longrightarrow> stores it W F \<Longrightarrow> length v \<le> 65535 \<Longrightarrow>
   stores it (\<lambda>buf. put_attr c a (writeString v) (W buf)) (\<lambda>ob. keep c (g v) (F ob))"
  by (rule stores_put[where bs = "writeString v []", OF _ writeString_append])
    (assumption, simp add: with_read_def readString_writeString)

text \<open>Custom attributes survive unless they are blank; strings and keys must fit the length prefix.\<close>

fun storable :: "custom_attribute \<Rightarrow> bool" where
  "storable Blank = False"
| "storable (CString s) = (length s \<le> 65535)"
| "storable _ = True"

lemma custom_serialize_append: "custom_serialize v buf = buf @ custom_serialize v []"
proof (cases v)
  case (CString t)
  then show ?thesis using writeString_append[of t "buf @ le_enc8 1"] writeString_append[of t "le_enc8 1"]
    by (simp add: custom_serialize_def write8_def)
qed (simp_all add: custom_serialize_def write8_def write64_def)

lemma custom_unserialize_serialize: "storable v \<Longrightarrow> custom_unserialize (custom_serialize v [] @ s) = Some (v, s)"
proof (cases v)
  case (CString t)
  then show "storable v \<Longrightarrow> ?thesis" using readString_writeString[of t s] writeString_append[of t "le_enc8 1"]
    by (simp add: custom_serialize_def custom_unserialize_def write8_def codec_simps)
qed (simp_all add: custom_serialize_def custom_unserialize_def write8_def write64_def codec_simps)

definition custom_bytes :: "(u8 list \<times> custom_attribute) list \<Rightarrow> u8 list" where
  "custom_bytes m = concat (map (\<lambda>(key, v). writeString key [] @ custom_serialize v []) m)"

lemma write_custom_append: "write_custom m buf = buf @ le_enc64 (of_nat (length m)) @ custom_bytes m"
proof -
  have "fold (\<lambda>(key, v) buf. custom_serialize v (writeString key buf)) m b = b @ custom_bytes m" for b
  proof (induction m arbitrary: b)
    case (Cons e m)
    obtain key v where e: "e = (key, v)" by (cases e)
    have "custom_serialize v (writeString key b) = b @ writeString key [] @ custom_serialize v []"
      using custom_serialize_append[of v "writeString key b"] writeString_append[of key b] by simp
    then show ?case using Cons by (simp add: e custom_bytes_def)
  qed (simp add: custom_bytes_def)
  then show ?thesis by (simp add: write_custom_def write64_def)
qed

definition set_customs :: "(u8 list \<times> custom_attribute) list \<Rightarrow> item_state \<Rightarrow> item_state" where
  "set_customs m = fold (\<lambda>(key, v). upd (setCustomAttribute key v)) m"

lemma custom_loop_bytes:
  "list_all (\<lambda>(key, v). length key \<le> 65535 \<and> storable v) m \<Longrightarrow>
   custom_loop (length m) (custom_bytes m @ s) ob = READ_CONTINUE (set_customs m ob) s"
proof (induction m arbitrary: ob)
  case (Cons e m)
  obtain key v where e: "e = (key, v)" by (cases e)
  have "custom_bytes (e # m) @ s = writeString key [] @ custom_serialize v [] @ custom_bytes m @ s"
    by (simp add: e custom_bytes_def)
  then show ?case using Cons by (simp add: e readString_writeString custom_unserialize_serialize set_customs_def)
qed (simp add: custom_bytes_def set_customs_def)

lemma stores_customs:
  assumes "stores it W F" "c \<Longrightarrow> list_all (\<lambda>(key, v). length key \<le> 65535 \<and> storable v) m" "c \<Longrightarrow> length m < 2 ^ 64"
  shows "stores it (\<lambda>buf. put_attr c ATTR_CUSTOM_ATTRIBUTES (write_custom m) (W buf)) (\<lambda>ob. keep c (set_customs m) (F ob))"
proof (rule stores_put[where bs = "le_enc64 (of_nat (length m)) @ custom_bytes m"])
  fix rest ob assume c
  have "unat (of_nat (length m) :: u64) = length m" using assms(3)[OF \<open>c\<close>] by (simp add: unat_of_nat take_bit_nat_eq_self)
  then show "readAttr it ATTR_CUSTOM_ATTRIBUTES ((le_enc64 (of_nat (length m)) @ custom_bytes m) @ rest) ob =
      READ_CONTINUE (set_customs m ob) rest"
    using custom_loop_bytes[OF assms(2)[OF \<open>c\<close>]] by (simp add: codec_simps)
qed (use assms(1) write_custom_append in simp_all)


text \<open>What reading the stream does to the item that is being loaded, attribute by attribute.\<close>

definition restore :: "item_traits \<Rightarrow> item_state \<Rightarrow> item_state \<Rightarrow> item_state" where
  "restore it ob r =
     (let r = keep (it_stackable it \<or> it_fluid it) (setSubType it (ucast (ucast (getSubType it ob) :: u8))) r;
          r = keep ((ucast (int_attr ITEM_ATTRIBUTE_CHARGES ob) :: u16) \<noteq> 0) (setSubType it (ucast (int_attr ITEM_ATTRIBUTE_CHARGES ob))) r;
          r = keep (it_moveable it \<and> (ucast (int_attr ITEM_ATTRIBUTE_ACTIONID ob) :: u16) \<noteq> 0) (setActionId (ucast (int_attr ITEM_ATTRIBUTE_ACTIONID ob))) r;
          r = keep (str_attr ITEM_ATTRIBUTE_TEXT ob \<noteq> []) (set_str ITEM_ATTRIBUTE_TEXT (str_attr ITEM_ATTRIBUTE_TEXT ob)) r;
          r = keep (int_attr ITEM_ATTRIBUTE_DATE ob \<noteq> 0) (set_int ITEM_ATTRIBUTE_DATE (scast (ucast (int_attr ITEM_ATTRIBUTE_DATE ob) :: u32))) r;
          r = keep (str_attr ITEM_ATTRIBUTE_WRITER ob \<noteq> []) (set_str ITEM_ATTRIBUTE_WRITER (str_attr ITEM_ATTRIBUTE_WRITER ob)) r;
          r = keep (str_attr ITEM_ATTRIBUTE_DESCRIPTION ob \<noteq> []) (set_str ITEM_ATTRIBUTE_DESCRIPTION (str_attr ITEM_ATTRIBUTE_DESCRIPTION ob)) r;
          r = keep (has_attr ITEM_ATTRIBUTE_DURATION ob) (set_int ITEM_ATTRIBUTE_DURATION (scast (if sint (ucast (int_attr ITEM_ATTRIBUTE_DURATION ob) :: u32) < 0 then 0
          else ucast (int_attr ITEM_ATTRIBUTE_DURATION ob) :: u32))) r;
          r = keep (getDecaying ob = DECAYING_TRUE \<or> getDecaying ob = DECAYING_PENDING) (\<lambda>ob'. if getDecaying ob \<noteq> DECAYING_FALSE then setDecaying DECAYING_PENDING ob' else ob') r;
          r = keep (has_attr ITEM_ATTRIBUTE_NAME ob) (set_str ITEM_ATTRIBUTE_NAME (str_attr ITEM_ATTRIBUTE_NAME ob)) r;
          r = keep (has_attr ITEM_ATTRIBUTE_ARTICLE ob) (set_str ITEM_ATTRIBUTE_ARTICLE (str_attr ITEM_ATTRIBUTE_ARTICLE ob)) r;
          r = keep (has_attr ITEM_ATTRIBUTE_PLURALNAME ob) (set_str ITEM_ATTRIBUTE_PLURALNAME (str_attr ITEM_ATTRIBUTE_PLURALNAME ob)) r;
          r = keep (has_attr ITEM_ATTRIBUTE_WEIGHT ob) (set_int ITEM_ATTRIBUTE_WEIGHT (ucast (ucast (int_attr ITEM_ATTRIBUTE_WEIGHT ob) :: u32))) r;
          r = keep (has_attr ITEM_ATTRIBUTE_ATTACK ob) (set_int ITEM_ATTRIBUTE_ATTACK (scast (ucast (int_attr ITEM_ATTRIBUTE_ATTACK ob) :: u32))) r;
          r = keep (has_attr ITEM_ATTRIBUTE_ATTACK_SPEED ob) (set_int ITEM_ATTRIBUTE_ATTACK_SPEED (ucast (ucast (int_attr ITEM_ATTRIBUTE_ATTACK_SPEED ob) :: u32))) r;
          r = keep (has_attr ITEM_ATTRIBUTE_DEFENSE ob) (set_int ITEM_ATTRIBUTE_DEFENSE (scast (ucast (int_attr ITEM_ATTRIBUTE_DEFENSE ob) :: u32))) r;
          r = keep (has_attr ITEM_ATTRIBUTE_EXTRADEFENSE ob) (set_int ITEM_ATTRIBUTE_EXTRADEFENSE (scast (ucast (int_attr ITEM_ATTRIBUTE_EXTRADEFENSE ob) :: u32))) r;
          r = keep (has_attr ITEM_ATTRIBUTE_ARMOR ob) (set_int ITEM_ATTRIBUTE_ARMOR (scast (ucast (int_attr ITEM_ATTRIBUTE_ARMOR ob) :: u32))) r;
          r = keep (has_attr ITEM_ATTRIBUTE_HITCHANCE ob) (set_int ITEM_ATTRIBUTE_HITCHANCE (scast (ucast (int_attr ITEM_ATTRIBUTE_HITCHANCE ob) :: u8))) r;
          r = keep (has_attr ITEM_ATTRIBUTE_SHOOTRANGE ob) (set_int ITEM_ATTRIBUTE_SHOOTRANGE (ucast (ucast (int_attr ITEM_ATTRIBUTE_SHOOTRANGE ob) :: u8))) r;
          r = keep (has_attr ITEM_ATTRIBUTE_DECAYTO ob) (set_int ITEM_ATTRIBUTE_DECAYTO (scast (ucast (int_attr ITEM_ATTRIBUTE_DECAYTO ob) :: u32))) r;
          r = keep (has_attr ITEM_ATTRIBUTE_WRAPID ob) (set_int ITEM_ATTRIBUTE_WRAPID (ucast (ucast (int_attr ITEM_ATTRIBUTE_WRAPID ob) :: u16))) r;
          r = keep (has_attr ITEM_ATTRIBUTE_STOREITEM ob) (set_int ITEM_ATTRIBUTE_STOREITEM (ucast (ucast (int_attr ITEM_ATTRIBUTE_STOREITEM ob) :: u8))) r;
          r = keep (has_attr ITEM_ATTRIBUTE_OPENCONTAINER ob) (set_int ITEM_ATTRIBUTE_OPENCONTAINER (ucast (ucast (int_attr ITEM_ATTRIBUTE_OPENCONTAINER ob) :: u8))) r
      in keep (has_attr ITEM_ATTRIBUTE_CUSTOM ob) (set_customs (the (getCustomAttributeMap (item_attrs ob)))) r)"

lemmas stores_rules =
  stores_u8[OF readAttr.simps(1)] stores_u16[OF readAttr.simps(3)] stores_string[OF readAttr.simps(5)]
  stores_u32[OF readAttr.simps(6)] stores_string[OF readAttr.simps(7)] stores_string[OF readAttr.simps(8)]
  stores_u16[OF readAttr.simps(9)] stores_u32[OF readAttr.simps(10)] stores_u8[OF readAttr.simps(11)]
  stores_string[OF readAttr.simps(12)] stores_string[OF readAttr.simps(13)] stores_string[OF readAttr.simps(14)]
  stores_u32[OF readAttr.simps(15)] stores_u32[OF readAttr.simps(16)] stores_u32[OF readAttr.simps(17)]
  stores_u32[OF readAttr.simps(18)] stores_u32[OF readAttr.simps(19)] stores_u32[OF readAttr.simps(20)]
  stores_u8[OF readAttr.simps(21)] stores_u8[OF readAttr.simps(22)] stores_u32[OF readAttr.simps(23)]
  stores_u16[OF readAttr.simps(24)] stores_u8[OF readAttr.simps(25)] stores_u8[OF readAttr.simps(26)]

lemma serializeAttr_stores:
  assumes "\<And>k. length (str_attr k ob) \<le> 65535"
    and "has_attr ITEM_ATTRIBUTE_CUSTOM ob \<Longrightarrow>
      list_all (\<lambda>(key, v). length key \<le> 65535 \<and> storable v) (the (getCustomAttributeMap (item_attrs ob)))"
    and "has_attr ITEM_ATTRIBUTE_CUSTOM ob \<Longrightarrow> length (the (getCustomAttributeMap (item_attrs ob))) < 2 ^ 64"
  shows "stores it (serializeAttr it ob) (restore it ob)"
  unfolding serializeAttr_def restore_def Let_def
  by (intro stores_customs stores_rules stores_nothing assms)


abbreviation amap :: "item_state \<Rightarrow> itemAttrTypes \<rightharpoonup> attr_value" where
  "amap ob \<equiv> attr_map (item_attrs ob)"

abbreviation item_inv :: "item_state \<Rightarrow> bool" where
  "item_inv ob \<equiv> attrs_inv (item_attrs ob)"

named_theorems item_simps \<open>effects of the item setters on the invariant, the map and the count\<close>

lemma item_set_int [item_simps]:
  "item_inv ob \<Longrightarrow> item_inv (set_int k v ob)" "item_count (set_int k v ob) = item_count ob"
  "item_inv ob \<Longrightarrow> amap (set_int k v ob) j = (if isIntAttrType k \<and> j = k then Some (VInt v) else amap ob j)"
  by (simp_all add: set_int_def upd_def setIntAttr_inv setIntAttr_map del: attr_kinds)

lemma item_set_str [item_simps]:
  "item_inv ob \<Longrightarrow> item_inv (set_str k s ob)" "item_count (set_str k s ob) = item_count ob"
  "item_inv ob \<Longrightarrow> amap (set_str k s ob) j = (if isStrAttrType k \<and> s \<noteq> [] \<and> j = k then Some (VString s) else amap ob j)"
  by (simp_all add: set_str_def upd_def setStrAttr_inv setStrAttr_map del: attr_kinds)

lemma item_setSubType [item_simps]:
  "item_inv ob \<Longrightarrow> item_inv (setSubType it n ob)"
  "item_count (setSubType it n ob) = (if it_fluid it \<or> \<not> it_stackable it \<and> it_charges it \<noteq> 0 then item_count ob else ucast n)"
  "item_inv ob \<Longrightarrow> amap (setSubType it n ob) j =
     (if it_fluid it \<and> j = ITEM_ATTRIBUTE_FLUIDTYPE
       \<or> \<not> it_fluid it \<and> \<not> it_stackable it \<and> it_charges it \<noteq> 0 \<and> j = ITEM_ATTRIBUTE_CHARGES then Some (VInt (ucast n)) else amap ob j)"
  by (simp_all add: setSubType_def upd_def setIntAttr_inv setIntAttr_map)

lemma item_setActionId [item_simps]:
  "item_inv ob \<Longrightarrow> item_inv (setActionId n ob)" "item_count (setActionId n ob) = item_count ob"
  "item_inv ob \<Longrightarrow> amap (setActionId n ob) j =
     (if j = ITEM_ATTRIBUTE_ACTIONID then Some (VInt (ucast (if n < 100 then 100 else n))) else amap ob j)"
  by (simp_all add: setActionId_def upd_def setIntAttr_inv setIntAttr_map)

lemma item_setDecaying [item_simps]:
  "item_inv ob \<Longrightarrow> item_inv (setDecaying n ob)" "item_count (setDecaying n ob) = item_count ob"
  "item_inv ob \<Longrightarrow> amap (setDecaying n ob) j = (if j = ITEM_ATTRIBUTE_DECAYSTATE then Some (VInt (ucast n)) else amap ob j)"
  by (simp_all add: setDecaying_def upd_def setIntAttr_inv setIntAttr_map)

lemma item_setUniqueId [item_simps]:
  "item_inv ob \<Longrightarrow> item_inv (setUniqueId n ob)"
  by (simp add: setUniqueId_def upd_def setIntAttr_inv Let_def split: prod.split)

lemma item_set_customs [item_simps]:
  assumes "item_inv ob"
  shows "item_inv (set_customs m ob)" "item_count (set_customs m ob) = item_count ob"
    "j \<noteq> ITEM_ATTRIBUTE_CUSTOM \<Longrightarrow> amap (set_customs m ob) j = amap ob j"
proof -
  have "item_inv (set_customs m ob) \<and> item_count (set_customs m ob) = item_count ob \<and>
     (j \<noteq> ITEM_ATTRIBUTE_CUSTOM \<longrightarrow> amap (set_customs m ob) j = amap ob j)"
    using assms
  proof (induction m arbitrary: ob)
    case (Cons e m)
    then show ?case by (cases e) (simp add: set_customs_def upd_def setCustomAttribute_spec)
  qed (simp add: set_customs_def)
  then show "item_inv (set_customs m ob)" "item_count (set_customs m ob) = item_count ob"
    "j \<noteq> ITEM_ATTRIBUTE_CUSTOM \<Longrightarrow> amap (set_customs m ob) j = amap ob j" by simp_all
qed

lemma set_customs_fresh:
  assumes "item_inv ob" "custom_of (amap ob ITEM_ATTRIBUTE_CUSTOM) = (if m0 = [] then None else Some m0)"
    "distinct (map fst (m0 @ m))" "list_all (\<lambda>(key, v). lower_bytes key = key) m" "m0 @ m \<noteq> []"
  shows "amap (set_customs m ob) ITEM_ATTRIBUTE_CUSTOM = (if m = [] then amap ob ITEM_ATTRIBUTE_CUSTOM else Some (VCustom (m0 @ m)))"
  using assms
proof (induction m arbitrary: ob m0)
  case (Cons e m)
  obtain key v where e: "e = (key, v)" by (cases e)
  let ?ob = "upd (setCustomAttribute key v) ob"
  have "filter (\<lambda>e. fst e \<noteq> key) m0 = m0" using Cons.prems(3) by (force simp: e filter_id_conv)
  then have "amap ?ob ITEM_ATTRIBUTE_CUSTOM = Some (VCustom (m0 @ [(key, v)]))" and inv: "item_inv ?ob"
    using Cons.prems(1,2,4) setCustomAttribute_spec[of "item_attrs ob" key v] by (auto simp: e upd_def)
  then show ?case using Cons.IH[OF inv, of "m0 @ [(key, v)]"] Cons.prems(3,4) by (simp add: e set_customs_def)
qed (simp add: set_customs_def)


lemma keep_inv: "(\<And>ob. item_inv ob \<Longrightarrow> item_inv (f ob)) \<Longrightarrow> item_inv ob \<Longrightarrow> item_inv (keep c f ob)"
  by (simp add: keep_def)

lemma keep_effects [item_simps]:
  "item_inv ob \<Longrightarrow> amap (keep c (set_int k v) ob) j = (if c \<and> isIntAttrType k \<and> j = k then Some (VInt v) else amap ob j)"
  "item_inv ob \<Longrightarrow> amap (keep c (set_str k s) ob) j = (if c \<and> isStrAttrType k \<and> s \<noteq> [] \<and> j = k then Some (VString s) else amap ob j)"
  "item_inv ob \<Longrightarrow> amap (keep c (setActionId n) ob) j =
     (if c \<and> j = ITEM_ATTRIBUTE_ACTIONID then Some (VInt (ucast (if n < 100 then 100 else n))) else amap ob j)"
  "item_inv ob \<Longrightarrow> amap (keep c (setSubType it n) ob) j =
     (if c \<and> (it_fluid it \<and> j = ITEM_ATTRIBUTE_FLUIDTYPE
       \<or> \<not> it_fluid it \<and> \<not> it_stackable it \<and> it_charges it \<noteq> 0 \<and> j = ITEM_ATTRIBUTE_CHARGES) then Some (VInt (ucast n)) else amap ob j)"
  "item_inv ob \<Longrightarrow> amap (keep c (\<lambda>ob. if d then setDecaying st ob else ob) ob) j =
     (if c \<and> d \<and> j = ITEM_ATTRIBUTE_DECAYSTATE then Some (VInt (ucast st)) else amap ob j)"
  "item_inv ob \<Longrightarrow> j \<noteq> ITEM_ATTRIBUTE_CUSTOM \<Longrightarrow> amap (keep c (set_customs m) ob) j = amap ob j"
  by (simp_all add: keep_def item_simps)

lemma keep_counts [item_simps]:
  "item_count (keep c (set_int k v) ob) = item_count ob" "item_count (keep c (set_str k s) ob) = item_count ob"
  "item_count (keep c (setActionId n) ob) = item_count ob"
  "item_count (keep c (\<lambda>ob. if d then setDecaying st ob else ob) ob) = item_count ob"
  "item_inv ob \<Longrightarrow> item_count (keep c (set_customs m) ob) = item_count ob"
  "item_count (keep c (setSubType it n) ob) =
     (if c \<and> \<not> (it_fluid it \<or> \<not> it_stackable it \<and> it_charges it \<noteq> 0) then ucast n else item_count ob)"
  by (simp_all add: keep_def item_simps)

lemma keep_invs [item_simps]:
  "item_inv ob \<Longrightarrow> item_inv (keep c (set_int k v) ob)" "item_inv ob \<Longrightarrow> item_inv (keep c (set_str k s) ob)"
  "item_inv ob \<Longrightarrow> item_inv (keep c (setActionId n) ob)" "item_inv ob \<Longrightarrow> item_inv (keep c (setSubType it n) ob)"
  "item_inv ob \<Longrightarrow> item_inv (keep c (\<lambda>ob. if d then setDecaying st ob else ob) ob)"
  "item_inv ob \<Longrightarrow> item_inv (keep c (set_customs m) ob)"
  by (rule keep_inv, simp_all add: item_simps)+

text \<open>What fits the stream: integers the width they are stored with, strings and keys the length prefix, and custom
  attributes have a value and a key in lower case, as \<open>setCustomAttribute\<close> makes it.\<close>

definition fits_u :: "nat \<Rightarrow> u64 \<Rightarrow> bool" where
  "fits_u n v \<longleftrightarrow> unat v < 2 ^ n"

definition fits_s :: "nat \<Rightarrow> u64 \<Rightarrow> bool" where
  "fits_s n v \<longleftrightarrow> - (2 ^ (n - 1)) \<le> sint v \<and> sint v < 2 ^ (n - 1)"

definition fits_stored_widths :: "item_state \<Rightarrow> bool" where
  "fits_stored_widths ob \<longleftrightarrow>
     list_all (\<lambda>k. fits_s 32 (int_attr k ob))
       [ITEM_ATTRIBUTE_DATE, ITEM_ATTRIBUTE_ATTACK, ITEM_ATTRIBUTE_DEFENSE, ITEM_ATTRIBUTE_EXTRADEFENSE, ITEM_ATTRIBUTE_ARMOR,
        ITEM_ATTRIBUTE_DECAYTO, ITEM_ATTRIBUTE_DURATION] \<and>
     fits_s 8 (int_attr ITEM_ATTRIBUTE_HITCHANCE ob) \<and>
     list_all (\<lambda>k. fits_u 32 (int_attr k ob)) [ITEM_ATTRIBUTE_WEIGHT, ITEM_ATTRIBUTE_ATTACK_SPEED] \<and>
     list_all (\<lambda>k. fits_u 16 (int_attr k ob)) [ITEM_ATTRIBUTE_WRAPID, ITEM_ATTRIBUTE_CHARGES, ITEM_ATTRIBUTE_ACTIONID] \<and>
     list_all (\<lambda>k. fits_u 8 (int_attr k ob))
       [ITEM_ATTRIBUTE_SHOOTRANGE, ITEM_ATTRIBUTE_STOREITEM, ITEM_ATTRIBUTE_OPENCONTAINER, ITEM_ATTRIBUTE_FLUIDTYPE,
        ITEM_ATTRIBUTE_DECAYSTATE] \<and>
     list_all (\<lambda>k. length (str_attr k ob) \<le> 65535)
       [ITEM_ATTRIBUTE_TEXT, ITEM_ATTRIBUTE_WRITER, ITEM_ATTRIBUTE_DESCRIPTION, ITEM_ATTRIBUTE_NAME, ITEM_ATTRIBUTE_ARTICLE,
        ITEM_ATTRIBUTE_PLURALNAME] \<and>
     (case getCustomAttributeMap (item_attrs ob) of
        None \<Rightarrow> True
      | Some m \<Rightarrow> length m < 2 ^ 64 \<and>
          list_all (\<lambda>(key, v). length key \<le> 65535 \<and> lower_bytes key = key \<and> storable v) m)"

text \<open>The attributes that loading what was stored sets. The ids of owners, doors and unique items are never stored.\<close>

definition charges_of :: "item_state \<Rightarrow> u64" where
  "charges_of ob = int_attr ITEM_ATTRIBUTE_CHARGES ob"

definition written :: "item_traits \<Rightarrow> item_state \<Rightarrow> itemAttrTypes \<Rightarrow> bool" where
  "written it ob k \<longleftrightarrow>
     (if k \<in> {ITEM_ATTRIBUTE_UNIQUEID, ITEM_ATTRIBUTE_OWNER, ITEM_ATTRIBUTE_CORPSEOWNER, ITEM_ATTRIBUTE_DOORID} then False
      else if k = ITEM_ATTRIBUTE_FLUIDTYPE then it_fluid it
      else if k = ITEM_ATTRIBUTE_ACTIONID then it_moveable it \<and> int_attr k ob \<noteq> 0
      else if k = ITEM_ATTRIBUTE_CHARGES then charges_of ob \<noteq> 0 \<and> \<not> it_fluid it \<and> \<not> it_stackable it \<and> it_charges it \<noteq> 0
      else if k = ITEM_ATTRIBUTE_DECAYSTATE then int_attr k ob \<in> {1, 2}
      else if k = ITEM_ATTRIBUTE_DATE then int_attr k ob \<noteq> 0
      else if isStrAttrType k then str_attr k ob \<noteq> []
      else has_attr k ob)"

text \<open>The number they are set to. An item that decays comes back with its decay pending, an action id below 100 as 100, a
  negative duration as 0, and the charges of a fluid as its type.\<close>

definition reread :: "item_state \<Rightarrow> itemAttrTypes \<Rightarrow> u64" where
  "reread ob k =
     (if k = ITEM_ATTRIBUTE_DECAYSTATE then 2
      else if k = ITEM_ATTRIBUTE_ACTIONID then max 100 (int_attr k ob)
      else if k = ITEM_ATTRIBUTE_DURATION then if sint (int_attr k ob) < 0 then 0 else int_attr k ob
      else if k = ITEM_ATTRIBUTE_FLUIDTYPE \<and> charges_of ob \<noteq> 0 then charges_of ob
      else int_attr k ob)"

text \<open>The count that comes back: the stored one of a stackable item; but charges, where the type does not take them, are
  read into the count.\<close>

definition reread_count :: "item_traits \<Rightarrow> item_state \<Rightarrow> u8 \<Rightarrow> u8" where
  "reread_count it ob c =
     (if it_fluid it then c
      else if it_stackable it then if charges_of ob = 0 then item_count ob else ucast (charges_of ob)
      else if it_charges it = 0 \<and> charges_of ob \<noteq> 0 then ucast (charges_of ob) else c)"

lemma narrow_u:
  "fits_u 8 v \<Longrightarrow> ucast (ucast v :: u8) = v" "fits_u 16 v \<Longrightarrow> ucast (ucast v :: u16) = v" "fits_u 32 v \<Longrightarrow> ucast (ucast v :: u32) = v"
  by (simp_all add: fits_u_def word_unat_eq_iff unsigned_ucast_eq unsigned_take_bit_eq take_bit_nat_eq_self)

lemma narrow_s:
  "fits_s 8 v \<Longrightarrow> scast (ucast v :: u8) = v" "fits_s 32 v \<Longrightarrow> scast (ucast v :: u32) = v"
  "fits_s 32 v \<Longrightarrow> sint (ucast v :: u32) = sint v"
proof -
  have eq: "fits_s 8 v \<Longrightarrow> sint (ucast v :: u8) = sint v" "fits_s 32 v \<Longrightarrow> sint (ucast v :: u32) = sint v"
  proof -
    have "signed_take_bit n (uint v) = signed_take_bit n (sint v)" if "n < 63" for n
      using that by (simp add: sint_uint)
    then show "fits_s 8 v \<Longrightarrow> sint (ucast v :: u8) = sint v" "fits_s 32 v \<Longrightarrow> sint (ucast v :: u32) = sint v"
      by (simp_all add: fits_s_def signed_ucast_eq signed_take_bit_int_eq_self)
  qed
  then show "fits_s 8 v \<Longrightarrow> scast (ucast v :: u8) = v" "fits_s 32 v \<Longrightarrow> scast (ucast v :: u32) = v"
    "fits_s 32 v \<Longrightarrow> sint (ucast v :: u32) = sint v"
    by (simp_all add: scast_eq)
qed

lemma ucast16_zero: "fits_u 16 v \<Longrightarrow> (ucast v :: u16) = 0 \<longleftrightarrow> v = 0"
  by (metis narrow_u(2) unsigned_0)


lemma restore_inv: "item_inv r \<Longrightarrow> item_inv (restore it ob r)"
  by (simp only: restore_def Let_def item_simps)

lemma stored_widths:
  assumes "fits_stored_widths ob"
  shows "fits_s 32 (int_attr ITEM_ATTRIBUTE_DATE ob)" "fits_s 32 (int_attr ITEM_ATTRIBUTE_ATTACK ob)"
    "fits_s 32 (int_attr ITEM_ATTRIBUTE_DEFENSE ob)" "fits_s 32 (int_attr ITEM_ATTRIBUTE_EXTRADEFENSE ob)"
    "fits_s 32 (int_attr ITEM_ATTRIBUTE_ARMOR ob)" "fits_s 32 (int_attr ITEM_ATTRIBUTE_DECAYTO ob)"
    "fits_s 32 (int_attr ITEM_ATTRIBUTE_DURATION ob)"
    "fits_s 8 (int_attr ITEM_ATTRIBUTE_HITCHANCE ob)" "fits_u 32 (int_attr ITEM_ATTRIBUTE_WEIGHT ob)"
    "fits_u 32 (int_attr ITEM_ATTRIBUTE_ATTACK_SPEED ob)" "fits_u 16 (int_attr ITEM_ATTRIBUTE_WRAPID ob)"
    "fits_u 16 (int_attr ITEM_ATTRIBUTE_CHARGES ob)" "fits_u 16 (int_attr ITEM_ATTRIBUTE_ACTIONID ob)"
    "fits_u 8 (int_attr ITEM_ATTRIBUTE_SHOOTRANGE ob)" "fits_u 8 (int_attr ITEM_ATTRIBUTE_STOREITEM ob)"
    "fits_u 8 (int_attr ITEM_ATTRIBUTE_OPENCONTAINER ob)" "fits_u 8 (int_attr ITEM_ATTRIBUTE_FLUIDTYPE ob)"
    "fits_u 8 (int_attr ITEM_ATTRIBUTE_DECAYSTATE ob)"
  using assms by (simp_all add: fits_stored_widths_def)

lemma narrow_subtypes:
  "ucast (ucast (ucast (ucast (c :: u8) :: u16) :: u8) :: u16) = c"
  "fits_u 8 v \<Longrightarrow> ucast (ucast (ucast (ucast v :: u16) :: u8) :: u16) = v"
proof -
  have "take_bit 16 (unat c) = unat c" by (rule take_bit_nat_eq_self) (rule less_trans[OF unat8_lt], simp)
  then show "ucast (ucast (ucast (ucast c :: u16) :: u8) :: u16) = c"
    by (simp add: word_unat_eq_iff unsigned_ucast_eq unsigned_take_bit_eq)
  show "ucast (ucast (ucast (ucast v :: u16) :: u8) :: u16) = v" if "fits_u 8 v"
    using that by (simp add: fits_u_def word_unat_eq_iff unsigned_ucast_eq unsigned_take_bit_eq take_bit_nat_eq_self)
qed

lemma narrow_twice: "ucast (ucast (v :: u64) :: u16) = (ucast v :: u8)"
  by (simp add: word_unat_eq_iff unsigned_ucast_eq unsigned_take_bit_eq)

lemma restore_count:
  assumes "item_inv r" "fits_stored_widths ob"
  shows "item_count (restore it ob r) = reread_count it ob (item_count r)"
  using stored_widths(12)[OF assms(2)]
  by (auto simp: restore_def Let_def item_simps assms(1) getSubType_def narrow_subtypes ucast16_zero narrow_twice reread_count_def charges_of_def)

lemma action_id_least: "fits_u 16 v \<Longrightarrow> (ucast v :: u16) < 100 \<longleftrightarrow> v < 100"
  by (simp add: word_less_nat_alt unsigned_ucast_eq unsigned_take_bit_eq take_bit_nat_eq_self fits_u_def)

lemma decaying_states: "fits_u 8 v \<Longrightarrow> (ucast v :: u8) = 1 \<longleftrightarrow> v = 1" "fits_u 8 v \<Longrightarrow> (ucast v :: u8) = 2 \<longleftrightarrow> v = 2"
  by (simp_all add: word_unat_eq_iff unsigned_ucast_eq unsigned_take_bit_eq take_bit_nat_eq_self fits_u_def)

lemma restore_int:
  assumes "item_inv r" "fits_stored_widths ob" "isIntAttrType k"
  shows "amap (restore it ob r) k = (if written it ob k then Some (VInt (reread ob k)) else amap r k)"
proof -
  note [simp] = stored_widths[OF assms(2)] assms(1) restore_def Let_def item_simps written_def reread_def charges_of_def narrow_u narrow_s
    narrow_subtypes ucast16_zero getSubType_def
  show ?thesis
  proof (cases k)
    case ITEM_ATTRIBUTE_ACTIONID
    then show ?thesis by (auto simp: action_id_least max_def)
  next
    case ITEM_ATTRIBUTE_DECAYSTATE
    then show ?thesis by (auto simp: getDecaying_def DECAYING_FALSE_def DECAYING_TRUE_def DECAYING_PENDING_def decaying_states)
  next
    case ITEM_ATTRIBUTE_CHARGES
    then show ?thesis by auto
  next
    case ITEM_ATTRIBUTE_DURATION
    then show ?thesis by simp
  next
    case ITEM_ATTRIBUTE_FLUIDTYPE
    then show ?thesis by auto
  qed (use assms(3) in simp_all)
qed

lemma stored_string_nonempty:
  assumes "item_inv ob" "str_attr k ob \<noteq> []"
  shows "has_attr k ob"
  using assms hasAttribute_map[OF assms(1), of k] by (auto simp: str_attr_def getStrAttr_map has_attr_def split: if_splits)

lemma restore_str:
  assumes "item_inv r" "item_inv ob" "isStrAttrType k"
  shows "amap (restore it ob r) k = (if written it ob k then Some (VString (str_attr k ob)) else amap r k)"
proof -
  note [simp] = assms(1) restore_def Let_def item_simps written_def
  show ?thesis using assms(3) stored_string_nonempty[OF assms(2), of k] by (cases k) auto
qed

lemma restore_custom:
  assumes "item_inv r" "item_inv ob" "fits_stored_widths ob" "\<not> has_attr ITEM_ATTRIBUTE_CUSTOM r"
  shows "getCustomAttributeMap (item_attrs (restore it ob r)) =
    (if getCustomAttributeMap (item_attrs ob) = Some [] then None else getCustomAttributeMap (item_attrs ob))"
proof -
  let ?K = "ITEM_ATTRIBUTE_CUSTOM"
  obtain r' where r': "restore it ob r = keep (has_attr ?K ob) (set_customs (the (getCustomAttributeMap (item_attrs ob)))) r'"
    and inv: "item_inv r'" and none: "amap r' ?K = None"
  proof -
    have "amap r ?K = None" using assms(1,4) by (simp add: has_attr_def hasAttribute_map)
    then show thesis by (intro that[OF restore_def[unfolded Let_def]]) (simp_all add: item_simps assms(1))
  qed
  show ?thesis
  proof (cases "has_attr ?K ob")
    case True
    then obtain m where m: "amap ob ?K = Some (VCustom m)" "distinct (map fst m)"
      using custom_value[OF assms(2)] hasAttribute_map[OF assms(2)] unfolding has_attr_def by metis
    then have get: "getCustomAttributeMap (item_attrs ob) = Some m" using assms(2) by (simp add: getCustomAttributeMap_map)
    have lower: "list_all (\<lambda>(key, v). lower_bytes key = key) m"
      using assms(3) get by (auto simp: fits_stored_widths_def list_all_iff)
    show ?thesis
    proof (cases "m = []")
      case True
      then have "restore it ob r = r'" using r' get by (simp add: keep_def set_customs_def)
      then show ?thesis using True get inv none by (simp add: getCustomAttributeMap_map)
    next
      case False
      then have "amap (set_customs m r') ?K = Some (VCustom m)"
        using set_customs_fresh[OF inv, of "[]" m] none m(2) lower by simp
      then show ?thesis using True False r' get item_set_customs(1)[OF inv] by (simp add: keep_def getCustomAttributeMap_map)
    qed
  next
    case False
    then have "amap ob ?K = None" using assms(2) by (simp add: has_attr_def hasAttribute_map)
    then show ?thesis using False r' inv none assms(2) by (simp add: keep_def getCustomAttributeMap_map)
  qed
qed


section \<open>Any stream keeps the vector well-formed\<close>

lemma custom_loop_inv:
  "item_inv ob \<Longrightarrow> case custom_loop n s ob of READ_ERROR ob' \<Rightarrow> item_inv ob' | READ_CONTINUE ob' _ \<Rightarrow> item_inv ob'"
proof (induction n arbitrary: s ob)
  case (Suc n)
  have "item_inv (upd (setCustomAttribute key v) ob)" for key v using Suc.prems by (simp add: upd_def setCustomAttribute_spec)
  then show ?case using Suc by (simp split: option.split prod.split)
qed simp

lemma readAttr_inv:
  assumes "item_inv ob"
  shows "case readAttr it a s ob of READ_ERROR ob' \<Rightarrow> item_inv ob' | READ_CONTINUE ob' _ \<Rightarrow> item_inv ob'"
proof (cases a)
  case ATTR_CUSTOM_ATTRIBUTES
  then show ?thesis using assms custom_loop_inv by (simp split: option.split)
qed (use assms in \<open>simp_all add: with_read_def skip_bytes_def item_simps split: option.split\<close>)

lemma unserializeAttr_inv:
  "item_inv ob \<Longrightarrow> item_inv (fst (snd (unserializeAttr it s ob))) \<and> length (snd (snd (unserializeAttr it s ob))) \<le> length s"
proof (induction it s ob rule: unserializeAttr.induct)
  case (1 it s ob)
  show ?case
  proof (cases "read8 s")
    case None
    then show ?thesis using 1(2) by (subst (1 2) unserializeAttr.simps) simp
  next
    case (Some p)
    obtain t s1 where p: "p = (t, s1)" by (cases p)
    note less = read_shrinks(1)[OF Some[unfolded p]]
    show ?thesis
    proof (cases "t = 0 \<or> attr_of t = None")
      case True
      then show ?thesis using Some p 1(2) less by (subst (1 2) unserializeAttr.simps) auto
    next
      case False
      then obtain a where a: "t \<noteq> 0" "attr_of t = Some a" by auto
      show ?thesis
      proof (cases "readAttr it a s1 ob")
        case (READ_ERROR ob')
        then show ?thesis using Some p a readAttr_inv[OF 1(2), of it a s1] less by (subst (1 2) unserializeAttr.simps) simp
      next
        case (READ_CONTINUE ob' s2)
        then have "item_inv ob'" using readAttr_inv[OF 1(2), of it a s1] by simp
        then have "item_inv (fst (snd (unserializeAttr it s2 ob')))" "length (snd (snd (unserializeAttr it s2 ob'))) \<le> length s2"
          using 1(1)[OF Some p[symmetric] a(1) a(2) READ_CONTINUE] by simp_all
        moreover have "unserializeAttr it s ob = unserializeAttr it s2 ob'"
          by (subst unserializeAttr.simps) (simp add: Some p a READ_CONTINUE)
        ultimately show ?thesis using less readAttr_shrinks[OF READ_CONTINUE] by simp
      qed
    qed
  qed
qed

lemma stores_loads:
  assumes "stores it w f"
  shows "unserializeAttr it (w []) r = (True, f r, [])"
proof -
  obtain bs where bs: "w [] = bs" "unserializeAttr it (bs @ []) r = unserializeAttr it [] (f r)"
    using assms unfolding stores_def by (metis append_Nil)
  moreover have "unserializeAttr it [] (f r) = (True, f r, [])"
    by (subst unserializeAttr.simps) (simp add: read8_def prop_read_def)
  ultimately show ?thesis by simp
qed

lemma stored_customs_fit:
  assumes "item_inv ob" "fits_stored_widths ob" and has: "has_attr ITEM_ATTRIBUTE_CUSTOM ob"
  shows "list_all (\<lambda>(key, v). length key \<le> 65535 \<and> storable v) (the (getCustomAttributeMap (item_attrs ob)))"
    "length (the (getCustomAttributeMap (item_attrs ob))) < 2 ^ 64"
proof -
  have "amap ob ITEM_ATTRIBUTE_CUSTOM \<noteq> None" using has assms(1) by (simp add: has_attr_def hasAttribute_map)
  then obtain m where "amap ob ITEM_ATTRIBUTE_CUSTOM = Some (VCustom m)" using custom_value[OF assms(1)] by metis
  then have "getCustomAttributeMap (item_attrs ob) = Some m" using assms(1) by (simp add: getCustomAttributeMap_map)
  then show "list_all (\<lambda>(key, v). length key \<le> 65535 \<and> storable v) (the (getCustomAttributeMap (item_attrs ob)))"
    "length (the (getCustomAttributeMap (item_attrs ob))) < 2 ^ 64"
    using assms(2) by (auto simp: fits_stored_widths_def list_all_iff)
qed

section \<open>Properties\<close>

text \<open>C39: Loading what was stored of an item whose integers fit their stored widths, whose strings fit the length prefix and
  whose custom attributes are not blank and have keys in lower case, succeeds and uses up the stream.
  Every stored attribute comes back with its value, except: an item that decays comes back with its decay pending,
  an action id below 100 comes back as 100, a negative duration as 0, and charges, which only an item with neither count nor
  fluid whose type has charges gets back, are read into the fluid type of a fluid and into the count of any other item.
  Attributes that are not stored (unique id, owner, corpse owner, door id, the action id of an item that cannot be
  moved, and those the item does not have) keep the value of the item that is being loaded. Custom attributes come back with their keys and
  values, an empty map of them as none. The count of a stackable item without charges comes back.\<close>

theorem item_attributes_roundtrip:
  assumes "attrs_inv (item_attrs ob)" "attrs_inv (item_attrs r)" "fits_stored_widths ob" "\<not> has_attr ITEM_ATTRIBUTE_CUSTOM r"
  shows "\<exists>ob'. unserializeAttr it (serializeAttr it ob []) r = (True, ob', []) \<and>
     (\<forall>k. isIntAttrType k \<longrightarrow>
        attr_map (item_attrs ob') k = (if written it ob k then Some (VInt (reread ob k)) else attr_map (item_attrs r) k)) \<and>
     (\<forall>k. isStrAttrType k \<longrightarrow>
        attr_map (item_attrs ob') k = (if written it ob k then Some (VString (str_attr k ob)) else attr_map (item_attrs r) k)) \<and>
     getCustomAttributeMap (item_attrs ob') =
       (if getCustomAttributeMap (item_attrs ob) = Some [] then None else getCustomAttributeMap (item_attrs ob)) \<and>
     item_count ob' = reread_count it ob (item_count r)"
proof -
  have "length (str_attr k ob) \<le> 65535" for k
    using assms(3) by (cases k) (auto simp: fits_stored_widths_def str_attr_def getStrAttr_def)
  then have "stores it (serializeAttr it ob) (restore it ob)" using stored_customs_fit[OF assms(1,3)] by (intro serializeAttr_stores) auto
  then have "unserializeAttr it (serializeAttr it ob []) r = (True, restore it ob r, [])" by (rule stores_loads)
  then show ?thesis
    using restore_int[OF assms(2,3)] restore_str[OF assms(2,1)] restore_custom[OF assms(2,1,3,4)] restore_count[OF assms(2,3)]
    by (intro exI[of _ "restore it ob r"]) simp
qed


definition sample_item :: item_state where
  "sample_item = \<lparr>item_this = 0, item_count = 5,
     item_attrs = setIntAttr ITEM_ATTRIBUTE_ACTIONID 2000 (setStrAttr ITEM_ATTRIBUTE_TEXT [104, 105] no_attributes),
     item_game = \<lparr>uniqueItems = Map.empty, bedSleepersMap = Map.empty\<rparr>\<rparr>"

definition fresh_item :: item_state where
  "fresh_item = sample_item\<lparr>item_count := 1, item_attrs := no_attributes\<rparr>"

definition coin_traits :: item_traits where
  "coin_traits = \<lparr>it_stackable = True, it_fluid = False, it_charges = 0, it_moveable = True\<rparr>"

lemma sample_item_facts:
  "attrs_inv (item_attrs sample_item)" "attrs_inv (item_attrs fresh_item)" "\<not> has_attr ITEM_ATTRIBUTE_CUSTOM fresh_item"
  "attr_map (item_attrs sample_item) = [ITEM_ATTRIBUTE_TEXT \<mapsto> VString [104, 105], ITEM_ATTRIBUTE_ACTIONID \<mapsto> VInt 2000]"
  by (simp_all add: sample_item_def fresh_item_def setIntAttr_inv setStrAttr_inv has_attr_def hasAttribute_map setIntAttr_map setStrAttr_map)

lemma sample_item_widths: "fits_stored_widths sample_item"
proof -
  have "getCustomAttributeMap (item_attrs sample_item) = None"
    by (simp add: sample_item_facts getCustomAttributeMap_map)
  moreover have "int_attr k sample_item = (if k = ITEM_ATTRIBUTE_ACTIONID then 2000 else 0)" for k
    by (simp add: int_attr_def sample_item_facts getIntAttr_map)
  moreover have "str_attr k sample_item = (if k = ITEM_ATTRIBUTE_TEXT then [104, 105] else [])" for k
    by (simp add: str_attr_def sample_item_facts getStrAttr_map)
  ultimately show ?thesis by (simp add: fits_stored_widths_def fits_u_def fits_s_def)
qed

theorem item_attributes_roundtrip_witness:
  "\<exists>ob'. unserializeAttr coin_traits (serializeAttr coin_traits sample_item []) fresh_item = (True, ob', []) \<and>
     attr_map (item_attrs ob') ITEM_ATTRIBUTE_TEXT = Some (VString [104, 105]) \<and> item_count ob' = 5"
proof -
  have str: "str_attr ITEM_ATTRIBUTE_TEXT sample_item = [104, 105]"
    by (simp add: str_attr_def sample_item_facts getStrAttr_map)
  have traits: "it_stackable coin_traits" "\<not> it_fluid coin_traits" "item_count sample_item = 5"
    by (simp_all add: coin_traits_def sample_item_def)
  have charges: "charges_of sample_item = 0" by (simp add: charges_of_def int_attr_def sample_item_facts getIntAttr_map)
  show ?thesis
    using item_attributes_roundtrip[OF sample_item_facts(1,2) sample_item_widths sample_item_facts(3), of coin_traits] str traits
    by (auto simp: written_def reread_count_def charges)
qed

text \<open>A stackable item that carries a charges attribute comes back with another count: the charges are stored
  after the count and read into it, cut to 8 bits, and the attribute itself is lost.\<close>

theorem charges_overwrite_count:
  assumes "attrs_inv (item_attrs ob)" "attrs_inv (item_attrs r)" "\<And>k. length (str_attr k ob) \<le> 65535"
    "\<not> has_attr ITEM_ATTRIBUTE_CUSTOM ob" "it_stackable it" "\<not> it_fluid it"
    "(ucast (int_attr ITEM_ATTRIBUTE_CHARGES ob) :: u16) \<noteq> 0"
  shows "\<exists>ob'. unserializeAttr it (serializeAttr it ob []) r = (True, ob', []) \<and>
     item_count ob' = ucast (int_attr ITEM_ATTRIBUTE_CHARGES ob) \<and>
     attr_map (item_attrs ob') ITEM_ATTRIBUTE_CHARGES = attr_map (item_attrs r) ITEM_ATTRIBUTE_CHARGES"
proof -
  have "stores it (serializeAttr it ob) (restore it ob)" using assms(3,4) by (intro serializeAttr_stores) auto
  then have "unserializeAttr it (serializeAttr it ob []) r = (True, restore it ob r, [])" by (rule stores_loads)
  moreover have "item_count (restore it ob r) = ucast (int_attr ITEM_ATTRIBUTE_CHARGES ob)"
    using assms(5-7) by (simp add: restore_def Let_def item_simps assms(2) narrow_twice)
  moreover have "amap (restore it ob r) ITEM_ATTRIBUTE_CHARGES = amap r ITEM_ATTRIBUTE_CHARGES"
    using assms(5,6) by (simp add: restore_def Let_def item_simps assms(2))
  ultimately show ?thesis by blast
qed

theorem charges_overwrite_count_witness:
  "\<exists>ob'. unserializeAttr coin_traits (serializeAttr coin_traits (set_int ITEM_ATTRIBUTE_CHARGES 7 fresh_item) []) fresh_item = (True, ob', []) \<and>
     item_count ob' = 7"
proof -
  let ?ob = "set_int ITEM_ATTRIBUTE_CHARGES 7 fresh_item"
  have inv: "attrs_inv (item_attrs ?ob)" by (simp add: item_simps sample_item_facts)
  have empty: "attr_map (item_attrs fresh_item) = Map.empty" by (simp add: fresh_item_def)
  have attrs: "str_attr k ?ob = []" "\<not> has_attr ITEM_ATTRIBUTE_CUSTOM ?ob" "int_attr ITEM_ATTRIBUTE_CHARGES ?ob = 7" for k
    using inv by (simp_all add: str_attr_def has_attr_def int_attr_def getStrAttr_map hasAttribute_map getIntAttr_map
        item_simps sample_item_facts empty)
  show ?thesis
    using charges_overwrite_count[OF inv sample_item_facts(2), of coin_traits] attrs by (auto simp: coin_traits_def)
qed

text \<open>C40: Reading any byte sequence into an item returns, keeps the mask and the vector of attributes in agreement,
  with no type twice, and reads only bytes of the sequence.\<close>

theorem hostile_stream_keeps_attributes:
  assumes "attrs_inv (item_attrs r)"
  shows "\<exists>ok ob' rest. unserializeAttr it s r = (ok, ob', rest) \<and> length rest \<le> length s \<and>
     distinct (map fst (attr_list (item_attrs ob'))) \<and>
     (\<forall>k. hasAttribute k (item_attrs ob') = (k \<in> fst ` set (attr_list (item_attrs ob'))))"
  using unserializeAttr_inv[OF assms, of it s] unfolding attrs_inv_def by (metis prod.collapse)

theorem hostile_stream_keeps_attributes_witness:
  "\<exists>ok ob' rest. unserializeAttr coin_traits [15, 9, 7, 1] fresh_item = (ok, ob', rest) \<and> length rest \<le> 4"
  using hostile_stream_keeps_attributes[OF sample_item_facts(2), of coin_traits "[15, 9, 7, 1]"] by auto

end
