(* ===== verification/Spec2Isabelle.thy ===== *)
theory Spec2Isabelle
  imports Condition_Effects Game_Packets Map_Description Tile_Stack Tile_Queries World_Map Map_Spectators Sight_Lines Path_Finding Protocol_Layer World_Position Return_Values Wildcard_Tree Text_Tools Game_Registry Party_System
    Task_Dispatcher Task_Scheduler Item_Container Guilds Vocations Connection_Bans File_Loader Item_Attributes
begin

text \<open>
  \<^bold>\<open>A verification development of the game server\<close> in \<open>src/src\<close> (C++). The server accepts connections, decrypts and
  parses packets, turns them into requests that a single dispatcher thread executes against the world (map,
  tiles, creatures, items, parties, guilds), and sends the effects back. Each theory models one part with
  definitions that follow the functions of the source, one by one and under their names, and proves what makes
  the part correct.

  \<^bold>\<open>Conventions.\<close> Fixed-width integers whose wrap-around matters are words; other arithmetic is on integers, and the
  theory says why that is enough. Objects shared by pointers are addresses into a store, and a null pointer is
  \<open>None\<close>. A failed assertion, a null dereference or an exception is \<open>None\<close> too. Loops whose termination is not
  structural are functions with a measure, or partial functions for which a theorem shows that they return; there
  is no fuel. Calls into Lua scripts, the database and OpenSSL are parameters. The messages that operations send
  to clients are not part of the states, except where a theory says so.

  \<^bold>\<open>Network.\<close> \<open>Network_Message\<close> (\<open>networkmessage.h/.cpp\<close>): the buffer with its readers and writers; no access but
  \<open>getPreviousByte\<close> leaves the buffer, and what was written is read back. \<open>Xtea\<close> (\<open>xtea.cpp\<close>) and \<open>Checksum\<close> (\<open>adlerChecksum\<close> of \<open>tools.cpp\<close>):
  decryption inverts encryption, and the chunked checksum is Adler-32. \<open>Protocol_Layer\<close> (\<open>protocol.cpp\<close>,
  \<open>outputmessage.h\<close>): padding, encryption and headers; this theory proves that a message sent through the layers is
  read back by the receiver. \<open>Connection_Bans\<close> (\<open>ban.cpp\<close>): the connection throttle.

  \<^bold>\<open>Execution.\<close> \<open>Task_Dispatcher\<close> (\<open>tasks.cpp\<close>) and \<open>Task_Scheduler\<close> (\<open>scheduler.cpp\<close>): the task queue in order, timers
  that fire once, in time and never after they were stopped, and the hand-over between the two, through the
  interface \<open>task_sink\<close>.

  \<^bold>\<open>World.\<close> \<open>World_Position\<close> (\<open>position.h\<close>). \<open>World_Map\<close> (\<open>map.h/.cpp\<close>): the quad tree of leaves refines a grid of tiles.
  \<open>Map_Spectators\<close>: who sees a position, with both caches and the creatures that move between leaves, over all
  histories. \<open>Sight_Lines\<close>: the line walk ends and stays within half a tile of the line. \<open>Path_Finding\<close>: the search
  ends and its result is a walkable route that meets the condition. \<open>Tile_Stack\<close> and
  \<open>Tile_Queries\<close> (\<open>tile.h/.cpp\<close>): the items and creatures of a tile with its flags, and the queries the game asks before
  it moves something. \<open>Map_Description\<close> (the map writers of \<open>protocolgame.cpp\<close>): what a client is told of tiles and of the
  map when a creature moves, and the creatures it knows.

  \<^bold>\<open>Items.\<close> \<open>Item_Container\<close> (\<open>container.cpp\<close> and the chests and inboxes): operations keep recorded weights, parents and
  acyclicity. \<open>Item_Attributes\<close> (\<open>item.h/.cpp\<close>): the attribute vector and its mask, and storing and loading it,
  with the attributes that come back changed.
  \<open>File_Loader\<close> (\<open>fileloader.h/.cpp\<close>): the OTB format and property streams.

  \<^bold>\<open>Players.\<close> \<open>Game_Registry\<close> (\<open>game.cpp\<close>) and \<open>Wildcard_Tree\<close> (\<open>wildcardtree.cpp\<close>): the indexes of creatures and
  prefix lookup, through the interface \<open>name_index\<close>. \<open>Party_System\<close> (\<open>party.cpp\<close>) and \<open>Guilds\<close> (\<open>guild.cpp\<close>): request
  handlers and membership. \<open>Vocations\<close> (\<open>vocation.h/.cpp\<close>): requirement caches. \<open>Conditions\<close>, \<open>Condition_Damage\<close> and
  \<open>Condition_Effects\<close> (\<open>condition.h/.cpp\<close>, the condition list of \<open>creature.cpp\<close>): parameters and storage of conditions,
  damage over time, and how conditions start, tick, merge and end on a creature; \<open>Float_Rounding\<close> holds the single and
  double precision arithmetic they use. \<open>Game_Packets\<close> (the packet readers of \<open>protocolgame.cpp\<close>): every packet a client
  can send and the request it queues. \<open>Return_Values\<close> and \<open>Text_Tools\<close>
  (\<open>tools.cpp\<close>): result codes and string helpers.

  \<^bold>\<open>Shared.\<close> \<open>Server_Prelude\<close> holds the word types, byte codecs, ordered maps and the interfaces that components
  share: \<open>fixed_codec\<close>, \<open>invertible_step\<close>, \<open>invariant_system\<close> (operations that keep an invariant while they are
  allowed) and \<open>refined_store\<close> (operations seen through an abstraction).

  \<^bold>\<open>Not modelled.\<close> Lua scripting, SQL persistence, XML and configuration loading, sockets and process start belong to
  libraries outside the sources. Formulas in floating point (damage, experience multipliers) are left out or are
  parameters. The behaviour of monsters and npcs, spells and weapons
  is driven by scripts, random numbers and such formulas; houses, beds and spawns are bound to the database and to XML
  data. Of the request handlers in \<open>game.cpp\<close> those of parties are modelled.
\<close>

section \<open>Properties that span components\<close>

text \<open>C1: end-to-end framing. Typed fields written into a fresh output message, sent through
  \<open>onSendMessage\<close> with encryption and Adler checksum, transported as bytes into a receive buffer with
  arbitrary contents behind them, are accepted by the header check, the checksum check and the
  decryption of the receiving side and read back unchanged.\<close>

theorem send_receive_roundtrip:
  assumes "length buf = 24590" and "list_all field_ok fs" and "length (message_bytes fs) + 16 < 24576"
    and "encryptionEnabled p" "\<not> rawMessages p" "checksumMode p = CHECKSUM_ADLER"
  shows "\<exists>m om wire. write_fields fs (new_message buf) = Some m
     \<and> onSendMessage p ((new_output buf)\<lparr>om_msg := m\<rparr>) = Some om \<and> output_bytes om = Some wire
     \<and> (\<forall>rest. length (wire @ rest) = 24590 \<longrightarrow>
           (\<exists>m' m''. receive_packet p (wire @ rest) = Some (ParsePacket m')
              \<and> read_fields (map type_of fs) m' = Some (fs, m'')))"
proof -
  obtain m where m: "write_fields fs (new_message buf) = Some m" "wr_view m (message_bytes fs)"
    using write_fields_view[OF wr_view_new[OF assms(1)], of fs] assms(2,3) by auto
  let ?om = "(new_output buf)\<lparr>om_msg := m\<rparr>"
  have "wr_view (om_msg ?om) (message_bytes fs)" and "om_start ?om = INITIAL_BUFFER_POSITION"
    using m(2) by (simp_all add: new_output_def)
  then obtain om c where om: "onSendMessage p ?om = Some om" "output_bytes om = Some (wire_format c)"
      and c: "xtea_encrypt (wire_plain (message_bytes fs)) (length (wire_plain (message_bytes fs))) (p_key p) = Some c"
        "length c = length (wire_plain (message_bytes fs))"
    using onSendMessage_wire[of ?om "message_bytes fs" p] assms(3-6) by auto
  have "\<exists>m' m''. receive_packet p (wire_format c @ rest) = Some (ParsePacket m')
              \<and> read_fields (map type_of fs) m' = Some (fs, m'')"
    if rest: "length (wire_format c @ rest) = 24590" for rest
  proof -
    obtain m' where m': "receive_packet p (wire_format c @ rest) = Some (ParsePacket m')"
        "rd_view m' (message_bytes fs)"
      using receive_wire[OF c assms(4,3) rest] by blast
    then show ?thesis using read_fields_view[of m' fs "[]"] assms(2) by auto
  qed
  then show ?thesis using m(1) om by blast
qed

theorem send_receive_roundtrip_witness:
  "\<exists>m om wire. write_fields [F8 0x14, FString [72, 105]] (new_message (replicate 24590 0)) = Some m
     \<and> onSendMessage \<lparr>p_key = (1, 2, 3, 4), encryptionEnabled = True, checksumMode = CHECKSUM_ADLER, rawMessages = False\<rparr>
         ((new_output (replicate 24590 0))\<lparr>om_msg := m\<rparr>) = Some om \<and> output_bytes om = Some wire"
  using send_receive_roundtrip[of "replicate 24590 0" "[F8 0x14, FString [72, 105]]"
      "\<lparr>p_key = (1, 2, 3, 4), encryptionEnabled = True, checksumMode = CHECKSUM_ADLER, rawMessages = False\<rparr>"]
  by auto

end
